(* ===== verification/Js_Base.thy ===== *)
theory Js_Base
  imports Complex_Main
begin

text \<open>
  The prelude: the parts of JavaScript that every component uses.

  \<^item> Errors thrown by the code are values of \<open>js_error\<close>; a fallible function returns
    \<open>'a res\<close> (\<open>Inl\<close> the error, \<open>Inr\<close> the result). \<open>and_then\<close> sequences two calls,
    \<open>fold_res\<close> is a \<open>for\<close> loop whose body may throw, \<open>map_res\<close> a \<open>map\<close> whose
    callback may throw.
  \<^item> Strings are lists of characters, each character standing for a code unit below 256.
    \<open>js_trim\<close>, \<open>nat_str\<close>, \<open>int_str\<close> and \<open>digits_value\<close> are \<open>String.trim\<close>, the
    decimal rendering of an integer and its inverse.
  \<^item> The collections \<open>res_simps\<close> and \<open>str_simps\<close> hold the facts that unfold fallible
    code and strings; \<open>str_eval\<close> evaluates the string functions on closed terms.
\<close>

named_theorems res_simps \<open>unfolding of fallible code\<close>
named_theorems str_simps \<open>facts about strings and decimal numerals\<close>
named_theorems str_eval \<open>evaluation of the string functions on closed terms\<close>

section \<open>Errors and fallible results\<close>

datatype js_error =
    OnlyDogeError string nat
  | ValidationError string
  | ConflictError string
  | UnauthorizedError string
  | ForbiddenError string
  | NotFoundError string
  | TooEarlyError string
  | InfrastructureError string
  | MissingCoreCurrentPrevoutError string
  | PrimaryLeaseLostError
  | CoreBlockTimeoutError string int
  | ProcessExit nat
  | GenericError string
  | TypeError string
  | SyntaxError string
  | RangeError string
  | OutsideModel string

text \<open>
  The first eight constructors are the classes of \<^verbatim>\<open>shared-kernel/src/domain/errors.ts\<close>,
  \<open>MissingCoreCurrentPrevoutError\<close> (with the output key) is the warehouse's own class,
  \<open>PrimaryLeaseLostError\<close> and \<open>CoreBlockTimeoutError\<close> (with step and limit) are the indexer
  service's, and \<open>ProcessExit\<close> is \<^verbatim>\<open>process.exit\<close>, which no handler catches;
  \<open>GenericError\<close> is a plain \<^verbatim>\<open>Error\<close>, and \<open>TypeError\<close>, \<open>SyntaxError\<close> and
  \<open>RangeError\<close> are what the runtime throws. \<open>OutsideModel\<close> marks the one value the model
  does not represent (a fractional height or index); no code of the repository throws it.
  \<open>status_code\<close> is \<^verbatim>\<open>OnlyDogeError.statusCode\<close>; a runtime error has none.
\<close>

fun status_code :: "js_error \<Rightarrow> nat option" where
  "status_code (OnlyDogeError _ s) = Some s"
| "status_code (ValidationError _) = Some 400"
| "status_code (ConflictError _) = Some 409"
| "status_code (UnauthorizedError _) = Some 401"
| "status_code (ForbiddenError _) = Some 403"
| "status_code (NotFoundError _) = Some 404"
| "status_code (TooEarlyError _) = Some 425"
| "status_code (InfrastructureError _) = Some 500"
| "status_code _ = None"

type_synonym 'a res = "js_error + 'a"

fun and_then :: "'a res \<Rightarrow> ('a \<Rightarrow> 'b res) \<Rightarrow> 'b res" where
  "and_then (Inl e) f = Inl e"
| "and_then (Inr x) f = f x"

fun map_res :: "('a \<Rightarrow> 'b res) \<Rightarrow> 'a list \<Rightarrow> 'b list res" where
  "map_res f [] = Inr []"
| "map_res f (x # xs) = and_then (f x) (\<lambda>y. and_then (map_res f xs) (\<lambda>ys. Inr (y # ys)))"

fun fold_res :: "('a \<Rightarrow> 's \<Rightarrow> 's res) \<Rightarrow> 'a list \<Rightarrow> 's \<Rightarrow> 's res" where
  "fold_res f [] s = Inr s"
| "fold_res f (x # xs) s = and_then (f x s) (fold_res f xs)"

definition is_ok :: "'a res \<Rightarrow> bool" where
  "is_ok r \<longleftrightarrow> (case r of Inl _ \<Rightarrow> False | Inr _ \<Rightarrow> True)"

lemma is_ok_simps [simp]: "\<not> is_ok (Inl e)" "is_ok (Inr x)"
  by (simp_all add: is_ok_def)

lemma is_ok_iff: "is_ok r \<longleftrightarrow> (\<exists>x. r = Inr x)"
  by (cases r) simp_all

lemma and_then_Inr_iff [res_simps]: "and_then r f = Inr y \<longleftrightarrow> (\<exists>x. r = Inr x \<and> f x = Inr y)"
  by (cases r) auto

lemma and_then_Inl_iff: "and_then r f = Inl e \<longleftrightarrow> r = Inl e \<or> (\<exists>x. r = Inr x \<and> f x = Inl e)"
  by (cases r) auto

lemma and_then_Inr_right [simp]: "and_then r Inr = r"
  by (cases r) auto

lemma and_then_assoc: "and_then (and_then r f) g = and_then r (\<lambda>x. and_then (f x) g)"
  by (cases r) auto

lemma and_then_cong [fundef_cong]:
  "r = r' \<Longrightarrow> (\<And>x. r' = Inr x \<Longrightarrow> f x = f' x) \<Longrightarrow> and_then r f = and_then r' f'"
  by (cases r') auto

lemma fold_res_map: "fold_res f (map g xs) s = fold_res (\<lambda>x. f (g x)) xs s"
  by (induction xs arbitrary: s) (simp_all cong: and_then_cong)

lemma fold_res_append:
  "fold_res f (xs @ ys) s = and_then (fold_res f xs s) (fold_res f ys)"
  by (induction xs arbitrary: s) (simp_all add: and_then_assoc cong: and_then_cong)

text \<open>The loop rule: an invariant that every successful iteration keeps holds at the end.\<close>

lemma fold_res_invariant:
  assumes "fold_res f xs s = Inr s'" and "P s"
    and "\<And>x t t'. x \<in> set xs \<Longrightarrow> P t \<Longrightarrow> f x t = Inr t' \<Longrightarrow> P t'"
  shows "P s'"
  using assms
proof (induction xs arbitrary: s)
  case Nil
  then show ?case by simp
next
  case (Cons x xs)
  from Cons.prems(1) obtain t where t: "f x s = Inr t" "fold_res f xs t = Inr s'"
    by (auto simp: res_simps)
  have "P t" using Cons.prems(2,3) t(1) by (meson list.set_intros(1))
  with t(2) Cons.prems(3) show ?case by (intro Cons.IH) auto
qed

text \<open>
  The simulation rule: when every iteration of one loop is, through the abstraction \<open>\<alpha>\<close>, the
  iteration of another, so are the loops, failures included.
\<close>

abbreviation abs_res :: "('a \<Rightarrow> 'b) \<Rightarrow> 'a res \<Rightarrow> 'b res" where
  "abs_res \<alpha> r \<equiv> map_sum (\<lambda>e. e) \<alpha> r"

lemma is_ok_abs_res [simp]: "is_ok (abs_res \<alpha> r) = is_ok r"
  by (cases r) simp_all

lemma abs_res_and_then: "abs_res \<alpha> (and_then r f) = and_then r (\<lambda>x. abs_res \<alpha> (f x))"
  by (cases r) simp_all

lemma fold_res_simulation_inv:
  assumes "P s"
    and "\<And>x s. x \<in> set xs \<Longrightarrow> P s \<Longrightarrow> abs_res \<alpha> (f x s) = g x (\<alpha> s)"
    and "\<And>x s s'. x \<in> set xs \<Longrightarrow> P s \<Longrightarrow> f x s = Inr s' \<Longrightarrow> P s'"
  shows "abs_res \<alpha> (fold_res f xs s) = fold_res g xs (\<alpha> s)"
  using assms
proof (induction xs arbitrary: s)
  case Nil
  then show ?case by simp
next
  case (Cons x xs)
  show ?case
  proof (cases "f x s")
    case (Inl e)
    have "g x (\<alpha> s) = Inl e" using Cons.prems(2) [of x s] Cons.prems(1) Inl by simp
    with Inl show ?thesis by simp
  next
    case (Inr t)
    have "g x (\<alpha> s) = Inr (\<alpha> t)" and "P t"
      using Cons.prems(2) [of x s] Cons.prems(3) [of x s t] Cons.prems(1) Inr by simp_all
    moreover from \<open>P t\<close> have "abs_res \<alpha> (fold_res f xs t) = fold_res g xs (\<alpha> t)"
      by (rule Cons.IH) (use Cons.prems(2,3) in \<open>meson list.set_intros(2)\<close>)+
    ultimately show ?thesis using Inr by simp
  qed
qed

lemma fold_res_simulation:
  "(\<And>x s. x \<in> set xs \<Longrightarrow> abs_res \<alpha> (f x s) = g x (\<alpha> s)) \<Longrightarrow>
     abs_res \<alpha> (fold_res f xs s) = fold_res g xs (\<alpha> s)"
  by (rule fold_res_simulation_inv [where P = "\<lambda>_. True"]) simp_all

text \<open>A loop whose body always succeeds is a fold.\<close>

lemma fold_res_total:
  assumes "\<And>x t. x \<in> set xs \<Longrightarrow> f x t = Inr (g x t)"
  shows "fold_res f xs s = Inr (fold g xs s)"
  using assms by (induction xs arbitrary: s) auto

lemma map_res_Inr_iff:
  "map_res f xs = Inr ys \<longleftrightarrow> list_all2 (\<lambda>x y. f x = Inr y) xs ys"
  by (induction xs arbitrary: ys) (auto simp: res_simps list_all2_Cons1)

lemma map_res_Inr_length: "map_res f xs = Inr ys \<Longrightarrow> length ys = length xs"
  by (simp add: map_res_Inr_iff list_all2_lengthD)

lemma map_res_total:
  "(\<And>x. x \<in> set xs \<Longrightarrow> f x = Inr (g x)) \<Longrightarrow> map_res f xs = Inr (map g xs)"
  by (induction xs) auto

section \<open>Characters and strings\<close>

definition char_code :: "char \<Rightarrow> nat" where
  "char_code c = of_char c"

definition is_digit :: "char \<Rightarrow> bool" where
  "is_digit c \<longleftrightarrow> 48 \<le> char_code c \<and> char_code c \<le> 57"

text \<open>White space of \<^verbatim>\<open>String.prototype.trim\<close> among the code units below 256.\<close>

definition is_js_space :: "char \<Rightarrow> bool" where
  "is_js_space c \<longleftrightarrow> char_code c \<in> {9, 10, 11, 12, 13, 32, 160}"

definition js_trim :: "string \<Rightarrow> string" where
  "js_trim s = rev (dropWhile is_js_space (rev (dropWhile is_js_space s)))"

definition digit_char :: "nat \<Rightarrow> char" where
  "digit_char d = char_of (48 + d)"

definition digit_value :: "char \<Rightarrow> nat" where
  "digit_value c = char_code c - 48"

fun nat_str :: "nat \<Rightarrow> string" where
  "nat_str n = (if n < 10 then [digit_char n] else nat_str (n div 10) @ [digit_char (n mod 10)])"

declare nat_str.simps [simp del]

definition int_str :: "int \<Rightarrow> string" where
  "int_str i = (if i < 0 then ''-'' @ nat_str (nat (- i)) else nat_str (nat i))"

definition digits_value :: "string \<Rightarrow> nat" where
  "digits_value s = foldl (\<lambda>acc c. 10 * acc + digit_value c) 0 s"

text \<open>\<^verbatim>\<open>/^\d+$/\<close>: one or more decimal digits.\<close>

definition all_digits :: "string \<Rightarrow> bool" where
  "all_digits s \<longleftrightarrow> s \<noteq> [] \<and> list_all is_digit s"

lemma char_code_digit_char [str_simps]: "d < 10 \<Longrightarrow> char_code (digit_char d) = 48 + d"
  by (simp add: char_code_def digit_char_def of_char_of)

lemma is_digit_digit_char [str_simps]: "d < 10 \<Longrightarrow> is_digit (digit_char d)"
  by (simp add: is_digit_def str_simps)

lemma digit_value_digit_char [str_simps]: "d < 10 \<Longrightarrow> digit_value (digit_char d) = d"
  by (simp add: digit_value_def str_simps)

lemma digit_value_less [str_simps]: "is_digit c \<Longrightarrow> digit_value c < 10"
  unfolding digit_value_def is_digit_def by linarith

lemma is_digit_not_space [str_simps]: "is_digit c \<Longrightarrow> \<not> is_js_space c"
  by (auto simp: is_digit_def is_js_space_def)

lemma minus_not_space [str_simps]: "\<not> is_js_space (CHR ''-'')"
  by (simp add: is_js_space_def char_code_def)

lemma minus_not_digit [str_simps]: "\<not> is_digit (CHR ''-'')"
  by (simp add: is_digit_def char_code_def)

lemma digit_char_value: "is_digit c \<Longrightarrow> digit_char (digit_value c) = c"
  by (simp add: is_digit_def digit_char_def digit_value_def char_code_def)

lemma digit_char_table [str_eval]:
  "digit_char 0 = CHR ''0''" "digit_char (Suc 0) = CHR ''1''" "digit_char 2 = CHR ''2''"
  "digit_char 3 = CHR ''3''" "digit_char 4 = CHR ''4''" "digit_char 5 = CHR ''5''"
  "digit_char 6 = CHR ''6''" "digit_char 7 = CHR ''7''" "digit_char 8 = CHR ''8''"
  "digit_char 9 = CHR ''9''"
  using digit_char_value [of "CHR ''0''"] digit_char_value [of "CHR ''1''"]
    digit_char_value [of "CHR ''2''"] digit_char_value [of "CHR ''3''"]
    digit_char_value [of "CHR ''4''"] digit_char_value [of "CHR ''5''"]
    digit_char_value [of "CHR ''6''"] digit_char_value [of "CHR ''7''"]
    digit_char_value [of "CHR ''8''"] digit_char_value [of "CHR ''9''"]
  by (simp_all add: is_digit_def digit_value_def char_code_def)

declare is_digit_def [str_eval] char_code_def [str_eval] is_js_space_def [str_eval]
  js_trim_def [str_eval] digit_value_def [str_eval] nat_str.simps [str_eval]
  all_digits_def [str_eval] digits_value_def [str_eval] int_str_def [str_eval]

lemma nat_str_nonempty [simp]: "nat_str n \<noteq> []"
  by (subst nat_str.simps) simp

lemma nat_str_digits [str_simps]: "list_all is_digit (nat_str n)"
proof (induction n rule: nat_str.induct)
  case (1 n)
  then show ?case by (subst nat_str.simps) (simp add: str_simps)
qed

lemma all_digits_nat_str [str_simps]: "all_digits (nat_str n)"
  by (simp add: all_digits_def nat_str_digits)

lemma digits_value_snoc [simp]: "digits_value (s @ [c]) = 10 * digits_value s + digit_value c"
  by (simp add: digits_value_def)

lemma digits_value_Nil [simp]: "digits_value [] = 0"
  by (simp add: digits_value_def)

lemma foldl_digits_shift:
  "foldl (\<lambda>acc c. 10 * acc + digit_value c) a s
     = a * 10 ^ length s + foldl (\<lambda>acc c. 10 * acc + digit_value c) 0 s"
proof (induction s arbitrary: a rule: rev_induct)
  case Nil
  then show ?case by simp
next
  case (snoc c s)
  show ?case using snoc [of a] by (simp add: algebra_simps)
qed

lemma digits_value_append:
  "digits_value (s @ t) = digits_value s * 10 ^ length t + digits_value t"
  unfolding digits_value_def foldl_append by (rule foldl_digits_shift)

lemma digits_value_Cons:
  "digits_value (c # s) = digit_value c * 10 ^ length s + digits_value s"
  using digits_value_append [of "[c]" s] by (simp add: digits_value_def)

lemma digits_value_nat_str [simp]: "digits_value (nat_str n) = n"
proof (induction n rule: nat_str.induct)
  case (1 n)
  show ?case
  proof (cases "n < 10")
    case True
    then show ?thesis by (subst nat_str.simps) (simp add: digits_value_def str_simps)
  next
    case False
    with 1 show ?thesis by (subst nat_str.simps) (simp add: str_simps)
  qed
qed

lemma nat_str_inject [simp]: "nat_str m = nat_str n \<longleftrightarrow> m = n"
  by (metis digits_value_nat_str)

lemma nat_str_head_digit: "nat_str n = c # cs \<Longrightarrow> is_digit c"
  using nat_str_digits [of n] by simp

lemma int_str_inject [simp]: "int_str i = int_str j \<longleftrightarrow> i = j"
proof
  assume eq: "int_str i = int_str j"
  have neg: "\<And>m n. ''-'' @ nat_str m \<noteq> nat_str n"
    using nat_str_head_digit str_simps by (metis append_Cons minus_not_digit)
  show "i = j"
    using eq neg [of "nat (- i)" "nat j"] neg [of "nat (- j)" "nat i"]
    by (auto simp: int_str_def split: if_splits)
qed simp

lemma digits_value_less: "list_all is_digit s \<Longrightarrow> digits_value s < 10 ^ length s"
proof (induction s rule: rev_induct)
  case Nil
  then show ?case by simp
next
  case (snoc c s)
  then have "digits_value s < 10 ^ length s" and "digit_value c < 10"
    by (simp_all add: str_simps)
  then show ?case by simp
qed

lemma js_trim_id:
  "s = [] \<or> (\<not> is_js_space (hd s) \<and> \<not> is_js_space (last s)) \<Longrightarrow> js_trim s = s"
  by (metis js_trim_def dropWhile_eq_self_iff hd_rev rev.simps(1) rev_rev_ident)

lemma js_trim_Nil [simp]: "js_trim [] = []"
  by (simp add: js_trim_def)

lemma js_trim_all_digits [simp]: "all_digits s \<Longrightarrow> js_trim s = s"
  by (rule js_trim_id)
    (auto simp: all_digits_def list_all_iff is_digit_not_space)

lemma js_trim_idem [simp]: "js_trim (js_trim s) = js_trim s"
proof (rule js_trim_id)
  let ?d = "dropWhile is_js_space s"
  let ?t = "dropWhile is_js_space (rev ?d)"
  show "js_trim s = [] \<or> (\<not> is_js_space (hd (js_trim s)) \<and> \<not> is_js_space (last (js_trim s)))"
  proof (cases "js_trim s = []")
    case False
    then have ne: "?t \<noteq> []" by (simp add: js_trim_def)
    then have last: "\<not> is_js_space (last (js_trim s))"
      by (simp add: js_trim_def last_rev hd_dropWhile)
    obtain u where u: "rev ?d = u @ ?t"
      by (metis takeWhile_dropWhile_id)
    then have d: "?d = rev ?t @ rev u"
      by (metis rev_append rev_rev_ident)
    then have "?d \<noteq> []" using ne by (metis Nil_is_append_conv rev_is_Nil_conv)
    then have "\<not> is_js_space (hd ?d)" by (rule hd_dropWhile)
    moreover have "hd ?d = hd (rev ?t)" using d ne by (metis hd_append2 rev_is_Nil_conv)
    ultimately show ?thesis using last by (simp add: js_trim_def)
  qed simp
qed

section \<open>Numbers\<close>

text \<open>
  A JavaScript number is an integer, another finite value, or one of the non-finite values.
  \<open>js_num_str\<close> is its rendering. Fractions and integers of at least 22 digits, whose
  shortest rendering the model does not compute, are rendered as a fixed text; a fraction
  is rendered in error messages only, and an integer of that size in exponent notation,
  which like the fixed text is no decimal numeral. \<open>to_fixed\<close> is
  \<^verbatim>\<open>Number.prototype.toFixed\<close>: the nearest multiple of \<open>10 ^ - d\<close>, the larger one on a
  tie, with the sign written first; from \<open>10 ^ 21\<close> on it is the exponent notation.
\<close>

datatype js_num = JInt int | JDec rat | JNaN | JPosInf | JNegInf

fun js_num_str :: "js_num \<Rightarrow> string" where
  "js_num_str (JInt i) = (if \<bar>i\<bar> < 10 ^ 21 then int_str i else ''[number]'')"
| "js_num_str (JDec q) = ''[number]''"
| "js_num_str JNaN = ''NaN''"
| "js_num_str JPosInf = ''Infinity''"
| "js_num_str JNegInf = ''-Infinity''"

definition pad_start :: "nat \<Rightarrow> char \<Rightarrow> string \<Rightarrow> string" where
  "pad_start n c s = replicate (n - length s) c @ s"

definition pad_end :: "nat \<Rightarrow> char \<Rightarrow> string \<Rightarrow> string" where
  "pad_end n c s = s @ replicate (n - length s) c"

definition to_fixed_digits :: "nat \<Rightarrow> nat \<Rightarrow> string" where
  "to_fixed_digits d n =
     (let m = pad_start (d + 1) (CHR ''0'') (nat_str n); k = length m - d
      in if d = 0 then nat_str n else take k m @ ''.'' @ drop k m)"

definition to_fixed_rat :: "rat \<Rightarrow> nat \<Rightarrow> string" where
  "to_fixed_rat x d =
     (if 10 ^ 21 \<le> \<bar>x\<bar> then ''[number]''
      else (if x < 0 then ''-'' else []) @ to_fixed_digits d (nat \<lfloor>\<bar>x\<bar> * 10 ^ d + 1 / 2\<rfloor>))"

fun to_fixed :: "js_num \<Rightarrow> nat \<Rightarrow> string" where
  "to_fixed (JInt i) d = to_fixed_rat (of_int i) d"
| "to_fixed (JDec q) d = to_fixed_rat q d"
| "to_fixed x d = js_num_str x"

section \<open>BigInt of a string\<close>

text \<open>
  \<^verbatim>\<open>BigInt(string)\<close>: surrounding white space is dropped, the empty string is 0, a decimal
  numeral may be signed, and a numeral with one of the prefixes \<^verbatim>\<open>0x\<close>, \<^verbatim>\<open>0o\<close> and \<^verbatim>\<open>0b\<close> may
  not; anything else is a \<open>SyntaxError\<close>.
\<close>

definition radix_digit :: "char \<Rightarrow> nat" where
  "radix_digit c =
     (let n = char_code c
      in if 48 \<le> n \<and> n \<le> 57 then n - 48
         else if 97 \<le> n \<and> n \<le> 102 then n - 87
         else if 65 \<le> n \<and> n \<le> 70 then n - 55 else 99)"

definition is_radix_numeral :: "nat \<Rightarrow> string \<Rightarrow> bool" where
  "is_radix_numeral b s \<longleftrightarrow> s \<noteq> [] \<and> list_all (\<lambda>c. radix_digit c < b) s"

definition radix_value :: "nat \<Rightarrow> string \<Rightarrow> nat" where
  "radix_value b s = foldl (\<lambda>acc c. b * acc + radix_digit c) 0 s"

fun split_sign :: "string \<Rightarrow> int \<times> string" where
  "split_sign [] = (1, [])"
| "split_sign (c # cs) =
     (if c = CHR ''-'' then (- 1, cs) else if c = CHR ''+'' then (1, cs) else (1, c # cs))"

definition radix_prefix :: "string \<Rightarrow> (nat \<times> string) option" where
  "radix_prefix s =
     (case s of
        z # x # r \<Rightarrow>
          if z = CHR ''0'' \<and> x \<in> {CHR ''x'', CHR ''X''} then Some (16, r)
          else if z = CHR ''0'' \<and> x \<in> {CHR ''o'', CHR ''O''} then Some (8, r)
          else if z = CHR ''0'' \<and> x \<in> {CHR ''b'', CHR ''B''} then Some (2, r)
          else None
      | _ \<Rightarrow> None)"

definition js_bigint :: "string \<Rightarrow> int res" where
  "js_bigint v =
     (let s = js_trim v
      in if s = [] then Inr 0
         else case radix_prefix s of
           Some (b, r) \<Rightarrow>
             if is_radix_numeral b r then Inr (int (radix_value b r))
             else Inl (SyntaxError (''Cannot convert '' @ v @ '' to a BigInt''))
         | None \<Rightarrow>
             (let (sg, r) = split_sign s
              in if all_digits r then Inr (sg * int (digits_value r))
                 else Inl (SyntaxError (''Cannot convert '' @ v @ '' to a BigInt''))))"

lemma all_digits_head: "all_digits (c # cs) \<Longrightarrow> c \<noteq> CHR ''-'' \<and> c \<noteq> CHR ''+''"
  by (auto simp: all_digits_def is_digit_def char_code_def)

lemma split_sign_digits: "all_digits s \<Longrightarrow> split_sign s = (1, s)"
  by (cases s) (auto dest: all_digits_head)

lemma is_digit_not_radix_letter:
  "is_digit c \<Longrightarrow> c \<notin> {CHR ''x'', CHR ''X'', CHR ''o'', CHR ''O'', CHR ''b'', CHR ''B''}"
  by (auto simp: is_digit_def char_code_def)

lemma radix_prefix_digits: "all_digits s \<Longrightarrow> radix_prefix s = None"
  using is_digit_not_radix_letter
  by (cases s rule: remdups_adj.cases) (auto simp: radix_prefix_def all_digits_def)

lemma js_bigint_digits: "all_digits s \<Longrightarrow> js_bigint s = Inr (int (digits_value s))"
  by (auto simp: js_bigint_def Let_def radix_prefix_digits split_sign_digits all_digits_def)

lemma js_trim_minus_digits: "all_digits s \<Longrightarrow> js_trim (CHR ''-'' # s) = CHR ''-'' # s"
  by (rule js_trim_id)
    (auto simp: all_digits_def list_all_iff is_digit_not_space minus_not_space)

lemma js_bigint_minus_digits:
  assumes "all_digits s"
  shows "js_bigint (CHR ''-'' # s) = Inr (- int (digits_value s))"
proof -
  have "radix_prefix (CHR ''-'' # s) = None"
    by (auto simp: radix_prefix_def split: list.splits)
  then show ?thesis using assms
    by (simp add: js_bigint_def Let_def js_trim_minus_digits)
qed

lemma js_bigint_int_str [simp]: "js_bigint (int_str i) = Inr i"
  by (auto simp: int_str_def js_bigint_digits js_bigint_minus_digits all_digits_nat_str)

lemma pad_start_digits [str_simps]:
  "list_all is_digit (pad_start n (CHR ''0'') s) \<longleftrightarrow> list_all is_digit s"
  by (auto simp: pad_start_def list_all_iff is_digit_def char_code_def)

lemma digits_value_zeros: "digits_value (replicate n (CHR ''0'')) = 0"
  by (induction n) (simp_all add: digits_value_Cons digit_value_def char_code_def)

lemma digits_value_pad_start [simp]:
  "digits_value (pad_start n (CHR ''0'') s) = digits_value s"
  by (simp add: pad_start_def digits_value_append digits_value_zeros)

lemma digits_value_pad_end:
  "digits_value (pad_end n (CHR ''0'') s) = digits_value s * 10 ^ (n - length s)"
  by (simp add: pad_end_def digits_value_append digits_value_zeros)

lemma length_pad_start [simp]: "length (pad_start n c s) = max n (length s)"
  by (simp add: pad_start_def)

lemma length_pad_end [simp]: "length (pad_end n c s) = max n (length s)"
  by (simp add: pad_end_def)

end
