(* ===== verification/Js_Map.thy ===== *)
theory Js_Map
  imports Js_Base "HOL-Library.AList" "HOL-Library.Multiset"
begin

text \<open>
  JavaScript's \<^verbatim>\<open>Map\<close> and \<^verbatim>\<open>Set\<close>, and the interface the components use them through.

  A \<^verbatim>\<open>Map\<close> iterates over its entries in insertion order, and setting a key it already has
  keeps the entry's place: it is the association list of its entries, \<^verbatim>\<open>get\<close> is \<open>map_of\<close>
  and \<^verbatim>\<open>set\<close> is the library's \<open>AList.update\<close>. \<open>unique\<close> is \<^verbatim>\<open>[...new Set(xs)]\<close>.

  The locale \<open>keyed_store\<close> states what a component expects of a keyed table: what a lookup
  returns after a write, which keys the table has, and that each key occurs once. It is
  interpreted here on \<^verbatim>\<open>Map\<close> and, in the warehouse theories, on the lists of rows that the
  warehouse keeps per table.
\<close>

named_theorems map_simps \<open>lookups in and sums over keyed tables\<close>

type_synonym ('k, 'v) js_map = "('k \<times> 'v) list"

abbreviation js_get :: "('k, 'v) js_map \<Rightarrow> 'k \<Rightarrow> 'v option" where
  "js_get \<equiv> map_of"

abbreviation js_set :: "'k \<Rightarrow> 'v \<Rightarrow> ('k, 'v) js_map \<Rightarrow> ('k, 'v) js_map" where
  "js_set \<equiv> AList.update"

definition js_has :: "('k, 'v) js_map \<Rightarrow> 'k \<Rightarrow> bool" where
  "js_has m k \<longleftrightarrow> js_get m k \<noteq> None"

definition js_keys :: "('k, 'v) js_map \<Rightarrow> 'k list" where
  "js_keys m = map fst m"

definition js_values :: "('k, 'v) js_map \<Rightarrow> 'v list" where
  "js_values m = map snd m"

text \<open>\<^verbatim>\<open>new Map(entries)\<close>: later entries of a key replace earlier ones.\<close>

definition js_map_of :: "('k \<times> 'v) list \<Rightarrow> ('k, 'v) js_map" where
  "js_map_of es = fold (\<lambda>(k, v). js_set k v) es []"

definition js_map_ok :: "('k, 'v) js_map \<Rightarrow> bool" where
  "js_map_ok m \<longleftrightarrow> distinct (js_keys m)"

text \<open>\<^verbatim>\<open>[...new Set(xs)]\<close>: the elements in the order of their first occurrence.\<close>

fun unique :: "'a list \<Rightarrow> 'a list" where
  "unique [] = []"
| "unique (x # xs) = x # filter (\<lambda>y. y \<noteq> x) (unique xs)"

lemma set_unique [simp]: "set (unique xs) = set xs"
  by (induction xs) auto

lemma distinct_unique [simp]: "distinct (unique xs)"
  by (induction xs) auto

lemma unique_distinct_id: "distinct xs \<Longrightarrow> unique xs = xs"
  by (induction xs) (auto simp: filter_id_conv)

lemma unique_idem [simp]: "unique (unique xs) = unique xs"
  by (simp add: unique_distinct_id)

lemma mset_unique: "mset (unique xs) = mset_set (set xs)"
  by (metis distinct_unique mset_set_set set_unique)

section \<open>The interface: a keyed store\<close>

locale keyed_store =
  fixes get :: "'m \<Rightarrow> 'k \<Rightarrow> 'v option"
    and put :: "'k \<Rightarrow> 'v \<Rightarrow> 'm \<Rightarrow> 'm"
    and keys :: "'m \<Rightarrow> 'k list"
    and emp :: "'m"
    and ok :: "'m \<Rightarrow> bool"
    and good :: "'k \<Rightarrow> 'v \<Rightarrow> bool"
  assumes get_emp: "get emp k = None"
    and get_put: "good k v \<Longrightarrow> get (put k v m) k' = (if k' = k then Some v else get m k')"
    and in_keys: "k \<in> set (keys m) \<longleftrightarrow> get m k \<noteq> None"
    and ok_emp: "ok emp"
    and ok_put: "good k v \<Longrightarrow> ok m \<Longrightarrow> ok (put k v m)"
    and keys_distinct: "ok m \<Longrightarrow> distinct (keys m)"
begin

definition put_all :: "('k \<times> 'v) list \<Rightarrow> 'm \<Rightarrow> 'm" where
  "put_all es m = fold (\<lambda>(k, v). put k v) es m"

lemma put_all_simps [simp]:
  "put_all [] m = m"
  "put_all ((k, v) # es) m = put_all es (put k v m)"
  by (simp_all add: put_all_def)

lemma get_put_all:
  assumes "\<forall>(k, v) \<in> set es. good k v"
  shows "get (put_all es m) k = (case map_of (rev es) k of Some v \<Rightarrow> Some v | None \<Rightarrow> get m k)"
  using assms
  by (induction es arbitrary: m) (auto simp: get_put map_add_def split: option.splits prod.splits)

lemma get_put_all_frame:
  "\<forall>(k, v) \<in> set es. good k v \<Longrightarrow> k \<notin> fst ` set es \<Longrightarrow> get (put_all es m) k = get m k"
  by (induction es arbitrary: m) (auto simp: get_put)

lemma ok_put_all: "\<forall>(k, v) \<in> set es. good k v \<Longrightarrow> ok m \<Longrightarrow> ok (put_all es m)"
  by (induction es arbitrary: m) (auto simp: ok_put)

lemma keys_put: "good k v \<Longrightarrow> set (keys (put k v m)) = insert k (set (keys m))"
  by (auto simp: in_keys get_put split: if_splits)

lemma keys_put_all:
  "\<forall>(k, v) \<in> set es. good k v \<Longrightarrow> set (keys (put_all es m)) = fst ` set es \<union> set (keys m)"
  by (induction es arbitrary: m) (force simp: keys_put)+

lemma put_idem_get:
  "good k v \<Longrightarrow> good k v' \<Longrightarrow> get (put k v (put k v' m)) = get (put k v m)"
  by (rule ext) (simp add: get_put)

lemma put_commute_get:
  "good k v \<Longrightarrow> good k' v' \<Longrightarrow> k \<noteq> k' \<Longrightarrow> get (put k v (put k' v' m)) = get (put k' v' (put k v m))"
  by (rule ext) (auto simp: get_put)

end

lemma js_get_set [map_simps]: "js_get (js_set k v m) k' = (if k' = k then Some v else js_get m k')"
  by (auto simp: update_conv)

lemma in_js_keys: "k \<in> set (js_keys m) \<longleftrightarrow> js_get m k \<noteq> None"
  by (auto simp: js_keys_def map_of_eq_None_iff)

lemma js_map_ok_Nil [simp]: "js_map_ok []"
  by (simp add: js_map_ok_def js_keys_def)

lemma js_map_ok_set [simp]: "js_map_ok m \<Longrightarrow> js_map_ok (js_set k v m)"
  by (simp add: js_map_ok_def js_keys_def distinct_update)

interpretation jsm: keyed_store js_get js_set js_keys "[]" js_map_ok "\<lambda>_ _. True"
  by unfold_locales (simp_all add: js_get_set in_js_keys, simp_all add: js_map_ok_def)

lemma js_map_of_eq_put_all: "js_map_of es = jsm.put_all es []"
  by (simp add: js_map_of_def jsm.put_all_def)

lemma js_get_map_of [map_simps]: "js_get (js_map_of es) k = map_of (rev es) k"
  by (simp add: js_map_of_eq_put_all jsm.get_put_all split: option.splits)

lemma js_map_ok_map_of [simp]: "js_map_ok (js_map_of es)"
  by (simp add: js_map_of_eq_put_all jsm.ok_put_all)

section \<open>Sums over the entries of a map\<close>

definition weight_sum :: "('v \<Rightarrow> int) \<Rightarrow> ('k, 'v) js_map \<Rightarrow> int" where
  "weight_sum w m = sum_list (map (w \<circ> snd) m)"

definition opt_weight :: "('v \<Rightarrow> int) \<Rightarrow> 'v option \<Rightarrow> int" where
  "opt_weight w x = (case x of None \<Rightarrow> 0 | Some v \<Rightarrow> w v)"

lemma opt_weight_simps [simp]: "opt_weight w None = 0" "opt_weight w (Some v) = w v"
  by (simp_all add: opt_weight_def)

lemma weight_sum_Nil [simp]: "weight_sum w [] = 0"
  by (simp add: weight_sum_def)

lemma weight_sum_Cons [simp]: "weight_sum w (e # m) = w (snd e) + weight_sum w m"
  by (simp add: weight_sum_def)

lemma weight_sum_append [simp]: "weight_sum w (m @ n) = weight_sum w m + weight_sum w n"
  by (simp add: weight_sum_def)

text \<open>Writing a key replaces its old weight by the new one.\<close>

lemma weight_sum_set:
  "js_map_ok m \<Longrightarrow> weight_sum w (js_set k v m) = weight_sum w m - opt_weight w (js_get m k) + w v"
proof (induction m)
  case Nil
  then show ?case by simp
next
  case (Cons e m)
  then have ok: "js_map_ok m" by (simp add: js_map_ok_def js_keys_def)
  show ?case
  proof (cases "fst e = k")
    case True
    then show ?thesis by (cases e) simp
  next
    case False
    with Cons.IH [OF ok] show ?thesis by (cases e) simp
  qed
qed

text \<open>A sum over a map depends on the lookups only.\<close>

lemma mset_js_map: "js_map_ok m \<Longrightarrow> mset m = mset_set {(k, v). js_get m k = Some v}"
proof -
  assume "js_map_ok m"
  then have d: "distinct (map fst m)" by (simp add: js_map_ok_def js_keys_def)
  then have "set m = {(k, v). js_get m k = Some v}" by auto
  then show ?thesis using d by (metis distinct_map mset_set_set)
qed

lemma weight_sum_cong:
  assumes "js_map_ok m" and "js_map_ok m'" and "js_get m = js_get m'"
  shows "weight_sum w m = weight_sum w m'"
proof -
  have "mset m = mset m'" using assms by (simp add: mset_js_map)
  then show ?thesis
    unfolding weight_sum_def by (metis mset_map sum_mset_sum_list)
qed

text \<open>Laying the entries of one map over another.\<close>

lemma map_of_rev_distinct: "distinct (map fst m) \<Longrightarrow> map_of (rev m) = map_of m"
  by (subst map_of_inject_set) (simp_all flip: rev_map)

lemma js_get_put_all:
  "js_map_ok n \<Longrightarrow> js_get (jsm.put_all n m) k
     = (case js_get n k of Some v \<Rightarrow> Some v | None \<Rightarrow> js_get m k)"
  by (simp add: jsm.get_put_all map_of_rev_distinct js_map_ok_def js_keys_def)

lemma weight_sum_put_all_set:
  assumes "js_map_ok n" and "js_map_ok m"
  shows "weight_sum w (jsm.put_all (js_set k v n) m)
    = weight_sum w (jsm.put_all n m) - opt_weight w (js_get (jsm.put_all n m) k) + w v"
proof -
  have ok: "js_map_ok (jsm.put_all n m)" using assms by (simp add: jsm.ok_put_all)
  have "weight_sum w (jsm.put_all (js_set k v n) m) = weight_sum w (js_set k v (jsm.put_all n m))"
    using assms by (intro weight_sum_cong)
      (auto simp: jsm.ok_put_all js_get_put_all js_get_set fun_eq_iff split: option.splits)
  then show ?thesis using weight_sum_set [OF ok] by simp
qed

end
