(* ===== verification/Amounts.thy ===== *)
theory Amounts
  imports Js_Map
begin

text \<open>
  Amounts in base units (koinu): \<^verbatim>\<open>indexing-pipeline/src/domain/amounts.ts\<close>.

  An amount is stored as the decimal text of an integer and computed with as a BigInt, so it
  is a \<open>string\<close> in the records of the model and an \<open>int\<close> in its sums. The lemmas show
  that the text round-trips, that decimal amounts are converted without losing a digit, and
  that the pro-rata split hands out exactly the target.
\<close>

section \<open>Parsing and printing base units\<close>

definition is_amount_text :: "string \<Rightarrow> bool" where
  "is_amount_text s \<longleftrightarrow>
     (case s of [] \<Rightarrow> False | c # cs \<Rightarrow> if c = CHR ''-'' then all_digits cs else all_digits s)"

definition parse_amount_base :: "string \<Rightarrow> int res" where
  "parse_amount_base v =
     (let trimmed = js_trim v
      in if \<not> is_amount_text trimmed then Inl (ValidationError (''invalid amount base: '' @ v))
         else js_bigint trimmed)"

definition format_amount_base :: "int \<Rightarrow> string" where
  "format_amount_base v = int_str v"

definition add_amount_base :: "string \<Rightarrow> string \<Rightarrow> string res" where
  "add_amount_base l r =
     and_then (parse_amount_base l) (\<lambda>a.
     and_then (parse_amount_base r) (\<lambda>b. Inr (format_amount_base (a + b))))"

definition subtract_amount_base :: "string \<Rightarrow> string \<Rightarrow> string res" where
  "subtract_amount_base l r =
     and_then (parse_amount_base l) (\<lambda>a.
     and_then (parse_amount_base r) (\<lambda>b. Inr (format_amount_base (a - b))))"

text \<open>The integer a well-formed amount text denotes.\<close>

definition signed_value :: "string \<Rightarrow> int" where
  "signed_value s =
     (case s of [] \<Rightarrow> 0
      | c # cs \<Rightarrow> if c = CHR ''-'' then - int (digits_value cs) else int (digits_value s))"

lemma is_amount_text_int_str [str_simps]: "is_amount_text (int_str i)"
proof (cases "i < 0")
  case True
  then show ?thesis by (simp add: int_str_def is_amount_text_def all_digits_nat_str)
next
  case False
  have d: "all_digits (nat_str (nat i))" by (rule all_digits_nat_str)
  then show ?thesis using False
    by (auto simp: int_str_def is_amount_text_def split: list.splits dest: all_digits_head)
qed

lemma js_trim_amount: "is_amount_text s \<Longrightarrow> js_trim s = s"
  by (auto simp: is_amount_text_def js_trim_minus_digits split: list.splits if_splits)

lemma js_bigint_amount: "is_amount_text s \<Longrightarrow> js_bigint s = Inr (signed_value s)"
  by (auto simp: is_amount_text_def signed_value_def js_bigint_digits js_bigint_minus_digits
      split: list.splits if_splits)

lemma parse_amount_base_text: "is_amount_text s \<Longrightarrow> parse_amount_base s = Inr (signed_value s)"
  by (simp add: parse_amount_base_def Let_def js_trim_amount js_bigint_amount)

lemma parse_amount_base_int_str [simp]: "parse_amount_base (int_str i) = Inr i"
  by (simp add: parse_amount_base_def Let_def js_trim_amount is_amount_text_int_str)

lemma parse_format_amount [simp]: "parse_amount_base (format_amount_base i) = Inr i"
  by (simp add: format_amount_base_def)

lemma js_bigint_format [simp]: "js_bigint (format_amount_base i) = Inr i"
  by (simp add: format_amount_base_def)

lemma parse_amount_base_ok_iff:
  "parse_amount_base v = Inr i \<longleftrightarrow> is_amount_text (js_trim v) \<and> signed_value (js_trim v) = i"
  by (auto simp: parse_amount_base_def Let_def js_bigint_amount split: if_splits)

text \<open>
  \<open>parseAmountBase\<close> inverts \<open>formatAmountBase\<close>, accepts surrounding white space, and
  fails with a \<open>ValidationError\<close> that quotes its argument exactly when the trimmed text is
  not an optionally signed run of digits; \<open>addAmountBase\<close> and \<open>subtractAmountBase\<close> are
  integer addition and subtraction on the texts.
\<close>

theorem amount_text_roundtrip:
  "parse_amount_base (format_amount_base i) = Inr i
   \<and> ((\<exists>n. parse_amount_base v = Inr n) \<longleftrightarrow> is_amount_text (js_trim v))
   \<and> (\<not> is_amount_text (js_trim v) \<longleftrightarrow>
        parse_amount_base v = Inl (ValidationError (''invalid amount base: '' @ v)))
   \<and> add_amount_base (format_amount_base i) (format_amount_base j) = Inr (format_amount_base (i + j))
   \<and> subtract_amount_base (format_amount_base i) (format_amount_base j)
       = Inr (format_amount_base (i - j))"
  by (auto simp: add_amount_base_def subtract_amount_base_def parse_amount_base_ok_iff)
    (auto simp: parse_amount_base_def Let_def js_bigint_amount split: if_splits)

section \<open>Decimal amounts\<close>

text \<open>
  \<^verbatim>\<open>/^(-?)(\d+)(?:\.(\d+))?$/\<close> as a function: the sign, the whole part and the fraction
  (empty when there is none), or \<open>None\<close> when the text does not match.
\<close>

definition split_decimal :: "string \<Rightarrow> (string \<times> string) option" where
  "split_decimal s =
     (let w = takeWhile is_digit s; r = dropWhile is_digit s
      in if w = [] then None
         else case r of
           [] \<Rightarrow> Some (w, [])
         | c # f \<Rightarrow> if c = CHR ''.'' \<and> all_digits f then Some (w, f) else None)"

definition decimal_match :: "string \<Rightarrow> (string \<times> string \<times> string) option" where
  "decimal_match s =
     (case s of
        [] \<Rightarrow> None
      | c # cs \<Rightarrow>
          if c = CHR ''-'' then map_option (\<lambda>(w, f). (''-'', w, f)) (split_decimal cs)
          else map_option (\<lambda>(w, f). ([], w, f)) (split_decimal s))"

datatype amount_input = Amount_Num js_num | Amount_Text string

fun amount_input_str :: "amount_input \<Rightarrow> string" where
  "amount_input_str (Amount_Num n) = js_num_str n"
| "amount_input_str (Amount_Text s) = s"

fun decimal_unit_source :: "amount_input \<Rightarrow> nat \<Rightarrow> string" where
  "decimal_unit_source (Amount_Num n) d = to_fixed n d"
| "decimal_unit_source (Amount_Text s) d = js_trim s"

definition require_decimal_unit_match ::
  "string \<Rightarrow> amount_input \<Rightarrow> (string \<times> string \<times> string) res" where
  "require_decimal_unit_match v raw =
     (case decimal_match v of
        None \<Rightarrow> Inl (ValidationError (''invalid decimal amount: '' @ amount_input_str raw))
      | Some m \<Rightarrow> Inr m)"

definition has_excess_decimal_precision :: "string \<Rightarrow> nat \<Rightarrow> bool" where
  "has_excess_decimal_precision f d \<longleftrightarrow>
     d < length f \<and> \<not> list_all (\<lambda>c. c = CHR ''0'') (drop d f)"

definition assert_decimal_fraction_precision :: "string \<Rightarrow> nat \<Rightarrow> amount_input \<Rightarrow> unit res" where
  "assert_decimal_fraction_precision f d raw =
     (if has_excess_decimal_precision f d
      then Inl (ValidationError (''invalid decimal amount: '' @ amount_input_str raw))
      else Inr ())"

text \<open>\<^verbatim>\<open>replace(/^0+(?=\d)/, '')\<close>: leading zeros go as long as a digit follows.\<close>

fun strip_zeros :: "string \<Rightarrow> string" where
  "strip_zeros (c # c' # cs) =
     (if c = CHR ''0'' \<and> is_digit c' then strip_zeros (c' # cs) else c # c' # cs)"
| "strip_zeros s = s"

definition format_decimal_unit_parts :: "string \<Rightarrow> string \<Rightarrow> string \<Rightarrow> nat \<Rightarrow> string" where
  "format_decimal_unit_parts sign whole fraction d =
     (let padded = pad_end d (CHR ''0'') (take d fraction);
          normalized = strip_zeros (whole @ padded)
      in sign @ (if normalized = [] then ''0'' else normalized))"

definition from_decimal_units :: "amount_input \<Rightarrow> nat \<Rightarrow> string res" where
  "from_decimal_units v d =
     and_then (require_decimal_unit_match (decimal_unit_source v d) v) (\<lambda>(sign, whole, fraction).
     and_then (assert_decimal_fraction_precision fraction d v) (\<lambda>_.
     Inr (format_decimal_unit_parts sign whole fraction d)))"

text \<open>\<^verbatim>\<open>fromHexUnits\<close>: a hexadecimal amount with or without its prefix.\<close>

definition from_hex_units :: "string \<Rightarrow> string res" where
  "from_hex_units v =
     (let t = js_trim v;
          normalized = (if take 2 t = ''0x'' then t else ''0x'' @ t)
      in and_then (js_bigint normalized) (\<lambda>i. Inr (format_amount_base i)))"

lemma digits_value_zero_head: "digits_value (CHR ''0'' # s) = digits_value s"
  by (simp add: digits_value_Cons digit_value_def char_code_def)

lemma strip_zeros_value: "digits_value (strip_zeros s) = digits_value s"
  by (induction s rule: strip_zeros.induct) (auto simp: digits_value_zero_head)

lemma strip_zeros_digits: "all_digits s \<Longrightarrow> all_digits (strip_zeros s)"
  by (induction s rule: strip_zeros.induct) (auto simp: all_digits_def)

lemma strip_zeros_canonical:
  "all_digits s \<Longrightarrow> strip_zeros s = ''0'' \<or> hd (strip_zeros s) \<noteq> CHR ''0''"
  by (induction s rule: strip_zeros.induct) (auto simp: all_digits_def)

lemma nat_str_0: "nat_str 0 = ''0''"
  by (simp add: str_eval)

lemma canonical_digits_nat_str:
  assumes "all_digits s" and "s = ''0'' \<or> hd s \<noteq> CHR ''0''"
  shows "nat_str (digits_value s) = s"
  using assms
proof (induction s rule: rev_induct)
  case Nil
  then show ?case by (simp add: all_digits_def)
next
  case (snoc c s)
  from snoc.prems have c: "is_digit c" by (simp add: all_digits_def)
  show ?case
  proof (cases "s = []")
    case True
    with c show ?thesis
      by (subst nat_str.simps) (simp add: digits_value_def digit_value_less digit_char_value)
  next
    case False
    with snoc.prems have s: "all_digits s" "hd s \<noteq> CHR ''0''"
      by (auto simp: all_digits_def)
    with snoc.IH have IH: "nat_str (digits_value s) = s" by simp
    have "digits_value s \<noteq> 0"
    proof
      assume "digits_value s = 0"
      with IH have "s = nat_str 0" by simp
      with s(2) show False by (simp add: nat_str_0)
    qed
    with c IH show ?thesis
      by (subst nat_str.simps) (simp add: digit_value_less digit_char_value)
  qed
qed

text \<open>Stripping the leading zeros of a numeral gives the canonical numeral of its value.\<close>

lemma strip_zeros_nat_str: "all_digits s \<Longrightarrow> strip_zeros s = nat_str (digits_value s)"
  using canonical_digits_nat_str [OF strip_zeros_digits strip_zeros_canonical, of s]
  by (simp add: strip_zeros_value)

lemma split_decimal_Some:
  assumes "split_decimal s = Some (w, f)"
  shows "all_digits w" and "f = [] \<or> all_digits f"
    and "s = (if f = [] then w else w @ ''.'' @ f)"
proof -
  have s: "s = takeWhile is_digit s @ dropWhile is_digit s" by simp
  note d = assms [unfolded split_decimal_def Let_def]
  show "all_digits w" "f = [] \<or> all_digits f"
    using d by (auto simp: all_digits_def list_all_iff dest: set_takeWhileD
        split: list.splits if_splits)
  from d show "s = (if f = [] then w else w @ ''.'' @ f)"
    by (subst s) (auto simp: all_digits_def simp del: takeWhile_dropWhile_id
        split: list.splits if_splits)
qed

lemma split_decimal_whole: "all_digits w \<Longrightarrow> split_decimal w = Some (w, [])"
  by (auto simp: split_decimal_def Let_def all_digits_def list_all_iff
      takeWhile_eq_all_conv [THEN iffD2] dropWhile_eq_Nil_conv [THEN iffD2])

lemma split_decimal_point:
  assumes "all_digits w" and "all_digits f"
  shows "split_decimal (w @ ''.'' @ f) = Some (w, f)"
proof -
  have dot: "\<not> is_digit (CHR ''.'')" by (simp add: is_digit_def char_code_def)
  have "takeWhile is_digit (w @ ''.'' @ f) = w" "dropWhile is_digit (w @ ''.'' @ f) = ''.'' @ f"
    using assms(1) dot by (auto simp: all_digits_def list_all_iff takeWhile_append dropWhile_append)
  then show ?thesis using assms by (simp add: split_decimal_def Let_def all_digits_def)
qed

lemma decimal_match_Some:
  assumes "decimal_match s = Some (sg, w, f)"
  shows "sg = [] \<or> sg = ''-''" and "all_digits w" and "list_all is_digit f"
    and "s = sg @ (if f = [] then w else w @ ''.'' @ f)"
  using assms
  by (auto simp: decimal_match_def all_digits_def
      split: list.splits if_splits dest: split_decimal_Some)

text \<open>What the formatter returns, and that it keeps the value to the last digit.\<close>

lemma pad_end_take_digits:
  "list_all is_digit f \<Longrightarrow> list_all is_digit (pad_end d (CHR ''0'') (take d f))"
  by (auto simp: pad_end_def list_all_iff is_digit_def char_code_def dest: in_set_takeD)

lemma format_decimal_unit_parts_value:
  assumes "all_digits w" and "list_all is_digit f"
  shows "format_decimal_unit_parts sg w f d
           = sg @ nat_str (digits_value (w @ pad_end d (CHR ''0'') (take d f)))"
proof -
  have "all_digits (w @ pad_end d (CHR ''0'') (take d f))"
    using assms pad_end_take_digits [OF assms(2)] by (simp add: all_digits_def)
  then show ?thesis
    by (simp add: format_decimal_unit_parts_def Let_def strip_zeros_nat_str)
qed

lemma digits_value_all_zero: "list_all (\<lambda>c. c = CHR ''0'') s \<Longrightarrow> digits_value s = 0"
  by (induction s) (auto simp: digits_value_zero_head)

lemma padded_fraction_value:
  assumes "\<not> has_excess_decimal_precision f d"
  shows "digits_value (pad_end d (CHR ''0'') (take d f)) * 10 ^ length f = digits_value f * 10 ^ d"
proof (cases "length f \<le> d")
  case True
  then show ?thesis
    by (simp add: digits_value_pad_end flip: power_add)
next
  case False
  then have "digits_value (drop d f) = 0"
    using assms by (simp add: has_excess_decimal_precision_def digits_value_all_zero)
  moreover have "digits_value f = digits_value (take d f) * 10 ^ (length f - d)
      + digits_value (drop d f)"
    using digits_value_append [of "take d f" "drop d f"] by simp
  ultimately have "digits_value f * 10 ^ d = digits_value (take d f) * 10 ^ (length f - d + d)"
    by (simp add: power_add)
  with False show ?thesis by (simp add: pad_end_def)
qed

lemma decimal_units_value:
  assumes "\<not> has_excess_decimal_precision f d"
  shows "digits_value (w @ pad_end d (CHR ''0'') (take d f)) * 10 ^ length f
           = digits_value (w @ f) * 10 ^ d"
proof -
  have "length (pad_end d (CHR ''0'') (take d f)) = d" by simp
  then show ?thesis using padded_fraction_value [OF assms]
    by (simp add: digits_value_append algebra_simps)
qed

lemma parse_signed_nat_str:
  "sg = [] \<or> sg = ''-'' \<Longrightarrow>
     parse_amount_base (sg @ nat_str n) = Inr (if sg = [] then int n else - int n)"
proof -
  assume "sg = [] \<or> sg = ''-''"
  moreover have "is_amount_text (''-'' @ nat_str n)"
    by (simp add: is_amount_text_def all_digits_nat_str)
  moreover have "is_amount_text (nat_str n)" "int_str (int n) = nat_str n"
    using is_amount_text_int_str [of "int n"] by (simp_all add: int_str_def)
  moreover have "signed_value (''-'' @ nat_str n) = - int n" by (simp add: signed_value_def)
  ultimately show ?thesis using parse_amount_base_int_str [of "int n"]
    by (auto simp: parse_amount_base_text)
qed

lemma from_decimal_units_matched:
  assumes "decimal_match (decimal_unit_source v d) = Some (sg, w, f)"
    and "\<not> has_excess_decimal_precision f d"
  shows "from_decimal_units v d
           = Inr (sg @ nat_str (digits_value (w @ pad_end d (CHR ''0'') (take d f))))"
  using assms decimal_match_Some [OF assms(1)]
  by (simp add: from_decimal_units_def require_decimal_unit_match_def
      assert_decimal_fraction_precision_def format_decimal_unit_parts_value)

lemma from_decimal_units_ok_iff:
  "is_ok (from_decimal_units v d) \<longleftrightarrow>
     (\<exists>sg w f. decimal_match (decimal_unit_source v d) = Some (sg, w, f)
        \<and> \<not> has_excess_decimal_precision f d)"
  by (auto simp: from_decimal_units_def require_decimal_unit_match_def
      assert_decimal_fraction_precision_def split: option.splits)

text \<open>
  \<open>fromDecimalUnits\<close> on a text succeeds exactly when the trimmed text is a decimal
  numeral whose digits beyond the given precision are all zero; the result is then the
  canonical text of the integer that equals the numeral times \<open>10 ^ d\<close>, with no digit lost
  (the equation is the exact one, over integers), and \<open>parseAmountBase\<close> reads it back.
\<close>

theorem from_decimal_units_exact:
  assumes "decimal_match (js_trim v) = Some (sg, w, f)"
  shows "(has_excess_decimal_precision f d
           \<longleftrightarrow> from_decimal_units (Amount_Text v) d
                = Inl (ValidationError (''invalid decimal amount: '' @ v)))
       \<and> (\<not> has_excess_decimal_precision f d
           \<longleftrightarrow> (\<exists>n. from_decimal_units (Amount_Text v) d = Inr (sg @ nat_str n)
                \<and> n * 10 ^ length f = digits_value (w @ f) * 10 ^ d
                \<and> parse_amount_base (sg @ nat_str n) = Inr (if sg = [] then int n else - int n)))"
proof
  let ?v = "Amount_Text v"
  let ?n = "digits_value (w @ pad_end d (CHR ''0'') (take d f))"
  have bad: "has_excess_decimal_precision f d \<Longrightarrow>
      from_decimal_units ?v d = Inl (ValidationError (''invalid decimal amount: '' @ v))"
    using assms by (simp add: from_decimal_units_def require_decimal_unit_match_def
        assert_decimal_fraction_precision_def)
  have good: "from_decimal_units ?v d = Inr (sg @ nat_str ?n)"
    if "\<not> has_excess_decimal_precision f d"
    using from_decimal_units_matched [of ?v d sg w f] assms that by simp
  show "has_excess_decimal_precision f d
      \<longleftrightarrow> from_decimal_units ?v d = Inl (ValidationError (''invalid decimal amount: '' @ v))"
    using bad good by (metis Inl_Inr_False)
  have sg: "parse_amount_base (sg @ nat_str ?n) = Inr (if sg = [] then int ?n else - int ?n)"
    using decimal_match_Some(1) [OF assms] by (rule parse_signed_nat_str)
  show "\<not> has_excess_decimal_precision f d
      \<longleftrightarrow> (\<exists>n. from_decimal_units ?v d = Inr (sg @ nat_str n)
           \<and> n * 10 ^ length f = digits_value (w @ f) * 10 ^ d
           \<and> parse_amount_base (sg @ nat_str n) = Inr (if sg = [] then int n else - int n))"
    using bad good sg decimal_units_value [of f d w] by (metis Inl_Inr_False)
qed

theorem from_decimal_units_exact_witness:
  "from_decimal_units (Amount_Text ''12.5'') 8 = Inr ''1250000000''
     \<and> from_decimal_units (Amount_Text ''0.000000001'') 8
         = Inl (ValidationError ''invalid decimal amount: 0.000000001'')"
proof -
  have m1: "decimal_match (js_trim ''12.5'') = Some ([], ''12'', ''5'')"
    and m2: "decimal_match (js_trim ''0.000000001'') = Some ([], ''0'', ''000000001'')"
    by (simp_all add: decimal_match_def split_decimal_def str_eval)
  have p: "\<not> has_excess_decimal_precision ''5'' 8"
    "has_excess_decimal_precision ''000000001'' 8"
    by (simp_all add: has_excess_decimal_precision_def)
  have n: "nat_str 1250000000 = ''1250000000''" "digits_value (''12'' @ ''5'') = 125"
    by (simp_all add: str_eval)
  from from_decimal_units_exact [OF m1, of 8] p(1) n(2)
  obtain k where "from_decimal_units (Amount_Text ''12.5'') 8 = Inr (nat_str k)"
    and "k * 10 ^ length ''5'' = 125 * 10 ^ 8" by auto
  then have "from_decimal_units (Amount_Text ''12.5'') 8 = Inr (nat_str 1250000000)"
    by simp
  with n(1) from_decimal_units_exact [OF m2, of 8] p(2) show ?thesis by simp
qed

section \<open>Numbers as decimal amounts\<close>

fun num_value :: "js_num \<Rightarrow> rat option" where
  "num_value (JInt i) = Some (of_int i)"
| "num_value (JDec q) = Some q"
| "num_value _ = None"

lemma decimal_match_signed:
  assumes "split_decimal s = Some (w, f)" and "sg = [] \<or> sg = ''-''"
  shows "decimal_match (sg @ s) = Some (sg, w, f)"
proof -
  have w: "all_digits w" and s: "s = (if f = [] then w else w @ ''.'' @ f)"
    using split_decimal_Some [OF assms(1)] by auto
  then obtain c cs where s': "s = c # cs" and c: "is_digit c"
    by (cases w) (auto simp: all_digits_def split: if_splits)
  then have "c \<noteq> CHR ''-''" by (auto simp: is_digit_def char_code_def)
  then show ?thesis using assms s' by (auto simp: decimal_match_def)
qed

lemma decimal_match_to_fixed:
  assumes "sg = [] \<or> sg = ''-''"
  obtains w f where "decimal_match (sg @ to_fixed_digits d n) = Some (sg, w, f)"
    and "length f = d" and "digits_value (w @ f) = n"
proof (cases "d = 0")
  case True
  then have "decimal_match (sg @ to_fixed_digits d n) = Some (sg, nat_str n, [])"
    using assms
    by (simp add: to_fixed_digits_def decimal_match_signed split_decimal_whole all_digits_nat_str)
  with True show ?thesis using that [of "nat_str n" "[]"] by simp
next
  case False
  let ?m = "pad_start (d + 1) (CHR ''0'') (nat_str n)"
  let ?w = "take (length ?m - d) ?m" and ?f = "drop (length ?m - d) ?m"
  have len: "d < length ?m" by simp
  have m: "list_all is_digit ?m" by (simp only: str_simps)
  have "list_all is_digit ?w" "list_all is_digit ?f"
    using m by (auto simp: list_all_iff dest: in_set_takeD in_set_dropD)
  moreover have "0 < length ?w" using len by simp
  then have "?w \<noteq> []" by blast
  moreover have f: "length ?f = d" using len by simp
  moreover have "?f \<noteq> []" using f False by auto
  ultimately have "split_decimal (?w @ ''.'' @ ?f) = Some (?w, ?f)"
    by (intro split_decimal_point) (simp_all add: all_digits_def)
  then have "decimal_match (sg @ to_fixed_digits d n) = Some (sg, ?w, ?f)"
    using assms False by (simp add: to_fixed_digits_def Let_def decimal_match_signed)
  moreover have "digits_value (?w @ ?f) = n"
    by (simp only: append_take_drop_id digits_value_pad_start digits_value_nat_str)
  ultimately show ?thesis using f by (intro that)
qed

lemma decimal_match_no_digit_head:
  "s \<noteq> [] \<Longrightarrow> hd s \<noteq> CHR ''-'' \<Longrightarrow> \<not> is_digit (hd s) \<Longrightarrow> decimal_match s = None"
  by (cases s) (simp_all add: decimal_match_def split_decimal_def Let_def)

lemma decimal_match_non_finite:
  "decimal_match ''[number]'' = None" "decimal_match ''NaN'' = None"
  "decimal_match ''Infinity'' = None" "decimal_match ''-Infinity'' = None"
  by (simp_all add: decimal_match_def split_decimal_def str_eval)

lemma to_fixed_finite:
  "num_value n = Some x \<Longrightarrow> to_fixed n d = to_fixed_rat x d"
  by (cases n) auto

text \<open>Rounding to the nearest multiple, the larger one on a tie.\<close>

lemma round_half_up_error:
  fixes y :: rat
  assumes "0 \<le> y"
  shows "\<bar>of_nat (nat \<lfloor>y + 1 / 2\<rfloor>) - y\<bar> \<le> 1 / 2"
proof -
  have nn: "0 \<le> \<lfloor>y + 1 / 2\<rfloor>" using assms by simp
  then have e: "of_nat (nat \<lfloor>y + 1 / 2\<rfloor>) = (of_int \<lfloor>y + 1 / 2\<rfloor> :: rat)" by simp
  show ?thesis unfolding e by linarith
qed

text \<open>
  \<open>fromDecimalUnits\<close> on a number: a finite number below \<open>10 ^ 21\<close> in magnitude is
  converted to the integer nearest to it times \<open>10 ^ d\<close> (at most half a base unit away, so a
  binary fraction that stands for a decimal amount gives that amount), read back by
  \<open>parseAmountBase\<close>; every other number is a \<open>ValidationError\<close>.
\<close>

theorem from_decimal_units_number:
  "case num_value n of
     None \<Rightarrow> from_decimal_units (Amount_Num n) d
       = Inl (ValidationError (''invalid decimal amount: '' @ js_num_str n))
   | Some x \<Rightarrow>
       if 10 ^ 21 \<le> \<bar>x\<bar>
       then from_decimal_units (Amount_Num n) d
         = Inl (ValidationError (''invalid decimal amount: '' @ js_num_str n))
       else \<exists>r v. from_decimal_units (Amount_Num n) d = Inr r \<and> parse_amount_base r = Inr v
         \<and> \<bar>of_int v - x * 10 ^ d\<bar> \<le> 1 / 2"
proof (cases "num_value n")
  case None
  then show ?thesis
    by (cases n) (simp_all add: from_decimal_units_def require_decimal_unit_match_def
        decimal_match_non_finite)
next
  case (Some x)
  note fx = to_fixed_finite [OF Some]
  show ?thesis
  proof (cases "10 ^ 21 \<le> \<bar>x\<bar>")
    case True
    then show ?thesis
      by (simp add: Some fx from_decimal_units_def require_decimal_unit_match_def to_fixed_rat_def
          decimal_match_non_finite)
  next
    case False
    define sg where "sg = (if x < 0 then ''-'' else [])"
    define k where "k = nat \<lfloor>\<bar>x\<bar> * 10 ^ d + 1 / 2\<rfloor>"
    have sg: "sg = [] \<or> sg = ''-''" by (simp add: sg_def)
    have src: "decimal_unit_source (Amount_Num n) d = sg @ to_fixed_digits d k"
      using False by (simp add: fx to_fixed_rat_def sg_def k_def)
    obtain w f where m: "decimal_match (sg @ to_fixed_digits d k) = Some (sg, w, f)"
      and f: "length f = d" and k: "digits_value (w @ f) = k"
      using decimal_match_to_fixed [OF sg] by blast
    have "from_decimal_units (Amount_Num n) d = Inr (sg @ nat_str k)"
      using from_decimal_units_matched [of "Amount_Num n" d sg w f] src m f k
      by (simp add: has_excess_decimal_precision_def pad_end_def)
    moreover have "parse_amount_base (sg @ nat_str k) = Inr (if sg = [] then int k else - int k)"
      using sg by (rule parse_signed_nat_str)
    moreover have "\<bar>of_int (if sg = [] then int k else - int k) - x * 10 ^ d\<bar> \<le> 1 / 2"
    proof -
      have k: "\<bar>of_nat k - \<bar>x\<bar> * 10 ^ d\<bar> \<le> 1 / 2"
        unfolding k_def by (rule round_half_up_error) simp
      show ?thesis
      proof (cases "x < 0")
        case True
        then have "of_int (if sg = [] then int k else - int k) - x * 10 ^ d
            = - (of_nat k - \<bar>x\<bar> * 10 ^ d)" by (simp add: sg_def)
        with k show ?thesis by (simp only: abs_minus_cancel)
      next
        case False
        with k show ?thesis by (simp add: sg_def)
      qed
    qed
    ultimately show ?thesis using Some False by auto
  qed
qed

section \<open>Pro-rata allocation\<close>

text \<open>BigInt division truncates towards zero.\<close>

definition bigint_div :: "int \<Rightarrow> int \<Rightarrow> int" where
  "bigint_div a b = sgn a * sgn b * (\<bar>a\<bar> div \<bar>b\<bar>)"

definition amount_contribution :: "(string, int) js_map \<Rightarrow> string \<Rightarrow> int" where
  "amount_contribution totals a = (case js_get totals a of None \<Rightarrow> 0 | Some v \<Rightarrow> v)"

definition can_allocate_pro_rata :: "string list \<Rightarrow> int \<Rightarrow> bool" where
  "can_allocate_pro_rata addrs tot \<longleftrightarrow> 0 < tot \<and> 0 < length addrs"

definition is_last_input_address :: "string list \<Rightarrow> nat \<Rightarrow> bool" where
  "is_last_input_address addrs i \<longleftrightarrow> int i = int (length addrs) - 1"

definition pro_rata_allocation_amount ::
  "int \<Rightarrow> string list \<Rightarrow> (string, int) js_map \<Rightarrow> int \<Rightarrow> int \<Rightarrow> string \<Rightarrow> nat \<Rightarrow> int" where
  "pro_rata_allocation_amount target addrs totals tot allocated a i =
     (if is_last_input_address addrs i then target - allocated
      else bigint_div (target * amount_contribution totals a) tot)"

text \<open>The \<^verbatim>\<open>map\<close> callback threads the running sum \<open>allocated\<close> through the addresses.\<close>

fun build_pro_rata_loop ::
  "int \<Rightarrow> string list \<Rightarrow> (string, int) js_map \<Rightarrow> int \<Rightarrow> int \<Rightarrow> nat \<Rightarrow> string list
     \<Rightarrow> (string \<times> int) list" where
  "build_pro_rata_loop target addrs totals tot allocated i [] = []"
| "build_pro_rata_loop target addrs totals tot allocated i (a # rest) =
     (let amount = pro_rata_allocation_amount target addrs totals tot allocated a i
      in (a, amount) # build_pro_rata_loop target addrs totals tot (allocated + amount) (Suc i) rest)"

definition build_pro_rata_allocations ::
  "int \<Rightarrow> string list \<Rightarrow> (string, int) js_map \<Rightarrow> int \<Rightarrow> (string \<times> int) list" where
  "build_pro_rata_allocations target addrs totals tot =
     build_pro_rata_loop target addrs totals tot 0 0 addrs"

definition allocate_pro_rata_amount ::
  "int \<Rightarrow> string list \<Rightarrow> (string, int) js_map \<Rightarrow> int \<Rightarrow> (string \<times> int) list" where
  "allocate_pro_rata_amount target addrs totals tot =
     (if \<not> can_allocate_pro_rata addrs tot then []
      else build_pro_rata_allocations target addrs totals tot)"

lemma build_pro_rata_addresses:
  "map fst (build_pro_rata_loop target addrs totals tot allocated i rest) = rest"
  by (induction rest arbitrary: allocated i) (simp_all add: Let_def)

lemma build_pro_rata_sum:
  assumes "length addrs = i + length rest" and "rest \<noteq> []"
  shows "sum_list (map snd (build_pro_rata_loop target addrs totals tot allocated i rest))
           = target - allocated"
  using assms
proof (induction rest arbitrary: allocated i)
  case Nil
  then show ?case by simp
next
  case (Cons a rest)
  show ?case
  proof (cases "rest = []")
    case True
    with Cons.prems show ?thesis
      by (simp add: pro_rata_allocation_amount_def is_last_input_address_def)
  next
    case False
    with Cons show ?thesis by (simp add: Let_def)
  qed
qed

lemma bigint_div_nonneg: "0 \<le> a \<Longrightarrow> 0 < b \<Longrightarrow> bigint_div a b = a div b"
  by (cases "a = 0") (simp_all add: bigint_div_def)

lemma mult_div_le: "0 < (b::int) \<Longrightarrow> b * (a div b) \<le> a"
  by (metis mult.commute minus_div_mult_eq_mod pos_mod_sign diff_ge_0_iff_ge)

text \<open>No share is negative: the shares before the last never exceed the proportional part.\<close>

lemma build_pro_rata_nonneg:
  assumes "0 < tot" and "0 \<le> target" and "\<forall>a. 0 \<le> amount_contribution totals a"
    and "length addrs = i + length rest"
    and "tot * allocated \<le> target * (tot - sum_list (map (amount_contribution totals) rest))"
  shows "\<forall>(a, m) \<in> set (build_pro_rata_loop target addrs totals tot allocated i rest). 0 \<le> m"
  using assms(4,5)
proof (induction rest arbitrary: allocated i)
  case Nil
  then show ?case by simp
next
  case (Cons a rest)
  let ?c = "amount_contribution totals a"
  let ?m = "pro_rata_allocation_amount target addrs totals tot allocated a i"
  have c: "0 \<le> ?c" using assms(3) by simp
  show ?case
  proof (cases "rest = []")
    case True
    then have "tot * allocated \<le> target * tot"
      using Cons.prems(2) c assms(2) by (simp add: algebra_simps) (smt (verit) mult_nonneg_nonneg)
    then have "allocated \<le> target" using assms(1) by (simp add: mult.commute)
    with True Cons.prems(1) show ?thesis
      by (simp add: pro_rata_allocation_amount_def is_last_input_address_def)
  next
    case False
    then have m: "?m = (target * ?c) div tot"
      using Cons.prems(1) c assms(1,2)
      by (simp add: pro_rata_allocation_amount_def is_last_input_address_def bigint_div_nonneg)
    have "0 \<le> ?m" using m c assms(1,2) by (simp add: pos_imp_zdiv_nonneg_iff)
    moreover have "tot * ?m \<le> target * ?c" using m mult_div_le [OF assms(1)] by simp
    then have "tot * (allocated + ?m)
        \<le> target * (tot - sum_list (map (amount_contribution totals) rest))"
      using Cons.prems(2) by (simp add: algebra_simps)
    ultimately show ?thesis using Cons.IH [of "Suc i" "allocated + ?m"] Cons.prems(1)
      by (simp add: Let_def)
  qed
qed

text \<open>
  \<open>allocateProRataAmount\<close> conserves the amount: it answers with one share per input
  address, in their order, the shares add up to exactly the target, and no share is negative,
  when the target and the contributions are not and the total covers the contributions.
\<close>

theorem allocate_pro_rata_conserves:
  assumes "addrs \<noteq> []" and "0 < tot" and "0 \<le> target"
    and "\<forall>a. 0 \<le> amount_contribution totals a"
    and "sum_list (map (amount_contribution totals) addrs) \<le> tot"
  shows "map fst (allocate_pro_rata_amount target addrs totals tot) = addrs
    \<and> sum_list (map snd (allocate_pro_rata_amount target addrs totals tot)) = target
    \<and> (\<forall>(a, m) \<in> set (allocate_pro_rata_amount target addrs totals tot). 0 \<le> m)"
proof -
  have alloc: "allocate_pro_rata_amount target addrs totals tot
      = build_pro_rata_loop target addrs totals tot 0 0 addrs"
    using assms by (simp add: allocate_pro_rata_amount_def can_allocate_pro_rata_def
        build_pro_rata_allocations_def)
  have "\<forall>(a, m) \<in> set (build_pro_rata_loop target addrs totals tot 0 0 addrs). 0 \<le> m"
    using assms by (intro build_pro_rata_nonneg) auto
  with assms(1,2) show ?thesis by (simp add: alloc build_pro_rata_addresses build_pro_rata_sum)
qed

theorem allocate_pro_rata_conserves_witness:
  "sum_list (map snd (allocate_pro_rata_amount 10 [''a'', ''b''] [(''a'', 1), (''b'', 2)] 3)) = 10
     \<and> allocate_pro_rata_amount 10 [''a'', ''b''] [(''a'', 1), (''b'', 2)] 3 = [(''a'', 3), (''b'', 7)]"
proof -
  have "\<forall>a. 0 \<le> amount_contribution [(''a'', 1), (''b'', 2)] a"
    by (simp add: amount_contribution_def)
  then have "sum_list (map snd (allocate_pro_rata_amount 10 [''a'', ''b''] [(''a'', 1), (''b'', 2)] 3)) = 10"
    using allocate_pro_rata_conserves [of "[''a'', ''b'']" 3 10 "[(''a'', 1), (''b'', 2)]"]
    by (simp add: amount_contribution_def)
  then show ?thesis
    by (simp add: allocate_pro_rata_amount_def can_allocate_pro_rata_def
        build_pro_rata_allocations_def pro_rata_allocation_amount_def is_last_input_address_def
        amount_contribution_def bigint_div_def)
qed

end
