(* ===== verification/Projection.thy ===== *)
theory Projection
  imports Amounts
begin

text \<open>
  The projection models: \<^verbatim>\<open>indexing-pipeline/src/domain/projection-models.ts\<close>.

  A window of block batches is turned into the rows to write: the next UTXO outputs (creates
  and spends applied over the outputs loaded from the store) and the next balances (credits
  and debits applied over the loaded balances). The loaders of the store are arguments. The
  lemmas relate both to a batch-by-batch replay on the whole table and on exact sums.
\<close>

section \<open>Data\<close>

record utxo_output =
  uo_address :: string
  uo_block_hash :: string
  uo_block_height :: int
  uo_block_time :: int
  uo_is_coinbase :: bool
  uo_is_spendable :: bool
  uo_output_key :: string
  uo_script_type :: string
  uo_spent_by_txid :: "string option"
  uo_spent_in_block :: "int option"
  uo_spent_input_index :: "int option"
  uo_tx_index :: int
  uo_txid :: string
  uo_value_base :: string
  uo_vout :: int

record utxo_spend =
  us_output_key :: string
  us_spent_by_txid :: string
  us_spent_in_block :: int
  us_spent_input_index :: int

datatype movement_direction = Credit | Debit

record address_movement =
  am_address :: string
  am_amount_base :: string
  am_asset_address :: string
  am_block_hash :: string
  am_block_height :: int
  am_block_time :: int
  am_derivation_method :: string
  am_direction :: movement_direction
  am_entry_index :: int
  am_movement_id :: string
  am_output_key :: "string option"
  am_tx_index :: int
  am_txid :: string

record balance_snapshot =
  bs_address :: string
  bs_asset_address :: string
  bs_as_of_block_height :: int
  bs_balance :: string

record applied_block =
  ab_block_hash :: string
  ab_block_height :: int

record projection_batch = applied_block +
  pb_address_movements :: "address_movement list"
  pb_block_time :: int
  pb_utxo_creates :: "utxo_output list"
  pb_utxo_spends :: "utxo_spend list"

type_synonym utxo_map = "(string, utxo_output) js_map"

section \<open>UTXO outputs of a window\<close>

definition spent_projection_utxo_output :: "utxo_output \<Rightarrow> utxo_spend \<Rightarrow> utxo_output" where
  "spent_projection_utxo_output current spend =
     current\<lparr>uo_spent_by_txid := Some (us_spent_by_txid spend),
             uo_spent_in_block := Some (us_spent_in_block spend),
             uo_spent_input_index := Some (us_spent_input_index spend)\<rparr>"

definition require_current_projection_utxo_output :: "utxo_map \<Rightarrow> string \<Rightarrow> utxo_output res" where
  "require_current_projection_utxo_output current key =
     (case js_get current key of
        None \<Rightarrow> Inl (GenericError (''missing utxo output: '' @ key))
      | Some o' \<Rightarrow> Inr o')"

definition require_projection_utxo_spend_output ::
  "utxo_map \<Rightarrow> utxo_map \<Rightarrow> utxo_spend \<Rightarrow> utxo_output res" where
  "require_projection_utxo_spend_output nxt current spend =
     (case js_get nxt (us_output_key spend) of
        Some o' \<Rightarrow> Inr o'
      | None \<Rightarrow> require_current_projection_utxo_output current (us_output_key spend))"

definition apply_projection_utxo_spend ::
  "utxo_map \<Rightarrow> utxo_spend \<Rightarrow> utxo_map \<Rightarrow> utxo_map res" where
  "apply_projection_utxo_spend current spend nxt =
     and_then (require_projection_utxo_spend_output nxt current spend) (\<lambda>o'.
     Inr (js_set (us_output_key spend) (spent_projection_utxo_output o' spend) nxt))"

definition apply_projection_utxo_spends ::
  "utxo_map \<Rightarrow> utxo_map \<Rightarrow> utxo_spend list \<Rightarrow> utxo_map res" where
  "apply_projection_utxo_spends nxt current spends =
     fold_res (apply_projection_utxo_spend current) spends nxt"

definition apply_projection_utxo_creates :: "utxo_map \<Rightarrow> utxo_output list \<Rightarrow> utxo_map" where
  "apply_projection_utxo_creates nxt creates =
     fold (\<lambda>o'. js_set (uo_output_key o') o') creates nxt"

definition apply_projection_utxo_batch ::
  "utxo_map \<Rightarrow> projection_batch \<Rightarrow> utxo_map \<Rightarrow> utxo_map res" where
  "apply_projection_utxo_batch current batch nxt =
     apply_projection_utxo_spends (apply_projection_utxo_creates nxt (pb_utxo_creates batch))
       current (pb_utxo_spends batch)"

definition build_next_projection_utxo_outputs ::
  "projection_batch list \<Rightarrow> utxo_map \<Rightarrow> utxo_map res" where
  "build_next_projection_utxo_outputs batches current =
     fold_res (apply_projection_utxo_batch current) batches []"

definition collect_projection_spend_output_keys :: "projection_batch list \<Rightarrow> string list" where
  "collect_projection_spend_output_keys batches =
     unique (concat (map (\<lambda>b. map us_output_key (pb_utxo_spends b)) batches))"

definition collect_projection_touched_output_keys :: "projection_batch list \<Rightarrow> string list" where
  "collect_projection_touched_output_keys batches =
     unique (concat (map (\<lambda>b. map uo_output_key (pb_utxo_creates b)
                              @ map us_output_key (pb_utxo_spends b)) batches))"

definition build_projection_utxo_window ::
  "projection_batch list \<Rightarrow> (string list \<Rightarrow> utxo_map res) \<Rightarrow> utxo_map res" where
  "build_projection_utxo_window batches load =
     and_then (load (collect_projection_spend_output_keys batches))
       (build_next_projection_utxo_outputs batches)"

subsection \<open>The specification: replaying the batches on the whole table\<close>

type_synonym utxo_table = "string \<Rightarrow> utxo_output option"

definition replay_spend :: "utxo_spend \<Rightarrow> utxo_table \<Rightarrow> utxo_table res" where
  "replay_spend spend t =
     (case t (us_output_key spend) of
        None \<Rightarrow> Inl (GenericError (''missing utxo output: '' @ us_output_key spend))
      | Some o' \<Rightarrow> Inr (t(us_output_key spend \<mapsto> spent_projection_utxo_output o' spend)))"

definition replay_batch :: "projection_batch \<Rightarrow> utxo_table \<Rightarrow> utxo_table res" where
  "replay_batch b t =
     fold_res replay_spend (pb_utxo_spends b)
       (fold (\<lambda>o' t. t(uo_output_key o' \<mapsto> o')) (pb_utxo_creates b) t)"

definition overlay :: "utxo_table \<Rightarrow> utxo_map \<Rightarrow> utxo_table" where
  "overlay t nxt = t ++ js_get nxt"

lemma overlay_Nil [simp]: "overlay t [] = t"
  by (simp add: overlay_def)

lemma overlay_set: "overlay t (js_set k v nxt) = (overlay t nxt)(k \<mapsto> v)"
  by (simp add: overlay_def update_conv')

lemma overlay_creates:
  "overlay t (apply_projection_utxo_creates nxt os)
     = fold (\<lambda>o' t. t(uo_output_key o' \<mapsto> o')) os (overlay t nxt)"
  unfolding apply_projection_utxo_creates_def
  by (induction os arbitrary: nxt) (simp_all add: overlay_set)

lemma replay_spend_simulation:
  assumes "js_get current (us_output_key spend) = t (us_output_key spend)"
  shows "abs_res (overlay t) (apply_projection_utxo_spend current spend nxt)
           = replay_spend spend (overlay t nxt)"
  using assms
  by (auto simp: apply_projection_utxo_spend_def require_projection_utxo_spend_output_def
      require_current_projection_utxo_output_def replay_spend_def overlay_set
      split: option.splits) (auto simp: overlay_def map_add_def split: option.splits)

lemma replay_batch_simulation:
  assumes "\<forall>s \<in> set (pb_utxo_spends b). js_get current (us_output_key s) = t (us_output_key s)"
  shows "abs_res (overlay t) (apply_projection_utxo_batch current b nxt)
           = replay_batch b (overlay t nxt)"
  unfolding apply_projection_utxo_batch_def apply_projection_utxo_spends_def replay_batch_def
    overlay_creates [symmetric]
  using assms by (intro fold_res_simulation replay_spend_simulation) auto

text \<open>
  C21. The UTXO window is a faithful delta: when the loader answers with the table's rows for
  the keys it is asked for, laying the computed outputs over the table gives exactly what
  replaying the batches in order on the whole table gives, and the window fails exactly when
  the replay does, with the same error.
\<close>

theorem utxo_window_refines_replay:
  assumes "\<And>keys. \<exists>current. load keys = Inr current \<and> (\<forall>k \<in> set keys. js_get current k = t k)"
  shows "abs_res (overlay t) (build_projection_utxo_window batches load)
           = fold_res replay_batch batches t"
proof -
  let ?keys = "collect_projection_spend_output_keys batches"
  obtain current where load: "load ?keys = Inr current"
    and cur: "\<forall>k \<in> set ?keys. js_get current k = t k"
    using assms by blast
  have "abs_res (overlay t) (build_projection_utxo_window batches load)
      = abs_res (overlay t) (fold_res (apply_projection_utxo_batch current) batches [])"
    by (simp add: build_projection_utxo_window_def build_next_projection_utxo_outputs_def load)
  also have "\<dots> = fold_res replay_batch batches (overlay t [])"
    using cur by (intro fold_res_simulation replay_batch_simulation)
      (auto simp: collect_projection_spend_output_keys_def)
  finally show ?thesis by simp
qed


subsection \<open>Which rows a window writes\<close>

lemma apply_projection_utxo_creates_put_all:
  "apply_projection_utxo_creates nxt os = jsm.put_all (map (\<lambda>o'. (uo_output_key o', o')) os) nxt"
  unfolding apply_projection_utxo_creates_def jsm.put_all_def by (induction os arbitrary: nxt) auto

lemma apply_projection_utxo_creates_keys:
  "set (js_keys (apply_projection_utxo_creates nxt os)) = uo_output_key ` set os \<union> set (js_keys nxt)"
  by (simp add: apply_projection_utxo_creates_put_all jsm.keys_put_all image_image)

lemma apply_projection_utxo_creates_ok:
  "js_map_ok nxt \<Longrightarrow> js_map_ok (apply_projection_utxo_creates nxt os)"
  by (simp add: apply_projection_utxo_creates_put_all jsm.ok_put_all)

lemma apply_projection_utxo_spends_keys:
  "apply_projection_utxo_spends nxt current ss = Inr nxt' \<Longrightarrow>
     set (js_keys nxt') = us_output_key ` set ss \<union> set (js_keys nxt)
     \<and> (js_map_ok nxt \<longrightarrow> js_map_ok nxt')"
  unfolding apply_projection_utxo_spends_def
  by (induction ss arbitrary: nxt)
    (auto simp: res_simps apply_projection_utxo_spend_def jsm.keys_put)

lemma apply_projection_utxo_batch_keys:
  assumes "apply_projection_utxo_batch current b nxt = Inr nxt'"
  shows "set (js_keys nxt') = uo_output_key ` set (pb_utxo_creates b)
           \<union> us_output_key ` set (pb_utxo_spends b) \<union> set (js_keys nxt)
         \<and> (js_map_ok nxt \<longrightarrow> js_map_ok nxt')"
  using assms apply_projection_utxo_spends_keys apply_projection_utxo_creates_ok
  unfolding apply_projection_utxo_batch_def by (fastforce simp: apply_projection_utxo_creates_keys)

lemma build_next_projection_utxo_outputs_keys:
  assumes "fold_res (apply_projection_utxo_batch current) batches nxt = Inr nxt'" and "js_map_ok nxt"
  shows "set (js_keys nxt') = set (collect_projection_touched_output_keys batches)
           \<union> set (js_keys nxt) \<and> js_map_ok nxt'"
  using assms
proof (induction batches arbitrary: nxt)
  case Nil
  then show ?case by (simp add: collect_projection_touched_output_keys_def)
next
  case (Cons b batches)
  from Cons.prems(1) obtain m where m: "apply_projection_utxo_batch current b nxt = Inr m"
    and rest: "fold_res (apply_projection_utxo_batch current) batches m = Inr nxt'"
    by (auto simp: res_simps)
  have "js_map_ok m" using apply_projection_utxo_batch_keys [OF m] Cons.prems(2) by simp
  from Cons.IH [OF rest this] apply_projection_utxo_batch_keys [OF m] show ?case
    by (auto simp: collect_projection_touched_output_keys_def)
qed

text \<open>
  A successful window writes one row per touched output key and no other row: the keys of
  the result are exactly those \<open>collectProjectionTouchedOutputKeys\<close> lists, each once.
\<close>

theorem utxo_window_touches_exactly:
  assumes "build_projection_utxo_window batches load = Inr nxt"
  shows "mset (js_keys nxt) = mset (collect_projection_touched_output_keys batches)"
proof -
  from assms obtain current where
    "fold_res (apply_projection_utxo_batch current) batches [] = Inr nxt"
    by (auto simp: build_projection_utxo_window_def build_next_projection_utxo_outputs_def res_simps)
  from build_next_projection_utxo_outputs_keys [OF this js_map_ok_Nil]
  have "set (js_keys nxt) = set (collect_projection_touched_output_keys batches)"
    and "distinct (js_keys nxt)"
    by (simp_all add: js_map_ok_def js_keys_def)
  then show ?thesis
    unfolding collect_projection_touched_output_keys_def
    by (metis distinct_unique set_eq_iff_mset_eq_distinct)
qed


section \<open>Balances of a window\<close>

text \<open>
  The stored snapshot type is \<^verbatim>\<open>T extends ProjectionBalanceSnapshot\<close>: the record scheme of
  \<open>balance_snapshot\<close>. \<open>to_stored\<close> is the callback \<^verbatim>\<open>toStoredSnapshot\<close>; a caller without one
  stores the snapshot itself, \<open>\<lambda>s _. s\<close>.
\<close>

type_synonym 't balance_map = "(string, 't balance_snapshot_scheme) js_map"

definition current_balance_snapshot ::
  "'t balance_map \<Rightarrow> 't balance_map \<Rightarrow> string \<Rightarrow> 't balance_snapshot_scheme option" where
  "current_balance_snapshot cur nxt key =
     (case js_get nxt key of Some b \<Rightarrow> Some b | None \<Rightarrow> js_get cur key)"

definition current_balance_value :: "'t balance_map \<Rightarrow> 't balance_map \<Rightarrow> string \<Rightarrow> string" where
  "current_balance_value cur nxt key =
     (case current_balance_snapshot cur nxt key of Some b \<Rightarrow> bs_balance b | None \<Rightarrow> ''0'')"

definition current_balance_amount :: "'t balance_map \<Rightarrow> 't balance_map \<Rightarrow> string \<Rightarrow> int res" where
  "current_balance_amount cur nxt key = parse_amount_base (current_balance_value cur nxt key)"

definition next_balance_amount :: "int \<Rightarrow> address_movement \<Rightarrow> int res" where
  "next_balance_amount current mv =
     and_then (parse_amount_base (am_amount_base mv)) (\<lambda>m.
     Inr (if am_direction mv = Credit then current + m else current - m))"

definition negative_balance_error :: "address_movement \<Rightarrow> js_error" where
  "negative_balance_error mv =
     GenericError (''negative balance for '' @ am_address mv @ '':'' @ am_asset_address mv)"

definition assert_non_negative_balance :: "int \<Rightarrow> address_movement \<Rightarrow> unit res" where
  "assert_non_negative_balance amount mv =
     (if amount < 0 then Inl (negative_balance_error mv) else Inr ())"

definition make_balance_snapshot :: "int \<Rightarrow> address_movement \<Rightarrow> int \<Rightarrow> balance_snapshot" where
  "make_balance_snapshot as_of mv amount =
     \<lparr>bs_address = am_address mv, bs_asset_address = am_asset_address mv,
      bs_as_of_block_height = as_of, bs_balance = format_amount_base amount\<rparr>"

definition apply_address_movement_to_balances ::
  "int \<Rightarrow> 't balance_map \<Rightarrow> (address_movement \<Rightarrow> string)
     \<Rightarrow> (balance_snapshot \<Rightarrow> address_movement \<Rightarrow> 't balance_snapshot_scheme)
     \<Rightarrow> address_movement \<Rightarrow> 't balance_map \<Rightarrow> 't balance_map res" where
  "apply_address_movement_to_balances as_of cur key_for to_stored mv nxt =
     (let key = key_for mv in
      and_then (current_balance_amount cur nxt key) (\<lambda>current.
      and_then (next_balance_amount current mv) (\<lambda>amount.
      and_then (assert_non_negative_balance amount mv) (\<lambda>_.
      Inr (js_set key (to_stored (make_balance_snapshot as_of mv amount) mv) nxt)))))"

definition apply_address_movements_to_balances ::
  "int \<Rightarrow> 't balance_map \<Rightarrow> (address_movement \<Rightarrow> string)
     \<Rightarrow> (balance_snapshot \<Rightarrow> address_movement \<Rightarrow> 't balance_snapshot_scheme)
     \<Rightarrow> address_movement list \<Rightarrow> 't balance_map \<Rightarrow> 't balance_map res" where
  "apply_address_movements_to_balances as_of cur key_for to_stored mvs nxt =
     fold_res (apply_address_movement_to_balances as_of cur key_for to_stored) mvs nxt"

definition apply_projection_balance_batch ::
  "'t balance_map \<Rightarrow> (address_movement \<Rightarrow> string)
     \<Rightarrow> (balance_snapshot \<Rightarrow> address_movement \<Rightarrow> 't balance_snapshot_scheme)
     \<Rightarrow> projection_batch \<Rightarrow> 't balance_map \<Rightarrow> 't balance_map res" where
  "apply_projection_balance_batch cur key_for to_stored batch nxt =
     apply_address_movements_to_balances (ab_block_height batch) cur key_for to_stored
       (pb_address_movements batch) nxt"

subsection \<open>Keys\<close>

definition projection_block_identity :: "int \<Rightarrow> string \<Rightarrow> string" where
  "projection_block_identity height hash = int_str height @ '':'' @ hash"

definition projection_balance_snapshot_key :: "string \<Rightarrow> string \<Rightarrow> string" where
  "projection_balance_snapshot_key address asset = address @ '':'' @ asset"

text \<open>
  \<^verbatim>\<open>const [address, ...rest] = key.split(':')\<close> and \<^verbatim>\<open>rest.join(':')\<close>.
\<close>

fun js_split :: "char \<Rightarrow> string \<Rightarrow> string list" where
  "js_split c [] = [[]]"
| "js_split c (x # xs) =
     (if x = c then [] # js_split c xs
      else case js_split c xs of [] \<Rightarrow> [[x]] | p # ps \<Rightarrow> (x # p) # ps)"

fun js_join :: "string \<Rightarrow> string list \<Rightarrow> string" where
  "js_join sep [] = []"
| "js_join sep [p] = p"
| "js_join sep (p # q # ps) = p @ sep @ js_join sep (q # ps)"

definition parse_projection_balance_snapshot_key :: "string \<Rightarrow> string \<times> string" where
  "parse_projection_balance_snapshot_key key =
     (case js_split (CHR '':'') key of
        [] \<Rightarrow> ([], [])
      | address # parts \<Rightarrow> (address, js_join '':'' parts))"

definition collect_projection_balance_snapshot_keys :: "projection_batch list \<Rightarrow> string list" where
  "collect_projection_balance_snapshot_keys batches =
     unique (concat (map (\<lambda>b. map (\<lambda>mv. projection_balance_snapshot_key (am_address mv)
       (am_asset_address mv)) (pb_address_movements b)) batches))"

definition build_projection_balance_window ::
  "projection_batch list \<Rightarrow> (address_movement \<Rightarrow> string) \<Rightarrow> ('key list \<Rightarrow> 't balance_map res)
     \<Rightarrow> (string \<times> string \<Rightarrow> 'key)
     \<Rightarrow> (balance_snapshot \<Rightarrow> address_movement \<Rightarrow> 't balance_snapshot_scheme)
     \<Rightarrow> 't balance_map res" where
  "build_projection_balance_window batches key_for load to_key to_stored =
     (let keys = map to_key (map parse_projection_balance_snapshot_key
                  (collect_projection_balance_snapshot_keys batches)) in
      and_then (load keys) (\<lambda>cur.
      fold_res (apply_projection_balance_batch cur key_for to_stored) batches []))"

text \<open>
  \<^verbatim>\<open>Promise.all\<close> of the two windows: both results, or a failure of one of them (of the UTXO
  window when both fail; the code leaves the choice to the scheduler).
\<close>

definition build_projection_state_changes ::
  "projection_batch list \<Rightarrow> (address_movement \<Rightarrow> string) \<Rightarrow> ('key list \<Rightarrow> 't balance_map res)
     \<Rightarrow> (string list \<Rightarrow> utxo_map res) \<Rightarrow> (string \<times> string \<Rightarrow> 'key)
     \<Rightarrow> (balance_snapshot \<Rightarrow> address_movement \<Rightarrow> 't balance_snapshot_scheme)
     \<Rightarrow> ('t balance_map \<times> utxo_map) res" where
  "build_projection_state_changes batches key_for load_balances load_outputs to_key to_stored =
     and_then (build_projection_utxo_window batches load_outputs) (\<lambda>nxt_outputs.
     and_then (build_projection_balance_window batches key_for load_balances to_key to_stored)
       (\<lambda>nxt_balances. Inr (nxt_balances, nxt_outputs)))"


subsection \<open>The specification: exact sums per key\<close>

definition movement_delta :: "address_movement \<Rightarrow> int" where
  "movement_delta mv =
     (let m = signed_value (js_trim (am_amount_base mv))
      in if am_direction mv = Credit then m else - m)"

definition movement_ok :: "address_movement \<Rightarrow> bool" where
  "movement_ok mv \<longleftrightarrow> is_amount_text (js_trim (am_amount_base mv))"

definition balances_ok :: "'t balance_map \<Rightarrow> bool" where
  "balances_ok m \<longleftrightarrow> (\<forall>(k, b) \<in> set m. is_amount_text (js_trim (bs_balance b)))"

definition replay_movement ::
  "(address_movement \<Rightarrow> string) \<Rightarrow> address_movement \<Rightarrow> (string \<Rightarrow> int) \<Rightarrow> (string \<Rightarrow> int) res" where
  "replay_movement key_for mv f =
     (let v = f (key_for mv) + movement_delta mv
      in if v < 0 then Inl (negative_balance_error mv) else Inr (f(key_for mv := v)))"

definition amounts :: "'t balance_map \<Rightarrow> 't balance_map \<Rightarrow> string \<Rightarrow> int" where
  "amounts cur nxt key = signed_value (js_trim (current_balance_value cur nxt key))"

lemma is_amount_text_zero [simp]: "is_amount_text (js_trim ''0'')"
  using is_amount_text_int_str [of 0] by (simp add: str_eval)

lemma current_balance_text:
  "balances_ok cur \<Longrightarrow> balances_ok nxt \<Longrightarrow> is_amount_text (js_trim (current_balance_value cur nxt k))"
  by (fastforce simp: current_balance_value_def current_balance_snapshot_def balances_ok_def
      dest: map_of_SomeD split: option.splits)

lemma parse_trimmed:
  "is_amount_text (js_trim s) \<Longrightarrow> parse_amount_base s = Inr (signed_value (js_trim s))"
  by (simp add: parse_amount_base_ok_iff)

lemma format_amount_trimmed [simp]:
  "is_amount_text (js_trim (format_amount_base v))" "signed_value (js_trim (format_amount_base v)) = v"
  using parse_format_amount [of v] unfolding parse_amount_base_ok_iff by simp_all

lemma balances_ok_set:
  "balances_ok m \<Longrightarrow> is_amount_text (js_trim (bs_balance b)) \<Longrightarrow> balances_ok (js_set k b m)"
  by (induction m) (auto simp: balances_ok_def split: if_splits)

lemma apply_movement_simulation:
  assumes "balances_ok cur" and "balances_ok nxt" and "movement_ok mv"
    and stored: "\<And>s mv. bs_balance (to_stored s mv) = bs_balance s"
  shows "abs_res (amounts cur) (apply_address_movement_to_balances as_of cur key_for to_stored mv nxt)
           = replay_movement key_for mv (amounts cur nxt)"
proof -
  have cur: "current_balance_amount cur nxt (key_for mv) = Inr (amounts cur nxt (key_for mv))"
    using current_balance_text [OF assms(1,2)]
    by (simp add: current_balance_amount_def amounts_def parse_trimmed)
  have nxt: "next_balance_amount a mv = Inr (a + movement_delta mv)" for a
    using assms(3) by (simp add: next_balance_amount_def movement_ok_def movement_delta_def
        parse_trimmed Let_def)
  have upd: "amounts cur (js_set (key_for mv) (to_stored (make_balance_snapshot as_of mv v) mv) nxt)
      = (amounts cur nxt)(key_for mv := v)" for v
    by (auto simp: amounts_def current_balance_value_def current_balance_snapshot_def js_get_set
        stored make_balance_snapshot_def fun_eq_iff)
  show ?thesis
    by (simp add: apply_address_movement_to_balances_def replay_movement_def Let_def cur nxt upd
        assert_non_negative_balance_def)
qed

lemma apply_movement_balances_ok:
  assumes "apply_address_movement_to_balances as_of cur key_for to_stored mv nxt = Inr nxt'"
    and "balances_ok nxt" and "\<And>s mv. bs_balance (to_stored s mv) = bs_balance s"
  shows "balances_ok nxt'"
  using assms
  by (auto simp: apply_address_movement_to_balances_def Let_def res_simps make_balance_snapshot_def
      intro!: balances_ok_set)

lemma apply_balance_batch_simulation:
  fixes cur nxt :: "'t balance_map"
  assumes "balances_ok cur" and "balances_ok nxt" and "list_all movement_ok (pb_address_movements b)"
    and "\<And>s mv. bs_balance (to_stored s mv) = bs_balance s"
  shows "abs_res (amounts cur) (apply_projection_balance_batch cur key_for to_stored b nxt)
           = fold_res (replay_movement key_for) (pb_address_movements b) (amounts cur nxt)"
  unfolding apply_projection_balance_batch_def apply_address_movements_to_balances_def
proof (rule fold_res_simulation_inv [where P = balances_ok, OF assms(2)])
  fix mv and s :: "'t balance_map"
  assume "mv \<in> set (pb_address_movements b)" "balances_ok s"
  with assms show "abs_res (amounts cur)
      (apply_address_movement_to_balances (ab_block_height b) cur key_for to_stored mv s)
      = replay_movement key_for mv (amounts cur s)"
    by (intro apply_movement_simulation) (auto simp: list_all_iff)
next
  fix mv and s s' :: "'t balance_map"
  assume "balances_ok s" "apply_address_movement_to_balances (ab_block_height b) cur key_for to_stored mv s = Inr s'"
  with assms(4) show "balances_ok s'" using apply_movement_balances_ok by blast
qed

lemma apply_balance_batch_ok:
  assumes "apply_projection_balance_batch cur key_for to_stored b nxt = Inr nxt'"
    and "balances_ok nxt" and "\<And>s mv. bs_balance (to_stored s mv) = bs_balance s"
  shows "balances_ok nxt'"
  using assms apply_movement_balances_ok
  unfolding apply_projection_balance_batch_def apply_address_movements_to_balances_def
  by (elim fold_res_invariant) blast+

definition window_movements :: "projection_batch list \<Rightarrow> address_movement list" where
  "window_movements batches = concat (map pb_address_movements batches)"

lemma fold_res_concat:
  "fold_res (\<lambda>b. fold_res f (g b)) bs s = fold_res f (concat (map g bs)) s"
  by (induction bs arbitrary: s) (simp_all add: fold_res_append cong: and_then_cong)

lemma balance_batches_simulation:
  fixes cur :: "'t balance_map"
  assumes "balances_ok cur" and "list_all movement_ok (window_movements batches)"
    and "\<And>s mv. bs_balance (to_stored s mv) = bs_balance s"
  shows "abs_res (amounts cur) (fold_res (apply_projection_balance_batch cur key_for to_stored) batches [])
           = fold_res (replay_movement key_for) (window_movements batches) (amounts cur [])"
proof -
  have "abs_res (amounts cur) (fold_res (apply_projection_balance_batch cur key_for to_stored) batches [])
      = fold_res (\<lambda>b. fold_res (replay_movement key_for) (pb_address_movements b)) batches
          (amounts cur [])"
  proof (rule fold_res_simulation_inv [where P = balances_ok])
    show "balances_ok ([] :: 't balance_map)" by (simp add: balances_ok_def)
  next
    fix b and s :: "'t balance_map"
    assume "b \<in> set batches" "balances_ok s"
    with assms show "abs_res (amounts cur) (apply_projection_balance_batch cur key_for to_stored b s)
        = fold_res (replay_movement key_for) (pb_address_movements b) (amounts cur s)"
      by (intro apply_balance_batch_simulation) (auto simp: window_movements_def list_all_iff)
  next
    fix b and s s' :: "'t balance_map"
    assume "balances_ok s" "apply_projection_balance_batch cur key_for to_stored b s = Inr s'"
    with assms(3) show "balances_ok s'" using apply_balance_batch_ok by blast
  qed
  then show ?thesis by (simp add: fold_res_concat window_movements_def)
qed

definition net_movement :: "(address_movement \<Rightarrow> string) \<Rightarrow> string \<Rightarrow> address_movement list \<Rightarrow> int" where
  "net_movement key_for k mvs = sum_list (map movement_delta (filter (\<lambda>mv. key_for mv = k) mvs))"

lemma replay_movements_sum:
  "fold_res (replay_movement key_for) mvs f = Inr g \<Longrightarrow> g k = f k + net_movement key_for k mvs"
  by (induction mvs arbitrary: f)
    (auto simp: res_simps replay_movement_def net_movement_def Let_def split: if_splits)

lemma replay_movements_nonneg:
  assumes "fold_res (replay_movement key_for) mvs f = Inr g" and "\<forall>k. 0 \<le> f k"
  shows "0 \<le> g k"
proof -
  have "\<forall>k. 0 \<le> g k"
    by (rule fold_res_invariant [OF assms(1), where P = "\<lambda>f. \<forall>k. 0 \<le> f k"])
      (use assms(2) in \<open>auto simp: replay_movement_def Let_def split: if_splits\<close>)
  then show ?thesis by simp
qed

text \<open>A replay fails exactly at the first movement that would take its key below zero.\<close>

lemma replay_movements_fail:
  "fold_res (replay_movement key_for) mvs f = Inl e \<longleftrightarrow>
     (\<exists>pre mv post g. mvs = pre @ mv # post \<and> fold_res (replay_movement key_for) pre f = Inr g
        \<and> g (key_for mv) + movement_delta mv < 0 \<and> e = negative_balance_error mv)"
proof (induction mvs arbitrary: f)
  case Nil
  then show ?case by simp
next
  case (Cons mv mvs)
  show ?case
  proof (cases "f (key_for mv) + movement_delta mv < 0")
    case True
    then have "fold_res (replay_movement key_for) (mv # mvs) f = Inl e
        \<longleftrightarrow> e = negative_balance_error mv"
      by (auto simp: replay_movement_def)
    moreover have "mv # mvs = pre @ mv' # post \<and> fold_res (replay_movement key_for) pre f = Inr g
          \<and> g (key_for mv') + movement_delta mv' < 0 \<and> e = negative_balance_error mv'
        \<longleftrightarrow> pre = [] \<and> mv' = mv \<and> post = mvs \<and> g = f \<and> e = negative_balance_error mv" for pre mv' post g
      using True by (cases pre) (auto simp: replay_movement_def)
    ultimately show ?thesis by simp
  next
    case False
    define f' where "f' = f(key_for mv := f (key_for mv) + movement_delta mv)"
    have step: "replay_movement key_for mv f = Inr f'"
      using False by (simp add: replay_movement_def f'_def Let_def)
    have "(\<exists>pre mv' post g. mv # mvs = pre @ mv' # post
          \<and> fold_res (replay_movement key_for) pre f = Inr g
          \<and> g (key_for mv') + movement_delta mv' < 0 \<and> e = negative_balance_error mv')
        \<longleftrightarrow> (\<exists>pre mv' post g. mvs = pre @ mv' # post
          \<and> fold_res (replay_movement key_for) pre f' = Inr g
          \<and> g (key_for mv') + movement_delta mv' < 0 \<and> e = negative_balance_error mv')"
      (is "(\<exists>pre mv' post g. ?A pre mv' post g) \<longleftrightarrow> (\<exists>pre mv' post g. ?B pre mv' post g)")
    proof
      assume "\<exists>pre mv' post g. ?A pre mv' post g"
      then obtain pre mv' post g where A: "?A pre mv' post g" by blast
      then obtain pre' where "pre = mv # pre'" using False by (cases pre) auto
      with A have "?B pre' mv' post g" by (simp add: step)
      then show "\<exists>pre mv' post g. ?B pre mv' post g" by blast
    next
      assume "\<exists>pre mv' post g. ?B pre mv' post g"
      then obtain pre mv' post g where "?B pre mv' post g" by blast
      then have "?A (mv # pre) mv' post g" by (simp add: step)
      then show "\<exists>pre mv' post g. ?A pre mv' post g" by blast
    qed
    moreover have "fold_res (replay_movement key_for) (mv # mvs) f = Inl e
        \<longleftrightarrow> fold_res (replay_movement key_for) mvs f' = Inl e"
      by (simp add: step)
    ultimately show ?thesis using Cons.IH [of f'] by simp
  qed
qed

text \<open>
  The balance window is a faithful replay on integers: with stored balances and movement
  amounts that are decimal texts, the balances it computes are those obtained by adding and
  subtracting the exact amounts movement by movement, and it fails exactly when a movement
  would take the balance of its key below zero, with the error naming that movement.
\<close>

theorem balance_window_refines_replay:
  fixes cur :: "'t balance_map"
  assumes "load (map to_key (map parse_projection_balance_snapshot_key
             (collect_projection_balance_snapshot_keys batches))) = Inr cur"
    and "balances_ok cur" and "list_all movement_ok (window_movements batches)"
    and "\<And>s mv. bs_balance (to_stored s mv) = bs_balance s"
  shows "abs_res (amounts cur) (build_projection_balance_window batches key_for load to_key to_stored)
           = fold_res (replay_movement key_for) (window_movements batches) (amounts cur [])"
  using balance_batches_simulation [OF assms(2,3), of to_stored key_for] assms(1,4)
  by (simp add: build_projection_balance_window_def)

text \<open>
  When the balance window succeeds, the balance it leaves for each key is the stored one
  plus the sum of the credits minus the sum of the debits of that key over the window, and no
  balance becomes negative.
\<close>

theorem balance_window_sums:
  fixes cur :: "'t balance_map"
  assumes "load (map to_key (map parse_projection_balance_snapshot_key
             (collect_projection_balance_snapshot_keys batches))) = Inr cur"
    and "balances_ok cur" and "list_all movement_ok (window_movements batches)"
    and "\<And>s mv. bs_balance (to_stored s mv) = bs_balance s"
    and "\<forall>k. 0 \<le> amounts cur [] k"
    and "build_projection_balance_window batches key_for load to_key to_stored = Inr nxt"
  shows "amounts cur nxt k = amounts cur [] k + net_movement key_for k (window_movements batches)
         \<and> 0 \<le> amounts cur nxt k"
proof -
  have "fold_res (apply_projection_balance_batch cur key_for to_stored) batches [] = Inr nxt"
    using assms(1,6) by (simp add: build_projection_balance_window_def)
  with balance_batches_simulation [OF assms(2,3), of to_stored key_for] assms(4)
  have "fold_res (replay_movement key_for) (window_movements batches) (amounts cur [])
      = Inr (amounts cur nxt)"
    by (metis map_sum.simps(2))
  from replay_movements_sum [OF this] replay_movements_nonneg [OF this assms(5)]
  show ?thesis by blast
qed


section \<open>Snapshot keys and block identities\<close>

lemma js_split_nonempty [simp]: "js_split c s \<noteq> []"
  by (induction s) (auto split: list.splits)

lemma js_split_append:
  "c \<notin> set a \<Longrightarrow> js_split c (a @ c # s) = a # js_split c s"
  by (induction a) auto

lemma js_join_split: "js_join [c] (js_split c s) = s"
proof (induction s)
  case Nil
  then show ?case by simp
next
  case (Cons x s)
  obtain p ps where p: "js_split c s = p # ps" by (cases "js_split c s") auto
  with Cons show ?case by (cases ps) auto
qed

text \<open>
  Balance keys are unambiguous: the key built from an address and an asset address is
  parsed back into the same pair whenever the address has no colon, whatever the asset address
  holds, and any parsed key that has a colon is rebuilt exactly.
\<close>

theorem balance_snapshot_key_roundtrip:
  "(CHR '':'' \<notin> set address \<longrightarrow>
      parse_projection_balance_snapshot_key (projection_balance_snapshot_key address asset)
        = (address, asset))
   \<and> (CHR '':'' \<in> set key \<longrightarrow>
      (case parse_projection_balance_snapshot_key key of
         (a, s) \<Rightarrow> projection_balance_snapshot_key a s = key \<and> CHR '':'' \<notin> set a))"
proof
  show "CHR '':'' \<notin> set address \<longrightarrow>
      parse_projection_balance_snapshot_key (projection_balance_snapshot_key address asset)
        = (address, asset)"
    using js_join_split by (simp add: parse_projection_balance_snapshot_key_def
        projection_balance_snapshot_key_def js_split_append)
next
  show "CHR '':'' \<in> set key \<longrightarrow>
      (case parse_projection_balance_snapshot_key key of
         (a, s) \<Rightarrow> projection_balance_snapshot_key a s = key \<and> CHR '':'' \<notin> set a)"
  proof
    assume "CHR '':'' \<in> set key"
    then obtain a s where "key = a @ CHR '':'' # s" and "CHR '':'' \<notin> set a"
      by (meson split_list_first)
    then show "case parse_projection_balance_snapshot_key key of
         (a, s) \<Rightarrow> projection_balance_snapshot_key a s = key \<and> CHR '':'' \<notin> set a"
      using js_join_split by (simp add: parse_projection_balance_snapshot_key_def
          projection_balance_snapshot_key_def js_split_append)
  qed
qed

theorem balance_snapshot_key_roundtrip_witness:
  "parse_projection_balance_snapshot_key (projection_balance_snapshot_key ''DAbc'' ''t:1'')
     = (''DAbc'', ''t:1'')"
  using balance_snapshot_key_roundtrip [of "''DAbc''" "''t:1''" "'':''"] by simp

lemma int_str_chars: "c \<in> set (int_str i) \<Longrightarrow> c = CHR ''-'' \<or> is_digit c"
  using nat_str_digits [of "nat (- i)"] nat_str_digits [of "nat i"]
  by (auto simp: int_str_def list_all_iff split: if_splits)

lemma colon_notin_int_str: "CHR '':'' \<notin> set (int_str i)"
  using int_str_chars [of "CHR '':''" i] by (auto simp: is_digit_def char_code_def)

lemma split_at_unique:
  "c \<notin> set a \<Longrightarrow> c \<notin> set a' \<Longrightarrow> a @ c # s = a' @ c # s' \<longleftrightarrow> a = a' \<and> s = s'"
proof (induction a arbitrary: a')
  case Nil
  then show ?case by (cases a') auto
next
  case (Cons x a)
  then show ?case by (cases a') auto
qed

lemma projection_block_identity_inject [simp]:
  "projection_block_identity h x = projection_block_identity h' x' \<longleftrightarrow> h = h' \<and> x = x'"
  using split_at_unique [OF colon_notin_int_str colon_notin_int_str]
  by (simp add: projection_block_identity_def)


section \<open>The window that is still to be applied\<close>

record 'b pending_projection_window =
  pw_ordered_batches :: "'b list"
  pw_pending_batches :: "'b list"

definition order_projection_batches :: "'b applied_block_scheme list \<Rightarrow> 'b applied_block_scheme list" where
  "order_projection_batches batches = sort_key ab_block_height batches"

definition to_projection_applied_blocks :: "'b applied_block_scheme list \<Rightarrow> applied_block list" where
  "to_projection_applied_blocks batches =
     map (\<lambda>b. \<lparr>ab_block_hash = ab_block_hash b, ab_block_height = ab_block_height b\<rparr>) batches"

definition pending_projection_batches ::
  "'b applied_block_scheme list \<Rightarrow> string set \<Rightarrow> 'b applied_block_scheme list" where
  "pending_projection_batches batches applied =
     filter (\<lambda>b. projection_block_identity (ab_block_height b) (ab_block_hash b) \<notin> applied) batches"

definition require_first_projection_batch :: "'b list \<Rightarrow> 'b res" where
  "require_first_projection_batch batches =
     (case batches of [] \<Rightarrow> Inl (GenericError ''empty projection window'') | b # _ \<Rightarrow> Inr b)"

definition make_pending_projection_window ::
  "'b list \<Rightarrow> 'b list \<Rightarrow> 'b pending_projection_window option" where
  "make_pending_projection_window ordered pending =
     (if pending = [] then None
      else Some \<lparr>pw_ordered_batches = ordered, pw_pending_batches = pending\<rparr>)"

definition resolve_pending_projection_window ::
  "'b applied_block_scheme list \<Rightarrow> (applied_block list \<Rightarrow> string set res)
     \<Rightarrow> 'b applied_block_scheme pending_projection_window option res" where
  "resolve_pending_projection_window batches list_applied =
     (if batches = [] then Inr None
      else
        (let ordered = order_projection_batches batches in
         and_then (require_first_projection_batch ordered) (\<lambda>_.
         and_then (list_applied (to_projection_applied_blocks ordered)) (\<lambda>applied.
         Inr (make_pending_projection_window ordered
               (pending_projection_batches ordered applied))))))"

lemma resolve_pending_window_cases:
  "resolve_pending_projection_window batches list_applied =
     (if batches = [] then Inr None
      else and_then (list_applied (to_projection_applied_blocks (order_projection_batches batches)))
        (\<lambda>applied. Inr (make_pending_projection_window (order_projection_batches batches)
           (pending_projection_batches (order_projection_batches batches) applied))))"
proof (cases "order_projection_batches batches")
  case Nil
  then have "batches = []"
    by (metis length_0_conv length_sort order_projection_batches_def)
  then show ?thesis by (simp add: resolve_pending_projection_window_def)
next
  case (Cons b bs)
  then show ?thesis
    by (simp add: resolve_pending_projection_window_def require_first_projection_batch_def Let_def)
qed

text \<open>
  The window handed on is ascending in height, keeps every batch of the request (those
  of equal height in their given order), and its pending part holds, in that order, exactly
  the batches whose height and hash the store has not recorded; nothing is handed on when
  every batch is recorded.
\<close>

theorem resolve_pending_window_correct:
  assumes "list_applied (to_projection_applied_blocks (order_projection_batches batches))
             = Inr ((\<lambda>(h, x). projection_block_identity h x) ` applied)"
  defines "recorded \<equiv> \<lambda>b. (ab_block_height b, ab_block_hash b) \<in> applied"
  shows "resolve_pending_projection_window batches list_applied
      = Inr (if \<forall>b \<in> set batches. recorded b then None
             else Some \<lparr>pw_ordered_batches = order_projection_batches batches,
                        pw_pending_batches
                          = filter (\<lambda>b. \<not> recorded b) (order_projection_batches batches)\<rparr>)
    \<and> sorted (map ab_block_height (order_projection_batches batches))
    \<and> mset (order_projection_batches batches) = mset batches
    \<and> filter (\<lambda>b. ab_block_height b = h) (order_projection_batches batches)
        = filter (\<lambda>b. ab_block_height b = h) batches"
proof -
  have pending: "pending_projection_batches bs ((\<lambda>(h, x). projection_block_identity h x) ` applied)
      = filter (\<lambda>b. \<not> recorded b) bs" for bs :: "'a applied_block_scheme list"
    unfolding pending_projection_batches_def recorded_def
    by (intro filter_cong) (auto simp: image_iff)
  have none: "filter (\<lambda>b. \<not> recorded b) (order_projection_batches batches) = []
      \<longleftrightarrow> (\<forall>b \<in> set batches. recorded b)"
    by (auto simp: filter_empty_conv order_projection_batches_def)
  show ?thesis
    unfolding resolve_pending_window_cases assms(1)
    by (auto simp: pending none make_pending_projection_window_def)
      (simp_all add: order_projection_batches_def sort_key_stable)
qed

section \<open>Witnesses\<close>

text \<open>A stored output of 7 base units, and a block that spends it and creates one of 5.\<close>

definition sample_output :: "string \<Rightarrow> string \<Rightarrow> utxo_output" where
  "sample_output key v =
     \<lparr>uo_address = ''DA'', uo_block_hash = ''h1'', uo_block_height = 1, uo_block_time = 10,
      uo_is_coinbase = False, uo_is_spendable = True, uo_output_key = key,
      uo_script_type = ''pubkeyhash'', uo_spent_by_txid = None, uo_spent_in_block = None,
      uo_spent_input_index = None, uo_tx_index = 0, uo_txid = ''t'', uo_value_base = v,
      uo_vout = 0\<rparr>"

definition sample_movement :: "movement_direction \<Rightarrow> string \<Rightarrow> address_movement" where
  "sample_movement d v =
     \<lparr>am_address = ''DA'', am_amount_base = v, am_asset_address = [], am_block_hash = ''h2'',
      am_block_height = 2, am_block_time = 20, am_derivation_method = [], am_direction = d,
      am_entry_index = 0, am_movement_id = [], am_output_key = None, am_tx_index = 0,
      am_txid = ''u''\<rparr>"

definition sample_batch :: projection_batch where
  "sample_batch =
     \<lparr>ab_block_hash = ''h2'', ab_block_height = 2,
      pb_address_movements = [sample_movement Debit ''7'', sample_movement Credit ''5''],
      pb_block_time = 20, pb_utxo_creates = [sample_output ''u:0'' ''5''],
      pb_utxo_spends = [\<lparr>us_output_key = ''t:0'', us_spent_by_txid = ''u'',
        us_spent_in_block = 2, us_spent_input_index = 0\<rparr>]\<rparr>"

definition sample_store :: utxo_map where
  "sample_store = [(''t:0'', sample_output ''t:0'' ''7'')]"

definition sample_balances :: "unit balance_map" where
  "sample_balances = [(''DA'', \<lparr>bs_address = ''DA'', bs_asset_address = [],
     bs_as_of_block_height = 1, bs_balance = ''7''\<rparr>)]"

lemma sample_window:
  "build_projection_utxo_window [sample_batch] (\<lambda>_. Inr sample_store)
     = Inr [(''u:0'', sample_output ''u:0'' ''5''),
            (''t:0'', spent_projection_utxo_output (sample_output ''t:0'' ''7'')
               (hd (pb_utxo_spends sample_batch)))]"
  by (simp add: build_projection_utxo_window_def build_next_projection_utxo_outputs_def
      apply_projection_utxo_batch_def apply_projection_utxo_spends_def
      apply_projection_utxo_creates_def apply_projection_utxo_spend_def
      require_projection_utxo_spend_output_def require_current_projection_utxo_output_def
      sample_batch_def sample_store_def sample_output_def)

lemma sample_balances_facts:
  "balances_ok sample_balances" "list_all movement_ok (window_movements [sample_batch])"
  "0 \<le> amounts sample_balances [] k"
  by (simp_all add: balances_ok_def sample_balances_def sample_batch_def sample_movement_def
      window_movements_def movement_ok_def amounts_def current_balance_value_def
      current_balance_snapshot_def is_amount_text_def signed_value_def str_eval)

theorem utxo_window_refines_replay_witness:
  "abs_res (overlay (js_get sample_store))
     (build_projection_utxo_window [sample_batch] (\<lambda>_. Inr sample_store))
       = fold_res replay_batch [sample_batch] (js_get sample_store)
   \<and> is_ok (fold_res replay_batch [sample_batch] (js_get sample_store))"
proof -
  have eq: "abs_res (overlay (js_get sample_store))
     (build_projection_utxo_window [sample_batch] (\<lambda>_. Inr sample_store))
       = fold_res replay_batch [sample_batch] (js_get sample_store)"
    by (rule utxo_window_refines_replay) simp
  then show ?thesis by (metis sample_window is_ok_simps(2) map_sum.simps(2))
qed

theorem utxo_window_touches_exactly_witness:
  "mset (collect_projection_touched_output_keys [sample_batch]) = {#''u:0'', ''t:0''#}"
  using utxo_window_touches_exactly [OF sample_window] by (simp add: js_keys_def)

theorem balance_window_refines_replay_witness:
  "abs_res (amounts sample_balances)
     (build_projection_balance_window [sample_batch] am_address (\<lambda>_ :: (string \<times> string) list.
        Inr sample_balances) (\<lambda>x. x) (\<lambda>s _. s))
     = fold_res (replay_movement am_address) (window_movements [sample_batch])
         (amounts sample_balances [])"
  by (rule balance_window_refines_replay [OF _ sample_balances_facts(1,2)]) simp_all

theorem balance_window_sums_witness:
  "\<exists>nxt. build_projection_balance_window [sample_batch] am_address
       (\<lambda>_ :: (string \<times> string) list. Inr sample_balances) (\<lambda>x. x) (\<lambda>s _. s) = Inr nxt
     \<and> amounts sample_balances nxt ''DA'' = 5"
proof -
  let ?w = "build_projection_balance_window [sample_batch] am_address
       (\<lambda>_ :: (string \<times> string) list. Inr sample_balances) (\<lambda>x. x) (\<lambda>s _. s)"
  have net: "net_movement am_address ''DA'' (window_movements [sample_batch]) = - 2"
    and cur: "amounts sample_balances [] ''DA'' = 7"
    by (simp_all add: net_movement_def window_movements_def sample_batch_def sample_movement_def
        movement_delta_def signed_value_def amounts_def current_balance_value_def
        current_balance_snapshot_def sample_balances_def str_eval)
  have "is_ok (fold_res (replay_movement am_address) (window_movements [sample_batch])
      (amounts sample_balances []))"
    using cur by (simp add: window_movements_def sample_batch_def sample_movement_def
        replay_movement_def movement_delta_def signed_value_def str_eval)
  then have "is_ok (fold_res (apply_projection_balance_batch sample_balances am_address (\<lambda>s _. s))
      [sample_batch] [])"
    using balance_batches_simulation [OF sample_balances_facts(1,2), of "\<lambda>s _. s" am_address]
    by (metis is_ok_abs_res)
  then have "is_ok ?w" by (simp add: build_projection_balance_window_def)
  then obtain nxt where nxt: "?w = Inr nxt" by (auto simp: is_ok_iff)
  have "amounts sample_balances nxt ''DA'' = 5"
    using balance_window_sums [OF _ sample_balances_facts(1,2) _ _ nxt, of "''DA''"]
      sample_balances_facts(3) net cur by simp
  with nxt show ?thesis by blast
qed

theorem resolve_pending_window_correct_witness:
  "resolve_pending_projection_window
     [\<lparr>ab_block_hash = ''b'', ab_block_height = 2\<rparr>, \<lparr>ab_block_hash = ''a'', ab_block_height = 1\<rparr>]
     (\<lambda>_. Inr ((\<lambda>(h, x). projection_block_identity h x) ` {(1, ''a'')}))
   = Inr (Some \<lparr>pw_ordered_batches = [\<lparr>ab_block_hash = ''a'', ab_block_height = 1\<rparr>,
                                      \<lparr>ab_block_hash = ''b'', ab_block_height = 2\<rparr>],
                pw_pending_batches = [\<lparr>ab_block_hash = ''b'', ab_block_height = 2\<rparr>]\<rparr>)"
  using resolve_pending_window_correct [of "\<lambda>_. Inr ((\<lambda>(h, x). projection_block_identity h x) ` {(1, ''a'')})"
      "[\<lparr>ab_block_hash = ''b'', ab_block_height = 2\<rparr>, \<lparr>ab_block_hash = ''a'', ab_block_height = 1\<rparr>]"
      "{(1, ''a'')}" 0, OF refl]
  by (simp add: order_projection_batches_def)

end
