(* ===== verification/Block_Applications.thy ===== *)
theory Block_Applications
  imports Projection
begin

text \<open>
  From decoded block snapshots to the effects of a core window: \<^verbatim>\<open>dogecoin-block.ts\<close>,
  \<^verbatim>\<open>transaction-ref.ts\<close> and the parsing half of \<^verbatim>\<open>core-dogecoin-indexer-service.ts\<close>
  (\<^verbatim>\<open>buildFastCoreDogecoinBlockApplications\<close> and the functions below it).

  A snapshot is untyped JSON: the code reads its fields at run time and rejects what has the
  wrong type, so the model keeps it as a \<open>json\<close> value, with property access as a fallible
  operation. The tracker of created and spent output keys is threaded through the window.
\<close>

section \<open>JSON values\<close>

datatype json =
    JUndefined
  | JNull
  | JBool bool
  | JNum js_num
  | JStr string
  | JArr "json list"
  | JObj "(string \<times> json) list"

fun truthy :: "json \<Rightarrow> bool" where
  "truthy JUndefined = False"
| "truthy JNull = False"
| "truthy (JBool b) = b"
| "truthy (JNum n) = (n \<noteq> JInt 0 \<and> n \<noteq> JDec 0 \<and> n \<noteq> JNaN)"
| "truthy (JStr s) = (s \<noteq> [])"
| "truthy (JArr _) = True"
| "truthy (JObj _) = True"

definition is_nullish :: "json \<Rightarrow> bool" where
  "is_nullish v \<longleftrightarrow> v = JUndefined \<or> v = JNull"

definition nullish_error :: js_error where
  "nullish_error = TypeError ''cannot read a property of null or undefined''"

definition call_error :: js_error where
  "call_error = TypeError ''not a function''"

text \<open>
  \<^verbatim>\<open>value.key\<close> and \<^verbatim>\<open>value?.key\<close>. None of the property names read is one that strings,
  numbers or arrays have of themselves. The text of a \<open>TypeError\<close> depends on the engine and
  is not modelled.
\<close>

fun own_prop :: "json \<Rightarrow> string \<Rightarrow> json" where
  "own_prop (JObj fs) k = (case map_of fs k of Some v \<Rightarrow> v | None \<Rightarrow> JUndefined)"
| "own_prop _ k = JUndefined"

definition get_prop :: "json \<Rightarrow> string \<Rightarrow> json res" where
  "get_prop v k = (if is_nullish v then Inl nullish_error else Inr (own_prop v k))"

fun json_array :: "json \<Rightarrow> json list res" where
  "json_array (JArr xs) = Inr xs"
| "json_array _ = Inl call_error"

text \<open>\<^verbatim>\<open>String(value)\<close>.\<close>

fun json_str :: "json \<Rightarrow> string" where
  "json_str JUndefined = ''undefined''"
| "json_str JNull = ''null''"
| "json_str (JBool b) = (if b then ''true'' else ''false'')"
| "json_str (JNum n) = js_num_str n"
| "json_str (JStr s) = s"
| "json_str (JArr xs) = js_join '','' (map (\<lambda>x. if is_nullish x then [] else json_str x) xs)"
| "json_str (JObj _) = ''[object Object]''"

section \<open>Reading typed values\<close>

definition require_trimmed_string :: "string \<Rightarrow> string \<Rightarrow> string res" where
  "require_trimmed_string v label =
     (let trimmed = js_trim v
      in if trimmed = [] then Inl (GenericError (''missing '' @ label)) else Inr trimmed)"

fun require_string :: "json \<Rightarrow> string \<Rightarrow> string res" where
  "require_string (JStr s) label = require_trimmed_string s label"
| "require_string _ label = Inl (GenericError (''missing '' @ label))"

text \<open>
  \<^verbatim>\<open>requireNumber\<close> lets any finite number through. Heights, times and indexes are integers
  in the model: a fraction, or an integer too large to be printed in full, is outside it.
\<close>

fun require_finite_number :: "js_num \<Rightarrow> string \<Rightarrow> int res" where
  "require_finite_number (JInt i) label =
     (if \<bar>i\<bar> < 10 ^ 21 then Inr i else Inl (OutsideModel label))"
| "require_finite_number (JDec _) label = Inl (OutsideModel label)"
| "require_finite_number _ label = Inl (GenericError (''missing '' @ label))"

fun require_number :: "json \<Rightarrow> string \<Rightarrow> int res" where
  "require_number (JNum n) label = require_finite_number n label"
| "require_number _ label = Inl (GenericError (''missing '' @ label))"

definition require_trimmed_amount :: "string \<Rightarrow> string res" where
  "require_trimmed_amount v =
     (if js_trim v \<noteq> [] then Inr (js_trim v)
      else Inl (GenericError (''invalid dogecoin amount: '' @ v)))"

fun require_string_amount :: "json \<Rightarrow> string res" where
  "require_string_amount (JStr s) = require_trimmed_amount s"
| "require_string_amount v = Inl (GenericError (''invalid dogecoin amount: '' @ json_str v))"

fun require_amount :: "json \<Rightarrow> string res" where
  "require_amount (JNum n) = Inr (to_fixed n 8)"
| "require_amount v = require_string_amount v"

fun trimmed_string_or_empty :: "json \<Rightarrow> string res" where
  "trimmed_string_or_empty (JStr s) = Inr (if s = [] then [] else js_trim s)"
| "trimmed_string_or_empty v = (if truthy v then Inl call_error else Inr [])"

definition null_if_empty :: "string \<Rightarrow> string option" where
  "null_if_empty v = (if v = [] then None else Some v)"

fun read_previous_block_hash :: "json \<Rightarrow> string option" where
  "read_previous_block_hash (JStr s) = null_if_empty (js_trim s)"
| "read_previous_block_hash _ = None"

text \<open>\<^verbatim>\<open>isPlainRecord\<close> accepts objects that are no arrays, \<^verbatim>\<open>isDogecoinTransaction\<close> both.\<close>

fun is_plain_record :: "json \<Rightarrow> bool" where
  "is_plain_record (JObj _) = True"
| "is_plain_record _ = False"

fun is_dogecoin_transaction :: "json \<Rightarrow> bool" where
  "is_dogecoin_transaction (JObj _) = True"
| "is_dogecoin_transaction (JArr _) = True"
| "is_dogecoin_transaction _ = False"

definition require_block_record :: "json \<Rightarrow> json res" where
  "require_block_record v =
     (if is_plain_record v then Inr v
      else Inl (GenericError ''invalid dogecoin block snapshot''))"

definition check_transaction :: "int \<Rightarrow> nat \<times> json \<Rightarrow> json res" where
  "check_transaction height = (\<lambda>(i, t).
     if is_dogecoin_transaction t then Inr t
     else Inl (GenericError (''invalid dogecoin block transaction height='' @ int_str height
                             @ '' tx_index='' @ nat_str i)))"

definition read_dogecoin_transactions :: "json \<Rightarrow> int \<Rightarrow> json list res" where
  "read_dogecoin_transactions v height =
     (case v of
        JArr (t # ts) \<Rightarrow> map_res (check_transaction height) (List.enumerate 0 (t # ts))
      | _ \<Rightarrow> Inl (GenericError (''invalid dogecoin block transactions height='' @ int_str height
                              @ '': expected non-empty array'')))"

section \<open>Output addresses\<close>

fun trim_optional_text :: "json \<Rightarrow> string res" where
  "trim_optional_text (JStr s) = Inr (js_trim s)"
| "trim_optional_text v = (if is_nullish v then Inr [] else Inl call_error)"

definition first_trimmed_text :: "json list \<Rightarrow> string res" where
  "first_trimmed_text vs =
     and_then (map_res trim_optional_text vs) (\<lambda>ts.
     Inr (case find (\<lambda>t. t \<noteq> []) ts of Some t \<Rightarrow> t | None \<Rightarrow> []))"

text \<open>
  The candidates are \<^verbatim>\<open>[script?.address].concat(addresses)\<close>; \<^verbatim>\<open>concat\<close> splices an array and
  appends any other value as one element.
\<close>

definition known_output_address_list :: "json \<Rightarrow> json list" where
  "known_output_address_list script =
     (case own_prop script ''addresses'' of
        JUndefined \<Rightarrow> [] | JNull \<Rightarrow> [] | JArr xs \<Rightarrow> xs | v \<Rightarrow> [v])"

definition output_address_list :: "json \<Rightarrow> json list" where
  "output_address_list script =
     (if truthy script then known_output_address_list script else [])"

definition output_address_candidates :: "json \<Rightarrow> json list" where
  "output_address_candidates script =
     own_prop script ''address'' # output_address_list script"

definition extract_dogecoin_output_address :: "json \<Rightarrow> string res" where
  "extract_dogecoin_output_address out =
     and_then (get_prop out ''scriptPubKey'') (\<lambda>script.
     first_trimmed_text (output_address_candidates script))"

section \<open>Transaction references\<close>

datatype ref_source = Raw_Sync | Core_Process

record transaction_ref =
  tr_block_hash :: string
  tr_block_height :: int
  tr_block_time :: int
  tr_source :: ref_source
  tr_tx_index :: int
  tr_txid :: string
  tr_version :: int

definition transaction_ref_version :: "int \<Rightarrow> int \<Rightarrow> ref_source \<Rightarrow> int" where
  "transaction_ref_version height tx_index source =
     height * 1000000 + tx_index * 10 + (if source = Raw_Sync then 0 else 1)"

definition derive_transaction_refs ::
  "string \<Rightarrow> int \<Rightarrow> int \<Rightarrow> ref_source \<Rightarrow> string list \<Rightarrow> transaction_ref list" where
  "derive_transaction_refs hash height time source txids =
     map (\<lambda>(i, txid).
       \<lparr>tr_block_hash = hash, tr_block_height = height, tr_block_time = time,
        tr_source = source, tr_tx_index = int i, tr_txid = txid,
        tr_version = transaction_ref_version height (int i) source\<rparr>)
       (List.enumerate 0 txids)"

section \<open>Block applications\<close>

record core_window_key_tracker =
  kt_created :: "string set"
  kt_spent :: "string set"

definition create_core_window_key_tracker :: core_window_key_tracker where
  "create_core_window_key_tracker = \<lparr>kt_created = {}, kt_spent = {}\<rparr>"

record parsed_dogecoin_block =
  db_hash :: string
  db_height :: int
  db_time :: int
  db_previous_hash :: "string option"
  db_tx :: "json list"

record core_block_application =
  ca_block_hash :: string
  ca_block_height :: int
  ca_block_time :: int
  ca_previous_block_hash :: "string option"
  ca_raw_storage_key :: string
  ca_tx_count :: int
  ca_utxo_creates :: "utxo_output list"
  ca_utxo_spends :: "utxo_spend list"

record core_transaction_effects =
  te_creates :: "utxo_output list"
  te_spends :: "utxo_spend list"

definition parse_dogecoin_block_snapshot :: "json \<Rightarrow> parsed_dogecoin_block res" where
  "parse_dogecoin_block_snapshot snapshot =
     and_then (get_prop snapshot ''block'') (\<lambda>block.
     and_then (require_block_record block) (\<lambda>candidate.
     and_then (require_string (own_prop candidate ''hash'') ''block.hash'') (\<lambda>hash.
     and_then (require_number (own_prop candidate ''height'') ''block.height'') (\<lambda>height.
     and_then (require_number (own_prop candidate ''time'') ''block.time'') (\<lambda>time.
     and_then (read_dogecoin_transactions (own_prop candidate ''tx'') height) (\<lambda>txs.
     Inr \<lparr>db_hash = hash, db_height = height, db_time = time,
          db_previous_hash
            = read_previous_block_hash (own_prop candidate ''previousblockhash''),
          db_tx = txs\<rparr>))))))"

definition assert_unique_core_spend ::
  "string \<Rightarrow> core_window_key_tracker \<Rightarrow> core_window_key_tracker res" where
  "assert_unique_core_spend key tracker =
     (if key \<in> kt_spent tracker
      then Inl (GenericError (''duplicate dogecoin spend in core window: '' @ key))
      else Inr (tracker\<lparr>kt_spent := insert key (kt_spent tracker)\<rparr>))"

definition assert_unique_core_output ::
  "string \<Rightarrow> core_window_key_tracker \<Rightarrow> core_window_key_tracker res" where
  "assert_unique_core_output key tracker =
     (if key \<in> kt_created tracker
      then Inl (GenericError (''duplicate dogecoin output in core window: '' @ key))
      else Inr (tracker\<lparr>kt_created := insert key (kt_created tracker)\<rparr>))"

definition nullish_list :: "json \<Rightarrow> json list res" where
  "nullish_list v = (if is_nullish v then Inr [] else json_array v)"

definition dogecoin_inputs :: "json \<Rightarrow> json list res" where
  "dogecoin_inputs tx = nullish_list (own_prop tx ''vin'')"

definition dogecoin_outputs :: "json \<Rightarrow> json list res" where
  "dogecoin_outputs tx = nullish_list (own_prop tx ''vout'')"

definition is_coinbase_input :: "json \<Rightarrow> bool res" where
  "is_coinbase_input inp = and_then (get_prop inp ''coinbase'') (\<lambda>c. Inr (truthy c))"

text \<open>\<^verbatim>\<open>Array.some\<close> stops at the first element that satisfies the test.\<close>

fun some_res :: "('a \<Rightarrow> bool res) \<Rightarrow> 'a list \<Rightarrow> bool res" where
  "some_res p [] = Inr False"
| "some_res p (x # xs) = and_then (p x) (\<lambda>b. if b then Inr True else some_res p xs)"

definition has_coinbase_input :: "json \<Rightarrow> bool res" where
  "has_coinbase_input tx = and_then (dogecoin_inputs tx) (some_res is_coinbase_input)"

definition spend_output_key :: "json \<Rightarrow> string res" where
  "spend_output_key inp =
     and_then (require_string (own_prop inp ''txid'') ''vin.txid'') (\<lambda>txid.
     and_then (require_number (own_prop inp ''vout'') ''vin.vout'') (\<lambda>vout.
     Inr (txid @ '':'' @ int_str vout)))"

definition make_spend :: "string \<Rightarrow> int \<Rightarrow> nat \<Rightarrow> string \<Rightarrow> utxo_spend" where
  "make_spend txid height i key =
     \<lparr>us_output_key = key, us_spent_by_txid = txid, us_spent_in_block = height,
      us_spent_input_index = int i\<rparr>"

definition build_transaction_spend ::
  "string \<Rightarrow> int \<Rightarrow> json \<Rightarrow> nat \<Rightarrow> core_window_key_tracker
     \<Rightarrow> (utxo_spend option \<times> core_window_key_tracker) res" where
  "build_transaction_spend txid height inp i tracker =
     and_then (is_coinbase_input inp) (\<lambda>coinbase.
     if coinbase then Inr (None, tracker)
     else and_then (spend_output_key inp) (\<lambda>key.
          and_then (assert_unique_core_spend key tracker) (\<lambda>tracker'.
          Inr (Some (make_spend txid height i key), tracker'))))"

definition append_transaction_spend ::
  "string \<Rightarrow> int \<Rightarrow> nat \<times> json \<Rightarrow> utxo_spend list \<times> core_window_key_tracker
     \<Rightarrow> (utxo_spend list \<times> core_window_key_tracker) res" where
  "append_transaction_spend txid height = (\<lambda>(i, inp) (spends, tracker).
     and_then (build_transaction_spend txid height inp i tracker) (\<lambda>(spend, tracker').
     Inr (case spend of Some s \<Rightarrow> spends @ [s] | None \<Rightarrow> spends, tracker')))"

definition build_transaction_spends ::
  "string \<Rightarrow> int \<Rightarrow> json \<Rightarrow> core_window_key_tracker
     \<Rightarrow> (utxo_spend list \<times> core_window_key_tracker) res" where
  "build_transaction_spends txid height tx tracker =
     and_then (dogecoin_inputs tx) (\<lambda>inputs.
     fold_res (append_transaction_spend txid height) (List.enumerate 0 inputs) ([], tracker))"

definition output_index_value :: "json \<Rightarrow> nat \<Rightarrow> json" where
  "output_index_value out i =
     (if own_prop out ''n'' = JUndefined then JNum (JInt (int i)) else own_prop out ''n'')"

definition output_script_type :: "json \<Rightarrow> string res" where
  "output_script_type out =
     trimmed_string_or_empty (own_prop (own_prop out ''scriptPubKey'') ''type'')"

definition output_key_of :: "string \<Rightarrow> nat \<Rightarrow> string" where
  "output_key_of txid i = txid @ '':'' @ int_str (int i)"

definition make_output ::
  "parsed_dogecoin_block \<Rightarrow> string \<Rightarrow> nat \<Rightarrow> json \<Rightarrow> nat \<Rightarrow> bool \<Rightarrow> utxo_output res" where
  "make_output block txid tx_index out i coinbase =
     and_then (extract_dogecoin_output_address out) (\<lambda>address.
     and_then (require_number (output_index_value out i) ''vout.n'') (\<lambda>vout.
     and_then (output_script_type out) (\<lambda>script_type.
     and_then (require_amount (own_prop out ''value'')) (\<lambda>amount.
     and_then (from_decimal_units (Amount_Text amount) 8) (\<lambda>value_base.
     Inr \<lparr>uo_address = address, uo_block_hash = db_hash block,
          uo_block_height = db_height block, uo_block_time = db_time block,
          uo_is_coinbase = coinbase, uo_is_spendable = (address \<noteq> []),
          uo_output_key = output_key_of txid i, uo_script_type = script_type,
          uo_spent_by_txid = None, uo_spent_in_block = None, uo_spent_input_index = None,
          uo_tx_index = int tx_index, uo_txid = txid, uo_value_base = value_base,
          uo_vout = vout\<rparr>)))))"

definition build_transaction_output ::
  "parsed_dogecoin_block \<Rightarrow> string \<Rightarrow> nat \<Rightarrow> json \<Rightarrow> nat \<Rightarrow> bool \<Rightarrow> core_window_key_tracker
     \<Rightarrow> (utxo_output \<times> core_window_key_tracker) res" where
  "build_transaction_output block txid tx_index out i coinbase tracker =
     and_then (assert_unique_core_output (output_key_of txid i) tracker) (\<lambda>tracker'.
     and_then (make_output block txid tx_index out i coinbase) (\<lambda>o'.
     Inr (o', tracker')))"

definition append_transaction_output ::
  "parsed_dogecoin_block \<Rightarrow> string \<Rightarrow> nat \<Rightarrow> bool \<Rightarrow> nat \<times> json
     \<Rightarrow> utxo_output list \<times> core_window_key_tracker
     \<Rightarrow> (utxo_output list \<times> core_window_key_tracker) res" where
  "append_transaction_output block txid tx_index coinbase = (\<lambda>(i, out) (outs, tracker).
     and_then (build_transaction_output block txid tx_index out i coinbase tracker)
       (\<lambda>(o', tracker'). Inr (outs @ [o'], tracker')))"

definition build_transaction_outputs ::
  "parsed_dogecoin_block \<Rightarrow> json \<Rightarrow> string \<Rightarrow> nat \<Rightarrow> bool \<Rightarrow> core_window_key_tracker
     \<Rightarrow> (utxo_output list \<times> core_window_key_tracker) res" where
  "build_transaction_outputs block tx txid tx_index coinbase tracker =
     and_then (dogecoin_outputs tx) (\<lambda>outs.
     fold_res (append_transaction_output block txid tx_index coinbase)
       (List.enumerate 0 outs) ([], tracker))"

definition append_transaction_effects ::
  "parsed_dogecoin_block \<Rightarrow> nat \<times> json \<Rightarrow> core_transaction_effects \<times> core_window_key_tracker
     \<Rightarrow> (core_transaction_effects \<times> core_window_key_tracker) res" where
  "append_transaction_effects block = (\<lambda>(tx_index, tx) (effects, tracker).
     and_then (require_string (own_prop tx ''txid'') ''tx.txid'') (\<lambda>txid.
     and_then (has_coinbase_input tx) (\<lambda>coinbase.
     and_then (build_transaction_spends txid (db_height block) tx tracker) (\<lambda>(spends, tracker1).
     and_then (build_transaction_outputs block tx txid tx_index coinbase tracker1)
       (\<lambda>(outs, tracker2).
     Inr (\<lparr>te_creates = te_creates effects @ outs, te_spends = te_spends effects @ spends\<rparr>,
          tracker2))))))"

definition collect_core_block_effects ::
  "parsed_dogecoin_block \<Rightarrow> core_window_key_tracker
     \<Rightarrow> (core_transaction_effects \<times> core_window_key_tracker) res" where
  "collect_core_block_effects block tracker =
     fold_res (append_transaction_effects block) (List.enumerate 0 (db_tx block))
       (\<lparr>te_creates = [], te_spends = []\<rparr>, tracker)"

definition raw_block_part :: string where
  "raw_block_part = ''block''"

definition make_application ::
  "parsed_dogecoin_block \<Rightarrow> core_transaction_effects \<Rightarrow> core_block_application" where
  "make_application block effects =
     \<lparr>ca_block_hash = db_hash block, ca_block_height = db_height block,
      ca_block_time = db_time block, ca_previous_block_hash = db_previous_hash block,
      ca_raw_storage_key = raw_block_part, ca_tx_count = int (length (db_tx block)),
      ca_utxo_creates = te_creates effects, ca_utxo_spends = te_spends effects\<rparr>"

definition build_core_block_application ::
  "json \<Rightarrow> core_block_application list \<times> core_window_key_tracker
     \<Rightarrow> (core_block_application list \<times> core_window_key_tracker) res" where
  "build_core_block_application snapshot = (\<lambda>(apps, tracker).
     and_then (parse_dogecoin_block_snapshot snapshot) (\<lambda>block.
     and_then (collect_core_block_effects block tracker) (\<lambda>(effects, tracker').
     Inr (apps @ [make_application block effects], tracker'))))"

definition build_fast_core_dogecoin_block_applications ::
  "json list \<Rightarrow> core_block_application list res" where
  "build_fast_core_dogecoin_block_applications snapshots =
     and_then (fold_res build_core_block_application snapshots ([], create_core_window_key_tracker))
       (\<lambda>(apps, _). Inr apps)"

section \<open>The reference: decoding without the tracker\<close>

definition decode_spend :: "string \<Rightarrow> int \<Rightarrow> nat \<times> json \<Rightarrow> utxo_spend option res" where
  "decode_spend txid height = (\<lambda>(i, inp).
     and_then (is_coinbase_input inp) (\<lambda>coinbase.
     if coinbase then Inr None
     else and_then (spend_output_key inp) (\<lambda>key. Inr (Some (make_spend txid height i key)))))"

definition decode_transaction_spends :: "string \<Rightarrow> int \<Rightarrow> json \<Rightarrow> utxo_spend list res" where
  "decode_transaction_spends txid height tx =
     and_then (dogecoin_inputs tx) (\<lambda>inputs.
     and_then (map_res (decode_spend txid height) (List.enumerate 0 inputs)) (\<lambda>spends.
     Inr (concat (map (case_option [] (\<lambda>s. [s])) spends))))"

definition decode_transaction_outputs ::
  "parsed_dogecoin_block \<Rightarrow> json \<Rightarrow> string \<Rightarrow> nat \<Rightarrow> bool \<Rightarrow> utxo_output list res" where
  "decode_transaction_outputs block tx txid tx_index coinbase =
     and_then (dogecoin_outputs tx) (\<lambda>outs.
     map_res (\<lambda>(i, out). make_output block txid tx_index out i coinbase) (List.enumerate 0 outs))"

definition decode_transaction ::
  "parsed_dogecoin_block \<Rightarrow> nat \<times> json \<Rightarrow> core_transaction_effects res" where
  "decode_transaction block = (\<lambda>(tx_index, tx).
     and_then (require_string (own_prop tx ''txid'') ''tx.txid'') (\<lambda>txid.
     and_then (has_coinbase_input tx) (\<lambda>coinbase.
     and_then (decode_transaction_spends txid (db_height block) tx) (\<lambda>spends.
     and_then (decode_transaction_outputs block tx txid tx_index coinbase) (\<lambda>creates.
     Inr \<lparr>te_creates = creates, te_spends = spends\<rparr>)))))"

definition decode_block :: "json \<Rightarrow> core_block_application res" where
  "decode_block snapshot =
     and_then (parse_dogecoin_block_snapshot snapshot) (\<lambda>block.
     and_then (map_res (decode_transaction block) (List.enumerate 0 (db_tx block))) (\<lambda>txs.
     Inr (make_application block
       \<lparr>te_creates = concat (map te_creates txs), te_spends = concat (map te_spends txs)\<rparr>)))"

definition created_keys :: "core_block_application list \<Rightarrow> string list" where
  "created_keys apps = concat (map (\<lambda>a. map uo_output_key (ca_utxo_creates a)) apps)"

definition spent_keys :: "core_block_application list \<Rightarrow> string list" where
  "spent_keys apps = concat (map (\<lambda>a. map us_output_key (ca_utxo_spends a)) apps)"

subsection \<open>What the tracker adds\<close>

definition track ::
  "core_window_key_tracker \<Rightarrow> string list \<Rightarrow> string list \<Rightarrow> core_window_key_tracker \<Rightarrow> bool" where
  "track tr cs ss tr' \<longleftrightarrow>
     distinct cs \<and> distinct ss \<and> set cs \<inter> kt_created tr = {} \<and> set ss \<inter> kt_spent tr = {}
     \<and> tr' = \<lparr>kt_created = kt_created tr \<union> set cs, kt_spent = kt_spent tr \<union> set ss\<rparr>"

lemma track_Nil [simp]: "track tr [] [] tr' \<longleftrightarrow> tr' = tr"
  by (auto simp: track_def)

lemma track_append:
  "track tr (cs @ cs') (ss @ ss') tr' \<longleftrightarrow> (\<exists>tr1. track tr cs ss tr1 \<and> track tr1 cs' ss' tr')"
  by (auto simp: track_def)

lemma assert_unique_core_spend_iff [res_simps]:
  "assert_unique_core_spend key tr = Inr tr' \<longleftrightarrow> track tr [] [key] tr'"
  by (cases tr) (auto simp: assert_unique_core_spend_def track_def)

lemma assert_unique_core_output_iff [res_simps]:
  "assert_unique_core_output key tr = Inr tr' \<longleftrightarrow> track tr [key] [] tr'"
  by (cases tr) (auto simp: assert_unique_core_output_def track_def)

text \<open>
  The rule for every loop of the parser: if each round decodes its element and tracks that
  element's keys, the loop decodes all elements and tracks all their keys.
\<close>

lemma tracked_fold:
  assumes "\<And>x acc tr acc' tr'. f x (acc, tr) = Inr (acc', tr') \<longleftrightarrow>
      (\<exists>y. d x = Inr y \<and> acc' = comb acc y \<and> track tr (cs y) (ss y) tr')"
  shows "fold_res f xs (acc, tr) = Inr (acc', tr') \<longleftrightarrow>
      (\<exists>ys. map_res d xs = Inr ys \<and> acc' = foldl comb acc ys
         \<and> track tr (concat (map cs ys)) (concat (map ss ys)) tr')"
proof (induction xs arbitrary: acc tr)
  case Nil
  then show ?case by auto
next
  case (Cons x xs)
  have "fold_res f (x # xs) (acc, tr) = Inr (acc', tr') \<longleftrightarrow>
      (\<exists>acc1 tr1. f x (acc, tr) = Inr (acc1, tr1) \<and> fold_res f xs (acc1, tr1) = Inr (acc', tr'))"
    by (auto simp: res_simps)
  also have "\<dots> \<longleftrightarrow> (\<exists>y tr1 ys. d x = Inr y \<and> track tr (cs y) (ss y) tr1
      \<and> map_res d xs = Inr ys \<and> acc' = foldl comb (comb acc y) ys
      \<and> track tr1 (concat (map cs ys)) (concat (map ss ys)) tr')"
    unfolding assms Cons.IH by blast
  also have "\<dots> \<longleftrightarrow> (\<exists>ys. map_res d (x # xs) = Inr ys \<and> acc' = foldl comb acc ys
      \<and> track tr (concat (map cs ys)) (concat (map ss ys)) tr')"
    by (auto simp: res_simps track_append)
  finally show ?case .
qed

lemma foldl_snoc_map: "foldl (\<lambda>acc y. acc @ g y) acc ys = acc @ concat (map g ys)"
  by (induction ys arbitrary: acc) auto

lemma append_transaction_spend_iff:
  "append_transaction_spend txid height ix (spends, tr) = Inr (spends', tr') \<longleftrightarrow>
     (\<exists>y. decode_spend txid height ix = Inr y \<and> spends' = spends @ case_option [] (\<lambda>s. [s]) y
        \<and> track tr [] (case_option [] (\<lambda>s. [us_output_key s]) y) tr')"
proof -
  obtain i inp where ix: "ix = (i, inp)" by (cases ix)
  show ?thesis
  proof (cases "is_coinbase_input inp")
    case (Inl e)
    then show ?thesis
      by (simp add: ix append_transaction_spend_def build_transaction_spend_def decode_spend_def)
  next
    case (Inr coinbase)
    show ?thesis
    proof (cases "spend_output_key inp")
      case (Inl e)
      with Inr show ?thesis
        by (auto simp: ix append_transaction_spend_def build_transaction_spend_def decode_spend_def)
    next
      case (Inr key)
      with \<open>is_coinbase_input inp = Inr coinbase\<close> show ?thesis
        by (cases "assert_unique_core_spend key tr")
          (auto simp: ix append_transaction_spend_def build_transaction_spend_def decode_spend_def
            make_spend_def simp flip: assert_unique_core_spend_iff)
    qed
  qed
qed

lemma build_transaction_spends_iff:
  "build_transaction_spends txid height tx tr = Inr (spends, tr') \<longleftrightarrow>
     decode_transaction_spends txid height tx = Inr spends
     \<and> track tr [] (map us_output_key spends) tr'"
proof -
  have keys: "concat (map (case_option [] (\<lambda>s. [us_output_key s])) ys)
      = map us_output_key (concat (map (case_option [] (\<lambda>s. [s])) ys))" for ys
    by (induction ys) (auto split: option.splits)
  have Nil: "concat (map (\<lambda>_. []) ys) = []" for ys :: "utxo_spend option list"
    by (induction ys) auto
  show ?thesis
    unfolding build_transaction_spends_def decode_transaction_spends_def and_then_Inr_iff
      tracked_fold [OF append_transaction_spend_iff] foldl_snoc_map
    by (auto simp: keys Nil)
qed

lemma build_transaction_output_iff:
  "build_transaction_output block txid tx_index out i coinbase tr = Inr (o', tr') \<longleftrightarrow>
     make_output block txid tx_index out i coinbase = Inr o' \<and> track tr [uo_output_key o'] [] tr'"
  by (auto simp: build_transaction_output_def make_output_def res_simps)

lemma append_transaction_output_iff:
  "append_transaction_output block txid tx_index coinbase ix (outs, tr) = Inr (outs', tr') \<longleftrightarrow>
     (\<exists>y. (case ix of (i, out) \<Rightarrow> make_output block txid tx_index out i coinbase) = Inr y
        \<and> outs' = outs @ [y] \<and> track tr [uo_output_key y] [] tr')"
  by (cases ix) (auto simp: append_transaction_output_def res_simps build_transaction_output_iff)

lemma concat_singletons: "concat (map (\<lambda>y. [g y]) ys) = map g ys"
  by (induction ys) auto

lemma build_transaction_outputs_iff:
  "build_transaction_outputs block tx txid tx_index coinbase tr = Inr (creates, tr') \<longleftrightarrow>
     decode_transaction_outputs block tx txid tx_index coinbase = Inr creates
     \<and> track tr (map uo_output_key creates) [] tr'"
proof -
  have Nil: "concat (map (\<lambda>_. []) ys) = []" for ys :: "utxo_output list"
    by (induction ys) auto
  show ?thesis
    unfolding build_transaction_outputs_def decode_transaction_outputs_def and_then_Inr_iff
      tracked_fold [OF append_transaction_output_iff] foldl_snoc_map
    by (auto simp: concat_singletons Nil)
qed

lemma tracked_then:
  assumes "\<And>y tr1. f tr = Inr (y, tr1) \<longleftrightarrow> d = Inr y \<and> track tr [] (ss y) tr1"
    and "\<And>z tr1 tr2. g tr1 = Inr (z, tr2) \<longleftrightarrow> d' = Inr z \<and> track tr1 (cs z) [] tr2"
  shows "and_then (f tr) (\<lambda>(y, tr1). and_then (g tr1) (\<lambda>(z, tr2). Inr (h y z, tr2))) = Inr (r, tr')
     \<longleftrightarrow> (\<exists>y z. d = Inr y \<and> d' = Inr z \<and> r = h y z \<and> track tr (cs z) (ss y) tr')"
proof -
  have "track tr (cs z) (ss y) tr' \<longleftrightarrow> (\<exists>tr1. track tr [] (ss y) tr1 \<and> track tr1 (cs z) [] tr')" for y z
    using track_append [of tr "[]" "cs z" "ss y" "[]" tr'] by simp
  then show ?thesis by (auto simp: and_then_Inr_iff assms split_paired_Ex)
qed

lemma append_transaction_effects_iff:
  "append_transaction_effects block ix (effects, tr) = Inr (effects', tr') \<longleftrightarrow>
     (\<exists>y. decode_transaction block ix = Inr y
        \<and> effects' = \<lparr>te_creates = te_creates effects @ te_creates y,
                      te_spends = te_spends effects @ te_spends y\<rparr>
        \<and> track tr (map uo_output_key (te_creates y)) (map us_output_key (te_spends y)) tr')"
proof -
  obtain i tx where ix: "ix = (i, tx)" by (cases ix)
  have step: "and_then (build_transaction_spends txid (db_height block) tx tr) (\<lambda>(spends, tr1).
        and_then (build_transaction_outputs block tx txid i coinbase tr1) (\<lambda>(outs, tr2).
        Inr (\<lparr>te_creates = te_creates effects @ outs, te_spends = te_spends effects @ spends\<rparr>, tr2)))
        = Inr (effects', tr')
      \<longleftrightarrow> (\<exists>spends creates. decode_transaction_spends txid (db_height block) tx = Inr spends
             \<and> decode_transaction_outputs block tx txid i coinbase = Inr creates
             \<and> effects' = \<lparr>te_creates = te_creates effects @ creates,
                           te_spends = te_spends effects @ spends\<rparr>
             \<and> track tr (map uo_output_key creates) (map us_output_key spends) tr')" for txid coinbase
    by (rule tracked_then [where f = "build_transaction_spends txid (db_height block) tx"
          and g = "build_transaction_outputs block tx txid i coinbase",
          OF build_transaction_spends_iff build_transaction_outputs_iff])
  have "append_transaction_effects block ix (effects, tr) = Inr (effects', tr') \<longleftrightarrow>
     (\<exists>txid coinbase. require_string (own_prop tx ''txid'') ''tx.txid'' = Inr txid
        \<and> has_coinbase_input tx = Inr coinbase
        \<and> (\<exists>spends creates. decode_transaction_spends txid (db_height block) tx = Inr spends
             \<and> decode_transaction_outputs block tx txid i coinbase = Inr creates
             \<and> effects' = \<lparr>te_creates = te_creates effects @ creates,
                           te_spends = te_spends effects @ spends\<rparr>
             \<and> track tr (map uo_output_key creates) (map us_output_key spends) tr'))"
    unfolding ix append_transaction_effects_def prod.case and_then_Inr_iff [of "require_string _ _"]
      and_then_Inr_iff [of "has_coinbase_input _"]
      step
    by blast
  also have "\<dots> \<longleftrightarrow> (\<exists>y. decode_transaction block ix = Inr y
        \<and> effects' = \<lparr>te_creates = te_creates effects @ te_creates y,
                      te_spends = te_spends effects @ te_spends y\<rparr>
        \<and> track tr (map uo_output_key (te_creates y)) (map us_output_key (te_spends y)) tr')"
    by (auto simp: ix decode_transaction_def and_then_Inr_iff)
  finally show ?thesis .
qed

lemma foldl_effects:
  "foldl (\<lambda>acc y. \<lparr>te_creates = te_creates acc @ te_creates y, te_spends = te_spends acc @ te_spends y\<rparr>)
     acc ys = \<lparr>te_creates = te_creates acc @ concat (map te_creates ys),
               te_spends = te_spends acc @ concat (map te_spends ys)\<rparr>"
  by (induction ys arbitrary: acc) simp_all

lemma collect_core_block_effects_iff:
  "collect_core_block_effects block tr = Inr (effects, tr') \<longleftrightarrow>
     (\<exists>ys. map_res (decode_transaction block) (List.enumerate 0 (db_tx block)) = Inr ys
        \<and> effects = \<lparr>te_creates = concat (map te_creates ys), te_spends = concat (map te_spends ys)\<rparr>
        \<and> track tr (map uo_output_key (te_creates effects)) (map us_output_key (te_spends effects)) tr')"
  unfolding collect_core_block_effects_def tracked_fold [OF append_transaction_effects_iff]
  by (auto simp: foldl_effects map_concat comp_def)

lemma build_core_block_application_iff:
  "build_core_block_application snapshot (apps, tr) = Inr (apps', tr') \<longleftrightarrow>
     (\<exists>a. decode_block snapshot = Inr a \<and> apps' = apps @ [a]
        \<and> track tr (map uo_output_key (ca_utxo_creates a)) (map us_output_key (ca_utxo_spends a)) tr')"
proof -
  have "build_core_block_application snapshot (apps, tr) = Inr (apps', tr') \<longleftrightarrow>
      (\<exists>block effects. parse_dogecoin_block_snapshot snapshot = Inr block
         \<and> collect_core_block_effects block tr = Inr (effects, tr')
         \<and> apps' = apps @ [make_application block effects])"
    by (auto simp: build_core_block_application_def and_then_Inr_iff)
  also have "\<dots> \<longleftrightarrow> (\<exists>a. decode_block snapshot = Inr a \<and> apps' = apps @ [a]
      \<and> track tr (map uo_output_key (ca_utxo_creates a)) (map us_output_key (ca_utxo_spends a)) tr')"
    unfolding collect_core_block_effects_iff decode_block_def and_then_Inr_iff
    by (auto simp: make_application_def map_concat)
  finally show ?thesis .
qed

lemma track_fresh:
  "(\<exists>tr'. track create_core_window_key_tracker cs ss tr') \<longleftrightarrow> distinct cs \<and> distinct ss"
  by (auto simp: track_def create_core_window_key_tracker_def)

lemma build_fast_iff:
  "build_fast_core_dogecoin_block_applications snapshots = Inr apps \<longleftrightarrow>
     map_res decode_block snapshots = Inr apps
     \<and> distinct (created_keys apps) \<and> distinct (spent_keys apps)"
proof -
  have "build_fast_core_dogecoin_block_applications snapshots = Inr apps \<longleftrightarrow>
      (\<exists>tr'. fold_res build_core_block_application snapshots ([], create_core_window_key_tracker)
         = Inr (apps, tr'))"
    by (auto simp: build_fast_core_dogecoin_block_applications_def and_then_Inr_iff)
  also have "\<dots> \<longleftrightarrow> map_res decode_block snapshots = Inr apps
      \<and> (\<exists>tr'. track create_core_window_key_tracker (created_keys apps) (spent_keys apps) tr')"
    unfolding tracked_fold [OF build_core_block_application_iff] foldl_snoc_map
    by (auto simp: created_keys_def spent_keys_def concat_singletons)
  finally show ?thesis by (simp add: track_fresh)
qed

text \<open>
  C10. The one-pass parser with its key tracker accepts exactly the windows that a decoder
  without tracker accepts and in which no output key is created twice and none is spent twice,
  over all blocks of the window together; the applications it returns are the decoder's.
\<close>

theorem core_window_parser_correct:
  "build_fast_core_dogecoin_block_applications snapshots = Inr apps \<longleftrightarrow>
     map_res decode_block snapshots = Inr apps
     \<and> distinct (created_keys apps) \<and> distinct (spent_keys apps)"
  by (rule build_fast_iff)

section \<open>The outputs and spends of a decoded block\<close>

lemma from_decimal_units_amount:
  assumes "from_decimal_units v d = Inr s"
  shows "\<exists>i. parse_amount_base s = Inr i"
proof -
  from assms obtain sg w f where m: "decimal_match (decimal_unit_source v d) = Some (sg, w, f)"
    and p: "\<not> has_excess_decimal_precision f d"
    using from_decimal_units_ok_iff [of v d] by auto
  from from_decimal_units_matched [OF this] assms decimal_match_Some [OF m] show ?thesis
    using parse_signed_nat_str by (metis Inr_inject)
qed

definition output_ok :: "string \<Rightarrow> int \<Rightarrow> int \<Rightarrow> utxo_output \<Rightarrow> bool" where
  "output_ok hash height time o' \<longleftrightarrow>
     uo_block_hash o' = hash \<and> uo_block_height o' = height \<and> uo_block_time o' = time
     \<and> (\<exists>i. uo_output_key o' = output_key_of (uo_txid o') i)
     \<and> uo_is_spendable o' = (uo_address o' \<noteq> []) \<and> js_trim (uo_address o') = uo_address o'
     \<and> is_ok (parse_amount_base (uo_value_base o')) \<and> 0 \<le> uo_tx_index o'
     \<and> uo_spent_by_txid o' = None \<and> uo_spent_in_block o' = None \<and> uo_spent_input_index o' = None"

lemma trim_optional_text_trimmed: "trim_optional_text v = Inr t \<Longrightarrow> js_trim t = t"
  by (cases v) (auto simp: is_nullish_def)

lemma extract_address_trimmed:
  assumes "extract_dogecoin_output_address out = Inr a" shows "js_trim a = a"
proof -
  from assms obtain vs ts where ts: "map_res trim_optional_text vs = Inr ts"
    and a: "a = (case find (\<lambda>t. t \<noteq> []) ts of Some t \<Rightarrow> t | None \<Rightarrow> [])"
    by (auto simp: extract_dogecoin_output_address_def first_trimmed_text_def and_then_Inr_iff)
  show ?thesis
  proof (cases "find (\<lambda>t. t \<noteq> []) ts")
    case None
    then show ?thesis by (simp add: a js_trim_def)
  next
    case (Some t)
    then have "t \<in> set ts" by (auto simp: find_Some_iff)
    with ts have "\<exists>v. trim_optional_text v = Inr t"
      by (auto simp: map_res_Inr_iff list_all2_conv_all_nth in_set_conv_nth)
    then show ?thesis using Some trim_optional_text_trimmed by (auto simp: a)
  qed
qed

lemma make_output_ok:
  assumes "make_output block txid tx_index out i coinbase = Inr o'"
  shows "output_ok (db_hash block) (db_height block) (db_time block) o'"
  using assms extract_address_trimmed from_decimal_units_amount
  unfolding make_output_def and_then_Inr_iff output_ok_def
  by (fastforce simp: is_ok_iff)

lemma map_res_set:
  "map_res f xs = Inr ys \<Longrightarrow> y \<in> set ys \<Longrightarrow> \<exists>x \<in> set xs. f x = Inr y"
  unfolding map_res_Inr_iff by (induction rule: list_all2_induct) auto

lemma decode_transaction_ok:
  assumes "decode_transaction block ix = Inr effects"
  shows "\<forall>o' \<in> set (te_creates effects). output_ok (db_hash block) (db_height block) (db_time block) o'"
    and "\<forall>s \<in> set (te_spends effects). us_spent_in_block s = db_height block \<and> 0 \<le> us_spent_input_index s"
  using assms
  by (auto simp: decode_transaction_def and_then_Inr_iff decode_transaction_outputs_def
      decode_transaction_spends_def decode_spend_def make_spend_def split: prod.splits option.splits
      if_splits dest!: map_res_set make_output_ok)

lemma decode_block_ok:
  assumes "decode_block snapshot = Inr a"
  shows "list_all (output_ok (ca_block_hash a) (ca_block_height a) (ca_block_time a)) (ca_utxo_creates a)
    \<and> list_all (\<lambda>s. us_spent_in_block s = ca_block_height a \<and> 0 \<le> us_spent_input_index s)
        (ca_utxo_spends a)
    \<and> 1 \<le> ca_tx_count a \<and> ca_block_hash a \<noteq> []"
proof -
  from assms obtain block txs where block: "parse_dogecoin_block_snapshot snapshot = Inr block"
    and txs: "map_res (decode_transaction block) (List.enumerate 0 (db_tx block)) = Inr txs"
    and a: "a = make_application block
       \<lparr>te_creates = concat (map te_creates txs), te_spends = concat (map te_spends txs)\<rparr>"
    by (auto simp: decode_block_def and_then_Inr_iff)
  have "db_tx block \<noteq> []"
  proof -
    from block obtain v h where "read_dogecoin_transactions v h = Inr (db_tx block)"
      by (auto simp: parse_dogecoin_block_snapshot_def and_then_Inr_iff)
    then show ?thesis
      by (auto simp: read_dogecoin_transactions_def and_then_Inr_iff split: json.splits list.splits)
  qed
  moreover have "db_hash block \<noteq> []"
  proof -
    from block obtain v where "require_string v ''block.hash'' = Inr (db_hash block)"
      by (auto simp: parse_dogecoin_block_snapshot_def and_then_Inr_iff)
    then show ?thesis
      by (cases v) (auto simp: require_trimmed_string_def Let_def split: if_splits)
  qed
  ultimately show ?thesis
    using map_res_set [OF txs] decode_transaction_ok
    by (fastforce simp: a make_application_def list_all_iff Suc_le_eq)
qed

text \<open>
  In every window the parser returns, each output a block creates carries the block's
  hash, height and time, is keyed by its transaction and a position, is spendable exactly when
  an address was found (and the address has no surrounding white space), has a value that
  parses back to an integer, and is unspent; every spend is recorded at its block's height; and
  every block has a hash and at least one transaction.
\<close>

theorem decoded_block_effects:
  assumes "build_fast_core_dogecoin_block_applications snapshots = Inr apps" and "a \<in> set apps"
  shows "list_all (output_ok (ca_block_hash a) (ca_block_height a) (ca_block_time a)) (ca_utxo_creates a)
    \<and> list_all (\<lambda>s. us_spent_in_block s = ca_block_height a \<and> 0 \<le> us_spent_input_index s)
        (ca_utxo_spends a)
    \<and> 1 \<le> ca_tx_count a \<and> ca_block_hash a \<noteq> []"
proof -
  from assms(1) have "map_res decode_block snapshots = Inr apps" by (simp add: build_fast_iff)
  from map_res_set [OF this assms(2)] obtain snapshot where "decode_block snapshot = Inr a" ..
  then show ?thesis by (rule decode_block_ok)
qed

text \<open>What the stores rely on: rows carry the height of their block, and created outputs are unspent.\<close>

definition application_parsed :: "core_block_application \<Rightarrow> bool" where
  "application_parsed a \<longleftrightarrow>
     (\<forall>o' \<in> set (ca_utxo_creates a). uo_block_height o' = ca_block_height a
        \<and> uo_spent_by_txid o' = None \<and> uo_spent_in_block o' = None \<and> uo_spent_input_index o' = None)
     \<and> (\<forall>s \<in> set (ca_utxo_spends a). us_spent_in_block s = ca_block_height a)"

lemma built_parsed:
  assumes "build_fast_core_dogecoin_block_applications snapshots = Inr apps"
  shows "list_all application_parsed apps"
proof -
  have blocks: "map_res decode_block snapshots = Inr apps" using assms by (simp add: build_fast_iff)
  have "application_parsed a" if a: "a \<in> set apps" for a
  proof -
    obtain snapshot where "decode_block snapshot = Inr a" using map_res_set [OF blocks a] ..
    from decode_block_ok [OF this] show ?thesis
      by (simp add: application_parsed_def list_all_iff output_ok_def)
  qed
  then show ?thesis by (simp add: list_all_iff)
qed

definition sample_output_json :: json where
  "sample_output_json = JObj
     [(''value'', JStr ''1.5''),
      (''scriptPubKey'', JObj [(''address'', JStr '' DA ''), (''type'', JStr ''pubkeyhash'')])]"

definition sample_transaction :: json where
  "sample_transaction = JObj
     [(''txid'', JStr ''t''),
      (''vin'', JArr [JObj [(''txid'', JStr ''s''), (''vout'', JNum (JInt 0))]]),
      (''vout'', JArr [sample_output_json])]"

definition sample_snapshot :: json where
  "sample_snapshot = JObj [(''block'', JObj
     [(''hash'', JStr ''b7''), (''height'', JNum (JInt 7)), (''time'', JNum (JInt 100)),
      (''previousblockhash'', JStr ''b6''), (''tx'', JArr [sample_transaction])])]"

lemma sample_amount: "from_decimal_units (Amount_Text ''1.5'') 8 = Inr ''150000000''"
  by (simp add: from_decimal_units_def require_decimal_unit_match_def decimal_match_def
      split_decimal_def has_excess_decimal_precision_def assert_decimal_fraction_precision_def
      format_decimal_unit_parts_def pad_end_def str_eval numeral_eq_Suc)

lemma sample_parsed:
  "parse_dogecoin_block_snapshot sample_snapshot = Inr
     \<lparr>db_hash = ''b7'', db_height = 7, db_time = 100, db_previous_hash = Some ''b6'',
      db_tx = [sample_transaction]\<rparr>"
proof -
  have trims: "js_trim ''b7'' = ''b7''" "js_trim ''b6'' = ''b6''" by (simp_all add: str_eval)
  have tx: "is_dogecoin_transaction sample_transaction" by (simp add: sample_transaction_def)
  show ?thesis
    by (simp add: parse_dogecoin_block_snapshot_def sample_snapshot_def get_prop_def
        is_nullish_def require_block_record_def require_trimmed_string_def trims
        read_dogecoin_transactions_def check_transaction_def null_if_empty_def tx)
qed

lemma sample_make_output:
  "\<exists>o'. make_output block txid i sample_output_json 0 c = Inr o' \<and> uo_output_key o' = output_key_of txid 0"
proof -
  have trims: "js_trim '' DA '' = ''DA''" "js_trim ''1.5'' = ''1.5''"
    "js_trim ''pubkeyhash'' = ''pubkeyhash''" by (simp_all add: str_eval)
  show ?thesis
    by (simp add: make_output_def sample_output_json_def get_prop_def is_nullish_def
      extract_dogecoin_output_address_def first_trimmed_text_def output_address_candidates_def
      output_address_list_def known_output_address_list_def output_index_value_def
      output_script_type_def require_trimmed_amount_def sample_amount trims)
qed

lemma sample_effects:
  "\<exists>e. decode_transaction block (0, sample_transaction) = Inr e
     \<and> map uo_output_key (te_creates e) = [''t:0''] \<and> map us_output_key (te_spends e) = [''s:0'']"
proof -
  have trims: "js_trim ''t'' = ''t''" "js_trim ''s'' = ''s''" "int_str 0 = ''0''"
    by (simp_all add: str_eval)
  have inputs: "dogecoin_inputs sample_transaction
      = Inr [JObj [(''txid'', JStr ''s''), (''vout'', JNum (JInt 0))]]"
    and outputs: "dogecoin_outputs sample_transaction = Inr [sample_output_json]"
    and txid: "require_string (own_prop sample_transaction ''txid'') ''tx.txid'' = Inr ''t''"
    by (simp_all add: sample_transaction_def dogecoin_inputs_def dogecoin_outputs_def
        nullish_list_def is_nullish_def require_trimmed_string_def trims)
  have coinbase: "has_coinbase_input sample_transaction = Inr False"
    by (simp add: has_coinbase_input_def inputs is_coinbase_input_def get_prop_def is_nullish_def)
  have spends: "decode_transaction_spends ''t'' (db_height block) sample_transaction
      = Inr [make_spend ''t'' (db_height block) 0 ''s:0'']"
    by (simp add: decode_transaction_spends_def inputs decode_spend_def is_coinbase_input_def
        get_prop_def is_nullish_def spend_output_key_def require_trimmed_string_def trims)
  obtain o' where o': "make_output block ''t'' 0 sample_output_json 0 False = Inr o'
      \<and> uo_output_key o' = output_key_of ''t'' 0"
    using sample_make_output ..
  then have outs: "decode_transaction_outputs block sample_transaction ''t'' 0 False = Inr [o']"
    by (simp add: decode_transaction_outputs_def outputs)
  show ?thesis
    by (simp add: decode_transaction_def txid coinbase spends outs make_spend_def o'
        output_key_of_def trims)
qed

lemma sample_decoded:
  "\<exists>a. decode_block sample_snapshot = Inr a \<and> created_keys [a] = [''t:0''] \<and> spent_keys [a] = [''s:0'']"
proof -
  let ?block = "\<lparr>db_hash = ''b7'', db_height = 7, db_time = 100, db_previous_hash = Some ''b6'',
      db_tx = [sample_transaction]\<rparr>"
  obtain e where e: "decode_transaction ?block (0, sample_transaction) = Inr e
     \<and> map uo_output_key (te_creates e) = [''t:0''] \<and> map us_output_key (te_spends e) = [''s:0'']"
    using sample_effects [of ?block] ..
  then show ?thesis
    by (simp add: decode_block_def sample_parsed make_application_def created_keys_def spent_keys_def)
qed

lemma sample_parser_run:
  "\<exists>a. build_fast_core_dogecoin_block_applications [sample_snapshot] = Inr [a] \<and> ca_utxo_creates a \<noteq> []"
proof -
  obtain a where a: "decode_block sample_snapshot = Inr a
      \<and> created_keys [a] = [''t:0''] \<and> spent_keys [a] = [''s:0'']"
    using sample_decoded ..
  then have "build_fast_core_dogecoin_block_applications [sample_snapshot] = Inr [a]"
    by (simp add: build_fast_iff)
  moreover have "ca_utxo_creates a \<noteq> []" using a by (auto simp: created_keys_def)
  ultimately show ?thesis by blast
qed

theorem decoded_block_effects_witness:
  "\<exists>a. build_fast_core_dogecoin_block_applications [sample_snapshot] = Inr [a]
     \<and> list_all (output_ok (ca_block_hash a) (ca_block_height a) (ca_block_time a)) (ca_utxo_creates a)
     \<and> ca_utxo_creates a \<noteq> []"
proof -
  obtain a where a: "build_fast_core_dogecoin_block_applications [sample_snapshot] = Inr [a]
      \<and> ca_utxo_creates a \<noteq> []"
    using sample_parser_run ..
  then show ?thesis using decoded_block_effects [of "[sample_snapshot]" "[a]" a] by simp
qed

section \<open>Versions of transaction references\<close>

lemma lex_encode_less:
  fixes B :: int
  assumes "0 \<le> x" "x < B" "0 \<le> x'" "x' < B"
  shows "h * B + x < h' * B + x' \<longleftrightarrow> h < h' \<or> h = h' \<and> x < x'"
proof -
  have "h < h' \<Longrightarrow> (h + 1) * B \<le> h' * B" "h' < h \<Longrightarrow> (h' + 1) * B \<le> h * B"
    using assms by (intro mult_right_mono; simp)+
  then show ?thesis using assms by (cases h h' rule: linorder_cases) (auto simp: algebra_simps)
qed

definition source_offset :: "ref_source \<Rightarrow> int" where
  "source_offset s = (if s = Raw_Sync then 0 else 1)"

lemma version_less:
  assumes "0 \<le> i" "i < 100000" "0 \<le> i'" "i' < 100000"
  shows "transaction_ref_version h i s < transaction_ref_version h' i' s' \<longleftrightarrow>
      h < h' \<or> h = h' \<and> (i < i' \<or> i = i' \<and> source_offset s < source_offset s')"
proof -
  have off: "0 \<le> source_offset t" "source_offset t < 10" for t
    by (simp_all add: source_offset_def)
  have eq: "transaction_ref_version k j t = k * 1000000 + (j * 10 + source_offset t)" for k j t
    by (simp add: transaction_ref_version_def source_offset_def)
  show ?thesis
    unfolding eq using assms off [of s] off [of s']
    by (subst lex_encode_less) (simp_all add: lex_encode_less)
qed

text \<open>
  References are versioned in chain order: as long as a block has fewer than 100000
  transactions, comparing two versions is comparing height, then transaction index, then
  source (a processed reference wins over a synced one), and equal versions are equal triples.
\<close>

theorem transaction_ref_version_order:
  assumes "0 \<le> i" "i < 100000" "0 \<le> i'" "i' < 100000"
  shows "(transaction_ref_version h i s < transaction_ref_version h' i' s' \<longleftrightarrow>
      h < h' \<or> h = h' \<and> (i < i' \<or> i = i' \<and> s = Raw_Sync \<and> s' = Core_Process))
    \<and> (transaction_ref_version h i s = transaction_ref_version h' i' s' \<longleftrightarrow>
      h = h' \<and> i = i' \<and> s = s')"
proof -
  let ?v = "transaction_ref_version h i s" and ?v' = "transaction_ref_version h' i' s'"
  have less: "source_offset t < source_offset t' \<longleftrightarrow> t = Raw_Sync \<and> t' = Core_Process" for t t'
    by (cases t; cases t') (simp_all add: source_offset_def)
  have lt: "?v < ?v' \<longleftrightarrow> h < h' \<or> h = h' \<and> (i < i' \<or> i = i' \<and> s = Raw_Sync \<and> s' = Core_Process)"
    using version_less [OF assms, of h s h' s'] by (simp only: less)
  have gt: "?v' < ?v \<longleftrightarrow> h' < h \<or> h' = h \<and> (i' < i \<or> i' = i \<and> s' = Raw_Sync \<and> s = Core_Process)"
    using version_less [OF assms(3,4,1,2), of h' s' h s] by (simp only: less)
  have "s = s'" if "\<not> (s = Raw_Sync \<and> s' = Core_Process)" "\<not> (s' = Raw_Sync \<and> s = Core_Process)"
    using that by (cases s; cases s') simp_all
  then have "h = h' \<and> i = i' \<and> s = s'" if "?v = ?v'"
    using that lt gt by (metis less_irrefl linorder_neqE)
  with lt show ?thesis by blast
qed

theorem transaction_ref_version_order_witness:
  "transaction_ref_version 5 99999 Core_Process < transaction_ref_version 6 0 Raw_Sync
   \<and> transaction_ref_version 5 3 Raw_Sync \<noteq> transaction_ref_version 5 3 Core_Process"
  using transaction_ref_version_order [of 99999 0 5 Core_Process 6 Raw_Sync]
    transaction_ref_version_order [of 3 3 5 Raw_Sync 5 Core_Process] by simp

end
