(* ===== verification/Core_State.thy ===== *)
theory Core_State
  imports Block_Applications
begin

text \<open>
  The core window logic of \<^verbatim>\<open>platform/src/warehouse.ts\<close>: which blocks of a window are pending
  and where a reorganisation starts, the shape of a window, the address movements and
  transaction facts derived from it, and the incremental update of outputs and balances
  (\<^verbatim>\<open>applyCoreCurrentStateMutations\<close>, \<^verbatim>\<open>coreCurrentBalanceRows\<close>). The rows that the SQL
  queries return are arguments. The main theorems relate the incremental balances to a
  recomputation from the unspent outputs, and to the movement ledger.
\<close>

section \<open>Pending blocks and reorganisations\<close>

definition core_window_end :: "core_block_application list \<Rightarrow> int" where
  "core_window_end apps = (if apps = [] then - 1 else ca_block_height (last apps))"

definition core_window_start :: "core_block_application list \<Rightarrow> int" where
  "core_window_start apps = (case apps of [] \<Rightarrow> - 1 | a # _ \<Rightarrow> ca_block_height a)"

definition core_window_result_tail ::
  "core_block_application list \<Rightarrow> core_block_application list \<Rightarrow> int" where
  "core_window_result_tail pending inp =
     (let tail = core_window_end pending in if 0 \<le> tail then tail else core_window_end inp)"

record core_apply_result =
  ar_applied :: bool
  ar_process_tail :: int

definition unapplied_core_window_result :: "core_block_application list \<Rightarrow> core_apply_result" where
  "unapplied_core_window_result inp = \<lparr>ar_applied = False, ar_process_tail = core_window_end inp\<rparr>"

definition applied_core_window_result ::
  "core_block_application list \<Rightarrow> core_block_application list \<Rightarrow> core_apply_result" where
  "applied_core_window_result inp pending =
     \<lparr>ar_applied = True, ar_process_tail = core_window_result_tail pending inp\<rparr>"

text \<open>The processed-block rows, by height, with the hash each height was processed with.\<close>

type_synonym processed_blocks = "(int, string) js_map"

fun first_core_reorg_height :: "core_block_application list \<Rightarrow> processed_blocks \<Rightarrow> int option" where
  "first_core_reorg_height [] processed = None"
| "first_core_reorg_height (a # apps) processed =
     (case js_get processed (ca_block_height a) of
        Some h \<Rightarrow> if h \<noteq> ca_block_hash a then Some (ca_block_height a)
                  else first_core_reorg_height apps processed
      | None \<Rightarrow> first_core_reorg_height apps processed)"

definition assert_pending_core_application_hash ::
  "core_block_application \<Rightarrow> string \<Rightarrow> unit res" where
  "assert_pending_core_application_hash a existing =
     (if existing = ca_block_hash a then Inr ()
      else Inl (GenericError (''core block hash mismatch height='' @ int_str (ca_block_height a)
             @ '' existing='' @ existing @ '' next='' @ ca_block_hash a)))"

definition is_pending_core_application ::
  "core_block_application \<Rightarrow> string option \<Rightarrow> bool res" where
  "is_pending_core_application a existing =
     (case existing of
        None \<Rightarrow> Inr True
      | Some h \<Rightarrow> and_then (assert_pending_core_application_hash a h) (\<lambda>_. Inr False))"

fun filter_res :: "('a \<Rightarrow> bool res) \<Rightarrow> 'a list \<Rightarrow> 'a list res" where
  "filter_res p [] = Inr []"
| "filter_res p (x # xs) =
     and_then (p x) (\<lambda>b. and_then (filter_res p xs) (\<lambda>ys. Inr (if b then x # ys else ys)))"

text \<open>
  \<^verbatim>\<open>pendingCoreWindowApplications\<close>: the first component is the height from which the store is
  rewound before the pending blocks are applied, if any.
\<close>

definition pending_core_window_applications ::
  "core_block_application list \<Rightarrow> processed_blocks
     \<Rightarrow> (int option \<times> core_block_application list) res" where
  "pending_core_window_applications inp processed =
     (case first_core_reorg_height inp processed of
        Some h \<Rightarrow> Inr (Some h, filter (\<lambda>a. h \<le> ca_block_height a) inp)
      | None \<Rightarrow>
          and_then (filter_res (\<lambda>a. is_pending_core_application a
                                     (js_get processed (ca_block_height a))) inp) (\<lambda>pending.
          Inr (None, pending)))"

fun contiguous_from :: "int \<Rightarrow> int list \<Rightarrow> bool" where
  "contiguous_from expected [] = True"
| "contiguous_from expected (h # hs) = (h = expected \<and> contiguous_from (expected + 1) hs)"

definition contiguous_height_range :: "int list \<Rightarrow> (int \<times> int) option" where
  "contiguous_height_range hs =
     (case hs of
        [] \<Rightarrow> None
      | start # _ \<Rightarrow>
          if contiguous_from start hs then Some (start, start + int (length hs) - 1) else None)"

section \<open>The shape of a window\<close>

record core_window_shape_state =
  sh_created :: "string set"
  sh_previous_hash :: "string option"
  sh_previous_height :: "int option"
  sh_spent :: "string set"

definition create_core_window_shape_state :: core_window_shape_state where
  "create_core_window_shape_state =
     \<lparr>sh_created = {}, sh_previous_hash = None, sh_previous_height = None, sh_spent = {}\<rparr>"

definition format_nullable_hash :: "string option \<Rightarrow> string" where
  "format_nullable_hash h = (case h of None \<Rightarrow> ''null'' | Some x \<Rightarrow> x)"

definition assert_core_application_height ::
  "core_block_application \<Rightarrow> int option \<Rightarrow> unit res" where
  "assert_core_application_height a previous =
     (case previous of
        None \<Rightarrow> Inr ()
      | Some p \<Rightarrow>
          if ca_block_height a \<noteq> p + 1
          then Inl (GenericError (''non-contiguous core dogecoin window previous='' @ int_str p
                 @ '' next='' @ int_str (ca_block_height a)))
          else Inr ())"

definition chain_error :: "int option \<Rightarrow> string \<Rightarrow> core_block_application \<Rightarrow> js_error" where
  "chain_error previous_height previous_hash a =
     GenericError (''non-contiguous core dogecoin chain previous_height=''
       @ (case previous_height of None \<Rightarrow> ''null'' | Some p \<Rightarrow> int_str p)
       @ '' previous_hash='' @ previous_hash
       @ '' next_height='' @ int_str (ca_block_height a)
       @ '' next_previous='' @ format_nullable_hash (ca_previous_block_hash a))"

definition assert_core_application_previous_hash ::
  "core_block_application \<Rightarrow> core_window_shape_state \<Rightarrow> unit res" where
  "assert_core_application_previous_hash a s =
     (case sh_previous_hash s of
        None \<Rightarrow> Inr ()
      | Some h \<Rightarrow>
          if ca_previous_block_hash a \<noteq> Some h
          then Inl (chain_error (sh_previous_height s) h a) else Inr ())"

definition assert_unique_core_key :: "string \<Rightarrow> string \<Rightarrow> string set \<Rightarrow> string set res" where
  "assert_unique_core_key message key seen =
     (if key \<in> seen then Inl (GenericError (message @ '': '' @ key)) else Inr (insert key seen))"

definition assert_unique_core_outputs ::
  "core_block_application \<Rightarrow> string set \<Rightarrow> string set res" where
  "assert_unique_core_outputs a created =
     fold_res (\<lambda>o'. assert_unique_core_key ''duplicate dogecoin output in core window''
       (uo_output_key o')) (ca_utxo_creates a) created"

definition assert_unique_core_spends ::
  "core_block_application \<Rightarrow> string set \<Rightarrow> string set res" where
  "assert_unique_core_spends a spent =
     fold_res (\<lambda>s. assert_unique_core_key ''duplicate dogecoin spend in core window''
       (us_output_key s)) (ca_utxo_spends a) spent"

definition assert_core_application_shape ::
  "core_block_application \<Rightarrow> core_window_shape_state \<Rightarrow> core_window_shape_state res" where
  "assert_core_application_shape a s =
     and_then (assert_core_application_height a (sh_previous_height s)) (\<lambda>_.
     and_then (assert_core_application_previous_hash a s) (\<lambda>_.
     and_then (assert_unique_core_outputs a (sh_created s)) (\<lambda>created.
     and_then (assert_unique_core_spends a (sh_spent s)) (\<lambda>spent.
     Inr (s\<lparr>sh_created := created, sh_spent := spent\<rparr>)))))"

definition remember_core_application_shape ::
  "core_block_application \<Rightarrow> core_window_shape_state \<Rightarrow> core_window_shape_state" where
  "remember_core_application_shape a s =
     s\<lparr>sh_previous_height := Some (ca_block_height a), sh_previous_hash := Some (ca_block_hash a)\<rparr>"

definition assert_core_window_shape :: "core_block_application list \<Rightarrow> unit res" where
  "assert_core_window_shape apps =
     and_then (fold_res (\<lambda>a s. and_then (assert_core_application_shape a s) (\<lambda>s'.
                 Inr (remember_core_application_shape a s'))) apps create_core_window_shape_state)
       (\<lambda>_. Inr ())"

definition previous_core_block_height :: "core_block_application option \<Rightarrow> int option" where
  "previous_core_block_height first =
     (case first of
        None \<Rightarrow> None
      | Some a \<Rightarrow> if ca_block_height a = 0 then None else Some (ca_block_height a - 1))"

text \<open>\<open>previous\<close> is the processed row found below the window: its height and hash.\<close>

definition assert_previous_core_block_matches ::
  "(int \<times> string) option \<Rightarrow> core_block_application \<Rightarrow> unit res" where
  "assert_previous_core_block_matches previous a =
     (case previous of
        None \<Rightarrow> Inr ()
      | Some (h, x) \<Rightarrow>
          if Some x = ca_previous_block_hash a then Inr () else Inl (chain_error (Some h) x a))"

subsection \<open>What the two checks decide\<close>

definition agrees :: "processed_blocks \<Rightarrow> core_block_application \<Rightarrow> bool" where
  "agrees processed a \<longleftrightarrow> js_get processed (ca_block_height a) \<in> {None, Some (ca_block_hash a)}"

lemma first_core_reorg_height_None:
  "first_core_reorg_height apps processed = None \<longleftrightarrow> list_all (agrees processed) apps"
  by (induction apps) (auto simp: agrees_def split: option.splits)

lemma first_core_reorg_height_append:
  "list_all (agrees processed) pre \<Longrightarrow> \<not> agrees processed a \<Longrightarrow>
     first_core_reorg_height (pre @ a # post) processed = Some (ca_block_height a)"
  by (induction pre) (auto simp: agrees_def split: option.splits)

lemma first_core_reorg_height_Some:
  assumes "first_core_reorg_height apps processed = Some h"
  shows "\<exists>pre a post. apps = pre @ a # post \<and> h = ca_block_height a
     \<and> list_all (agrees processed) pre \<and> \<not> agrees processed a"
proof -
  have "\<not> list_all (agrees processed) apps"
    using assms first_core_reorg_height_None [of apps processed] by simp
  then obtain pre a post where apps: "apps = pre @ a # post" and a: "\<not> agrees processed a"
    and pre: "\<forall>b \<in> set pre. agrees processed b"
    using split_list_first_prop [of apps "\<lambda>a. \<not> agrees processed a"] by (auto simp: list_all_iff)
  have "first_core_reorg_height apps processed = Some (ca_block_height a)"
    unfolding apps using pre a by (intro first_core_reorg_height_append) (simp_all add: list_all_iff)
  with assms apps a pre show ?thesis by (auto simp: list_all_iff)
qed

lemma filter_res_pending:
  "list_all (agrees processed) apps \<Longrightarrow>
     filter_res (\<lambda>a. is_pending_core_application a (js_get processed (ca_block_height a))) apps
       = Inr (filter (\<lambda>a. js_get processed (ca_block_height a) = None) apps)"
  by (induction apps)
    (auto simp: agrees_def is_pending_core_application_def assert_pending_core_application_hash_def)

text \<open>
  C19. On a window of ascending heights the selection of pending blocks never fails. Either
  every block is unprocessed or was processed with the same hash, and the unprocessed ones are
  pending; or the store is rewound from the first block it knows under another hash, and that
  block and everything after it is pending.
\<close>

theorem pending_core_window_correct:
  assumes "sorted_wrt (<) (map ca_block_height inp)"
  shows "list_all (agrees processed) inp
           \<and> pending_core_window_applications inp processed
               = Inr (None, filter (\<lambda>a. js_get processed (ca_block_height a) = None) inp)
         \<or> (\<exists>pre a post. inp = pre @ a # post \<and> list_all (agrees processed) pre
              \<and> \<not> agrees processed a
              \<and> pending_core_window_applications inp processed
                  = Inr (Some (ca_block_height a), a # post))"
proof (cases "first_core_reorg_height inp processed")
  case None
  then show ?thesis
    by (simp add: pending_core_window_applications_def filter_res_pending
        first_core_reorg_height_None [symmetric] flip: first_core_reorg_height_None)
next
  case (Some h)
  then obtain pre a post where inp: "inp = pre @ a # post" and h: "h = ca_block_height a"
    and "list_all (agrees processed) pre" "\<not> agrees processed a"
    using first_core_reorg_height_Some by blast
  moreover have "filter (\<lambda>b. h \<le> ca_block_height b) inp = a # post"
  proof -
    have "\<forall>b \<in> set pre. \<not> h \<le> ca_block_height b" "\<forall>b \<in> set post. h \<le> ca_block_height b"
      using assms by (auto simp: inp h sorted_wrt_append)
    then show ?thesis by (simp add: inp h filter_empty_conv filter_id_conv)
  qed
  ultimately show ?thesis
    using Some by (auto simp: pending_core_window_applications_def)
qed

fun chained :: "core_block_application list \<Rightarrow> bool" where
  "chained (a # b # apps) \<longleftrightarrow>
     ca_block_height b = ca_block_height a + 1
     \<and> ca_previous_block_hash b = Some (ca_block_hash a) \<and> chained (b # apps)"
| "chained _ = True"

lemma assert_unique_core_keys_iff:
  "fold_res (\<lambda>x. assert_unique_core_key m (f x)) xs seen = Inr seen' \<longleftrightarrow>
     distinct (map f xs) \<and> set (map f xs) \<inter> seen = {} \<and> seen' = seen \<union> set (map f xs)"
  by (induction xs arbitrary: seen) (auto simp: assert_unique_core_key_def res_simps)

definition shape_follows :: "core_window_shape_state \<Rightarrow> core_block_application \<Rightarrow> bool" where
  "shape_follows s a \<longleftrightarrow>
     (\<forall>p. sh_previous_height s = Some p \<longrightarrow> ca_block_height a = p + 1)
     \<and> (\<forall>h. sh_previous_hash s = Some h \<longrightarrow> ca_previous_block_hash a = Some h)"

lemma assert_core_application_shape_iff:
  "assert_core_application_shape a s = Inr s' \<longleftrightarrow>
     shape_follows s a
     \<and> distinct (created_keys [a]) \<and> set (created_keys [a]) \<inter> sh_created s = {}
     \<and> distinct (spent_keys [a]) \<and> set (spent_keys [a]) \<inter> sh_spent s = {}
     \<and> s' = s\<lparr>sh_created := sh_created s \<union> set (created_keys [a]),
              sh_spent := sh_spent s \<union> set (spent_keys [a])\<rparr>"
proof -
  have "is_ok (assert_core_application_height a (sh_previous_height s)) \<and>
      is_ok (assert_core_application_previous_hash a s) \<longleftrightarrow> shape_follows s a"
    by (auto simp: assert_core_application_height_def assert_core_application_previous_hash_def
        shape_follows_def split: option.splits)
  then show ?thesis
    by (auto simp: assert_core_application_shape_def res_simps assert_unique_core_outputs_def
        assert_unique_core_spends_def assert_unique_core_keys_iff created_keys_def spent_keys_def
        is_ok_iff)
qed

lemma created_keys_Cons: "created_keys (a # apps) = created_keys [a] @ created_keys apps"
  by (simp add: created_keys_def)

lemma spent_keys_Cons: "spent_keys (a # apps) = spent_keys [a] @ spent_keys apps"
  by (simp add: spent_keys_def)

lemma keys_empty [simp]: "created_keys [] = []" "spent_keys [] = []"
  by (simp_all add: created_keys_def spent_keys_def)

lemma shape_fold_iff:
  "is_ok (fold_res (\<lambda>a s. and_then (assert_core_application_shape a s) (\<lambda>s'.
       Inr (remember_core_application_shape a s'))) apps s) \<longleftrightarrow>
     (apps \<noteq> [] \<longrightarrow> shape_follows s (hd apps)) \<and> chained apps
     \<and> distinct (created_keys apps) \<and> set (created_keys apps) \<inter> sh_created s = {}
     \<and> distinct (spent_keys apps) \<and> set (spent_keys apps) \<inter> sh_spent s = {}"
proof (induction apps arbitrary: s)
  case Nil
  then show ?case by simp
next
  case (Cons a apps)
  let ?f = "\<lambda>a s. and_then (assert_core_application_shape a s) (\<lambda>s'.
       Inr (remember_core_application_shape a s'))"
  let ?s = "remember_core_application_shape a
      (s\<lparr>sh_created := sh_created s \<union> set (created_keys [a]),
         sh_spent := sh_spent s \<union> set (spent_keys [a])\<rparr>)"
  have step: "is_ok (fold_res ?f (a # apps) s) \<longleftrightarrow>
      is_ok (assert_core_application_shape a s) \<and> is_ok (fold_res ?f apps ?s)"
  proof (cases "assert_core_application_shape a s")
    case (Inr s')
    then have "remember_core_application_shape a s' = ?s"
      by (simp add: assert_core_application_shape_iff)
    with Inr show ?thesis by simp
  qed simp
  have app: "is_ok (assert_core_application_shape a s) \<longleftrightarrow> shape_follows s a
     \<and> distinct (created_keys [a]) \<and> set (created_keys [a]) \<inter> sh_created s = {}
     \<and> distinct (spent_keys [a]) \<and> set (spent_keys [a]) \<inter> sh_spent s = {}"
    by (auto simp: is_ok_iff assert_core_application_shape_iff)
  have chain: "(apps \<noteq> [] \<longrightarrow> shape_follows ?s (hd apps)) \<and> chained apps \<longleftrightarrow> chained (a # apps)"
    by (cases apps) (auto simp: shape_follows_def remember_core_application_shape_def)
  have sets: "sh_created ?s = sh_created s \<union> set (created_keys [a])"
    "sh_spent ?s = sh_spent s \<union> set (spent_keys [a])"
    by (simp_all add: remember_core_application_shape_def)
  have dist: "distinct (xs @ ys) \<and> set (xs @ ys) \<inter> A = {} \<longleftrightarrow>
      (distinct xs \<and> set xs \<inter> A = {}) \<and> distinct ys \<and> set ys \<inter> (A \<union> set xs) = {}"
    for xs ys :: "string list" and A
    by auto
  have created: "distinct (created_keys (a # apps)) \<and> set (created_keys (a # apps)) \<inter> sh_created s = {}
      \<longleftrightarrow> (distinct (created_keys [a]) \<and> set (created_keys [a]) \<inter> sh_created s = {})
        \<and> distinct (created_keys apps) \<and> set (created_keys apps) \<inter> sh_created ?s = {}"
    unfolding created_keys_Cons [of a apps] sets dist ..
  have spent: "distinct (spent_keys (a # apps)) \<and> set (spent_keys (a # apps)) \<inter> sh_spent s = {}
      \<longleftrightarrow> (distinct (spent_keys [a]) \<and> set (spent_keys [a]) \<inter> sh_spent s = {})
        \<and> distinct (spent_keys apps) \<and> set (spent_keys apps) \<inter> sh_spent ?s = {}"
    unfolding spent_keys_Cons [of a apps] sets dist ..
  have "a # apps \<noteq> []" "hd (a # apps) = a" by simp_all
  then show ?case
    using step app chain created spent Cons.IH [of ?s] by argo
qed

text \<open>
  C20. The window shape check accepts exactly the windows that are a chain (each block one
  higher than, and naming the hash of, the block before it) in which no output is created
  twice and none is spent twice.
\<close>

theorem core_window_shape_correct:
  "assert_core_window_shape apps = Inr () \<longleftrightarrow>
     chained apps \<and> distinct (created_keys apps) \<and> distinct (spent_keys apps)"
proof -
  have "assert_core_window_shape apps = Inr () \<longleftrightarrow>
      is_ok (fold_res (\<lambda>a s. and_then (assert_core_application_shape a s) (\<lambda>s'.
        Inr (remember_core_application_shape a s'))) apps create_core_window_shape_state)"
    by (auto simp: assert_core_window_shape_def is_ok_iff res_simps)
  then show ?thesis
    by (simp add: shape_fold_iff create_core_window_shape_state_def shape_follows_def)
qed

section \<open>Movements and transaction facts\<close>

definition core_created_outputs_by_key :: "core_block_application list \<Rightarrow> utxo_map" where
  "core_created_outputs_by_key apps =
     js_map_of (map (\<lambda>o'. (uo_output_key o', o')) (concat (map ca_utxo_creates apps)))"

definition external_core_spend_keys :: "core_block_application list \<Rightarrow> string list" where
  "external_core_spend_keys apps =
     (let created = set (concat (map (\<lambda>a. map uo_output_key (ca_utxo_creates a)) apps))
      in unique (filter (\<lambda>k. k \<notin> created)
           (concat (map (\<lambda>a. map us_output_key (ca_utxo_spends a)) apps))))"

definition is_core_address_movement_output :: "utxo_output \<Rightarrow> bool" where
  "is_core_address_movement_output o' \<longleftrightarrow> uo_is_spendable o' \<and> 0 < length (uo_address o')"

definition core_create_address_movement :: "utxo_output \<Rightarrow> address_movement list" where
  "core_create_address_movement o' =
     (if \<not> is_core_address_movement_output o' then []
      else [\<lparr>am_address = uo_address o', am_amount_base = uo_value_base o',
             am_asset_address = [], am_block_hash = uo_block_hash o',
             am_block_height = uo_block_height o', am_block_time = uo_block_time o',
             am_derivation_method = ''core_utxo'', am_direction = Credit,
             am_entry_index = uo_vout o',
             am_movement_id = ''core-credit:'' @ uo_output_key o',
             am_output_key = Some (uo_output_key o'), am_tx_index = uo_tx_index o',
             am_txid = uo_txid o'\<rparr>])"

definition lookup_output :: "utxo_map \<Rightarrow> utxo_map \<Rightarrow> string \<Rightarrow> utxo_output option" where
  "lookup_output created current key =
     (case js_get created key of Some o' \<Rightarrow> Some o' | None \<Rightarrow> js_get current key)"

definition core_spend_address_movement ::
  "core_block_application \<Rightarrow> utxo_spend \<Rightarrow> utxo_map \<Rightarrow> utxo_map \<Rightarrow> address_movement list" where
  "core_spend_address_movement a spend created current =
     (case lookup_output created current (us_output_key spend) of
        None \<Rightarrow> []
      | Some o' \<Rightarrow>
          if \<not> is_core_address_movement_output o' then []
          else [\<lparr>am_address = uo_address o', am_amount_base = uo_value_base o',
                 am_asset_address = [], am_block_hash = ca_block_hash a,
                 am_block_height = ca_block_height a, am_block_time = ca_block_time a,
                 am_derivation_method = ''core_utxo'', am_direction = Debit,
                 am_entry_index = us_spent_input_index spend,
                 am_movement_id = ''core-debit:'' @ us_output_key spend @ '':''
                   @ us_spent_by_txid spend @ '':'' @ int_str (us_spent_input_index spend),
                 am_output_key = Some (us_output_key spend), am_tx_index = 0,
                 am_txid = us_spent_by_txid spend\<rparr>])"

definition core_application_address_movements ::
  "core_block_application \<Rightarrow> utxo_map \<Rightarrow> utxo_map \<Rightarrow> address_movement list" where
  "core_application_address_movements a created current =
     concat (map core_create_address_movement (ca_utxo_creates a))
     @ concat (map (\<lambda>s. core_spend_address_movement a s created current) (ca_utxo_spends a))"

record transaction_fact =
  tf_block_hash :: string
  tf_block_height :: int
  tf_block_time :: int
  tf_fee_base :: "string option"
  tf_gross_output_base :: string
  tf_input_count :: int
  tf_is_coinbase :: bool
  tf_output_count :: int
  tf_total_input_base :: string
  tf_tx_index :: int
  tf_txid :: string
  tf_version :: int

definition js_append :: "'k \<Rightarrow> 'v \<Rightarrow> ('k, 'v list) js_map \<Rightarrow> ('k, 'v list) js_map" where
  "js_append k v m = js_set k ((case js_get m k of Some vs \<Rightarrow> vs | None \<Rightarrow> []) @ [v]) m"

definition group_core_outputs_by_txid :: "utxo_output list \<Rightarrow> (string, utxo_output list) js_map" where
  "group_core_outputs_by_txid outs = fold (\<lambda>o'. js_append (uo_txid o') o') outs []"

definition group_core_spends_by_txid :: "utxo_spend list \<Rightarrow> (string, utxo_spend list) js_map" where
  "group_core_spends_by_txid spends = fold (\<lambda>s. js_append (us_spent_by_txid s) s) spends []"

definition core_spend_value :: "utxo_map \<Rightarrow> utxo_map \<Rightarrow> utxo_spend \<Rightarrow> int res" where
  "core_spend_value created current spend =
     (case lookup_output created current (us_output_key spend) of
        Some o' \<Rightarrow> js_bigint (uo_value_base o')
      | None \<Rightarrow> Inr 0)"

definition analytics_fee_base :: "bool \<Rightarrow> int \<Rightarrow> int \<Rightarrow> string option" where
  "analytics_fee_base coinbase total_input gross_output =
     (if coinbase \<or> total_input = 0 then None else Some (int_str (total_input - gross_output)))"

definition require_analytics_output :: "utxo_output list \<Rightarrow> utxo_output res" where
  "require_analytics_output outs =
     (case outs of
        [] \<Rightarrow> Inl (GenericError ''analytics transaction fact requires at least one output'')
      | o' # _ \<Rightarrow> Inr o')"

definition sum_res :: "('a \<Rightarrow> int res) \<Rightarrow> 'a list \<Rightarrow> int res" where
  "sum_res f xs = fold_res (\<lambda>x acc. and_then (f x) (\<lambda>v. Inr (acc + v))) xs 0"

definition core_transaction_fact ::
  "core_block_application \<Rightarrow> string \<Rightarrow> utxo_output list \<Rightarrow> utxo_spend list \<Rightarrow> utxo_map \<Rightarrow> utxo_map
     \<Rightarrow> transaction_fact res" where
  "core_transaction_fact a txid outs spends created current =
     (let sorted = sort_key uo_vout outs in
      and_then (require_analytics_output sorted) (\<lambda>first.
      and_then (sum_res (core_spend_value created current) spends) (\<lambda>total_input.
      and_then (sum_res (\<lambda>o'. js_bigint (uo_value_base o')) sorted) (\<lambda>gross_output.
      let coinbase = list_ex uo_is_coinbase sorted in
      Inr \<lparr>tf_block_hash = ca_block_hash a, tf_block_height = ca_block_height a,
           tf_block_time = ca_block_time a,
           tf_fee_base = analytics_fee_base coinbase total_input gross_output,
           tf_gross_output_base = int_str gross_output, tf_input_count = int (length spends),
           tf_is_coinbase = coinbase, tf_output_count = int (length sorted),
           tf_total_input_base = int_str total_input, tf_tx_index = uo_tx_index first,
           tf_txid = txid, tf_version = ca_block_height a\<rparr>))))"

definition core_application_transaction_facts ::
  "core_block_application \<Rightarrow> utxo_map \<Rightarrow> utxo_map \<Rightarrow> transaction_fact list res" where
  "core_application_transaction_facts a created current =
     (let spends_by_txid = group_core_spends_by_txid (ca_utxo_spends a) in
      map_res (\<lambda>(txid, outs). core_transaction_fact a txid outs
          (case js_get spends_by_txid txid of Some ss \<Rightarrow> ss | None \<Rightarrow> []) created current)
        (group_core_outputs_by_txid (ca_utxo_creates a)))"

section \<open>Incremental outputs and balances\<close>

record core_balance_delta =
  bd_address :: string
  bd_amount :: int
  bd_asset_address :: string

type_synonym balance_deltas = "(string, core_balance_delta) js_map"

record core_current_state_mutation =
  cm_balance_deltas :: balance_deltas
  cm_next_outputs :: utxo_map

definition create_core_current_state_mutation :: core_current_state_mutation where
  "create_core_current_state_mutation = \<lparr>cm_balance_deltas = [], cm_next_outputs = []\<rparr>"

definition balance_key :: "string \<Rightarrow> string \<Rightarrow> string" where
  "balance_key address asset = address @ '':'' @ asset"

definition is_balance_affecting_core_output :: "utxo_output \<Rightarrow> bool" where
  "is_balance_affecting_core_output o' \<longleftrightarrow> uo_is_spendable o' \<and> uo_address o' \<noteq> []"

definition apply_core_balance_delta ::
  "string \<Rightarrow> string \<Rightarrow> int \<Rightarrow> string \<Rightarrow> balance_deltas \<Rightarrow> balance_deltas" where
  "apply_core_balance_delta key address amount asset deltas =
     (case js_get deltas key of
        Some d \<Rightarrow> js_set key (d\<lparr>bd_amount := bd_amount d + amount\<rparr>) deltas
      | None \<Rightarrow> js_set key \<lparr>bd_address = address, bd_amount = amount, bd_asset_address = asset\<rparr> deltas)"

definition add_core_balance_delta :: "utxo_output \<Rightarrow> int \<Rightarrow> balance_deltas \<Rightarrow> balance_deltas" where
  "add_core_balance_delta o' amount deltas =
     (if \<not> is_balance_affecting_core_output o' then deltas
      else apply_core_balance_delta (balance_key (uo_address o') []) (uo_address o') amount [] deltas)"

definition apply_core_current_state_create ::
  "utxo_output \<Rightarrow> core_current_state_mutation \<Rightarrow> core_current_state_mutation res" where
  "apply_core_current_state_create o' m =
     and_then (js_bigint (uo_value_base o')) (\<lambda>v.
     Inr \<lparr>cm_balance_deltas = add_core_balance_delta o' v (cm_balance_deltas m),
          cm_next_outputs = js_set (uo_output_key o') o' (cm_next_outputs m)\<rparr>)"

definition require_current_core_output :: "utxo_map \<Rightarrow> string \<Rightarrow> utxo_output res" where
  "require_current_core_output current key =
     (case js_get current key of
        None \<Rightarrow> Inl (MissingCoreCurrentPrevoutError key)
      | Some o' \<Rightarrow> Inr o')"

definition current_core_output ::
  "core_current_state_mutation \<Rightarrow> utxo_spend \<Rightarrow> utxo_map \<Rightarrow> utxo_output res" where
  "current_core_output m spend current =
     (case js_get (cm_next_outputs m) (us_output_key spend) of
        Some o' \<Rightarrow> Inr o'
      | None \<Rightarrow> require_current_core_output current (us_output_key spend))"

definition spent_core_output :: "utxo_output \<Rightarrow> utxo_spend \<Rightarrow> utxo_output" where
  "spent_core_output current spend =
     current\<lparr>uo_spent_by_txid := Some (us_spent_by_txid spend),
             uo_spent_in_block := Some (us_spent_in_block spend),
             uo_spent_input_index := Some (us_spent_input_index spend)\<rparr>"

definition apply_core_current_state_spend ::
  "utxo_map \<Rightarrow> utxo_spend \<Rightarrow> core_current_state_mutation \<Rightarrow> core_current_state_mutation res" where
  "apply_core_current_state_spend current spend m =
     and_then (current_core_output m spend current) (\<lambda>o'.
     and_then (js_bigint (uo_value_base o')) (\<lambda>v.
     Inr \<lparr>cm_balance_deltas = add_core_balance_delta o' (- v) (cm_balance_deltas m),
          cm_next_outputs
            = js_set (us_output_key spend) (spent_core_output o' spend) (cm_next_outputs m)\<rparr>))"

definition apply_core_current_state_application ::
  "utxo_map \<Rightarrow> core_block_application \<Rightarrow> core_current_state_mutation
     \<Rightarrow> core_current_state_mutation res" where
  "apply_core_current_state_application current a m =
     and_then (fold_res apply_core_current_state_create (ca_utxo_creates a) m)
       (fold_res (apply_core_current_state_spend current) (ca_utxo_spends a))"

definition apply_core_current_state_mutations ::
  "core_block_application list \<Rightarrow> utxo_map \<Rightarrow> core_current_state_mutation res" where
  "apply_core_current_state_mutations pending current =
     fold_res (apply_core_current_state_application current) pending
       create_core_current_state_mutation"

record versioned_balance = balance_snapshot +
  vb_version :: int

definition core_current_create_version :: "int \<Rightarrow> int" where
  "core_current_create_version height = height * 2"

definition core_current_spend_version :: "int \<Rightarrow> int" where
  "core_current_spend_version height = height * 2 + 1"

definition core_current_balance_version :: "int \<Rightarrow> int" where
  "core_current_balance_version height = core_current_spend_version height"

definition core_current_utxo_version :: "utxo_output \<Rightarrow> int" where
  "core_current_utxo_version row =
     (case uo_spent_in_block row of
        None \<Rightarrow> core_current_create_version (uo_block_height row)
      | Some h \<Rightarrow> core_current_spend_version h)"

type_synonym balance_rows = "(string, balance_snapshot) js_map"

definition core_current_balance_amount :: "balance_rows \<Rightarrow> string \<Rightarrow> int res" where
  "core_current_balance_amount balances key =
     (case js_get balances key of None \<Rightarrow> Inr 0 | Some b \<Rightarrow> js_bigint (bs_balance b))"

definition core_current_balance_row ::
  "int \<Rightarrow> balance_rows \<Rightarrow> string \<times> core_balance_delta \<Rightarrow> versioned_balance res" where
  "core_current_balance_row window_end balances = (\<lambda>(key, d).
     and_then (core_current_balance_amount balances key) (\<lambda>current.
     let nxt = current + bd_amount d in
     if nxt < 0
     then Inl (GenericError (''negative balance for '' @ bd_address d @ '':'' @ bd_asset_address d))
     else Inr \<lparr>bs_address = bd_address d, bs_asset_address = bd_asset_address d,
               bs_as_of_block_height = window_end, bs_balance = format_amount_base nxt,
               vb_version = core_current_balance_version window_end\<rparr>))"

definition core_current_balance_rows ::
  "int \<Rightarrow> balance_deltas \<Rightarrow> balance_rows \<Rightarrow> versioned_balance list res" where
  "core_current_balance_rows window_end deltas balances =
     map_res (core_current_balance_row window_end balances) deltas"

record core_current_state_window =
  cw_next_balances :: "versioned_balance list"
  cw_next_outputs :: utxo_map
  cw_window_end :: int

definition build_core_current_state_window ::
  "core_block_application list \<Rightarrow> utxo_map \<Rightarrow> (string list \<Rightarrow> balance_rows res)
     \<Rightarrow> core_current_state_window option res" where
  "build_core_current_state_window pending prevouts load_balances =
     (let window_end = core_window_end pending in
      if window_end < 0 then Inr None
      else and_then (apply_core_current_state_mutations pending prevouts) (\<lambda>m.
           and_then (load_balances (js_keys (cm_balance_deltas m))) (\<lambda>balances.
           and_then (core_current_balance_rows window_end (cm_balance_deltas m) balances) (\<lambda>rows.
           Inr (Some \<lparr>cw_next_balances = rows, cw_next_outputs = cm_next_outputs m,
                      cw_window_end = window_end\<rparr>)))))"

subsection \<open>The specification: balances as sums over the unspent outputs\<close>

definition big_value :: "string \<Rightarrow> int" where
  "big_value s = (case js_bigint s of Inr v \<Rightarrow> v | Inl _ \<Rightarrow> 0)"

definition unspent_value :: "string \<Rightarrow> utxo_output \<Rightarrow> int" where
  "unspent_value a o' =
     (if uo_is_spendable o' \<and> uo_address o' = a \<and> uo_spent_by_txid o' = None
      then big_value (uo_value_base o') else 0)"

definition address_balance :: "string \<Rightarrow> utxo_map \<Rightarrow> int" where
  "address_balance a table = weight_sum (unspent_value a) table"

definition delta_amount :: "string \<Rightarrow> balance_deltas \<Rightarrow> int" where
  "delta_amount a deltas =
     (case js_get deltas (balance_key a []) of None \<Rightarrow> 0 | Some d \<Rightarrow> bd_amount d)"

definition view :: "utxo_map \<Rightarrow> core_current_state_mutation \<Rightarrow> utxo_map" where
  "view table m = jsm.put_all (cm_next_outputs m) table"

lemma balance_key_inject [simp]: "balance_key a s = balance_key b s \<longleftrightarrow> a = b"
  by (simp add: balance_key_def)

lemma delta_amount_add:
  "a \<noteq> [] \<Longrightarrow> delta_amount a (add_core_balance_delta o' v deltas)
     = delta_amount a deltas + (if uo_is_spendable o' \<and> uo_address o' = a then v else 0)"
  by (auto simp: delta_amount_def add_core_balance_delta_def is_balance_affecting_core_output_def
      apply_core_balance_delta_def js_get_set split: option.splits)

lemma delta_amount_Nil [simp]: "delta_amount a [] = 0"
  by (simp add: delta_amount_def)

text \<open>A window as the sequence of its creates and spends.\<close>

type_synonym core_op = "utxo_output + utxo_spend"

definition window_ops :: "core_block_application list \<Rightarrow> core_op list" where
  "window_ops apps =
     concat (map (\<lambda>a. map Inl (ca_utxo_creates a) @ map Inr (ca_utxo_spends a)) apps)"

definition core_op_step ::
  "utxo_map \<Rightarrow> core_op \<Rightarrow> core_current_state_mutation \<Rightarrow> core_current_state_mutation res" where
  "core_op_step current op m =
     (case op of Inl o' \<Rightarrow> apply_core_current_state_create o' m
               | Inr s \<Rightarrow> apply_core_current_state_spend current s m)"

lemma apply_core_current_state_mutations_ops:
  "apply_core_current_state_mutations apps current
     = fold_res (core_op_step current) (window_ops apps) create_core_current_state_mutation"
proof -
  have steps: "(\<lambda>o'. core_op_step current (Inl o')) = apply_core_current_state_create"
    "(\<lambda>s. core_op_step current (Inr s)) = apply_core_current_state_spend current"
    by (simp_all add: core_op_step_def fun_eq_iff)
  have "apply_core_current_state_application current a m
      = fold_res (core_op_step current) (map Inl (ca_utxo_creates a) @ map Inr (ca_utxo_spends a)) m"
    for a m
    unfolding fold_res_append fold_res_map steps apply_core_current_state_application_def ..
  then have "apply_core_current_state_application current = (\<lambda>a. fold_res (core_op_step current)
      (map Inl (ca_utxo_creates a) @ map Inr (ca_utxo_spends a)))"
    by (intro ext)
  then show ?thesis
    unfolding apply_core_current_state_mutations_def window_ops_def fold_res_concat [symmetric]
    by simp
qed

definition op_creates :: "core_op list \<Rightarrow> string list" where
  "op_creates ops = concat (map (case_sum (\<lambda>o'. [uo_output_key o']) (\<lambda>_. [])) ops)"

definition op_spends :: "core_op list \<Rightarrow> string list" where
  "op_spends ops = concat (map (case_sum (\<lambda>_. []) (\<lambda>s. [us_output_key s])) ops)"

lemma op_keys_simps [simp]:
  "op_creates [] = []" "op_creates (Inl o' # ops) = uo_output_key o' # op_creates ops"
  "op_creates (Inr s # ops) = op_creates ops"
  "op_spends [] = []" "op_spends (Inl o' # ops) = op_spends ops"
  "op_spends (Inr s # ops) = us_output_key s # op_spends ops"
  by (simp_all add: op_creates_def op_spends_def)

lemma window_ops_keys:
  "op_creates (window_ops apps) = created_keys apps" "op_spends (window_ops apps) = spent_keys apps"
proof -
  have app: "op_creates (ops @ ops') = op_creates ops @ op_creates ops'"
    "op_spends (ops @ ops') = op_spends ops @ op_spends ops'" for ops ops'
    by (simp_all add: op_creates_def op_spends_def)
  have inl: "op_creates (map Inl os) = map uo_output_key os" "op_spends (map Inl os) = []" for os
    by (induction os) simp_all
  have inr: "op_creates (map Inr ss) = []" "op_spends (map Inr ss) = map us_output_key ss" for ss
    by (induction ss) simp_all
  show "op_creates (window_ops apps) = created_keys apps" "op_spends (window_ops apps) = spent_keys apps"
    by (induction apps) (simp_all add: window_ops_def created_keys_def spent_keys_def app inl inr)
qed

text \<open>
  What a valid window asks of the table it is applied to: it creates new, unspent outputs, and
  spends, once each, outputs that are unspent.
\<close>

definition ops_valid :: "utxo_map \<Rightarrow> core_op list \<Rightarrow> bool" where
  "ops_valid table ops \<longleftrightarrow>
     distinct (op_creates ops) \<and> distinct (op_spends ops)
     \<and> (\<forall>o'. Inl o' \<in> set ops \<longrightarrow> js_get table (uo_output_key o') = None \<and> uo_spent_by_txid o' = None)
     \<and> (\<forall>k \<in> set (op_spends ops). \<forall>o'. js_get table k = Some o' \<longrightarrow> uo_spent_by_txid o' = None)"

lemma op_creates_mem: "Inl o' \<in> set ops \<Longrightarrow> uo_output_key o' \<in> set (op_creates ops)"
  by (induction ops) (auto simp: op_creates_def)

lemma js_get_view:
  "js_map_ok (cm_next_outputs m) \<Longrightarrow> js_get (view table m) k
     = (case js_get (cm_next_outputs m) k of Some v \<Rightarrow> Some v | None \<Rightarrow> js_get table k)"
  by (simp add: view_def js_get_put_all)

lemma create_step:
  assumes ok: "js_map_ok table" "js_map_ok (cm_next_outputs m)"
    and step: "apply_core_current_state_create o' m = Inr m'"
    and new: "js_get (view table m) (uo_output_key o') = None" "uo_spent_by_txid o' = None"
    and a: "a \<noteq> []"
  shows "address_balance a (view table m') - delta_amount a (cm_balance_deltas m')
       = address_balance a (view table m) - delta_amount a (cm_balance_deltas m)"
    and "js_map_ok (cm_next_outputs m')"
    and "js_get (view table m') = (js_get (view table m))(uo_output_key o' \<mapsto> o')"
proof -
  from step obtain v where v: "js_bigint (uo_value_base o') = Inr v"
    and m': "m' = \<lparr>cm_balance_deltas = add_core_balance_delta o' v (cm_balance_deltas m),
          cm_next_outputs = js_set (uo_output_key o') o' (cm_next_outputs m)\<rparr>"
    by (auto simp: apply_core_current_state_create_def res_simps)
  show "js_map_ok (cm_next_outputs m')" using ok by (simp add: m')
  then show "js_get (view table m') = (js_get (view table m))(uo_output_key o' \<mapsto> o')"
    using ok by (auto simp: js_get_view fun_eq_iff m' js_get_set)
  have "address_balance a (view table m') = address_balance a (view table m) + unspent_value a o'"
    using weight_sum_put_all_set [OF ok(2,1), of "unspent_value a" "uo_output_key o'" o'] new(1)
    by (simp add: address_balance_def view_def m')
  then show "address_balance a (view table m') - delta_amount a (cm_balance_deltas m')
       = address_balance a (view table m) - delta_amount a (cm_balance_deltas m)"
    using a new(2) by (simp add: m' delta_amount_add unspent_value_def big_value_def v)
qed

lemma spend_step:
  assumes ok: "js_map_ok table" "js_map_ok (cm_next_outputs m)"
    and step: "apply_core_current_state_spend current s m = Inr m'"
    and current: "\<And>k o'. js_get current k = Some o' \<Longrightarrow> js_get table k = Some o'"
    and unspent: "\<And>o'. js_get (view table m) (us_output_key s) = Some o' \<Longrightarrow> uo_spent_by_txid o' = None"
    and a: "a \<noteq> []"
  shows "address_balance a (view table m') - delta_amount a (cm_balance_deltas m')
       = address_balance a (view table m) - delta_amount a (cm_balance_deltas m)"
    and "js_map_ok (cm_next_outputs m')"
    and "\<exists>o'. js_get (view table m) (us_output_key s) = Some o'
       \<and> js_get (view table m') = (js_get (view table m))(us_output_key s \<mapsto> spent_core_output o' s)"
proof -
  from step obtain o' v where o': "current_core_output m s current = Inr o'"
    and v: "js_bigint (uo_value_base o') = Inr v"
    and m': "m' = \<lparr>cm_balance_deltas = add_core_balance_delta o' (- v) (cm_balance_deltas m),
          cm_next_outputs = js_set (us_output_key s) (spent_core_output o' s) (cm_next_outputs m)\<rparr>"
    by (auto simp: apply_core_current_state_spend_def res_simps)
  have get: "js_get (view table m) (us_output_key s) = Some o'"
    using o' ok(2) current by (auto simp: current_core_output_def require_current_core_output_def
        js_get_view split: option.splits)
  show ok': "js_map_ok (cm_next_outputs m')" using ok by (simp add: m')
  have "js_get (view table m') = (js_get (view table m))(us_output_key s \<mapsto> spent_core_output o' s)"
    using ok ok' by (auto simp: js_get_view fun_eq_iff m' js_get_set)
  with get show "\<exists>o'. js_get (view table m) (us_output_key s) = Some o'
       \<and> js_get (view table m') = (js_get (view table m))(us_output_key s \<mapsto> spent_core_output o' s)"
    by blast
  have "address_balance a (view table m')
      = address_balance a (view table m) - unspent_value a o' + unspent_value a (spent_core_output o' s)"
    using weight_sum_put_all_set [OF ok(2,1), of "unspent_value a" "us_output_key s"
        "spent_core_output o' s"] get
    by (simp add: address_balance_def view_def m')
  then show "address_balance a (view table m') - delta_amount a (cm_balance_deltas m')
       = address_balance a (view table m) - delta_amount a (cm_balance_deltas m)"
    using a unspent [OF get]
    by (simp add: m' delta_amount_add unspent_value_def spent_core_output_def big_value_def v)
qed

lemma ops_valid_create:
  assumes "ops_valid table (Inl o' # ops)"
  shows "js_get table (uo_output_key o') = None" "uo_spent_by_txid o' = None"
    and "js_get table' = (js_get table)(uo_output_key o' \<mapsto> o') \<Longrightarrow> ops_valid table' ops"
proof -
  have valid: "\<forall>o1. Inl o1 \<in> insert (Inl o') (set ops) \<longrightarrow>
      js_get table (uo_output_key o1) = None \<and> uo_spent_by_txid o1 = None"
    using assms unfolding ops_valid_def list.set by (elim conjE)
  from spec [OF valid, of o']
  show none: "js_get table (uo_output_key o') = None" and un: "uo_spent_by_txid o' = None"
    by simp_all
  assume get: "js_get table' = (js_get table)(uo_output_key o' \<mapsto> o')"
  have fresh: "uo_output_key o1 \<noteq> uo_output_key o'" if "Inl o1 \<in> set ops" for o1
    using assms op_creates_mem [OF that] unfolding ops_valid_def op_keys_simps by auto
  have "\<forall>o1. Inl o1 \<in> set ops \<longrightarrow> js_get table' (uo_output_key o1) = None \<and> uo_spent_by_txid o1 = None"
  proof (intro allI impI)
    fix o1 assume o1: "Inl o1 \<in> set ops"
    then have "js_get table (uo_output_key o1) = None \<and> uo_spent_by_txid o1 = None"
      using valid by blast
    then show "js_get table' (uo_output_key o1) = None \<and> uo_spent_by_txid o1 = None"
      unfolding get using fresh [OF o1] by simp
  qed
  moreover have "\<forall>k \<in> set (op_spends ops). \<forall>o1. js_get table' k = Some o1 \<longrightarrow> uo_spent_by_txid o1 = None"
    unfolding get using assms un by (simp add: ops_valid_def)
  ultimately show "ops_valid table' ops"
    using assms unfolding ops_valid_def op_keys_simps by simp
qed

lemma ops_valid_spend:
  assumes "ops_valid table (Inr s # ops)" and "js_get table (us_output_key s) = Some o'"
  shows "uo_spent_by_txid o' = None"
    and "js_get table' = (js_get table)(us_output_key s \<mapsto> o1) \<Longrightarrow> ops_valid table' ops"
proof -
  show "uo_spent_by_txid o' = None" using assms unfolding ops_valid_def by simp
  assume get: "js_get table' = (js_get table)(us_output_key s \<mapsto> o1)"
  have "\<forall>o2. Inl o2 \<in> set ops \<longrightarrow> js_get table (uo_output_key o2) = None \<and> uo_spent_by_txid o2 = None"
    using assms(1) unfolding ops_valid_def by simp
  moreover from this assms(2) have "uo_output_key o2 \<noteq> us_output_key s" if "Inl o2 \<in> set ops" for o2
    using that by (metis option.distinct(1))
  ultimately have "\<forall>o2. Inl o2 \<in> set ops \<longrightarrow>
      js_get table' (uo_output_key o2) = None \<and> uo_spent_by_txid o2 = None"
    unfolding get by simp
  moreover have "\<forall>k \<in> set (op_spends ops). \<forall>o2. js_get table' k = Some o2 \<longrightarrow> uo_spent_by_txid o2 = None"
    unfolding get using assms(1) unfolding ops_valid_def op_keys_simps by auto
  ultimately show "ops_valid table' ops"
    using assms(1) unfolding ops_valid_def op_keys_simps by simp
qed

lemma ops_balance:
  assumes "fold_res (core_op_step current) ops m = Inr m'"
    and "js_map_ok table" and "js_map_ok (cm_next_outputs m)"
    and "ops_valid (view table m) ops"
    and "\<And>k o'. js_get current k = Some o' \<Longrightarrow> js_get table k = Some o'"
    and "a \<noteq> []"
  shows "address_balance a (view table m') - delta_amount a (cm_balance_deltas m')
       = address_balance a (view table m) - delta_amount a (cm_balance_deltas m)
     \<and> js_map_ok (cm_next_outputs m')"
  using assms(1,3,4)
proof (induction ops arbitrary: m)
  case Nil
  then show ?case by simp
next
  case (Cons op ops)
  from Cons.prems(1) obtain m1 where m1: "core_op_step current op m = Inr m1"
    and rest: "fold_res (core_op_step current) ops m1 = Inr m'"
    by (auto simp: res_simps)
  show ?case
  proof (cases op)
    case (Inl o')
    note step = create_step [OF assms(2) Cons.prems(2), of o' m1 a]
    have app: "apply_core_current_state_create o' m = Inr m1"
      using m1 by (simp add: Inl core_op_step_def)
    note valid = ops_valid_create [OF Cons.prems(3) [unfolded Inl]]
    note facts = step [OF app valid(1,2) assms(6)]
    show ?thesis using Cons.IH [OF rest facts(2) valid(3) [OF facts(3)]] facts(1) by simp
  next
    case (Inr s)
    note step = spend_step [OF assms(2) Cons.prems(2), of current s m1 a]
    note valid = ops_valid_spend [OF Cons.prems(3) [unfolded Inr]]
    have app: "apply_core_current_state_spend current s m = Inr m1"
      using m1 by (simp add: Inr core_op_step_def)
    note facts = step [OF app assms(5) valid(1) assms(6)]
    from facts(3) obtain o' where "js_get (view table m) (us_output_key s) = Some o'"
      and "js_get (view table m1) = (js_get (view table m))(us_output_key s \<mapsto> spent_core_output o' s)"
      by blast
    from valid(2) [OF this] have "ops_valid (view table m1) ops" .
    from Cons.IH [OF rest facts(2) this] show ?thesis using facts(1) by simp
  qed
qed

subsection \<open>The rows written for a window\<close>

definition window_valid :: "utxo_map \<Rightarrow> core_block_application list \<Rightarrow> bool" where
  "window_valid table apps \<longleftrightarrow>
     distinct (created_keys apps) \<and> distinct (spent_keys apps)
     \<and> list_all (\<lambda>a. list_all (\<lambda>o'. js_get table (uo_output_key o') = None
                                  \<and> uo_spent_by_txid o' = None) (ca_utxo_creates a)) apps
     \<and> list_all (\<lambda>k. case js_get table k of None \<Rightarrow> True | Some o' \<Rightarrow> uo_spent_by_txid o' = None)
         (spent_keys apps)"

lemma window_ops_creates: "Inl o' \<in> set (window_ops apps) \<longleftrightarrow> (\<exists>a \<in> set apps. o' \<in> set (ca_utxo_creates a))"
  by (auto simp: window_ops_def)

lemma window_valid_ops: "window_valid table apps \<Longrightarrow> ops_valid table (window_ops apps)"
  unfolding window_valid_def ops_valid_def window_ops_keys window_ops_creates list_all_iff
  by (elim conjE, intro conjI) (simp, simp, blast, simp split: option.splits)

definition deltas_ok :: "balance_deltas \<Rightarrow> bool" where
  "deltas_ok deltas \<longleftrightarrow> js_map_ok deltas
     \<and> (\<forall>(k, d) \<in> set deltas. k = balance_key (bd_address d) [] \<and> bd_address d \<noteq> []
          \<and> bd_asset_address d = [])"

lemma set_update_subset: "set (AList.update k v m) \<subseteq> insert (k, v) (set m)"
  by (induction m) auto

lemma deltas_ok_set:
  assumes "deltas_ok deltas" and "bd_address d \<noteq> []" and "bd_asset_address d = []"
  shows "deltas_ok (js_set (balance_key (bd_address d) []) d deltas)"
proof -
  let ?P = "\<lambda>(k, d). k = balance_key (bd_address d) [] \<and> bd_address d \<noteq> [] \<and> bd_asset_address d = []"
  have "\<forall>x \<in> insert (balance_key (bd_address d) [], d) (set deltas). ?P x"
    using assms by (simp add: deltas_ok_def)
  then have "\<forall>x \<in> set (js_set (balance_key (bd_address d) []) d deltas). ?P x"
    using set_update_subset [of "balance_key (bd_address d) []" d deltas] by (meson subsetD)
  with assms(1) show ?thesis by (simp add: deltas_ok_def)
qed

lemma deltas_ok_add: "deltas_ok deltas \<Longrightarrow> deltas_ok (add_core_balance_delta o' v deltas)"
proof -
  assume ok: "deltas_ok deltas"
  show ?thesis
  proof (cases "is_balance_affecting_core_output o'")
    case False
    then show ?thesis using ok by (simp add: add_core_balance_delta_def)
  next
    case True
    then have ne: "uo_address o' \<noteq> []" by (simp add: is_balance_affecting_core_output_def)
    show ?thesis
    proof (cases "js_get deltas (balance_key (uo_address o') [])")
      case None
      then show ?thesis
        using True ne deltas_ok_set [OF ok, of "\<lparr>bd_address = uo_address o', bd_amount = v,
          bd_asset_address = []\<rparr>"]
        by (simp add: add_core_balance_delta_def apply_core_balance_delta_def)
    next
      case (Some d)
      then have "bd_address d = uo_address o'" "bd_asset_address d = []"
        using ok map_of_SomeD [OF Some] by (auto simp: deltas_ok_def)
      then show ?thesis
        using True ne Some deltas_ok_set [OF ok, of "d\<lparr>bd_amount := bd_amount d + v\<rparr>"]
        by (simp add: add_core_balance_delta_def apply_core_balance_delta_def)
    qed
  qed
qed

lemma mutations_deltas_ok:
  assumes "apply_core_current_state_mutations apps current = Inr m"
  shows "deltas_ok (cm_balance_deltas m)"
  using assms unfolding apply_core_current_state_mutations_ops
proof (rule fold_res_invariant)
  show "deltas_ok (cm_balance_deltas create_core_current_state_mutation)"
    by (simp add: deltas_ok_def create_core_current_state_mutation_def)
  fix op t t'
  assume "deltas_ok (cm_balance_deltas t)" and "core_op_step current op t = Inr t'"
  then show "deltas_ok (cm_balance_deltas t')"
    by (cases op) (auto simp: core_op_step_def apply_core_current_state_create_def
        apply_core_current_state_spend_def res_simps deltas_ok_add)
qed

lemma mutations_next_ok:
  assumes "apply_core_current_state_mutations apps current = Inr m"
  shows "js_map_ok (cm_next_outputs m)"
  using assms unfolding apply_core_current_state_mutations_ops
proof (rule fold_res_invariant)
  show "js_map_ok (cm_next_outputs create_core_current_state_mutation)"
    by (simp add: create_core_current_state_mutation_def)
  fix op t t'
  assume "js_map_ok (cm_next_outputs t)" and "core_op_step current op t = Inr t'"
  then show "js_map_ok (cm_next_outputs t')"
    by (cases op) (auto simp: core_op_step_def apply_core_current_state_create_def
        apply_core_current_state_spend_def res_simps)
qed

definition balance_of :: "balance_rows \<Rightarrow> string \<Rightarrow> int" where
  "balance_of balances a =
     (case js_get balances (balance_key a []) of None \<Rightarrow> 0 | Some b \<Rightarrow> big_value (bs_balance b))"

lemma balance_row_Inr:
  assumes "core_current_balance_row e balances (k, d) = Inr row" and "k = balance_key a []"
  shows "bs_address row = bd_address d
     \<and> big_value (bs_balance row) = balance_of balances a + bd_amount d
     \<and> 0 \<le> balance_of balances a + bd_amount d
     \<and> bs_as_of_block_height row = e \<and> vb_version row = core_current_balance_version e"
proof -
  from assms obtain cur where cur: "core_current_balance_amount balances (balance_key a []) = Inr cur"
    and row: "row = \<lparr>bs_address = bd_address d, bs_asset_address = bd_asset_address d,
        bs_as_of_block_height = e, bs_balance = format_amount_base (cur + bd_amount d),
        vb_version = core_current_balance_version e\<rparr>" and pos: "0 \<le> cur + bd_amount d"
    by (auto simp: core_current_balance_row_def res_simps Let_def split: if_splits)
  have "balance_of balances a = cur"
    using cur by (auto simp: balance_of_def core_current_balance_amount_def big_value_def
        split: option.splits)
  then show ?thesis using pos by (simp add: row big_value_def)
qed

lemma balance_rows_find:
  assumes "map_res (core_current_balance_row e balances) deltas = Inr rows" and "deltas_ok deltas"
  shows "find (\<lambda>r. bs_address r = a) rows = None \<longleftrightarrow> js_get deltas (balance_key a []) = None"
    and "find (\<lambda>r. bs_address r = a) rows = Some row \<Longrightarrow>
      big_value (bs_balance row) = balance_of balances a + delta_amount a deltas
      \<and> bs_as_of_block_height row = e \<and> vb_version row = core_current_balance_version e"
  using assms
proof (induction deltas arbitrary: rows)
  case Nil
  { case 1 then show ?case by simp }
  { case 2 then show ?case by simp }
next
  case (Cons kd deltas)
  obtain k d where kd: "kd = (k, d)" by (cases kd)
  have ok: "deltas_ok deltas" and k: "k = balance_key (bd_address d) []" and fresh: "js_get deltas k = None"
    if "deltas_ok (kd # deltas)"
    using that by (auto simp: deltas_ok_def js_map_ok_def js_keys_def kd map_of_eq_None_iff)
  { case 1
    then obtain row rows' where rows: "rows = row # rows'"
      and row: "core_current_balance_row e balances (k, d) = Inr row"
      and rest: "map_res (core_current_balance_row e balances) deltas = Inr rows'"
      by (auto simp: res_simps kd)
    show ?case
      using balance_row_Inr [OF row k] Cons.IH(1) [OF rest ok] 1(2) k
      by (auto simp: rows kd) }
  { case 2
    then obtain row' rows' where rows: "rows = row' # rows'"
      and row: "core_current_balance_row e balances (k, d) = Inr row'"
      and rest: "map_res (core_current_balance_row e balances) deltas = Inr rows'"
      by (auto simp: res_simps kd)
    show ?case
    proof (cases "bd_address d = a")
      case True
      with 2 balance_row_Inr [OF row k] k show ?thesis
        by (auto simp: rows kd delta_amount_def)
    next
      case False
      with 2(1) balance_row_Inr [OF row k] 2(3) have "find (\<lambda>r. bs_address r = a) rows' = Some row"
        by (auto simp: rows)
      with False 2(3) Cons.IH(2) [OF this rest ok] k show ?thesis
        by (auto simp: kd delta_amount_def)
    qed }
qed

lemma mutations_address_balance:
  assumes "apply_core_current_state_mutations apps current = Inr m"
    and "js_map_ok table" and "window_valid table apps"
    and "\<And>k o'. js_get current k = Some o' \<Longrightarrow> js_get table k = Some o'"
    and "a \<noteq> []"
  shows "address_balance a (jsm.put_all (cm_next_outputs m) table)
       = address_balance a table + delta_amount a (cm_balance_deltas m)"
proof -
  let ?init = create_core_current_state_mutation
  have init: "view table ?init = table" "js_map_ok (cm_next_outputs ?init)" "cm_balance_deltas ?init = []"
    by (simp_all add: view_def create_core_current_state_mutation_def)
  have "address_balance a (view table m) - delta_amount a (cm_balance_deltas m)
      = address_balance a (view table ?init) - delta_amount a (cm_balance_deltas ?init)"
    using ops_balance [OF assms(1) [unfolded apply_core_current_state_mutations_ops] assms(2) init(2) _ assms(4,5)]
      window_valid_ops [OF assms(3)] unfolding init(1) by blast
  then show ?thesis unfolding init view_def [of table m] by simp
qed

definition nonneg_outputs :: "utxo_output set \<Rightarrow> bool" where
  "nonneg_outputs os \<longleftrightarrow> (\<forall>o' \<in> os. 0 \<le> big_value (uo_value_base o'))"

lemma snd_set_update: "snd ` set (AList.update k v m) \<subseteq> insert v (snd ` set m)"
  by (induction m) auto

lemma nonneg_outputs_set:
  "nonneg_outputs (snd ` set m) \<Longrightarrow> 0 \<le> big_value (uo_value_base v) \<Longrightarrow>
     nonneg_outputs (snd ` set (js_set k v m))"
proof -
  assume "nonneg_outputs (snd ` set m)" and "0 \<le> big_value (uo_value_base v)"
  then have "\<forall>o' \<in> insert v (snd ` set m). 0 \<le> big_value (uo_value_base o')"
    by (simp add: nonneg_outputs_def)
  then show ?thesis
    using snd_set_update [of k v m] unfolding nonneg_outputs_def by (meson subsetD)
qed

lemma nonneg_put_all:
  "nonneg_outputs (snd ` set n) \<Longrightarrow> nonneg_outputs (snd ` set m) \<Longrightarrow>
     nonneg_outputs (snd ` set (jsm.put_all n m))"
proof (induction n arbitrary: m)
  case Nil
  then show ?case by simp
next
  case (Cons e n)
  obtain k v where e: "e = (k, v)" by (cases e)
  have n: "nonneg_outputs (snd ` set n)" and v: "0 \<le> big_value (uo_value_base v)"
    using Cons.prems(1) by (simp_all add: nonneg_outputs_def e)
  from Cons.IH [OF n nonneg_outputs_set [OF Cons.prems(2) v]] show ?case unfolding e jsm.put_all_simps .
qed

lemma mutations_nonneg:
  assumes "apply_core_current_state_mutations apps current = Inr m"
    and "nonneg_outputs (snd ` set current)"
    and "\<forall>a \<in> set apps. nonneg_outputs (set (ca_utxo_creates a))"
  shows "nonneg_outputs (snd ` set (cm_next_outputs m))"
  using assms(1) unfolding apply_core_current_state_mutations_ops
proof (rule fold_res_invariant)
  show "nonneg_outputs (snd ` set (cm_next_outputs create_core_current_state_mutation))"
    by (simp add: create_core_current_state_mutation_def nonneg_outputs_def)
next
  fix op t t'
  assume op: "op \<in> set (window_ops apps)" and inv: "nonneg_outputs (snd ` set (cm_next_outputs t))"
    and step: "core_op_step current op t = Inr t'"
  show "nonneg_outputs (snd ` set (cm_next_outputs t'))"
  proof (cases op)
    case (Inl o')
    then have "0 \<le> big_value (uo_value_base o')"
      using op assms(3) by (auto simp: window_ops_creates nonneg_outputs_def)
    then show ?thesis using step inv nonneg_outputs_set
      by (auto simp: Inl core_op_step_def apply_core_current_state_create_def res_simps)
  next
    case (Inr s)
    then obtain o' where o': "current_core_output t s current = Inr o'"
      and next': "cm_next_outputs t' = js_set (us_output_key s) (spent_core_output o' s) (cm_next_outputs t)"
      using step by (auto simp: core_op_step_def apply_core_current_state_spend_def res_simps)
    have "o' \<in> snd ` set (cm_next_outputs t) \<union> snd ` set current"
      using o' by (force simp: current_core_output_def require_current_core_output_def
          dest: map_of_SomeD split: option.splits)
    then have "0 \<le> big_value (uo_value_base (spent_core_output o' s))"
      using inv assms(2) by (auto simp: nonneg_outputs_def spent_core_output_def)
    then show ?thesis using inv nonneg_outputs_set by (simp add: next')
  qed
qed

lemma address_balance_nonneg:
  "nonneg_outputs (snd ` set table) \<Longrightarrow> 0 \<le> address_balance a table"
  unfolding address_balance_def weight_sum_def
  by (rule sum_list_nonneg) (auto simp: nonneg_outputs_def unspent_value_def)

text \<open>
  C4. Consistent balances never go negative: when values are non-negative, the window is
  valid and the stored balances are those of the table and parse, the only way the balance
  update fails is through the output update; the "negative balance" error cannot occur.
\<close>

theorem core_window_never_negative:
  assumes "apply_core_current_state_mutations apps prevouts = Inr m"
    and "js_map_ok table" and "window_valid table apps"
    and "\<And>k o'. js_get prevouts k = Some o' \<Longrightarrow> js_get table k = Some o'"
    and "nonneg_outputs (snd ` set table)" and "nonneg_outputs (snd ` set prevouts)"
    and "\<forall>a \<in> set apps. nonneg_outputs (set (ca_utxo_creates a))"
    and "load (js_keys (cm_balance_deltas m)) = Inr balances"
    and "\<forall>(k, b) \<in> set balances. is_ok (js_bigint (bs_balance b))"
    and "\<And>a. balance_key a [] \<in> set (js_keys (cm_balance_deltas m)) \<Longrightarrow>
           balance_of balances a = address_balance a table"
    and "0 \<le> core_window_end apps"
  shows "\<exists>w. build_core_current_state_window apps prevouts load = Inr (Some w)
           \<and> cw_next_outputs w = cm_next_outputs m"
proof -
  let ?e = "core_window_end apps"
  have row: "\<exists>row. core_current_balance_row ?e balances (k, d) = Inr row"
    if kd: "(k, d) \<in> set (cm_balance_deltas m)" for k d
  proof -
    have k: "k = balance_key (bd_address d) []" and ne: "bd_address d \<noteq> []"
      using mutations_deltas_ok [OF assms(1)] kd by (auto simp: deltas_ok_def)
    have delta: "delta_amount (bd_address d) (cm_balance_deltas m) = bd_amount d"
      using mutations_deltas_ok [OF assms(1)] kd
      by (auto simp: delta_amount_def deltas_ok_def js_map_ok_def js_keys_def k [symmetric])
    obtain cur where cur: "core_current_balance_amount balances k = Inr cur"
      using assms(9) by (force simp: core_current_balance_amount_def is_ok_iff
          dest: map_of_SomeD split: option.splits)
    have "cur = balance_of balances (bd_address d)"
      using cur by (auto simp: balance_of_def core_current_balance_amount_def big_value_def k
          split: option.splits)
    also have "\<dots> = address_balance (bd_address d) table"
      using kd by (intro assms(10)) (force simp: js_keys_def k [symmetric])
    finally have "cur + bd_amount d
        = address_balance (bd_address d) (jsm.put_all (cm_next_outputs m) table)"
      using mutations_address_balance [OF assms(1,2,3,4) ne] delta by simp
    also have "\<dots> \<ge> 0"
      using mutations_nonneg [OF assms(1,6,7)] assms(5)
      by (intro address_balance_nonneg nonneg_put_all)
    finally show ?thesis by (simp add: core_current_balance_row_def cur Let_def)
  qed
  have "\<exists>rows. map_res (core_current_balance_row ?e balances) ds = Inr rows"
    if "set ds \<subseteq> set (cm_balance_deltas m)" for ds
    using that
  proof (induction ds)
    case (Cons e ds)
    then obtain rows where rows: "map_res (core_current_balance_row ?e balances) ds = Inr rows"
      by auto
    obtain k d where e: "e = (k, d)" by (cases e)
    with Cons.prems row [of k d] obtain r where "core_current_balance_row ?e balances e = Inr r"
      by auto
    with rows show ?case by simp
  qed simp
  then obtain rows where "map_res (core_current_balance_row ?e balances) (cm_balance_deltas m) = Inr rows"
    by blast
  then show ?thesis
    using assms(1,8,11)
    by (simp add: build_core_current_state_window_def Let_def core_current_balance_rows_def)
qed

subsection \<open>The movement ledger\<close>

definition ledger_delta :: "address_movement \<Rightarrow> int" where
  "ledger_delta mv =
     (let v = big_value (am_amount_base mv) in if am_direction mv = Credit then v else - v)"

definition window_ledger :: "core_block_application list \<Rightarrow> utxo_map \<Rightarrow> address_movement list" where
  "window_ledger apps current =
     concat (map (\<lambda>a. core_application_address_movements a (core_created_outputs_by_key apps) current) apps)"

definition ledger_sum :: "string \<Rightarrow> address_movement list \<Rightarrow> int" where
  "ledger_sum a mvs = sum_list (map ledger_delta (filter (\<lambda>mv. am_address mv = a) mvs))"

definition output_share :: "string \<Rightarrow> utxo_output \<Rightarrow> int" where
  "output_share a o' =
     (if uo_is_spendable o' \<and> uo_address o' = a then big_value (uo_value_base o') else 0)"

definition op_share :: "utxo_map \<Rightarrow> utxo_map \<Rightarrow> string \<Rightarrow> core_op \<Rightarrow> int" where
  "op_share created current a op =
     (case op of
        Inl o' \<Rightarrow> output_share a o'
      | Inr s \<Rightarrow> - (case lookup_output created current (us_output_key s) of
                     None \<Rightarrow> 0 | Some o' \<Rightarrow> output_share a o'))"

lemma ledger_sum_simps [simp]:
  "ledger_sum a [] = 0" "ledger_sum a (mvs @ mvs') = ledger_sum a mvs + ledger_sum a mvs'"
  by (simp_all add: ledger_sum_def)

lemma ledger_sum_concat: "ledger_sum a (concat mvss) = sum_list (map (ledger_sum a) mvss)"
  by (induction mvss) simp_all

lemma ledger_sum_create:
  "a \<noteq> [] \<Longrightarrow> ledger_sum a (core_create_address_movement o') = output_share a o'"
  by (auto simp: core_create_address_movement_def is_core_address_movement_output_def
      ledger_sum_def ledger_delta_def output_share_def)

lemma ledger_sum_spend:
  "a \<noteq> [] \<Longrightarrow> ledger_sum a (core_spend_address_movement app s created current)
     = op_share created current a (Inr s)"
  by (auto simp: core_spend_address_movement_def is_core_address_movement_output_def
      ledger_sum_def ledger_delta_def output_share_def op_share_def split: option.splits)

lemma ledger_sum_window:
  assumes "a \<noteq> []"
  shows "ledger_sum a (window_ledger apps current)
    = sum_list (map (op_share (core_created_outputs_by_key apps) current a) (window_ops apps))"
proof -
  have "ledger_sum a (core_application_address_movements app created current)
      = sum_list (map (op_share created current a)
          (map Inl (ca_utxo_creates app) @ map Inr (ca_utxo_spends app)))" for app created
    using assms
    by (simp add: core_application_address_movements_def ledger_sum_concat comp_def
        ledger_sum_create ledger_sum_spend) (simp add: op_share_def)
  then have "ledger_sum a (concat (map (\<lambda>app. core_application_address_movements app created current) as))
      = sum_list (map (op_share created current a) (window_ops as))" for as created
    by (induction as) (simp_all add: window_ops_def)
  then show ?thesis by (simp add: window_ledger_def)
qed

definition same_share :: "utxo_output \<Rightarrow> utxo_output \<Rightarrow> bool" where
  "same_share x y \<longleftrightarrow> uo_is_spendable x = uo_is_spendable y \<and> uo_address x = uo_address y
     \<and> uo_value_base x = uo_value_base y"

definition ledger_inv :: "utxo_map \<Rightarrow> utxo_map \<Rightarrow> core_current_state_mutation \<Rightarrow> bool" where
  "ledger_inv created current m \<longleftrightarrow>
     (\<forall>k x. js_get (cm_next_outputs m) k = Some x \<longrightarrow>
        (\<exists>y. lookup_output created current k = Some y \<and> same_share x y))"

text \<open>Whether an operation books a movement of the address.\<close>

definition op_books :: "utxo_map \<Rightarrow> utxo_map \<Rightarrow> string \<Rightarrow> core_op \<Rightarrow> bool" where
  "op_books created current a op =
     (case op of
        Inl o' \<Rightarrow> uo_is_spendable o' \<and> uo_address o' = a
      | Inr s \<Rightarrow> (case lookup_output created current (us_output_key s) of
                   None \<Rightarrow> False | Some o' \<Rightarrow> uo_is_spendable o' \<and> uo_address o' = a))"

abbreviation has_delta :: "string \<Rightarrow> core_current_state_mutation \<Rightarrow> bool" where
  "has_delta a m \<equiv> js_get (cm_balance_deltas m) (balance_key a []) \<noteq> None"

lemma has_delta_add:
  "a \<noteq> [] \<Longrightarrow> js_get (add_core_balance_delta o' v deltas) (balance_key a []) = None \<longleftrightarrow>
     js_get deltas (balance_key a []) = None \<and> \<not> (uo_is_spendable o' \<and> uo_address o' = a)"
  by (auto simp: add_core_balance_delta_def is_balance_affecting_core_output_def apply_core_balance_delta_def
      balance_key_def js_get_set split: option.splits)

lemma ledger_addresses:
  assumes "a \<noteq> []"
  shows "a \<in> am_address ` set (window_ledger apps current)
    \<longleftrightarrow> (\<exists>op \<in> set (window_ops apps). op_books (core_created_outputs_by_key apps) current a op)"
proof -
  let ?created = "core_created_outputs_by_key apps"
  have create: "a \<in> am_address ` set (core_create_address_movement o') \<longleftrightarrow> op_books ?created current a (Inl o')" for o'
    using assms by (auto simp: core_create_address_movement_def is_core_address_movement_output_def op_books_def)
  have spend: "a \<in> am_address ` set (core_spend_address_movement app s ?created current)
      \<longleftrightarrow> op_books ?created current a (Inr s)" for app s
    using assms
    by (cases "lookup_output ?created current (us_output_key s)")
      (auto simp: core_spend_address_movement_def is_core_address_movement_output_def op_books_def image_iff)
  have "a \<in> am_address ` set (core_application_address_movements app ?created current)
      \<longleftrightarrow> (\<exists>o' \<in> set (ca_utxo_creates app). op_books ?created current a (Inl o'))
        \<or> (\<exists>s \<in> set (ca_utxo_spends app). op_books ?created current a (Inr s))" for app
    unfolding core_application_address_movements_def set_append image_Un Un_iff set_concat set_map image_UN UN_iff
    using create spend by blast
  then show ?thesis by (auto simp: window_ledger_def window_ops_def image_UN)
qed

lemma ledger_op_step:
  assumes "core_op_step current op m = Inr m'" and "ledger_inv created current m"
    and "\<And>o'. op = Inl o' \<Longrightarrow> js_get created (uo_output_key o') = Some o'"
    and "\<And>k o'. js_get current k = Some o' \<Longrightarrow> js_get created k = None"
    and "a \<noteq> []"
  shows "ledger_inv created current m'
    \<and> delta_amount a (cm_balance_deltas m')
        = delta_amount a (cm_balance_deltas m) + op_share created current a op
    \<and> (has_delta a m' \<longleftrightarrow> has_delta a m \<or> op_books created current a op)"
proof (cases op)
  case (Inl o')
  then obtain v where v: "js_bigint (uo_value_base o') = Inr v"
    and m': "m' = \<lparr>cm_balance_deltas = add_core_balance_delta o' v (cm_balance_deltas m),
          cm_next_outputs = js_set (uo_output_key o') o' (cm_next_outputs m)\<rparr>"
    using assms(1) by (auto simp: core_op_step_def apply_core_current_state_create_def res_simps)
  have "lookup_output created current (uo_output_key o') = Some o'"
    using assms(3) [OF Inl] by (simp add: lookup_output_def)
  then have "ledger_inv created current m'"
    using assms(2) unfolding ledger_inv_def m' by (simp add: js_get_set same_share_def)
  then show ?thesis
    using assms(5)
    by (simp add: m' delta_amount_add Inl op_share_def output_share_def big_value_def v has_delta_add op_books_def)
next
  case (Inr s)
  then obtain o' v where o': "current_core_output m s current = Inr o'"
    and v: "js_bigint (uo_value_base o') = Inr v"
    and m': "m' = \<lparr>cm_balance_deltas = add_core_balance_delta o' (- v) (cm_balance_deltas m),
          cm_next_outputs = js_set (us_output_key s) (spent_core_output o' s) (cm_next_outputs m)\<rparr>"
    using assms(1) by (auto simp: core_op_step_def apply_core_current_state_spend_def res_simps)
  have "\<exists>y. lookup_output created current (us_output_key s) = Some y \<and> same_share o' y"
  proof (cases "js_get (cm_next_outputs m) (us_output_key s)")
    case None
    then have "js_get current (us_output_key s) = Some o'"
      using o' by (simp add: current_core_output_def require_current_core_output_def split: option.splits)
    then show ?thesis using assms(4) by (simp add: lookup_output_def same_share_def)
  next
    case (Some x)
    then show ?thesis using o' assms(2) by (simp add: current_core_output_def ledger_inv_def)
  qed
  then obtain y where y: "lookup_output created current (us_output_key s) = Some y" "same_share o' y"
    by blast
  then have "same_share (spent_core_output o' s) y" by (simp add: same_share_def spent_core_output_def)
  with y have "ledger_inv created current m'"
    using assms(2) unfolding ledger_inv_def m' by (simp add: js_get_set)
  moreover have "big_value (uo_value_base y) = v" using y v by (simp add: same_share_def big_value_def)
  ultimately show ?thesis
    using assms(5) y
    by (simp add: m' delta_amount_add Inr op_share_def output_share_def same_share_def has_delta_add op_books_def)
qed

lemma ledger_ops:
  assumes "fold_res (core_op_step current) ops m = Inr m'" and "ledger_inv created current m"
    and "\<And>o'. Inl o' \<in> set ops \<Longrightarrow> js_get created (uo_output_key o') = Some o'"
    and "\<And>k o'. js_get current k = Some o' \<Longrightarrow> js_get created k = None"
    and "a \<noteq> []"
  shows "delta_amount a (cm_balance_deltas m')
      = delta_amount a (cm_balance_deltas m) + sum_list (map (op_share created current a) ops)
    \<and> (has_delta a m' \<longleftrightarrow> has_delta a m \<or> (\<exists>op \<in> set ops. op_books created current a op))"
  using assms(1,2,3)
proof (induction ops arbitrary: m)
  case Nil
  then show ?case by simp
next
  case (Cons op ops)
  from Cons.prems(1) obtain m1 where m1: "core_op_step current op m = Inr m1"
    and rest: "fold_res (core_op_step current) ops m1 = Inr m'"
    by (auto simp: res_simps)
  have hd: "js_get created (uo_output_key o') = Some o'" if "op = Inl o'" for o'
    using Cons.prems(3) [of o'] that by simp
  have tl: "js_get created (uo_output_key o') = Some o'" if "Inl o' \<in> set ops" for o'
    using Cons.prems(3) [of o'] that by simp
  note step = ledger_op_step [OF m1 Cons.prems(2) hd assms(4,5)]
  from Cons.IH [OF rest conjunct1 [OF step] tl] step show ?case by auto
qed

lemma created_outputs_get:
  assumes "distinct (created_keys apps)"
  shows "app \<in> set apps \<Longrightarrow> o' \<in> set (ca_utxo_creates app) \<Longrightarrow>
      js_get (core_created_outputs_by_key apps) (uo_output_key o') = Some o'"
    and "js_get (core_created_outputs_by_key apps) k = Some x \<Longrightarrow> k \<in> set (created_keys apps)"
proof -
  let ?es = "map (\<lambda>o'. (uo_output_key o', o')) (concat (map ca_utxo_creates apps))"
  have keys: "map fst ?es = created_keys apps"
    by (simp add: created_keys_def map_concat comp_def)
  have get: "js_get (core_created_outputs_by_key apps) = map_of ?es"
    using map_of_rev_distinct [of ?es] assms unfolding keys core_created_outputs_by_key_def
    by (intro ext) (simp only: js_get_map_of)
  show "app \<in> set apps \<Longrightarrow> o' \<in> set (ca_utxo_creates app) \<Longrightarrow>
      js_get (core_created_outputs_by_key apps) (uo_output_key o') = Some o'"
  proof -
    assume "app \<in> set apps" and "o' \<in> set (ca_utxo_creates app)"
    then have "(uo_output_key o', o') \<in> set ?es" by auto
    then show "js_get (core_created_outputs_by_key apps) (uo_output_key o') = Some o'"
      unfolding get using assms by (intro map_of_is_SomeI) (simp_all only: keys)
  qed
  show "js_get (core_created_outputs_by_key apps) k = Some x \<Longrightarrow> k \<in> set (created_keys apps)"
  proof -
    assume "js_get (core_created_outputs_by_key apps) k = Some x"
    then have "(k, x) \<in> set ?es" unfolding get by (rule map_of_SomeD)
    then have "k \<in> set (map fst ?es)" by force
    then show "k \<in> set (created_keys apps)" unfolding keys .
  qed
qed

lemma window_ledger_deltas:
  assumes "apply_core_current_state_mutations apps prevouts = Inr m"
    and "distinct (created_keys apps)"
    and "\<forall>k \<in> set (js_keys prevouts). k \<notin> set (created_keys apps)"
    and "a \<noteq> []"
  shows "ledger_sum a (window_ledger apps prevouts) = delta_amount a (cm_balance_deltas m)
    \<and> (has_delta a m \<longleftrightarrow> a \<in> am_address ` set (window_ledger apps prevouts))"
proof -
  let ?created = "core_created_outputs_by_key apps" and ?init = create_core_current_state_mutation
  have "ledger_inv ?created prevouts ?init"
    by (simp add: ledger_inv_def create_core_current_state_mutation_def)
  moreover have "js_get ?created (uo_output_key o') = Some o'" if "Inl o' \<in> set (window_ops apps)" for o'
    using that created_outputs_get(1) [OF assms(2)] by (auto simp: window_ops_creates)
  moreover have "js_get ?created k = None" if "js_get prevouts k = Some o'" for k o'
  proof (rule ccontr)
    assume "js_get ?created k \<noteq> None"
    then obtain x where "js_get ?created k = Some x" by blast
    moreover have "k \<in> set (js_keys prevouts)" using that by (simp add: in_js_keys)
    ultimately show False using created_outputs_get(2) [OF assms(2)] assms(3) by blast
  qed
  ultimately have "delta_amount a (cm_balance_deltas m) = delta_amount a (cm_balance_deltas ?init)
        + sum_list (map (op_share ?created prevouts a) (window_ops apps))
      \<and> (has_delta a m \<longleftrightarrow> has_delta a ?init \<or> (\<exists>op \<in> set (window_ops apps). op_books ?created prevouts a op))"
    using ledger_ops [OF assms(1) [unfolded apply_core_current_state_mutations_ops]] assms(4) by blast
  then show ?thesis
    using ledger_sum_window [OF assms(4)] ledger_addresses [OF assms(4)]
    by (simp add: create_core_current_state_mutation_def)
qed

text \<open>
  C3. Incremental balances are recomputed balances. When a valid window is applied to a table of
  outputs and the loader answers with the balances of that table, a balance row is written for
  exactly the addresses that have a movement in the window's ledger, also when the movements cancel
  out. The balance of the row is the sum of the unspent spendable outputs of the address after the
  window, its height is the end of the window and its version twice that plus one; an address without a
  row keeps the sum it had.
\<close>

theorem core_window_balances_recomputed:
  assumes "build_core_current_state_window apps prevouts load = Inr (Some w)"
    and "js_map_ok table" and "window_valid table apps"
    and "\<And>k o'. js_get prevouts k = Some o' \<Longrightarrow> js_get table k = Some o'"
    and "\<And>keys balances b. load keys = Inr balances \<Longrightarrow> balance_key b [] \<in> set keys \<Longrightarrow>
           balance_of balances b = address_balance b table"
    and "a \<noteq> []"
  shows "case find (\<lambda>r. bs_address r = a) (cw_next_balances w) of
           Some row \<Rightarrow>
             a \<in> am_address ` set (window_ledger apps prevouts)
             \<and> big_value (bs_balance row)
               = address_balance a (jsm.put_all (cw_next_outputs w) table)
             \<and> bs_as_of_block_height row = core_window_end apps
             \<and> vb_version row = core_window_end apps * 2 + 1
         | None \<Rightarrow>
             a \<notin> am_address ` set (window_ledger apps prevouts)
             \<and> address_balance a (jsm.put_all (cw_next_outputs w) table) = address_balance a table"
proof -
  from assms(1) obtain m balances rows where m: "apply_core_current_state_mutations apps prevouts = Inr m"
    and load: "load (js_keys (cm_balance_deltas m)) = Inr balances"
    and rows: "map_res (core_current_balance_row (core_window_end apps) balances) (cm_balance_deltas m)
        = Inr rows"
    and w: "w = \<lparr>cw_next_balances = rows, cw_next_outputs = cm_next_outputs m,
                cw_window_end = core_window_end apps\<rparr>"
    by (auto simp: build_core_current_state_window_def Let_def res_simps core_current_balance_rows_def
        split: if_splits)
  note after = mutations_address_balance [OF m assms(2,3,4,6)]
  note found = balance_rows_find [OF rows mutations_deltas_ok [OF m], of a]
  have "js_get table k = None" if "k \<in> set (created_keys apps)" for k
    using that assms(3) by (auto simp: window_valid_def created_keys_def list_all_iff)
  then have "\<forall>k \<in> set (js_keys prevouts). k \<notin> set (created_keys apps)"
    using assms(4) by (metis in_js_keys not_None_eq option.distinct(1))
  moreover have "distinct (created_keys apps)" using assms(3) by (simp add: window_valid_def)
  ultimately have booked: "has_delta a m \<longleftrightarrow> a \<in> am_address ` set (window_ledger apps prevouts)"
    using window_ledger_deltas [OF m] assms(6) by blast
  show ?thesis
  proof (cases "find (\<lambda>r. bs_address r = a) rows")
    case None
    then have "delta_amount a (cm_balance_deltas m) = 0" using found(1) by (simp add: delta_amount_def)
    then show ?thesis using None after booked found(1) by (simp add: w)
  next
    case (Some row)
    then have "has_delta a m" using found(1) by simp
    then have "balance_key a [] \<in> set (js_keys (cm_balance_deltas m))" by (simp add: in_js_keys)
    then show ?thesis
      using Some found(2) [OF Some] after assms(5) [OF load] booked \<open>has_delta a m\<close>
      by (simp add: w core_current_balance_version_def core_current_spend_version_def)
  qed
qed

text \<open>
  C18. The movement ledger and the balances cannot drift apart: the movements written for a
  window sum, per address, to exactly the delta by which the balance of the address is
  changed.
\<close>

theorem core_window_ledger_agrees:
  assumes "apply_core_current_state_mutations apps prevouts = Inr m"
    and "distinct (created_keys apps)"
    and "\<forall>k \<in> set (js_keys prevouts). k \<notin> set (created_keys apps)"
    and "a \<noteq> []"
  shows "ledger_sum a (window_ledger apps prevouts) = delta_amount a (cm_balance_deltas m)"
  using window_ledger_deltas [OF assms] by (rule conjunct1)

section \<open>Witnesses\<close>

definition sample_application :: core_block_application where
  "sample_application =
     \<lparr>ca_block_hash = ''h2'', ca_block_height = 2, ca_block_time = 20,
      ca_previous_block_hash = Some ''h1'', ca_raw_storage_key = ''block'', ca_tx_count = 1,
      ca_utxo_creates = [sample_output ''u:0'' ''5''],
      ca_utxo_spends = [\<lparr>us_output_key = ''t:0'', us_spent_by_txid = ''u'',
        us_spent_in_block = 2, us_spent_input_index = 0\<rparr>]\<rparr>"

definition sample_mutation :: core_current_state_mutation where
  "sample_mutation =
     \<lparr>cm_balance_deltas = [(''DA:'', \<lparr>bd_address = ''DA'', bd_amount = - 2, bd_asset_address = []\<rparr>)],
      cm_next_outputs = [(''u:0'', sample_output ''u:0'' ''5''),
        (''t:0'', (sample_output ''t:0'' ''7'')\<lparr>uo_spent_by_txid := Some ''u'',
           uo_spent_in_block := Some 2, uo_spent_input_index := Some 0\<rparr>)]\<rparr>"

definition sample_rows :: balance_rows where
  "sample_rows = [(''DA:'', \<lparr>bs_address = ''DA'', bs_asset_address = [],
     bs_as_of_block_height = 1, bs_balance = ''7''\<rparr>)]"

lemma sample_values [simp]: "js_bigint ''5'' = Inr 5" "js_bigint ''7'' = Inr 7"
  using js_bigint_digits [of "''5''"] js_bigint_digits [of "''7''"] by (simp_all add: str_eval)

lemma sample_mutation_computed:
  "apply_core_current_state_mutations [sample_application] sample_store = Inr sample_mutation"
  by (simp add: apply_core_current_state_mutations_def apply_core_current_state_application_def
      apply_core_current_state_create_def apply_core_current_state_spend_def
      create_core_current_state_mutation_def current_core_output_def
      require_current_core_output_def spent_core_output_def add_core_balance_delta_def
      apply_core_balance_delta_def is_balance_affecting_core_output_def balance_key_def
      sample_application_def sample_store_def sample_mutation_def sample_output_def)

lemma sample_window_facts:
  "js_map_ok sample_store" "window_valid sample_store [sample_application]"
  "distinct (created_keys [sample_application])"
  "\<forall>k \<in> set (js_keys sample_store). k \<notin> set (created_keys [sample_application])"
  "nonneg_outputs (snd ` set sample_store)"
  "\<forall>a \<in> set [sample_application]. nonneg_outputs (set (ca_utxo_creates a))"
  by (simp_all add: js_map_ok_def js_keys_def sample_store_def window_valid_def created_keys_def
      spent_keys_def sample_application_def sample_output_def nonneg_outputs_def big_value_def)

lemma sample_address_balance: "address_balance a sample_store = (if a = ''DA'' then 7 else 0)"
  by (simp add: address_balance_def sample_store_def unspent_value_def sample_output_def big_value_def)

lemma sample_balance_of: "balance_of sample_rows a = (if a = ''DA'' then 7 else 0)"
  using balance_key_inject [of a "[]" "''DA''"]
  by (simp add: balance_of_def sample_rows_def big_value_def balance_key_def)

theorem pending_core_window_correct_witness:
  "pending_core_window_applications [sample_application] [(2, ''other'')]
     = Inr (Some 2, [sample_application])"
  using pending_core_window_correct [of "[sample_application]" "[(2, ''other'')]"]
  by (simp add: agrees_def sample_application_def Cons_eq_append_conv)

theorem core_window_never_negative_witness:
  "\<exists>w. build_core_current_state_window [sample_application] sample_store (\<lambda>_. Inr sample_rows)
       = Inr (Some w) \<and> cw_next_outputs w = cm_next_outputs sample_mutation"
  by (rule core_window_never_negative [OF sample_mutation_computed sample_window_facts(1,2) _
        sample_window_facts(5,5,6), where balances = sample_rows])
    (simp_all add: sample_rows_def core_window_end_def sample_application_def,
     simp add: sample_balance_of sample_address_balance flip: sample_rows_def)

lemma sample_window_built:
  "build_core_current_state_window [sample_application] sample_store (\<lambda>_. Inr sample_rows)
     = Inr (Some \<lparr>cw_next_balances = [\<lparr>bs_address = ''DA'', bs_asset_address = [],
          bs_as_of_block_height = 2, bs_balance = ''5'', vb_version = 5\<rparr>],
        cw_next_outputs = cm_next_outputs sample_mutation, cw_window_end = 2\<rparr>)"
proof -
  have "core_window_end [sample_application] = 2"
    by (simp add: core_window_end_def sample_application_def)
  moreover have "core_current_balance_rows 2 (cm_balance_deltas sample_mutation) sample_rows
      = Inr [\<lparr>bs_address = ''DA'', bs_asset_address = [], bs_as_of_block_height = 2,
              bs_balance = ''5'', vb_version = 5\<rparr>]"
    by (simp add: core_current_balance_rows_def core_current_balance_row_def Let_def
        core_current_balance_amount_def core_current_balance_version_def
        core_current_spend_version_def format_amount_base_def sample_mutation_def sample_rows_def
        str_eval)
  ultimately show ?thesis
    by (simp add: build_core_current_state_window_def sample_mutation_computed)
qed

theorem core_window_balances_recomputed_witness:
  "address_balance ''DA'' (jsm.put_all (cm_next_outputs sample_mutation) sample_store) = 5"
proof -
  have agree: "\<And>keys balances b. Inr sample_rows = Inr balances \<Longrightarrow> balance_key b [] \<in> set keys \<Longrightarrow>
           balance_of balances b = address_balance b sample_store"
    by (simp add: sample_balance_of sample_address_balance)
  from core_window_balances_recomputed [OF sample_window_built sample_window_facts(1,2) _ agree,
      where a = "''DA''"]
  show ?thesis by (simp add: big_value_def)
qed

theorem core_window_ledger_agrees_witness:
  "ledger_sum ''DA'' (window_ledger [sample_application] sample_store) = - 2"
  using core_window_ledger_agrees [OF sample_mutation_computed sample_window_facts(3,4), of "''DA''"]
  by (simp add: delta_amount_def sample_mutation_def balance_key_def)

end
