(* ===== verification/Memory_Warehouse.thy ===== *)
theory Memory_Warehouse
  imports Core_State
begin

text \<open>
  The in-memory warehouse: \<^verbatim>\<open>InMemoryWarehouseAdapter\<close> of \<^verbatim>\<open>platform/src/warehouse.ts\<close> and
  \<^verbatim>\<open>warehouse-state.ts\<close>.

  The adapter's fields are the record \<open>warehouse\<close>; a method is a function of the state, and a
  method that may throw returns a \<open>res\<close> (the state an exception leaves behind is not kept).
  A table is the list of its rows: \<open>row_upsert\<close> replaces the first row of the same key or
  appends, which is how the adapter writes outputs, balances and facts. Lists of rows are a
  \<open>keyed_store\<close>.
  Rows written without a copy alias the caller's objects; a later spend then also changes the
  caller's output, but only its three spend fields, which no movement or fact reads.
\<close>

section \<open>Lists of rows\<close>

fun row_upsert :: "('r \<Rightarrow> 'k) \<Rightarrow> 'r \<Rightarrow> 'r list \<Rightarrow> 'r list" where
  "row_upsert key r [] = [r]"
| "row_upsert key r (x # xs) = (if key x = key r then r # xs else x # row_upsert key r xs)"

definition row_find :: "('r \<Rightarrow> 'k) \<Rightarrow> 'k \<Rightarrow> 'r list \<Rightarrow> 'r option" where
  "row_find key k rows = find (\<lambda>r. key r = k) rows"

lemma row_find_simps [simp]:
  "row_find key k [] = None"
  "row_find key k (r # rows) = (if key r = k then Some r else row_find key k rows)"
  by (simp_all add: row_find_def)

lemma row_find_upsert:
  "row_find key k (row_upsert key r rows) = (if k = key r then Some r else row_find key k rows)"
  by (induction rows) auto

lemma row_find_None: "row_find key k rows = None \<longleftrightarrow> k \<notin> key ` set rows"
  by (induction rows) auto

lemma row_find_Some: "row_find key k rows = Some r \<Longrightarrow> r \<in> set rows \<and> key r = k"
  by (induction rows) (auto split: if_splits)

lemma row_upsert_keys: "map key (row_upsert key r rows)
    = (if key r \<in> key ` set rows then map key rows else map key rows @ [key r])"
  by (induction rows) auto

lemma row_upsert_distinct: "distinct (map key rows) \<Longrightarrow> distinct (map key (row_upsert key r rows))"
  unfolding row_upsert_keys by (auto simp: image_iff)

lemma row_upsert_fresh: "key r \<notin> key ` set rows \<Longrightarrow> row_upsert key r rows = rows @ [r]"
  by (induction rows) auto

lemma keyed_rows:
  "keyed_store (\<lambda>rows k. row_find key k rows) (\<lambda>k r. row_upsert key r) (map key) []
     (\<lambda>rows. distinct (map key rows)) (\<lambda>k r. key r = k)"
  by unfold_locales
    (auto simp: row_find_upsert row_upsert_distinct row_find_None image_iff)

interpretation utxo_rows: keyed_store
  "\<lambda>rows k. row_find uo_output_key k rows" "\<lambda>k r. row_upsert uo_output_key r" "map uo_output_key"
  "[]" "\<lambda>rows. distinct (map uo_output_key rows)" "\<lambda>k r. uo_output_key r = k"
  by (rule keyed_rows)

interpretation fact_rows: keyed_store
  "\<lambda>rows k. row_find tf_txid k rows" "\<lambda>k r. row_upsert tf_txid r" "map tf_txid"
  "[]" "\<lambda>rows. distinct (map tf_txid rows)" "\<lambda>k r. tf_txid r = k"
  by (rule keyed_rows)

section \<open>State\<close>

record warehouse =
  ws_applied_blocks :: "applied_block list"
  ws_address_movements :: "address_movement list"
  ws_balances :: "balance_snapshot list"
  ws_bootstrap_tail :: "int option"
  ws_transaction_facts :: "transaction_fact list"
  ws_transaction_refs :: "transaction_ref list"
  ws_utxo_outputs :: "utxo_output list"

definition empty_warehouse_state :: warehouse where
  "empty_warehouse_state =
     \<lparr>ws_applied_blocks = [], ws_address_movements = [], ws_balances = [],
      ws_bootstrap_tail = None, ws_transaction_facts = [], ws_transaction_refs = [],
      ws_utxo_outputs = []\<rparr>"

section \<open>Writing rows\<close>

definition upsert_utxo_output :: "utxo_output \<Rightarrow> warehouse \<Rightarrow> warehouse" where
  "upsert_utxo_output o' w =
     w\<lparr>ws_utxo_outputs := row_upsert uo_output_key o' (ws_utxo_outputs w)\<rparr>"

definition require_utxo_output :: "string \<Rightarrow> warehouse \<Rightarrow> utxo_output res" where
  "require_utxo_output key w =
     (case row_find uo_output_key key (ws_utxo_outputs w) of
        None \<Rightarrow> Inl (GenericError (''missing utxo output: '' @ key))
      | Some o' \<Rightarrow> Inr o')"

definition apply_batch_utxo_creates :: "utxo_output list \<Rightarrow> warehouse \<Rightarrow> warehouse" where
  "apply_batch_utxo_creates outs w = fold upsert_utxo_output outs w"

definition apply_batch_utxo_spend :: "utxo_spend \<Rightarrow> warehouse \<Rightarrow> warehouse res" where
  "apply_batch_utxo_spend spend w =
     and_then (require_utxo_output (us_output_key spend) w) (\<lambda>o'.
     Inr (upsert_utxo_output
           (o'\<lparr>uo_spent_by_txid := Some (us_spent_by_txid spend),
               uo_spent_in_block := Some (us_spent_in_block spend),
               uo_spent_input_index := Some (us_spent_input_index spend)\<rparr>) w))"

definition apply_batch_utxo_spends :: "utxo_spend list \<Rightarrow> warehouse \<Rightarrow> warehouse res" where
  "apply_batch_utxo_spends spends w = fold_res apply_batch_utxo_spend spends w"

definition append_unique_address_movement :: "address_movement \<Rightarrow> warehouse \<Rightarrow> bool" where
  "append_unique_address_movement mv w \<longleftrightarrow>
     \<not> list_ex (\<lambda>c. am_movement_id c = am_movement_id mv) (ws_address_movements w)"

definition balance_row_key :: "balance_snapshot \<Rightarrow> string \<times> string" where
  "balance_row_key b = (bs_address b, bs_asset_address b)"

definition movement_key :: "address_movement \<Rightarrow> string \<times> string" where
  "movement_key mv = (am_address mv, am_asset_address mv)"

definition find_balance_snapshot :: "address_movement \<Rightarrow> warehouse \<Rightarrow> balance_snapshot option" where
  "find_balance_snapshot mv w = row_find balance_row_key (movement_key mv) (ws_balances w)"

definition apply_movement_amount :: "int \<Rightarrow> int \<Rightarrow> movement_direction \<Rightarrow> int" where
  "apply_movement_amount current amount d = (if d = Credit then current + amount else current - amount)"

definition stored_next_balance_amount :: "string option \<Rightarrow> address_movement \<Rightarrow> int res" where
  "stored_next_balance_amount current mv =
     and_then (parse_amount_base (case current of None \<Rightarrow> ''0'' | Some b \<Rightarrow> b)) (\<lambda>c.
     and_then (parse_amount_base (am_amount_base mv)) (\<lambda>m.
     Inr (apply_movement_amount c m (am_direction mv))))"

definition write_balance_snapshot ::
  "address_movement \<Rightarrow> int \<Rightarrow> int \<Rightarrow> warehouse \<Rightarrow> warehouse" where
  "write_balance_snapshot mv height amount w =
     w\<lparr>ws_balances := row_upsert balance_row_key
        \<lparr>bs_address = am_address mv, bs_asset_address = am_asset_address mv,
         bs_as_of_block_height = height, bs_balance = format_amount_base amount\<rparr> (ws_balances w)\<rparr>"

definition apply_balance_delta :: "address_movement \<Rightarrow> int \<Rightarrow> warehouse \<Rightarrow> warehouse res" where
  "apply_balance_delta mv height w =
     and_then (stored_next_balance_amount (map_option bs_balance (find_balance_snapshot mv w)) mv)
       (\<lambda>amount.
     and_then (assert_non_negative_balance amount mv) (\<lambda>_.
     Inr (write_balance_snapshot mv height amount w)))"

definition apply_batch_address_movement_if_unique ::
  "int \<Rightarrow> address_movement \<Rightarrow> warehouse \<Rightarrow> warehouse res" where
  "apply_batch_address_movement_if_unique height mv w =
     (if \<not> append_unique_address_movement mv w then Inr w
      else apply_balance_delta mv height
             (w\<lparr>ws_address_movements := ws_address_movements w @ [mv]\<rparr>))"

definition apply_batch_address_movements ::
  "address_movement list \<Rightarrow> int \<Rightarrow> warehouse \<Rightarrow> warehouse res" where
  "apply_batch_address_movements mvs height w =
     fold_res (apply_batch_address_movement_if_unique height) mvs w"

definition upsert_analytics_transaction_fact :: "transaction_fact \<Rightarrow> warehouse \<Rightarrow> warehouse" where
  "upsert_analytics_transaction_fact f w =
     w\<lparr>ws_transaction_facts := row_upsert tf_txid f (ws_transaction_facts w)\<rparr>"

definition is_applied_block_record :: "int \<Rightarrow> string \<Rightarrow> applied_block \<Rightarrow> bool" where
  "is_applied_block_record height hash b \<longleftrightarrow> ab_block_height b = height \<and> ab_block_hash b = hash"

definition has_applied_block :: "int \<Rightarrow> string \<Rightarrow> warehouse \<Rightarrow> bool" where
  "has_applied_block height hash w \<longleftrightarrow>
     list_ex (is_applied_block_record height hash) (ws_applied_blocks w)"

definition append_applied_block :: "int \<Rightarrow> string \<Rightarrow> warehouse \<Rightarrow> warehouse" where
  "append_applied_block height hash w =
     (if has_applied_block height hash w then w
      else w\<lparr>ws_applied_blocks := ws_applied_blocks w
              @ [\<lparr>ab_block_hash = hash, ab_block_height = height\<rparr>]\<rparr>)"

definition upsert_balance :: "balance_snapshot \<Rightarrow> warehouse \<Rightarrow> warehouse" where
  "upsert_balance b w = w\<lparr>ws_balances := row_upsert balance_row_key b (ws_balances w)\<rparr>"

section \<open>Rebuilding balances and rewinding\<close>

definition is_unspent_spendable_output :: "utxo_output \<Rightarrow> bool" where
  "is_unspent_spendable_output o' \<longleftrightarrow> uo_is_spendable o' \<and> uo_spent_by_txid o' = None"

definition max_applied_height :: "applied_block list \<Rightarrow> int" where
  "max_applied_height blocks = fold (\<lambda>b h. max h (ab_block_height b)) blocks (- 1)"

definition rebuild_balance_step ::
  "int \<Rightarrow> utxo_output \<Rightarrow> balance_rows \<Rightarrow> balance_rows res" where
  "rebuild_balance_step as_of o' balances =
     (if \<not> is_unspent_spendable_output o' \<or> length (uo_address o') = 0 then Inr balances
      else
        (let key = balance_key (uo_address o') [] in
         and_then (js_bigint (case js_get balances key of None \<Rightarrow> ''0'' | Some b \<Rightarrow> bs_balance b))
           (\<lambda>current.
         and_then (js_bigint (uo_value_base o')) (\<lambda>v.
         Inr (js_set key \<lparr>bs_address = uo_address o', bs_asset_address = [],
                         bs_as_of_block_height = as_of, bs_balance = int_str (current + v)\<rparr>
              balances)))))"

definition rebuild_balances_from_current_utxos :: "warehouse \<Rightarrow> warehouse res" where
  "rebuild_balances_from_current_utxos w =
     and_then (fold_res (rebuild_balance_step (max_applied_height (ws_applied_blocks w)))
                (ws_utxo_outputs w) []) (\<lambda>balances.
     Inr (w\<lparr>ws_balances := js_values balances\<rparr>))"

definition rewind_in_memory_utxo_output :: "int \<Rightarrow> utxo_output \<Rightarrow> utxo_output list" where
  "rewind_in_memory_utxo_output from o' =
     (if from \<le> uo_block_height o' then []
      else case uo_spent_in_block o' of
        Some h \<Rightarrow>
          if from \<le> h
          then [o'\<lparr>uo_spent_by_txid := None, uo_spent_in_block := None, uo_spent_input_index := None\<rparr>]
          else [o']
      | None \<Rightarrow> [o'])"

definition rewind_tables :: "int \<Rightarrow> warehouse \<Rightarrow> warehouse" where
  "rewind_tables from w =
     w\<lparr>ws_applied_blocks := filter (\<lambda>b. ab_block_height b < from) (ws_applied_blocks w),
       ws_address_movements := filter (\<lambda>m. am_block_height m < from) (ws_address_movements w),
       ws_transaction_facts := filter (\<lambda>f. tf_block_height f < from) (ws_transaction_facts w),
       ws_transaction_refs := filter (\<lambda>r. tr_block_height r < from) (ws_transaction_refs w),
       ws_utxo_outputs
         := concat (map (rewind_in_memory_utxo_output from) (ws_utxo_outputs w))\<rparr>"

definition rewind_in_memory_core_tail :: "int \<Rightarrow> warehouse \<Rightarrow> warehouse res" where
  "rewind_in_memory_core_tail from w = rebuild_balances_from_current_utxos (rewind_tables from w)"

section \<open>Applying a core window\<close>

definition get_utxo_outputs :: "string list \<Rightarrow> warehouse \<Rightarrow> utxo_map" where
  "get_utxo_outputs keys w =
     js_map_of (map (\<lambda>o'. (uo_output_key o', o'))
       (filter (\<lambda>o'. uo_output_key o' \<in> set keys) (ws_utxo_outputs w)))"

text \<open>
  \<^verbatim>\<open>pendingInMemoryCoreApplications\<close>: the first application whose height is recorded with
  another hash rewinds the state to that height.
\<close>

fun first_conflict :: "core_block_application list \<Rightarrow> applied_block list \<Rightarrow> int option" where
  "first_conflict [] blocks = None"
| "first_conflict (a # apps) blocks =
     (case find (\<lambda>b. ab_block_height b = ca_block_height a) blocks of
        Some b \<Rightarrow> if ab_block_hash b \<noteq> ca_block_hash a then Some (ca_block_height a)
                  else first_conflict apps blocks
      | None \<Rightarrow> first_conflict apps blocks)"

definition pending_in_memory_core_applications ::
  "core_block_application list \<Rightarrow> warehouse \<Rightarrow> (warehouse \<times> core_block_application list) res" where
  "pending_in_memory_core_applications inp w =
     (case first_conflict inp (ws_applied_blocks w) of
        Some h \<Rightarrow>
          and_then (rewind_in_memory_core_tail h w) (\<lambda>w'.
          Inr (w', filter (\<lambda>c. h \<le> ca_block_height c) inp))
      | None \<Rightarrow>
          Inr (w, filter (\<lambda>a. \<not> has_applied_block (ca_block_height a) (ca_block_hash a) w) inp))"

definition apply_in_memory_core_application ::
  "utxo_map \<Rightarrow> utxo_map \<Rightarrow> core_block_application \<Rightarrow> warehouse \<Rightarrow> warehouse res" where
  "apply_in_memory_core_application created current a w =
     (let movements = core_application_address_movements a created current in
      and_then (core_application_transaction_facts a created current) (\<lambda>facts.
      and_then (apply_batch_utxo_spends (ca_utxo_spends a)
                 (apply_batch_utxo_creates (ca_utxo_creates a) w)) (\<lambda>w1.
      and_then (apply_batch_address_movements movements (ca_block_height a) w1) (\<lambda>w2.
      Inr (append_applied_block (ca_block_height a) (ca_block_hash a)
            (fold upsert_analytics_transaction_fact facts w2))))))"

definition apply_core_dogecoin_window ::
  "core_block_application list \<Rightarrow> warehouse \<Rightarrow> (warehouse \<times> core_apply_result) res" where
  "apply_core_dogecoin_window inp w =
     (if inp = [] then Inr (w, \<lparr>ar_applied = False, ar_process_tail = - 1\<rparr>)
      else
        and_then (pending_in_memory_core_applications inp w) (\<lambda>(w1, pending).
        if pending = [] then Inr (w1, unapplied_core_window_result inp)
        else
          (let created = core_created_outputs_by_key pending;
               current = get_utxo_outputs (external_core_spend_keys pending) w1
           in and_then (fold_res (apply_in_memory_core_application created current) pending w1)
                (\<lambda>w2. Inr (w2, applied_core_window_result inp pending)))))"

definition materialize_core_dogecoin_current_state :: "warehouse \<Rightarrow> warehouse res" where
  "materialize_core_dogecoin_current_state w = rebuild_balances_from_current_utxos w"

definition recover_core_dogecoin_window :: "int \<Rightarrow> warehouse \<Rightarrow> warehouse res" where
  "recover_core_dogecoin_window from w = rewind_in_memory_core_tail from w"

definition get_applied_block_tail :: "warehouse \<Rightarrow> int option" where
  "get_applied_block_tail w =
     fold (\<lambda>b t. case t of None \<Rightarrow> Some (ab_block_height b)
                        | Some h \<Rightarrow> Some (max h (ab_block_height b))) (ws_applied_blocks w) None"

section \<open>Rewinding composes\<close>

lemma rewind_output_twice:
  "concat (map (rewind_in_memory_utxo_output h) (rewind_in_memory_utxo_output h' o'))
     = rewind_in_memory_utxo_output (min h h') o'"
proof (cases "uo_spent_in_block o'")
  case None
  then show ?thesis
    by (cases "h' \<le> uo_block_height o'"; cases "h \<le> uo_block_height o'")
      (simp_all add: rewind_in_memory_utxo_output_def min_le_iff_disj)
next
  case (Some s)
  then show ?thesis
    by (cases "h' \<le> uo_block_height o'"; cases "h \<le> uo_block_height o'"; cases "h' \<le> s"; cases "h \<le> s")
      (simp_all add: rewind_in_memory_utxo_output_def min_le_iff_disj)
qed

lemma rewind_outputs_twice:
  "concat (map (rewind_in_memory_utxo_output h) (concat (map (rewind_in_memory_utxo_output h') rows)))
     = concat (map (rewind_in_memory_utxo_output (min h h')) rows)"
  by (induction rows) (simp_all add: rewind_output_twice)

lemma filter_below_twice:
  fixes h h' :: int
  shows "filter (\<lambda>x. f x < h) (filter (\<lambda>x. f x < h') xs) = filter (\<lambda>x. f x < min h h') xs"
  by (induction xs) auto

lemma rewind_tables_twice:
  "rewind_tables h (rewind_tables h' w) = rewind_tables (min h h') w"
  by (simp add: rewind_tables_def rewind_outputs_twice filter_below_twice
      del: filter_filter min_less_iff_conj)

lemma rewind_tables_balances [simp]:
  "rewind_tables h (w\<lparr>ws_balances := bs\<rparr>) = (rewind_tables h w)\<lparr>ws_balances := bs\<rparr>"
  by (simp add: rewind_tables_def)

lemma rebuild_balances_ignores_balances [simp]:
  "rebuild_balances_from_current_utxos (w\<lparr>ws_balances := bs\<rparr>) = rebuild_balances_from_current_utxos w"
  by (simp add: rebuild_balances_from_current_utxos_def)

lemma rebuild_balances_Inr:
  "rebuild_balances_from_current_utxos w = Inr w' \<Longrightarrow> \<exists>bs. w' = w\<lparr>ws_balances := bs\<rparr>"
  by (auto simp: rebuild_balances_from_current_utxos_def res_simps)

text \<open>
  Rewinds compose: rewinding to one height and then to another is rewinding once to the
  lower of the two; in particular a repeated recovery changes nothing.
\<close>

theorem recover_composes:
  "and_then (recover_core_dogecoin_window h' w) (recover_core_dogecoin_window h)
     = and_then (recover_core_dogecoin_window h' w) (\<lambda>_. recover_core_dogecoin_window (min h h') w)"
proof (cases "recover_core_dogecoin_window h' w")
  case (Inl e)
  then show ?thesis by simp
next
  case (Inr w1)
  then obtain bs where "w1 = (rewind_tables h' w)\<lparr>ws_balances := bs\<rparr>"
    using rebuild_balances_Inr
    by (auto simp: recover_core_dogecoin_window_def rewind_in_memory_core_tail_def)
  then show ?thesis
    using Inr by (simp add: recover_core_dogecoin_window_def rewind_in_memory_core_tail_def
        rewind_tables_twice)
qed

section \<open>Recovery undoes a window\<close>

definition output_below :: "int \<Rightarrow> utxo_output \<Rightarrow> bool" where
  "output_below h o' \<longleftrightarrow> uo_block_height o' < h
     \<and> (case uo_spent_in_block o' of None \<Rightarrow> True | Some s \<Rightarrow> s < h)"

definition all_below :: "int \<Rightarrow> warehouse \<Rightarrow> bool" where
  "all_below h w \<longleftrightarrow>
     list_all (\<lambda>b. ab_block_height b < h) (ws_applied_blocks w)
     \<and> list_all (\<lambda>m. am_block_height m < h) (ws_address_movements w)
     \<and> list_all (\<lambda>f. tf_block_height f < h) (ws_transaction_facts w)
     \<and> list_all (\<lambda>r. tr_block_height r < h) (ws_transaction_refs w)
     \<and> list_all (output_below h) (ws_utxo_outputs w)"

definition is_clean :: "utxo_output \<Rightarrow> bool" where
  "is_clean o' \<longleftrightarrow>
     uo_spent_by_txid o' = None \<and> uo_spent_in_block o' = None \<and> uo_spent_input_index o' = None"

text \<open>
  A window of blocks from height \<open>h\<close> on that is new to a warehouse: it creates outputs and
  facts under keys the warehouse does not have, and what it spends of the warehouse's own
  outputs is unspent.
\<close>

definition window_new :: "int \<Rightarrow> warehouse \<Rightarrow> core_block_application list \<Rightarrow> bool" where
  "window_new h w apps \<longleftrightarrow>
     list_all (\<lambda>a. h \<le> ca_block_height a
       \<and> list_all (\<lambda>o'. h \<le> uo_block_height o'
            \<and> uo_output_key o' \<notin> uo_output_key ` set (ws_utxo_outputs w)
            \<and> uo_txid o' \<notin> tf_txid ` set (ws_transaction_facts w)) (ca_utxo_creates a)
       \<and> list_all (\<lambda>s. h \<le> us_spent_in_block s
            \<and> list_all (\<lambda>o'. uo_output_key o' = us_output_key s \<longrightarrow> is_clean o') (ws_utxo_outputs w))
           (ca_utxo_spends a)) apps"

lemma concat_row_upsert:
  assumes "row_find key (key r) rows = None \<Longrightarrow> g r = []"
    and "\<And>x. row_find key (key r) rows = Some x \<Longrightarrow> g r = g x"
  shows "concat (map g (row_upsert key r rows)) = concat (map g rows)"
  using assms by (induction rows) (auto split: if_splits)

lemma filter_row_upsert:
  assumes "row_find key (key r) rows = None \<Longrightarrow> \<not> P r"
    and "\<And>x. row_find key (key r) rows = Some x \<Longrightarrow> \<not> P r \<and> \<not> P x"
  shows "filter P (row_upsert key r rows) = filter P rows"
  using assms by (induction rows) (auto split: if_splits)

lemma rewind_keys: "o1 \<in> set (rewind_in_memory_utxo_output h o') \<Longrightarrow> uo_output_key o1 = uo_output_key o'"
  by (auto simp: rewind_in_memory_utxo_output_def split: if_splits option.splits)

abbreviation rewound :: "int \<Rightarrow> utxo_output list \<Rightarrow> utxo_output list" where
  "rewound h rows \<equiv> concat (map (rewind_in_memory_utxo_output h) rows)"

lemma rewound_create:
  assumes "h \<le> uo_block_height o'" and "uo_output_key o' \<notin> uo_output_key ` set (rewound h rows)"
  shows "rewound h (row_upsert uo_output_key o' rows) = rewound h rows"
proof (rule concat_row_upsert)
  show g: "rewind_in_memory_utxo_output h o' = []"
    using assms(1) by (simp add: rewind_in_memory_utxo_output_def)
  fix x assume "row_find uo_output_key (uo_output_key o') rows = Some x"
  then have x: "x \<in> set rows" "uo_output_key x = uo_output_key o'"
    by (auto dest: row_find_Some)
  have "rewind_in_memory_utxo_output h x = []"
  proof (rule ccontr)
    assume "rewind_in_memory_utxo_output h x \<noteq> []"
    then obtain y where y: "y \<in> set (rewind_in_memory_utxo_output h x)" by (meson last_in_set)
    then have "y \<in> set (rewound h rows)" using x(1) by auto
    then have "uo_output_key y \<in> uo_output_key ` set (rewound h rows)" by (rule imageI)
    then show False using assms(2) rewind_keys [OF y] x(2) by simp
  qed
  with g show "rewind_in_memory_utxo_output h o' = rewind_in_memory_utxo_output h x" by simp
qed

lemma rewound_spend:
  assumes "row_find uo_output_key k rows = Some o'" and "h \<le> s"
    and "\<And>y. y \<in> set (rewound h rows) \<Longrightarrow> uo_output_key y = k \<Longrightarrow> is_clean y"
  shows "rewound h (row_upsert uo_output_key (o'\<lparr>uo_spent_by_txid := Some t, uo_spent_in_block := Some s,
           uo_spent_input_index := Some i\<rparr>) rows) = rewound h rows"
proof (rule concat_row_upsert)
  have o': "o' \<in> set rows" "uo_output_key o' = k" using row_find_Some [OF assms(1)] by simp_all
  let ?r = "o'\<lparr>uo_spent_by_txid := Some t, uo_spent_in_block := Some s, uo_spent_input_index := Some i\<rparr>"
  have key: "uo_output_key ?r = k" using o'(2) by simp
  show "row_find uo_output_key (uo_output_key ?r) rows = None \<Longrightarrow> rewind_in_memory_utxo_output h ?r = []"
    using assms(1) unfolding key by simp
  fix x assume "row_find uo_output_key (uo_output_key ?r) rows = Some x"
  then have x: "x = o'" using assms(1) unfolding key by simp
  show "rewind_in_memory_utxo_output h ?r = rewind_in_memory_utxo_output h x"
  proof (cases "h \<le> uo_block_height o'")
    case True
    then show ?thesis by (simp add: x rewind_in_memory_utxo_output_def)
  next
    case False
    show ?thesis
    proof (cases "\<exists>b. uo_spent_in_block o' = Some b \<and> h \<le> b")
      case True
      then show ?thesis using False assms(2) by (auto simp: x rewind_in_memory_utxo_output_def)
    next
      case kept: False
      then have "rewind_in_memory_utxo_output h o' = [o']"
        using False by (auto simp: rewind_in_memory_utxo_output_def split: option.splits)
      then have "is_clean o'" using assms(3) [of o'] o' by force
      then show ?thesis
        using False assms(2) by (simp add: x rewind_in_memory_utxo_output_def is_clean_def)
    qed
  qed
qed

definition keeps :: "int \<Rightarrow> warehouse \<Rightarrow> warehouse \<Rightarrow> bool" where
  "keeps h w0 w \<longleftrightarrow> rewind_tables h w = w0\<lparr>ws_balances := ws_balances w\<rparr>"

lemma keeps_iff:
  "keeps h w0 w \<longleftrightarrow>
     filter (\<lambda>b. ab_block_height b < h) (ws_applied_blocks w) = ws_applied_blocks w0
     \<and> filter (\<lambda>m. am_block_height m < h) (ws_address_movements w) = ws_address_movements w0
     \<and> filter (\<lambda>f. tf_block_height f < h) (ws_transaction_facts w) = ws_transaction_facts w0
     \<and> filter (\<lambda>r. tr_block_height r < h) (ws_transaction_refs w) = ws_transaction_refs w0
     \<and> rewound h (ws_utxo_outputs w) = ws_utxo_outputs w0
     \<and> ws_bootstrap_tail w = ws_bootstrap_tail w0"
  by (cases w; cases w0) (auto simp: keeps_def rewind_tables_def)

lemma keeps_balances [simp]: "keeps h w0 (w\<lparr>ws_balances := bs\<rparr>) = keeps h w0 w"
  by (simp add: keeps_iff)

lemma rewound_below: "list_all (output_below h) rows \<Longrightarrow> rewound h rows = rows"
  by (induction rows) (auto simp: rewind_in_memory_utxo_output_def output_below_def split: option.splits)

lemma keeps_self: "all_below h w \<Longrightarrow> keeps h w w"
  by (simp add: keeps_iff all_below_def rewound_below list_all_iff filter_id_conv)

lemma keeps_create:
  assumes "keeps h w0 w" and "h \<le> uo_block_height o'"
    and "uo_output_key o' \<notin> uo_output_key ` set (ws_utxo_outputs w0)"
  shows "keeps h w0 (upsert_utxo_output o' w)"
  using assms rewound_create [of h o' "ws_utxo_outputs w"]
  by (simp add: keeps_iff upsert_utxo_output_def)

lemma keeps_spend:
  assumes "keeps h w0 w" and "apply_batch_utxo_spend s w = Inr w'" and "h \<le> us_spent_in_block s"
    and "\<And>y. y \<in> set (ws_utxo_outputs w0) \<Longrightarrow> uo_output_key y = us_output_key s \<Longrightarrow> is_clean y"
  shows "keeps h w0 w'"
proof -
  from assms(2) obtain o' where o': "row_find uo_output_key (us_output_key s) (ws_utxo_outputs w) = Some o'"
    and w': "w' = upsert_utxo_output
           (o'\<lparr>uo_spent_by_txid := Some (us_spent_by_txid s),
               uo_spent_in_block := Some (us_spent_in_block s),
               uo_spent_input_index := Some (us_spent_input_index s)\<rparr>) w"
    by (auto simp: apply_batch_utxo_spend_def require_utxo_output_def res_simps split: option.splits)
  have rows: "rewound h (ws_utxo_outputs w) = ws_utxo_outputs w0" using assms(1) by (simp add: keeps_iff)
  note same = rewound_spend [OF o' assms(3), unfolded rows, OF assms(4)]
  show ?thesis using assms(1) same by (simp add: w' keeps_iff upsert_utxo_output_def)
qed

lemma apply_balance_delta_Inr:
  "apply_balance_delta mv height w = Inr w' \<Longrightarrow> \<exists>bs. w' = w\<lparr>ws_balances := bs\<rparr>"
  by (auto simp: apply_balance_delta_def res_simps write_balance_snapshot_def)

lemma keeps_movement:
  assumes "keeps h w0 w" and "apply_batch_address_movement_if_unique height mv w = Inr w'"
    and "h \<le> am_block_height mv"
  shows "keeps h w0 w'"
proof (cases "append_unique_address_movement mv w")
  case False
  then show ?thesis using assms by (simp add: apply_batch_address_movement_if_unique_def)
next
  case True
  then obtain bs where "w' = w\<lparr>ws_address_movements := ws_address_movements w @ [mv], ws_balances := bs\<rparr>"
    using assms(2) apply_balance_delta_Inr by (fastforce simp: apply_batch_address_movement_if_unique_def)
  then show ?thesis using assms(1,3) by (simp add: keeps_iff)
qed

lemma keeps_fact:
  assumes "keeps h w0 w" and "h \<le> tf_block_height f" and "tf_txid f \<notin> tf_txid ` set (ws_transaction_facts w0)"
  shows "keeps h w0 (upsert_analytics_transaction_fact f w)"
proof -
  have "filter (\<lambda>f. tf_block_height f < h) (row_upsert tf_txid f (ws_transaction_facts w))
      = filter (\<lambda>f. tf_block_height f < h) (ws_transaction_facts w)"
  proof (rule filter_row_upsert)
    show "\<not> tf_block_height f < h" using assms(2) by simp
    fix x assume "row_find tf_txid (tf_txid f) (ws_transaction_facts w) = Some x"
    then have x: "x \<in> set (ws_transaction_facts w)" "tf_txid x = tf_txid f" by (auto dest: row_find_Some)
    have "\<not> tf_block_height x < h"
    proof
      assume "tf_block_height x < h"
      then have "x \<in> set (filter (\<lambda>f. tf_block_height f < h) (ws_transaction_facts w))"
        using x(1) by simp
      then have "x \<in> set (ws_transaction_facts w0)" using assms(1) by (simp only: keeps_iff)
      then show False using assms(3) x(2) by (metis imageI)
    qed
    then show "\<not> tf_block_height f < h \<and> \<not> tf_block_height x < h" using assms(2) by simp
  qed
  then show ?thesis using assms(1) by (simp add: keeps_iff upsert_analytics_transaction_fact_def)
qed

lemma keeps_block: "keeps h w0 w \<Longrightarrow> h \<le> height \<Longrightarrow> keeps h w0 (append_applied_block height hash w)"
  by (simp add: keeps_iff append_applied_block_def)

lemma js_append_keys: "set (js_keys (js_append k v m)) = insert k (set (js_keys m))"
  by (simp add: js_append_def jsm.keys_put)

lemma group_outputs_keys: "set (js_keys (group_core_outputs_by_txid outs)) = uo_txid ` set outs"
proof -
  have "set (js_keys (fold (\<lambda>o'. js_append (uo_txid o') o') outs m)) = uo_txid ` set outs \<union> set (js_keys m)" for m
    by (induction outs arbitrary: m) (auto simp: js_append_keys)
  from this [of "[]"] show ?thesis by (simp add: group_core_outputs_by_txid_def js_keys_def)
qed

lemma facts_of_application:
  assumes "core_application_transaction_facts a created current = Inr facts" and "f \<in> set facts"
  shows "tf_block_height f = ca_block_height a \<and> tf_txid f \<in> uo_txid ` set (ca_utxo_creates a)"
proof -
  from map_res_set [OF assms(1) [unfolded core_application_transaction_facts_def Let_def] assms(2)]
  obtain txid outs ss where "(txid, outs) \<in> set (group_core_outputs_by_txid (ca_utxo_creates a))"
    and f: "core_transaction_fact a txid outs ss created current = Inr f"
    by auto
  then have "txid \<in> uo_txid ` set (ca_utxo_creates a)"
    unfolding group_outputs_keys [symmetric] js_keys_def by force
  moreover have "tf_block_height f = ca_block_height a \<and> tf_txid f = txid"
    using f by (auto simp: core_transaction_fact_def Let_def res_simps)
  ultimately show ?thesis by simp
qed

lemma movements_of_application:
  assumes "mv \<in> set (core_application_address_movements a created current)"
  shows "am_block_height mv = ca_block_height a
    \<or> (\<exists>o' \<in> set (ca_utxo_creates a). am_block_height mv = uo_block_height o')"
  using assms
  by (auto simp: core_application_address_movements_def core_create_address_movement_def
      core_spend_address_movement_def split: option.splits if_splits)

lemma keeps_application:
  assumes "apply_in_memory_core_application created current a w = Inr w'"
    and "keeps h w0 w" and "window_new h w0 [a]"
  shows "keeps h w0 w'"
proof -
  from assms(1) obtain facts w1 w2 where
    facts: "core_application_transaction_facts a created current = Inr facts"
    and w1: "apply_batch_utxo_spends (ca_utxo_spends a) (apply_batch_utxo_creates (ca_utxo_creates a) w) = Inr w1"
    and w2: "apply_batch_address_movements (core_application_address_movements a created current)
          (ca_block_height a) w1 = Inr w2"
    and w': "w' = append_applied_block (ca_block_height a) (ca_block_hash a)
          (fold upsert_analytics_transaction_fact facts w2)"
    by (auto simp: apply_in_memory_core_application_def Let_def res_simps)
  have new: "h \<le> ca_block_height a"
    and creates: "\<And>o'. o' \<in> set (ca_utxo_creates a) \<Longrightarrow> h \<le> uo_block_height o'
        \<and> uo_output_key o' \<notin> uo_output_key ` set (ws_utxo_outputs w0)
        \<and> uo_txid o' \<notin> tf_txid ` set (ws_transaction_facts w0)"
    and spends: "\<And>s y. s \<in> set (ca_utxo_spends a) \<Longrightarrow> h \<le> us_spent_in_block s
        \<and> (y \<in> set (ws_utxo_outputs w0) \<longrightarrow> uo_output_key y = us_output_key s \<longrightarrow> is_clean y)"
    using assms(3) by (simp_all add: window_new_def list_all_iff)
  have "keeps h w0 (fold upsert_utxo_output os w)" if "set os \<subseteq> set (ca_utxo_creates a)" for os
    using that assms(2)
  proof (induction os arbitrary: w)
    case Nil
    then show ?case by simp
  next
    case (Cons o' os)
    then show ?case using keeps_create creates [of o'] by simp
  qed
  then have "keeps h w0 (apply_batch_utxo_creates (ca_utxo_creates a) w)"
    by (simp add: apply_batch_utxo_creates_def)
  from fold_res_invariant [OF w1 [unfolded apply_batch_utxo_spends_def], of "keeps h w0", OF this]
  have k1: "keeps h w0 w1" using keeps_spend spends by blast
  have "h \<le> am_block_height mv" if "mv \<in> set (core_application_address_movements a created current)" for mv
    using movements_of_application [OF that] new creates by auto
  with fold_res_invariant [OF w2 [unfolded apply_batch_address_movements_def], of "keeps h w0", OF k1]
  have k2: "keeps h w0 w2" using keeps_movement by blast
  have "keeps h w0 (fold upsert_analytics_transaction_fact fs w)"
    if "set fs \<subseteq> set facts" "keeps h w0 w" for fs w
    using that
  proof (induction fs arbitrary: w)
    case Nil
    then show ?case by simp
  next
    case (Cons f fs)
    then have "tf_block_height f = ca_block_height a \<and> tf_txid f \<in> uo_txid ` set (ca_utxo_creates a)"
      using facts_of_application [OF facts] by simp
    then obtain o' where "o' \<in> set (ca_utxo_creates a)" "tf_txid f = uo_txid o'"
      and "h \<le> tf_block_height f" using new by auto
    then have "keeps h w0 (upsert_analytics_transaction_fact f w)"
      using Cons.prems(2) creates [of o'] by (intro keeps_fact) simp_all
    then show ?case using Cons by simp
  qed
  then show ?thesis using k2 new by (simp add: w' keeps_block)
qed

lemma window_new_Cons: "window_new h w (a # apps) \<longleftrightarrow> window_new h w [a] \<and> window_new h w apps"
  by (simp add: window_new_def)

lemma no_conflict_below:
  assumes "list_all (\<lambda>b. ab_block_height b < h) blocks" and "\<forall>a \<in> set apps. h \<le> ca_block_height a"
  shows "first_conflict apps blocks = None"
proof -
  have "find (\<lambda>b. ab_block_height b = ca_block_height a) blocks = None" if "a \<in> set apps" for a
    using assms that by (force simp: find_None_iff list_all_iff)
  then show ?thesis by (induction apps) auto
qed

text \<open>
  C5. Recovery undoes a window exactly. Take a warehouse whose rows all lie below a height,
  apply a window of blocks from that height on that is new to it, and recover from that
  height: outputs, movements, facts, references and applied blocks are those of before, in
  the same order, and the balances are rebuilt from them, as if the window had never been.
\<close>

theorem recover_undoes_window:
  assumes "apply_core_dogecoin_window inp w = Inr (w', result)"
    and "all_below h w" and "window_new h w inp"
  shows "recover_core_dogecoin_window h w' = materialize_core_dogecoin_current_state w"
proof -
  have "keeps h w w'"
  proof (cases "inp = []")
    case True
    then show ?thesis using assms(1,2) by (simp add: apply_core_dogecoin_window_def keeps_self)
  next
    case False
    have heights: "\<forall>a \<in> set inp. h \<le> ca_block_height a" using assms(3) by (simp add: window_new_def list_all_iff)
    have below: "list_all (\<lambda>b. ab_block_height b < h) (ws_applied_blocks w)"
      using assms(2) by (simp add: all_below_def)
    have "\<not> has_applied_block (ca_block_height a) x w" if "a \<in> set inp" for a x
      using that heights below
      by (force simp: has_applied_block_def is_applied_block_record_def list_ex_iff list_all_iff)
    then have "pending_in_memory_core_applications inp w = Inr (w, inp)"
      using no_conflict_below [OF below heights]
      by (simp add: pending_in_memory_core_applications_def filter_id_conv)
    then obtain created current where
      run: "fold_res (apply_in_memory_core_application created current) inp w = Inr w'"
      using assms(1) False by (auto simp: apply_core_dogecoin_window_def Let_def res_simps)
    show ?thesis
    proof (rule fold_res_invariant [where P = "keeps h w", OF run keeps_self [OF assms(2)]])
      fix a t t'
      assume a: "a \<in> set inp" and k: "keeps h w t"
        and step: "apply_in_memory_core_application created current a t = Inr t'"
      have "window_new h w [a]" using assms(3) a by (simp add: window_new_def list_all_iff)
      from keeps_application [OF step k this] show "keeps h w t'" .
    qed
  qed
  then show ?thesis
    unfolding keeps_def recover_core_dogecoin_window_def rewind_in_memory_core_tail_def
      materialize_core_dogecoin_current_state_def by simp
qed

section \<open>A window is applied once\<close>

definition processed_of :: "applied_block list \<Rightarrow> processed_blocks" where
  "processed_of blocks = map (\<lambda>b. (ab_block_height b, ab_block_hash b)) blocks"

definition one_per_height :: "warehouse \<Rightarrow> bool" where
  "one_per_height w \<longleftrightarrow> distinct (map ab_block_height (ws_applied_blocks w))"

lemma first_conflict_eq:
  "first_conflict apps blocks = first_core_reorg_height apps (processed_of blocks)"
proof -
  have "js_get (processed_of blocks) h = map_option ab_block_hash (find (\<lambda>b. ab_block_height b = h) blocks)" for h
    by (induction blocks) (auto simp: processed_of_def)
  then show ?thesis by (induction apps) (auto split: option.splits)
qed

lemma has_applied_block_set:
  "has_applied_block h x w \<longleftrightarrow> (h, x) \<in> set (processed_of (ws_applied_blocks w))"
  by (auto simp: has_applied_block_def is_applied_block_record_def processed_of_def list_ex_iff)

lemma processed_get:
  "one_per_height w \<Longrightarrow> js_get (processed_of (ws_applied_blocks w)) h = Some x \<longleftrightarrow> has_applied_block h x w"
  unfolding has_applied_block_set one_per_height_def
  by (intro map_of_eq_Some_iff) (simp add: processed_of_def comp_def)

lemma application_applied_blocks:
  assumes "apply_in_memory_core_application created current a w = Inr w'"
  shows "ws_applied_blocks w'
    = ws_applied_blocks (append_applied_block (ca_block_height a) (ca_block_hash a) w)"
proof -
  have creates: "ws_applied_blocks (fold upsert_utxo_output os w) = ws_applied_blocks w" for os w
    by (induction os arbitrary: w) (simp_all add: upsert_utxo_output_def)
  have facts: "ws_applied_blocks (fold upsert_analytics_transaction_fact fs w) = ws_applied_blocks w" for fs w
    by (induction fs arbitrary: w) (simp_all add: upsert_analytics_transaction_fact_def)
  have spends: "ws_applied_blocks w2 = ws_applied_blocks w1" if "apply_batch_utxo_spends ss w1 = Inr w2" for ss w1 w2
    using that unfolding apply_batch_utxo_spends_def
    by (rule fold_res_invariant [where P = "\<lambda>w. ws_applied_blocks w = ws_applied_blocks w1"])
      (auto simp: apply_batch_utxo_spend_def res_simps upsert_utxo_output_def)
  have movements: "ws_applied_blocks w2 = ws_applied_blocks w1"
    if "apply_batch_address_movements ms height w1 = Inr w2" for ms height w1 w2
    using that unfolding apply_batch_address_movements_def
    by (rule fold_res_invariant [where P = "\<lambda>w. ws_applied_blocks w = ws_applied_blocks w1"])
      (auto simp: apply_batch_address_movement_if_unique_def dest!: apply_balance_delta_Inr split: if_splits)
  show ?thesis
    using assms spends movements
    by (fastforce simp: apply_in_memory_core_application_def Let_def res_simps facts creates
        apply_batch_utxo_creates_def append_applied_block_def has_applied_block_def)
qed

text \<open>The blocks recorded after a run of applications.\<close>

fun append_blocks :: "core_block_application list \<Rightarrow> applied_block list \<Rightarrow> applied_block list" where
  "append_blocks [] blocks = blocks"
| "append_blocks (a # apps) blocks =
     append_blocks apps
       (if (ca_block_height a, ca_block_hash a) \<in> set (processed_of blocks) then blocks
        else blocks @ [\<lparr>ab_block_hash = ca_block_hash a, ab_block_height = ca_block_height a\<rparr>])"

lemma applications_applied_blocks:
  "fold_res (apply_in_memory_core_application created current) apps w = Inr w' \<Longrightarrow>
     ws_applied_blocks w' = append_blocks apps (ws_applied_blocks w)"
proof (induction apps arbitrary: w)
  case Nil
  then show ?case by simp
next
  case (Cons a apps)
  then obtain w1 where "apply_in_memory_core_application created current a w = Inr w1"
    and "fold_res (apply_in_memory_core_application created current) apps w1 = Inr w'"
    by (auto simp: res_simps)
  then show ?case
    using Cons.IH application_applied_blocks
    by (simp add: append_applied_block_def has_applied_block_set)
qed

lemma append_blocks_set:
  "set (processed_of (append_blocks apps blocks))
     = set (processed_of blocks) \<union> (\<lambda>a. (ca_block_height a, ca_block_hash a)) ` set apps"
  by (induction apps arbitrary: blocks) (auto simp: processed_of_def)

lemma append_blocks_distinct:
  assumes "distinct (map ab_block_height blocks)" and "distinct (map ca_block_height apps)"
    and "\<forall>a \<in> set apps. \<forall>b \<in> set blocks. ab_block_height b = ca_block_height a \<longrightarrow> ab_block_hash b = ca_block_hash a"
  shows "distinct (map ab_block_height (append_blocks apps blocks))"
  using assms
proof (induction apps arbitrary: blocks)
  case Nil
  then show ?case by simp
next
  case (Cons a apps)
  show ?case
  proof (cases "(ca_block_height a, ca_block_hash a) \<in> set (processed_of blocks)")
    case True
    then show ?thesis using Cons by simp
  next
    case False
    then have "ca_block_height a \<notin> ab_block_height ` set blocks"
      using Cons.prems(3) by (force simp: processed_of_def)
    then show ?thesis using False Cons.prems by (simp, intro Cons.IH) auto
  qed
qed

definition gap_free :: "core_block_application list \<Rightarrow> warehouse \<Rightarrow> bool" where
  "gap_free inp w \<longleftrightarrow>
     list_all (\<lambda>a. list_all (\<lambda>b. ca_block_height a \<le> ab_block_height b \<longrightarrow>
       ca_block_height a \<in> ab_block_height ` set (ws_applied_blocks w)) (ws_applied_blocks w)) inp"

lemma pending_in_memory_facts:
  assumes "pending_in_memory_core_applications inp w = Inr (w1, pending)"
    and "one_per_height w" and "gap_free inp w" and "sorted_wrt (<) (map ca_block_height inp)"
  shows "one_per_height w1 \<and> set pending \<subseteq> set inp \<and> distinct (map ca_block_height pending)
    \<and> (\<forall>a \<in> set pending. \<forall>b \<in> set (ws_applied_blocks w1).
         ab_block_height b = ca_block_height a \<longrightarrow> ab_block_hash b = ca_block_hash a)
    \<and> (\<forall>a \<in> set inp. a \<in> set pending \<or> has_applied_block (ca_block_height a) (ca_block_hash a) w1)"
proof -
  let ?blocks = "ws_applied_blocks w"
  have distinct_inp: "distinct (map ca_block_height inp)"
    using assms(4) by (simp add: strict_sorted_iff)
  have get: "js_get (processed_of ?blocks) (ab_block_height b) = Some (ab_block_hash b)"
    if "b \<in> set ?blocks" for b
    using that by (simp add: processed_get [OF assms(2)] has_applied_block_set) (auto simp: processed_of_def)
  show ?thesis
  proof (cases "first_core_reorg_height inp (processed_of ?blocks)")
    case None
    then have agree: "\<forall>a \<in> set inp. agrees (processed_of ?blocks) a"
      by (simp add: first_core_reorg_height_None list_all_iff)
    have w1: "w1 = w" and pending: "pending = filter (\<lambda>a. \<not> has_applied_block (ca_block_height a) (ca_block_hash a) w) inp"
      using assms(1) None by (auto simp: pending_in_memory_core_applications_def first_conflict_eq)
    have "ab_block_hash b = ca_block_hash a"
      if "a \<in> set inp" "b \<in> set ?blocks" "ab_block_height b = ca_block_height a" for a b
      using agree that get [of b] by (auto simp: agrees_def)
    then show ?thesis using assms(2) distinct_inp by (auto simp: w1 pending distinct_map_filter)
  next
    case (Some h)
    then obtain pre a post where inp: "inp = pre @ a # post" and h: "h = ca_block_height a"
      and pre: "list_all (agrees (processed_of ?blocks)) pre" and a: "\<not> agrees (processed_of ?blocks) a"
      using first_core_reorg_height_Some by blast
    from assms(1) Some have "rewind_in_memory_core_tail h w = Inr w1"
      and pending: "pending = filter (\<lambda>c. h \<le> ca_block_height c) inp"
      by (auto simp: pending_in_memory_core_applications_def first_conflict_eq res_simps)
    then obtain bs where "w1 = (rewind_tables h w)\<lparr>ws_balances := bs\<rparr>"
      using rebuild_balances_Inr by (auto simp: rewind_in_memory_core_tail_def)
    then have blocks: "ws_applied_blocks w1 = filter (\<lambda>b. ab_block_height b < h) ?blocks"
      by (simp add: rewind_tables_def)
    obtain b where b: "b \<in> set ?blocks" "ab_block_height b = h"
      using a by (fastforce simp: agrees_def h processed_of_def dest: map_of_SomeD)
    have "has_applied_block (ca_block_height c) (ca_block_hash c) w1" if c: "c \<in> set inp" "\<not> h \<le> ca_block_height c" for c
    proof -
      have "c \<in> set pre" using c assms(4) by (auto simp: inp h sorted_wrt_append)
      moreover obtain b' where "b' \<in> set ?blocks" "ab_block_height b' = ca_block_height c"
        using assms(3) c b by (fastforce simp: gap_free_def list_all_iff)
      ultimately have "b' \<in> set (ws_applied_blocks w1)" "ab_block_hash b' = ca_block_hash c"
        using pre get [of b'] c(2) by (auto simp: list_all_iff agrees_def blocks)
      with \<open>ab_block_height b' = ca_block_height c\<close> show ?thesis
        by (auto simp: has_applied_block_def is_applied_block_record_def list_ex_iff)
    qed
    moreover have "one_per_height w1" using assms(2) by (simp add: one_per_height_def blocks distinct_map_filter)
    ultimately show ?thesis using distinct_inp by (auto simp: pending blocks distinct_map_filter)
  qed
qed

lemma recorded_window_is_noop:
  assumes "one_per_height w"
    and "\<forall>a \<in> set inp. has_applied_block (ca_block_height a) (ca_block_hash a) w" and "inp \<noteq> []"
  shows "apply_core_dogecoin_window inp w = Inr (w, unapplied_core_window_result inp)"
proof -
  have "list_all (agrees (processed_of (ws_applied_blocks w))) inp"
    using assms(2) by (simp add: list_all_iff agrees_def processed_get [OF assms(1)])
  then have "first_conflict inp (ws_applied_blocks w) = None"
    by (simp add: first_conflict_eq first_core_reorg_height_None)
  then show ?thesis
    using assms(2,3) by (simp add: apply_core_dogecoin_window_def pending_in_memory_core_applications_def
        filter_empty_conv)
qed

text \<open>
  C9. Applying a window is idempotent, also across a reorganisation: once a window of
  ascending heights has been applied to a warehouse with one block per height and no gap below
  a recorded block, every block of it is recorded, heights stay unique, and applying it again
  changes nothing and reports that nothing was applied.
\<close>

theorem core_window_applied_once:
  assumes "apply_core_dogecoin_window inp w = Inr (w', result)" and "inp \<noteq> []"
    and "one_per_height w" and "gap_free inp w" and "sorted_wrt (<) (map ca_block_height inp)"
  shows "one_per_height w'
    \<and> list_all (\<lambda>a. has_applied_block (ca_block_height a) (ca_block_hash a) w') inp
    \<and> apply_core_dogecoin_window inp w' = Inr (w', unapplied_core_window_result inp)"
proof -
  from assms(1,2) obtain w1 pending where
    p: "pending_in_memory_core_applications inp w = Inr (w1, pending)"
    and run: "pending = [] \<and> w' = w1 \<or> (\<exists>created current.
       fold_res (apply_in_memory_core_application created current) pending w1 = Inr w')"
    by (auto simp: apply_core_dogecoin_window_def Let_def res_simps split: if_splits)
  from run have blocks: "ws_applied_blocks w' = append_blocks pending (ws_applied_blocks w1)"
    using applications_applied_blocks by auto
  note facts = pending_in_memory_facts [OF p assms(3,4,5)]
  have one: "one_per_height w'"
    using facts append_blocks_distinct [of "ws_applied_blocks w1" pending]
    by (simp add: one_per_height_def blocks)
  moreover have all: "\<forall>a \<in> set inp. has_applied_block (ca_block_height a) (ca_block_hash a) w'"
    using facts by (auto simp: has_applied_block_set blocks append_blocks_set)
  ultimately show ?thesis using recorded_window_is_noop assms(2) by (simp add: list_all_iff)
qed

section \<open>Rebuilt balances are sums over the unspent outputs\<close>

definition is_counted :: "string \<Rightarrow> utxo_output \<Rightarrow> bool" where
  "is_counted a o' \<longleftrightarrow> is_unspent_spendable_output o' \<and> uo_address o' = a"

definition rows_balance :: "string \<Rightarrow> utxo_output list \<Rightarrow> int" where
  "rows_balance a rows = sum_list (map (unspent_value a) rows)"

definition rebuilt_inv :: "int \<Rightarrow> balance_rows \<Rightarrow> bool" where
  "rebuilt_inv as_of m \<longleftrightarrow> js_map_ok m
     \<and> (\<forall>(k, b) \<in> set m. k = balance_key (bs_address b) [] \<and> bs_asset_address b = []
          \<and> bs_as_of_block_height b = as_of)"

lemma rebuilt_inv_set:
  assumes "rebuilt_inv e m" and "bs_asset_address b = []" and "bs_as_of_block_height b = e"
  shows "rebuilt_inv e (js_set (balance_key (bs_address b) []) b m)"
proof -
  let ?P = "\<lambda>(k, b). k = balance_key (bs_address b) [] \<and> bs_asset_address b = [] \<and> bs_as_of_block_height b = e"
  have "\<forall>x \<in> insert (balance_key (bs_address b) [], b) (set m). ?P x"
    using assms by (simp add: rebuilt_inv_def)
  then have "\<forall>x \<in> set (js_set (balance_key (bs_address b) []) b m). ?P x"
    using set_update_subset [of "balance_key (bs_address b) []" b m] by (meson subsetD)
  with assms(1) show ?thesis by (simp add: rebuilt_inv_def)
qed

lemma rebuild_balance_step_facts:
  assumes "rebuild_balance_step e o' m = Inr m'" and "rebuilt_inv e m" and "a \<noteq> []"
  shows "rebuilt_inv e m' \<and> balance_of m' a = balance_of m a + unspent_value a o'
    \<and> (js_get m' (balance_key a []) = None \<longleftrightarrow>
        js_get m (balance_key a []) = None \<and> \<not> is_counted a o')"
proof (cases "is_unspent_spendable_output o' \<and> uo_address o' \<noteq> []")
  case False
  then have "m' = m" using assms(1) by (auto simp: rebuild_balance_step_def)
  moreover have "unspent_value a o' = 0" "\<not> is_counted a o'"
    using False assms(3) by (auto simp: unspent_value_def is_counted_def is_unspent_spendable_output_def)
  ultimately show ?thesis using assms(2) by simp
next
  case True
  let ?k = "balance_key (uo_address o') []"
  from True assms(1) obtain c v where
    c: "js_bigint (case js_get m ?k of None \<Rightarrow> ''0'' | Some b \<Rightarrow> bs_balance b) = Inr c"
    and v: "js_bigint (uo_value_base o') = Inr v"
    and m': "m' = js_set ?k \<lparr>bs_address = uo_address o', bs_asset_address = [],
       bs_as_of_block_height = e, bs_balance = int_str (c + v)\<rparr> m"
    by (auto simp: rebuild_balance_step_def Let_def res_simps)
  have zero: "js_bigint ''0'' = Inr 0" using js_bigint_int_str [of 0] by (simp add: str_eval)
  have bal: "balance_of m (uo_address o') = c"
    using c zero by (auto simp: balance_of_def big_value_def split: option.splits)
  have "rebuilt_inv e m'"
    using rebuilt_inv_set [OF assms(2), of "\<lparr>bs_address = uo_address o', bs_asset_address = [],
       bs_as_of_block_height = e, bs_balance = int_str (c + v)\<rparr>"] by (simp add: m')
  moreover have "balance_of m' a = balance_of m a + unspent_value a o'"
    using True bal v by (auto simp: m' balance_of_def js_get_set big_value_def unspent_value_def
        is_unspent_spendable_output_def)
  moreover have "js_get m' (balance_key a []) = None \<longleftrightarrow>
      js_get m (balance_key a []) = None \<and> \<not> is_counted a o'"
    using True by (simp add: m' js_get_set is_counted_def)
  ultimately show ?thesis by blast
qed

lemma rebuild_fold_facts:
  assumes "fold_res (rebuild_balance_step e) rows m = Inr m'" and "rebuilt_inv e m" and "a \<noteq> []"
  shows "rebuilt_inv e m' \<and> balance_of m' a = balance_of m a + rows_balance a rows
    \<and> (js_get m' (balance_key a []) = None \<longleftrightarrow>
        js_get m (balance_key a []) = None \<and> \<not> list_ex (is_counted a) rows)"
  using assms(1,2)
proof (induction rows arbitrary: m)
  case Nil
  then show ?case by (simp add: rows_balance_def)
next
  case (Cons o' rows)
  then obtain m1 where step: "rebuild_balance_step e o' m = Inr m1"
    and rest: "fold_res (rebuild_balance_step e) rows m1 = Inr m'"
    by (auto simp: res_simps)
  note s = rebuild_balance_step_facts [OF step Cons.prems(2) assms(3)]
  note t = Cons.IH [OF rest conjunct1 [OF s]]
  show ?case using s t by (simp add: rows_balance_def)
qed

lemma rebuilt_row_find:
  assumes "rebuilt_inv e m"
  shows "row_find balance_row_key (a, []) (js_values m) = js_get m (balance_key a [])"
proof -
  have "\<forall>(k, b) \<in> set m. k = balance_key (bs_address b) [] \<and> bs_asset_address b = []"
    using assms by (auto simp: rebuilt_inv_def)
  then show ?thesis by (induction m) (auto simp: js_values_def balance_row_key_def)
qed

lemma rebuild_balances_row:
  assumes "rebuild_balances_from_current_utxos w = Inr w'" and "a \<noteq> []"
  shows "case row_find balance_row_key (a, []) (ws_balances w') of
      None \<Rightarrow> \<not> list_ex (is_counted a) (ws_utxo_outputs w)
    | Some row \<Rightarrow> list_ex (is_counted a) (ws_utxo_outputs w)
        \<and> big_value (bs_balance row) = rows_balance a (ws_utxo_outputs w)
        \<and> bs_as_of_block_height row = max_applied_height (ws_applied_blocks w)"
proof -
  let ?e = "max_applied_height (ws_applied_blocks w)"
  from assms(1) obtain m where m: "fold_res (rebuild_balance_step ?e) (ws_utxo_outputs w) [] = Inr m"
    and w': "ws_balances w' = js_values m"
    by (auto simp: rebuild_balances_from_current_utxos_def res_simps)
  have init: "rebuilt_inv ?e []" by (simp add: rebuilt_inv_def)
  note facts = rebuild_fold_facts [OF m init assms(2)]
  show ?thesis
    using facts map_of_SomeD [of m "balance_key a []"]
    unfolding w' rebuilt_row_find [OF conjunct1 [OF facts]]
    by (fastforce simp: balance_of_def rebuilt_inv_def split: option.splits)
qed

section \<open>Address summaries\<close>

definition is_native_balance :: "string \<Rightarrow> balance_snapshot \<Rightarrow> bool" where
  "is_native_balance address b \<longleftrightarrow> bs_address b = address \<and> bs_asset_address b = []"

definition balance_or_zero :: "balance_snapshot option \<Rightarrow> string" where
  "balance_or_zero b = (case b of None \<Rightarrow> ''0'' | Some row \<Rightarrow> bs_balance row)"

definition get_native_balance :: "string \<Rightarrow> warehouse \<Rightarrow> string" where
  "get_native_balance address w = balance_or_zero (find (is_native_balance address) (ws_balances w))"

definition is_spendable_address_utxo :: "string \<Rightarrow> utxo_output \<Rightarrow> bool" where
  "is_spendable_address_utxo address o' \<longleftrightarrow>
     uo_address o' = address \<and> uo_is_spendable o' \<and> uo_spent_by_txid o' = None"

definition count_spendable_utxos :: "string \<Rightarrow> warehouse \<Rightarrow> int" where
  "count_spendable_utxos address w =
     int (length (filter (is_spendable_address_utxo address) (ws_utxo_outputs w)))"

definition current_address_summary_or_null :: "string \<Rightarrow> int \<Rightarrow> (string \<times> int) option" where
  "current_address_summary_or_null balance utxo_count =
     (if balance = ''0'' \<and> utxo_count = 0 then None else Some (balance, utxo_count))"

definition get_current_address_summary :: "string \<Rightarrow> warehouse \<Rightarrow> (string \<times> int) option" where
  "get_current_address_summary address w =
     current_address_summary_or_null (get_native_balance address w) (count_spendable_utxos address w)"

text \<open>
  After materialisation or recovery the address summary is exact: an address with no
  unspent spendable output has none, and any other address has the sum of the values and the
  number of its unspent spendable outputs.
\<close>

theorem materialized_address_summary:
  assumes "materialize_core_dogecoin_current_state w = Inr w'" and "a \<noteq> []"
  shows "if list_ex (is_counted a) (ws_utxo_outputs w)
         then \<exists>balance. get_current_address_summary a w'
                = Some (balance, int (length (filter (is_counted a) (ws_utxo_outputs w))))
              \<and> big_value balance = rows_balance a (ws_utxo_outputs w)
         else get_current_address_summary a w' = None"
proof -
  have w': "rebuild_balances_from_current_utxos w = Inr w'"
    using assms(1) by (simp add: materialize_core_dogecoin_current_state_def)
  have outs: "ws_utxo_outputs w' = ws_utxo_outputs w" using rebuild_balances_Inr [OF w'] by auto
  have "is_native_balance a = (\<lambda>b. balance_row_key b = (a, []))"
    by (auto simp: is_native_balance_def balance_row_key_def)
  then have row: "find (is_native_balance a) (ws_balances w') = row_find balance_row_key (a, []) (ws_balances w')"
    by (simp add: row_find_def)
  have counted: "is_spendable_address_utxo a = is_counted a"
    by (auto simp: is_spendable_address_utxo_def is_counted_def is_unspent_spendable_output_def)
  have none: "filter (is_counted a) (ws_utxo_outputs w) = [] \<longleftrightarrow> \<not> list_ex (is_counted a) (ws_utxo_outputs w)"
    by (auto simp: filter_empty_conv list_ex_iff)
  show ?thesis
    using rebuild_balances_row [OF w' assms(2)]
    by (auto simp: get_current_address_summary_def current_address_summary_or_null_def
        get_native_balance_def balance_or_zero_def row count_spendable_utxos_def counted outs none
        split: option.splits)
qed

section \<open>Witnesses\<close>

definition sample_warehouse :: warehouse where
  "sample_warehouse = empty_warehouse_state
     \<lparr>ws_applied_blocks := [\<lparr>ab_block_hash = ''h1'', ab_block_height = 1\<rparr>],
      ws_balances := [\<lparr>bs_address = ''DA'', bs_asset_address = [], bs_as_of_block_height = 1,
        bs_balance = ''7''\<rparr>],
      ws_utxo_outputs := [sample_output ''t:0'' ''7'']\<rparr>"

definition sample_window :: "core_block_application list" where
  "sample_window = [sample_application\<lparr>ca_utxo_creates
     := [(sample_output ''u:0'' ''5'')\<lparr>uo_block_height := 2, uo_txid := ''u''\<rparr>]\<rparr>]"

lemma sample_parse [simp]: "parse_amount_base ''5'' = Inr 5" "parse_amount_base ''7'' = Inr 7"
    "parse_amount_base ''12'' = Inr 12"
  by (simp_all add: parse_amount_base_text is_amount_text_def signed_value_def str_eval)

lemma sample_window_applied:
  "is_ok (apply_core_dogecoin_window sample_window sample_warehouse)"
  by (simp add: apply_core_dogecoin_window_def sample_window_def sample_warehouse_def
    pending_in_memory_core_applications_def has_applied_block_def is_applied_block_record_def
    sample_application_def sample_output_def empty_warehouse_state_def Let_def
    core_created_outputs_by_key_def js_map_of_def external_core_spend_keys_def get_utxo_outputs_def
    apply_in_memory_core_application_def core_application_transaction_facts_def
    group_core_outputs_by_txid_def group_core_spends_by_txid_def js_append_def
    core_transaction_fact_def require_analytics_output_def sum_res_def core_spend_value_def
    lookup_output_def core_application_address_movements_def core_create_address_movement_def
    core_spend_address_movement_def is_core_address_movement_output_def
    apply_batch_utxo_spends_def apply_batch_utxo_creates_def upsert_utxo_output_def
    apply_batch_utxo_spend_def require_utxo_output_def
    apply_batch_address_movements_def apply_batch_address_movement_if_unique_def append_unique_address_movement_def
    apply_balance_delta_def stored_next_balance_amount_def find_balance_snapshot_def balance_row_key_def movement_key_def
    apply_movement_amount_def assert_non_negative_balance_def write_balance_snapshot_def)

lemma sample_warehouse_facts:
  "all_below 2 sample_warehouse" "window_new 2 sample_warehouse sample_window"
  "one_per_height sample_warehouse" "gap_free sample_window sample_warehouse"
  "sorted_wrt (<) (map ca_block_height sample_window)" "sample_window \<noteq> []"
  by (simp_all add: all_below_def window_new_def one_per_height_def gap_free_def sample_warehouse_def
      sample_window_def sample_application_def sample_output_def empty_warehouse_state_def
      output_below_def is_clean_def)

theorem recover_undoes_window_witness:
  "\<exists>w' result. apply_core_dogecoin_window sample_window sample_warehouse = Inr (w', result)
     \<and> recover_core_dogecoin_window 2 w' = materialize_core_dogecoin_current_state sample_warehouse"
proof -
  obtain w' result where "apply_core_dogecoin_window sample_window sample_warehouse = Inr (w', result)"
    using sample_window_applied by (auto simp: is_ok_iff)
  with recover_undoes_window [OF this sample_warehouse_facts(1,2)] show ?thesis by blast
qed

theorem core_window_applied_once_witness:
  "\<exists>w' result. apply_core_dogecoin_window sample_window sample_warehouse = Inr (w', result)
     \<and> apply_core_dogecoin_window sample_window w'
         = Inr (w', \<lparr>ar_applied = False, ar_process_tail = 2\<rparr>)"
proof -
  obtain w' result where "apply_core_dogecoin_window sample_window sample_warehouse = Inr (w', result)"
    using sample_window_applied by (auto simp: is_ok_iff)
  moreover have "unapplied_core_window_result sample_window = \<lparr>ar_applied = False, ar_process_tail = 2\<rparr>"
    by (simp add: unapplied_core_window_result_def core_window_end_def sample_window_def sample_application_def)
  ultimately show ?thesis
    using core_window_applied_once [OF _ sample_warehouse_facts(6,3,4,5)] by auto
qed

lemma sample_materialized: "is_ok (materialize_core_dogecoin_current_state sample_warehouse)"
proof -
  have "js_bigint ''0'' = Inr 0" using js_bigint_int_str [of 0] by (simp add: str_eval)
  then show ?thesis
    by (simp add: materialize_core_dogecoin_current_state_def rebuild_balances_from_current_utxos_def
        rebuild_balance_step_def sample_warehouse_def sample_output_def empty_warehouse_state_def
        is_unspent_spendable_output_def Let_def)
qed

theorem materialized_address_summary_witness:
  "\<exists>w' balance. materialize_core_dogecoin_current_state sample_warehouse = Inr w'
     \<and> get_current_address_summary ''DA'' w' = Some (balance, 1) \<and> big_value balance = 7
     \<and> get_current_address_summary ''DC'' w' = None"
proof -
  obtain w' where w': "materialize_core_dogecoin_current_state sample_warehouse = Inr w'"
    using sample_materialized by (auto simp: is_ok_iff)
  have rows: "ws_utxo_outputs sample_warehouse = [sample_output ''t:0'' ''7'']"
    by (simp add: sample_warehouse_def)
  have out: "is_counted ''DA'' (sample_output ''t:0'' ''7'')" "\<not> is_counted ''DC'' (sample_output ''t:0'' ''7'')"
    "unspent_value ''DA'' (sample_output ''t:0'' ''7'') = 7"
    by (simp_all add: is_counted_def is_unspent_spendable_output_def sample_output_def
        unspent_value_def big_value_def)
  show ?thesis
    using materialized_address_summary [OF w', of "''DA''"] materialized_address_summary [OF w', of "''DC''"]
    by (simp add: w' rows out rows_balance_def)
qed

end
