(* ===== verification/Key_Ranges.thy ===== *)
theory Key_Ranges
  imports Js_Map "HOL-Library.List_Lexorder" "HOL-Library.Char_ord"
begin

text \<open>
  The key ranges that bounded statements work through: \<^verbatim>\<open>clickhouse-core-dogecoin.ts\<close> and
  \<^verbatim>\<open>stringRangesFromBoundaries\<close>, \<^verbatim>\<open>resumableCompletedRanges\<close> of \<^verbatim>\<open>warehouse.ts\<close>. Strings are
  compared by code unit, as both JavaScript and ClickHouse do; the theorems show that the
  ranges partition the key space, so no row is materialised twice or left out.
\<close>

section \<open>Ranges\<close>

record string_range =
  sr_start :: "string option"
  sr_end :: "string option"

text \<open>
  The condition the two clauses put on a column: \<^verbatim>\<open>column >= start\<close> and \<^verbatim>\<open>column < end\<close>, each
  left out when its bound is null.
\<close>

definition range_start_clause :: "string \<Rightarrow> string_range \<Rightarrow> bool" where
  "range_start_clause s r = (case sr_start r of None \<Rightarrow> True | Some b \<Rightarrow> b \<le> s)"

definition range_end_clause :: "string \<Rightarrow> string_range \<Rightarrow> bool" where
  "range_end_clause s r = (case sr_end r of None \<Rightarrow> True | Some b \<Rightarrow> s < b)"

definition range_clause :: "string \<Rightarrow> string_range \<Rightarrow> bool" where
  "range_clause s r \<longleftrightarrow> range_start_clause s r \<and> range_end_clause s r"

fun ranges_from :: "string option \<Rightarrow> string list \<Rightarrow> string_range list" where
  "ranges_from start [] = [\<lparr>sr_start = start, sr_end = None\<rparr>]"
| "ranges_from start (b # bs) = \<lparr>sr_start = start, sr_end = Some b\<rparr> # ranges_from (Some b) bs"

definition string_ranges_from_boundaries :: "string list \<Rightarrow> string_range list" where
  "string_ranges_from_boundaries boundaries =
     ranges_from None (sort (unique (filter (\<lambda>b. 0 < length b) boundaries)))"

definition resumable_completed_ranges :: "(int \<times> int) option \<Rightarrow> int \<Rightarrow> int" where
  "resumable_completed_ranges resume_from range_count =
     (case resume_from of
        None \<Rightarrow> 0
      | Some (completed, stored_count) \<Rightarrow>
          if stored_count \<noteq> range_count then 0 else max 0 (min range_count completed))"

section \<open>Hexadecimal output-key ranges\<close>

definition hex_digit :: "nat \<Rightarrow> char" where
  "hex_digit d = (if d < 10 then char_of (48 + d) else char_of (87 + d))"

fun hex_str :: "nat \<Rightarrow> string" where
  "hex_str n = (if n < 16 then [hex_digit n] else hex_str (n div 16) @ [hex_digit (n mod 16)])"

declare hex_str.simps [simp del]

definition core_current_state_output_range :: "nat \<Rightarrow> nat \<Rightarrow> nat \<Rightarrow> string_range" where
  "core_current_state_output_range v buckets p =
     \<lparr>sr_start = Some (pad_start p (CHR ''0'') (hex_str v)),
      sr_end = Some (if v = buckets - 1 then ''g'' else pad_start p (CHR ''0'') (hex_str (v + 1)))\<rparr>"

definition build_core_current_state_output_key_ranges :: "nat \<Rightarrow> string_range list" where
  "build_core_current_state_output_key_ranges p =
     (let buckets = 16 ^ p in
      \<lparr>sr_start = None, sr_end = Some (replicate p (CHR ''0''))\<rparr>
        # map (\<lambda>i. core_current_state_output_range i buckets p) [0..<buckets]
        @ [\<lparr>sr_start = Some ''g'', sr_end = None\<rparr>])"

definition core_current_state_range_prefix_length :: "int \<Rightarrow> nat" where
  "core_current_state_range_prefix_length created_rows =
     (if 256 * 1000000 < created_rows then 3 else 2)"

section \<open>Boundaries in ascending order cut the strings into ranges\<close>

lemma ranges_from_partition:
  assumes "sorted_wrt (<) bs" and "\<forall>b. start = Some b \<longrightarrow> b \<le> s \<and> (\<forall>c \<in> set bs. b < c)"
  shows "length (filter (range_clause s) (ranges_from start bs)) = 1"
  using assms
proof (induction bs arbitrary: start)
  case Nil
  then show ?case
    by (auto simp: range_clause_def range_start_clause_def range_end_clause_def split: option.splits)
next
  case (Cons b bs)
  have head: "range_clause s \<lparr>sr_start = start, sr_end = Some b\<rparr> \<longleftrightarrow> s < b"
    using Cons.prems(2)
    by (auto simp: range_clause_def range_start_clause_def range_end_clause_def split: option.splits)
  show ?case
  proof (cases "s < b")
    case False
    then have "\<forall>b'. Some b = Some b' \<longrightarrow> b' \<le> s \<and> (\<forall>c \<in> set bs. b' < c)"
      using Cons.prems(1) by auto
    with Cons.IH [OF _ this] Cons.prems(1) False head show ?thesis by simp
  next
    case True
    have "\<not> range_clause s r" if "r \<in> set (ranges_from (Some c) cs)" "s < c" "\<forall>d \<in> set cs. c < d"
      "sorted_wrt (<) cs" for r c cs
      using that
    proof (induction cs arbitrary: c)
      case Nil
      then show ?case by (auto simp: range_clause_def range_start_clause_def)
    next
      case (Cons d cs)
      then have "s < d" by (meson list.set_intros(1) order.strict_trans)
      with Cons show ?case by (auto simp: range_clause_def range_start_clause_def)
    qed
    then have "filter (range_clause s) (ranges_from (Some b) bs) = []"
      using Cons.prems(1) True by (auto simp: filter_empty_conv)
    then show ?thesis using True head by simp
  qed
qed

text \<open>
  Whatever boundaries the sampling query returns (in any order, repeated or empty), the
  ranges made of them cover every string exactly once.
\<close>

theorem string_ranges_partition:
  "length (filter (range_clause s) (string_ranges_from_boundaries boundaries)) = 1"
proof -
  let ?bs = "sort (unique (filter (\<lambda>b. 0 < length b) boundaries))"
  have "sorted_wrt (<) ?bs"
    by (simp add: strict_sorted_iff)
  then show ?thesis
    unfolding string_ranges_from_boundaries_def by (intro ranges_from_partition) simp_all
qed

section \<open>Padded hexadecimal numerals are ordered like the numbers\<close>

fun hex_fixed :: "nat \<Rightarrow> nat \<Rightarrow> string" where
  "hex_fixed 0 v = []"
| "hex_fixed (Suc p) v = hex_fixed p (v div 16) @ [hex_digit (v mod 16)]"

lemma length_hex_fixed [simp]: "length (hex_fixed p v) = p"
  by (induction p arbitrary: v) simp_all

lemma hex_digit_0 [simp]: "hex_digit 0 = CHR ''0''"
proof -
  have "of_char (CHR ''0'') = (48 :: nat)" by simp
  then have "char_of (48 :: nat) = CHR ''0''" by (metis char_of_char)
  then show ?thesis by (simp add: hex_digit_def)
qed

lemma hex_fixed_0: "hex_fixed p 0 = replicate p (CHR ''0'')"
  by (induction p) (simp_all add: replicate_append_same)

lemma pad_hex_str: "v < 16 ^ Suc p \<Longrightarrow> pad_start (Suc p) (CHR ''0'') (hex_str v) = hex_fixed (Suc p) v"
proof (induction p arbitrary: v)
  case 0
  then show ?case by (simp add: hex_str.simps [of v] pad_start_def)
next
  case (Suc p)
  show ?case
  proof (cases "v < 16")
    case True
    then show ?thesis
      by (simp add: hex_str.simps [of v] pad_start_def hex_fixed_0 replicate_append_same
          del: hex_fixed.simps(2)) (simp add: hex_fixed_0 replicate_append_same)
  next
    case False
    from Suc.prems have "v div 16 < 16 ^ Suc p" by (simp add: less_mult_imp_div_less mult.commute)
    from Suc.IH [OF this] False show ?thesis
      by (simp add: hex_str.simps [of v] pad_start_def del: hex_fixed.simps(2))
        (simp add: hex_fixed.simps(2) [of "Suc p"])
  qed
qed

lemma hex_digit_code: "d < 16 \<Longrightarrow> of_char (hex_digit d) = (if d < 10 then 48 + d else 87 + d :: nat)"
  by (simp add: hex_digit_def of_char_of)

lemma hex_digit_mono: "d < e \<Longrightarrow> e < 16 \<Longrightarrow> hex_digit d < hex_digit e"
  by (simp add: less_char_def hex_digit_code)

lemma append_less_append:
  "length xs = length ys \<Longrightarrow> (xs :: string) < ys \<Longrightarrow> xs @ zs < ys @ ws"
  by (induction xs ys rule: list_induct2) auto

lemma append_less_last: "(xs :: string) @ [a] < xs @ [b] \<longleftrightarrow> a < b"
  by (induction xs) simp_all

lemma hex_fixed_mono: "u < v \<Longrightarrow> v < 16 ^ p \<Longrightarrow> hex_fixed p u < hex_fixed p v"
proof (induction p arbitrary: u v)
  case 0
  then show ?case by simp
next
  case (Suc p)
  from Suc.prems(1) have "u div 16 < v div 16 \<or> u div 16 = v div 16 \<and> u mod 16 < v mod 16"
    by (metis div_le_mono div_mult_mod_eq le_neq_implies_less less_imp_le_nat nat_add_left_cancel_less)
  then show ?case
  proof
    assume lt: "u div 16 < v div 16"
    have "v div 16 < 16 ^ p" using Suc.prems(2) by (simp add: less_mult_imp_div_less mult.commute)
    from Suc.IH [OF lt this] show ?thesis by (simp add: append_less_append)
  next
    assume "u div 16 = v div 16 \<and> u mod 16 < v mod 16"
    then show ?thesis using hex_digit_mono [of "u mod 16" "v mod 16"] by (simp add: append_less_last)
  qed
qed

lemma hex_fixed_less_g: "hex_fixed (Suc p) v < ''g''"
proof (induction p arbitrary: v)
  case 0
  have "hex_digit (v mod 16) < CHR ''g''" by (simp add: less_char_def hex_digit_code)
  then show ?case by simp
next
  case (Suc p)
  obtain c cs where c: "hex_fixed (Suc p) (v div 16) = c # cs"
    by (metis length_Suc_conv length_hex_fixed)
  with Suc.IH [of "v div 16"] show ?case unfolding hex_fixed.simps(2) [of "Suc p"] c by auto
qed

definition hex_boundaries :: "nat \<Rightarrow> string list" where
  "hex_boundaries p = map (hex_fixed p) [0..<16 ^ p] @ [''g'']"

lemma hex_boundaries_sorted: "sorted_wrt (<) (hex_boundaries (Suc p))"
proof -
  have "sorted_wrt (<) (map (hex_fixed (Suc p)) [0..<16 ^ Suc p])"
    by (auto simp: sorted_wrt_iff_nth_less simp del: hex_fixed.simps intro!: hex_fixed_mono)
  moreover have "\<forall>x \<in> set (map (hex_fixed (Suc p)) [0..<16 ^ Suc p]). x < ''g''"
    using hex_fixed_less_g by auto
  ultimately show ?thesis unfolding hex_boundaries_def sorted_wrt_append by simp
qed

lemma hex_ranges_from:
  assumes "0 < p"
  shows "build_core_current_state_output_key_ranges p = ranges_from None (hex_boundaries p)"
proof -
  obtain q where q: "p = Suc q" using assms by (cases p) auto
  have pad: "pad_start p (CHR ''0'') (hex_str v) = hex_fixed p v" if "v < 16 ^ p" for v
    using pad_hex_str that by (simp add: q del: hex_fixed.simps)
  have tail: "ranges_from (Some (hex_fixed p i)) (map (hex_fixed p) [Suc i..<16 ^ p] @ [''g''])
      = map (\<lambda>i. core_current_state_output_range i (16 ^ p) p) [i..<16 ^ p]
        @ [\<lparr>sr_start = Some ''g'', sr_end = None\<rparr>]"
    if "i < 16 ^ p" for i
    using that
  proof (induction "16 ^ p - i" arbitrary: i)
    case 0
    then show ?case by simp
  next
    case (Suc n)
    show ?case
    proof (cases "Suc i = 16 ^ p")
      case True
      then have "[i..<16 ^ p] = [i]" "[Suc i..<16 ^ p] = []"
        by (metis upt_conv_Cons lessI upt_rec less_irrefl, simp)
      moreover have "i = 16 ^ p - Suc 0" using True by linarith
      ultimately show ?thesis using True Suc.prems
        by (simp add: core_current_state_output_range_def pad)
    next
      case False
      then have lt: "Suc i < 16 ^ p" using Suc.prems by simp
      have "[i..<16 ^ p] = i # [Suc i..<16 ^ p]" "[Suc i..<16 ^ p] = Suc i # [Suc (Suc i)..<16 ^ p]"
        using lt by (simp_all add: upt_conv_Cons)
      moreover have "i \<noteq> 16 ^ p - Suc 0" using lt by linarith
      ultimately show ?thesis using Suc.hyps(1) [of "Suc i"] Suc.hyps(2) lt
        by (simp add: core_current_state_output_range_def pad)
    qed
  qed
  have "[0..<16 ^ p] = 0 # [Suc 0..<16 ^ p]" by (simp add: upt_conv_Cons)
  then show ?thesis
    using tail [of 0]
    by (simp add: build_core_current_state_output_key_ranges_def Let_def hex_boundaries_def hex_fixed_0)
qed

text \<open>
  For every prefix length the materialisation can be split by, the hexadecimal ranges
  (one per prefix, one below and one above) cover every output key exactly once.
\<close>

theorem core_output_key_ranges_partition:
  "length (filter (range_clause key) (build_core_current_state_output_key_ranges
     (core_current_state_range_prefix_length created_rows))) = 1"
proof -
  let ?p = "core_current_state_range_prefix_length created_rows"
  have p: "?p = Suc (?p - 1)" by (simp add: core_current_state_range_prefix_length_def)
  then have "sorted_wrt (<) (hex_boundaries ?p)" by (metis hex_boundaries_sorted)
  moreover have "build_core_current_state_output_key_ranges ?p = ranges_from None (hex_boundaries ?p)"
    using p by (intro hex_ranges_from) simp
  ultimately show ?thesis by (simp add: ranges_from_partition)
qed

end
