(* ===== verification/Byte_Reader.thy ===== *)
theory Byte_Reader
  imports Amounts "HOL-Library.Word"
begin

text \<open>
  The byte reader of \<^verbatim>\<open>packages/platform/src/dogecoin-raw-block.ts\<close>, its hexadecimal text and
  the rendering of an amount in koinu.

  A \<open>Uint8Array\<close> is a list of 8-bit words; a reader is the array with an offset. A method of
  the reader takes the reader and returns the value with the advanced reader, or the error.
  \<^verbatim>\<open>subarray\<close> is \<open>take\<close> of \<open>drop\<close>; the bitwise operations on JavaScript numbers are
  operations on 32-bit words, read as unsigned (\<^verbatim>\<open>>>> 0\<close>) or as signed (\<^verbatim>\<open>| 0\<close>).

  \<open>reads f bs v\<close> says that the reader function \<open>f\<close> consumes exactly the bytes \<open>bs\<close>, wherever
  they stand in the array, and returns \<open>v\<close>; it composes along \<open>then_read\<close> and the loops.
  \<open>steady f\<close> says that \<open>f\<close> never moves backwards or past the end, and that bytes appended to
  the array do not change a successful result.
\<close>

unbundle bit_operations_syntax

named_theorems reads_intros \<open>reader functions that consume an encoding\<close>
named_theorems steady_intros \<open>reader functions that only look ahead of the offset\<close>

type_synonym byte = "8 word"

record byte_reader =
  rd_bytes :: "byte list"
  rd_offset :: nat

type_synonym 'a reading = "byte_reader \<Rightarrow> ('a \<times> byte_reader) res"

section \<open>Hexadecimal text\<close>

definition payload_prefix :: string where
  "payload_prefix = ''invalid dogecoin raw block payload: ''"

definition invalid_payload :: "string \<Rightarrow> js_error" where
  "invalid_payload detail = InfrastructureError (payload_prefix @ detail)"

definition hex_char :: "nat \<Rightarrow> char" where
  "hex_char d = (if d < 10 then char_of (48 + d) else char_of (87 + d))"

definition bytes_to_hex :: "byte list \<Rightarrow> string" where
  "bytes_to_hex bs = concat (map (\<lambda>b. [hex_char (unat b div 16), hex_char (unat b mod 16)]) bs)"

fun pair_bytes :: "string \<Rightarrow> byte list" where
  "pair_bytes (a # b # s) = word_of_nat (16 * radix_digit a + radix_digit b) # pair_bytes s"
| "pair_bytes _ = []"

definition hex_to_bytes :: "string \<Rightarrow> byte list res" where
  "hex_to_bytes hex =
     (let trimmed = js_trim hex
      in if length trimmed = 0 \<or> length trimmed mod 2 \<noteq> 0
            \<or> \<not> (trimmed \<noteq> [] \<and> list_all (\<lambda>c. radix_digit c < 16) trimmed)
         then Inl (invalid_payload ''not a hex string'')
         else Inr (pair_bytes trimmed))"

lemma radix_digit_hex_char: "d < 16 \<Longrightarrow> radix_digit (hex_char d) = d"
  by (auto simp: radix_digit_def hex_char_def char_code_def of_char_of Let_def)

lemma hex_char_not_space: "d < 16 \<Longrightarrow> \<not> is_js_space (hex_char d)"
  by (auto simp: is_js_space_def hex_char_def char_code_def of_char_of)

lemma unat_byte: "unat (b :: byte) < 256"
  using unsigned_less [of b] by simp

lemma byte_div_16: "unat (b :: byte) div 16 < 16"
  using unat_byte [of b] by simp

lemma byte_join: "word_of_nat (16 * (unat (b :: byte) div 16) + unat b mod 16) = b"
  by simp

lemma length_bytes_to_hex [simp]: "length (bytes_to_hex bs) = 2 * length bs"
  by (induction bs) (simp_all add: bytes_to_hex_def)

lemma bytes_to_hex_Cons:
  "bytes_to_hex (b # bs) = hex_char (unat b div 16) # hex_char (unat b mod 16) # bytes_to_hex bs"
  by (simp add: bytes_to_hex_def)

lemma bytes_to_hex_append: "bytes_to_hex (as @ bs) = bytes_to_hex as @ bytes_to_hex bs"
  by (simp add: bytes_to_hex_def)

lemma pair_bytes_to_hex [simp]: "pair_bytes (bytes_to_hex bs) = bs"
proof (induction bs)
  case Nil
  then show ?case by (simp add: bytes_to_hex_def)
next
  case (Cons b bs)
  then show ?case by (simp add: bytes_to_hex_Cons radix_digit_hex_char byte_div_16 byte_join)
qed

lemma bytes_to_hex_chars: "c \<in> set (bytes_to_hex bs) \<Longrightarrow> radix_digit c < 16 \<and> \<not> is_js_space c"
  by (auto simp: bytes_to_hex_def radix_digit_hex_char hex_char_not_space byte_div_16)

lemma hex_to_bytes_to_hex:
  assumes "bs \<noteq> []" shows "hex_to_bytes (bytes_to_hex bs) = Inr bs"
proof -
  have ne: "bytes_to_hex bs \<noteq> []" using assms by (simp flip: length_greater_0_conv)
  have "js_trim (bytes_to_hex bs) = bytes_to_hex bs"
    using ne bytes_to_hex_chars hd_in_set last_in_set by (intro js_trim_id) blast
  then show ?thesis using ne assms bytes_to_hex_chars
    by (simp add: hex_to_bytes_def Let_def list_all_iff)
qed

lemma bytes_to_hex_inject [simp]: "bytes_to_hex as = bytes_to_hex bs \<longleftrightarrow> as = bs"
  by (metis pair_bytes_to_hex)

section \<open>The reader\<close>

definition assert_available :: "nat \<Rightarrow> byte_reader \<Rightarrow> unit res" where
  "assert_available n r =
     (if length (rd_bytes r) < rd_offset r + n
      then Inl (invalid_payload (''read past end at offset '' @ nat_str (rd_offset r)))
      else Inr ())"

definition peek :: "nat \<Rightarrow> byte_reader \<Rightarrow> byte list res" where
  "peek n r =
     and_then (assert_available n r) (\<lambda>_. Inr (take n (drop (rd_offset r) (rd_bytes r))))"

definition read_bytes :: "nat \<Rightarrow> byte list reading" where
  "read_bytes n r = and_then (peek n r) (\<lambda>v. Inr (v, r\<lparr>rd_offset := rd_offset r + n\<rparr>))"

definition skip :: "nat \<Rightarrow> unit reading" where
  "skip n r = and_then (assert_available n r) (\<lambda>_. Inr ((), r\<lparr>rd_offset := rd_offset r + n\<rparr>))"

definition slice :: "nat \<Rightarrow> nat \<Rightarrow> byte_reader \<Rightarrow> byte list" where
  "slice start end' r = take (end' - start) (drop start (rd_bytes r))"

text \<open>\<^verbatim>\<open>bytes[i] ?? 0\<close>.\<close>

definition byte_at :: "byte list \<Rightarrow> nat \<Rightarrow> byte" where
  "byte_at bs i = (if i < length bs then bs ! i else 0)"

definition le_word32 :: "byte list \<Rightarrow> 32 word" where
  "le_word32 bs = ucast (byte_at bs 0) OR push_bit 8 (ucast (byte_at bs 1))
     OR push_bit 16 (ucast (byte_at bs 2)) OR push_bit 24 (ucast (byte_at bs 3))"

definition read_uint32_le :: "nat reading" where
  "read_uint32_le r = and_then (read_bytes 4 r) (\<lambda>(bs, r'). Inr (unat (le_word32 bs), r'))"

definition read_int32_le :: "int reading" where
  "read_int32_le r =
     and_then (read_uint32_le r) (\<lambda>(n, r'). Inr (sint (word_of_nat n :: 32 word), r'))"

definition read_int64_le :: "int reading" where
  "read_int64_le r =
     and_then (read_uint32_le r) (\<lambda>(low, r1).
     and_then (read_uint32_le r1) (\<lambda>(high, r2).
     Inr (sint (word_of_nat high :: 32 word) * 2 ^ 32 + int low, r2)))"

definition read_compact_size :: "nat reading" where
  "read_compact_size r =
     and_then (read_bytes 1 r) (\<lambda>(bs, r1).
     let first = byte_at bs 0
     in if first < 0xfd then Inr (unat first, r1)
        else if first = 0xfd then
          and_then (read_bytes 2 r1) (\<lambda>(bs', r2).
          Inr (unat ((ucast (byte_at bs' 0) :: 32 word) OR push_bit 8 (ucast (byte_at bs' 1))), r2))
        else if first = 0xfe then read_uint32_le r1
        else Inl (invalid_payload ''compact size exceeds 32 bits''))"

definition read_hash :: "string reading" where
  "read_hash r = and_then (read_bytes 32 r) (\<lambda>(bs, r'). Inr (bytes_to_hex (rev bs), r'))"

definition assert_consumed :: "byte_reader \<Rightarrow> unit res" where
  "assert_consumed r =
     (if rd_offset r \<noteq> length (rd_bytes r)
      then Inl (invalid_payload
             (''trailing '' @ int_str (int (length (rd_bytes r)) - int (rd_offset r)) @ '' bytes''))
      else Inr ())"

text \<open>Two calls in sequence, and a loop that collects the results of its iterations.\<close>

definition then_read :: "'a reading \<Rightarrow> ('a \<Rightarrow> 'b reading) \<Rightarrow> 'b reading" where
  "then_read f g r = and_then (f r) (\<lambda>(v, r'). g v r')"

definition give :: "'a \<Rightarrow> 'a reading" where
  "give v r = Inr (v, r)"

fun read_loop :: "(nat \<Rightarrow> 'a reading) \<Rightarrow> nat \<Rightarrow> nat \<Rightarrow> 'a list reading" where
  "read_loop f i 0 = give []"
| "read_loop f i (Suc n) =
     then_read (f i) (\<lambda>v. then_read (read_loop f (Suc i) n) (\<lambda>vs. give (v # vs)))"

section \<open>Consuming an encoding\<close>

abbreviation at_offset :: "byte list \<Rightarrow> nat \<Rightarrow> byte_reader" where
  "at_offset bs i \<equiv> \<lparr>rd_bytes = bs, rd_offset = i\<rparr>"

definition reads :: "'a reading \<Rightarrow> byte list \<Rightarrow> 'a \<Rightarrow> bool" where
  "reads f bs v \<longleftrightarrow> (\<forall>pre rest. f (at_offset (pre @ bs @ rest) (length pre))
     = Inr (v, at_offset (pre @ bs @ rest) (length pre + length bs)))"

lemma readsD:
  "reads f bs v \<Longrightarrow> f (at_offset (pre @ bs @ rest) (length pre))
     = Inr (v, at_offset (pre @ bs @ rest) (length pre + length bs))"
  by (simp add: reads_def)

lemma reads_give [reads_intros]: "reads (give v) [] v"
  by (simp add: reads_def give_def)

lemma reads_then_read:
  assumes "reads f as u" and "reads (g u) bs v"
  shows "reads (then_read f g) (as @ bs) v"
  unfolding reads_def
proof (intro allI)
  fix pre rest :: "byte list"
  show "then_read f g (at_offset (pre @ (as @ bs) @ rest) (length pre))
      = Inr (v, at_offset (pre @ (as @ bs) @ rest) (length pre + length (as @ bs)))"
    using readsD [OF assms(1), of pre "bs @ rest"] readsD [OF assms(2), of "pre @ as" rest]
    by (simp add: then_read_def)
qed

lemma reads_loop:
  assumes "\<And>j. j < length xs \<Longrightarrow> reads (f (i + j)) (e (xs ! j)) (d (i + j) (xs ! j))"
  shows "reads (read_loop f i (length xs)) (concat (map e xs))
           (map (\<lambda>(j, x). d j x) (List.enumerate i xs))"
  using assms
proof (induction xs arbitrary: i)
  case Nil
  then show ?case by (simp add: reads_give)
next
  case (Cons x xs)
  have hd: "reads (f i) (e x) (d i x)" using Cons.prems [of 0] by simp
  have "reads (read_loop f (Suc i) (length xs)) (concat (map e xs))
      (map (\<lambda>(j, x). d j x) (List.enumerate (Suc i) xs))"
    using Cons.prems [of "Suc j" for j] by (intro Cons.IH) simp
  from reads_then_read [OF hd reads_then_read [OF this reads_give]] show ?case by simp
qed

lemma reads_read_bytes [reads_intros]: "reads (read_bytes (length bs)) bs bs"
  by (simp add: reads_def read_bytes_def peek_def assert_available_def)

lemma reads_skip: "n = length bs \<Longrightarrow> reads (skip n) bs ()"
  by (simp add: reads_def skip_def assert_available_def)

section \<open>The wire encodings\<close>

definition le32 :: "32 word \<Rightarrow> byte list" where
  "le32 w = [ucast w, ucast (drop_bit 8 w), ucast (drop_bit 16 w), ucast (drop_bit 24 w)]"

definition le64 :: "64 word \<Rightarrow> byte list" where
  "le64 w = le32 (ucast w) @ le32 (ucast (drop_bit 32 w))"

text \<open>The canonical compact size of a count below \<open>2 ^ 32\<close>.\<close>

definition compact :: "nat \<Rightarrow> byte list" where
  "compact n =
     (if n < 253 then [word_of_nat n]
      else if n < 65536 then [0xfd, word_of_nat n, word_of_nat (n div 256)]
      else 0xfe # le32 (word_of_nat n))"

lemma length_le32 [simp]: "length (le32 w) = 4"
  by (simp add: le32_def)

lemma le_word32_le32 [simp]: "le_word32 (le32 w) = w"
proof (rule bit_word_eqI)
  fix n assume "n < LENGTH(32)"
  then have "n < 8 \<or> 8 \<le> n \<and> n < 16 \<or> 16 \<le> n \<and> n < 24 \<or> 24 \<le> n \<and> n < 32" by auto
  then show "bit (le_word32 (le32 w)) n = bit w n"
    by (elim disjE) (auto simp: le_word32_def le32_def byte_at_def bit_simps)
qed

lemma reads_uint32 [reads_intros]: "reads read_uint32_le (le32 w) (unat w)"
  using readsD [OF reads_read_bytes [of "le32 w"]]
  by (simp add: reads_def read_uint32_le_def)

lemma reads_int32 [reads_intros]: "reads read_int32_le (le32 w) (sint w)"
  using readsD [OF reads_uint32 [of w]] by (simp add: reads_def read_int32_le_def)

lemma sint_high_low:
  "sint (ucast (drop_bit 32 w) :: 32 word) * 2 ^ 32 + uint (ucast w :: 32 word) = sint (w :: 64 word)"
proof -
  have "sint (ucast (drop_bit 32 w) :: 32 word) = drop_bit 32 (sint w)"
    by (rule bit_eqI) (simp add: bit_simps min_def)
  moreover have "uint (ucast w :: 32 word) = take_bit 32 (sint w)"
    by (rule bit_eqI) (auto simp: bit_simps)
  moreover have "drop_bit 32 (sint w) * 2 ^ 32 + take_bit 32 (sint w) = sint w"
    using bits_ident [of 32 "sint w"] by (simp add: push_bit_eq_mult)
  ultimately show ?thesis by simp
qed

lemma reads_int64 [reads_intros]: "reads read_int64_le (le64 w) (sint w)"
  unfolding reads_def
proof (intro allI)
  fix pre rest :: "byte list"
  let ?l = "le32 (ucast w)" and ?h = "le32 (ucast (drop_bit 32 w))"
  show "read_int64_le (at_offset (pre @ le64 w @ rest) (length pre))
      = Inr (sint w, at_offset (pre @ le64 w @ rest) (length pre + length (le64 w)))"
    using readsD [OF reads_uint32 [of "ucast w"], of pre "?h @ rest"]
      readsD [OF reads_uint32 [of "ucast (drop_bit 32 w)"], of "pre @ ?l" rest]
    by (simp add: read_int64_le_def le64_def add.commute flip: sint_high_low)
qed

lemma le_word16:
  assumes "n < 65536"
  shows "unat ((ucast (word_of_nat n :: byte) :: 32 word)
    OR push_bit 8 (ucast (word_of_nat (n div 256) :: byte))) = n"
proof -
  have high: "\<not> bit n i" if "16 \<le> i" for i
  proof -
    have "take_bit 16 n = n" using assms by (simp add: take_bit_nat_eq_self)
    then show ?thesis using that by (metis bit_take_bit_iff not_less)
  qed
  have d: "n div 256 = drop_bit 8 n" by (simp add: drop_bit_eq_div)
  have "(ucast (word_of_nat n :: byte) :: 32 word)
    OR push_bit 8 (ucast (word_of_nat (n div 256) :: byte)) = word_of_nat n"
  proof (rule bit_word_eqI)
    fix i assume "i < LENGTH(32)"
    then have "i < 8 \<or> 8 \<le> i \<and> i < 16 \<or> 16 \<le> i \<and> i < 32" by auto
    then show "bit ((ucast (word_of_nat n :: byte) :: 32 word)
        OR push_bit 8 (ucast (word_of_nat (n div 256) :: byte))) i = bit (word_of_nat n :: 32 word) i"
      by (elim disjE) (auto simp: d bit_simps high)
  qed
  then show ?thesis using assms by (simp add: unat_of_nat)
qed

lemma reads_compact [reads_intros]:
  assumes "n < 2 ^ 32" shows "reads read_compact_size (compact n) n"
proof -
  consider "n < 253" | "253 \<le> n" "n < 65536" | "65536 \<le> n" by linarith
  then show ?thesis
  proof cases
    case 1
    then have "(word_of_nat n :: byte) < 0xfd"
      by (simp add: word_less_nat_alt take_bit_nat_eq_self unat_of_nat)
    with 1 show ?thesis
      using readsD [OF reads_read_bytes [of "[word_of_nat n]"]]
      by (simp add: reads_def read_compact_size_def compact_def byte_at_def unat_of_nat Let_def)
  next
    case 2
    let ?b = "[word_of_nat n, word_of_nat (n div 256)] :: byte list"
    show ?thesis unfolding reads_def
    proof (intro allI)
      fix pre rest :: "byte list"
      show "read_compact_size (at_offset (pre @ compact n @ rest) (length pre))
          = Inr (n, at_offset (pre @ compact n @ rest) (length pre + length (compact n)))"
        using readsD [OF reads_read_bytes [of "[0xfd]"], of pre "?b @ rest"] 2
          readsD [OF reads_read_bytes [of ?b], of "pre @ [0xfd]" rest] le_word16 [of n]
        by (simp add: read_compact_size_def compact_def byte_at_def Let_def numeral_2_eq_2)
    qed
  next
    case 3
    let ?b = "le32 (word_of_nat n)"
    have n: "unat (word_of_nat n :: 32 word) = n" using assms by (simp add: unat_of_nat)
    show ?thesis unfolding reads_def
    proof (intro allI)
      fix pre rest :: "byte list"
      show "read_compact_size (at_offset (pre @ compact n @ rest) (length pre))
          = Inr (n, at_offset (pre @ compact n @ rest) (length pre + length (compact n)))"
        using readsD [OF reads_read_bytes [of "[0xfe]"], of pre "?b @ rest"] 3 n
          readsD [OF reads_uint32 [of "word_of_nat n"], of "pre @ [0xfe]" rest]
        by (simp add: read_compact_size_def compact_def byte_at_def Let_def)
    qed
  qed
qed

section \<open>Looking ahead only\<close>

definition steady :: "'a reading \<Rightarrow> bool" where
  "steady f \<longleftrightarrow> (\<forall>bs i v r'. i \<le> length bs \<longrightarrow> f (at_offset bs i) = Inr (v, r') \<longrightarrow>
     (\<exists>j. r' = at_offset bs j \<and> i \<le> j \<and> j \<le> length bs
        \<and> (\<forall>ext. f (at_offset (bs @ ext) i) = Inr (v, at_offset (bs @ ext) j))))"

lemma steadyI:
  assumes "\<And>bs i v r'. i \<le> length bs \<Longrightarrow> f (at_offset bs i) = Inr (v, r') \<Longrightarrow>
     \<exists>j. r' = at_offset bs j \<and> i \<le> j \<and> j \<le> length bs
        \<and> (\<forall>ext. f (at_offset (bs @ ext) i) = Inr (v, at_offset (bs @ ext) j))"
  shows "steady f"
  using assms unfolding steady_def by blast

lemma steadyE:
  assumes "steady f" and "f (at_offset bs i) = Inr (v, r')" and "i \<le> length bs"
  obtains j where "r' = at_offset bs j" "i \<le> j" "j \<le> length bs"
    "\<And>ext. f (at_offset (bs @ ext) i) = Inr (v, at_offset (bs @ ext) j)"
  using assms unfolding steady_def by meson

lemma steady_give [steady_intros]: "steady (give v)"
  by (simp add: steady_def give_def)

lemma steady_fail [steady_intros]: "steady (\<lambda>r. Inl e)"
  by (simp add: steady_def)

lemma steady_then_read [steady_intros]:
  assumes f: "steady f" and g: "\<And>v. steady (g v)"
  shows "steady (then_read f g)"
proof (rule steadyI)
  fix bs i v r' assume i: "i \<le> length bs" and run: "then_read f g (at_offset bs i) = Inr (v, r')"
  from run obtain u r1 where u: "f (at_offset bs i) = Inr (u, r1)" and v: "g u r1 = Inr (v, r')"
    by (auto simp: then_read_def res_simps)
  from f u i obtain j where j: "r1 = at_offset bs j" "i \<le> j" "j \<le> length bs"
    and fe: "\<And>ext. f (at_offset (bs @ ext) i) = Inr (u, at_offset (bs @ ext) j)"
    by (rule steadyE) blast
  from g v j(3) obtain k where k: "r' = at_offset bs k" "j \<le> k" "k \<le> length bs"
    and ge: "\<And>ext. g u (at_offset (bs @ ext) j) = Inr (v, at_offset (bs @ ext) k)"
    unfolding j(1) by (rule steadyE) blast
  show "\<exists>j. r' = at_offset bs j \<and> i \<le> j \<and> j \<le> length bs
        \<and> (\<forall>ext. then_read f g (at_offset (bs @ ext) i) = Inr (v, at_offset (bs @ ext) j))"
    using k j(2) by (intro exI [of _ k]) (simp add: then_read_def fe ge)
qed

lemma steady_loop [steady_intros]: "(\<And>j. steady (f j)) \<Longrightarrow> steady (read_loop f i n)"
  by (induction n arbitrary: i) (simp_all add: steady_intros)

lemma steady_read_bytes [steady_intros]: "steady (read_bytes n)"
  by (auto simp: steady_def read_bytes_def peek_def assert_available_def res_simps split: if_splits)

lemma steady_skip [steady_intros]: "steady (skip n)"
  by (auto simp: steady_def skip_def assert_available_def split: if_splits)

text \<open>The methods of the reader in terms of \<open>then_read\<close>.\<close>

lemma read_uint32_le_eq: "read_uint32_le = then_read (read_bytes 4) (\<lambda>bs. give (unat (le_word32 bs)))"
  by (rule ext) (simp add: read_uint32_le_def then_read_def give_def)

lemma read_int32_le_eq:
  "read_int32_le = then_read read_uint32_le (\<lambda>n. give (sint (word_of_nat n :: 32 word)))"
  by (rule ext) (simp add: read_int32_le_def then_read_def give_def)

lemma read_int64_le_eq:
  "read_int64_le = then_read read_uint32_le (\<lambda>low. then_read read_uint32_le (\<lambda>high.
     give (sint (word_of_nat high :: 32 word) * 2 ^ 32 + int low)))"
  by (rule ext) (simp add: read_int64_le_def then_read_def give_def)

lemma read_hash_eq: "read_hash = then_read (read_bytes 32) (\<lambda>bs. give (bytes_to_hex (rev bs)))"
  by (rule ext) (simp add: read_hash_def then_read_def give_def)

lemma read_compact_size_eq:
  "read_compact_size = then_read (read_bytes 1) (\<lambda>bs.
     if byte_at bs 0 < 0xfd then give (unat (byte_at bs 0))
     else if byte_at bs 0 = 0xfd then then_read (read_bytes 2) (\<lambda>bs'.
       give (unat ((ucast (byte_at bs' 0) :: 32 word) OR push_bit 8 (ucast (byte_at bs' 1)))))
     else if byte_at bs 0 = 0xfe then read_uint32_le
     else (\<lambda>_. Inl (invalid_payload ''compact size exceeds 32 bits'')))"
  by (rule ext) (auto simp: read_compact_size_def then_read_def give_def Let_def
      intro!: and_then_cong)

lemma steady_uint32 [steady_intros]: "steady read_uint32_le"
  unfolding read_uint32_le_eq by (intro steady_intros)

lemma steady_int32 [steady_intros]: "steady read_int32_le"
  unfolding read_int32_le_eq by (intro steady_intros)

lemma steady_int64 [steady_intros]: "steady read_int64_le"
  unfolding read_int64_le_eq by (intro steady_intros)

lemma steady_hash [steady_intros]: "steady read_hash"
  unfolding read_hash_eq by (intro steady_intros)

lemma steady_if [steady_intros]: "steady f \<Longrightarrow> steady g \<Longrightarrow> steady (if b then f else g)"
  by simp

lemma steady_compact [steady_intros]: "steady read_compact_size"
  unfolding read_compact_size_eq by (intro steady_intros)

lemma reads_hash [reads_intros]: "length bs = 32 \<Longrightarrow> reads read_hash bs (bytes_to_hex (rev bs))"
  using readsD [OF reads_read_bytes [of bs]] by (simp add: reads_def read_hash_def)

section \<open>Amounts in koinu\<close>

definition format_koinu :: "int \<Rightarrow> string" where
  "format_koinu v =
     (let negative = v < 0;
          magnitude = (if negative then - v else v);
          whole = magnitude div 100000000;
          fraction = pad_start 8 (CHR ''0'') (int_str (magnitude mod 100000000))
      in (if negative then ''-'' else []) @ int_str whole @ ''.'' @ fraction)"

lemma length_nat_str: "n < 10 ^ Suc k \<Longrightarrow> length (nat_str n) \<le> Suc k"
proof (induction k arbitrary: n)
  case 0
  then show ?case by (subst nat_str.simps) simp
next
  case (Suc k)
  show ?case
  proof (cases "n < 10")
    case True
    then show ?thesis by (subst nat_str.simps) simp
  next
    case False
    from Suc.prems have "n div 10 < 10 ^ Suc k" by (simp add: less_mult_imp_div_less)
    with Suc.IH [of "n div 10"] False show ?thesis by (subst nat_str.simps) simp
  qed
qed

lemma format_koinu_parts:
  fixes v :: int
  defines "m \<equiv> nat \<bar>v\<bar>"
  shows "format_koinu v = (if v < 0 then ''-'' else [])
    @ nat_str (m div 10 ^ 8) @ ''.'' @ pad_start 8 (CHR ''0'') (nat_str (m mod 10 ^ 8))"
proof -
  have "int_str (\<bar>v\<bar> div 100000000) = nat_str (m div 10 ^ 8)"
    "int_str (\<bar>v\<bar> mod 100000000) = nat_str (m mod 10 ^ 8)"
    by (simp_all add: int_str_def m_def nat_div_distrib nat_mod_distrib)
  then show ?thesis
    by (cases "v < 0") (simp_all add: format_koinu_def Let_def)
qed

lemma koinu_fraction:
  fixes m :: nat
  defines "f \<equiv> pad_start 8 (CHR ''0'') (nat_str (m mod 10 ^ 8))"
  shows "length f = 8" and "all_digits f" and "digits_value f = m mod 10 ^ 8"
proof -
  have "length (nat_str (m mod 10 ^ 8)) \<le> 8"
    using length_nat_str [of "m mod 10 ^ 8" 7] by simp
  then show len: "length f = 8" by (simp add: f_def)
  have "f \<noteq> []" using len by auto
  then show "all_digits f" by (simp add: f_def all_digits_def str_simps nat_str_digits)
  show "digits_value f = m mod 10 ^ 8" by (simp add: f_def)
qed

lemma js_trim_format_koinu: "js_trim (format_koinu v) = format_koinu v"
proof (rule js_trim_id, rule disjI2, rule conjI)
  let ?m = "nat \<bar>v\<bar>"
  let ?f = "pad_start 8 (CHR ''0'') (nat_str (?m mod 10 ^ 8))"
  have f: "all_digits ?f" by (rule koinu_fraction)
  then show "\<not> is_js_space (last (format_koinu v))"
    by (simp add: format_koinu_parts all_digits_def list_all_iff is_digit_not_space)
  obtain c cs where c: "nat_str (?m div 10 ^ 8) = c # cs" by (cases "nat_str (?m div 10 ^ 8)") auto
  then show "\<not> is_js_space (hd (format_koinu v))"
    using nat_str_head_digit [OF c] by (simp add: format_koinu_parts is_digit_not_space minus_not_space)
qed

lemma from_decimal_format_koinu:
  "from_decimal_units (Amount_Text (format_koinu v)) 8 = Inr (int_str v)"
proof -
  let ?m = "nat \<bar>v\<bar>" and ?sg = "if v < 0 then ''-'' else []"
  let ?w = "nat_str (?m div 10 ^ 8)" and ?f = "pad_start 8 (CHR ''0'') (nat_str (?m mod 10 ^ 8))"
  note f = koinu_fraction [of ?m]
  have "split_decimal (?w @ ''.'' @ ?f) = Some (?w, ?f)"
    by (intro split_decimal_point all_digits_nat_str f)
  then have "decimal_match (?sg @ ?w @ ''.'' @ ?f) = Some (?sg, ?w, ?f)"
    by (rule decimal_match_signed) simp
  then have "decimal_match (decimal_unit_source (Amount_Text (format_koinu v)) 8) = Some (?sg, ?w, ?f)"
    by (simp only: decimal_unit_source.simps js_trim_format_koinu) (simp only: format_koinu_parts)
  moreover have "\<not> has_excess_decimal_precision ?f 8"
    by (simp only: has_excess_decimal_precision_def f) simp
  ultimately have "from_decimal_units (Amount_Text (format_koinu v)) 8
      = Inr (?sg @ nat_str (digits_value (?w @ pad_end 8 (CHR ''0'') (take 8 ?f))))"
    by (rule from_decimal_units_matched)
  moreover have "pad_end 8 (CHR ''0'') (take 8 ?f) = ?f" using f(1) by (simp add: pad_end_def del: length_pad_start)
  moreover have "digits_value (?w @ ?f) = ?m"
    by (simp only: digits_value_append f digits_value_nat_str) simp
  ultimately show ?thesis by (simp add: int_str_def)
qed

text \<open>
  An output value decoded from a raw block reaches the ledger unchanged: for every integer
  amount of koinu, of any size and sign, \<open>fromDecimalUnits\<close> with eight decimals of the text
  that \<open>formatKoinu\<close> writes is the decimal text of that amount.
\<close>

theorem format_koinu_roundtrip:
  "from_decimal_units (Amount_Text (format_koinu v)) 8 = Inr (int_str v)"
  by (rule from_decimal_format_koinu)

end
