(* ===== verification/Dogecoin_Script.thy ===== *)
theory Dogecoin_Script
  imports Byte_Reader
begin

text \<open>
  Output scripts and addresses, from \<^verbatim>\<open>packages/platform/src/dogecoin-raw-block.ts\<close>: the
  Base58Check encoding, the reader of data pushes and the classification of an output script.

  The two digests of the runtime's \<^verbatim>\<open>node:crypto\<close> are the fields of \<open>crypto\<close>, an argument of
  the model. An opcode is a byte; an access beyond the script (\<^verbatim>\<open>undefined\<close>) is \<open>None\<close>.
  \<open>push_token\<close> is the grammar of one data push, against which the reader is proved.
\<close>

record crypto =
  cr_sha256 :: "byte list \<Rightarrow> byte list"
  cr_ripemd160 :: "byte list \<Rightarrow> byte list"

record address_prefixes =
  ap_pubkey_hash :: int
  ap_script_hash :: int

definition dogecoin_mainnet_address_prefixes :: address_prefixes where
  "dogecoin_mainnet_address_prefixes = \<lparr>ap_pubkey_hash = 0x1e, ap_script_hash = 0x16\<rparr>"

section \<open>Base58Check\<close>

definition hash160 :: "crypto \<Rightarrow> byte list \<Rightarrow> byte list" where
  "hash160 c bs = cr_ripemd160 c (cr_sha256 c bs)"

definition sha256d_bytes :: "crypto \<Rightarrow> byte list \<Rightarrow> byte list" where
  "sha256d_bytes c bs = cr_sha256 c (cr_sha256 c bs)"

definition sha256d :: "crypto \<Rightarrow> byte list \<Rightarrow> string" where
  "sha256d c bs = bytes_to_hex (rev (sha256d_bytes c bs))"

definition base58_alphabet :: string where
  "base58_alphabet = ''123456789ABCDEFGHJKLMNPQRSTUVWXYZabcdefghijkmnopqrstuvwxyz''"

definition bytes_value :: "byte list \<Rightarrow> nat" where
  "bytes_value bs = foldl (\<lambda>v b. v * 256 + unat b) 0 bs"

fun base58_digits :: "nat \<Rightarrow> string \<Rightarrow> string" where
  "base58_digits v encoded =
     (if v = 0 then encoded
      else base58_digits (v div 58) (base58_alphabet ! (v mod 58) # encoded))"

declare base58_digits.simps [simp del]

definition encode_base58 :: "byte list \<Rightarrow> string" where
  "encode_base58 bs =
     replicate (length (takeWhile (\<lambda>b. b = 0) bs)) (CHR ''1'') @ base58_digits (bytes_value bs) []"

definition encode_base58_check :: "crypto \<Rightarrow> int \<Rightarrow> byte list \<Rightarrow> string" where
  "encode_base58_check c version payload =
     (let body = word_of_int version # payload
      in encode_base58 (body @ take 4 (sha256d_bytes c body)))"

lemma base58_digits_acc: "base58_digits v s = base58_digits v [] @ s"
proof (induction v arbitrary: s rule: less_induct)
  case (less v)
  show ?case
  proof (cases "v = 0")
    case True
    then show ?thesis by (simp add: base58_digits.simps)
  next
    case False
    let ?c = "base58_alphabet ! (v mod 58)"
    have d: "v div 58 < v" using False by simp
    have "base58_digits v s = base58_digits (v div 58) [] @ ?c # s"
      using False less.IH [OF d, of "?c # s"] by (subst base58_digits.simps) simp
    moreover have "base58_digits v [] = base58_digits (v div 58) [] @ [?c]"
      using False less.IH [OF d, of "[?c]"] by (subst base58_digits.simps) simp
    ultimately show ?thesis by simp
  qed
qed

lemma base58_digits_snoc:
  assumes "0 < v"
  shows "base58_digits v [] = base58_digits (v div 58) [] @ [base58_alphabet ! (v mod 58)]"
  using assms base58_digits_acc [of "v div 58" "[base58_alphabet ! (v mod 58)]"]
  by (subst base58_digits.simps) simp

lemma base58_digits_0 [simp]: "base58_digits 0 [] = []"
  by (simp add: base58_digits.simps)

lemma base58_digits_empty: "base58_digits v [] = [] \<longleftrightarrow> v = 0"
  using base58_digits_snoc [of v] by (cases "v = 0") simp_all

lemma base58_alphabet_facts: "length base58_alphabet = 58" "distinct base58_alphabet"
  "base58_alphabet ! 0 = CHR ''1''"
  by (simp_all add: base58_alphabet_def)

lemma base58_char_eq:
  "i < 58 \<Longrightarrow> j < 58 \<Longrightarrow> base58_alphabet ! i = base58_alphabet ! j \<longleftrightarrow> i = j"
  by (simp add: nth_eq_iff_index_eq base58_alphabet_facts)

lemma base58_digits_inject: "base58_digits v [] = base58_digits w [] \<Longrightarrow> v = w"
proof (induction v arbitrary: w rule: less_induct)
  case (less v)
  show ?case
  proof (cases "v = 0 \<or> w = 0")
    case True
    then show ?thesis using less.prems by (metis base58_digits_0 base58_digits_empty)
  next
    case False
    with less.prems have "base58_digits (v div 58) [] = base58_digits (w div 58) []"
      and c: "base58_alphabet ! (v mod 58) = base58_alphabet ! (w mod 58)"
      by (simp_all add: base58_digits_snoc)
    with False have "v div 58 = w div 58" by (intro less.IH) simp_all
    moreover have "v mod 58 = w mod 58" using c by (simp add: base58_char_eq)
    ultimately show ?thesis by (metis div_mult_mod_eq)
  qed
qed

lemma base58_digits_head: "base58_digits v [] = c # cs \<Longrightarrow> c \<noteq> CHR ''1''"
proof (induction v arbitrary: cs rule: less_induct)
  case (less v)
  then have v: "0 < v" by (cases "v = 0") simp_all
  show ?case
  proof (cases "v < 58")
    case True
    then have "c = base58_alphabet ! v" using less.prems v by (simp add: base58_digits_snoc)
    then show ?thesis using True v base58_char_eq [of v 0] by (simp add: base58_alphabet_facts)
  next
    case False
    then have "0 < v div 58" by simp
    then obtain cs' where "base58_digits (v div 58) [] = c # cs'"
      using less.prems v base58_digits_snoc [of "v div 58"]
      by (cases "base58_digits (v div 58) []") (auto simp: base58_digits_snoc)
    then show ?thesis using less.IH [of "v div 58"] v by simp
  qed
qed

fun value_bytes :: "nat \<Rightarrow> byte list" where
  "value_bytes n = (if n = 0 then [] else value_bytes (n div 256) @ [word_of_nat (n mod 256)])"

declare value_bytes.simps [simp del]

lemma bytes_value_snoc: "bytes_value (bs @ [b]) = bytes_value bs * 256 + unat b"
  by (simp add: bytes_value_def)

lemma value_bytes_value: "value_bytes (bytes_value bs) = dropWhile (\<lambda>b. b = 0) bs"
proof (induction bs rule: rev_induct)
  case Nil
  then show ?case by (simp add: bytes_value_def value_bytes.simps)
next
  case (snoc b bs)
  have b: "unat b < 256" by (rule unat_byte)
  show ?case
  proof (cases "bytes_value (bs @ [b]) = 0")
    case True
    then have "bytes_value bs = 0" "b = 0" by (simp_all add: bytes_value_snoc unat_eq_0)
    with snoc have "dropWhile (\<lambda>b. b = 0) bs = []" by (simp add: value_bytes.simps)
    then show ?thesis using True \<open>b = 0\<close>
      by (simp add: value_bytes.simps dropWhile_append)
  next
    case False
    then have "value_bytes (bytes_value (bs @ [b])) = value_bytes (bytes_value bs) @ [b]"
      using b by (subst value_bytes.simps) (simp add: bytes_value_snoc)
    moreover have "dropWhile (\<lambda>b. b = 0) bs = [] \<Longrightarrow> bytes_value bs = 0"
      using snoc by (metis append_is_Nil_conv not_Cons_self2 value_bytes.simps)
    ultimately show ?thesis using snoc False
      by (auto simp: dropWhile_append dropWhile_eq_Nil_conv [symmetric] bytes_value_snoc
          simp del: dropWhile_eq_Nil_conv split: if_splits)
  qed
qed

lemma encode_base58_inject:
  assumes "encode_base58 as = encode_base58 bs" shows "as = bs"
proof -
  let ?z = "\<lambda>bs :: byte list. length (takeWhile (\<lambda>b. b = 0) bs)"
  have head: "takeWhile (\<lambda>c. c = CHR ''1'') (base58_digits v []) = []" for v
    by (cases "base58_digits v []") (simp_all add: base58_digits_head)
  have tw: "takeWhile (\<lambda>c. c = CHR ''1'') (encode_base58 cs) = replicate (?z cs) (CHR ''1'')"
    and dw: "dropWhile (\<lambda>c. c = CHR ''1'') (encode_base58 cs) = base58_digits (bytes_value cs) []"
    for cs
    using head [of "bytes_value cs"]
    by (simp_all add: encode_base58_def takeWhile_append dropWhile_append takeWhile_eq_Nil_iff
        dropWhile_eq_self_iff)
  have "?z as = ?z bs" using tw [of as] tw [of bs] assms by (metis length_replicate)
  moreover have "bytes_value as = bytes_value bs"
    using dw [of as] dw [of bs] assms by (intro base58_digits_inject) simp
  then have "dropWhile (\<lambda>b. b = 0) as = dropWhile (\<lambda>b. b = 0) bs" by (metis value_bytes_value)
  moreover have "cs = replicate (?z cs) 0 @ dropWhile (\<lambda>b. b = 0) cs" for cs :: "byte list"
    by (metis (mono_tags, lifting) replicate_length_same set_takeWhileD takeWhile_dropWhile_id)
  ultimately show ?thesis by metis
qed

text \<open>
  Addresses are unambiguous: with a digest of at least four bytes, two outputs get the same
  Base58Check address only when they have the same version byte and the same payload. So a
  balance never collects the outputs of two different keys or scripts under one address text.
\<close>

theorem base58_check_unambiguous:
  assumes "\<And>bs. 4 \<le> length (cr_sha256 c bs)"
    and "0 \<le> v" "v < 256" "0 \<le> v'" "v' < 256"
  shows "encode_base58_check c v p = encode_base58_check c v' p' \<longleftrightarrow> v = v' \<and> p = p'"
proof
  let ?body = "word_of_int v # p" and ?body' = "word_of_int v' # p'"
  assume "encode_base58_check c v p = encode_base58_check c v' p'"
  then have "?body @ take 4 (sha256d_bytes c ?body) = ?body' @ take 4 (sha256d_bytes c ?body')"
    unfolding encode_base58_check_def Let_def by (rule encode_base58_inject)
  moreover have "length (take 4 (sha256d_bytes c bs)) = 4" for bs
    using assms(1) [of "cr_sha256 c bs"] by (simp add: sha256d_bytes_def)
  ultimately have body: "?body = ?body'" by (metis append_eq_append_conv)
  then have "(word_of_int v :: byte) = word_of_int v'" by simp
  then have "uint (word_of_int v :: byte) = uint (word_of_int v' :: byte)" by simp
  then show "v = v' \<and> p = p'" using body assms(2-5) by (simp add: uint_word_of_int)
qed simp

theorem base58_check_unambiguous_witness:
  "encode_base58_check \<lparr>cr_sha256 = \<lambda>bs. take 32 (bs @ replicate 32 7), cr_ripemd160 = \<lambda>bs. bs\<rparr> 30 [1, 2]
     \<noteq> encode_base58_check \<lparr>cr_sha256 = \<lambda>bs. take 32 (bs @ replicate 32 7), cr_ripemd160 = \<lambda>bs. bs\<rparr> 22 [1, 2]"
  using base58_check_unambiguous
    [of "\<lparr>cr_sha256 = \<lambda>bs. take 32 (bs @ replicate 32 7), cr_ripemd160 = \<lambda>bs. bs\<rparr>" 30 22
        "[1, 2]" "[1, 2]"] by simp

section \<open>Data pushes\<close>

definition script_at :: "byte list \<Rightarrow> nat \<Rightarrow> byte option" where
  "script_at s i = (if i < length s then Some (s ! i) else None)"

text \<open>\<open>length\<close> is read from the highest index down to 0, each step multiplying by 256.\<close>

definition le_length :: "byte list \<Rightarrow> nat" where
  "le_length bs = foldr (\<lambda>b n. n * 256 + unat b) bs 0"

definition push_length_from_bytes :: "byte list \<Rightarrow> nat \<Rightarrow> nat \<Rightarrow> (nat \<times> nat) option" where
  "push_length_from_bytes script i width =
     (if length script < i + width then None
      else let n = le_length (take width (drop i script))
           in if 10000 < n then None else Some (i + width, n))"

definition push_length :: "byte list \<Rightarrow> nat \<Rightarrow> byte \<Rightarrow> (nat \<times> nat) option" where
  "push_length script i opcode =
     (if opcode < 0x4c then Some (i + 1, unat opcode)
      else if opcode = 0x4c then push_length_from_bytes script (i + 1) 1
      else if opcode = 0x4d then push_length_from_bytes script (i + 1) 2
      else if opcode = 0x4e then push_length_from_bytes script (i + 1) 4
      else None)"

definition read_push :: "byte list \<Rightarrow> nat \<Rightarrow> (byte list \<times> nat) option" where
  "read_push script i =
     (case script_at script i of
        None \<Rightarrow> None
      | Some opcode \<Rightarrow>
          if 0x60 < opcode then None
          else if 0x51 \<le> opcode \<or> opcode = 0 then Some ([], i + 1)
          else case push_length script i opcode of
            None \<Rightarrow> None
          | Some (data_offset, n) \<Rightarrow>
              if length script < data_offset + n then None
              else Some (take n (drop data_offset script), data_offset + n))"

lemma read_push_advances: "read_push script i = Some (d, j) \<Longrightarrow> i < j"
  by (auto simp: read_push_def push_length_def push_length_from_bytes_def Let_def
      split: option.splits if_splits)

function read_pushes_from :: "byte list \<Rightarrow> nat \<Rightarrow> byte list list option" where
  "read_pushes_from script i =
     (if i < length script then
        case read_push script i of
          None \<Rightarrow> None
        | Some (d, j) \<Rightarrow> map_option ((#) d) (read_pushes_from script j)
      else Some [])"
  by pat_completeness auto

termination
  by (relation "measure (\<lambda>(script, i). length script - i)") (auto dest!: read_push_advances)

declare read_pushes_from.simps [simp del]

definition read_pushes :: "byte list \<Rightarrow> byte list list option" where
  "read_pushes script = read_pushes_from script 0"

definition is_push_only :: "byte list \<Rightarrow> bool" where
  "is_push_only script \<longleftrightarrow> read_pushes script \<noteq> None"

text \<open>
  The grammar: a constant (\<open>OP_0\<close>, \<open>OP_1\<close> to \<open>OP_16\<close>, read as an empty push), a direct push of
  1 to 75 bytes, or a push with a length of one, two or four bytes, of at most 10000 bytes.
\<close>

inductive push_token :: "byte list \<Rightarrow> byte list \<Rightarrow> bool" where
  small: "op = 0 \<or> 0x51 \<le> op \<and> op \<le> 0x60 \<Longrightarrow> push_token [op] []"
| direct: "op \<noteq> 0 \<Longrightarrow> op < 0x4c \<Longrightarrow> length d = unat op \<Longrightarrow> push_token (op # d) d"
| sized: "(op, w) \<in> {(0x4c, 1), (0x4d, 2), (0x4e, 4)} \<Longrightarrow> length n = w \<Longrightarrow> length d = le_length n
    \<Longrightarrow> length d \<le> 10000 \<Longrightarrow> push_token (op # n @ d) d"

lemma push_token_nonempty: "push_token tok d \<Longrightarrow> tok \<noteq> []"
  by (induction rule: push_token.induct) simp_all

lemma read_push_token:
  assumes "push_token tok d"
  shows "read_push (pre @ tok @ rest) (length pre) = Some (d, length pre + length tok)"
  using assms
proof cases
  case (small op)
  then show ?thesis by (auto simp: read_push_def script_at_def word_less_nat_alt word_le_nat_alt)
next
  case (direct op)
  then have "\<not> 0x60 < op" "\<not> (0x51 \<le> op \<or> op = 0)"
    by (auto simp: word_less_nat_alt word_le_nat_alt)
  with direct show ?thesis by (simp add: read_push_def script_at_def push_length_def)
next
  case (sized op w n)
  then have p: "push_length (pre @ tok @ rest) (length pre) op
      = push_length_from_bytes (pre @ tok @ rest) (length pre + 1) w"
    by (auto simp: push_length_def word_less_nat_alt)
  have "push_length_from_bytes (pre @ tok @ rest) (length pre + 1) w
      = Some (length pre + 1 + w, length d)"
    using sized by (simp add: push_length_from_bytes_def)
  with p sized show ?thesis
    by (auto simp: read_push_def script_at_def word_less_nat_alt word_le_nat_alt)
qed

lemma read_push_parsed:
  assumes "read_push script i = Some (d, j)"
  shows "\<exists>tok. push_token tok d \<and> j = i + length tok \<and> take (length tok) (drop i script) = tok
    \<and> j \<le> length script"
proof -
  from assms obtain op where at: "i < length script" "script ! i = op" and op: "\<not> 0x60 < op"
    by (auto simp: read_push_def script_at_def split: option.splits if_splits)
  have drop: "drop i script = op # drop (Suc i) script"
    using Cons_nth_drop_Suc [OF at(1)] at(2) by simp
  show ?thesis
  proof (cases "0x51 \<le> op \<or> op = 0")
    case True
    then have "d = []" "j = Suc i" using assms at op by (auto simp: read_push_def script_at_def)
    moreover have "push_token [op] []" using True op by (intro push_token.small) auto
    ultimately show ?thesis using at drop by (intro exI [of _ "[op]"]) simp
  next
    case False
    then obtain b n where p: "push_length script i op = Some (b, n)" and fits: "b + n \<le> length script"
      and d: "d = take n (drop b script)" "j = b + n"
      using assms at op by (auto simp: read_push_def script_at_def split: option.splits if_splits)
    have len: "length d = n" using fits by (simp add: d)
    show ?thesis
    proof (cases "op < 0x4c")
      case True
      then have b: "b = Suc i" "n = unat op" using p by (simp_all add: push_length_def)
      have "push_token (op # d) d" using False True len b by (intro push_token.direct) auto
      then show ?thesis using fits d b len drop by (intro exI [of _ "op # d"]) simp
    next
      case longer: False
      then obtain w where w: "(op, w) \<in> {(0x4c, 1), (0x4d, 2), (0x4e, 4)}"
        and f: "push_length_from_bytes script (i + 1) w = Some (b, n)"
        using p by (auto simp: push_length_def split: if_splits)
      let ?n = "take w (drop (Suc i) script)"
      have b: "b = Suc i + w" "n = le_length ?n" "n \<le> 10000" "Suc i + w \<le> length script"
        using f by (auto simp: push_length_from_bytes_def Let_def split: if_splits)
      have "push_token (op # ?n @ d) d" using w b len by (intro push_token.sized [of op w]) auto
      moreover have "take n (drop b script) = take n (drop w (drop (Suc i) script))"
        by (simp add: b(1) add.commute)
      then have "take (Suc (w + n)) (drop i script) = op # ?n @ d"
        by (simp add: drop d take_add)
      ultimately show ?thesis using fits d b len by (intro exI [of _ "op # ?n @ d"]) simp
    qed
  qed
qed

lemma read_pushes_from_tokens:
  assumes "list_all2 push_token toks ps"
  shows "read_pushes_from (pre @ concat toks) (length pre) = Some ps"
  using assms
proof (induction arbitrary: pre rule: list_all2_induct)
  case Nil
  then show ?case by (simp add: read_pushes_from.simps)
next
  case (Cons tok toks d ps)
  have "tok \<noteq> []" using Cons.hyps(1) by (rule push_token_nonempty)
  then show ?case
    using Cons.IH [of "pre @ tok"] read_push_token [OF Cons.hyps(1), of pre "concat toks"]
    by (subst read_pushes_from.simps) simp
qed

lemma read_pushes_from_parsed:
  "i \<le> length script \<Longrightarrow> read_pushes_from script i = Some ps \<Longrightarrow>
     \<exists>toks. list_all2 push_token toks ps \<and> concat toks = drop i script"
proof (induction script i arbitrary: ps rule: read_pushes_from.induct)
  case (1 script i)
  show ?case
  proof (cases "i < length script")
    case False
    then show ?thesis using 1(3) by (simp add: read_pushes_from.simps)
  next
    case True
    then obtain d j qs where p: "read_push script i = Some (d, j)"
      and qs: "read_pushes_from script j = Some qs" "ps = d # qs"
      using 1(3) by (subst (asm) read_pushes_from.simps) (auto split: option.splits)
    from read_push_parsed [OF p] obtain tok where tok: "push_token tok d" "j = i + length tok"
      "take (length tok) (drop i script) = tok" "j \<le> length script" by blast
    from 1(1) [OF True p refl tok(4) qs(1)] obtain toks
      where toks: "list_all2 push_token toks qs" "concat toks = drop j script" by blast
    have "drop i script = tok @ drop j script"
      using tok(2,3) by (metis add.commute append_take_drop_id drop_drop)
    then show ?thesis using toks tok(1) qs(2) by (intro exI [of _ "tok # toks"]) simp
  qed
qed

text \<open>
  The push reader is a parser of its grammar: it returns a list of pushes exactly when the
  script is a sequence of push tokens with these data; so it always ends, a script is push-only
  exactly when it is such a sequence, and every other opcode or truncated push is refused.
\<close>

theorem read_pushes_correct:
  "read_pushes script = Some ps \<longleftrightarrow> (\<exists>toks. list_all2 push_token toks ps \<and> concat toks = script)"
  using read_pushes_from_tokens [of _ ps "[]"] read_pushes_from_parsed [of 0 script ps]
  by (auto simp: read_pushes_def)

section \<open>Classification of an output script\<close>

datatype script_type = Multisig | Nonstandard | Nulldata | Pubkey | Pubkeyhash | Scripthash

record script_match =
  sm_addresses :: "string list option"
  sm_req_sigs :: "nat option"
  sm_type :: script_type

record script_pub_key =
  sp_addresses :: "string list option"
  sp_hex :: string
  sp_req_sigs :: "nat option"
  sp_type :: script_type

definition match_pubkey_hash ::
  "crypto \<Rightarrow> byte list \<Rightarrow> address_prefixes \<Rightarrow> script_match option" where
  "match_pubkey_hash c s p =
     (if \<not> (length s = 25 \<and> script_at s 0 = Some 0x76 \<and> script_at s 1 = Some 0xa9
            \<and> script_at s 2 = Some 20 \<and> script_at s 23 = Some 0x88 \<and> script_at s 24 = Some 0xac)
      then None
      else Some \<lparr>sm_addresses = Some [encode_base58_check c (ap_pubkey_hash p) (take 20 (drop 3 s))],
                 sm_req_sigs = Some 1, sm_type = Pubkeyhash\<rparr>)"

definition match_script_hash ::
  "crypto \<Rightarrow> byte list \<Rightarrow> address_prefixes \<Rightarrow> script_match option" where
  "match_script_hash c s p =
     (if \<not> (length s = 23 \<and> script_at s 0 = Some 0xa9 \<and> script_at s 1 = Some 20
            \<and> script_at s 22 = Some 0x87)
      then None
      else Some \<lparr>sm_addresses = Some [encode_base58_check c (ap_script_hash p) (take 20 (drop 2 s))],
                 sm_req_sigs = Some 1, sm_type = Scripthash\<rparr>)"

definition is_plausible_pubkey :: "byte list \<Rightarrow> bool" where
  "is_plausible_pubkey k \<longleftrightarrow>
     (if length k = 33 then script_at k 0 = Some 0x02 \<or> script_at k 0 = Some 0x03
      else if length k = 65
        then script_at k 0 = Some 0x04 \<or> script_at k 0 = Some 0x06 \<or> script_at k 0 = Some 0x07
      else False)"

definition match_pubkey ::
  "crypto \<Rightarrow> byte list \<Rightarrow> address_prefixes \<Rightarrow> script_match option" where
  "match_pubkey c s p =
     (case script_at s 0 of
        None \<Rightarrow> None
      | Some n \<Rightarrow>
          if length s \<noteq> unat n + 2 then None
          else if script_at s (length s - 1) \<noteq> Some 0xac then None
          else let pubkey = take (unat n) (drop 1 s)
               in if \<not> is_plausible_pubkey pubkey then None
                  else Some \<lparr>sm_addresses
                               = Some [encode_base58_check c (ap_pubkey_hash p) (hash160 c pubkey)],
                             sm_req_sigs = Some 1, sm_type = Pubkey\<rparr>)"

definition match_null_data :: "byte list \<Rightarrow> script_match option" where
  "match_null_data s =
     (if script_at s 0 \<noteq> Some 0x6a then None
      else if \<not> is_push_only (drop 1 s) then None
      else Some \<lparr>sm_addresses = None, sm_req_sigs = None, sm_type = Nulldata\<rparr>)"

definition small_integer_opcode :: "byte option \<Rightarrow> nat option" where
  "small_integer_opcode opcode =
     (case opcode of
        None \<Rightarrow> None
      | Some op \<Rightarrow> if op = 0 then Some 0
                  else if 0x51 \<le> op \<and> op \<le> 0x60 then Some (unat op - 0x51 + 1)
                  else None)"

definition parse_multisig :: "byte list \<Rightarrow> (byte list list \<times> nat) option" where
  "parse_multisig s =
     (if length s < 3 \<or> script_at s (length s - 1) \<noteq> Some 0xae then None
      else case (small_integer_opcode (script_at s 0),
                 small_integer_opcode (script_at s (length s - 2))) of
        (Some required, Some n) \<Rightarrow>
          if required < 1 \<or> n < required then None
          else (case read_pushes (take (length s - 2 - 1) (drop 1 s)) of
            None \<Rightarrow> None
          | Some pubkeys \<Rightarrow>
              if length pubkeys \<noteq> n \<or> \<not> list_all is_plausible_pubkey pubkeys then None
              else Some (pubkeys, required))
      | _ \<Rightarrow> None)"

definition match_multisig ::
  "crypto \<Rightarrow> byte list \<Rightarrow> address_prefixes \<Rightarrow> script_match option" where
  "match_multisig c s p =
     (case parse_multisig s of
        None \<Rightarrow> None
      | Some (pubkeys, required) \<Rightarrow>
          Some \<lparr>sm_addresses
                  = Some (map (\<lambda>k. encode_base58_check c (ap_pubkey_hash p) (hash160 c k)) pubkeys),
                sm_req_sigs = Some required, sm_type = Multisig\<rparr>)"

text \<open>\<^verbatim>\<open>a ?? b\<close> on optional results.\<close>

fun or_else :: "'a option \<Rightarrow> 'a option \<Rightarrow> 'a option" where
  "or_else None b = b"
| "or_else (Some a) b = Some a"

definition classify_script_pub_key ::
  "crypto \<Rightarrow> byte list \<Rightarrow> address_prefixes \<Rightarrow> script_pub_key" where
  "classify_script_pub_key c s p =
     (case or_else (match_pubkey_hash c s p) (or_else (match_script_hash c s p)
             (or_else (match_pubkey c s p) (or_else (match_null_data s) (match_multisig c s p)))) of
        None \<Rightarrow> \<lparr>sp_addresses = None, sp_hex = bytes_to_hex s, sp_req_sigs = None,
                 sp_type = Nonstandard\<rparr>
      | Some m \<Rightarrow> \<lparr>sp_addresses = sm_addresses m, sp_hex = bytes_to_hex s,
                   sp_req_sigs = sm_req_sigs m, sp_type = sm_type m\<rparr>)"

text \<open>The templates of the standard scripts.\<close>

definition pay_to_pubkey_hash :: "byte list \<Rightarrow> byte list" where
  "pay_to_pubkey_hash h = [0x76, 0xa9, 20] @ h @ [0x88, 0xac]"

definition pay_to_script_hash :: "byte list \<Rightarrow> byte list" where
  "pay_to_script_hash h = [0xa9, 20] @ h @ [0x87]"

definition pay_to_pubkey :: "byte list \<Rightarrow> byte list" where
  "pay_to_pubkey k = word_of_nat (length k) # k @ [0xac]"

definition small_integer :: "nat \<Rightarrow> byte" where
  "small_integer n = word_of_nat (0x50 + n)"

definition pay_to_multisig :: "nat \<Rightarrow> byte list \<Rightarrow> nat \<Rightarrow> byte list" where
  "pay_to_multisig required keys n = small_integer required # keys @ [small_integer n, 0xae]"

lemma list_split_at: "length s = n + m + k \<Longrightarrow>
    s = take n s @ take m (drop n s) @ drop (n + m) s"
  by (metis append_take_drop_id drop_drop add.commute)

lemma match_pubkey_hash_iff:
  "match_pubkey_hash c s p = Some m \<longleftrightarrow> (\<exists>h. length h = 20 \<and> s = pay_to_pubkey_hash h
     \<and> m = \<lparr>sm_addresses = Some [encode_base58_check c (ap_pubkey_hash p) h],
            sm_req_sigs = Some 1, sm_type = Pubkeyhash\<rparr>)"
proof
  assume l: "match_pubkey_hash c s p = Some m"
  then have s: "length s = 25" "s ! 0 = 0x76" "s ! 1 = 0xa9" "s ! 2 = 20" "s ! 23 = 0x88" "s ! 24 = 0xac"
    by (auto simp: match_pubkey_hash_def script_at_def split: if_splits)
  let ?h = "take 20 (drop 3 s)"
  have "take 3 s = [0x76, 0xa9, 20]" "drop 23 s = [0x88, 0xac]"
    using s by (auto simp: list_eq_iff_nth_eq less_Suc_eq numeral_3_eq_3 nth_Cons' numeral_eq_Suc)
  with list_split_at [of s 3 20 2] s(1) have "s = pay_to_pubkey_hash ?h" by (simp add: pay_to_pubkey_hash_def)
  then show "\<exists>h. length h = 20 \<and> s = pay_to_pubkey_hash h
     \<and> m = \<lparr>sm_addresses = Some [encode_base58_check c (ap_pubkey_hash p) h],
            sm_req_sigs = Some 1, sm_type = Pubkeyhash\<rparr>"
    using l s(1) by (intro exI [of _ ?h]) (simp add: match_pubkey_hash_def split: if_splits)
qed (auto simp: match_pubkey_hash_def pay_to_pubkey_hash_def script_at_def nth_append)

lemma match_script_hash_iff:
  "match_script_hash c s p = Some m \<longleftrightarrow> (\<exists>h. length h = 20 \<and> s = pay_to_script_hash h
     \<and> m = \<lparr>sm_addresses = Some [encode_base58_check c (ap_script_hash p) h],
            sm_req_sigs = Some 1, sm_type = Scripthash\<rparr>)"
proof
  assume l: "match_script_hash c s p = Some m"
  then have s: "length s = 23" "s ! 0 = 0xa9" "s ! 1 = 20" "s ! 22 = 0x87"
    by (auto simp: match_script_hash_def script_at_def split: if_splits)
  let ?h = "take 20 (drop 2 s)"
  have "take 2 s = [0xa9, 20]" "drop 22 s = [0x87]"
    using s by (auto simp: list_eq_iff_nth_eq less_Suc_eq nth_Cons' numeral_eq_Suc)
  with list_split_at [of s 2 20 1] s(1) have "s = pay_to_script_hash ?h" by (simp add: pay_to_script_hash_def)
  then show "\<exists>h. length h = 20 \<and> s = pay_to_script_hash h
     \<and> m = \<lparr>sm_addresses = Some [encode_base58_check c (ap_script_hash p) h],
            sm_req_sigs = Some 1, sm_type = Scripthash\<rparr>"
    using l s(1) by (intro exI [of _ ?h]) (simp add: match_script_hash_def split: if_splits)
qed (auto simp: match_script_hash_def pay_to_script_hash_def script_at_def nth_append)

lemma plausible_length: "is_plausible_pubkey k \<Longrightarrow> length k = 33 \<or> length k = 65"
  by (simp add: is_plausible_pubkey_def split: if_splits)

lemma match_pubkey_iff:
  "match_pubkey c s p = Some m \<longleftrightarrow> (\<exists>k. is_plausible_pubkey k \<and> s = pay_to_pubkey k
     \<and> m = \<lparr>sm_addresses = Some [encode_base58_check c (ap_pubkey_hash p) (hash160 c k)],
            sm_req_sigs = Some 1, sm_type = Pubkey\<rparr>)"
proof
  assume l: "match_pubkey c s p = Some m"
  then obtain n where n: "script_at s 0 = Some n" "length s = unat n + 2"
    "script_at s (length s - 1) = Some 0xac" "is_plausible_pubkey (take (unat n) (drop 1 s))"
    by (auto simp: match_pubkey_def Let_def split: option.splits if_splits)
  let ?k = "take (unat n) (drop 1 s)"
  have "length ?k = unat n" using n(2) by simp
  then have "(word_of_nat (length ?k) :: byte) = n" by simp
  moreover have "take 1 s = [n]" using n(1) by (cases s) (simp_all add: script_at_def)
  moreover have "drop (1 + unat n) s = [0xac]"
    using n(2,3) by (auto simp: list_eq_iff_nth_eq script_at_def)
  ultimately have "s = pay_to_pubkey ?k"
    using list_split_at [of s 1 "unat n" 1] n(2) by (simp add: pay_to_pubkey_def)
  then show "\<exists>k. is_plausible_pubkey k \<and> s = pay_to_pubkey k
     \<and> m = \<lparr>sm_addresses = Some [encode_base58_check c (ap_pubkey_hash p) (hash160 c k)],
            sm_req_sigs = Some 1, sm_type = Pubkey\<rparr>"
    using l n by (intro exI [of _ ?k]) (simp add: match_pubkey_def Let_def)
next
  assume "\<exists>k. is_plausible_pubkey k \<and> s = pay_to_pubkey k
     \<and> m = \<lparr>sm_addresses = Some [encode_base58_check c (ap_pubkey_hash p) (hash160 c k)],
            sm_req_sigs = Some 1, sm_type = Pubkey\<rparr>"
  then obtain k where k: "is_plausible_pubkey k" "s = pay_to_pubkey k"
    and m: "m = \<lparr>sm_addresses = Some [encode_base58_check c (ap_pubkey_hash p) (hash160 c k)],
            sm_req_sigs = Some 1, sm_type = Pubkey\<rparr>" by blast
  have "unat (word_of_nat (length k) :: byte) = length k"
    using plausible_length [OF k(1)] by (auto simp: unat_of_nat)
  then show "match_pubkey c s p = Some m"
    using k m by (simp add: match_pubkey_def pay_to_pubkey_def script_at_def nth_append Let_def)
qed

lemma small_integer_opcode_iff:
  "1 \<le> n \<Longrightarrow> small_integer_opcode (Some op) = Some n \<longleftrightarrow> op = small_integer n \<and> n \<le> 16"
proof -
  assume n: "1 \<le> n"
  have "small_integer_opcode (Some op) = Some n \<longleftrightarrow> 0x51 \<le> unat op \<and> unat op \<le> 0x60 \<and> unat op = 0x50 + n"
    using n by (auto simp: small_integer_opcode_def word_le_nat_alt unat_eq_0 [symmetric])
  also have "\<dots> \<longleftrightarrow> op = small_integer n \<and> n \<le> 16"
  proof
    assume a: "op = small_integer n \<and> n \<le> 16"
    then have "unat op = 0x50 + n"
      by (simp add: small_integer_def unat_of_nat del: of_nat_add)
    with a n show "0x51 \<le> unat op \<and> unat op \<le> 0x60 \<and> unat op = 0x50 + n" by simp
  next
    assume a: "0x51 \<le> unat op \<and> unat op \<le> 0x60 \<and> unat op = 0x50 + n"
    moreover have "word_of_nat (unat op) = op" by simp
    ultimately have "op = small_integer n" by (simp add: small_integer_def del: of_nat_add)
    then show "op = small_integer n \<and> n \<le> 16" using a by simp
  qed
  finally show ?thesis .
qed

lemma parse_multisig_iff:
  "parse_multisig s = Some (keys, required) \<longleftrightarrow>
     (\<exists>pushes. read_pushes pushes = Some keys \<and> list_all is_plausible_pubkey keys
        \<and> 1 \<le> required \<and> required \<le> length keys \<and> length keys \<le> 16
        \<and> s = pay_to_multisig required pushes (length keys))"
proof
  assume l: "parse_multisig s = Some (keys, required)"
  then obtain n where len: "3 \<le> length s" and last: "script_at s (length s - 1) = Some 0xae"
    and ops: "small_integer_opcode (script_at s 0) = Some required"
      "small_integer_opcode (script_at s (length s - 2)) = Some n"
    and req: "1 \<le> required" "required \<le> n"
    and push: "read_pushes (take (length s - 3) (drop 1 s)) = Some keys"
    and keys: "length keys = n" "list_all is_plausible_pubkey keys"
    by (auto simp: parse_multisig_def split: option.splits if_splits)
  have at: "script_at s 0 = Some (s ! 0)" "script_at s (length s - 2) = Some (s ! (length s - 2))"
    using len by (auto simp: script_at_def)
  have first: "s ! 0 = small_integer required" and lastn: "s ! (length s - 2) = small_integer n"
    and bound: "n \<le> 16"
    using ops req small_integer_opcode_iff [of required "s ! 0"]
      small_integer_opcode_iff [of n "s ! (length s - 2)"] unfolding at by simp_all
  have "take 1 s = [small_integer required]" using first len by (cases s) simp_all
  moreover have "drop (1 + (length s - 3)) s = [small_integer n, 0xae]"
  proof -
    have i: "1 + (length s - 3) = length s - 2" "Suc (length s - 2) = length s - 1"
      "Suc (length s - 1) = length s" using len by simp_all
    have "drop (length s - 2) s = s ! (length s - 2) # drop (length s - 1) s"
      "drop (length s - 1) s = s ! (length s - 1) # drop (length s) s"
      using Cons_nth_drop_Suc [of "length s - 2" s] Cons_nth_drop_Suc [of "length s - 1" s] len
      unfolding i by simp_all
    moreover have "s ! (length s - 1) = 0xae" using last len by (auto simp: script_at_def split: if_splits)
    ultimately show ?thesis using lastn unfolding i by simp
  qed
  ultimately have "s = pay_to_multisig required (take (length s - 3) (drop 1 s)) n"
    using list_split_at [of s 1 "length s - 3" 2] len by (simp add: pay_to_multisig_def)
  then show "\<exists>pushes. read_pushes pushes = Some keys \<and> list_all is_plausible_pubkey keys
        \<and> 1 \<le> required \<and> required \<le> length keys \<and> length keys \<le> 16
        \<and> s = pay_to_multisig required pushes (length keys)"
    using push keys req bound by (intro exI [of _ "take (length s - 3) (drop 1 s)"]) simp
next
  assume "\<exists>pushes. read_pushes pushes = Some keys \<and> list_all is_plausible_pubkey keys
        \<and> 1 \<le> required \<and> required \<le> length keys \<and> length keys \<le> 16
        \<and> s = pay_to_multisig required pushes (length keys)"
  then obtain pushes where p: "read_pushes pushes = Some keys" "list_all is_plausible_pubkey keys"
    "1 \<le> required" "required \<le> length keys" "length keys \<le> 16"
    and s: "s = pay_to_multisig required pushes (length keys)" by blast
  have "script_at s 0 = Some (small_integer required)"
    "script_at s (length s - 2) = Some (small_integer (length keys))"
    "script_at s (length s - 1) = Some 0xae" "3 \<le> length s"
    "take (length s - 3) (drop 1 s) = pushes"
    by (simp_all add: s pay_to_multisig_def script_at_def nth_append)
  moreover have "small_integer_opcode (Some (small_integer required)) = Some required"
    "small_integer_opcode (Some (small_integer (length keys))) = Some (length keys)"
    using p by (simp_all add: small_integer_opcode_iff)
  ultimately show "parse_multisig s = Some (keys, required)"
    using p by (simp add: parse_multisig_def)
qed

text \<open>The templates differ in the first byte, so the order of the tests does not matter.\<close>

lemma first_bytes:
  "match_pubkey_hash c s p = Some m \<Longrightarrow> script_at s 0 = Some 0x76"
  "match_script_hash c s p = Some m \<Longrightarrow> script_at s 0 = Some 0xa9"
  "match_pubkey c s p = Some m \<Longrightarrow> script_at s 0 = Some 33 \<or> script_at s 0 = Some 65"
  "match_null_data s = Some m \<Longrightarrow> script_at s 0 = Some 0x6a"
  "match_multisig c s p = Some m \<Longrightarrow> \<exists>op. script_at s 0 = Some op \<and> 0x51 \<le> unat op \<and> unat op \<le> 0x60"
proof -
  show "match_multisig c s p = Some m \<Longrightarrow>
      \<exists>op. script_at s 0 = Some op \<and> 0x51 \<le> unat op \<and> unat op \<le> 0x60"
    by (auto simp: match_multisig_def parse_multisig_def small_integer_opcode_def word_le_nat_alt
        split: option.splits if_splits)
qed (auto simp: match_pubkey_hash_def match_script_hash_def match_pubkey_iff match_null_data_def
    pay_to_pubkey_def script_at_def dest!: plausible_length split: if_splits)

definition matched :: "crypto \<Rightarrow> byte list \<Rightarrow> address_prefixes \<Rightarrow> script_match option" where
  "matched c s p = or_else (match_pubkey_hash c s p) (or_else (match_script_hash c s p)
     (or_else (match_pubkey c s p) (or_else (match_null_data s) (match_multisig c s p))))"

lemma match_types:
  "match_pubkey_hash c s p = Some m \<Longrightarrow> sm_type m = Pubkeyhash"
  "match_script_hash c s p = Some m \<Longrightarrow> sm_type m = Scripthash"
  "match_pubkey c s p = Some m \<Longrightarrow> sm_type m = Pubkey"
  "match_null_data s = Some m \<Longrightarrow> sm_type m = Nulldata"
  "match_multisig c s p = Some m \<Longrightarrow> sm_type m = Multisig"
  by (auto simp: match_pubkey_hash_iff match_script_hash_iff match_pubkey_iff match_null_data_def
      match_multisig_def split: if_splits option.splits)

lemma or_else_Some_iff: "or_else a b = Some m \<longleftrightarrow> a = Some m \<or> a = None \<and> b = Some m"
  by (cases a) auto

lemma no_match:
  "script_at s 0 \<noteq> Some 0x76 \<Longrightarrow> match_pubkey_hash c s p = None"
  "script_at s 0 \<noteq> Some 0xa9 \<Longrightarrow> match_script_hash c s p = None"
  "script_at s 0 \<noteq> Some 33 \<Longrightarrow> script_at s 0 \<noteq> Some 65 \<Longrightarrow> match_pubkey c s p = None"
  "script_at s 0 \<noteq> Some 0x6a \<Longrightarrow> match_null_data s = None"
  using first_bytes(1-3) [of c s p] first_bytes(4) [of s]
  by (cases "match_pubkey_hash c s p"; cases "match_script_hash c s p"; cases "match_pubkey c s p";
      cases "match_null_data s"; simp)+

lemma matched_iff:
  "matched c s p = Some m \<longleftrightarrow> match_pubkey_hash c s p = Some m \<or> match_script_hash c s p = Some m
     \<or> match_pubkey c s p = Some m \<or> match_null_data s = Some m \<or> match_multisig c s p = Some m"
proof
  assume "matched c s p = Some m"
  then show "match_pubkey_hash c s p = Some m \<or> match_script_hash c s p = Some m
     \<or> match_pubkey c s p = Some m \<or> match_null_data s = Some m \<or> match_multisig c s p = Some m"
    unfolding matched_def by (auto simp: or_else_Some_iff)
next

  assume "match_pubkey_hash c s p = Some m \<or> match_script_hash c s p = Some m
     \<or> match_pubkey c s p = Some m \<or> match_null_data s = Some m \<or> match_multisig c s p = Some m"
  then consider "match_pubkey_hash c s p = Some m" | "match_script_hash c s p = Some m"
    | "match_pubkey c s p = Some m" | "match_null_data s = Some m"
    | "match_multisig c s p = Some m" by blast
  then show "matched c s p = Some m"
  proof cases
    case 1
    then show ?thesis by (simp add: matched_def)
  next
    case 2
    then show ?thesis using first_bytes(2) [OF 2] by (simp add: matched_def no_match)
  next
    case 3
    then show ?thesis using first_bytes(3) [OF 3] by (auto simp: matched_def no_match)
  next
    case 4
    then show ?thesis using first_bytes(4) [OF 4] by (simp add: matched_def no_match)
  next
    case 5
    from first_bytes(5) [OF 5] obtain op where op: "script_at s 0 = Some op"
      and r: "0x51 \<le> unat op \<and> unat op \<le> 0x60" by blast
    from r have "op \<noteq> 0x76" "op \<noteq> 0xa9" "op \<noteq> 33" "op \<noteq> 65" "op \<noteq> 0x6a" by auto
    with 5 op show ?thesis by (simp add: matched_def no_match)
  qed
qed

lemma classify_matched:
  "classify_script_pub_key c s p =
     (case matched c s p of
        None \<Rightarrow> \<lparr>sp_addresses = None, sp_hex = bytes_to_hex s, sp_req_sigs = None,
                 sp_type = Nonstandard\<rparr>
      | Some m \<Rightarrow> \<lparr>sp_addresses = sm_addresses m, sp_hex = bytes_to_hex s,
                   sp_req_sigs = sm_req_sigs m, sp_type = sm_type m\<rparr>)"
  by (simp add: classify_script_pub_key_def matched_def)

lemma classify_type:
  assumes "t \<noteq> Nonstandard"
  shows "sp_type (classify_script_pub_key c s p) = t \<longleftrightarrow> (\<exists>m. matched c s p = Some m \<and> sm_type m = t)"
  using assms by (auto simp: classify_matched split: option.splits)

lemma matched_by_type:
  "matched c s p = Some m \<and> sm_type m = Pubkeyhash \<longleftrightarrow> match_pubkey_hash c s p = Some m"
  "matched c s p = Some m \<and> sm_type m = Scripthash \<longleftrightarrow> match_script_hash c s p = Some m"
  "matched c s p = Some m \<and> sm_type m = Pubkey \<longleftrightarrow> match_pubkey c s p = Some m"
  "matched c s p = Some m \<and> sm_type m = Nulldata \<longleftrightarrow> match_null_data s = Some m"
  "matched c s p = Some m \<and> sm_type m = Multisig \<longleftrightarrow> match_multisig c s p = Some m"
  by (auto simp: matched_iff dest: match_types)

lemma classify_of_match:
  "matched c s p = Some m \<Longrightarrow> sp_addresses (classify_script_pub_key c s p) = sm_addresses m
     \<and> sp_req_sigs (classify_script_pub_key c s p) = sm_req_sigs m"
  by (simp add: classify_matched)

lemma classified_as:
  assumes "t \<noteq> Nonstandard"
    and iff: "\<And>m. matched c s p = Some m \<and> sm_type m = t \<longleftrightarrow> (\<exists>x. P x \<and> m = f x)"
  shows "sp_type (classify_script_pub_key c s p) = t \<longleftrightarrow>
    (\<exists>x. P x \<and> sp_addresses (classify_script_pub_key c s p) = sm_addresses (f x)
       \<and> sp_req_sigs (classify_script_pub_key c s p) = sm_req_sigs (f x))"
proof
  assume "sp_type (classify_script_pub_key c s p) = t"
  then obtain m where m: "matched c s p = Some m \<and> sm_type m = t"
    using classify_type [OF assms(1)] by blast
  then obtain x where "P x" "m = f x" using iff by blast
  with m show "\<exists>x. P x \<and> sp_addresses (classify_script_pub_key c s p) = sm_addresses (f x)
       \<and> sp_req_sigs (classify_script_pub_key c s p) = sm_req_sigs (f x)"
    using classify_of_match by blast
next
  assume "\<exists>x. P x \<and> sp_addresses (classify_script_pub_key c s p) = sm_addresses (f x)
       \<and> sp_req_sigs (classify_script_pub_key c s p) = sm_req_sigs (f x)"
  then obtain x where "P x" by blast
  then have "matched c s p = Some (f x) \<and> sm_type (f x) = t" using iff by blast
  then show "sp_type (classify_script_pub_key c s p) = t"
    using classify_type [OF assms(1)] by blast
qed

lemma classified_pubkey_hash:
  "sp_type (classify_script_pub_key c s p) = Pubkeyhash \<longleftrightarrow>
    (\<exists>h. (length h = 20 \<and> s = pay_to_pubkey_hash h)
      \<and> sp_addresses (classify_script_pub_key c s p) = Some [encode_base58_check c (ap_pubkey_hash p) h]
      \<and> sp_req_sigs (classify_script_pub_key c s p) = Some 1)"
  using classified_as [of Pubkeyhash c s p "\<lambda>h. length h = 20 \<and> s = pay_to_pubkey_hash h"
    "\<lambda>h. \<lparr>sm_addresses = Some [encode_base58_check c (ap_pubkey_hash p) h], sm_req_sigs = Some 1,
          sm_type = Pubkeyhash\<rparr>"]
  by (simp add: matched_by_type match_pubkey_hash_iff conj_assoc)

lemma classified_script_hash:
  "sp_type (classify_script_pub_key c s p) = Scripthash \<longleftrightarrow>
    (\<exists>h. (length h = 20 \<and> s = pay_to_script_hash h)
      \<and> sp_addresses (classify_script_pub_key c s p) = Some [encode_base58_check c (ap_script_hash p) h]
      \<and> sp_req_sigs (classify_script_pub_key c s p) = Some 1)"
  using classified_as [of Scripthash c s p "\<lambda>h. length h = 20 \<and> s = pay_to_script_hash h"
    "\<lambda>h. \<lparr>sm_addresses = Some [encode_base58_check c (ap_script_hash p) h], sm_req_sigs = Some 1,
          sm_type = Scripthash\<rparr>"]
  by (simp add: matched_by_type match_script_hash_iff conj_assoc)

lemma classified_pubkey:
  "sp_type (classify_script_pub_key c s p) = Pubkey \<longleftrightarrow>
    (\<exists>k. (is_plausible_pubkey k \<and> s = pay_to_pubkey k)
      \<and> sp_addresses (classify_script_pub_key c s p)
          = Some [encode_base58_check c (ap_pubkey_hash p) (hash160 c k)]
      \<and> sp_req_sigs (classify_script_pub_key c s p) = Some 1)"
  using classified_as [of Pubkey c s p "\<lambda>k. is_plausible_pubkey k \<and> s = pay_to_pubkey k"
    "\<lambda>k. \<lparr>sm_addresses = Some [encode_base58_check c (ap_pubkey_hash p) (hash160 c k)],
          sm_req_sigs = Some 1, sm_type = Pubkey\<rparr>"]
  by (simp add: matched_by_type match_pubkey_iff conj_assoc)

lemma match_null_data_iff:
  "match_null_data s = Some m \<longleftrightarrow> (\<exists>pushes. (s = 0x6a # pushes \<and> is_push_only pushes)
     \<and> m = \<lparr>sm_addresses = None, sm_req_sigs = None, sm_type = Nulldata\<rparr>)"
  by (cases s) (auto simp: match_null_data_def script_at_def)

lemma classified_null_data:
  "sp_type (classify_script_pub_key c s p) = Nulldata \<longleftrightarrow>
    (\<exists>pushes. (s = 0x6a # pushes \<and> is_push_only pushes)
      \<and> sp_addresses (classify_script_pub_key c s p) = None
      \<and> sp_req_sigs (classify_script_pub_key c s p) = None)"
  using classified_as [of Nulldata c s p "\<lambda>pushes. s = 0x6a # pushes \<and> is_push_only pushes"
    "\<lambda>_. \<lparr>sm_addresses = None, sm_req_sigs = None, sm_type = Nulldata\<rparr>"]
  by (simp add: matched_by_type match_null_data_iff)

lemma match_multisig_iff:
  "match_multisig c s p = Some m \<longleftrightarrow> (\<exists>x. parse_multisig s = Some x
     \<and> m = \<lparr>sm_addresses
              = Some (map (\<lambda>k. encode_base58_check c (ap_pubkey_hash p) (hash160 c k)) (fst x)),
            sm_req_sigs = Some (snd x), sm_type = Multisig\<rparr>)"
  by (cases "parse_multisig s") (auto simp: match_multisig_def)

lemma classified_multisig:
  "sp_type (classify_script_pub_key c s p) = Multisig \<longleftrightarrow>
    (\<exists>keys required pushes. (read_pushes pushes = Some keys \<and> list_all is_plausible_pubkey keys
        \<and> 1 \<le> required \<and> required \<le> length keys \<and> length keys \<le> 16
        \<and> s = pay_to_multisig required pushes (length keys))
      \<and> sp_addresses (classify_script_pub_key c s p)
          = Some (map (\<lambda>k. encode_base58_check c (ap_pubkey_hash p) (hash160 c k)) keys)
      \<and> sp_req_sigs (classify_script_pub_key c s p) = Some required)"
  using classified_as [of Multisig c s p "\<lambda>x. parse_multisig s = Some x"
    "\<lambda>x. \<lparr>sm_addresses
            = Some (map (\<lambda>k. encode_base58_check c (ap_pubkey_hash p) (hash160 c k)) (fst x)),
          sm_req_sigs = Some (snd x), sm_type = Multisig\<rparr>"]
  by (simp add: matched_by_type match_multisig_iff parse_multisig_iff conj_assoc ex_simps [symmetric]
      del: ex_simps)

text \<open>
  Classification is exact: for every script, prefixes and digests, the type is
  \<open>pubkeyhash\<close>, \<open>scripthash\<close>, \<open>pubkey\<close> or \<open>multisig\<close> exactly when the script is an instance of
  that template, and the addresses and the number of required signatures are then the ones of
  the instance; it is \<open>nulldata\<close> exactly when it is \<open>OP_RETURN\<close> with data pushes; otherwise it
  is \<open>nonstandard\<close>. The script itself is always kept as hexadecimal text.
\<close>

theorem classify_script_correct:
  "let k = classify_script_pub_key c s p in
    (sp_type k = Pubkeyhash \<longleftrightarrow> (\<exists>h. (length h = 20 \<and> s = pay_to_pubkey_hash h)
      \<and> sp_addresses k = Some [encode_base58_check c (ap_pubkey_hash p) h] \<and> sp_req_sigs k = Some 1))
    \<and> (sp_type k = Scripthash \<longleftrightarrow> (\<exists>h. (length h = 20 \<and> s = pay_to_script_hash h)
      \<and> sp_addresses k = Some [encode_base58_check c (ap_script_hash p) h] \<and> sp_req_sigs k = Some 1))
    \<and> (sp_type k = Pubkey \<longleftrightarrow> (\<exists>key. (is_plausible_pubkey key \<and> s = pay_to_pubkey key)
      \<and> sp_addresses k = Some [encode_base58_check c (ap_pubkey_hash p) (hash160 c key)]
      \<and> sp_req_sigs k = Some 1))
    \<and> (sp_type k = Nulldata \<longleftrightarrow> (\<exists>pushes. (s = 0x6a # pushes \<and> is_push_only pushes)
      \<and> sp_addresses k = None \<and> sp_req_sigs k = None))
    \<and> (sp_type k = Multisig \<longleftrightarrow> (\<exists>keys required pushes. (read_pushes pushes = Some keys
        \<and> list_all is_plausible_pubkey keys
        \<and> 1 \<le> required \<and> required \<le> length keys \<and> length keys \<le> 16
        \<and> s = pay_to_multisig required pushes (length keys))
      \<and> sp_addresses k
          = Some (map (\<lambda>key. encode_base58_check c (ap_pubkey_hash p) (hash160 c key)) keys)
      \<and> sp_req_sigs k = Some required))
    \<and> sp_hex k = bytes_to_hex s"
  unfolding Let_def
  by (intro conjI classified_pubkey_hash classified_script_hash classified_pubkey
      classified_null_data classified_multisig) (simp add: classify_matched split: option.splits)

end
