(* ===== verification/Raw_Block.thy ===== *)
theory Raw_Block
  imports Dogecoin_Script
begin

text \<open>
  The decoder of raw blocks, \<^verbatim>\<open>packages/platform/src/dogecoin-raw-block.ts\<close>: header, AuxPoW
  payload of a merge-mined block, transactions, and the errors with their positions.

  The wire format is stated as an encoder of abstract blocks (\<open>encode_block\<close>), with the
  witness-carrying form of the parent chain's coinbase. The theorems: the decoder inverts the
  encoder, and it never accepts a block followed by more bytes.
\<close>

record decoded_vin =
  vi_coinbase :: "string option"
  vi_script_sig :: "string option"
  vi_sequence :: nat
  vi_txid :: "string option"
  vi_vout :: "nat option"

record decoded_vout =
  vo_n :: nat
  vo_script_pub_key :: script_pub_key
  vo_value :: string

record decoded_transaction =
  dt_hash :: string
  dt_locktime :: nat
  dt_size :: nat
  dt_txid :: string
  dt_version :: int
  dt_vin :: "decoded_vin list"
  dt_vout :: "decoded_vout list"

record block_header =
  bh_auxpow :: "string option"
  bh_bits :: string
  bh_hash :: string
  bh_merkleroot :: string
  bh_nonce :: nat
  bh_previous_block_hash :: "string option"
  bh_time :: nat
  bh_version :: int

record decoded_block =
  bk_auxpow :: "string option"
  bk_bits :: string
  bk_hash :: string
  bk_height :: int
  bk_merkleroot :: string
  bk_n_tx :: nat
  bk_nonce :: nat
  bk_previous_block_hash :: "string option"
  bk_size :: nat
  bk_time :: nat
  bk_tx :: "decoded_transaction list"
  bk_version :: int

section \<open>The header\<close>

definition genesis_previous_hash :: string where
  "genesis_previous_hash = replicate 64 (CHR ''0'')"

text \<open>\<^verbatim>\<open>Number.toString(16)\<close>.\<close>

fun nat_hex_str :: "nat \<Rightarrow> string" where
  "nat_hex_str n = (if n < 16 then [hex_char n] else nat_hex_str (n div 16) @ [hex_char (n mod 16)])"

declare nat_hex_str.simps [simp del]

definition read_block_header :: "crypto \<Rightarrow> block_header reading" where
  "read_block_header c r =
     and_then (peek 80 r) (\<lambda>header_bytes.
     then_read read_int32_le (\<lambda>version.
     then_read read_hash (\<lambda>previous_hash.
     then_read read_hash (\<lambda>merkleroot.
     then_read read_uint32_le (\<lambda>time.
     then_read read_uint32_le (\<lambda>bits.
     then_read read_uint32_le (\<lambda>nonce.
     give \<lparr>bh_auxpow = None,
           bh_bits = pad_start 8 (CHR ''0'') (nat_hex_str bits),
           bh_hash = sha256d c header_bytes, bh_merkleroot = merkleroot, bh_nonce = nonce,
           bh_previous_block_hash
             = (if previous_hash \<noteq> genesis_previous_hash then Some previous_hash else None),
           bh_time = time, bh_version = version\<rparr>)))))) r)"

definition is_aux_pow_version :: "int \<Rightarrow> bool" where
  "is_aux_pow_version version \<longleftrightarrow> (version AND 256) \<noteq> 0"

section \<open>The AuxPoW payload\<close>

text \<open>\<^verbatim>\<open>reader.skip(reader.readCompactSize())\<close>.\<close>

definition skip_sized :: "unit reading" where
  "skip_sized = then_read read_compact_size skip"

definition skip_hash_vector :: "unit reading" where
  "skip_hash_vector = then_read read_compact_size (\<lambda>count. skip (count * 32))"

definition skip_witnesses :: "nat \<Rightarrow> unit reading" where
  "skip_witnesses inputs =
     then_read (read_loop (\<lambda>_. then_read read_compact_size (\<lambda>items.
       then_read (read_loop (\<lambda>_. skip_sized) 0 items) (\<lambda>_. give ()))) 0 inputs) (\<lambda>_. give ())"

text \<open>
  The input count: when it is 0 and the next byte is 1, the transaction is in the extended format
  and the real count follows; the flag says that witness data comes after the outputs.
\<close>

definition choose_inputs :: "nat \<Rightarrow> (nat \<times> bool) reading" where
  "choose_inputs inputs r =
     (if inputs = 0
      then and_then (peek 1 r) (\<lambda>next.
        if script_at next 0 = Some 1
        then then_read (skip 1) (\<lambda>_. then_read read_compact_size (\<lambda>n. give (n, True))) r
        else Inr ((inputs, False), r))
      else Inr ((inputs, False), r))"

definition skip_transaction :: "unit reading" where
  "skip_transaction =
     then_read (skip 4) (\<lambda>_.
     then_read read_compact_size (\<lambda>n.
     then_read (choose_inputs n) (\<lambda>(inputs, has_witness).
     then_read (read_loop (\<lambda>_. then_read (skip 36) (\<lambda>_. then_read skip_sized (\<lambda>_. skip 4)))
       0 inputs) (\<lambda>_.
     then_read read_compact_size (\<lambda>outputs.
     then_read (read_loop (\<lambda>_. then_read (skip 8) (\<lambda>_. skip_sized)) 0 outputs) (\<lambda>_.
     then_read (if has_witness then skip_witnesses inputs else give ()) (\<lambda>_.
     skip 4)))))))"

definition read_aux_pow :: "crypto \<Rightarrow> string reading" where
  "read_aux_pow c =
     then_read skip_transaction (\<lambda>_.
     then_read (skip 32) (\<lambda>_.
     then_read skip_hash_vector (\<lambda>_.
     then_read (skip 4) (\<lambda>_.
     then_read skip_hash_vector (\<lambda>_.
     then_read (skip 4) (\<lambda>_.
     then_read (read_bytes 80) (\<lambda>parent_header.
     give (sha256d c parent_header))))))))"

section \<open>Transactions\<close>

definition is_coinbase_outpoint :: "string \<Rightarrow> nat \<Rightarrow> bool" where
  "is_coinbase_outpoint txid vout \<longleftrightarrow> txid = genesis_previous_hash \<and> vout = 0xffffffff"

definition read_sized :: "byte list reading" where
  "read_sized = then_read read_compact_size read_bytes"

definition read_input :: "decoded_vin reading" where
  "read_input =
     then_read read_hash (\<lambda>txid.
     then_read read_uint32_le (\<lambda>vout.
     then_read read_sized (\<lambda>script.
     then_read read_uint32_le (\<lambda>sequence.
     give (if is_coinbase_outpoint txid vout
           then \<lparr>vi_coinbase = Some (bytes_to_hex script), vi_script_sig = None,
                 vi_sequence = sequence, vi_txid = None, vi_vout = None\<rparr>
           else \<lparr>vi_coinbase = None, vi_script_sig = Some (bytes_to_hex script),
                 vi_sequence = sequence, vi_txid = Some txid, vi_vout = Some vout\<rparr>)))))"

definition read_inputs :: "decoded_vin list reading" where
  "read_inputs = then_read read_compact_size (\<lambda>count. read_loop (\<lambda>_. read_input) 0 count)"

definition read_output :: "crypto \<Rightarrow> address_prefixes \<Rightarrow> nat \<Rightarrow> decoded_vout reading" where
  "read_output c p index =
     then_read read_int64_le (\<lambda>value.
     then_read read_sized (\<lambda>script.
     give \<lparr>vo_n = index, vo_script_pub_key = classify_script_pub_key c script p,
           vo_value = format_koinu value\<rparr>))"

definition read_outputs :: "crypto \<Rightarrow> address_prefixes \<Rightarrow> decoded_vout list reading" where
  "read_outputs c p = then_read read_compact_size (\<lambda>count. read_loop (read_output c p) 0 count)"

definition read_transaction_fields :: "crypto \<Rightarrow> address_prefixes
    \<Rightarrow> (int \<times> decoded_vin list \<times> decoded_vout list \<times> nat) reading" where
  "read_transaction_fields c p =
     then_read read_int32_le (\<lambda>version.
     then_read read_inputs (\<lambda>vin.
     then_read (read_outputs c p) (\<lambda>vout.
     then_read read_uint32_le (\<lambda>locktime.
     give (version, vin, vout, locktime)))))"

definition read_transaction :: "crypto \<Rightarrow> address_prefixes \<Rightarrow> decoded_transaction reading" where
  "read_transaction c p r =
     and_then (read_transaction_fields c p r) (\<lambda>((version, vin, vout, locktime), r').
     let raw = slice (rd_offset r) (rd_offset r') r'; txid = sha256d c raw
     in Inr (\<lparr>dt_hash = txid, dt_locktime = locktime, dt_size = length raw, dt_txid = txid,
              dt_version = version, dt_vin = vin, dt_vout = vout\<rparr>, r'))"

section \<open>Blocks\<close>

definition error_message :: "string \<Rightarrow> string" where
  "error_message message =
     (if take (length payload_prefix) message = payload_prefix
      then drop (length payload_prefix) message else message)"

fun infrastructure_message :: "js_error \<Rightarrow> string" where
  "infrastructure_message (InfrastructureError m) = m"
| "infrastructure_message (RangeError m) = m"
| "infrastructure_message (TypeError m) = m"
| "infrastructure_message _ = []"

definition read_block_transaction ::
  "crypto \<Rightarrow> address_prefixes \<Rightarrow> int \<Rightarrow> nat \<Rightarrow> decoded_transaction reading" where
  "read_block_transaction c p height index r =
     (case read_transaction c p r of
        Inl e \<Rightarrow> Inl (invalid_payload (''height='' @ int_str height @ '' tx_index='' @ nat_str index
          @ '' tx_offset='' @ nat_str (rd_offset r) @ '': '' @ error_message (infrastructure_message e)))
      | Inr x \<Rightarrow> Inr x)"

definition finalize_block ::
  "block_header \<Rightarrow> decoded_transaction list \<Rightarrow> int \<Rightarrow> nat \<Rightarrow> decoded_block" where
  "finalize_block header tx height size' =
     \<lparr>bk_auxpow = bh_auxpow header, bk_bits = bh_bits header, bk_hash = bh_hash header,
      bk_height = height, bk_merkleroot = bh_merkleroot header, bk_n_tx = length tx,
      bk_nonce = bh_nonce header,
      bk_previous_block_hash = (case bh_previous_block_hash header of
         Some h \<Rightarrow> if h \<noteq> [] then Some h else None | None \<Rightarrow> None),
      bk_size = size', bk_time = bh_time header, bk_tx = tx, bk_version = bh_version header\<rparr>"

definition read_block ::
  "crypto \<Rightarrow> address_prefixes \<Rightarrow> int \<Rightarrow> (block_header \<times> decoded_transaction list) reading" where
  "read_block c p height =
     then_read (read_block_header c) (\<lambda>header.
     then_read (if is_aux_pow_version (bh_version header)
                then then_read (read_aux_pow c) (\<lambda>a. give (header\<lparr>bh_auxpow := Some a\<rparr>))
                else give header) (\<lambda>header'.
     then_read read_compact_size (\<lambda>tx_count.
     then_read (read_loop (read_block_transaction c p height) 0 tx_count) (\<lambda>tx.
     give (header', tx)))))"

definition decode_dogecoin_raw_block ::
  "crypto \<Rightarrow> string \<Rightarrow> int \<Rightarrow> address_prefixes \<Rightarrow> decoded_block res" where
  "decode_dogecoin_raw_block c hex height p =
     and_then (hex_to_bytes hex) (\<lambda>bytes.
     and_then (read_block c p height (at_offset bytes 0)) (\<lambda>((header, tx), r).
     and_then (assert_consumed r) (\<lambda>_.
     Inr (finalize_block header tx height (length bytes)))))"

section \<open>The wire format\<close>

record raw_input =
  ri_txid :: "byte list"
  ri_vout :: "32 word"
  ri_script :: "byte list"
  ri_sequence :: "32 word"

record raw_output =
  ro_value :: "64 word"
  ro_script :: "byte list"

record raw_transaction =
  rt_version :: "32 word"
  rt_inputs :: "raw_input list"
  rt_outputs :: "raw_output list"
  rt_locktime :: "32 word"

record raw_aux_pow =
  ra_parent :: raw_transaction
  ra_witness :: "byte list list list option"
  ra_block_hash :: "byte list"
  ra_coinbase_branch :: "byte list list"
  ra_coinbase_index :: "32 word"
  ra_chain_branch :: "byte list list"
  ra_chain_index :: "32 word"
  ra_parent_header :: "byte list"

record raw_block =
  rb_version :: "32 word"
  rb_previous :: "byte list"
  rb_merkle_root :: "byte list"
  rb_time :: "32 word"
  rb_bits :: "32 word"
  rb_nonce :: "32 word"
  rb_aux_pow :: "raw_aux_pow option"
  rb_transactions :: "raw_transaction list"

definition sized :: "byte list \<Rightarrow> byte list" where
  "sized bs = compact (length bs) @ bs"

definition encode_all :: "('a \<Rightarrow> byte list) \<Rightarrow> 'a list \<Rightarrow> byte list" where
  "encode_all e xs = compact (length xs) @ concat (map e xs)"

definition encode_input :: "raw_input \<Rightarrow> byte list" where
  "encode_input i = ri_txid i @ le32 (ri_vout i) @ sized (ri_script i) @ le32 (ri_sequence i)"

definition encode_output :: "raw_output \<Rightarrow> byte list" where
  "encode_output o' = le64 (ro_value o') @ sized (ro_script o')"

definition encode_transaction :: "raw_transaction \<Rightarrow> byte list" where
  "encode_transaction t = le32 (rt_version t) @ encode_all encode_input (rt_inputs t)
     @ encode_all encode_output (rt_outputs t) @ le32 (rt_locktime t)"

text \<open>The parent coinbase, in the extended format when it carries witness data.\<close>

definition encode_parent :: "raw_transaction \<Rightarrow> byte list list list option \<Rightarrow> byte list" where
  "encode_parent t witness = le32 (rt_version t)
     @ (case witness of None \<Rightarrow> [] | Some _ \<Rightarrow> [0, 1])
     @ encode_all encode_input (rt_inputs t) @ encode_all encode_output (rt_outputs t)
     @ (case witness of None \<Rightarrow> [] | Some stacks \<Rightarrow> concat (map (encode_all sized) stacks))
     @ le32 (rt_locktime t)"

definition encode_aux_pow :: "raw_aux_pow \<Rightarrow> byte list" where
  "encode_aux_pow a = encode_parent (ra_parent a) (ra_witness a) @ ra_block_hash a
     @ encode_all (\<lambda>h. h) (ra_coinbase_branch a) @ le32 (ra_coinbase_index a)
     @ encode_all (\<lambda>h. h) (ra_chain_branch a) @ le32 (ra_chain_index a) @ ra_parent_header a"

definition encode_header :: "raw_block \<Rightarrow> byte list" where
  "encode_header b = le32 (rb_version b) @ rb_previous b @ rb_merkle_root b @ le32 (rb_time b)
     @ le32 (rb_bits b) @ le32 (rb_nonce b)"

definition encode_block :: "raw_block \<Rightarrow> byte list" where
  "encode_block b = encode_header b
     @ (case rb_aux_pow b of None \<Rightarrow> [] | Some a \<Rightarrow> encode_aux_pow a)
     @ encode_all encode_transaction (rb_transactions b)"

text \<open>Hashes have 32 bytes and counts fit into 32 bits.\<close>

definition countable_length :: "'a list \<Rightarrow> bool" where
  "countable_length xs \<longleftrightarrow> length xs < 2 ^ 32"

definition valid_input :: "raw_input \<Rightarrow> bool" where
  "valid_input i \<longleftrightarrow> length (ri_txid i) = 32 \<and> countable_length (ri_script i)"

definition valid_transaction :: "raw_transaction \<Rightarrow> bool" where
  "valid_transaction t \<longleftrightarrow> countable_length (rt_inputs t) \<and> list_all valid_input (rt_inputs t)
     \<and> countable_length (rt_outputs t) \<and> list_all (\<lambda>o'. countable_length (ro_script o')) (rt_outputs t)"

definition valid_branch :: "byte list list \<Rightarrow> bool" where
  "valid_branch hs \<longleftrightarrow> countable_length hs \<and> list_all (\<lambda>h. length h = 32) hs"

definition valid_aux_pow :: "raw_aux_pow \<Rightarrow> bool" where
  "valid_aux_pow a \<longleftrightarrow> valid_transaction (ra_parent a) \<and> rt_inputs (ra_parent a) \<noteq> []
     \<and> (case ra_witness a of None \<Rightarrow> True
        | Some stacks \<Rightarrow> length stacks = length (rt_inputs (ra_parent a))
            \<and> list_all (\<lambda>items. countable_length items \<and> list_all countable_length items) stacks)
     \<and> length (ra_block_hash a) = 32 \<and> valid_branch (ra_coinbase_branch a)
     \<and> valid_branch (ra_chain_branch a) \<and> length (ra_parent_header a) = 80"

definition valid_block :: "raw_block \<Rightarrow> bool" where
  "valid_block b \<longleftrightarrow> length (rb_previous b) = 32 \<and> length (rb_merkle_root b) = 32
     \<and> (rb_aux_pow b \<noteq> None \<longleftrightarrow> is_aux_pow_version (sint (rb_version b)))
     \<and> (case rb_aux_pow b of None \<Rightarrow> True | Some a \<Rightarrow> valid_aux_pow a)
     \<and> countable_length (rb_transactions b) \<and> list_all valid_transaction (rb_transactions b)"

text \<open>What the decoder is to return.\<close>

definition display_hash :: "byte list \<Rightarrow> string" where
  "display_hash h = bytes_to_hex (rev h)"

definition decoded_input :: "raw_input \<Rightarrow> decoded_vin" where
  "decoded_input i =
     (if ri_txid i = replicate 32 0 \<and> ri_vout i = - 1
      then \<lparr>vi_coinbase = Some (bytes_to_hex (ri_script i)), vi_script_sig = None,
            vi_sequence = unat (ri_sequence i), vi_txid = None, vi_vout = None\<rparr>
      else \<lparr>vi_coinbase = None, vi_script_sig = Some (bytes_to_hex (ri_script i)),
            vi_sequence = unat (ri_sequence i), vi_txid = Some (display_hash (ri_txid i)),
            vi_vout = Some (unat (ri_vout i))\<rparr>)"

definition decoded_output ::
  "crypto \<Rightarrow> address_prefixes \<Rightarrow> nat \<Rightarrow> raw_output \<Rightarrow> decoded_vout" where
  "decoded_output c p n o' = \<lparr>vo_n = n, vo_script_pub_key = classify_script_pub_key c (ro_script o') p,
     vo_value = format_koinu (sint (ro_value o'))\<rparr>"

definition decoded_transaction_of ::
  "crypto \<Rightarrow> address_prefixes \<Rightarrow> raw_transaction \<Rightarrow> decoded_transaction" where
  "decoded_transaction_of c p t =
     \<lparr>dt_hash = sha256d c (encode_transaction t), dt_locktime = unat (rt_locktime t),
      dt_size = length (encode_transaction t), dt_txid = sha256d c (encode_transaction t),
      dt_version = sint (rt_version t), dt_vin = map decoded_input (rt_inputs t),
      dt_vout = map (\<lambda>(n, o'). decoded_output c p n o') (List.enumerate 0 (rt_outputs t))\<rparr>"

definition decoded_block_of ::
  "crypto \<Rightarrow> address_prefixes \<Rightarrow> int \<Rightarrow> raw_block \<Rightarrow> decoded_block" where
  "decoded_block_of c p height b =
     \<lparr>bk_auxpow = map_option (\<lambda>a. sha256d c (ra_parent_header a)) (rb_aux_pow b),
      bk_bits = pad_start 8 (CHR ''0'') (nat_hex_str (unat (rb_bits b))),
      bk_hash = sha256d c (encode_header b), bk_height = height,
      bk_merkleroot = display_hash (rb_merkle_root b), bk_n_tx = length (rb_transactions b),
      bk_nonce = unat (rb_nonce b),
      bk_previous_block_hash = (if rb_previous b = replicate 32 0 then None
        else Some (display_hash (rb_previous b))),
      bk_size = length (encode_block b), bk_time = unat (rb_time b),
      bk_tx = map (decoded_transaction_of c p) (rb_transactions b),
      bk_version = sint (rb_version b)\<rparr>"

section \<open>The decoder inverts the encoder\<close>

lemma reads_count [reads_intros]:
  "countable_length xs \<Longrightarrow> reads read_compact_size (compact (length xs)) (length xs)"
  by (rule reads_compact) (simp add: countable_length_def)

lemma reads_read_sized [reads_intros]: "countable_length bs \<Longrightarrow> reads read_sized (sized bs) bs"
  unfolding read_sized_def sized_def 
  by (rule reads_then_read, rule reads_count, assumption, rule reads_read_bytes)

lemma reads_skip_sized [reads_intros]: "countable_length bs \<Longrightarrow> reads skip_sized (sized bs) ()"
  unfolding skip_sized_def sized_def
  by (rule reads_then_read, rule reads_count, assumption, rule reads_skip, rule refl)

lemma reads_each:
  assumes "\<And>i x. x \<in> set xs \<Longrightarrow> reads (f i) (e x) (d i x)"
  shows "reads (read_loop f 0 (length xs)) (concat (map e xs))
           (map (\<lambda>(i, x). d i x) (List.enumerate 0 xs))"
  by (rule reads_loop) (simp add: assms)

lemma reads_all:
  assumes "countable_length xs" and "\<And>i x. x \<in> set xs \<Longrightarrow> reads (f i) (e x) (d i x)"
  shows "reads (then_read read_compact_size (read_loop f 0)) (encode_all e xs)
           (map (\<lambda>(i, x). d i x) (List.enumerate 0 xs))"
  unfolding encode_all_def
  by (rule reads_then_read, rule reads_count, rule assms(1), rule reads_each, rule assms(2))

lemma map_enumerate_const: "map (\<lambda>(i, x). d x) (List.enumerate n xs) = map d xs"
  by (induction xs arbitrary: n) simp_all

lemma hex_zeros: "bytes_to_hex (replicate n 0) = replicate (2 * n) (CHR ''0'')"
  using digit_char_table(1)
  by (induction n) (simp_all add: bytes_to_hex_def hex_char_def digit_char_def)

lemma genesis_hash_bytes: "genesis_previous_hash = bytes_to_hex (replicate 32 0)"
  unfolding hex_zeros genesis_previous_hash_def by simp

lemma display_hash_genesis: "bytes_to_hex (rev h) = genesis_previous_hash \<longleftrightarrow> h = replicate 32 0"
  unfolding genesis_hash_bytes bytes_to_hex_inject by (metis rev_replicate rev_rev_ident)

lemma unat_all_ones: "unat (w :: 32 word) = 0xffffffff \<longleftrightarrow> w = - 1"
proof -
  have "unat (- 1 :: 32 word) = 0xffffffff"
    by (simp add: unsigned_minus_1_eq_mask mask_eq_exp_minus_1)
  then show ?thesis by (simp add: word_unat_eq_iff)
qed

lemma reads_give_end: "reads f bs u \<Longrightarrow> v = g u \<Longrightarrow> reads (then_read f (\<lambda>x. give (g x))) bs v"
  using reads_then_read [of f bs u "\<lambda>x. give (g x)" "[]"] by (simp add: reads_give)

lemma reads_input:
  assumes "valid_input i" shows "reads read_input (encode_input i) (decoded_input i)"
  unfolding read_input_def encode_input_def
proof (rule reads_then_read, rule reads_hash)
  show "length (ri_txid i) = 32" using assms by (simp add: valid_input_def)
  show "reads (then_read read_uint32_le (\<lambda>vout. then_read read_sized (\<lambda>script.
      then_read read_uint32_le (\<lambda>sequence.
      give (if is_coinbase_outpoint (bytes_to_hex (rev (ri_txid i))) vout
         then \<lparr>vi_coinbase = Some (bytes_to_hex script), vi_script_sig = None,
               vi_sequence = sequence, vi_txid = None, vi_vout = None\<rparr>
         else \<lparr>vi_coinbase = None, vi_script_sig = Some (bytes_to_hex script),
               vi_sequence = sequence, vi_txid = Some (bytes_to_hex (rev (ri_txid i))),
               vi_vout = Some vout\<rparr>)))))
    (le32 (ri_vout i) @ sized (ri_script i) @ le32 (ri_sequence i)) (decoded_input i)"
  proof (rule reads_then_read, rule reads_uint32, rule reads_then_read, rule reads_read_sized)
    show "countable_length (ri_script i)" using assms by (simp add: valid_input_def)
  qed (rule reads_give_end, rule reads_uint32,
      simp add: decoded_input_def is_coinbase_outpoint_def display_hash_genesis unat_all_ones
        display_hash_def)
qed

lemma reads_output:
  assumes "countable_length (ro_script o')"
  shows "reads (read_output c p n) (encode_output o') (decoded_output c p n o')"
  unfolding read_output_def encode_output_def
  by (rule reads_then_read, rule reads_int64, rule reads_give_end, rule reads_read_sized,
      rule assms, simp add: decoded_output_def)

lemma reads_transaction_fields:
  assumes "valid_transaction t"
  shows "reads (read_transaction_fields c p) (encode_transaction t)
    (sint (rt_version t), map decoded_input (rt_inputs t),
     map (\<lambda>(n, o'). decoded_output c p n o') (List.enumerate 0 (rt_outputs t)), unat (rt_locktime t))"
proof -
  from assms have ins: "countable_length (rt_inputs t)" "\<And>i. i \<in> set (rt_inputs t) \<Longrightarrow> valid_input i"
    and outs: "countable_length (rt_outputs t)"
      "\<And>o'. o' \<in> set (rt_outputs t) \<Longrightarrow> countable_length (ro_script o')"
    by (simp_all add: valid_transaction_def list_all_iff)
  have vin: "reads read_inputs (encode_all encode_input (rt_inputs t)) (map decoded_input (rt_inputs t))"
    using reads_all [OF ins(1), of "\<lambda>_. read_input" encode_input "\<lambda>_. decoded_input"]
      reads_input [OF ins(2)] unfolding read_inputs_def by (simp add: map_enumerate_const)
  have vout: "reads (read_outputs c p) (encode_all encode_output (rt_outputs t))
     (map (\<lambda>(n, o'). decoded_output c p n o') (List.enumerate 0 (rt_outputs t)))"
    unfolding read_outputs_def by (rule reads_all, rule outs(1), rule reads_output, rule outs(2))
  show ?thesis
    unfolding read_transaction_fields_def encode_transaction_def
    by (rule reads_then_read, rule reads_int32, rule reads_then_read, rule vin,
        rule reads_then_read, rule vout, rule reads_give_end, rule reads_uint32, rule refl)
qed

lemma reads_transaction:
  assumes "valid_transaction t"
  shows "reads (read_transaction c p) (encode_transaction t) (decoded_transaction_of c p t)"
  unfolding reads_def
proof (intro allI)
  fix pre rest :: "byte list"
  show "read_transaction c p (at_offset (pre @ encode_transaction t @ rest) (length pre))
    = Inr (decoded_transaction_of c p t,
        at_offset (pre @ encode_transaction t @ rest) (length pre + length (encode_transaction t)))"
    using readsD [OF reads_transaction_fields [OF assms], of c p pre rest]
    by (simp add: read_transaction_def slice_def decoded_transaction_of_def Let_def)
qed

lemma reads_block_transaction:
  assumes "valid_transaction t"
  shows "reads (read_block_transaction c p height i) (encode_transaction t) (decoded_transaction_of c p t)"
  using readsD [OF reads_transaction [OF assms], of c p]
  by (simp add: reads_def read_block_transaction_def)

text \<open>The AuxPoW payload is skipped exactly.\<close>

lemma reads_choose_plain: "n \<noteq> 0 \<Longrightarrow> reads (choose_inputs n) [] (n, False)"
  by (simp add: reads_def choose_inputs_def)

lemma reads_choose_witness:
  assumes "n < 2 ^ 32" shows "reads (choose_inputs 0) ([1] @ compact n) (n, True)"
proof -
  have r: "reads (then_read (skip 1) (\<lambda>_. then_read read_compact_size (\<lambda>n. give (n, True))))
      ([1] @ compact n) (n, True)"
    by (rule reads_then_read, rule reads_skip, simp, rule reads_give_end, rule reads_compact,
        rule assms, rule refl)
  show ?thesis unfolding reads_def
  proof (intro allI)
    fix pre rest :: "byte list"
    have "peek 1 (at_offset (pre @ ([1] @ compact n) @ rest) (length pre)) = Inr [1]"
      by (simp add: peek_def assert_available_def)
    then show "choose_inputs 0 (at_offset (pre @ ([1] @ compact n) @ rest) (length pre))
      = Inr ((n, True), at_offset (pre @ ([1] @ compact n) @ rest)
          (length pre + length ([1] @ compact n)))"
      using readsD [OF r, of pre rest] by (simp add: choose_inputs_def script_at_def)
  qed
qed

lemma reads_skip_input:
  assumes "valid_input i"
  shows "reads (then_read (skip 36) (\<lambda>_. then_read skip_sized (\<lambda>_. skip 4))) (encode_input i) ()"
proof -
  have "reads (then_read (skip 36) (\<lambda>_. then_read skip_sized (\<lambda>_. skip 4)))
      ((ri_txid i @ le32 (ri_vout i)) @ sized (ri_script i) @ le32 (ri_sequence i)) ()"
    by (rule reads_then_read, rule reads_skip, use assms in \<open>simp add: valid_input_def\<close>,
        rule reads_then_read, rule reads_skip_sized, use assms in \<open>simp add: valid_input_def\<close>,
        rule reads_skip, simp)
  then show ?thesis by (simp add: encode_input_def)
qed

lemma reads_skip_output:
  assumes "countable_length (ro_script o')"
  shows "reads (then_read (skip 8) (\<lambda>_. skip_sized)) (encode_output o') ()"
  unfolding encode_output_def
  by (rule reads_then_read, rule reads_skip, simp add: le64_def, rule reads_skip_sized, rule assms)

lemma reads_skip_witnesses:
  assumes "list_all (\<lambda>items. countable_length items \<and> list_all countable_length items) stacks"
  shows "reads (skip_witnesses (length stacks)) (concat (map (encode_all sized) stacks)) ()"
proof -
  have item: "reads (then_read read_compact_size (\<lambda>items. then_read (read_loop (\<lambda>_. skip_sized) 0 items)
      (\<lambda>_. give ()))) (encode_all sized items) ()"
    if "items \<in> set stacks" for items
  proof -
    from that assms have c: "countable_length items" "\<And>x. x \<in> set items \<Longrightarrow> countable_length x"
      by (auto simp: list_all_iff)
    show ?thesis
      unfolding encode_all_def
      by (rule reads_then_read, rule reads_count, rule c(1), rule reads_give_end, rule reads_each,
          rule reads_skip_sized, erule c(2), rule refl)
  qed
  show ?thesis
    unfolding skip_witnesses_def
    by (rule reads_give_end, rule reads_each, erule item, rule refl)
qed

text \<open>What follows the input count is the same in both forms.\<close>

lemma reads_parent_body:
  assumes "valid_transaction t"
    and "reads (if w then skip_witnesses (length (rt_inputs t)) else give ()) ws ()"
  shows "reads (then_read (read_loop (\<lambda>_. then_read (skip 36) (\<lambda>_. then_read skip_sized (\<lambda>_. skip 4)))
       0 (length (rt_inputs t))) (\<lambda>_.
     then_read read_compact_size (\<lambda>outputs.
     then_read (read_loop (\<lambda>_. then_read (skip 8) (\<lambda>_. skip_sized)) 0 outputs) (\<lambda>_.
     then_read (if w then skip_witnesses (length (rt_inputs t)) else give ()) (\<lambda>_.
     skip 4)))))
    (concat (map encode_input (rt_inputs t)) @ compact (length (rt_outputs t))
      @ concat (map encode_output (rt_outputs t)) @ ws @ le32 (rt_locktime t)) ()"
proof -
  from assms(1) have ins: "\<And>i. i \<in> set (rt_inputs t) \<Longrightarrow> valid_input i"
    and outs: "countable_length (rt_outputs t)"
      "\<And>o'. o' \<in> set (rt_outputs t) \<Longrightarrow> countable_length (ro_script o')"
    by (simp_all add: valid_transaction_def list_all_iff)
  show ?thesis
    by (rule reads_then_read, rule reads_each, rule reads_skip_input, erule ins,
        rule reads_then_read, rule reads_count, rule outs(1),
        rule reads_then_read, rule reads_each, rule reads_skip_output, erule outs(2),
        rule reads_then_read, rule assms(2), rule reads_skip, simp)
qed

lemma reads_skip_transaction:
  assumes v: "valid_transaction t" "rt_inputs t \<noteq> []"
    and w: "case witness of None \<Rightarrow> True | Some stacks \<Rightarrow> length stacks = length (rt_inputs t)
            \<and> list_all (\<lambda>items. countable_length items \<and> list_all countable_length items) stacks"
  shows "reads skip_transaction (encode_parent t witness) ()"
proof (cases witness)
  case None
  have e: "encode_parent t witness = le32 (rt_version t) @ compact (length (rt_inputs t)) @ []
     @ concat (map encode_input (rt_inputs t)) @ compact (length (rt_outputs t))
     @ concat (map encode_output (rt_outputs t)) @ [] @ le32 (rt_locktime t)"
    by (simp add: None encode_parent_def encode_all_def)
  have c: "countable_length (rt_inputs t)" using v(1) by (simp add: valid_transaction_def)
  show ?thesis unfolding e skip_transaction_def
    by (rule reads_then_read, rule reads_skip, simp, rule reads_then_read, rule reads_count,
        rule c, rule reads_then_read, rule reads_choose_plain, use v(2) in simp,
        use reads_parent_body [OF v(1), of False "[]"] in \<open>simp add: reads_give\<close>)
next
  case (Some stacks)
  have e: "encode_parent t witness = le32 (rt_version t) @ compact 0
     @ ([1] @ compact (length (rt_inputs t)))
     @ concat (map encode_input (rt_inputs t)) @ compact (length (rt_outputs t))
     @ concat (map encode_output (rt_outputs t)) @ concat (map (encode_all sized) stacks)
     @ le32 (rt_locktime t)"
    by (simp add: Some encode_parent_def encode_all_def compact_def)
  have c: "length (rt_inputs t) < 2 ^ 32" using v(1)
    by (simp add: valid_transaction_def countable_length_def)
  have ws: "reads (skip_witnesses (length (rt_inputs t))) (concat (map (encode_all sized) stacks)) ()"
    using reads_skip_witnesses [of stacks] w Some by simp
  show ?thesis unfolding e skip_transaction_def
    by (rule reads_then_read, rule reads_skip, simp, rule reads_then_read, rule reads_compact,
        simp, rule reads_then_read, rule reads_choose_witness, rule c,
        use reads_parent_body [OF v(1), of True "concat (map (encode_all sized) stacks)"] ws in simp)
qed

lemma length_hashes: "list_all (\<lambda>h. length h = 32) hs \<Longrightarrow> length (concat hs) = length hs * 32"
  by (induction hs) simp_all

lemma reads_hash_vector:
  assumes "valid_branch hs" shows "reads skip_hash_vector (encode_all (\<lambda>h. h) hs) ()"
  unfolding skip_hash_vector_def encode_all_def map_ident
  by (rule reads_then_read, rule reads_count, use assms in \<open>simp add: valid_branch_def\<close>,
      rule reads_skip, use assms in \<open>simp add: valid_branch_def length_hashes\<close>)

lemma reads_aux_pow:
  assumes "valid_aux_pow a"
  shows "reads (read_aux_pow c) (encode_aux_pow a) (sha256d c (ra_parent_header a))"
proof -
  from assms have v: "valid_transaction (ra_parent a)" "rt_inputs (ra_parent a) \<noteq> []"
    and w: "case ra_witness a of None \<Rightarrow> True | Some stacks \<Rightarrow>
        length stacks = length (rt_inputs (ra_parent a))
        \<and> list_all (\<lambda>items. countable_length items \<and> list_all countable_length items) stacks"
    and h: "32 = length (ra_block_hash a)" and cb: "valid_branch (ra_coinbase_branch a)"
    and ch: "valid_branch (ra_chain_branch a)" and ph: "length (ra_parent_header a) = 80"
    by (simp_all add: valid_aux_pow_def)
  have p: "reads (read_bytes 80) (ra_parent_header a) (ra_parent_header a)"
    using reads_read_bytes [of "ra_parent_header a"] by (simp add: ph)
  show ?thesis
    unfolding read_aux_pow_def encode_aux_pow_def
    by (rule reads_then_read, rule reads_skip_transaction [OF v w], rule reads_then_read,
        rule reads_skip [OF h], rule reads_then_read, rule reads_hash_vector [OF cb],
        rule reads_then_read, rule reads_skip, simp, rule reads_then_read,
        rule reads_hash_vector [OF ch], rule reads_then_read, rule reads_skip, simp,
        rule reads_give_end, rule p, rule refl)
qed

definition decoded_header :: "crypto \<Rightarrow> raw_block \<Rightarrow> block_header" where
  "decoded_header c b =
     \<lparr>bh_auxpow = None, bh_bits = pad_start 8 (CHR ''0'') (nat_hex_str (unat (rb_bits b))),
      bh_hash = sha256d c (encode_header b), bh_merkleroot = display_hash (rb_merkle_root b),
      bh_nonce = unat (rb_nonce b),
      bh_previous_block_hash = (if rb_previous b = replicate 32 0 then None
        else Some (display_hash (rb_previous b))),
      bh_time = unat (rb_time b), bh_version = sint (rb_version b)\<rparr>"

lemma reads_header:
  assumes "length (rb_previous b) = 32" and "length (rb_merkle_root b) = 32"
  shows "reads (read_block_header c) (encode_header b) (decoded_header c b)"
  unfolding reads_def
proof (intro allI)
  fix pre rest :: "byte list"
  let ?r = "at_offset (pre @ encode_header b @ rest) (length pre)"
  have "length (encode_header b) = 80" using assms by (simp add: encode_header_def)
  then have peek: "peek 80 ?r = Inr (encode_header b)"
    by (simp add: peek_def assert_available_def)
  have fields: "reads (then_read read_int32_le (\<lambda>version.
     then_read read_hash (\<lambda>previous_hash.
     then_read read_hash (\<lambda>merkleroot.
     then_read read_uint32_le (\<lambda>time.
     then_read read_uint32_le (\<lambda>bits.
     then_read read_uint32_le (\<lambda>nonce.
     give \<lparr>bh_auxpow = None,
           bh_bits = pad_start 8 (CHR ''0'') (nat_hex_str bits),
           bh_hash = sha256d c (encode_header b), bh_merkleroot = merkleroot, bh_nonce = nonce,
           bh_previous_block_hash
             = (if previous_hash \<noteq> genesis_previous_hash then Some previous_hash else None),
           bh_time = time, bh_version = version\<rparr>))))))) (encode_header b) (decoded_header c b)"
    unfolding encode_header_def
    by (rule reads_then_read, rule reads_int32, rule reads_then_read, rule reads_hash,
        rule assms(1), rule reads_then_read, rule reads_hash, rule assms(2),
        rule reads_then_read, rule reads_uint32, rule reads_then_read, rule reads_uint32,
        rule reads_give_end, rule reads_uint32,
        simp add: decoded_header_def encode_header_def display_hash_def display_hash_genesis)
  show "read_block_header c ?r = Inr (decoded_header c b,
      at_offset (pre @ encode_header b @ rest) (length pre + length (encode_header b)))"
    using readsD [OF fields, of pre rest] by (simp add: read_block_header_def peek)
qed

lemma reads_block:
  assumes "valid_block b"
  shows "reads (read_block c p height) (encode_block b)
    ((decoded_header c b)\<lparr>bh_auxpow
        := map_option (\<lambda>a. sha256d c (ra_parent_header a)) (rb_aux_pow b)\<rparr>,
     map (decoded_transaction_of c p) (rb_transactions b))"
proof -
  let ?a = "map_option (\<lambda>a. sha256d c (ra_parent_header a)) (rb_aux_pow b)"
  from assms have h: "length (rb_previous b) = 32" "length (rb_merkle_root b) = 32"
    and iff: "rb_aux_pow b \<noteq> None \<longleftrightarrow> is_aux_pow_version (sint (rb_version b))"
    and aux: "\<And>a. rb_aux_pow b = Some a \<Longrightarrow> valid_aux_pow a"
    and txs: "countable_length (rb_transactions b)"
      "\<And>t. t \<in> set (rb_transactions b) \<Longrightarrow> valid_transaction t"
    by (simp_all add: valid_block_def list_all_iff)
  have version: "bh_version (decoded_header c b) = sint (rb_version b)"
    "bh_auxpow (decoded_header c b) = None"
    by (simp_all add: decoded_header_def)
  have payload: "reads (if is_aux_pow_version (bh_version (decoded_header c b))
      then then_read (read_aux_pow c) (\<lambda>a. give ((decoded_header c b)\<lparr>bh_auxpow := Some a\<rparr>))
      else give (decoded_header c b))
    (case rb_aux_pow b of None \<Rightarrow> [] | Some a \<Rightarrow> encode_aux_pow a)
    ((decoded_header c b)\<lparr>bh_auxpow := ?a\<rparr>)"
  proof (cases "rb_aux_pow b")
    case None
    then have plain: "\<not> is_aux_pow_version (bh_version (decoded_header c b))"
      using iff version(1) by simp
    have same: "(decoded_header c b)\<lparr>bh_auxpow := None\<rparr> = decoded_header c b"
      by (simp add: decoded_header_def)
    show ?thesis
      unfolding None option.map option.case same if_not_P [OF plain] by (rule reads_give)
  next
    case (Some a)
    then show ?thesis using iff version aux
      by (simp add: reads_give_end [OF reads_aux_pow])
  qed
  have list: "map (\<lambda>(i, t). decoded_transaction_of c p t) (List.enumerate 0 (rb_transactions b))
      = map (decoded_transaction_of c p) (rb_transactions b)" by (rule map_enumerate_const)
  have loop: "reads (read_loop (read_block_transaction c p height) 0 (length (rb_transactions b)))
      (concat (map encode_transaction (rb_transactions b)))
      (map (decoded_transaction_of c p) (rb_transactions b))"
    unfolding list [symmetric] by (rule reads_each, rule reads_block_transaction, erule txs(2))
  show ?thesis
    unfolding read_block_def encode_block_def encode_all_def
    by (rule reads_then_read, rule reads_header [OF h], rule reads_then_read, rule payload,
        rule reads_then_read, rule reads_count, rule txs(1), rule reads_give_end, rule loop,
        rule refl)
qed

lemma display_hash_nonempty: "length h = 32 \<Longrightarrow> display_hash h \<noteq> []"
  by (simp add: display_hash_def flip: length_greater_0_conv)

lemma decode_encoded_block:
  assumes "valid_block b"
  shows "decode_dogecoin_raw_block c (bytes_to_hex (encode_block b)) height p
    = Inr (decoded_block_of c p height b)"
proof -
  let ?a = "map_option (\<lambda>a. sha256d c (ra_parent_header a)) (rb_aux_pow b)"
  have "encode_block b \<noteq> []" by (simp add: encode_block_def encode_header_def le32_def)
  then have bytes: "hex_to_bytes (bytes_to_hex (encode_block b)) = Inr (encode_block b)"
    by (rule hex_to_bytes_to_hex)
  have "length (rb_previous b) = 32" using assms by (simp add: valid_block_def)
  then have prev: "display_hash (rb_previous b) \<noteq> []" by (rule display_hash_nonempty)
  have "read_block c p height (at_offset (encode_block b) 0)
      = Inr (((decoded_header c b)\<lparr>bh_auxpow := ?a\<rparr>, map (decoded_transaction_of c p) (rb_transactions b)),
          at_offset (encode_block b) (length (encode_block b)))"
    using readsD [OF reads_block [OF assms], of c p height "[]" "[]"] by simp
  then show ?thesis using prev
    by (simp add: decode_dogecoin_raw_block_def bytes assert_consumed_def finalize_block_def
        decoded_header_def decoded_block_of_def)
qed

text \<open>
  C12. The raw block decoder inverts the wire format. For every block whose hashes have 32 bytes
  and whose counts and script lengths fit into 32 bits, with an AuxPoW payload exactly when its
  version says so (the parent coinbase in the plain or in the witness-carrying form, with any
  number of stack items), decoding the hexadecimal text of its bytes returns that block: header
  fields, transaction ids as digests of the transactions' own bytes, inputs with the coinbase
  told apart, outputs with their exact amounts and classified scripts, sizes and counts.
\<close>

theorem raw_block_roundtrip:
  assumes "valid_block b"
  shows "decode_dogecoin_raw_block c (bytes_to_hex (encode_block b)) height p
    = Inr (decoded_block_of c p height b)"
  using assms by (rule decode_encoded_block)

definition sample_crypto :: crypto where
  "sample_crypto = \<lparr>cr_sha256 = \<lambda>bs. take 32 (bs @ replicate 32 7), cr_ripemd160 = \<lambda>bs. take 20 bs\<rparr>"

definition sample_coinbase :: raw_transaction where
  "sample_coinbase = \<lparr>rt_version = 1,
     rt_inputs = [\<lparr>ri_txid = replicate 32 0, ri_vout = - 1, ri_script = [4, 1, 2, 3], ri_sequence = 0\<rparr>],
     rt_outputs = [\<lparr>ro_value = 1000000000000, ro_script = pay_to_pubkey_hash (replicate 20 9)\<rparr>],
     rt_locktime = 0\<rparr>"

definition sample_block :: raw_block where
  "sample_block = \<lparr>rb_version = 0x00620102, rb_previous = replicate 32 5, rb_merkle_root = replicate 32 6,
     rb_time = 1400000000, rb_bits = 0x1b2c3d4e, rb_nonce = 0,
     rb_aux_pow = Some \<lparr>ra_parent = sample_coinbase, ra_witness = Some [[replicate 32 0]],
        ra_block_hash = replicate 32 1, ra_coinbase_branch = [replicate 32 2],
        ra_coinbase_index = 0, ra_chain_branch = [], ra_chain_index = 0,
        ra_parent_header = replicate 80 3\<rparr>,
     rb_transactions = [sample_coinbase]\<rparr>"

lemma sample_block_valid: "valid_block sample_block"
  by (simp add: valid_block_def sample_block_def is_aux_pow_version_def valid_aux_pow_def
      valid_transaction_def sample_coinbase_def valid_input_def countable_length_def
      valid_branch_def pay_to_pubkey_hash_def)

theorem raw_block_roundtrip_witness:
  "decode_dogecoin_raw_block sample_crypto (bytes_to_hex (encode_block sample_block)) 371337
     dogecoin_mainnet_address_prefixes
   = Inr (decoded_block_of sample_crypto dogecoin_mainnet_address_prefixes 371337 sample_block)"
  by (rule raw_block_roundtrip [OF sample_block_valid])

section \<open>Trailing and missing bytes\<close>

lemma peek_at: "peek n (at_offset bs i) = (if i + n \<le> length bs then Inr (take n (drop i bs))
    else Inl (invalid_payload (''read past end at offset '' @ nat_str i)))"
  by (simp add: peek_def assert_available_def)

lemma steady_peek:
  assumes "\<And>bytes. steady (f bytes)"
  shows "steady (\<lambda>r. and_then (peek n r) (\<lambda>bytes. f bytes r))"
proof (rule steadyI)
  fix bs i v r'
  assume i: "i \<le> length bs"
    and run: "and_then (peek n (at_offset bs i)) (\<lambda>bytes. f bytes (at_offset bs i)) = Inr (v, r')"
  then have fits: "i + n \<le> length bs" and f: "f (take n (drop i bs)) (at_offset bs i) = Inr (v, r')"
    by (simp_all add: peek_at split: if_splits)
  from assms f i obtain j where j: "r' = at_offset bs j" "i \<le> j" "j \<le> length bs"
    "\<And>ext. f (take n (drop i bs)) (at_offset (bs @ ext) i) = Inr (v, at_offset (bs @ ext) j)"
    by (rule steadyE) blast
  have "take n (drop i (bs @ ext)) = take n (drop i bs)" for ext using fits by simp
  then show "\<exists>j. r' = at_offset bs j \<and> i \<le> j \<and> j \<le> length bs
      \<and> (\<forall>ext. and_then (peek n (at_offset (bs @ ext) i)) (\<lambda>bytes. f bytes (at_offset (bs @ ext) i))
           = Inr (v, at_offset (bs @ ext) j))"
    using j fits by (intro exI [of _ j]) (simp add: peek_at)
qed

lemma steady_header [steady_intros]: "steady (read_block_header c)"
  unfolding read_block_header_def by (rule steady_peek) (intro steady_intros)

lemma steady_skip_sized [steady_intros]: "steady skip_sized"
  unfolding skip_sized_def by (intro steady_intros)

lemma steady_read_sized [steady_intros]: "steady read_sized"
  unfolding read_sized_def by (intro steady_intros)

lemma steady_hash_vector [steady_intros]: "steady skip_hash_vector"
  unfolding skip_hash_vector_def by (intro steady_intros)

lemma steady_witnesses [steady_intros]: "steady (skip_witnesses n)"
  unfolding skip_witnesses_def by (intro steady_intros)

lemma choose_inputs_eq:
  "choose_inputs n = (if n = 0 then (\<lambda>r. and_then (peek 1 r) (\<lambda>next.
      (if script_at next 0 = Some 1
       then then_read (skip 1) (\<lambda>_. then_read read_compact_size (\<lambda>n. give (n, True)))
       else give (n, False)) r)) else give (n, False))"
  by (rule ext) (auto simp: choose_inputs_def give_def intro!: and_then_cong)

lemma steady_choose [steady_intros]: "steady (choose_inputs n)"
  unfolding choose_inputs_eq by (intro steady_if steady_peek steady_intros)

lemma steady_case_prod [steady_intros]: "(\<And>a b. steady (f a b)) \<Longrightarrow> steady (case x of (a, b) \<Rightarrow> f a b)"
  by (cases x) simp

lemma steady_skip_transaction [steady_intros]: "steady skip_transaction"
  unfolding skip_transaction_def by (intro steady_intros)

lemma steady_aux_pow [steady_intros]: "steady (read_aux_pow c)"
  unfolding read_aux_pow_def by (intro steady_intros)

lemma steady_input [steady_intros]: "steady read_input"
  unfolding read_input_def by (intro steady_intros)

lemma steady_output [steady_intros]: "steady (read_output c p n)"
  unfolding read_output_def by (intro steady_intros)

lemma steady_fields: "steady (read_transaction_fields c p)"
  unfolding read_transaction_fields_def read_inputs_def read_outputs_def by (intro steady_intros)

lemma steady_transaction: "steady (read_transaction c p)"
proof (rule steadyI)
  fix bs i v r' assume i: "i \<le> length bs" and run: "read_transaction c p (at_offset bs i) = Inr (v, r')"
  then obtain x where x: "read_transaction_fields c p (at_offset bs i) = Inr (x, r')"
    by (auto simp: read_transaction_def res_simps Let_def split: prod.splits)
  from steady_fields x i obtain j where j: "r' = at_offset bs j" "i \<le> j" "j \<le> length bs"
    "\<And>ext. read_transaction_fields c p (at_offset (bs @ ext) i) = Inr (x, at_offset (bs @ ext) j)"
    by (rule steadyE) blast
  have "slice i j (at_offset (bs @ ext) j) = slice i j (at_offset bs j)" for ext
    using j(2,3) by (simp add: slice_def)
  then show "\<exists>j. r' = at_offset bs j \<and> i \<le> j \<and> j \<le> length bs
      \<and> (\<forall>ext. read_transaction c p (at_offset (bs @ ext) i) = Inr (v, at_offset (bs @ ext) j))"
    using j run x by (intro exI [of _ j]) (auto simp: read_transaction_def Let_def split: prod.splits)
qed

lemma steady_block_transaction [steady_intros]: "steady (read_block_transaction c p height n)"
proof -
  have ok: "read_block_transaction c p height n r = Inr x \<longleftrightarrow> read_transaction c p r = Inr x" for r x
    by (simp add: read_block_transaction_def split: sum.splits)
  show ?thesis using steady_transaction [of c p] by (simp add: steady_def ok)
qed

lemma steady_read_block: "steady (read_block c p height)"
  unfolding read_block_def by (intro steady_intros)

text \<open>
  Accepted block texts are prefix-free: when the decoder accepts some bytes, it refuses the
  same bytes followed by any others, and the error names the number of extra bytes. So a
  response with trailing garbage is never taken for a block, and an accepted block cut short is
  never accepted either.
\<close>

theorem trailing_bytes_rejected:
  assumes "hex_to_bytes hex = Inr bytes" and "hex_to_bytes hex' = Inr (bytes @ extra)"
    and "extra \<noteq> []" and "decode_dogecoin_raw_block c hex height p = Inr block"
  shows "decode_dogecoin_raw_block c hex' height p
    = Inl (invalid_payload (''trailing '' @ int_str (int (length extra)) @ '' bytes''))"
proof -
  from assms(1,4) obtain x r where run: "read_block c p height (at_offset bytes 0) = Inr (x, r)"
    and consumed: "assert_consumed r = Inr ()"
    by (auto simp: decode_dogecoin_raw_block_def res_simps split: prod.splits)
  from steady_read_block run le0 obtain j where j: "r = at_offset bytes j"
    and more: "\<And>ext. read_block c p height (at_offset (bytes @ ext) 0) = Inr (x, at_offset (bytes @ ext) j)"
    by (rule steadyE) blast
  have "j = length bytes" using consumed j by (simp add: assert_consumed_def split: if_splits)
  then have "assert_consumed (at_offset (bytes @ extra) j)
      = Inl (invalid_payload (''trailing '' @ int_str (int (length extra)) @ '' bytes''))"
    using assms(3) by (simp add: assert_consumed_def)
  then show ?thesis
    by (cases x) (simp add: decode_dogecoin_raw_block_def assms(2) more)
qed

theorem trailing_bytes_rejected_witness:
  "decode_dogecoin_raw_block sample_crypto (bytes_to_hex (encode_block sample_block @ [0])) 371337
     dogecoin_mainnet_address_prefixes = Inl (invalid_payload ''trailing 1 bytes'')"
proof -
  have bytes: "hex_to_bytes (bytes_to_hex (encode_block sample_block @ rest))
      = Inr (encode_block sample_block @ rest)" for rest
    by (rule hex_to_bytes_to_hex) (simp add: encode_block_def encode_header_def le32_def)
  have one: "int_str (int (length [0 :: byte])) = ''1''" by (simp add: str_eval)
  show ?thesis
    using trailing_bytes_rejected [OF _ bytes [of "[0]"] _ decode_encoded_block [OF sample_block_valid]]
      bytes [of "[]"] unfolding one by simp
qed

end
