(* ===== verification/Block_Ingest.thy ===== *)
theory Block_Ingest
  imports Raw_Block Block_Applications
begin

text \<open>
  From the bytes of a block to the rows of the ledger: the snapshot that
  \<^verbatim>\<open>packages/platform/src/rpc.ts\<close> builds from a raw block (\<^verbatim>\<open>decodeRawBlockSnapshot\<close>) and what
  the indexer's parser makes of it. The decoder's records are the JavaScript objects the parser
  reads, so they are written out as \<open>json\<close> values; an absent property is left out.
\<close>

section \<open>The decoded block as an object\<close>

fun script_type_str :: "script_type \<Rightarrow> string" where
  "script_type_str Multisig = ''multisig''"
| "script_type_str Nonstandard = ''nonstandard''"
| "script_type_str Nulldata = ''nulldata''"
| "script_type_str Pubkey = ''pubkey''"
| "script_type_str Pubkeyhash = ''pubkeyhash''"
| "script_type_str Scripthash = ''scripthash''"

abbreviation j_nat :: "nat \<Rightarrow> json" where
  "j_nat n \<equiv> JNum (JInt (int n))"

definition optional_prop :: "string \<Rightarrow> ('a \<Rightarrow> json) \<Rightarrow> 'a option \<Rightarrow> (string \<times> json) list" where
  "optional_prop k f v = (case v of None \<Rightarrow> [] | Some x \<Rightarrow> [(k, f x)])"

definition script_json :: "script_pub_key \<Rightarrow> json" where
  "script_json k = JObj ([(''hex'', JStr (sp_hex k)), (''type'', JStr (script_type_str (sp_type k)))]
     @ optional_prop ''addresses'' (\<lambda>as. JArr (map JStr as)) (sp_addresses k)
     @ optional_prop ''reqSigs'' j_nat (sp_req_sigs k))"

definition vin_json :: "decoded_vin \<Rightarrow> json" where
  "vin_json i = JObj ([(''sequence'', j_nat (vi_sequence i))]
     @ optional_prop ''coinbase'' JStr (vi_coinbase i)
     @ optional_prop ''scriptSig'' (\<lambda>h. JObj [(''hex'', JStr h)]) (vi_script_sig i)
     @ optional_prop ''txid'' JStr (vi_txid i) @ optional_prop ''vout'' j_nat (vi_vout i))"

definition vout_json :: "decoded_vout \<Rightarrow> json" where
  "vout_json o' = JObj [(''n'', j_nat (vo_n o')), (''scriptPubKey'', script_json (vo_script_pub_key o')),
     (''value'', JStr (vo_value o'))]"

definition transaction_json :: "decoded_transaction \<Rightarrow> json" where
  "transaction_json t = JObj [(''hash'', JStr (dt_hash t)), (''locktime'', j_nat (dt_locktime t)),
     (''size'', j_nat (dt_size t)), (''txid'', JStr (dt_txid t)), (''version'', JNum (JInt (dt_version t))),
     (''vin'', JArr (map vin_json (dt_vin t))), (''vout'', JArr (map vout_json (dt_vout t)))]"

definition block_json :: "decoded_block \<Rightarrow> json" where
  "block_json b = JObj ([(''bits'', JStr (bk_bits b)), (''hash'', JStr (bk_hash b)),
     (''height'', JNum (JInt (bk_height b))), (''merkleroot'', JStr (bk_merkleroot b)),
     (''nTx'', j_nat (bk_n_tx b)), (''nonce'', j_nat (bk_nonce b)), (''size'', j_nat (bk_size b)),
     (''time'', j_nat (bk_time b)), (''tx'', JArr (map transaction_json (bk_tx b))),
     (''version'', JNum (JInt (bk_version b)))]
     @ optional_prop ''previousblockhash'' JStr (bk_previous_block_hash b)
     @ optional_prop ''auxpow'' (\<lambda>h. JObj [(''parentBlockHash'', JStr h)]) (bk_auxpow b))"

definition decode_raw_block_snapshot :: "crypto \<Rightarrow> json \<Rightarrow> int \<Rightarrow> string \<Rightarrow> json res" where
  "decode_raw_block_snapshot c raw_block height expected_hash =
     (case raw_block of
        JStr hex \<Rightarrow>
          and_then (decode_dogecoin_raw_block c hex height dogecoin_mainnet_address_prefixes) (\<lambda>block.
          if bk_hash block \<noteq> expected_hash
          then Inl (InfrastructureError (''dogecoin block hash mismatch height='' @ int_str height
                 @ '' expected='' @ expected_hash @ '' decoded='' @ bk_hash block))
          else Inr (JObj [(''block'', block_json block)]))
      | _ \<Rightarrow> Inl (InfrastructureError ''invalid dogecoin rpc response for getblock''))"

section \<open>The rows a raw block stands for\<close>

abbreviation mainnet :: address_prefixes where
  "mainnet \<equiv> dogecoin_mainnet_address_prefixes"

definition raw_is_coinbase_input :: "raw_input \<Rightarrow> bool" where
  "raw_is_coinbase_input i \<longleftrightarrow> ri_txid i = replicate 32 0 \<and> ri_vout i = - 1"

definition raw_txid :: "crypto \<Rightarrow> raw_transaction \<Rightarrow> string" where
  "raw_txid c t = sha256d c (encode_transaction t)"

definition raw_spends :: "crypto \<Rightarrow> int \<Rightarrow> raw_transaction \<Rightarrow> utxo_spend list" where
  "raw_spends c height t = map (\<lambda>(i, inp). make_spend (raw_txid c t) height i
       (display_hash (ri_txid inp) @ '':'' @ int_str (int (unat (ri_vout inp)))))
     (filter (\<lambda>(i, inp). \<not> raw_is_coinbase_input inp) (List.enumerate 0 (rt_inputs t)))"

definition address_of :: "script_pub_key \<Rightarrow> string" where
  "address_of k = (case sp_addresses k of Some (a # _) \<Rightarrow> a | _ \<Rightarrow> [])"

definition raw_creates :: "crypto \<Rightarrow> int \<Rightarrow> raw_block \<Rightarrow> nat \<times> raw_transaction \<Rightarrow> utxo_output list" where
  "raw_creates c height b = (\<lambda>(tx_index, t). map (\<lambda>(n, o').
     let k = classify_script_pub_key c (ro_script o') mainnet in
     \<lparr>uo_address = address_of k, uo_block_hash = sha256d c (encode_header b),
      uo_block_height = height, uo_block_time = int (unat (rb_time b)),
      uo_is_coinbase = list_ex raw_is_coinbase_input (rt_inputs t),
      uo_is_spendable = (address_of k \<noteq> []),
      uo_output_key = output_key_of (raw_txid c t) n, uo_script_type = script_type_str (sp_type k),
      uo_spent_by_txid = None, uo_spent_in_block = None, uo_spent_input_index = None,
      uo_tx_index = int tx_index, uo_txid = raw_txid c t,
      uo_value_base = int_str (sint (ro_value o')), uo_vout = int n\<rparr>)
     (List.enumerate 0 (rt_outputs t)))"

definition raw_application :: "crypto \<Rightarrow> int \<Rightarrow> raw_block \<Rightarrow> core_block_application" where
  "raw_application c height b =
     \<lparr>ca_block_hash = sha256d c (encode_header b), ca_block_height = height,
      ca_block_time = int (unat (rb_time b)),
      ca_previous_block_hash = (if rb_previous b = replicate 32 0 then None
        else Some (display_hash (rb_previous b))),
      ca_raw_storage_key = raw_block_part, ca_tx_count = int (length (rb_transactions b)),
      ca_utxo_creates = concat (map (raw_creates c height b) (List.enumerate 0 (rb_transactions b))),
      ca_utxo_spends = concat (map (raw_spends c height) (rb_transactions b))\<rparr>"

section \<open>Texts without white space\<close>

lemma js_trim_no_space: "(\<And>c. c \<in> set s \<Longrightarrow> \<not> is_js_space c) \<Longrightarrow> js_trim s = s"
  by (rule js_trim_id) (cases "s = []"; simp)

lemma js_trim_hex [simp]: "js_trim (bytes_to_hex bs) = bytes_to_hex bs"
  by (rule js_trim_no_space) (simp add: bytes_to_hex_chars)

lemma bytes_to_hex_Nil_iff [simp]: "bytes_to_hex bs = [] \<longleftrightarrow> bs = []"
  by (cases bs) (simp_all add: bytes_to_hex_def)

lemma base58_chars: "set (base58_digits v []) \<subseteq> set base58_alphabet"
proof (induction v rule: less_induct)
  case (less v)
  show ?case
  proof (cases "v = 0")
    case False
    then have "set (base58_digits (v div 58) []) \<subseteq> set base58_alphabet" by (intro less) simp
    moreover have "base58_alphabet ! (v mod 58) \<in> set base58_alphabet"
      by (rule nth_mem) (simp add: base58_alphabet_facts)
    ultimately show ?thesis using False by (simp add: base58_digits_snoc)
  qed simp
qed

lemma alphabet_not_space: "c \<in> set base58_alphabet \<Longrightarrow> \<not> is_js_space c"
  by (auto simp: base58_alphabet_def is_js_space_def char_code_def)

lemma encode_base58_not_space: "c \<in> set (encode_base58 bs) \<Longrightarrow> \<not> is_js_space c"
  using base58_chars [of "bytes_value bs"] alphabet_not_space
  by (auto simp: encode_base58_def is_js_space_def char_code_def)

lemma encode_base58_nonempty: "bs \<noteq> [] \<Longrightarrow> encode_base58 bs \<noteq> []"
  using encode_base58_inject [of bs "[]"]
  by (auto simp: encode_base58_def bytes_value_def)

lemma js_trim_address [simp]: "js_trim (encode_base58_check c v p) = encode_base58_check c v p"
  by (rule js_trim_no_space) (simp add: encode_base58_check_def Let_def encode_base58_not_space)

lemma address_nonempty [simp]: "encode_base58_check c v p \<noteq> []" "[] \<noteq> encode_base58_check c v p"
  using encode_base58_nonempty [of "word_of_int v # p @ take 4 (sha256d_bytes c (word_of_int v # p))"]
  by (auto simp: encode_base58_check_def Let_def)

section \<open>The parser on a decoded block\<close>

lemma script_address:
  "first_trimmed_text (output_address_candidates (script_json (classify_script_pub_key c s p)))
     = Inr (address_of (classify_script_pub_key c s p))"
proof -
  let ?k = "classify_script_pub_key c s p"
  have clean: "\<forall>a \<in> set as. js_trim a = a \<and> a \<noteq> []" if h: "sp_addresses ?k = Some as" for as
  proof -
    have "matched c s p \<noteq> None"
    proof
      assume "matched c s p = None"
      then show False using h by (simp add: classify_matched)
    qed
    then obtain m where m: "matched c s p = Some m" by blast
    then have "sm_addresses m = Some as" using h by (simp add: classify_matched)
    with m show ?thesis
      by (auto simp: matched_iff match_pubkey_hash_iff match_script_hash_iff match_pubkey_iff
          match_null_data_iff match_multisig_iff)
  qed
  have fields: "own_prop (script_json ?k) ''address'' = JUndefined"
    "own_prop (script_json ?k) ''addresses''
       = (case sp_addresses ?k of None \<Rightarrow> JUndefined | Some as \<Rightarrow> JArr (map JStr as))"
    "truthy (script_json ?k)"
    by (simp_all add: script_json_def optional_prop_def split: option.splits)
  have trims: "map_res trim_optional_text (map JStr as) = Inr (map js_trim as)" for as
    by (induction as) simp_all
  show ?thesis
  proof (cases "sp_addresses ?k")
    case None
    then show ?thesis
      by (simp add: first_trimmed_text_def output_address_candidates_def output_address_list_def
          known_output_address_list_def fields is_nullish_def address_of_def)
  next
    case (Some as)
    then show ?thesis using clean [OF Some]
      by (cases as) (simp_all add: first_trimmed_text_def output_address_candidates_def
          output_address_list_def known_output_address_list_def fields is_nullish_def address_of_def
          trims)
  qed
qed

lemma int_below: "n < 2 ^ 32 \<Longrightarrow> int n < 10 ^ 21"
  by simp

lemma format_koinu_nonempty [simp]: "format_koinu v \<noteq> []"
  by (simp add: format_koinu_parts)

lemma script_type_trim [simp]: "js_trim (script_type_str t) = script_type_str t"
  by (cases t) (simp_all add: str_eval)

lemma vout_json_output:
  assumes "n < 2 ^ 32"
  shows "make_output block txid tx_index (vout_json (decoded_output c mainnet n o')) i coinbase =
    (let k = classify_script_pub_key c (ro_script o') mainnet in
     Inr \<lparr>uo_address = address_of k, uo_block_hash = db_hash block,
          uo_block_height = db_height block, uo_block_time = db_time block,
          uo_is_coinbase = coinbase, uo_is_spendable = (address_of k \<noteq> []),
          uo_output_key = output_key_of txid i, uo_script_type = script_type_str (sp_type k),
          uo_spent_by_txid = None, uo_spent_in_block = None, uo_spent_input_index = None,
          uo_tx_index = int tx_index, uo_txid = txid,
          uo_value_base = int_str (sint (ro_value o')), uo_vout = int n\<rparr>)"
proof -
  have "int n < 10 ^ 21" using assms by (rule int_below)
  moreover have "own_prop (script_json k) ''type'' = JStr (script_type_str (sp_type k))" for k
    by (simp add: script_json_def)
  ultimately show ?thesis
    by (simp add: make_output_def extract_dogecoin_output_address_def vout_json_def get_prop_def
        is_nullish_def script_address output_index_value_def output_script_type_def
        require_trimmed_amount_def decoded_output_def js_trim_format_koinu
        from_decimal_format_koinu Let_def)
qed

lemma vin_json_coinbase:
  assumes "ri_script i \<noteq> []"
  shows "is_coinbase_input (vin_json (decoded_input i)) = Inr (raw_is_coinbase_input i)"
  using assms by (auto simp: is_coinbase_input_def get_prop_def is_nullish_def vin_json_def
      decoded_input_def raw_is_coinbase_input_def optional_prop_def)

lemma vin_json_plain:
  assumes "\<not> raw_is_coinbase_input i"
  shows "is_coinbase_input (vin_json (decoded_input i)) = Inr False"
  using assms by (auto simp: is_coinbase_input_def get_prop_def is_nullish_def vin_json_def
      decoded_input_def raw_is_coinbase_input_def optional_prop_def)

text \<open>A coinbase input has a script (the network requires two bytes or more).\<close>

definition coinbase_scripts :: "raw_transaction \<Rightarrow> bool" where
  "coinbase_scripts t \<longleftrightarrow> list_all (\<lambda>i. raw_is_coinbase_input i \<longrightarrow> ri_script i \<noteq> []) (rt_inputs t)"

lemma vin_json_is_coinbase:
  "raw_is_coinbase_input i \<longrightarrow> ri_script i \<noteq> [] \<Longrightarrow>
     is_coinbase_input (vin_json (decoded_input i)) = Inr (raw_is_coinbase_input i)"
  using vin_json_coinbase vin_json_plain by (cases "raw_is_coinbase_input i") auto

lemma vin_json_spend:
  assumes "valid_input i" and "\<not> raw_is_coinbase_input i"
  shows "spend_output_key (vin_json (decoded_input i))
    = Inr (display_hash (ri_txid i) @ '':'' @ int_str (int (unat (ri_vout i))))"
proof -
  have "unat (ri_vout i) < 2 ^ 32" using unsigned_less [of "ri_vout i"] by simp
  then have "int (unat (ri_vout i)) < 10 ^ 21" by (rule int_below)
  moreover have "ri_txid i \<noteq> []" using assms(1) by (auto simp: valid_input_def)
  ultimately show ?thesis using assms(2)
    by (auto simp: spend_output_key_def vin_json_def decoded_input_def raw_is_coinbase_input_def
        optional_prop_def require_trimmed_string_def display_hash_def)
qed

lemma some_res_total:
  "(\<And>x. x \<in> set xs \<Longrightarrow> p x = Inr (q x)) \<Longrightarrow> some_res p xs = Inr (list_ex q xs)"
  by (induction xs) auto

lemma some_res_map: "some_res p (map f xs) = some_res (\<lambda>x. p (f x)) xs"
  by (induction xs) (simp_all cong: if_cong)

lemma map_res_map: "map_res p (map f xs) = map_res (\<lambda>x. p (f x)) xs"
  by (induction xs) simp_all

lemma concat_options: "concat (map (\<lambda>x. case_option [] (\<lambda>s. [s]) (if P x then None else Some (f x))) xs)
    = map f (filter (\<lambda>x. \<not> P x) xs)"
  by (induction xs) auto

lemma in_enumerate: "(i, x) \<in> set (List.enumerate n xs) \<Longrightarrow> x \<in> set xs"
  by (induction xs arbitrary: n) auto

lemma enumerate_index: "(i, x) \<in> set (List.enumerate n xs) \<Longrightarrow> i < n + length xs"
  by (induction xs arbitrary: n) fastforce+

lemma enumerate_map: "List.enumerate n (map f xs) = map (\<lambda>(i, x). (i, f x)) (List.enumerate n xs)"
  by (induction xs arbitrary: n) simp_all

lemma transaction_inputs:
  assumes "valid_transaction t" and "coinbase_scripts t" and "txid = raw_txid c t"
  shows "has_coinbase_input (transaction_json (decoded_transaction_of c p t))
      = Inr (list_ex raw_is_coinbase_input (rt_inputs t))"
    and "decode_transaction_spends txid height (transaction_json (decoded_transaction_of c p t))
      = Inr (raw_spends c height t)"
proof -
  let ?vin = "map vin_json (map decoded_input (rt_inputs t))"
  have vin: "dogecoin_inputs (transaction_json (decoded_transaction_of c p t)) = Inr ?vin"
    by (simp add: dogecoin_inputs_def nullish_list_def is_nullish_def transaction_json_def
        decoded_transaction_of_def)
  have cb: "is_coinbase_input (vin_json (decoded_input i)) = Inr (raw_is_coinbase_input i)"
    if "i \<in> set (rt_inputs t)" for i
    using that assms(2) by (intro vin_json_is_coinbase) (simp add: coinbase_scripts_def list_all_iff)
  have valid: "valid_input i" if "i \<in> set (rt_inputs t)" for i
    using that assms(1) by (simp add: valid_transaction_def list_all_iff)
  have "some_res is_coinbase_input ?vin = Inr (list_ex raw_is_coinbase_input (rt_inputs t))"
    using some_res_total [of "rt_inputs t", OF cb] by (simp add: some_res_map)
  then show "has_coinbase_input (transaction_json (decoded_transaction_of c p t))
      = Inr (list_ex raw_is_coinbase_input (rt_inputs t))"
    by (simp add: has_coinbase_input_def vin)
  let ?s = "\<lambda>x. if raw_is_coinbase_input (snd x) then None
      else Some (make_spend txid height (fst x)
        (display_hash (ri_txid (snd x)) @ '':'' @ int_str (int (unat (ri_vout (snd x))))))"
  have one: "decode_spend txid height (i, vin_json (decoded_input inp)) = Inr (?s (i, inp))"
    if "(i, inp) \<in> set (List.enumerate 0 (rt_inputs t))" for i inp
    using cb [OF in_enumerate [OF that]] vin_json_spend [OF valid [OF in_enumerate [OF that]]]
    by (simp add: decode_spend_def)
  have "map_res (decode_spend txid height) (List.enumerate 0 ?vin)
      = map_res (\<lambda>(i, inp). decode_spend txid height (i, vin_json (decoded_input inp)))
          (List.enumerate 0 (rt_inputs t))"
    by (simp add: enumerate_map map_res_map case_prod_unfold)
  also have "\<dots> = Inr (map ?s (List.enumerate 0 (rt_inputs t)))"
    using one by (intro map_res_total) (simp add: case_prod_unfold)
  finally have spends: "map_res (decode_spend txid height) (List.enumerate 0 ?vin)
      = Inr (map ?s (List.enumerate 0 (rt_inputs t)))" .
  have "concat (map (case_option [] (\<lambda>s. [s])) (map ?s (List.enumerate 0 (rt_inputs t))))
      = raw_spends c height t"
    unfolding raw_spends_def assms(3) [symmetric] map_map comp_def concat_options
    by (simp add: case_prod_unfold)
  with spends show "decode_transaction_spends txid height (transaction_json (decoded_transaction_of c p t))
      = Inr (raw_spends c height t)"
    by (simp only: decode_transaction_spends_def vin and_then.simps)
qed

lemma enumerate_map_enumerate:
  "List.enumerate n (map f (List.enumerate n xs)) = map (\<lambda>(i, x). (i, f (i, x))) (List.enumerate n xs)"
  by (induction xs arbitrary: n) simp_all

lemma transaction_outputs:
  assumes "valid_transaction t" and "txid = raw_txid c t"
    and "coinbase = list_ex raw_is_coinbase_input (rt_inputs t)"
    and "db_hash block = sha256d c (encode_header b)" "db_height block = height"
      "db_time block = int (unat (rb_time b))"
  shows "decode_transaction_outputs block (transaction_json (decoded_transaction_of c mainnet t))
      txid tx_index coinbase = Inr (raw_creates c height b (tx_index, t))"
proof -
  let ?vout = "map vout_json (dt_vout (decoded_transaction_of c mainnet t))"
  have outs: "dogecoin_outputs (transaction_json (decoded_transaction_of c mainnet t)) = Inr ?vout"
    by (simp add: dogecoin_outputs_def nullish_list_def is_nullish_def transaction_json_def)
  have e: "List.enumerate 0 ?vout = map (\<lambda>(i, o'). (i, vout_json (decoded_output c mainnet i o')))
      (List.enumerate 0 (rt_outputs t))"
    using enumerate_map_enumerate [of 0 "\<lambda>(i, o'). vout_json (decoded_output c mainnet i o')"]
    by (simp add: decoded_transaction_of_def case_prod_unfold comp_def)
  have index: "i < 2 ^ 32" if "(i, o') \<in> set (List.enumerate 0 (rt_outputs t))" for i o'
    using enumerate_index [OF that] assms(1) by (simp add: valid_transaction_def countable_length_def)
  have "map_res (\<lambda>(i, out). make_output block txid tx_index out i coinbase) (List.enumerate 0 ?vout)
      = map_res (\<lambda>(i, o'). make_output block txid tx_index (vout_json (decoded_output c mainnet i o'))
          i coinbase) (List.enumerate 0 (rt_outputs t))"
    unfolding e by (simp add: map_res_map case_prod_unfold)
  also have "\<dots> = Inr (raw_creates c height b (tx_index, t))"
    unfolding raw_creates_def prod.case
    by (rule map_res_total) (auto simp: vout_json_output [OF index] Let_def assms)
  finally show ?thesis by (simp add: decode_transaction_outputs_def outs)
qed

lemma sha256d_text: "length (cr_sha256 c (cr_sha256 c bs)) = 32 \<Longrightarrow> sha256d c bs \<noteq> []"
  by (auto simp: sha256d_def sha256d_bytes_def)

lemma js_trim_sha256d [simp]: "js_trim (sha256d c bs) = sha256d c bs"
  by (simp add: sha256d_def)

lemma transaction_decoded:
  assumes "\<And>bs. length (cr_sha256 c bs) = 32" and "valid_transaction t" and "coinbase_scripts t"
    and "db_hash block = sha256d c (encode_header b)" "db_height block = height"
      "db_time block = int (unat (rb_time b))"
  shows "decode_transaction block (i, transaction_json (decoded_transaction_of c mainnet t))
    = Inr \<lparr>te_creates = raw_creates c height b (i, t), te_spends = raw_spends c height t\<rparr>"
proof -
  have txid: "require_string (own_prop (transaction_json (decoded_transaction_of c mainnet t)) ''txid'')
      ''tx.txid'' = Inr (raw_txid c t)"
    using sha256d_text [of c "encode_transaction t"] assms(1)
    by (simp add: transaction_json_def decoded_transaction_of_def require_trimmed_string_def
        raw_txid_def)
  show ?thesis
    using transaction_inputs [OF assms(2,3) refl] transaction_outputs [OF assms(2) refl refl assms(4-6)]
    by (simp add: decode_transaction_def txid assms(5))
qed

lemma raw_block_parsed:
  assumes "\<And>bs. length (cr_sha256 c bs) = 32" and "valid_block b" and "rb_transactions b \<noteq> []"
    and "\<bar>height\<bar> < 10 ^ 21"
  shows "parse_dogecoin_block_snapshot
      (JObj [(''block'', block_json (decoded_block_of c mainnet height b))])
    = Inr \<lparr>db_hash = sha256d c (encode_header b), db_height = height,
       db_time = int (unat (rb_time b)),
       db_previous_hash = ca_previous_block_hash (raw_application c height b),
       db_tx = map (\<lambda>t. transaction_json (decoded_transaction_of c mainnet t)) (rb_transactions b)\<rparr>"
proof -
  let ?B = "decoded_block_of c mainnet height b"
  let ?txs = "map (\<lambda>t. transaction_json (decoded_transaction_of c mainnet t)) (rb_transactions b)"
  have fields: "own_prop (block_json ?B) ''hash'' = JStr (sha256d c (encode_header b))"
    "own_prop (block_json ?B) ''height'' = JNum (JInt height)"
    "own_prop (block_json ?B) ''time'' = j_nat (unat (rb_time b))"
    "own_prop (block_json ?B) ''tx'' = JArr ?txs"
    "own_prop (block_json ?B) ''previousblockhash''
       = (if rb_previous b = replicate 32 0 then JUndefined else JStr (display_hash (rb_previous b)))"
    by (cases "rb_aux_pow b"; simp add: block_json_def optional_prop_def decoded_block_of_def comp_def)+
  have "unat (rb_time b) < 2 ^ 32" using unsigned_less [of "rb_time b"] by simp
  then have time: "int (unat (rb_time b)) < 10 ^ 21" by (rule int_below)
  have plain: "is_plain_record (block_json ?B)" by (simp add: block_json_def)
  have prev: "rb_previous b \<noteq> []" using assms(2) by (auto simp: valid_block_def)
  have "map_res (check_transaction height) (List.enumerate 0 ?txs)
      = Inr (map snd (List.enumerate 0 ?txs))"
    by (rule map_res_total) (auto simp: check_transaction_def transaction_json_def dest!: in_enumerate)
  then have txs: "read_dogecoin_transactions (JArr ?txs) height = Inr ?txs"
    using assms(3) by (cases "rb_transactions b") (simp_all add: read_dogecoin_transactions_def)
  show ?thesis
    using sha256d_text [of c "encode_header b"] assms(1,4) time prev
    by (simp add: parse_dogecoin_block_snapshot_def get_prop_def is_nullish_def fields plain
        require_block_record_def require_trimmed_string_def txs null_if_empty_def
        raw_application_def display_hash_def)
qed

lemma raw_block_decoded:
  assumes "\<And>bs. length (cr_sha256 c bs) = 32" and "valid_block b" and "rb_transactions b \<noteq> []"
    and "list_all coinbase_scripts (rb_transactions b)" and "\<bar>height\<bar> < 10 ^ 21"
  shows "decode_block (JObj [(''block'', block_json (decoded_block_of c mainnet height b))])
    = Inr (raw_application c height b)"
proof -
  let ?block = "\<lparr>db_hash = sha256d c (encode_header b), db_height = height,
       db_time = int (unat (rb_time b)),
       db_previous_hash = ca_previous_block_hash (raw_application c height b),
       db_tx = map (\<lambda>t. transaction_json (decoded_transaction_of c mainnet t)) (rb_transactions b)\<rparr>"
  have one: "decode_transaction ?block (i, transaction_json (decoded_transaction_of c mainnet t))
      = Inr \<lparr>te_creates = raw_creates c height b (i, t), te_spends = raw_spends c height t\<rparr>"
    if "(i, t) \<in> set (List.enumerate 0 (rb_transactions b))" for i t
    using in_enumerate [OF that] assms
    by (intro transaction_decoded) (simp_all add: valid_block_def list_all_iff)
  have "map_res (decode_transaction ?block) (List.enumerate 0 (db_tx ?block))
      = map_res (\<lambda>(i, t). decode_transaction ?block
          (i, transaction_json (decoded_transaction_of c mainnet t)))
          (List.enumerate 0 (rb_transactions b))"
    by (simp add: enumerate_map map_res_map case_prod_unfold)
  also have "\<dots> = Inr (map (\<lambda>(i, t). \<lparr>te_creates = raw_creates c height b (i, t),
      te_spends = raw_spends c height t\<rparr>) (List.enumerate 0 (rb_transactions b)))"
    using one by (intro map_res_total) (simp add: case_prod_unfold)
  finally have txs: "map_res (decode_transaction ?block) (List.enumerate 0 (db_tx ?block))
      = Inr (map (\<lambda>(i, t). \<lparr>te_creates = raw_creates c height b (i, t),
          te_spends = raw_spends c height t\<rparr>) (List.enumerate 0 (rb_transactions b)))" .
  have s: "map (raw_spends c height) (rb_transactions b)
      = map (\<lambda>(i, t). raw_spends c height t) (List.enumerate 0 (rb_transactions b))"
    by (simp add: map_enumerate_const)
  show ?thesis
    unfolding decode_block_def raw_block_parsed [OF assms(1-3,5)] and_then.simps txs
    by (simp add: make_application_def raw_application_def s comp_def case_prod_unfold)
qed

text \<open>
  C11. From bytes to ledger rows, end to end: for every well-formed block of the wire format with
  at least one transaction and with non-empty coinbase scripts, whose hash is the expected one
  and which does not create or spend an output twice, the raw block decoder and the indexer's
  parser together return exactly the application of that block: its hash, height, time and
  parent, one row per output with the exact amount, the classified address and the key
  \<open>txid:n\<close>, and one spend per input that is no coinbase, keyed by the output it spends.
\<close>

theorem raw_block_ingest:
  assumes "\<And>bs. length (cr_sha256 c bs) = 32" and "valid_block b" and "rb_transactions b \<noteq> []"
    and "list_all coinbase_scripts (rb_transactions b)" and "\<bar>height\<bar> < 10 ^ 21"
    and "distinct (map uo_output_key (ca_utxo_creates (raw_application c height b)))"
    and "distinct (map us_output_key (ca_utxo_spends (raw_application c height b)))"
  shows "and_then (decode_raw_block_snapshot c (JStr (bytes_to_hex (encode_block b))) height
      (sha256d c (encode_header b))) (\<lambda>snapshot. build_fast_core_dogecoin_block_applications [snapshot])
    = Inr [raw_application c height b]"
proof -
  have "bk_hash (decoded_block_of c mainnet height b) = sha256d c (encode_header b)"
    by (simp add: decoded_block_of_def)
  then have "decode_raw_block_snapshot c (JStr (bytes_to_hex (encode_block b))) height
      (sha256d c (encode_header b))
      = Inr (JObj [(''block'', block_json (decoded_block_of c mainnet height b))])"
    by (simp add: decode_raw_block_snapshot_def decode_encoded_block [OF assms(2)])
  then show ?thesis
    using raw_block_decoded [OF assms(1-5)] assms(6,7)
    by (simp add: build_fast_iff created_keys_def spent_keys_def)
qed

lemma sample_digest: "length (cr_sha256 sample_crypto bs) = 32"
  by (simp add: sample_crypto_def)

theorem raw_block_ingest_witness:
  "and_then (decode_raw_block_snapshot sample_crypto (JStr (bytes_to_hex (encode_block sample_block)))
      371337 (sha256d sample_crypto (encode_header sample_block)))
      (\<lambda>snapshot. build_fast_core_dogecoin_block_applications [snapshot])
    = Inr [raw_application sample_crypto 371337 sample_block]"
  by (rule raw_block_ingest [OF sample_digest sample_block_valid])
    (simp_all add: sample_block_def coinbase_scripts_def sample_coinbase_def raw_application_def
      raw_creates_def raw_spends_def raw_is_coinbase_input_def Let_def)

end
