(* ===== verification/Raw_Sync.thy ===== *)
theory Raw_Sync
  imports Block_Applications
begin

text \<open>
  Raw block sync: \<^verbatim>\<open>indexing-pipeline/src/application/raw-block-sync.ts\<close> and \<^verbatim>\<open>concurrency.ts\<close>.

  The adaptive concurrency controller and the contiguous frontier are records with their
  methods. One batch attempt is the function \<open>sync_batch\<close> of the answers the node and the stores
  give. The loop of \<^verbatim>\<open>sync\<close> runs the batches of a round concurrently; their attempts interleave
  freely, so the loop is a machine: \<open>sync_step\<close> takes the next event (a round starts, an attempt
  of a running batch ends, the round ends) and \<open>sync_reachable\<close> is its closure. When an attempt
  gives up, the round's other attempts still run and still write, but no checkpoint follows.
  Log lines, timings and the delay between attempts do not influence the state.
\<close>

section \<open>Ranges and chunks\<close>

definition range_of :: "int \<Rightarrow> int \<Rightarrow> int list" where
  "range_of start end' =
     (if end' < start then [] else map (\<lambda>i. start + int i) [0..<nat (end' - start + 1)])"

function chunks_from :: "'a list \<Rightarrow> nat \<Rightarrow> nat \<Rightarrow> 'a list list" where
  "chunks_from xs size' i =
     (if i < length xs \<and> 0 < size'
      then take size' (drop i xs) # chunks_from xs size' (i + size') else [])"
  by pat_completeness auto

termination
  by (relation "measure (\<lambda>(xs, size', i). length xs - i)") auto

declare chunks_from.simps [simp del]

definition chunk :: "'a list \<Rightarrow> int \<Rightarrow> 'a list list" where
  "chunk xs size' = chunks_from xs (nat (max 1 size')) 0"

lemma set_range_of: "set (range_of a b) = {a..b}"
proof -
  have "x \<in> (\<lambda>i. a + int i) ` {0..<nat (b - a + 1)}" if "a \<le> x" "x \<le> b" for x
    using that by (intro image_eqI [of _ _ "nat (x - a)"]) auto
  then show ?thesis by (auto simp: range_of_def)
qed

lemma length_range_of: "length (range_of a b) = nat (b - a + 1)"
  by (simp add: range_of_def)

lemma nth_range_of: "i < length (range_of a b) \<Longrightarrow> range_of a b ! i = a + int i"
  by (auto simp: range_of_def)

lemma hd_range_of: "a \<le> b \<Longrightarrow> hd (range_of a b) = a"
  by (subst hd_conv_nth) (simp_all add: range_of_def)

lemma last_range_of: "a \<le> b \<Longrightarrow> last (range_of a b) = b"
  by (subst last_conv_nth) (simp_all add: range_of_def)

lemma concat_chunks_from: "0 < size' \<Longrightarrow> concat (chunks_from xs size' i) = drop i xs"
proof (induction xs size' i rule: chunks_from.induct)
  case (1 xs size' i)
  have "take size' (drop i xs) @ drop (i + size') xs = drop i xs"
    by (metis add.commute append_take_drop_id drop_drop)
  then show ?case using 1 by (subst chunks_from.simps) simp
qed

lemma concat_chunk [simp]: "concat (chunk xs size') = xs"
  by (simp add: chunk_def concat_chunks_from)

lemma chunks_from_nonempty: "c \<in> set (chunks_from xs size' i) \<Longrightarrow> c \<noteq> [] \<and> length c \<le> size'"
proof (induction xs size' i rule: chunks_from.induct)
  case (1 xs size' i)
  then show ?case by (subst (asm) chunks_from.simps) (auto split: if_splits)
qed

lemma chunk_nonempty: "c \<in> set (chunk xs size') \<Longrightarrow> c \<noteq> []"
  using chunks_from_nonempty by (auto simp: chunk_def)

section \<open>The adaptive concurrency controller\<close>

record concurrency_controller =
  cc_current :: int
  cc_success_streak :: int
  cc_max :: int
  cc_ramp_up_after_successes :: int

definition clamp_concurrency :: "int \<Rightarrow> int \<Rightarrow> int" where
  "clamp_concurrency v m = max 1 (min m v)"

definition create_controller :: "int \<Rightarrow> int \<Rightarrow> int \<Rightarrow> concurrency_controller" where
  "create_controller m ramp_up initial =
     \<lparr>cc_current = clamp_concurrency initial m, cc_success_streak = 0, cc_max = m,
      cc_ramp_up_after_successes = ramp_up\<rparr>"

definition record_success :: "concurrency_controller \<Rightarrow> concurrency_controller" where
  "record_success c =
     (let streak = cc_success_streak c + 1
      in if cc_ramp_up_after_successes c \<le> streak
         then c\<lparr>cc_success_streak := 0, cc_current := clamp_concurrency (cc_current c + 1) (cc_max c)\<rparr>
         else c\<lparr>cc_success_streak := streak\<rparr>)"

definition record_failure :: "concurrency_controller \<Rightarrow> concurrency_controller" where
  "record_failure c =
     c\<lparr>cc_success_streak := 0, cc_current := clamp_concurrency (cc_current c div 2) (cc_max c)\<rparr>"

definition controller_ok :: "concurrency_controller \<Rightarrow> bool" where
  "controller_ok c \<longleftrightarrow> 1 \<le> cc_current c \<and> cc_current c \<le> max 1 (cc_max c)"

lemma clamp_bounds: "1 \<le> clamp_concurrency v m \<and> clamp_concurrency v m \<le> max 1 m"
  by (simp add: clamp_concurrency_def)

lemma controller_ok_create [intro]: "controller_ok (create_controller m ramp_up initial)"
  using clamp_bounds by (simp add: controller_ok_def create_controller_def)

lemma controller_ok_success [intro]: "controller_ok c \<Longrightarrow> controller_ok (record_success c)"
  using clamp_bounds by (simp add: controller_ok_def record_success_def Let_def)

lemma controller_ok_failure [intro]: "controller_ok c \<Longrightarrow> controller_ok (record_failure c)"
  using clamp_bounds by (simp add: controller_ok_def record_failure_def)

lemma controller_max [simp]: "cc_max (record_success c) = cc_max c" "cc_max (record_failure c) = cc_max c"
  "cc_max (create_controller m ramp_up initial) = m"
  by (simp_all add: record_success_def record_failure_def create_controller_def Let_def)

section \<open>The contiguous frontier\<close>

record contiguous_frontier =
  cf_current :: int
  cf_completed :: "int list"
  cf_advanced :: bool

definition create_frontier :: "int \<Rightarrow> contiguous_frontier" where
  "create_frontier base = \<lparr>cf_current = base, cf_completed = [], cf_advanced = False\<rparr>"

function advance_frontier :: "contiguous_frontier \<Rightarrow> contiguous_frontier" where
  "advance_frontier f =
     (if cf_current f + 1 \<in> set (cf_completed f)
      then advance_frontier (f\<lparr>cf_current := cf_current f + 1,
             cf_completed := removeAll (cf_current f + 1) (cf_completed f), cf_advanced := True\<rparr>)
      else f)"
  by pat_completeness auto

termination
  by (relation "measure (\<lambda>f. length (cf_completed f))") (auto intro: length_removeAll_less)

declare advance_frontier.simps [simp del]

definition mark_completed :: "int list \<Rightarrow> contiguous_frontier \<Rightarrow> contiguous_frontier" where
  "mark_completed heights f =
     advance_frontier (f\<lparr>cf_completed := fold List.insert heights (cf_completed f)\<rparr>)"

definition consume_advance :: "contiguous_frontier \<Rightarrow> bool \<times> contiguous_frontier" where
  "consume_advance f = (cf_advanced f, f\<lparr>cf_advanced := False\<rparr>)"

text \<open>The frontier over a base \<open>b\<close> with the set \<open>D\<close> of all heights marked so far.\<close>

definition frontier_inv :: "int \<Rightarrow> int set \<Rightarrow> contiguous_frontier \<Rightarrow> bool" where
  "frontier_inv b D f \<longleftrightarrow> b \<le> cf_current f \<and> {b + 1..cf_current f} \<subseteq> D
     \<and> set (cf_completed f) \<subseteq> D \<and> D \<subseteq> set (cf_completed f) \<union> {b + 1..cf_current f} \<union> {..b}"

lemma advance_frontier_inv: "frontier_inv b D f \<Longrightarrow> frontier_inv b D (advance_frontier f)"
proof (induction f rule: advance_frontier.induct)
  case (1 f)
  show ?case
  proof (cases "cf_current f + 1 \<in> set (cf_completed f)")
    case True
    let ?f = "f\<lparr>cf_current := cf_current f + 1,
             cf_completed := removeAll (cf_current f + 1) (cf_completed f), cf_advanced := True\<rparr>"
    have step: "t \<le> cf_current f + 1 \<longleftrightarrow> t \<le> cf_current f \<or> t = cf_current f + 1" for t by auto
    have "frontier_inv b D ?f"
      using 1(2) True step by (auto simp: frontier_inv_def subset_iff)
    then have "frontier_inv b D (advance_frontier ?f)" by (rule 1(1) [OF True])
    then show ?thesis using True by (subst advance_frontier.simps) simp
  next
    case False
    then show ?thesis using 1(2) by (subst advance_frontier.simps) simp
  qed
qed

lemma set_fold_insert: "set (fold List.insert hs xs) = set hs \<union> set xs"
  by (induction hs arbitrary: xs) auto

lemma mark_completed_inv:
  "frontier_inv b D f \<Longrightarrow> frontier_inv b (D \<union> set hs) (mark_completed hs f)"
  unfolding mark_completed_def
  by (rule advance_frontier_inv) (auto simp: frontier_inv_def set_fold_insert)

lemma advance_frontier_stop: "cf_current (advance_frontier f) + 1 \<notin> set (cf_completed (advance_frontier f))"
proof (induction f rule: advance_frontier.induct)
  case (1 f)
  then show ?case
    by (cases "cf_current f + 1 \<in> set (cf_completed f)"; subst (1 2) advance_frontier.simps) simp_all
qed

text \<open>The frontier is the largest height up to which everything is done.\<close>

lemma frontier_maximal:
  assumes "frontier_inv b D f" and "cf_current f + 1 \<notin> set (cf_completed f)"
    and "{b + 1..h} \<subseteq> D" and "b \<le> h"
  shows "h \<le> cf_current f"
proof (rule ccontr)
  assume "\<not> h \<le> cf_current f"
  then have "cf_current f + 1 \<in> {b + 1..h}" using assms(1) by (auto simp: frontier_inv_def)
  with assms(3) have "cf_current f + 1 \<in> D" by blast
  then show False using assms(1,2) by (auto simp: frontier_inv_def subset_iff)
qed

lemma frontier_inv_create [intro]: "frontier_inv b {} (create_frontier b)"
  by (simp add: frontier_inv_def create_frontier_def)

lemma advance_frontier_mono:
  "cf_current f \<le> cf_current (advance_frontier f)
   \<and> (cf_current f < cf_current (advance_frontier f) \<longrightarrow> cf_advanced (advance_frontier f))
   \<and> (cf_advanced f \<longrightarrow> cf_advanced (advance_frontier f))"
proof (induction f rule: advance_frontier.induct)
  case (1 f)
  show ?case
  proof (cases "cf_current f + 1 \<in> set (cf_completed f)")
    case True
    then show ?thesis using 1 [OF True] by (subst (1 2 3 4) advance_frontier.simps) simp
  next
    case False
    then show ?thesis by (subst (1 2 3 4) advance_frontier.simps) simp
  qed
qed

lemma advance_frontier_advanced:
  "cf_advanced (advance_frontier f) \<Longrightarrow> cf_advanced f \<or> cf_current f < cf_current (advance_frontier f)"
proof (induction f rule: advance_frontier.induct)
  case (1 f)
  show ?case
  proof (cases "cf_current f + 1 \<in> set (cf_completed f)")
    case True
    let ?f = "f\<lparr>cf_current := cf_current f + 1,
             cf_completed := removeAll (cf_current f + 1) (cf_completed f), cf_advanced := True\<rparr>"
    have "advance_frontier f = advance_frontier ?f" using True by (subst advance_frontier.simps) simp
    then show ?thesis using advance_frontier_mono [of ?f] by simp
  next
    case False
    then show ?thesis using 1(2) by (simp add: advance_frontier.simps [of f])
  qed
qed

section \<open>One batch\<close>

record parsed_raw_block =
  pr_hash :: string
  pr_height :: int
  pr_previous_hash :: "string option"
  pr_time :: int
  pr_txids :: "string list"

record core_block_record =
  cb_block_hash :: string
  cb_block_height :: int
  cb_block_time :: int
  cb_fetched_at :: string
  cb_previous_block_hash :: "string option"
  cb_processed_at :: "string option"
  cb_raw_storage_key :: string
  cb_tx_count :: int

record stored_raw_block =
  sr_record :: core_block_record
  sr_refs :: "transaction_ref list"
  sr_part :: json

text \<open>
  What the node and the stores answer to one attempt: the snapshots, the outcome of the write of
  each snapshot, of the block records and of the references, and the time stamp.
\<close>

record batch_answers =
  an_snapshots :: "json list res"
  an_put_part :: "int \<Rightarrow> unit res"
  an_upsert_core_blocks :: "unit res"
  an_upsert_refs :: "unit res"
  an_now :: string

text \<open>The parser that the indexer service passes to the syncer.\<close>

definition parse_raw_block_snapshot :: "json \<Rightarrow> parsed_raw_block res" where
  "parse_raw_block_snapshot snapshot =
     and_then (parse_dogecoin_block_snapshot snapshot) (\<lambda>block.
     and_then (map_res (\<lambda>t. require_string (own_prop t ''txid'') ''tx.txid'') (db_tx block)) (\<lambda>txids.
     Inr \<lparr>pr_hash = db_hash block, pr_height = db_height block,
          pr_previous_hash = db_previous_hash block, pr_time = db_time block, pr_txids = txids\<rparr>))"

definition store_snapshot :: "batch_answers \<Rightarrow> int \<times> json \<Rightarrow> stored_raw_block res" where
  "store_snapshot an = (\<lambda>(height, snapshot).
     and_then (parse_raw_block_snapshot snapshot) (\<lambda>block.
     if pr_height block \<noteq> height
     then Inl (GenericError (''raw block height mismatch requested='' @ int_str height
            @ '' decoded='' @ int_str (pr_height block)))
     else and_then (an_put_part an height) (\<lambda>_.
       Inr \<lparr>sr_record = \<lparr>cb_block_hash = pr_hash block, cb_block_height = pr_height block,
              cb_block_time = pr_time block, cb_fetched_at = an_now an,
              cb_previous_block_hash = pr_previous_hash block, cb_processed_at = None,
              cb_raw_storage_key = raw_block_part, cb_tx_count = int (length (pr_txids block))\<rparr>,
            sr_refs = derive_transaction_refs (pr_hash block) (pr_height block) (pr_time block)
              Raw_Sync (pr_txids block),
            sr_part = snapshot\<rparr>)))"

definition sync_batch :: "batch_answers \<Rightarrow> int list \<Rightarrow> stored_raw_block list res" where
  "sync_batch an batch =
     and_then (an_snapshots an) (\<lambda>snapshots.
     if length snapshots \<noteq> length batch
     then Inl (GenericError (''raw block batch size mismatch requested=''
            @ nat_str (length batch) @ '' received='' @ nat_str (length snapshots)))
     else and_then (map_res (store_snapshot an) (zip batch snapshots)) (\<lambda>stored.
       and_then (an_upsert_core_blocks an) (\<lambda>_.
       and_then (if concat (map sr_refs stored) \<noteq> [] then an_upsert_refs an else Inr ()) (\<lambda>_.
       Inr stored))))"

lemma store_snapshot_height:
  "store_snapshot an (h, snapshot) = Inr s \<Longrightarrow> cb_block_height (sr_record s) = h \<and> sr_part s = snapshot"
  by (auto simp: store_snapshot_def and_then_Inr_iff split: if_splits)

lemma sync_batch_heights:
  assumes "sync_batch an batch = Inr stored"
  shows "map (\<lambda>s. cb_block_height (sr_record s)) stored = batch"
proof -
  from assms obtain snapshots where len: "length snapshots = length batch"
    and stored: "map_res (store_snapshot an) (zip batch snapshots) = Inr stored"
    by (auto simp: sync_batch_def and_then_Inr_iff split: if_splits)
  have "list_all2 (\<lambda>(h, _) s. cb_block_height (sr_record s) = h) (zip batch snapshots) stored"
    using stored unfolding map_res_Inr_iff
    by (rule list_all2_mono) (auto dest: store_snapshot_height)
  then have "map (\<lambda>s. cb_block_height (sr_record s)) stored = map fst (zip batch snapshots)"
    by (induction rule: list_all2_induct) auto
  then show ?thesis using len by simp
qed

section \<open>The sync loop\<close>

record sync_settings =
  st_sync_batch_size :: int
  st_sync_retry_attempts :: int

record sync_state =
  sy_batches :: "int list list"
  sy_round :: "int list list"
  sy_running :: "(int list \<times> int) list"
  sy_controller :: concurrency_controller
  sy_tracker :: contiguous_frontier
  sy_stored :: "stored_raw_block list"
  sy_failed_attempts :: int
  sy_checkpoints :: "int list"
  sy_error :: "js_error option"

text \<open>
  \<open>Round_Start\<close> carries the outcome of \<^verbatim>\<open>assertActive\<close>, \<open>Attempt i\<close> the answers to the attempt
  that the \<open>i\<close>-th running batch is in, \<open>Round_End\<close> the outcome of \<^verbatim>\<open>onCheckpoint\<close>.
\<close>

datatype sync_event = Round_Start "unit res" | Attempt nat batch_answers | Round_End "unit res"

definition sync_base :: "int list \<Rightarrow> int" where
  "sync_base sorted_heights = (case sorted_heights of [] \<Rightarrow> 0 | h # _ \<Rightarrow> h) - 1"

definition sync_start :: "sync_settings \<Rightarrow> concurrency_controller \<Rightarrow> int list \<Rightarrow> sync_state" where
  "sync_start st c heights =
     (let sorted_heights = sort heights in
      \<lparr>sy_batches = chunk sorted_heights (st_sync_batch_size st), sy_round = [], sy_running = [],
       sy_controller = c, sy_tracker = create_frontier (sync_base sorted_heights), sy_stored = [],
       sy_failed_attempts = 0, sy_checkpoints = [], sy_error = None\<rparr>)"

definition start_round :: "sync_state \<Rightarrow> sync_state" where
  "start_round s =
     (let round = take (nat (cc_current (sy_controller s))) (sy_batches s) in
      s\<lparr>sy_batches := drop (length round) (sy_batches s), sy_round := round,
        sy_running := map (\<lambda>b. (b, 1)) round\<rparr>)"

definition remove_nth :: "nat \<Rightarrow> 'a list \<Rightarrow> 'a list" where
  "remove_nth i xs = take i xs @ drop (Suc i) xs"

text \<open>The body of \<^verbatim>\<open>syncBatchWithRetry\<close> for one attempt, with \<^verbatim>\<open>handleBatchFailure\<close>.\<close>

definition end_attempt :: "sync_settings \<Rightarrow> nat \<Rightarrow> batch_answers \<Rightarrow> sync_state \<Rightarrow> sync_state" where
  "end_attempt st i an s =
     (let (batch, attempt) = sy_running s ! i in
      case sync_batch an batch of
        Inr stored \<Rightarrow>
          s\<lparr>sy_running := remove_nth i (sy_running s), sy_stored := sy_stored s @ stored,
            sy_controller := record_success (sy_controller s)\<rparr>
      | Inl e \<Rightarrow>
          (let s' = s\<lparr>sy_failed_attempts := sy_failed_attempts s + 1,
                      sy_controller := record_failure (sy_controller s)\<rparr> in
           if st_sync_retry_attempts st \<le> attempt
           then s'\<lparr>sy_running := remove_nth i (sy_running s),
                   sy_error := (case sy_error s of None \<Rightarrow> Some e | Some e' \<Rightarrow> Some e')\<rparr>
           else s'\<lparr>sy_running := (sy_running s)[i := (batch, attempt + 1)]\<rparr>))"

text \<open>After a round without error: mark its batches and report the frontier when it moved.\<close>

definition end_round :: "unit res \<Rightarrow> sync_state \<Rightarrow> sync_state" where
  "end_round checkpoint s =
     (let (advanced, tracker) = consume_advance (fold mark_completed (sy_round s) (sy_tracker s));
          s' = s\<lparr>sy_round := [], sy_tracker := tracker\<rparr> in
      if \<not> advanced then s'
      else case checkpoint of
        Inl e \<Rightarrow> s'\<lparr>sy_error := Some e\<rparr>
      | Inr _ \<Rightarrow> s'\<lparr>sy_checkpoints := sy_checkpoints s @ [cf_current tracker]\<rparr>)"

fun sync_step :: "sync_settings \<Rightarrow> sync_event \<Rightarrow> sync_state \<Rightarrow> sync_state option" where
  "sync_step st (Round_Start active) s =
     (if sy_error s = None \<and> sy_round s = [] \<and> sy_batches s \<noteq> []
      then Some (case active of Inl e \<Rightarrow> s\<lparr>sy_error := Some e\<rparr> | Inr _ \<Rightarrow> start_round s)
      else None)"
| "sync_step st (Attempt i an) s =
     (if i < length (sy_running s) then Some (end_attempt st i an s) else None)"
| "sync_step st (Round_End checkpoint) s =
     (if sy_error s = None \<and> sy_round s \<noteq> [] \<and> sy_running s = []
      then Some (end_round checkpoint s) else None)"

fun sync_run :: "sync_settings \<Rightarrow> sync_event list \<Rightarrow> sync_state \<Rightarrow> sync_state option" where
  "sync_run st [] s = Some s"
| "sync_run st (e # es) s = Option.bind (sync_step st e s) (sync_run st es)"

definition sync_finished :: "sync_state \<Rightarrow> bool" where
  "sync_finished s \<longleftrightarrow> sy_error s = None \<and> sy_batches s = [] \<and> sy_round s = []"

definition written_heights :: "sync_state \<Rightarrow> int set" where
  "written_heights s = (\<lambda>r. cb_block_height (sr_record r)) ` set (sy_stored s)"

section \<open>Checkpoints never run ahead of the stored blocks\<close>

text \<open>The batches of the request are those of finished rounds, of this round and of later ones.\<close>

definition tracked :: "int list \<Rightarrow> sync_state \<Rightarrow> bool" where
  "tracked hs s \<longleftrightarrow> (\<exists>finished. concat finished @ concat (sy_round s) @ concat (sy_batches s) = hs
     \<and> frontier_inv (sync_base hs) (set (concat finished)) (sy_tracker s)
     \<and> set (concat finished) \<subseteq> written_heights s)"

definition covered :: "sync_state \<Rightarrow> bool" where
  "covered s \<longleftrightarrow> fst ` set (sy_running s) \<subseteq> set (sy_round s)
     \<and> (sy_error s = None \<longrightarrow>
        (\<forall>b \<in> set (sy_round s). b \<in> fst ` set (sy_running s) \<or> set b \<subseteq> written_heights s))"

definition reported :: "sync_state \<Rightarrow> bool" where
  "reported s \<longleftrightarrow> \<not> cf_advanced (sy_tracker s)
     \<and> cf_current (sy_tracker s) + 1 \<notin> set (cf_completed (sy_tracker s))
     \<and> sorted_wrt (<) (sy_checkpoints s)
     \<and> (\<forall>cp \<in> set (sy_checkpoints s). cp \<le> cf_current (sy_tracker s))"

definition sync_core :: "int list \<Rightarrow> sync_state \<Rightarrow> bool" where
  "sync_core hs s \<longleftrightarrow> tracked hs s \<and> covered s \<and> reported s \<and> written_heights s \<subseteq> set hs"

lemma sync_core_start: "sync_core (sort heights) (sync_start st c heights)"
proof -
  have "tracked (sort heights) (sync_start st c heights)"
    unfolding tracked_def
    by (intro exI [of _ "[]"]) (simp add: sync_start_def Let_def frontier_inv_create)
  then show ?thesis
    by (simp add: sync_core_def covered_def reported_def sync_start_def Let_def written_heights_def
        create_frontier_def)
qed

lemma set_remove_nth: "set (remove_nth i xs) \<subseteq> set xs"
  by (auto simp: remove_nth_def dest: in_set_takeD in_set_dropD)

lemma remove_nth_cover: "i < length xs \<Longrightarrow> set xs = insert (xs ! i) (set (remove_nth i xs))"
  using arg_cong [OF id_take_nth_drop [of i xs], of set] by (auto simp: remove_nth_def)

lemma drop_length_take: "drop (length (take n xs)) xs = drop n xs"
  by (cases "n \<le> length xs") simp_all

lemma sync_core_start_round:
  assumes "sync_core hs s" and "sy_round s = []"
  shows "sync_core hs (start_round s)"
proof -
  let ?n = "nat (cc_current (sy_controller s))"
  have "concat (take ?n (sy_batches s)) @ concat (drop ?n (sy_batches s)) = concat (sy_batches s)"
    by (metis append_take_drop_id concat_append)
  then have "tracked hs (start_round s)"
    using assms by (simp add: sync_core_def tracked_def start_round_def Let_def written_heights_def
        drop_length_take del: length_take)
  then show ?thesis using assms
    by (auto simp: sync_core_def covered_def reported_def start_round_def Let_def
        written_heights_def image_iff)
qed

text \<open>Steps that only let running batches go or add rows keep the first and the third part.\<close>

lemma tracked_mono:
  assumes "tracked hs s" and "sy_round s' = sy_round s" "sy_batches s' = sy_batches s"
    "sy_tracker s' = sy_tracker s" and "written_heights s \<subseteq> written_heights s'"
  shows "tracked hs s'"
  using subset_trans [OF _ assms(5)] assms(1) unfolding tracked_def assms(2-4) by blast

lemma reported_cong:
  "reported s \<Longrightarrow> sy_tracker s' = sy_tracker s \<Longrightarrow> sy_checkpoints s' = sy_checkpoints s \<Longrightarrow> reported s'"
  by (simp add: reported_def)

lemma covered_give_up:
  assumes "covered s" and "sy_round s' = sy_round s" and "set (sy_running s') \<subseteq> set (sy_running s)"
    and "sy_error s' \<noteq> None"
  shows "covered s'"
  using assms image_mono [OF assms(3), of fst] by (auto simp: covered_def)

lemma covered_retry:
  assumes "covered s" and "sy_round s' = sy_round s"
    and "fst ` set (sy_running s') = fst ` set (sy_running s)"
    and "sy_error s' = sy_error s" and "written_heights s' = written_heights s"
  shows "covered s'"
  using assms by (simp add: covered_def)

lemma covered_success:
  assumes "covered s" and "i < length (sy_running s)" and "sy_running s ! i = (batch, attempt)"
    and "sy_round s' = sy_round s" and "sy_running s' = remove_nth i (sy_running s)"
    and "sy_error s' = sy_error s" and "written_heights s' = written_heights s \<union> set batch"
  shows "covered s'"
proof -
  have "set (sy_running s) = insert (batch, attempt) (set (sy_running s'))"
    using remove_nth_cover [OF assms(2)] assms(3,5) by simp
  then have "fst ` set (sy_running s) = insert batch (fst ` set (sy_running s'))" by simp
  then show ?thesis using assms by (auto simp: covered_def)
qed

lemma retry_batches:
  assumes "i < length xs" and "xs ! i = (batch, attempt)"
  shows "fst ` set (xs[i := (batch, attempt')]) = fst ` set xs"
proof -
  have "map fst (xs[i := (batch, attempt')]) = map fst xs"
    using assms by (metis fst_conv list_update_id map_update)
  then show ?thesis by (metis set_map)
qed

lemma sync_core_attempt:
  assumes inv: "sync_core hs s" and i: "i < length (sy_running s)"
  shows "sync_core hs (end_attempt st i an s)"
proof -
  let ?s = "end_attempt st i an s"
  obtain batch attempt where run: "sy_running s ! i = (batch, attempt)" by fastforce
  have "batch \<in> set (sy_round s)"
    using inv i run nth_mem [OF i] by (force simp: sync_core_def covered_def)
  then have in_hs: "set batch \<subseteq> set hs"
    using inv by (auto simp: sync_core_def tracked_def)
  have inv': "tracked hs s" "covered s" "reported s" "written_heights s \<subseteq> set hs"
    using inv by (simp_all add: sync_core_def)
  show ?thesis
  proof (cases "sync_batch an batch")
    case (Inl e)
    have same: "written_heights ?s = written_heights s" "sy_tracker ?s = sy_tracker s"
      "sy_round ?s = sy_round s" "sy_batches ?s = sy_batches s"
      "sy_checkpoints ?s = sy_checkpoints s"
      "sy_controller ?s = record_failure (sy_controller s)"
      using run Inl by (simp_all add: end_attempt_def written_heights_def Let_def)
    have "covered ?s"
    proof (cases "st_sync_retry_attempts st \<le> attempt")
      case True
      show ?thesis
        by (rule covered_give_up [OF inv'(2) same(3)])
          (use run Inl True set_remove_nth [of i "sy_running s"] in \<open>auto simp: end_attempt_def Let_def split: option.splits\<close>)
    next
      case False
      show ?thesis
        by (rule covered_retry [OF inv'(2) same(3) _ _ same(1)])
          (use run Inl False retry_batches [OF i run] in \<open>auto simp: end_attempt_def Let_def\<close>)
    qed
    then show ?thesis
      using inv' tracked_mono [OF inv'(1), of ?s] reported_cong [OF inv'(3), of ?s] same
      by (simp add: sync_core_def)
  next
    case (Inr stored)
    have same: "sy_tracker ?s = sy_tracker s" "sy_round ?s = sy_round s"
      "sy_batches ?s = sy_batches s" "sy_checkpoints ?s = sy_checkpoints s"
      "sy_running ?s = remove_nth i (sy_running s)" "sy_error ?s = sy_error s"
      "sy_controller ?s = record_success (sy_controller s)"
      using run Inr by (simp_all add: end_attempt_def)
    have "sy_stored ?s = sy_stored s @ stored" using run Inr by (simp add: end_attempt_def)
    then have "written_heights ?s = written_heights s
        \<union> set (map (\<lambda>r. cb_block_height (sr_record r)) stored)"
      by (simp add: written_heights_def image_Un)
    then have new: "written_heights ?s = written_heights s \<union> set batch"
      by (simp only: sync_batch_heights [OF Inr])
    have "covered ?s"
      by (rule covered_success [OF inv'(2) i run same(2,5,6) new])
    then show ?thesis
      using inv' in_hs tracked_mono [OF inv'(1), of ?s] reported_cong [OF inv'(3), of ?s] same new
      by (simp add: sync_core_def)
  qed
qed

lemma fold_mark_inv:
  "frontier_inv b D f \<Longrightarrow> frontier_inv b (D \<union> set (concat bs)) (fold mark_completed bs f)"
proof (induction bs arbitrary: D f)
  case Nil
  then show ?case by simp
next
  case (Cons hs bs)
  then have "frontier_inv b ((D \<union> set hs) \<union> set (concat bs)) (fold mark_completed bs (mark_completed hs f))"
    by (intro Cons.IH mark_completed_inv)
  then show ?case by (simp add: Un_assoc)
qed

lemma mark_completed_facts:
  shows "cf_current f \<le> cf_current (mark_completed hs f)"
    and "cf_advanced (mark_completed hs f) \<longleftrightarrow> cf_advanced f \<or> cf_current f < cf_current (mark_completed hs f)"
    and "cf_current (mark_completed hs f) + 1 \<notin> set (cf_completed (mark_completed hs f))"
proof -
  let ?f = "f\<lparr>cf_completed := fold List.insert hs (cf_completed f)\<rparr>"
  show "cf_current f \<le> cf_current (mark_completed hs f)"
    using advance_frontier_mono [of ?f] by (simp add: mark_completed_def)
  show "cf_advanced (mark_completed hs f) \<longleftrightarrow> cf_advanced f \<or> cf_current f < cf_current (mark_completed hs f)"
    using advance_frontier_mono [of ?f] advance_frontier_advanced [of ?f]
    by (auto simp: mark_completed_def)
  show "cf_current (mark_completed hs f) + 1 \<notin> set (cf_completed (mark_completed hs f))"
    unfolding mark_completed_def by (rule advance_frontier_stop)
qed

lemma fold_mark_facts:
  "cf_current f \<le> cf_current (fold mark_completed bs f)
   \<and> (cf_advanced (fold mark_completed bs f)
        \<longleftrightarrow> cf_advanced f \<or> cf_current f < cf_current (fold mark_completed bs f))
   \<and> (cf_current f + 1 \<notin> set (cf_completed f) \<longrightarrow> cf_current (fold mark_completed bs f) + 1
        \<notin> set (cf_completed (fold mark_completed bs f)))"
proof (induction bs arbitrary: f)
  case Nil
  then show ?case by simp
next
  case (Cons hs bs)
  have m: "cf_current f \<le> cf_current (mark_completed hs f)" by (rule mark_completed_facts)
  have a: "cf_advanced (mark_completed hs f) \<longleftrightarrow> cf_advanced f \<or> cf_current f < cf_current (mark_completed hs f)"
    by (rule mark_completed_facts)
  have s: "cf_current (mark_completed hs f) + 1 \<notin> set (cf_completed (mark_completed hs f))"
    by (rule mark_completed_facts)
  show ?case using Cons.IH [of "mark_completed hs f"] m a s by auto
qed

lemma end_round_fields:
  "sy_round (end_round cp s) = []" "sy_batches (end_round cp s) = sy_batches s"
  "sy_running (end_round cp s) = sy_running s" "sy_stored (end_round cp s) = sy_stored s"
  "sy_controller (end_round cp s) = sy_controller s"
  "sy_tracker (end_round cp s)
     = (fold mark_completed (sy_round s) (sy_tracker s))\<lparr>cf_advanced := False\<rparr>"
  "sy_checkpoints (end_round cp s) = sy_checkpoints s
   \<or> cf_advanced (fold mark_completed (sy_round s) (sy_tracker s))
     \<and> sy_checkpoints (end_round cp s)
         = sy_checkpoints s @ [cf_current (fold mark_completed (sy_round s) (sy_tracker s))]"
  by (simp_all add: end_round_def consume_advance_def Let_def split: sum.splits)

lemma sync_core_end_round:
  assumes inv: "sync_core hs s" and idle: "sy_error s = None" "sy_running s = []"
  shows "sync_core hs (end_round cp s)"
proof -
  let ?f = "fold mark_completed (sy_round s) (sy_tracker s)" and ?s = "end_round cp s"
  have written: "written_heights ?s = written_heights s"
    by (simp add: written_heights_def end_round_fields)
  from inv obtain finished where
    fin: "concat finished @ concat (sy_round s) @ concat (sy_batches s) = hs"
    and fr: "frontier_inv (sync_base hs) (set (concat finished)) (sy_tracker s)"
    and wr: "set (concat finished) \<subseteq> written_heights s"
    by (auto simp: sync_core_def tracked_def)
  have round: "set (concat (sy_round s)) \<subseteq> written_heights s"
    using inv idle by (auto simp: sync_core_def covered_def)
  have "frontier_inv (sync_base hs) (set (concat finished) \<union> set (concat (sy_round s))) ?f"
    using fr by (rule fold_mark_inv)
  then have "frontier_inv (sync_base hs) (set (concat (finished @ sy_round s))) (sy_tracker ?s)"
    by (simp add: end_round_fields frontier_inv_def)
  then have t: "tracked hs ?s"
    unfolding tracked_def
    by (intro exI [of _ "finished @ sy_round s"])
      (use fin wr round in \<open>simp add: end_round_fields written\<close>)
  note facts = fold_mark_facts [of "sy_tracker s" "sy_round s"]
  have r: "reported s" using inv by (simp add: sync_core_def)
  have "reported ?s"
    using r facts end_round_fields(7) [of cp s]
    by (force simp: reported_def end_round_fields(1-6) sorted_wrt_append)
  then show ?thesis using t inv
    by (simp add: sync_core_def covered_def end_round_fields written idle)
qed

lemma sync_core_step:
  assumes "sync_core hs s" and "sync_step st e s = Some s'" shows "sync_core hs s'"
proof (cases e)
  case (Round_Start active)
  have "sync_core hs (s\<lparr>sy_error := Some err\<rparr>)" for err
    using assms(1) by (simp add: sync_core_def tracked_def covered_def reported_def written_heights_def)
  then show ?thesis using assms Round_Start
    by (auto simp: sync_core_start_round split: if_splits sum.splits)
next
  case (Attempt i an)
  then show ?thesis using assms sync_core_attempt by (auto split: if_splits)
next
  case (Round_End cp)
  then show ?thesis using assms sync_core_end_round by (auto split: if_splits)
qed

definition sync_inv :: "int list \<Rightarrow> sync_state \<Rightarrow> bool" where
  "sync_inv hs s \<longleftrightarrow> sync_core hs s \<and> controller_ok (sy_controller s)"

lemma sync_inv_core: "sync_inv hs s \<Longrightarrow> sync_core hs s"
  by (simp add: sync_inv_def)

lemma sync_inv_start: "controller_ok c \<Longrightarrow> sync_inv (sort heights) (sync_start st c heights)"
  using sync_core_start [of heights st c] by (simp add: sync_inv_def) (simp add: sync_start_def Let_def)

lemma controller_step:
  "controller_ok (sy_controller s) \<Longrightarrow> sync_step st e s = Some s' \<Longrightarrow> controller_ok (sy_controller s')"
  by (cases e)
    (auto simp: start_round_def end_attempt_def end_round_fields Let_def split: if_splits sum.splits prod.splits)

lemma sync_inv_step: "sync_inv hs s \<Longrightarrow> sync_step st e s = Some s' \<Longrightarrow> sync_inv hs s'"
  using sync_core_step controller_step by (simp add: sync_inv_def) blast

lemma sync_inv_run: "sync_inv hs s \<Longrightarrow> sync_run st es s = Some s' \<Longrightarrow> sync_inv hs s'"
proof (induction es arbitrary: s)
  case Nil
  then show ?case by simp
next
  case (Cons e es)
  then obtain s1 where "sync_step st e s = Some s1" "sync_run st es s1 = Some s'"
    by (auto simp: Option.bind_eq_Some_conv)
  then show ?case using Cons sync_inv_step by blast
qed

lemma checkpoint_covered:
  assumes "sync_core hs s" and "cp \<in> set (sy_checkpoints s)"
  shows "{sync_base hs + 1..cp} \<subseteq> written_heights s"
proof -
  obtain finished where fr: "frontier_inv (sync_base hs) (set (concat finished)) (sy_tracker s)"
    and wr: "set (concat finished) \<subseteq> written_heights s"
    using assms(1) by (auto simp: sync_core_def tracked_def)
  have "cp \<le> cf_current (sy_tracker s)" using assms by (simp add: sync_core_def reported_def)
  then show ?thesis using fr wr by (auto simp: frontier_inv_def subset_iff)
qed

lemma finished_written:
  assumes "sync_core hs s" and "sync_finished s" shows "written_heights s = set hs"
proof -
  obtain finished
    where "concat finished @ concat (sy_round s) @ concat (sy_batches s) = hs"
    and wr: "set (concat finished) \<subseteq> written_heights s"
    using assms(1) unfolding sync_core_def tracked_def by blast
  then have "concat finished = hs" using assms(2) by (simp add: sync_finished_def)
  then show ?thesis using assms(1) wr by (auto simp: sync_core_def)
qed

definition sample_answers :: batch_answers where
  "sample_answers = \<lparr>an_snapshots = Inr [sample_snapshot], an_put_part = (\<lambda>_. Inr ()),
     an_upsert_core_blocks = Inr (), an_upsert_refs = Inr (), an_now = ''2024-01-01T00:00:00.000Z''\<rparr>"

lemma sample_batch: "\<exists>r. sync_batch sample_answers [7] = Inr [r] \<and> cb_block_height (sr_record r) = 7"
proof -
  have txid: "require_string (own_prop sample_transaction ''txid'') ''tx.txid'' = Inr ''t''"
    by (simp add: sample_transaction_def require_trimmed_string_def str_eval)
  show ?thesis
    by (simp add: sync_batch_def sample_answers_def store_snapshot_def parse_raw_block_snapshot_def
        sample_parsed txid)
qed

definition sample_settings :: sync_settings where
  "sample_settings = \<lparr>st_sync_batch_size = 1, st_sync_retry_attempts = 3\<rparr>"

definition sample_events :: "sync_event list" where
  "sample_events = [Round_Start (Inr ()), Attempt 0 sample_answers, Round_End (Inr ())]"

lemma sample_run:
  "\<exists>s. sync_run sample_settings sample_events (sync_start sample_settings (create_controller 2 4 2) [7]) = Some s
     \<and> sync_finished s \<and> sy_checkpoints s = [7]"
proof -
  obtain r where r: "sync_batch sample_answers [7] = Inr [r]" using sample_batch by blast
  show ?thesis
    by (simp add: sample_events_def sample_settings_def sync_start_def chunk_def chunks_from.simps
        create_controller_def clamp_concurrency_def start_round_def end_attempt_def r remove_nth_def
        end_round_def mark_completed_def advance_frontier.simps consume_advance_def
        create_frontier_def sync_base_def sync_finished_def Let_def)
qed

text \<open>
  C16. Checkpoints are safe under every interleaving. Whatever the order in which the concurrent
  batches of the rounds end, however often attempts fail and are retried, and even when the sync
  gives up in the middle: the reported checkpoints are strictly increasing, and when one is
  reported, every height from the first requested one up to it has been requested and its block
  is in the store. So resuming after a crash from the last checkpoint loses no block. Nothing
  but requested heights is ever written, and the number of parallel batches stays between one
  and the configured maximum.
\<close>

theorem sync_checkpoints_safe:
  assumes "controller_ok c" and "sync_run st es (sync_start st c heights) = Some s"
  shows "sorted_wrt (<) (sy_checkpoints s)
    \<and> (\<forall>cp \<in> set (sy_checkpoints s).
         {sync_base (sort heights) + 1..cp} \<subseteq> written_heights s \<inter> set heights)
    \<and> written_heights s \<subseteq> set heights
    \<and> 1 \<le> cc_current (sy_controller s) \<and> cc_current (sy_controller s) \<le> max 1 (cc_max (sy_controller s))"
proof -
  have inv: "sync_inv (sort heights) s" by (rule sync_inv_run [OF sync_inv_start [OF assms(1)] assms(2)])
  then have heights: "written_heights s \<subseteq> set heights" by (simp add: sync_inv_def sync_core_def)
  then show ?thesis
    using inv checkpoint_covered [OF sync_inv_core [OF inv]] by (auto simp: sync_inv_def sync_core_def reported_def controller_ok_def)
qed

theorem sync_checkpoints_safe_witness:
  "\<exists>s. sync_run sample_settings sample_events (sync_start sample_settings (create_controller 2 4 2) [7]) = Some s
     \<and> sy_checkpoints s = [7] \<and> {7..7} \<subseteq> written_heights s \<inter> set [7]"
proof -
  obtain s where s: "sync_run sample_settings sample_events
      (sync_start sample_settings (create_controller 2 4 2) [7]) = Some s"
    "sy_checkpoints s = [7]"
    using sample_run by blast
  then show ?thesis
    using sync_checkpoints_safe [OF controller_ok_create s(1)] by (simp add: sync_base_def)
qed

section \<open>A sync that ends without error has stored everything\<close>

definition announced :: "int list \<Rightarrow> sync_state \<Rightarrow> bool" where
  "announced hs s \<longleftrightarrow> (sy_error s = None \<longrightarrow>
     last (sync_base hs # sy_checkpoints s) = cf_current (sy_tracker s))"

lemma announced_end_round:
  assumes "reported s" and "announced hs s" and "sy_error s = None"
  shows "announced hs (end_round cp s)"
proof -
  note facts = fold_mark_facts [of "sy_tracker s" "sy_round s"]
  have same: "\<not> cf_advanced (fold mark_completed (sy_round s) (sy_tracker s)) \<Longrightarrow>
     cf_current (fold mark_completed (sy_round s) (sy_tracker s)) = cf_current (sy_tracker s)"
    using facts by auto
  show ?thesis using assms same
    by (auto simp: announced_def end_round_def consume_advance_def Let_def split: sum.splits)
qed

lemma end_attempt_frame:
  "sy_tracker (end_attempt st i an s) = sy_tracker s"
  "sy_checkpoints (end_attempt st i an s) = sy_checkpoints s"
  "sy_round (end_attempt st i an s) = sy_round s"
  "sy_batches (end_attempt st i an s) = sy_batches s"
  "sy_error (end_attempt st i an s) = None \<Longrightarrow> sy_error s = None"
  by (auto simp: end_attempt_def Let_def split: prod.splits sum.splits if_splits option.splits)

lemma announced_step:
  assumes "reported s" and "announced hs s" and "sync_step st e s = Some s'"
  shows "announced hs s'"
proof (cases e)
  case (Round_Start active)
  then show ?thesis using assms
    by (auto simp: announced_def start_round_def Let_def split: if_splits sum.splits)
next
  case (Attempt i an)
  then have "s' = end_attempt st i an s" using assms(3) by (auto split: if_splits)
  then show ?thesis using assms(2) end_attempt_frame [of st i an s] by (simp add: announced_def)
next
  case (Round_End cp)
  then show ?thesis using assms announced_end_round by (auto split: if_splits)
qed

lemma sync_run_inv:
  assumes "sync_inv hs s" and "announced hs s" and "sync_run st es s = Some s'"
  shows "sync_inv hs s' \<and> announced hs s'"
  using assms
proof (induction es arbitrary: s)
  case Nil
  then show ?case by simp
next
  case (Cons e es)
  then obtain s1 where step: "sync_step st e s = Some s1" and run: "sync_run st es s1 = Some s'"
    by (auto simp: Option.bind_eq_Some_conv)
  have "reported s" using Cons.prems(1) by (simp add: sync_inv_def sync_core_def)
  then show ?case
    using Cons.IH sync_inv_step [OF Cons.prems(1) step] announced_step [OF _ Cons.prems(2) step] run
    by blast
qed

lemma announced_start: "announced (sort heights) (sync_start st c heights)"
  by (simp add: announced_def sync_start_def Let_def create_frontier_def)

lemma sorted_range_of: "sorted (range_of a b)"
  by (auto simp: range_of_def sorted_iff_nth_mono)

lemma sort_range_of: "sort (range_of a b) = range_of a b"
  by (simp add: sorted_range_of sorted_sort_id)

lemma sync_base_range_of: "a \<le> b \<Longrightarrow> sync_base (range_of a b) = a - 1"
  by (simp add: sync_base_def range_of_def upt_conv_Cons)

text \<open>
  C17. A sync that ends without error has stored everything: whatever the order of the attempts
  and however many of them failed, when the last round is over every requested height has been
  written. For a contiguous request from \<open>a\<close> to \<open>b\<close> the frontier that the sync returns is then
  exactly \<open>b\<close>, and \<open>b\<close> is also the last checkpoint that was reported.
\<close>

theorem sync_completes:
  assumes "controller_ok c" and "sync_run st es (sync_start st c heights) = Some s"
    and "sync_finished s"
  shows "written_heights s = set heights
    \<and> (heights = range_of a b \<and> a \<le> b \<longrightarrow>
         cf_current (sy_tracker s) = b \<and> last (sy_checkpoints s) = b)"
proof -
  have inv: "sync_inv (sort heights) s" and ann: "announced (sort heights) s"
    using sync_run_inv [OF sync_inv_start [OF assms(1)] announced_start assms(2)] by simp_all
  obtain finished
    where split: "concat finished @ concat (sy_round s) @ concat (sy_batches s) = sort heights"
    and fr: "frontier_inv (sync_base (sort heights)) (set (concat finished)) (sy_tracker s)"
    and wr: "set (concat finished) \<subseteq> written_heights s"
    using inv unfolding sync_inv_def sync_core_def tracked_def by blast
  have fin: "concat finished = sort heights" using split assms(3) by (simp add: sync_finished_def)
  have all: "set (concat finished) = set heights" by (simp only: fin set_sort)
  have "written_heights s = set heights" using finished_written [OF sync_inv_core [OF inv] assms(3)] by simp
  moreover have "cf_current (sy_tracker s) = b \<and> last (sy_checkpoints s) = b"
    if req: "heights = range_of a b \<and> a \<le> b"
  proof -
    have fr': "frontier_inv (a - 1) {a..b} (sy_tracker s)"
      using fr req by (simp only: all) (simp add: sort_range_of sync_base_range_of set_range_of)
    have "b \<le> cf_current (sy_tracker s)"
      by (rule frontier_maximal [OF fr']) (use inv req in \<open>auto simp: sync_inv_def sync_core_def reported_def\<close>)
    moreover have "cf_current (sy_tracker s) \<le> b"
      using fr' req by (auto simp: frontier_inv_def)
    ultimately have cur: "cf_current (sy_tracker s) = b" by simp
    then have "last ((a - 1) # sy_checkpoints s) = b"
      using ann req assms(3)
      by (simp add: announced_def sync_finished_def sort_range_of sync_base_range_of)
    then show ?thesis using cur req by (auto split: if_splits)
  qed
  ultimately show ?thesis by blast
qed

theorem sync_completes_witness:
  "\<exists>s. sync_run sample_settings sample_events (sync_start sample_settings (create_controller 2 4 2) [7]) = Some s
     \<and> written_heights s = {7} \<and> cf_current (sy_tracker s) = 7"
proof -
  obtain s where s: "sync_run sample_settings sample_events
      (sync_start sample_settings (create_controller 2 4 2) [7]) = Some s" "sync_finished s"
    using sample_run by blast
  have req: "range_of 7 7 = [7]" by (simp add: range_of_def)
  show ?thesis
    using sync_completes [OF controller_ok_create s(1) s(2), of 7 7] s(1) by (auto simp: req)
qed

section \<open>Every sync ends\<close>

definition attempt_limit :: "sync_settings \<Rightarrow> int" where
  "attempt_limit st = max 1 (st_sync_retry_attempts st)"

definition attempts_left :: "sync_settings \<Rightarrow> int list \<times> int \<Rightarrow> nat" where
  "attempts_left st r = nat (max 1 (attempt_limit st + 1 - snd r))"

definition sync_measure :: "sync_settings \<Rightarrow> sync_state \<Rightarrow> nat" where
  "sync_measure st s = sum_list (map (attempts_left st) (sy_running s))
     + (nat (attempt_limit st) + 2) * length (sy_batches s)
     + (if sy_round s = [] then 0 else 1) + (if sy_error s = None then 1 else 0)"

lemma sum_list_remove_nth:
  "i < length xs \<Longrightarrow> sum_list (map f xs) = f (xs ! i) + (sum_list (map f (remove_nth i xs)) :: nat)"
  by (subst id_take_nth_drop [of i xs]) (simp_all add: remove_nth_def min_def)

lemma sum_list_update:
  "i < length xs \<Longrightarrow> sum_list (map f (xs[i := y])) + f (xs ! i) = sum_list (map f xs) + (f y :: nat)"
  by (induction xs arbitrary: i) (auto split: nat.splits simp: nth_Cons')

lemma measure_attempt:
  assumes "i < length (sy_running s)"
  shows "sync_measure st (end_attempt st i an s) < sync_measure st s"
proof -
  obtain batch attempt where run: "sy_running s ! i = (batch, attempt)" by fastforce
  have pos: "0 < attempts_left st (batch, attempt)" by (simp add: attempts_left_def)
  note rem = sum_list_remove_nth [OF assms, of "attempts_left st", unfolded run]
  show ?thesis
  proof (cases "sync_batch an batch")
    case (Inr stored)
    then show ?thesis using run rem pos by (simp add: end_attempt_def sync_measure_def)
  next
    case (Inl e)
    show ?thesis
    proof (cases "st_sync_retry_attempts st \<le> attempt")
      case True
      then show ?thesis using run Inl rem pos
        by (simp add: end_attempt_def sync_measure_def Let_def split: option.splits)
    next
      case False
      have "attempts_left st (batch, attempt + 1) < attempts_left st (batch, attempt)"
        using False by (auto simp: attempts_left_def attempt_limit_def)
      then show ?thesis
        using run Inl False sum_list_update [OF assms, of "attempts_left st" "(batch, attempt + 1)"]
        by (simp add: end_attempt_def sync_measure_def Let_def)
    qed
  qed
qed

lemma round_cost: "0 < k \<Longrightarrow> k \<le> n \<Longrightarrow> k * a + (a + 2) * (n - k) + 1 < (a + 2) * (n :: nat)"
proof -
  assume "0 < k" and "k \<le> n"
  then obtain m where "n = k + m" by (metis le_add_diff_inverse)
  then show ?thesis using \<open>0 < k\<close> by (simp add: algebra_simps)
qed

lemma measure_start_round:
  assumes "controller_ok (sy_controller s)" and "covered s" and "sy_round s = []" "sy_batches s \<noteq> []"
  shows "sync_measure st (start_round s) < sync_measure st s"
proof -
  let ?round = "take (nat (cc_current (sy_controller s))) (sy_batches s)"
  let ?k = "length ?round" and ?a = "nat (attempt_limit st)"
  have k: "0 < ?k" "?k \<le> length (sy_batches s)" using assms(1,4) by (simp_all add: controller_ok_def)
  have none: "sy_running s = []" using assms(2,3) by (auto simp: covered_def)
  have first: "attempts_left st (b, 1) = ?a" for b by (simp add: attempts_left_def attempt_limit_def)
  have "sum_list (map (attempts_left st) (map (\<lambda>b. (b, 1)) ?round)) = ?k * ?a"
    by (simp add: first comp_def sum_list_triv del: length_take)
  moreover have "sync_measure st (start_round s)
      \<le> sum_list (map (attempts_left st) (map (\<lambda>b. (b, 1)) ?round))
        + (?a + 2) * (length (sy_batches s) - ?k) + 1 + (if sy_error s = None then 1 else 0)"
    by (simp add: sync_measure_def start_round_def Let_def del: length_take map_map mult_Suc)
  moreover have "sync_measure st s = (?a + 2) * length (sy_batches s) + (if sy_error s = None then 1 else 0)"
    using none assms(3) by (simp add: sync_measure_def)
  ultimately show ?thesis using round_cost [OF k, of ?a] by linarith
qed

lemma measure_step:
  assumes "sync_inv hs s" and "sync_step st e s = Some s'"
  shows "sync_measure st s' < sync_measure st s"
proof (cases e)
  case (Round_Start active)
  have ok: "controller_ok (sy_controller s)" "covered s" using assms(1) by (simp_all add: sync_inv_def sync_core_def)
  have idle: "sy_error s = None" "sy_round s = []" "sy_batches s \<noteq> []"
    and s': "s' = (case active of Inl e \<Rightarrow> s\<lparr>sy_error := Some e\<rparr> | Inr _ \<Rightarrow> start_round s)"
    using assms(2) Round_Start by (simp_all split: if_splits)
  show ?thesis
  proof (cases active)
    case (Inl err)
    then show ?thesis using s' idle(1) by (simp add: sync_measure_def)
  next
    case (Inr u)
    then show ?thesis using s' measure_start_round [OF ok idle(2,3)] by simp
  qed
next
  case (Attempt i an)
  then show ?thesis using assms(2) measure_attempt by (auto split: if_splits)
next
  case (Round_End cp)
  then show ?thesis using assms(2)
    by (auto simp: sync_measure_def end_round_def consume_advance_def Let_def split: if_splits sum.splits)
qed

lemma sync_run_bound:
  "sync_inv hs s \<Longrightarrow> sync_run st es s = Some s' \<Longrightarrow> length es + sync_measure st s' \<le> sync_measure st s"
proof (induction es arbitrary: s)
  case Nil
  then show ?case by simp
next
  case (Cons e es)
  then obtain s1 where step: "sync_step st e s = Some s1" and run: "sync_run st es s1 = Some s'"
    by (auto simp: Option.bind_eq_Some_conv)
  show ?case
    using Cons.IH [OF sync_inv_step [OF Cons.prems(1) step] run] measure_step [OF Cons.prems(1) step]
    by simp
qed

lemma sync_progress:
  assumes "\<not> sync_finished s" and "sy_error s = None"
  shows "sync_step st (Round_Start r) s \<noteq> None \<or> sync_step st (Attempt 0 an) s \<noteq> None
    \<or> sync_step st (Round_End r) s \<noteq> None"
  using assms by (auto simp: sync_finished_def)

text \<open>
  C40. Every sync ends. Whatever the node and the stores answer, a sync of \<open>n\<close> batches takes at
  most \<open>(attempts + 2) * n + 1\<close> steps (round starts, attempts, round ends), and until it has
  finished or failed there is always a step it can take, whatever the environment answers: so a
  sync neither runs forever nor gets stuck, and it ends either finished or with an error.
\<close>

theorem sync_terminates:
  assumes "controller_ok c" and "sync_run st es (sync_start st c heights) = Some s"
  shows "length es \<le> (nat (attempt_limit st) + 2) * length (chunk (sort heights) (st_sync_batch_size st)) + 1
    \<and> (sync_finished s \<or> sy_error s \<noteq> None \<or> sync_step st (Round_Start r) s \<noteq> None
       \<or> sync_step st (Attempt 0 an) s \<noteq> None \<or> sync_step st (Round_End r) s \<noteq> None)"
proof -
  have "length es \<le> sync_measure st (sync_start st c heights)"
    using sync_run_bound [OF sync_inv_start [OF assms(1)] assms(2)] by simp
  moreover have "sync_measure st (sync_start st c heights)
      = (nat (attempt_limit st) + 2) * length (chunk (sort heights) (st_sync_batch_size st)) + 1"
    by (simp add: sync_measure_def sync_start_def Let_def)
  ultimately have "length es \<le> (nat (attempt_limit st) + 2) * length (chunk (sort heights) (st_sync_batch_size st)) + 1"
    by (simp only:)
  then show ?thesis using sync_progress [of s st r an] by blast
qed

theorem sync_terminates_witness:
  "length sample_events
     \<le> (nat (attempt_limit sample_settings) + 2) * length (chunk (sort [7::int]) 1) + 1"
proof -
  obtain s where s: "sync_run sample_settings sample_events
      (sync_start sample_settings (create_controller 2 4 2) [7]) = Some s"
    using sample_run by blast
  show ?thesis
    using sync_terminates [OF controller_ok_create s] by (simp add: sample_settings_def)
qed

end
