(* ===== verification/Metadata.thy ===== *)
theory Metadata
  imports Block_Applications
begin

text \<open>
  The part of the metadata database that the indexer coordinates through
  (\<^verbatim>\<open>platform/src/metadata-store.ts\<close>): the single row of \<^verbatim>\<open>core_indexer_state\<close> with its partial
  update, and the table \<^verbatim>\<open>app_config\<close> of JSON values by key with its compare-and-swap
  operations. A value is stored as its JSON text and compared as text; the model stores the JSON
  value itself, whose properties keep their order, so equal texts are equal values. The time
  stamps of the rows, which nothing reads back here, are left out.

  The locale \<open>cas_store\<close> is the interface that the leader lease relies on.
\<close>

section \<open>The state row\<close>

datatype core_indexer_stage = Sync_Backfill | Process_Backfill | Online

record core_indexer_state =
  cs_stage :: core_indexer_stage
  cs_sync_tail :: int
  cs_process_tail :: int
  cs_online_tip :: int
  cs_last_error :: "string option"

record core_indexer_state_update =
  up_last_error :: "string option option"
  up_online_tip :: "int option"
  up_process_tail :: "int option"
  up_stage :: "core_indexer_stage option"
  up_sync_tail :: "int option"

definition no_update :: core_indexer_state_update where
  "no_update = \<lparr>up_last_error = None, up_online_tip = None, up_process_tail = None,
     up_stage = None, up_sync_tail = None\<rparr>"

fun stage_str :: "core_indexer_stage \<Rightarrow> string" where
  "stage_str Sync_Backfill = ''sync_backfill''"
| "stage_str Process_Backfill = ''process_backfill''"
| "stage_str Online = ''online''"

definition core_indexer_stage_of :: "string \<Rightarrow> core_indexer_stage" where
  "core_indexer_stage_of v =
     (if v = ''process_backfill'' then Process_Backfill
      else if v = ''online'' then Online else Sync_Backfill)"

lemma stage_of_str [simp]: "core_indexer_stage_of (stage_str s) = s"
  by (cases s) (simp_all add: core_indexer_stage_of_def)

definition pick :: "'a option \<Rightarrow> 'a option \<Rightarrow> 'a \<Rightarrow> 'a" where
  "pick new old dflt = (case new of Some x \<Rightarrow> x | None \<Rightarrow> (case old of Some x \<Rightarrow> x | None \<Rightarrow> dflt))"

lemma pick_simps [simp]: "pick (Some x) old d = x" "pick None (Some y) d = y" "pick None None d = d"
  by (simp_all add: pick_def)

definition upsert_core_indexer_state ::
  "core_indexer_state_update \<Rightarrow> core_indexer_state option \<Rightarrow> core_indexer_state" where
  "upsert_core_indexer_state u current =
     \<lparr>cs_stage = pick (up_stage u) (map_option cs_stage current) Sync_Backfill,
      cs_sync_tail = pick (up_sync_tail u) (map_option cs_sync_tail current) (- 1),
      cs_process_tail = pick (up_process_tail u) (map_option cs_process_tail current) (- 1),
      cs_online_tip = pick (up_online_tip u) (map_option cs_online_tip current) (- 1),
      cs_last_error = pick (up_last_error u) (map_option cs_last_error current) None\<rparr>"

definition set_core_indexer_error ::
  "string option \<Rightarrow> core_indexer_state option \<Rightarrow> core_indexer_state" where
  "set_core_indexer_error e = upsert_core_indexer_state (no_update\<lparr>up_last_error := Some e\<rparr>)"

definition set_core_indexer_stage ::
  "core_indexer_stage \<Rightarrow> core_indexer_state option \<Rightarrow> core_indexer_state" where
  "set_core_indexer_stage s = upsert_core_indexer_state (no_update\<lparr>up_stage := Some s\<rparr>)"

section \<open>Configuration values\<close>

type_synonym app_config = "(string, json) js_map"

text \<open>An absent key reads as \<^verbatim>\<open>null\<close>.\<close>

definition get_json_value :: "string \<Rightarrow> app_config \<Rightarrow> json" where
  "get_json_value key c = (case js_get c key of None \<Rightarrow> JNull | Some v \<Rightarrow> v)"

definition set_json_value :: "string \<Rightarrow> json \<Rightarrow> app_config \<Rightarrow> app_config" where
  "set_json_value key v c = js_set key v c"

definition set_json_values :: "(string \<times> json) list \<Rightarrow> app_config \<Rightarrow> app_config" where
  "set_json_values entries c = fold (\<lambda>(key, v). js_set key v) (js_map_of entries) c"

definition delete_by_prefix :: "string \<Rightarrow> app_config \<Rightarrow> app_config" where
  "delete_by_prefix p c = filter (\<lambda>(key, _). take (length p) key \<noteq> p) c"

definition compare_and_delete_json_value :: "string \<Rightarrow> json \<Rightarrow> app_config \<Rightarrow> bool \<times> app_config" where
  "compare_and_delete_json_value key expected c =
     (if js_get c key = Some expected then (True, filter (\<lambda>(k, _). k \<noteq> key) c) else (False, c))"

text \<open>The expected value \<^verbatim>\<open>null\<close> (\<open>None\<close>) stands for an absent key.\<close>

definition compare_and_swap_json_value ::
  "string \<Rightarrow> json option \<Rightarrow> json \<Rightarrow> app_config \<Rightarrow> bool \<times> app_config" where
  "compare_and_swap_json_value key expected next_value c =
     (if js_get c key = expected then (True, js_set key next_value c) else (False, c))"

lemma get_set_json_value [simp]:
  "get_json_value key (set_json_value key' v c) = (if key = key' then v else get_json_value key c)"
  by (simp add: get_json_value_def set_json_value_def js_get_set)

lemma js_get_filter_key:
  "js_get (filter (\<lambda>(k, _). P k) c) key = (if P key then js_get c key else None)"
  by (induction c) auto

lemma js_get_set_json_values:
  "js_get (set_json_values entries c) key
     = (case js_get (js_map_of entries) key of Some v \<Rightarrow> Some v | None \<Rightarrow> js_get c key)"
  by (simp add: set_json_values_def flip: jsm.put_all_def) (simp add: js_get_put_all)

lemma set_json_values_other:
  "key \<notin> fst ` set entries \<Longrightarrow> get_json_value key (set_json_values entries c) = get_json_value key c"
proof -
  assume "key \<notin> fst ` set entries"
  then have "js_get (js_map_of entries) key = None"
    by (simp add: js_get_map_of map_of_eq_None_iff)
  then show ?thesis by (simp add: get_json_value_def js_get_set_json_values)
qed

lemma delete_by_prefix_other:
  "take (length p) key \<noteq> p \<Longrightarrow> get_json_value key (delete_by_prefix p c) = get_json_value key c"
  by (simp add: get_json_value_def delete_by_prefix_def js_get_filter_key)

lemma compare_and_delete_facts:
  "fst (compare_and_delete_json_value key v c) \<longleftrightarrow> js_get c key = Some v"
  "js_get (snd (compare_and_delete_json_value key v c)) key'
     = (if key' = key \<and> js_get c key = Some v then None else js_get c key')"
  by (simp_all add: compare_and_delete_json_value_def js_get_filter_key)

text \<open>What a client of compare-and-swap may rely on.\<close>

locale cas_store =
  fixes get :: "'m \<Rightarrow> 'k \<Rightarrow> 'v option"
    and cas :: "'k \<Rightarrow> 'v option \<Rightarrow> 'v \<Rightarrow> 'm \<Rightarrow> bool \<times> 'm"
  assumes cas_decides: "fst (cas k expected v m) \<longleftrightarrow> get m k = expected"
    and cas_writes: "get (snd (cas k expected v m)) k'
      = (if k' = k \<and> get m k = expected then Some v else get m k')"
begin

lemma cas_lost: "\<not> fst (cas k expected v m) \<Longrightarrow> get (snd (cas k expected v m)) = get m"
  by (rule ext) (simp add: cas_decides cas_writes)

lemma cas_won: "fst (cas k expected v m) \<Longrightarrow> get (snd (cas k expected v m)) k = Some v"
  by (simp add: cas_decides cas_writes)

text \<open>Of two swaps that expect the same value, only one wins.\<close>

lemma cas_once:
  "v \<noteq> v' \<Longrightarrow> expected \<noteq> Some v \<Longrightarrow> fst (cas k expected v m)
     \<Longrightarrow> \<not> fst (cas k expected v' (snd (cas k expected v m)))"
  by (auto simp: cas_decides cas_writes)

end

interpretation config_cas: cas_store js_get compare_and_swap_json_value
  by unfold_locales (simp_all add: compare_and_swap_json_value_def js_get_set)

end
