(* ===== verification/Config_Keys.thy ===== *)
theory Config_Keys
  imports Main
begin

text \<open>
  The keys of the coordination values (\<^verbatim>\<open>indexing-pipeline/src/domain/config-keys.ts\<close>), those that
  the indexer and its stores read or write.
\<close>

named_theorems config_keys \<open>the texts of the keys\<close>

definition config_key_primary :: string where
  "config_key_primary = ''primary''"

definition config_key_block_height :: string where
  "config_key_block_height = ''block_height''"

definition config_key_indexer_sync_tail :: string where
  "config_key_indexer_sync_tail = ''indexer_sync_tail''"

definition config_key_indexer_sync_progress :: string where
  "config_key_indexer_sync_progress = ''indexer_sync_progress''"

definition config_key_indexer_stage :: string where
  "config_key_indexer_stage = ''indexer_stage''"

definition config_key_indexer_process_tail :: string where
  "config_key_indexer_process_tail = ''indexer_process_tail''"

definition config_key_indexer_finalized_tail :: string where
  "config_key_indexer_finalized_tail = ''indexer_finalized_tail''"

definition config_key_indexer_reprocess_depth :: string where
  "config_key_indexer_reprocess_depth = ''indexer_reprocess_depth''"

definition config_key_indexer_process_progress :: string where
  "config_key_indexer_process_progress = ''indexer_process_progress''"

definition config_key_indexer_fact_tail :: string where
  "config_key_indexer_fact_tail = ''indexer_fact_tail''"

definition config_key_indexer_fact_progress :: string where
  "config_key_indexer_fact_progress = ''indexer_fact_progress''"

definition config_key_dogecoin_current_state_ready :: string where
  "config_key_dogecoin_current_state_ready = ''dogecoin_current_state_ready''"

definition config_key_dogecoin_history_ready :: string where
  "config_key_dogecoin_history_ready = ''dogecoin_history_ready''"

definition config_key_dogecoin_analytics_facts_ready :: string where
  "config_key_dogecoin_analytics_facts_ready = ''dogecoin_analytics_facts_ready''"

definition config_key_dogecoin_analytics_facts_tail :: string where
  "config_key_dogecoin_analytics_facts_tail = ''dogecoin_analytics_facts_tail''"

definition config_key_dogecoin_current_state_materialization :: string where
  "config_key_dogecoin_current_state_materialization = ''dogecoin_current_state_materialization''"

definition config_key_core_apply_recovery :: string where
  "config_key_core_apply_recovery = ''dogecoin_core_apply_recovery''"

definition config_key_dogecoin_transaction_refs_ready :: string where
  "config_key_dogecoin_transaction_refs_ready = ''dogecoin_transaction_refs_ready''"

definition config_key_indexer_sync_blocks_per_second :: string where
  "config_key_indexer_sync_blocks_per_second = ''indexer_sync_blocks_per_second''"

definition config_key_indexer_sync_eta_seconds :: string where
  "config_key_indexer_sync_eta_seconds = ''indexer_sync_eta_seconds''"

definition config_key_indexer_process_blocks_per_second :: string where
  "config_key_indexer_process_blocks_per_second = ''indexer_process_blocks_per_second''"

definition config_key_indexer_process_eta_seconds :: string where
  "config_key_indexer_process_eta_seconds = ''indexer_process_eta_seconds''"

definition config_key_indexer_last_activity_at :: string where
  "config_key_indexer_last_activity_at = ''indexer_last_activity_at''"

lemmas config_key_texts [config_keys] =
  config_key_primary_def
  config_key_block_height_def
  config_key_indexer_sync_tail_def
  config_key_indexer_sync_progress_def
  config_key_indexer_stage_def
  config_key_indexer_process_tail_def
  config_key_indexer_finalized_tail_def
  config_key_indexer_reprocess_depth_def
  config_key_indexer_process_progress_def
  config_key_indexer_fact_tail_def
  config_key_indexer_fact_progress_def
  config_key_dogecoin_current_state_ready_def
  config_key_dogecoin_history_ready_def
  config_key_dogecoin_analytics_facts_ready_def
  config_key_dogecoin_analytics_facts_tail_def
  config_key_dogecoin_current_state_materialization_def
  config_key_core_apply_recovery_def
  config_key_dogecoin_transaction_refs_ready_def
  config_key_indexer_sync_blocks_per_second_def
  config_key_indexer_sync_eta_seconds_def
  config_key_indexer_process_blocks_per_second_def
  config_key_indexer_process_eta_seconds_def
  config_key_indexer_last_activity_at_def

end
