(* ===== verification/Indexer_Plan.thy ===== *)
theory Indexer_Plan
  imports Raw_Sync Metadata Config_Keys
begin

text \<open>
  The pure decisions of the indexer service (the functions below the class in
  \<^verbatim>\<open>indexing-pipeline/src/application/core-dogecoin-indexer-service.ts\<close>) and its settings: which
  heights a backfill or an online window covers, from which source they may be read, when a stage
  ends, how large the next window may be, and when the watchdog calls the indexer stalled.
  Heights, milliseconds and rows are integers; a progress value is an exact fraction, where the
  code divides doubles.
\<close>

section \<open>Settings\<close>

datatype backfill_block_source = Auto | Node_Only | Storage_Only

datatype core_window_source = Node | Storage

record core_settings =
  se_backfill_block_source :: "backfill_block_source option"
  se_backfill_window_blocks :: "int option"
  se_backfill_window_rows :: "int option"
  se_block_timeout_ms :: int
  se_db_statement_timeout_ms :: int
  se_online_tip_distance :: int
  se_process_window :: int
  se_progress_watchdog_ms :: int
  se_reprocess_depth :: int
  se_sync_complete_distance :: int
  se_sync_batch_size :: int
  se_sync_retry_attempts :: int
  se_sync_window :: int

text \<open>The bounds that the settings parser (\<^verbatim>\<open>platform/src/settings.ts\<close>) enforces.\<close>

definition settings_ok :: "core_settings \<Rightarrow> bool" where
  "settings_ok st \<longleftrightarrow> 1 \<le> se_process_window st \<and> 1 \<le> se_reprocess_depth st \<and> 1 \<le> se_sync_window st
     \<and> 0 \<le> se_sync_complete_distance st \<and> (case se_backfill_window_blocks st of None \<Rightarrow> True | Some n \<Rightarrow> 1 \<le> n)"

definition sync_settings_of :: "core_settings \<Rightarrow> sync_settings" where
  "sync_settings_of st = \<lparr>st_sync_batch_size = se_sync_batch_size st,
     st_sync_retry_attempts = se_sync_retry_attempts st\<rparr>"

section \<open>Stages and backlog\<close>

definition has_processed_every_synced_block :: "core_indexer_state \<Rightarrow> bool" where
  "has_processed_every_synced_block s \<longleftrightarrow> 0 \<le> cs_sync_tail s \<and> cs_sync_tail s \<le> cs_process_tail s"

definition should_promote_to_process_backfill :: "core_indexer_state \<Rightarrow> int \<Rightarrow> int \<Rightarrow> bool" where
  "should_promote_to_process_backfill s latest distance =
     (if cs_sync_tail s < 0 then False else latest - distance \<le> cs_sync_tail s)"

definition has_core_work_backlog :: "core_indexer_state \<Rightarrow> int \<Rightarrow> int \<Rightarrow> bool" where
  "has_core_work_backlog s latest distance =
     (case cs_stage s of
        Sync_Backfill \<Rightarrow> cs_sync_tail s < latest - distance
      | Process_Backfill \<Rightarrow> cs_process_tail s < cs_sync_tail s
      | Online \<Rightarrow> cs_sync_tail s < latest \<or> cs_process_tail s < latest)"

definition is_core_state_at_latest :: "core_indexer_state \<Rightarrow> int \<Rightarrow> bool" where
  "is_core_state_at_latest s latest \<longleftrightarrow> latest \<le> cs_sync_tail s \<and> latest \<le> cs_process_tail s"

definition is_ready_online_state :: "core_indexer_state \<Rightarrow> int \<Rightarrow> bool" where
  "is_ready_online_state s latest \<longleftrightarrow>
     cs_stage s = Online \<and> cs_online_tip s = latest \<and> cs_last_error s = None"

definition should_refresh_online_reprocess_window :: "core_indexer_state \<Rightarrow> int \<Rightarrow> bool" where
  "should_refresh_online_reprocess_window s latest \<longleftrightarrow>
     cs_sync_tail s < latest \<or> cs_online_tip s \<noteq> latest"

section \<open>Windows\<close>

definition finalized_node_height :: "int \<Rightarrow> core_settings \<Rightarrow> int" where
  "finalized_node_height latest st = latest - se_reprocess_depth st"

definition backfill_read_ahead_limit :: "core_window_source \<Rightarrow> int \<Rightarrow> int \<Rightarrow> core_settings \<Rightarrow> int" where
  "backfill_read_ahead_limit source latest sync_tail st =
     (if source = Node \<and> se_backfill_block_source st = Some Auto
      then min sync_tail (finalized_node_height latest st) else sync_tail)"

definition backfill_window_blocks :: "core_settings \<Rightarrow> int" where
  "backfill_window_blocks st =
     (case se_backfill_window_blocks st of Some n \<Rightarrow> n | None \<Rightarrow> se_process_window st)"

text \<open>\<open>retry_at\<close> is the time until which the node is not asked again after a failed read.\<close>

definition backfill_source :: "core_settings \<Rightarrow> int \<Rightarrow> int \<Rightarrow> int \<Rightarrow> int \<Rightarrow> core_window_source" where
  "backfill_source st now retry_at latest first_height =
     (case se_backfill_block_source st of
        None \<Rightarrow> Storage
      | Some Node_Only \<Rightarrow> Node
      | Some Storage_Only \<Rightarrow> Storage
      | Some Auto \<Rightarrow>
          if now < retry_at then Storage
          else if first_height \<le> finalized_node_height latest st then Node else Storage)"

record window_plan =
  pl_first_height :: int
  pl_last_height :: int
  pl_source :: core_window_source
  pl_read_ahead_limit :: int

definition plan_backfill_window ::
  "core_settings \<Rightarrow> int \<Rightarrow> int \<Rightarrow> int \<Rightarrow> core_indexer_state \<Rightarrow> window_plan" where
  "plan_backfill_window st now retry_at latest s =
     (let first_height = cs_process_tail s + 1;
          source = backfill_source st now retry_at latest first_height;
          limit = backfill_read_ahead_limit source latest (cs_sync_tail s) st in
      \<lparr>pl_first_height = first_height,
       pl_last_height = min limit (cs_process_tail s + backfill_window_blocks st),
       pl_source = source, pl_read_ahead_limit = limit\<rparr>)"

definition reprocess_window_start :: "int \<Rightarrow> int \<Rightarrow> int" where
  "reprocess_window_start tip depth = max 0 (tip - depth + 1)"

definition online_raw_refresh_start :: "core_indexer_state \<Rightarrow> int \<Rightarrow> int \<Rightarrow> int" where
  "online_raw_refresh_start s sync_end depth =
     max 0 (min (cs_sync_tail s + 1) (reprocess_window_start sync_end depth))"

definition online_process_window_start :: "int \<Rightarrow> int \<Rightarrow> int \<Rightarrow> int" where
  "online_process_window_start process_tail target depth =
     (let reprocess_tip = min process_tail target in
      max 0 (min (process_tail + 1) (reprocess_window_start reprocess_tip depth)))"

definition online_process_heights :: "int \<Rightarrow> int \<Rightarrow> int \<Rightarrow> int \<Rightarrow> int list" where
  "online_process_heights process_tail target depth window =
     (let start = online_process_window_start process_tail target depth;
          end' = min target (process_tail + window) in
      range_of start end')"

definition last_core_process_window_height :: "int list \<Rightarrow> int \<Rightarrow> int" where
  "last_core_process_window_height heights first_height =
     (if heights = [] then first_height else last heights)"

definition require_core_process_window_bounds :: "int list \<Rightarrow> (int \<times> int) res" where
  "require_core_process_window_bounds heights =
     (case heights of
        [] \<Rightarrow> Inl (GenericError ''empty core process window'')
      | h # _ \<Rightarrow> Inr (h, last_core_process_window_height heights h))"

definition finalized_tail :: "int \<Rightarrow> int \<Rightarrow> int" where
  "finalized_tail process_tail depth = max (- 1) (process_tail - depth)"

lemma backfill_window_bounds:
  assumes "settings_ok st" and "cs_process_tail s < cs_sync_tail s"
  shows "let p = plan_backfill_window st now retry_at latest s in
    pl_first_height p = cs_process_tail s + 1
    \<and> pl_first_height p \<le> pl_last_height p \<and> pl_last_height p \<le> cs_sync_tail s
    \<and> pl_last_height p \<le> pl_read_ahead_limit p
    \<and> pl_last_height p - pl_first_height p + 1 \<le> backfill_window_blocks st
    \<and> (se_backfill_block_source st = Some Auto \<and> pl_source p = Node
         \<longrightarrow> pl_read_ahead_limit p \<le> latest - se_reprocess_depth st)"
  using assms
  by (cases "se_backfill_block_source st")
    (auto simp: plan_backfill_window_def backfill_source_def backfill_read_ahead_limit_def
      backfill_window_blocks_def finalized_node_height_def settings_ok_def Let_def
      split: option.splits backfill_block_source.splits)

text \<open>
  C13. A backfill window never skips a block and never runs ahead. With work left in the
  backfill it covers at least the next block to process, starts exactly there, ends no later than
  the last synced block and holds at most the configured number of blocks; and in \<^verbatim>\<open>auto\<close> mode a
  window that is read from the node stays below the heights that a reorganisation may still
  replace.
\<close>

theorem backfill_window_planned:
  assumes "settings_ok st" and "cs_process_tail s < cs_sync_tail s"
  shows "let p = plan_backfill_window st now retry_at latest s in
    pl_first_height p = cs_process_tail s + 1
    \<and> pl_first_height p \<le> pl_last_height p \<and> pl_last_height p \<le> cs_sync_tail s
    \<and> pl_last_height p \<le> pl_read_ahead_limit p
    \<and> pl_last_height p - pl_first_height p + 1 \<le> backfill_window_blocks st
    \<and> (se_backfill_block_source st = Some Auto \<and> pl_source p = Node
         \<longrightarrow> pl_read_ahead_limit p \<le> latest - se_reprocess_depth st)"
  using assms
  by (cases "se_backfill_block_source st")
    (auto simp: plan_backfill_window_def backfill_source_def backfill_read_ahead_limit_def
      backfill_window_blocks_def finalized_node_height_def settings_ok_def Let_def
      split: option.splits backfill_block_source.splits)

definition sample_settings :: core_settings where
  "sample_settings = \<lparr>se_backfill_block_source = Some Auto, se_backfill_window_blocks = Some 4,
     se_backfill_window_rows = None, se_block_timeout_ms = 1000, se_db_statement_timeout_ms = 1000,
     se_online_tip_distance = 2, se_process_window = 3, se_progress_watchdog_ms = 60000,
     se_reprocess_depth = 2, se_sync_complete_distance = 1, se_sync_batch_size = 2,
     se_sync_retry_attempts = 3, se_sync_window = 10\<rparr>"

definition sample_state :: core_indexer_state where
  "sample_state = \<lparr>cs_stage = Process_Backfill, cs_sync_tail = 9, cs_process_tail = 3,
     cs_online_tip = 10, cs_last_error = None\<rparr>"

lemma backfill_window_planned_witness:
  "let p = plan_backfill_window sample_settings 5 0 10 sample_state in
    pl_first_height p = 4 \<and> pl_last_height p = 7 \<and> pl_read_ahead_limit p \<le> 8"
proof -
  have ok: "settings_ok sample_settings" "cs_process_tail sample_state < cs_sync_tail sample_state"
    by (simp_all add: settings_ok_def sample_settings_def sample_state_def)
  show ?thesis
    using backfill_window_planned [OF ok, of 5 0 10]
    by (simp add: sample_settings_def sample_state_def plan_backfill_window_def backfill_source_def
        backfill_read_ahead_limit_def backfill_window_blocks_def finalized_node_height_def Let_def)
qed

lemma online_window_start:
  assumes "1 \<le> depth" and "process_tail \<le> target" and "- 1 \<le> process_tail"
  shows "online_process_window_start process_tail target depth = max 0 (process_tail - depth + 1)"
  using assms by (simp add: online_process_window_start_def reprocess_window_start_def Let_def)

text \<open>
  C14. An online window leaves no gap and repeats the reorganisation depth: as long as the
  target is not below the processed tail, it consists of consecutive heights, starts no later
  than the next block to process and no later than \<open>depth - 1\<close> blocks below the processed tail,
  and ends at the target or after the configured number of new blocks, whichever comes first; it
  is empty only when there is no block at all.
\<close>

theorem online_window_planned:
  assumes "settings_ok st" and "- 1 \<le> process_tail" and "process_tail \<le> target"
  shows "let hs = online_process_heights process_tail target (se_reprocess_depth st) (se_process_window st) in
    hs = range_of (max 0 (process_tail - se_reprocess_depth st + 1)) (min target (process_tail + se_process_window st))
    \<and> set hs = {max 0 (process_tail - se_reprocess_depth st + 1)..min target (process_tail + se_process_window st)}
    \<and> {process_tail + 1..min target (process_tail + se_process_window st)} \<subseteq> set hs
    \<and> (hs = [] \<longleftrightarrow> target = - 1)"
proof -
  have depth: "1 \<le> se_reprocess_depth st" "1 \<le> se_process_window st" using assms(1) by (simp_all add: settings_ok_def)
  have hs: "online_process_heights process_tail target (se_reprocess_depth st) (se_process_window st)
      = range_of (max 0 (process_tail - se_reprocess_depth st + 1)) (min target (process_tail + se_process_window st))"
    using online_window_start [OF depth(1) assms(3,2)] by (simp add: online_process_heights_def)
  have "range_of a b = [] \<longleftrightarrow> b < a" for a b by (simp add: range_of_def)
  then show ?thesis using assms depth by (auto simp: hs set_range_of Let_def)
qed

lemma online_window_planned_witness:
  "set (online_process_heights 9 11 (se_reprocess_depth sample_settings) (se_process_window sample_settings))
     = {8..11}"
proof -
  have "settings_ok sample_settings" "- 1 \<le> (9 :: int)" "9 \<le> (11 :: int)"
    by (simp_all add: settings_ok_def sample_settings_def)
  from online_window_planned [OF this] show ?thesis
    by (simp add: sample_settings_def Let_def set_range_of)
qed

section \<open>Window sizes\<close>

definition backfill_window_min_rows :: int where
  "backfill_window_min_rows = 5000"

definition next_backfill_target_rows :: "int \<Rightarrow> int \<Rightarrow> int option \<Rightarrow> int \<Rightarrow> int" where
  "next_backfill_target_rows current configured apply_ms budget =
     (case apply_ms of
        None \<Rightarrow> max (min backfill_window_min_rows configured) (current div 2)
      | Some ms \<Rightarrow>
          if budget < 2 * ms then max (min backfill_window_min_rows configured) (current div 2)
          else if 6 * ms < budget then min configured ((3 * current + 1) div 2)
          else current)"

fun array_length :: "json \<Rightarrow> int" where
  "array_length (JArr xs) = int (length xs)"
| "array_length _ = 0"

definition core_snapshot_row_count :: "json \<Rightarrow> int" where
  "core_snapshot_row_count snapshot =
     (case own_prop (own_prop snapshot ''block'') ''tx'' of
        JArr txs \<Rightarrow>
          sum_list (map (\<lambda>t. array_length (own_prop t ''vin'') + array_length (own_prop t ''vout'')) txs)
      | _ \<Rightarrow> 0)"

lemma target_rows_bounds:
  assumes "1 \<le> configured" and "min backfill_window_min_rows configured \<le> current" "current \<le> configured"
  shows "min backfill_window_min_rows configured \<le> next_backfill_target_rows current configured ms budget
    \<and> next_backfill_target_rows current configured ms budget \<le> configured"
  using assms by (auto simp: next_backfill_target_rows_def backfill_window_min_rows_def split: option.splits)

section \<open>Progress\<close>

definition to_progress :: "int \<Rightarrow> int \<Rightarrow> rat" where
  "to_progress tail latest =
     (if latest < 0 then 0 else max 0 (min 1 (of_int (tail + 1) / of_int (latest + 1))))"

definition loop_failure_backoff_max_ms :: int where
  "loop_failure_backoff_max_ms = 30000"

definition loop_failure_backoff_ms :: "int \<Rightarrow> int" where
  "loop_failure_backoff_ms failures =
     min loop_failure_backoff_max_ms (1000 * 2 ^ nat (max 0 (failures - 1)))"

record progress_observation =
  po_observed_at_ms :: int
  po_process_tail :: int
  po_stage :: core_indexer_stage
  po_sync_tail :: int

definition has_same_progress_values :: "progress_observation \<Rightarrow> core_indexer_state \<Rightarrow> bool" where
  "has_same_progress_values p s \<longleftrightarrow>
     po_stage p = cs_stage s \<and> po_sync_tail p = cs_sync_tail s \<and> po_process_tail p = cs_process_tail s"

definition record_progress_observation :: "int \<Rightarrow> core_indexer_state \<Rightarrow> progress_observation" where
  "record_progress_observation now s =
     \<lparr>po_observed_at_ms = now, po_process_tail = cs_process_tail s, po_stage = cs_stage s,
      po_sync_tail = cs_sync_tail s\<rparr>"

text \<open>The observation in force after the state has been seen at time \<open>now\<close>.\<close>

definition observe_progress ::
  "int \<Rightarrow> core_indexer_state \<Rightarrow> progress_observation option \<Rightarrow> progress_observation" where
  "observe_progress now s previous =
     (case previous of
        Some p \<Rightarrow> if has_same_progress_values p s then p else record_progress_observation now s
      | None \<Rightarrow> record_progress_observation now s)"

definition core_progress_backlog_age_ms ::
  "int \<Rightarrow> core_indexer_state \<Rightarrow> int \<Rightarrow> int \<Rightarrow> progress_observation \<Rightarrow> int \<Rightarrow> int option" where
  "core_progress_backlog_age_ms now s latest distance observation last_activity =
     (if \<not> has_core_work_backlog s latest distance then None
      else Some (now - max (po_observed_at_ms observation) last_activity))"

definition is_fresh_progress_age :: "int option \<Rightarrow> int \<Rightarrow> bool" where
  "is_fresh_progress_age age watchdog = (case age of None \<Rightarrow> True | Some a \<Rightarrow> a \<le> watchdog)"

lemma progress_range: "0 \<le> to_progress tail latest \<and> to_progress tail latest \<le> 1"
  by (simp add: to_progress_def)

lemma progress_complete: "0 \<le> latest \<Longrightarrow> to_progress tail latest = 1 \<longleftrightarrow> latest \<le> tail"
proof -
  assume "0 \<le> latest"
  then have "(1 :: rat) \<le> of_int (tail + 1) / of_int (latest + 1) \<longleftrightarrow> latest \<le> tail"
    by (simp add: le_divide_eq)
  then show ?thesis using \<open>0 \<le> latest\<close> by (auto simp: to_progress_def min_def max_def)
qed

lemma observation_kept:
  "has_same_progress_values p s \<Longrightarrow> observe_progress now s (Some p) = p"
  by (simp add: observe_progress_def)

text \<open>
  The watchdog fires only on a backlog: an indexer without backlog, one that made progress since
  it was last observed, or one whose last attempt ended within the limit, is not stopped.
\<close>

lemma watchdog_spares:
  assumes "0 \<le> limit" and "\<not> has_core_work_backlog s latest distance
     \<or> previous = None \<or> (\<exists>p. previous = Some p \<and> \<not> has_same_progress_values p s)
     \<or> now - last_activity \<le> limit"
  shows "is_fresh_progress_age (core_progress_backlog_age_ms now s latest distance
           (observe_progress now s previous) last_activity) limit"
  using assms
  by (auto simp: is_fresh_progress_age_def core_progress_backlog_age_ms_def observe_progress_def
      record_progress_observation_def split: option.splits)

end
