(* ===== verification/Apply_Marker.thy ===== *)
theory Apply_Marker
  imports Block_Applications
begin

text \<open>
  The write-ahead marker of a core window (\<^verbatim>\<open>indexing-pipeline/src/domain/core-apply-recovery.ts\<close>):
  what is recorded before a window is applied, and its validation when a later run finds it.
\<close>

record apply_marker =
  rm_instance_id :: string
  rm_start_height :: int
  rm_end_height :: int
  rm_block_hashes :: "string list"
  rm_update_current_state :: bool
  rm_started_at :: string

definition marker_json :: "apply_marker \<Rightarrow> json" where
  "marker_json m = JObj
     [(''version'', JNum (JInt 1)), (''instanceId'', JStr (rm_instance_id m)),
      (''startHeight'', JNum (JInt (rm_start_height m))),
      (''endHeight'', JNum (JInt (rm_end_height m))),
      (''blockHashes'', JArr (map JStr (rm_block_hashes m))),
      (''updateCurrentState'', JBool (rm_update_current_state m)),
      (''startedAt'', JStr (rm_started_at m))]"

text \<open>The marker of a window: \<open>now\<close> is the text of the current time.\<close>

definition create_core_apply_recovery_marker ::
  "string \<Rightarrow> int \<Rightarrow> int \<Rightarrow> string list \<Rightarrow> bool \<Rightarrow> string \<Rightarrow> apply_marker" where
  "create_core_apply_recovery_marker instance_id start end' hashes update now =
     \<lparr>rm_instance_id = instance_id, rm_start_height = start, rm_end_height = end',
      rm_block_hashes = hashes, rm_update_current_state = update, rm_started_at = now\<rparr>"

definition marker_error :: "string \<Rightarrow> string \<Rightarrow> js_error" where
  "marker_error field what =
     GenericError (''core apply recovery marker field '' @ field @ '' must be '' @ what)"

fun is_record :: "json \<Rightarrow> bool" where
  "is_record (JObj _) = True"
| "is_record (JArr _) = True"
| "is_record _ = False"

definition marker_string :: "json \<Rightarrow> string \<Rightarrow> string res" where
  "marker_string v field =
     (case v of
        JStr s \<Rightarrow> if js_trim s = [] then Inl (marker_error field ''a non-empty string'') else Inr s
      | _ \<Rightarrow> Inl (marker_error field ''a non-empty string''))"

definition marker_integer :: "json \<Rightarrow> string \<Rightarrow> int res" where
  "marker_integer v field =
     (case v of JNum (JInt i) \<Rightarrow> Inr i | _ \<Rightarrow> Inl (marker_error field ''an integer''))"

definition marker_boolean :: "json \<Rightarrow> string \<Rightarrow> bool res" where
  "marker_boolean v field =
     (case v of JBool b \<Rightarrow> Inr b | _ \<Rightarrow> Inl (marker_error field ''a boolean''))"

definition marker_string_array :: "json \<Rightarrow> string \<Rightarrow> string list res" where
  "marker_string_array v field =
     (case v of
        JArr xs \<Rightarrow>
          map_res (\<lambda>x. case x of JStr s \<Rightarrow> Inr s | _ \<Rightarrow> Inl (marker_error field ''a string array'')) xs
      | _ \<Rightarrow> Inl (marker_error field ''a string array''))"

definition parse_core_apply_recovery_marker :: "json \<Rightarrow> apply_marker res" where
  "parse_core_apply_recovery_marker v =
     (if \<not> is_record v then Inl (GenericError ''core apply recovery marker must be an object'')
      else if own_prop v ''version'' \<noteq> JNum (JInt 1)
      then Inl (GenericError (''unsupported core apply recovery marker version: ''
             @ json_str (own_prop v ''version'')))
      else
        and_then (marker_string (own_prop v ''instanceId'') ''instanceId'') (\<lambda>instance_id.
        and_then (marker_integer (own_prop v ''startHeight'') ''startHeight'') (\<lambda>start.
        and_then (marker_integer (own_prop v ''endHeight'') ''endHeight'') (\<lambda>end'.
        and_then (marker_string_array (own_prop v ''blockHashes'') ''blockHashes'') (\<lambda>hashes.
        and_then (marker_boolean (own_prop v ''updateCurrentState'') ''updateCurrentState'') (\<lambda>update.
        and_then (marker_string (own_prop v ''startedAt'') ''startedAt'') (\<lambda>started.
        if start < 0 \<or> end' < start
        then Inl (GenericError ''core apply recovery marker has invalid height bounds'')
        else Inr \<lparr>rm_instance_id = instance_id, rm_start_height = start, rm_end_height = end',
                  rm_block_hashes = hashes, rm_update_current_state = update,
                  rm_started_at = started\<rparr>)))))))"

definition marker_ok :: "apply_marker \<Rightarrow> bool" where
  "marker_ok m \<longleftrightarrow> js_trim (rm_instance_id m) \<noteq> [] \<and> js_trim (rm_started_at m) \<noteq> []
     \<and> 0 \<le> rm_start_height m \<and> rm_start_height m \<le> rm_end_height m"

lemma marker_string_array_map [simp]: "marker_string_array (JArr (map JStr hs)) field = Inr hs"
proof -
  have "map_res (\<lambda>x. case x of JStr s \<Rightarrow> Inr s | _ \<Rightarrow> Inl (marker_error field ''a string array''))
          (map JStr hs) = Inr hs"
    by (induction hs) simp_all
  then show ?thesis by (simp add: marker_string_array_def)
qed

lemma parse_marker_json:
  "parse_core_apply_recovery_marker (marker_json m) = Inr m \<longleftrightarrow> marker_ok m"
  by (cases "js_trim (rm_instance_id m) = []"; cases "js_trim (rm_started_at m) = []")
    (auto simp: parse_core_apply_recovery_marker_def marker_json_def marker_ok_def marker_string_def
      marker_integer_def marker_boolean_def)

lemma marker_json_inject: "marker_json m = marker_json m' \<longleftrightarrow> m = m'"
proof -
  have "map JStr xs = map JStr ys \<longleftrightarrow> xs = ys" for xs ys by (rule inj_map_eq_map) (simp add: inj_def)
  then show ?thesis by (cases m; cases m') (auto simp: marker_json_def)
qed

lemma parse_marker_valid:
  assumes "parse_core_apply_recovery_marker v = Inr m" shows "marker_ok m"
proof -
  have s: "js_trim x \<noteq> []" if "marker_string j field = Inr x" for j field x
    using that by (auto simp: marker_string_def split: json.splits if_splits)
  show ?thesis using assms s
    by (auto simp: parse_core_apply_recovery_marker_def marker_ok_def res_simps split: if_splits)
qed

text \<open>
  C15. The recovery marker survives its trip through the store: what a run has written before it
  applied a window is read back by the next run as the same marker (when the instance id and the
  time stamp are not blank and the heights are a non-empty range, which the writer guarantees),
  and the reader accepts no marker with other bounds, so a recovery never rewinds to a negative
  height.
\<close>

theorem apply_marker_roundtrip:
  "(parse_core_apply_recovery_marker (marker_json m) = Inr m \<longleftrightarrow> marker_ok m)
   \<and> (case parse_core_apply_recovery_marker v of Inl _ \<Rightarrow> True | Inr m' \<Rightarrow> marker_ok m')"
  using parse_marker_json parse_marker_valid by (auto split: sum.splits)

end
