(* ===== verification/Effects.thy ===== *)
theory Effects
  imports Js_Base
begin

text \<open>
  Asynchronous code as state passing with errors: a method that reads and writes the stores and
  may throw is a function from the state to a result and the state it leaves behind. A thrown
  error does not undo what was written before it. \<open>triple P m Q E\<close> says of such a method: started
  in a state with \<open>P\<close> it either returns a value \<open>x\<close> in a state with \<open>Q x\<close>, or throws and leaves a
  state with \<open>E\<close>. With an invariant for \<open>E\<close> a triple also says what a crash in the middle leaves
  behind, since every call to a store may be the one that fails. The rules are syntax directed,
  one per construct.
\<close>

type_synonym ('s, 'a) eff = "'s \<Rightarrow> 'a res \<times> 's"

definition ret :: "'a \<Rightarrow> ('s, 'a) eff" where
  "ret x s = (Inr x, s)"

definition throw :: "js_error \<Rightarrow> ('s, 'a) eff" where
  "throw e s = (Inl e, s)"

definition then_do :: "('s, 'a) eff \<Rightarrow> ('a \<Rightarrow> ('s, 'b) eff) \<Rightarrow> ('s, 'b) eff" where
  "then_do m f s = (case m s of (Inl e, s') \<Rightarrow> (Inl e, s') | (Inr x, s') \<Rightarrow> f x s')"

definition and_do :: "('s, 'a) eff \<Rightarrow> ('s, 'b) eff \<Rightarrow> ('s, 'b) eff" where
  "and_do m n = then_do m (\<lambda>_. n)"

text \<open>\<^verbatim>\<open>try { m } catch (error) { h(error) }\<close>, where the handler rethrows or returns.\<close>

definition catch :: "('s, 'a) eff \<Rightarrow> (js_error \<Rightarrow> ('s, 'a) eff) \<Rightarrow> ('s, 'a) eff" where
  "catch m h s = (case m s of (Inl e, s') \<Rightarrow> h e s' | (Inr x, s') \<Rightarrow> (Inr x, s'))"

definition get_field :: "('s \<Rightarrow> 'a) \<Rightarrow> ('s, 'a) eff" where
  "get_field f s = (Inr (f s), s)"

definition change :: "('s \<Rightarrow> 's) \<Rightarrow> ('s, unit) eff" where
  "change f s = (Inr (), f s)"

definition lift_res :: "'a res \<Rightarrow> ('s, 'a) eff" where
  "lift_res r s = (r, s)"

definition skip_unless :: "bool \<Rightarrow> ('s, unit) eff \<Rightarrow> ('s, unit) eff" where
  "skip_unless b m = (if b then m else ret ())"

fun for_each :: "('x \<Rightarrow> ('s, unit) eff) \<Rightarrow> 'x list \<Rightarrow> ('s, unit) eff" where
  "for_each f [] = ret ()"
| "for_each f (x # xs) = and_do (f x) (for_each f xs)"

definition triple ::
  "('s \<Rightarrow> bool) \<Rightarrow> ('s, 'a) eff \<Rightarrow> ('a \<Rightarrow> 's \<Rightarrow> bool) \<Rightarrow> ('s \<Rightarrow> bool) \<Rightarrow> bool" where
  "triple P m Q E \<longleftrightarrow>
     (\<forall>s x s'. P s \<longrightarrow> m s = (Inr x, s') \<longrightarrow> Q x s') \<and> (\<forall>s e s'. P s \<longrightarrow> m s = (Inl e, s') \<longrightarrow> E s')"

lemma tripleD_ok: "triple P m Q E \<Longrightarrow> P s \<Longrightarrow> m s = (Inr x, s') \<Longrightarrow> Q x s'"
  by (simp add: triple_def)

lemma tripleD_err: "triple P m Q E \<Longrightarrow> P s \<Longrightarrow> m s = (Inl e, s') \<Longrightarrow> E s'"
  unfolding triple_def by blast

lemma tripleI:
  "(\<And>s x s'. P s \<Longrightarrow> m s = (Inr x, s') \<Longrightarrow> Q x s') \<Longrightarrow> (\<And>s e s'. P s \<Longrightarrow> m s = (Inl e, s') \<Longrightarrow> E s')
     \<Longrightarrow> triple P m Q E"
  by (simp add: triple_def)

lemma eff_cases:
  obtains e s' where "m s = (Inl e, s')" | x s' where "m s = (Inr x, s')"
  by (cases "m s"; cases "fst (m s)") auto

lemma triple_final:
  assumes "triple P m (\<lambda>_. I) I" and "P s" shows "I (snd (m s))"
proof (cases rule: eff_cases [of m s])
  case (1 e s')
  then show ?thesis using tripleD_err [OF assms 1] by simp
next
  case (2 x s')
  then show ?thesis using tripleD_ok [OF assms 2] by simp
qed

lemma triple_conseq:
  assumes "triple P m Q E" and "\<And>s. P' s \<Longrightarrow> P s" and "\<And>x s. Q x s \<Longrightarrow> Q' x s"
    and "\<And>s. E s \<Longrightarrow> E' s"
  shows "triple P' m Q' E'"
proof (rule tripleI)
  fix s x s' assume "P' s" and run: "m s = (Inr x, s')"
  show "Q' x s'" by (rule assms(3), rule tripleD_ok [OF assms(1) assms(2) run]) fact
next
  fix s e s' assume "P' s" and run: "m s = (Inl e, s')"
  show "E' s'" by (rule assms(4), rule tripleD_err [OF assms(1) assms(2) run]) fact
qed

lemma triple_pre: "triple P m Q E \<Longrightarrow> (\<And>s. P' s \<Longrightarrow> P s) \<Longrightarrow> triple P' m Q E"
  by (rule triple_conseq)

lemma triple_post: "triple P m Q E \<Longrightarrow> (\<And>x s. Q x s \<Longrightarrow> Q' x s) \<Longrightarrow> triple P m Q' E"
  by (rule triple_conseq)

lemma triple_ret: "(\<And>s. P s \<Longrightarrow> Q x s) \<Longrightarrow> triple P (ret x) Q E"
  by (simp add: triple_def ret_def)

lemma triple_throw: "(\<And>s. P s \<Longrightarrow> E s) \<Longrightarrow> triple P (throw e) Q E"
  by (simp add: triple_def throw_def)

lemma then_do_Inr: "then_do m f s = (Inr y, s') \<longleftrightarrow> (\<exists>x t. m s = (Inr x, t) \<and> f x t = (Inr y, s'))"
  by (rule eff_cases [of m s]) (simp_all add: then_do_def)

lemma then_do_Inl:
  "then_do m f s = (Inl e, s') \<longleftrightarrow> m s = (Inl e, s') \<or> (\<exists>x t. m s = (Inr x, t) \<and> f x t = (Inl e, s'))"
  by (rule eff_cases [of m s]) (auto simp: then_do_def)

lemma triple_then_do:
  assumes "triple P m R E" and "\<And>x. triple (R x) (f x) Q E"
  shows "triple P (then_do m f) Q E"
proof (rule tripleI)
  fix s y s' assume "P s" and "then_do m f s = (Inr y, s')"
  then show "Q y s'" using assms tripleD_ok unfolding then_do_Inr by metis
next
  fix s e s' assume "P s" and "then_do m f s = (Inl e, s')"
  then show "E s'" using assms tripleD_ok tripleD_err unfolding then_do_Inl by metis
qed

lemma triple_and_do:
  "triple P m (\<lambda>_. R) E \<Longrightarrow> triple R n Q E \<Longrightarrow> triple P (and_do m n) Q E"
  unfolding and_do_def by (rule triple_then_do)

lemma catch_Inr:
  "catch m h s = (Inr y, s') \<longleftrightarrow> m s = (Inr y, s') \<or> (\<exists>e t. m s = (Inl e, t) \<and> h e t = (Inr y, s'))"
  by (rule eff_cases [of m s]) (auto simp: catch_def)

lemma catch_Inl: "catch m h s = (Inl e, s') \<longleftrightarrow> (\<exists>e' t. m s = (Inl e', t) \<and> h e' t = (Inl e, s'))"
  by (rule eff_cases [of m s]) (auto simp: catch_def)

lemma triple_catch:
  assumes "triple P m Q R" and "\<And>e. triple R (h e) Q E" shows "triple P (catch m h) Q E"
proof (rule tripleI)
  fix s y s' assume "P s" and "catch m h s = (Inr y, s')"
  then show "Q y s'" using assms tripleD_ok tripleD_err unfolding catch_Inr by metis
next
  fix s e s' assume "P s" and "catch m h s = (Inl e, s')"
  then show "E s'" using assms tripleD_err unfolding catch_Inl by metis
qed

lemma triple_get: "(\<And>s. P s \<Longrightarrow> Q (f s) s) \<Longrightarrow> triple P (get_field f) Q E"
  by (simp add: triple_def get_field_def)

lemma triple_change: "(\<And>s. P s \<Longrightarrow> Q () (f s)) \<Longrightarrow> triple P (change f) Q E"
  by (simp add: triple_def change_def)

lemma triple_lift: "(\<And>s x. P s \<Longrightarrow> r = Inr x \<Longrightarrow> Q x s) \<Longrightarrow> (\<And>s. P s \<Longrightarrow> E s) \<Longrightarrow> triple P (lift_res r) Q E"
  by (simp add: triple_def lift_res_def)

lemma triple_if:
  "(b \<Longrightarrow> triple P m Q E) \<Longrightarrow> (\<not> b \<Longrightarrow> triple P n Q E) \<Longrightarrow> triple P (if b then m else n) Q E"
  by simp

lemma triple_skip_unless:
  "(b \<Longrightarrow> triple P m Q E) \<Longrightarrow> (\<And>s. \<not> b \<Longrightarrow> P s \<Longrightarrow> Q () s) \<Longrightarrow> triple P (skip_unless b m) Q E"
  by (auto simp: skip_unless_def intro: triple_ret)

lemma triple_case_option:
  "(x = None \<Longrightarrow> triple P m Q E) \<Longrightarrow> (\<And>y. x = Some y \<Longrightarrow> triple P (n y) Q E) \<Longrightarrow>
     triple P (case x of None \<Rightarrow> m | Some y \<Rightarrow> n y) Q E"
  by (cases x) auto

lemma triple_for_each:
  "(\<And>x. x \<in> set xs \<Longrightarrow> triple I (f x) (\<lambda>_. I) E) \<Longrightarrow> triple I (for_each f xs) (\<lambda>_. I) E"
  by (induction xs) (auto intro: triple_ret triple_and_do)

text \<open>A pure fact about the state before may be used as an assumption.\<close>

lemma triple_assume:
  "(b \<Longrightarrow> triple P m Q E) \<Longrightarrow> triple (\<lambda>s. b \<and> P s) m Q E"
  by (cases b) (simp_all add: triple_def)

lemma triple_ex: "(\<And>y. triple (P y) m Q E) \<Longrightarrow> triple (\<lambda>s. \<exists>y. P y s) m Q E"
  unfolding triple_def by blast

end
