(* ===== verification/Indexer.thy ===== *)
theory Indexer
  imports Indexer_Plan Apply_Marker Effects Core_State
begin

text \<open>
  The indexer service (\<^verbatim>\<open>core-dogecoin-indexer-service.ts\<close>, class \<^verbatim>\<open>CoreDogecoinIndexerService\<close>):
  one iteration of its loop as an effectful function on the world, and runs of iterations and
  restarts.

  The world holds the metadata database, the raw block storage, the warehouse (of any type: its
  operations are the record \<open>warehouse_port\<close>) and the fields of the service object, which a
  restart resets. What the environment decides is a script in the world: every call to a store
  takes the next \<open>fault\<close>, which says whether the call completes or stops after some of its
  writes; \<open>Date.now\<close> takes the next reading of the clock; every raw sync takes the next list of
  events of the sync machine. So each theorem about all worlds is one about all failures at all
  calls, a crash being a failure followed by a restart. After a failed batch the remaining
  attempts of its round may still write; the machine lets them write before the error is
  reported. Losing the leader lease is a fault of \<open>assert_primary_lease\<close>. Log lines are left out,
  and the throughput figures among the progress values are arguments (\<open>wd_telemetry\<close>).
\<close>

section \<open>The world\<close>

text \<open>\<open>Stops n e\<close>: the call throws \<open>e\<close> after \<open>n\<close> of its writes took effect.\<close>

datatype fault = Completes | Stops nat js_error

type_synonym materialization_progress = "int \<times> int"

record 'w warehouse_port =
  wp_apply :: "fault \<Rightarrow> core_block_application list \<Rightarrow> bool \<Rightarrow> 'w \<Rightarrow> core_apply_result res \<times> 'w"
  wp_recover :: "fault \<Rightarrow> int \<Rightarrow> bool \<Rightarrow> 'w \<Rightarrow> unit res \<times> 'w"
  wp_processed_tail :: "('w \<Rightarrow> int option) option"
  wp_materialize :: "fault \<Rightarrow> int \<Rightarrow> materialization_progress option \<Rightarrow> 'w
    \<Rightarrow> (materialization_progress option \<times> 'w) list \<times> unit res \<times> 'w"

record telemetry =
  tm_sync_blocks_per_second :: json
  tm_sync_eta_seconds :: json
  tm_process_blocks_per_second :: json
  tm_process_eta_seconds :: json
  tm_last_activity_at :: json

record 'w world =
  wd_state :: "core_indexer_state option"
  wd_configs :: app_config
  wd_raw_parts :: "(int, json) js_map"
  wd_core_blocks :: "(int, core_block_record) js_map"
  wd_transaction_refs :: "transaction_ref list"
  wd_warehouse :: 'w
  wd_tail_reconciled :: bool
  wd_refs_ready :: bool
  wd_target_rows :: "int option"
  wd_node_retry_at :: int
  wd_observation :: "progress_observation option"
  wd_last_activity :: int
  wd_last_heartbeat :: int
  wd_controller :: concurrency_controller
  wd_telemetry :: telemetry
  wd_script :: "fault list"
  wd_clock :: "int list"
  wd_syncs :: "sync_event list list"

type_synonym ('w, 'a) io = "('w world, 'a) eff"

record 'w indexer =
  ix_settings :: core_settings
  ix_port :: "'w warehouse_port"
  ix_instance_id :: string
  ix_chain :: string
  ix_now_text :: string

text \<open>
  What the outside answers to one iteration: the block height of the node, and the snapshot that
  the read-ahead resolves for a source and a height.
\<close>

record iteration =
  it_latest :: "int res"
  it_block :: "core_window_source \<Rightarrow> int \<Rightarrow> json res"

section \<open>Calls to the stores\<close>

definition next_fault :: "('w, fault) io" where
  "next_fault w = (case wd_script w of
     [] \<Rightarrow> (Inr Completes, w) | ft # fts \<Rightarrow> (Inr ft, w\<lparr>wd_script := fts\<rparr>))"

definition now_ms :: "('w, int) io" where
  "now_ms w = (case wd_clock w of [] \<Rightarrow> (Inr 0, w) | t # ts \<Rightarrow> (Inr t, w\<lparr>wd_clock := ts\<rparr>))"

definition next_sync :: "('w, sync_event list) io" where
  "next_sync w = (case wd_syncs w of [] \<Rightarrow> (Inr [], w) | es # ess \<Rightarrow> (Inr es, w\<lparr>wd_syncs := ess\<rparr>))"

definition store_read :: "('w world \<Rightarrow> 'a) \<Rightarrow> ('w, 'a) io" where
  "store_read f = then_do next_fault (\<lambda>ft.
     case ft of Completes \<Rightarrow> get_field f | Stops n e \<Rightarrow> throw e)"

definition store_write :: "('w world \<Rightarrow> 'w world) \<Rightarrow> ('w, unit) io" where
  "store_write f = then_do next_fault (\<lambda>ft.
     case ft of Completes \<Rightarrow> change f
     | Stops n e \<Rightarrow> if n = 0 then throw e else and_do (change f) (throw e))"

definition get_config :: "string \<Rightarrow> ('w, json) io" where
  "get_config key = store_read (\<lambda>w. get_json_value key (wd_configs w))"

definition get_flag :: "string \<Rightarrow> ('w, bool) io" where
  "get_flag key = then_do (get_config key) (\<lambda>v. ret (v = JBool True))"

definition set_config :: "string \<Rightarrow> json \<Rightarrow> ('w, unit) io" where
  "set_config key v = store_write (\<lambda>w. w\<lparr>wd_configs := set_json_value key v (wd_configs w)\<rparr>)"

definition set_configs :: "(string \<times> json) list \<Rightarrow> ('w, unit) io" where
  "set_configs entries = store_write (\<lambda>w. w\<lparr>wd_configs := set_json_values entries (wd_configs w)\<rparr>)"

definition compare_and_delete_config :: "string \<Rightarrow> json \<Rightarrow> ('w, bool) io" where
  "compare_and_delete_config key expected =
     then_do (get_field (\<lambda>w. fst (compare_and_delete_json_value key expected (wd_configs w)))) (\<lambda>deleted.
     and_do (store_write (\<lambda>w. w\<lparr>wd_configs := snd (compare_and_delete_json_value key expected (wd_configs w))\<rparr>))
       (ret deleted))"

definition upsert_state :: "core_indexer_state_update \<Rightarrow> ('w, core_indexer_state) io" where
  "upsert_state u =
     then_do (get_field (\<lambda>w. upsert_core_indexer_state u (wd_state w))) (\<lambda>s.
     and_do (store_write (\<lambda>w. w\<lparr>wd_state := Some s\<rparr>)) (ret s))"

definition set_error :: "string \<Rightarrow> ('w, unit) io" where
  "set_error message =
     and_do (upsert_state (no_update\<lparr>up_last_error := Some (Some message)\<rparr>)) (ret ())"

definition warehouse_call :: "('w \<Rightarrow> 'a res \<times> 'w) \<Rightarrow> ('w, 'a) io" where
  "warehouse_call f w = (let (r, wh) = f (wd_warehouse w) in (r, w\<lparr>wd_warehouse := wh\<rparr>))"

definition apply_window :: "'w indexer \<Rightarrow> core_block_application list \<Rightarrow> bool \<Rightarrow> ('w, core_apply_result) io" where
  "apply_window ix apps update =
     then_do next_fault (\<lambda>ft. warehouse_call (wp_apply (ix_port ix) ft apps update))"

definition recover_window :: "'w indexer \<Rightarrow> int \<Rightarrow> bool \<Rightarrow> ('w, unit) io" where
  "recover_window ix from update =
     then_do next_fault (\<lambda>ft. warehouse_call (wp_recover (ix_port ix) ft from update))"

definition assert_primary_lease :: "('w, unit) io" where
  "assert_primary_lease = then_do next_fault (\<lambda>ft.
     case ft of Completes \<Rightarrow> ret () | Stops n e \<Rightarrow> throw PrimaryLeaseLostError)"

definition record_activity :: "('w, unit) io" where
  "record_activity = then_do now_ms (\<lambda>t. change (\<lambda>w. w\<lparr>wd_last_activity := t\<rparr>))"

text \<open>\<^verbatim>\<open>then\<close> and \<^verbatim>\<open>catch\<close> of a promise: the outcome as a value.\<close>

definition outcome :: "('w, 'a) io \<Rightarrow> ('w, 'a res) io" where
  "outcome m w = (case m w of (r, w') \<Rightarrow> (Inr r, w'))"

fun thrown_message :: "js_error \<Rightarrow> string" where
  "thrown_message (OnlyDogeError m _) = m"
| "thrown_message (ValidationError m) = m"
| "thrown_message (ConflictError m) = m"
| "thrown_message (UnauthorizedError m) = m"
| "thrown_message (ForbiddenError m) = m"
| "thrown_message (NotFoundError m) = m"
| "thrown_message (TooEarlyError m) = m"
| "thrown_message (InfrastructureError m) = m"
| "thrown_message (MissingCoreCurrentPrevoutError key) = ''missing current dogecoin prevout: '' @ key"
| "thrown_message PrimaryLeaseLostError = ''core indexer primary lease lost''"
| "thrown_message (CoreBlockTimeoutError step ms) =
     ''core block step timed out step='' @ step @ '' timeout_ms='' @ int_str ms"
| "thrown_message (ProcessExit n) = []"
| "thrown_message (GenericError m) = m"
| "thrown_message (TypeError m) = m"
| "thrown_message (SyntaxError m) = m"
| "thrown_message (RangeError m) = m"
| "thrown_message (OutsideModel m) = m"

section \<open>Progress\<close>

definition js_rat :: "rat \<Rightarrow> js_num" where
  "js_rat q = (if snd (quotient_of q) = 1 then JInt (fst (quotient_of q)) else JDec q)"

definition json_int :: "int \<Rightarrow> json" where
  "json_int i = JNum (JInt i)"

definition is_dogecoin_history_ready :: "('w, bool) io" where
  "is_dogecoin_history_ready = get_flag config_key_dogecoin_history_ready"

definition is_dogecoin_analytics_facts_ready :: "('w, bool) io" where
  "is_dogecoin_analytics_facts_ready = get_flag config_key_dogecoin_analytics_facts_ready"

definition is_dogecoin_current_state_ready :: "('w, bool) io" where
  "is_dogecoin_current_state_ready = get_flag config_key_dogecoin_current_state_ready"

definition progress_entries ::
  "int \<Rightarrow> telemetry \<Rightarrow> int \<Rightarrow> core_indexer_state \<Rightarrow> bool \<Rightarrow> bool \<Rightarrow> (string \<times> json) list" where
  "progress_entries depth tm latest s history_ready analytics_ready =
     [(config_key_block_height, json_int latest),
      (config_key_indexer_stage, JStr (stage_str (cs_stage s))),
      (config_key_indexer_sync_tail, json_int (cs_sync_tail s)),
      (config_key_indexer_process_tail, json_int (cs_process_tail s)),
      (config_key_indexer_finalized_tail, json_int (finalized_tail (cs_process_tail s) depth)),
      (config_key_indexer_reprocess_depth, json_int depth),
      (config_key_indexer_sync_progress, JNum (js_rat (to_progress (cs_sync_tail s) latest))),
      (config_key_indexer_process_progress, JNum (js_rat (to_progress (cs_process_tail s) latest))),
      (config_key_indexer_sync_blocks_per_second, tm_sync_blocks_per_second tm),
      (config_key_indexer_sync_eta_seconds, tm_sync_eta_seconds tm),
      (config_key_indexer_process_blocks_per_second, tm_process_blocks_per_second tm),
      (config_key_indexer_process_eta_seconds, tm_process_eta_seconds tm),
      (config_key_indexer_last_activity_at, tm_last_activity_at tm)]
     @ (if history_ready
        then [(config_key_indexer_fact_tail, json_int (cs_process_tail s)),
              (config_key_indexer_fact_progress, JNum (js_rat (to_progress (cs_process_tail s) latest)))]
        else [])
     @ (if analytics_ready
        then [(config_key_dogecoin_analytics_facts_tail, json_int (finalized_tail (cs_process_tail s) depth))]
        else [])"

definition observe :: "core_indexer_state \<Rightarrow> ('w, progress_observation) io" where
  "observe s =
     then_do now_ms (\<lambda>t.
     then_do (get_field (\<lambda>w. observe_progress t s (wd_observation w))) (\<lambda>p.
     and_do (change (\<lambda>w. w\<lparr>wd_observation := Some p\<rparr>)) (ret p)))"

definition publish_progress :: "'w indexer \<Rightarrow> int \<Rightarrow> core_indexer_state \<Rightarrow> ('w, unit) io" where
  "publish_progress ix latest s =
     then_do is_dogecoin_history_ready (\<lambda>history_ready.
     then_do is_dogecoin_analytics_facts_ready (\<lambda>analytics_ready.
     and_do assert_primary_lease (
     then_do (get_field wd_telemetry) (\<lambda>tm.
     and_do (set_configs (progress_entries (se_reprocess_depth (ix_settings ix)) tm latest s
              history_ready analytics_ready))
       (and_do (observe s) (ret ()))))))"

text \<open>\<^verbatim>\<open>process.exit(1)\<close> after the message has been recorded.\<close>

definition exit_process :: "string \<Rightarrow> ('w, 'a) io" where
  "exit_process message = and_do (set_error message) (throw (ProcessExit 1))"

definition assert_progress_watchdog :: "'w indexer \<Rightarrow> int \<Rightarrow> core_indexer_state \<Rightarrow> ('w, unit) io" where
  "assert_progress_watchdog ix latest s =
     then_do (if cs_stage s \<noteq> Online then ret False else is_dogecoin_current_state_ready) (\<lambda>skip.
     if skip then ret ()
     else
       then_do (observe s) (\<lambda>observation.
       then_do now_ms (\<lambda>now.
       then_do (get_field wd_last_activity) (\<lambda>last_activity.
       case core_progress_backlog_age_ms now s latest (se_sync_complete_distance (ix_settings ix))
              observation last_activity of
         None \<Rightarrow> ret ()
       | Some age \<Rightarrow>
           if is_fresh_progress_age (Some age) (se_progress_watchdog_ms (ix_settings ix)) then ret ()
           else exit_process (''core progress watchdog expired chain='' @ ix_chain ix @ '' stage=''
             @ stage_str (cs_stage s) @ '' sync_tail='' @ int_str (cs_sync_tail s)
             @ '' process_tail='' @ int_str (cs_process_tail s) @ '' age_ms='' @ int_str age)))))"

section \<open>Raw sync\<close>

text \<open>
  What an attempt writes: the parts whose \<^verbatim>\<open>putPart\<close> succeeded, also when the attempt fails
  later; the block records when all of its snapshots are stored; the references when the records
  are.
\<close>

definition attempt_parts :: "batch_answers \<Rightarrow> int list \<Rightarrow> (int \<times> json) list" where
  "attempt_parts an batch =
     (case an_snapshots an of
        Inl e \<Rightarrow> []
      | Inr snapshots \<Rightarrow>
          if length snapshots \<noteq> length batch then []
          else filter (\<lambda>p. is_ok (store_snapshot an p)) (zip batch snapshots))"

definition attempt_stored :: "batch_answers \<Rightarrow> int list \<Rightarrow> stored_raw_block list" where
  "attempt_stored an batch =
     (case an_snapshots an of
        Inl e \<Rightarrow> []
      | Inr snapshots \<Rightarrow>
          if length snapshots \<noteq> length batch then []
          else (case map_res (store_snapshot an) (zip batch snapshots) of Inl e \<Rightarrow> [] | Inr stored \<Rightarrow> stored))"

definition store_attempt :: "batch_answers \<Rightarrow> int list \<Rightarrow> 'w world \<Rightarrow> 'w world" where
  "store_attempt an batch w =
     (let stored = attempt_stored an batch; records_done = is_ok (an_upsert_core_blocks an) in
      w\<lparr>wd_raw_parts := fold (\<lambda>(h, part). js_set h part) (attempt_parts an batch) (wd_raw_parts w),
        wd_core_blocks :=
          (if records_done
           then fold (\<lambda>s. js_set (cb_block_height (sr_record s)) (sr_record s)) stored (wd_core_blocks w)
           else wd_core_blocks w),
        wd_transaction_refs :=
          (if records_done \<and> is_ok (an_upsert_refs an)
           then wd_transaction_refs w @ concat (map sr_refs stored) else wd_transaction_refs w)\<rparr>)"

text \<open>
  The loop of \<^verbatim>\<open>sync\<close> under a list of events. An event that the loop is not ready for is skipped;
  when the events are used up before the loop has ended, the process has died.
\<close>

fun drive_sync ::
  "sync_settings \<Rightarrow> (int \<Rightarrow> ('w, unit) io) \<Rightarrow> sync_event list \<Rightarrow> sync_state \<Rightarrow> ('w, sync_state) io" where
  "drive_sync st hook [] s =
     and_do (change (\<lambda>w. w\<lparr>wd_controller := sy_controller s\<rparr>))
       (if sync_finished s then ret s
        else case sy_error s of Some e \<Rightarrow> throw e | None \<Rightarrow> throw (ProcessExit 0))"
| "drive_sync st hook (Round_Start active # es) s =
     (if sync_step st (Round_Start active) s = None then drive_sync st hook es s
      else then_do (outcome assert_primary_lease) (\<lambda>r.
        drive_sync st hook es (the (sync_step st (Round_Start r) s))))"
| "drive_sync st hook (Attempt i an # es) s =
     (case sync_step st (Attempt i an) s of
        None \<Rightarrow> drive_sync st hook es s
      | Some s' \<Rightarrow>
          and_do (change (store_attempt an (fst (sy_running s ! i))))
            (and_do record_activity (drive_sync st hook es s')))"
| "drive_sync st hook (Round_End checkpoint # es) s =
     (if sync_step st (Round_End checkpoint) s = None then drive_sync st hook es s
      else if sy_checkpoints (end_round (Inr ()) s) = sy_checkpoints s
      then drive_sync st hook es (end_round (Inr ()) s)
      else then_do (outcome (hook (last (sy_checkpoints (end_round (Inr ()) s))))) (\<lambda>r.
        drive_sync st hook es (end_round r s)))"

definition store_raw_block_heights ::
  "'w indexer \<Rightarrow> int list \<Rightarrow> (int \<Rightarrow> ('w, unit) io) \<Rightarrow> ('w, sync_state) io" where
  "store_raw_block_heights ix heights hook =
     then_do next_sync (\<lambda>es.
     then_do (get_field wd_controller) (\<lambda>c.
     (let st = sync_settings_of (ix_settings ix) in drive_sync st hook es (sync_start st c heights))))"

text \<open>
  \<^verbatim>\<open>checkpointSyncTail\<close>: the method advances its copy of the state with the frontier, and the
  frontiers it is called with increase, so comparing with the tail at the start is the same.
\<close>

definition checkpoint_sync_tail ::
  "int \<Rightarrow> core_indexer_state \<Rightarrow> core_indexer_stage \<Rightarrow> int \<Rightarrow> ('w, unit) io" where
  "checkpoint_sync_tail latest s stage frontier =
     (if frontier \<le> cs_sync_tail s then ret ()
      else
        and_do assert_primary_lease (
        then_do (upsert_state \<lparr>up_last_error = Some None, up_online_tip = Some latest,
                   up_process_tail = None, up_stage = Some stage, up_sync_tail = Some frontier\<rparr>) (\<lambda>s'.
        and_do (observe s') (ret ()))))"

definition sync_raw_block_heights ::
  "'w indexer \<Rightarrow> int \<Rightarrow> core_indexer_state \<Rightarrow> int list \<Rightarrow> int \<Rightarrow> core_indexer_stage \<Rightarrow> ('w, bool) io" where
  "sync_raw_block_heights ix latest s heights sync_tail stage =
     and_do (store_raw_block_heights ix heights (checkpoint_sync_tail latest s stage)) (
     and_do assert_primary_lease (
     then_do (upsert_state \<lparr>up_last_error = Some None, up_online_tip = Some latest,
                up_process_tail = None, up_stage = Some stage, up_sync_tail = Some sync_tail\<rparr>) (\<lambda>s'.
     and_do (publish_progress ix latest s') (ret True))))"

definition sync_raw_block_window ::
  "'w indexer \<Rightarrow> int \<Rightarrow> core_indexer_state \<Rightarrow> int \<Rightarrow> core_indexer_stage \<Rightarrow> ('w, bool) io" where
  "sync_raw_block_window ix latest s end' stage =
     sync_raw_block_heights ix latest s (range_of (cs_sync_tail s + 1) end') end' stage"

definition sync_backfill :: "'w indexer \<Rightarrow> int \<Rightarrow> core_indexer_state \<Rightarrow> ('w, bool) io" where
  "sync_backfill ix latest s =
     (if should_promote_to_process_backfill s latest (se_sync_complete_distance (ix_settings ix))
      then
        and_do (upsert_state (no_update\<lparr>up_stage := Some Process_Backfill, up_online_tip := Some latest\<rparr>)) (
        and_do (set_config config_key_indexer_stage (JStr (stage_str Process_Backfill))) (ret True))
      else sync_raw_block_window ix latest s
             (min latest (cs_sync_tail s + se_sync_window (ix_settings ix))) Sync_Backfill)"

section \<open>Processing a window\<close>

text \<open>
  \<^verbatim>\<open>runCoreBlockStep\<close>: the deadline is a fault too; when it strikes, the work may have been done
  or not, and its result is dropped.
\<close>

definition run_core_block_step :: "'w indexer \<Rightarrow> string \<Rightarrow> ('w, 'a) io \<Rightarrow> ('w, int \<times> 'a) io" where
  "run_core_block_step ix step work =
     and_do assert_primary_lease (
     then_do now_ms (\<lambda>started.
     then_do next_fault (\<lambda>ft.
     case ft of
       Stops n e \<Rightarrow>
         and_do (if n = 0 then ret () else and_do (outcome work) (ret ()))
           (throw (CoreBlockTimeoutError step (se_block_timeout_ms (ix_settings ix))))
     | Completes \<Rightarrow>
         then_do work (\<lambda>result.
         and_do record_activity (
         and_do assert_primary_lease (
         then_do now_ms (\<lambda>ended. ret (ended - started, result))))))))"

definition exit_for_core_block_timeout :: "'w indexer \<Rightarrow> js_error \<Rightarrow> int \<Rightarrow> ('w, unit) io" where
  "exit_for_core_block_timeout ix e height =
     (case e of
        CoreBlockTimeoutError step ms \<Rightarrow>
          exit_process (''core block timed out chain='' @ ix_chain ix @ '' height='' @ int_str height
            @ '' active_step='' @ step @ '' timeout_ms='' @ int_str ms)
      | _ \<Rightarrow> ret ())"

definition load_raw_snapshot :: "'w indexer \<Rightarrow> int \<Rightarrow> ('w, json) io" where
  "load_raw_snapshot ix height =
     then_do (store_read (\<lambda>w. js_get (wd_raw_parts w) height)) (\<lambda>part.
     case part of
       None \<Rightarrow> throw (GenericError (''missing raw dogecoin block snapshot chain='' @ ix_chain ix
                 @ '' height='' @ int_str height))
     | Some snapshot \<Rightarrow> ret snapshot)"

fun load_raw_snapshots :: "'w indexer \<Rightarrow> int list \<Rightarrow> ('w, json list) io" where
  "load_raw_snapshots ix [] = ret []"
| "load_raw_snapshots ix (h # hs) =
     then_do (load_raw_snapshot ix h) (\<lambda>s. then_do (load_raw_snapshots ix hs) (\<lambda>ss. ret (s # ss)))"

definition current_backfill_target_rows :: "core_settings \<Rightarrow> int option \<Rightarrow> int option" where
  "current_backfill_target_rows st target =
     (case se_backfill_window_rows st of
        None \<Rightarrow> None
      | Some configured \<Rightarrow>
          Some (min configured (case target of None \<Rightarrow> configured | Some rows \<Rightarrow> rows)))"

definition adapt_backfill_target_rows :: "'w indexer \<Rightarrow> int option \<Rightarrow> ('w, unit) io" where
  "adapt_backfill_target_rows ix apply_ms =
     (case se_backfill_window_rows (ix_settings ix) of
        None \<Rightarrow> ret ()
      | Some configured \<Rightarrow> change (\<lambda>w. w\<lparr>wd_target_rows :=
          (let current = min configured (case wd_target_rows w of None \<Rightarrow> configured | Some rows \<Rightarrow> rows) in
           Some (next_backfill_target_rows current configured apply_ms
                  (se_db_statement_timeout_ms (ix_settings ix))))\<rparr>))"

text \<open>The loop of \<^verbatim>\<open>fillBackfillWindow\<close>; no target stands for infinity.\<close>

fun fill_from ::
  "(int \<Rightarrow> json res) \<Rightarrow> int option \<Rightarrow> int \<Rightarrow> int list \<Rightarrow> int \<Rightarrow> ('w, json list) io" where
  "fill_from block target deadline [] rows = ret []"
| "fill_from block target deadline (h # hs) rows =
     then_do (lift_res (block h)) (\<lambda>snapshot.
     and_do record_activity (
     then_do now_ms (\<lambda>now.
     let rows' = rows + core_snapshot_row_count snapshot in
     if (case target of None \<Rightarrow> False | Some t \<Rightarrow> t \<le> rows') \<or> deadline \<le> now then ret [snapshot]
     else then_do (fill_from block target deadline hs rows') (\<lambda>rest. ret (snapshot # rest)))))"

definition backfill_window_max_fill_ms :: int where
  "backfill_window_max_fill_ms = 10000"

definition node_source_retry_delay_ms :: int where
  "node_source_retry_delay_ms = 60000"

definition fill_backfill_window ::
  "'w indexer \<Rightarrow> iteration \<Rightarrow> window_plan \<Rightarrow> core_window_source \<Rightarrow> ('w, json list) io" where
  "fill_backfill_window ix it p source =
     then_do (get_field wd_target_rows) (\<lambda>target.
     then_do now_ms (\<lambda>now.
     fill_from (it_block it source) (current_backfill_target_rows (ix_settings ix) target)
       (now + backfill_window_max_fill_ms) (range_of (pl_first_height p) (pl_last_height p)) 0))"

definition should_fall_back_to_storage :: "'w indexer \<Rightarrow> core_window_source \<Rightarrow> js_error \<Rightarrow> bool" where
  "should_fall_back_to_storage ix source e \<longleftrightarrow> source = Node
     \<and> se_backfill_block_source (ix_settings ix) = Some Auto \<and> e \<noteq> PrimaryLeaseLostError"

definition load_backfill_snapshots ::
  "'w indexer \<Rightarrow> iteration \<Rightarrow> window_plan \<Rightarrow> ('w, json list) io" where
  "load_backfill_snapshots ix it p =
     catch (fill_backfill_window ix it p (pl_source p)) (\<lambda>e.
     if \<not> should_fall_back_to_storage ix (pl_source p) e then throw e
     else
       then_do now_ms (\<lambda>now.
       and_do (change (\<lambda>w. w\<lparr>wd_node_retry_at := now + node_source_retry_delay_ms\<rparr>))
         (fill_backfill_window ix it p Storage)))"

text \<open>The result of a window as far as the state depends on it.\<close>

record window_metrics =
  wm_applied :: bool
  wm_apply_ms :: int
  wm_end :: int

definition apply_window_applications ::
  "'w indexer \<Rightarrow> core_block_application list \<Rightarrow> bool \<Rightarrow> ('w, int \<times> core_apply_result) io" where
  "apply_window_applications ix apps update =
     run_core_block_step ix ''apply_state'' (apply_window ix apps update)"

definition clear_core_apply_recovery_marker :: "apply_marker \<Rightarrow> ('w, unit) io" where
  "clear_core_apply_recovery_marker m =
     then_do (compare_and_delete_config config_key_core_apply_recovery (marker_json m)) (\<lambda>cleared.
     if cleared then ret ()
     else throw (GenericError (''core apply recovery marker changed during apply instance=''
            @ rm_instance_id m @ '' window='' @ int_str (rm_start_height m) @ ''-''
            @ int_str (rm_end_height m))))"

definition window_marker :: "'w indexer \<Rightarrow> core_block_application list \<Rightarrow> bool \<Rightarrow> apply_marker" where
  "window_marker ix apps update =
     create_core_apply_recovery_marker (ix_instance_id ix) (ca_block_height (hd apps))
       (ca_block_height (last apps)) (map ca_block_hash apps) update (ix_now_text ix)"

definition apply_window_applications_with_recovery ::
  "'w indexer \<Rightarrow> core_block_application list \<Rightarrow> bool \<Rightarrow> ('w, int \<times> core_apply_result) io" where
  "apply_window_applications_with_recovery ix apps update =
     (if apps = [] then apply_window_applications ix apps update
      else
        and_do (set_config config_key_core_apply_recovery (marker_json (window_marker ix apps update))) (
        catch
          (then_do (apply_window_applications ix apps update) (\<lambda>applied.
           and_do (clear_core_apply_recovery_marker (window_marker ix apps update)) (ret applied)))
          (\<lambda>e. and_do (adapt_backfill_target_rows ix None) (throw e))))"

definition process_window_with_attempt ::
  "'w indexer \<Rightarrow> ('w, json list) io \<Rightarrow> bool \<Rightarrow> ('w, window_metrics) io" where
  "process_window_with_attempt ix load update =
     then_do (run_core_block_step ix ''load_raw'' load) (\<lambda>(_, snapshots).
     then_do (run_core_block_step ix ''build_application''
               (lift_res (build_fast_core_dogecoin_block_applications snapshots))) (\<lambda>(_, apps).
     then_do (apply_window_applications_with_recovery ix apps update) (\<lambda>(ms, r).
     ret \<lparr>wm_applied = ar_applied r, wm_apply_ms = ms, wm_end = ar_process_tail r\<rparr>)))"

definition process_window ::
  "'w indexer \<Rightarrow> ('w, json list) io \<Rightarrow> int \<Rightarrow> bool \<Rightarrow> ('w, window_metrics) io" where
  "process_window ix load last_height update =
     catch (process_window_with_attempt ix load update)
       (\<lambda>e. and_do (exit_for_core_block_timeout ix e last_height) (throw e))"

definition publish_window_progress ::
  "'w indexer \<Rightarrow> int \<Rightarrow> window_metrics \<Rightarrow> core_indexer_stage \<Rightarrow> ('w, unit) io" where
  "publish_window_progress ix latest m stage =
     catch
       (and_do
         (run_core_block_step ix ''publish_progress''
           (then_do (upsert_state \<lparr>up_last_error = Some None, up_online_tip = Some latest,
                       up_process_tail = Some (wm_end m), up_stage = Some stage, up_sync_tail = None\<rparr>) (\<lambda>s.
            and_do (publish_progress ix latest s) (ret s))))
         (ret ()))
       (\<lambda>e. and_do (exit_for_core_block_timeout ix e (wm_end m)) (throw e))"

definition process_backfill_window ::
  "'w indexer \<Rightarrow> iteration \<Rightarrow> int \<Rightarrow> core_indexer_state \<Rightarrow> bool \<Rightarrow> ('w, bool) io" where
  "process_backfill_window ix it latest s ready =
     then_do now_ms (\<lambda>now.
     then_do (get_field wd_node_retry_at) (\<lambda>retry_at.
     let p = plan_backfill_window (ix_settings ix) now retry_at latest s in
     then_do (process_window ix (load_backfill_snapshots ix it p) (pl_last_height p) ready) (\<lambda>m.
     and_do (adapt_backfill_target_rows ix (Some (wm_apply_ms m))) (
     and_do (publish_window_progress ix latest m Process_Backfill) (ret True)))))"

section \<open>Materialising the current state\<close>

definition materialization_heartbeat_ms :: int where
  "materialization_heartbeat_ms = 30000"

definition materialization_heartbeat :: "int \<Rightarrow> ('w, unit) io" where
  "materialization_heartbeat latest =
     and_do record_activity (
     and_do assert_primary_lease (
     then_do now_ms (\<lambda>now.
     then_do (get_field wd_last_heartbeat) (\<lambda>last_beat.
     if now - last_beat < materialization_heartbeat_ms then ret ()
     else
       then_do now_ms (\<lambda>beat.
       and_do (change (\<lambda>w. w\<lparr>wd_last_heartbeat := beat\<rparr>)) (
       and_do (upsert_state (no_update\<lparr>up_online_tip := Some latest, up_last_error := Some None\<rparr>))
         (ret ())))))))"

definition materialization_checkpoint :: "int \<Rightarrow> materialization_progress \<Rightarrow> json" where
  "materialization_checkpoint as_of p = JObj
     [(''asOfBlockHeight'', json_int as_of), (''completedRanges'', json_int (fst p)),
      (''rangeCount'', json_int (snd p))]"

definition materialization_resume_point :: "int \<Rightarrow> json \<Rightarrow> materialization_progress option" where
  "materialization_resume_point as_of checkpoint =
     (if own_prop checkpoint ''asOfBlockHeight'' \<noteq> json_int as_of then None
      else case (own_prop checkpoint ''completedRanges'', own_prop checkpoint ''rangeCount'') of
        (JNum (JInt c), JNum (JInt n)) \<Rightarrow> Some (c, n)
      | _ \<Rightarrow> None)"

text \<open>
  \<^verbatim>\<open>ClickHouseCoreDogecoinStateStore.materializeCoreDogecoinCurrentState\<close>
  (\<^verbatim>\<open>platform/src/core-dogecoin-state-store.ts\<close>) with the callbacks of the indexer: after each
  range the warehouse reports its progress, which is checkpointed; in the later phases it only
  shows a sign of life (\<open>None\<close>). The writes of a \<^verbatim>\<open>Promise.all\<close> are made one after the other.
\<close>

definition materialization_range ::
  "int \<Rightarrow> int \<Rightarrow> materialization_progress option \<times> 'w \<Rightarrow> ('w, unit) io" where
  "materialization_range latest as_of = (\<lambda>(p, wh).
     and_do (change (\<lambda>w. w\<lparr>wd_warehouse := wh\<rparr>)) (
     and_do (case p of
               None \<Rightarrow> ret ()
             | Some progress \<Rightarrow> set_configs [(config_key_dogecoin_current_state_materialization,
                                 materialization_checkpoint as_of progress)])
       (materialization_heartbeat latest)))"

definition materialize_current_state :: "'w indexer \<Rightarrow> int \<Rightarrow> int \<Rightarrow> ('w, unit) io" where
  "materialize_current_state ix latest as_of =
     then_do (get_config config_key_dogecoin_current_state_materialization) (\<lambda>checkpoint.
     then_do next_fault (\<lambda>ft.
     then_do (get_field (\<lambda>w. wp_materialize (ix_port ix) ft as_of
                (materialization_resume_point as_of checkpoint) (wd_warehouse w))) (\<lambda>(ranges, r, wh).
     and_do (for_each (materialization_range latest as_of) ranges) (
     and_do (change (\<lambda>w. w\<lparr>wd_warehouse := wh\<rparr>)) (
     and_do (lift_res r) (
     and_do (set_config config_key_dogecoin_current_state_ready (JBool True)) (
     and_do (set_config config_key_dogecoin_history_ready (JBool False))
       (store_write (\<lambda>w. w\<lparr>wd_configs :=
          delete_by_prefix config_key_dogecoin_current_state_materialization (wd_configs w)\<rparr>)))))))))"

definition materialize_current_state_if_needed ::
  "'w indexer \<Rightarrow> int \<Rightarrow> core_indexer_state \<Rightarrow> bool \<Rightarrow> ('w, unit) io" where
  "materialize_current_state_if_needed ix latest s ready =
     (if ready then ret () else materialize_current_state ix latest (cs_process_tail s))"

section \<open>The stages\<close>

definition should_promote_backfill ::
  "'w indexer \<Rightarrow> int \<Rightarrow> core_indexer_state \<Rightarrow> bool \<Rightarrow> ('w, bool) io" where
  "should_promote_backfill ix latest s ready =
     (if latest - se_online_tip_distance (ix_settings ix) \<le> cs_process_tail s then ret True
      else if ready then ret False
      else
        then_do (get_config config_key_dogecoin_current_state_materialization) (\<lambda>pending.
        ret (own_prop pending ''asOfBlockHeight'' = json_int (cs_process_tail s))))"

definition promote_backfill_to_online ::
  "'w indexer \<Rightarrow> int \<Rightarrow> core_indexer_state \<Rightarrow> bool \<Rightarrow> ('w, unit) io" where
  "promote_backfill_to_online ix latest s ready =
     and_do (materialize_current_state_if_needed ix latest s ready) (
     and_do (upsert_state (no_update\<lparr>up_stage := Some Online, up_online_tip := Some latest,
               up_last_error := Some None\<rparr>)) (
     and_do (set_config config_key_indexer_stage (JStr (stage_str Online))) (
     and_do (set_config config_key_dogecoin_history_ready (JBool True)) (
     and_do (set_config config_key_indexer_fact_tail (json_int (cs_process_tail s)))
       (set_config config_key_indexer_fact_progress
         (JNum (js_rat (to_progress (cs_process_tail s) latest))))))))"

definition return_backfill_to_sync :: "int \<Rightarrow> ('w, unit) io" where
  "return_backfill_to_sync latest =
     and_do (upsert_state (no_update\<lparr>up_stage := Some Sync_Backfill, up_online_tip := Some latest\<rparr>))
       (set_config config_key_indexer_stage (JStr (stage_str Sync_Backfill)))"

definition transition_completed_backfill ::
  "'w indexer \<Rightarrow> int \<Rightarrow> core_indexer_state \<Rightarrow> bool \<Rightarrow> ('w, bool) io" where
  "transition_completed_backfill ix latest s ready =
     then_do (should_promote_backfill ix latest s ready) (\<lambda>promote.
     and_do (if promote then promote_backfill_to_online ix latest s ready
             else return_backfill_to_sync latest) (ret True))"

definition process_backfill ::
  "'w indexer \<Rightarrow> iteration \<Rightarrow> int \<Rightarrow> core_indexer_state \<Rightarrow> ('w, bool) io" where
  "process_backfill ix it latest s =
     then_do is_dogecoin_current_state_ready (\<lambda>ready.
     if cs_sync_tail s \<le> cs_process_tail s then transition_completed_backfill ix latest s ready
     else process_backfill_window ix it latest s ready)"

definition sync_online_backlog_if_needed ::
  "'w indexer \<Rightarrow> int \<Rightarrow> core_indexer_state \<Rightarrow> int \<Rightarrow> ('w, bool) io" where
  "sync_online_backlog_if_needed ix latest s sync_end =
     (if sync_end \<le> cs_sync_tail s \<and> \<not> should_refresh_online_reprocess_window s latest then ret False
      else
        (let start = online_raw_refresh_start s sync_end (se_reprocess_depth (ix_settings ix)) in
         and_do (sync_raw_block_heights ix latest s (range_of start sync_end) sync_end Online)
           (ret True)))"

definition refreshed_online_backlog_state :: "core_indexer_state \<Rightarrow> int \<Rightarrow> ('w, core_indexer_state) io" where
  "refreshed_online_backlog_state s sync_end =
     then_do (store_read wd_state) (\<lambda>refreshed.
     ret (case refreshed of Some s' \<Rightarrow> s' | None \<Rightarrow> s\<lparr>cs_sync_tail := sync_end\<rparr>))"

definition process_online_window ::
  "'w indexer \<Rightarrow> int \<Rightarrow> core_indexer_state \<Rightarrow> int \<Rightarrow> bool \<Rightarrow> ('w, bool) io" where
  "process_online_window ix latest s target ready =
     (let heights = online_process_heights (cs_process_tail s) target
            (se_reprocess_depth (ix_settings ix)) (se_process_window (ix_settings ix)) in
      and_do (store_raw_block_heights ix heights (\<lambda>_. ret ())) (
      then_do (lift_res (require_core_process_window_bounds heights)) (\<lambda>(first_height, last_height).
      then_do (process_window ix (load_raw_snapshots ix heights) last_height ready) (\<lambda>m.
      and_do (publish_window_progress ix latest m Online)
        (ret (wm_applied m \<or> cs_process_tail s < wm_end m))))))"

definition process_online_backlog_if_needed ::
  "'w indexer \<Rightarrow> int \<Rightarrow> core_indexer_state \<Rightarrow> bool \<Rightarrow> ('w, bool) io" where
  "process_online_backlog_if_needed ix latest s force =
     (let target = min (cs_sync_tail s) latest in
      if target \<le> cs_process_tail s \<and> \<not> force then ret False
      else then_do is_dogecoin_current_state_ready (process_online_window ix latest s target))"

definition advance_online_backlog :: "'w indexer \<Rightarrow> int \<Rightarrow> core_indexer_state \<Rightarrow> ('w, bool) io" where
  "advance_online_backlog ix latest s =
     (let sync_end = min latest (cs_sync_tail s + se_sync_window (ix_settings ix)) in
      then_do (sync_online_backlog_if_needed ix latest s sync_end) (\<lambda>did_sync.
      then_do (refreshed_online_backlog_state s sync_end) (\<lambda>refreshed.
      then_do (process_online_backlog_if_needed ix latest refreshed did_sync) (\<lambda>did_process.
      ret (did_sync \<or> did_process)))))"

definition is_current_online_state_ready :: "int \<Rightarrow> core_indexer_state \<Rightarrow> ('w, bool) io" where
  "is_current_online_state_ready latest s =
     (if cs_sync_tail s < latest then ret False
      else then_do is_dogecoin_current_state_ready (\<lambda>ready. ret (ready \<and> latest \<le> cs_process_tail s)))"

definition ensure_ready_online_state :: "int \<Rightarrow> core_indexer_state \<Rightarrow> ('w, core_indexer_state) io" where
  "ensure_ready_online_state latest s =
     (if is_ready_online_state s latest then ret s
      else upsert_state (no_update\<lparr>up_stage := Some Online, up_online_tip := Some latest\<rparr>))"

text \<open>Both outcomes of \<^verbatim>\<open>publishOnlineNoWorkIfPossible\<close> make \<^verbatim>\<open>online\<close> return \<^verbatim>\<open>false\<close>.\<close>

definition publish_online_no_work_if_possible ::
  "'w indexer \<Rightarrow> int \<Rightarrow> core_indexer_state \<Rightarrow> ('w, bool) io" where
  "publish_online_no_work_if_possible ix latest s =
     then_do (is_current_online_state_ready latest s) (\<lambda>current.
     if current
     then then_do (ensure_ready_online_state latest s) (\<lambda>s'.
            and_do (publish_progress ix latest s') (ret True))
     else if is_core_state_at_latest s latest
     then and_do (publish_progress ix latest s) (ret True)
     else ret False)"

definition online :: "'w indexer \<Rightarrow> int \<Rightarrow> core_indexer_state \<Rightarrow> ('w, bool) io" where
  "online ix latest s =
     then_do (advance_online_backlog ix latest s) (\<lambda>did_work.
     if did_work then ret True
     else and_do (publish_online_no_work_if_possible ix latest s) (ret False))"

definition run_dogecoin_stage ::
  "'w indexer \<Rightarrow> iteration \<Rightarrow> int \<Rightarrow> core_indexer_state \<Rightarrow> ('w, bool) io" where
  "run_dogecoin_stage ix it latest s =
     (case cs_stage s of
        Sync_Backfill \<Rightarrow> sync_backfill ix latest s
      | Process_Backfill \<Rightarrow> process_backfill ix it latest s
      | Online \<Rightarrow> online ix latest s)"

section \<open>One iteration\<close>

definition stored_sync_tail :: "('w, int) io" where
  "stored_sync_tail = then_do (get_config config_key_indexer_sync_tail) (\<lambda>v.
     ret (case v of JNum (JInt i) \<Rightarrow> i | _ \<Rightarrow> - 1))"

definition ensure_state :: "int \<Rightarrow> ('w, core_indexer_state) io" where
  "ensure_state latest =
     then_do (store_read wd_state) (\<lambda>current.
     case current of
       Some s \<Rightarrow> ret s
     | None \<Rightarrow>
         then_do stored_sync_tail (\<lambda>stored.
         upsert_state \<lparr>up_last_error = Some None, up_online_tip = Some latest,
           up_process_tail = Some (- 1), up_stage = Some Sync_Backfill,
           up_sync_tail = Some (min stored latest)\<rparr>))"

definition recover_pending_core_apply_if_needed :: "'w indexer \<Rightarrow> ('w, unit) io" where
  "recover_pending_core_apply_if_needed ix =
     then_do (get_config config_key_core_apply_recovery) (\<lambda>raw.
     if \<not> truthy raw then ret ()
     else
       then_do (lift_res (parse_core_apply_recovery_marker raw)) (\<lambda>m.
       and_do (recover_window ix (rm_start_height m) (rm_update_current_state m)) (
       then_do (compare_and_delete_config config_key_core_apply_recovery (marker_json m)) (\<lambda>cleared.
       if cleared then ret ()
       else throw (GenericError (''core apply recovery marker changed during recovery chain=''
              @ ix_chain ix @ '' window='' @ int_str (rm_start_height m) @ ''-''
              @ int_str (rm_end_height m)))))))"

definition reconcile_process_tail_with_warehouse ::
  "'w indexer \<Rightarrow> core_indexer_state \<Rightarrow> ('w, core_indexer_state) io" where
  "reconcile_process_tail_with_warehouse ix s =
     then_do (get_field wd_tail_reconciled) (\<lambda>reconciled.
     if reconciled then ret s
     else
       case wp_processed_tail (ix_port ix) of
         None \<Rightarrow> and_do (change (\<lambda>w. w\<lparr>wd_tail_reconciled := True\<rparr>)) (ret s)
       | Some processed_tail \<Rightarrow>
           then_do (store_read (\<lambda>w. processed_tail (wd_warehouse w))) (\<lambda>tail.
           and_do (change (\<lambda>w. w\<lparr>wd_tail_reconciled := True\<rparr>)) (
           let warehouse_tail = (case tail of None \<Rightarrow> - 1 | Some t \<Rightarrow> t) in
           if cs_process_tail s \<le> warehouse_tail then ret s
           else
             then_do is_dogecoin_current_state_ready (\<lambda>ready.
             and_do (recover_window ix (warehouse_tail + 1) ready)
               (upsert_state (no_update\<lparr>up_process_tail := Some warehouse_tail\<rparr>))))))"

definition mark_transaction_refs_ready_if_caught_up :: "core_indexer_state \<Rightarrow> ('w, unit) io" where
  "mark_transaction_refs_ready_if_caught_up s =
     then_do (get_field wd_refs_ready) (\<lambda>known.
     if known \<or> \<not> has_processed_every_synced_block s then ret ()
     else
       then_do (get_flag config_key_dogecoin_transaction_refs_ready) (\<lambda>ready.
       and_do (if ready then ret ()
               else set_config config_key_dogecoin_transaction_refs_ready (JBool True))
         (change (\<lambda>w. w\<lparr>wd_refs_ready := True\<rparr>))))"

definition run_dogecoin :: "'w indexer \<Rightarrow> iteration \<Rightarrow> ('w, bool) io" where
  "run_dogecoin ix it =
     then_do (lift_res (it_latest it)) (\<lambda>latest.
     and_do assert_primary_lease (
     catch
       (and_do (recover_pending_core_apply_if_needed ix) (
        then_do (ensure_state latest) (\<lambda>s0.
        then_do (reconcile_process_tail_with_warehouse ix s0) (\<lambda>s.
        and_do (mark_transaction_refs_ready_if_caught_up s) (
        and_do (publish_progress ix latest s) (
        and_do (assert_progress_watchdog ix latest s)
          (run_dogecoin_stage ix it latest s)))))))
       (\<lambda>e. case e of
          PrimaryLeaseLostError \<Rightarrow> throw e
        | ProcessExit n \<Rightarrow> throw e
        | _ \<Rightarrow> and_do (set_error (thrown_message e)) (throw e))))"

section \<open>Runs\<close>

text \<open>
  A run alternates iterations with whatever script the environment has and restarts, which give
  the service object its initial fields.
\<close>

datatype indexer_event =
    Iterate iteration "fault list" "int list" "sync_event list list" telemetry
  | Restart concurrency_controller int

definition restart :: "concurrency_controller \<Rightarrow> int \<Rightarrow> 'w world \<Rightarrow> 'w world" where
  "restart c now w = w\<lparr>wd_tail_reconciled := False, wd_refs_ready := False, wd_target_rows := None,
     wd_node_retry_at := 0, wd_observation := None, wd_last_activity := now, wd_last_heartbeat := 0,
     wd_controller := c\<rparr>"

fun indexer_step :: "'w indexer \<Rightarrow> indexer_event \<Rightarrow> 'w world \<Rightarrow> 'w world" where
  "indexer_step ix (Iterate it script clock syncs tm) w =
     snd (run_dogecoin ix it
       (w\<lparr>wd_script := script, wd_clock := clock, wd_syncs := syncs, wd_telemetry := tm\<rparr>))"
| "indexer_step ix (Restart c now) w = restart c now w"

definition indexer_run :: "'w indexer \<Rightarrow> indexer_event list \<Rightarrow> 'w world \<Rightarrow> 'w world" where
  "indexer_run ix es w = fold (indexer_step ix) es w"

end
