(* ===== verification/Indexer_Frame.thy ===== *)
theory Indexer_Frame
  imports Indexer
begin

text \<open>
  Frames for the indexer's calls. The safety of the tails depends on five parts of the world, its
  \<open>safety_view\<close>: the state row, the recovery marker, the raw parts, the warehouse, and, as long
  as there is no state row, the sync tail among the configuration values. Most calls leave the
  view as it is, whatever they return and wherever they fail (\<open>framed S\<close>: from every world whose
  state row satisfies \<open>S\<close>).
\<close>

type_synonym 'w safety_view =
  "core_indexer_state option \<times> json \<times> (int, json) js_map \<times> 'w \<times> json"

definition safety_view :: "'w world \<Rightarrow> 'w safety_view" where
  "safety_view w = (wd_state w, get_json_value config_key_core_apply_recovery (wd_configs w),
     wd_raw_parts w, wd_warehouse w,
     if wd_state w = None then get_json_value config_key_indexer_sync_tail (wd_configs w) else JNull)"

abbreviation present :: "core_indexer_state option \<Rightarrow> bool" where
  "present s \<equiv> s \<noteq> None"

definition framed :: "(core_indexer_state option \<Rightarrow> bool) \<Rightarrow> ('w, 'a) io \<Rightarrow> bool" where
  "framed S m \<longleftrightarrow> (\<forall>w. S (wd_state w) \<longrightarrow> safety_view (snd (m w)) = safety_view w)"

lemma view_state: "safety_view w = safety_view w' \<Longrightarrow> wd_state w = wd_state w'"
  by (simp add: safety_view_def)

lemma framedD:
  assumes "framed S m" and "S (wd_state w)" and "m w = (r, w')"
  shows "safety_view w' = safety_view w"
proof -
  have "safety_view (snd (m w)) = safety_view w" using assms(1,2) by (simp add: framed_def)
  then show ?thesis using assms(3) by simp
qed

named_theorems frames \<open>calls that leave the view as it is\<close>

lemma framed_triple:
  assumes "framed S m" and "\<And>v. P v \<Longrightarrow> S (fst v)"
  shows "triple (\<lambda>w. P (safety_view w)) m (\<lambda>_ w. P (safety_view w)) (\<lambda>w. P (safety_view w))"
proof -
  have "S (wd_state w)" if "P (safety_view w)" for w
    using assms(2) [OF that] by (simp add: safety_view_def)
  then have "safety_view (snd (m w)) = safety_view w" if "P (safety_view w)" for w
    using assms(1) that by (simp add: framed_def)
  then show ?thesis by (intro tripleI) (metis snd_conv)+
qed

lemma framed_ret [frames]: "framed S (ret x)"
  by (simp add: framed_def ret_def)

lemma framed_throw [frames]: "framed S (throw e)"
  by (simp add: framed_def throw_def)

lemma framed_get [frames]: "framed S (get_field f)"
  by (simp add: framed_def get_field_def)

lemma framed_lift [frames]: "framed S (lift_res r)"
  by (simp add: framed_def lift_res_def)

lemma framed_change: "(\<And>w. S (wd_state w) \<Longrightarrow> safety_view (f w) = safety_view w) \<Longrightarrow> framed S (change f)"
  by (simp add: framed_def change_def)

lemma framed_then_do:
  assumes "framed S m" and "\<And>x. framed S (f x)" shows "framed S (then_do m f)"
proof -
  have "safety_view (snd (then_do m f w)) = safety_view w" if S: "S (wd_state w)" for w
  proof (cases rule: eff_cases [of m w])
    case (1 e s')
    then show ?thesis using assms(1) S by (force simp: framed_def then_do_def)
  next
    case (2 x s')
    then have "safety_view s' = safety_view w" using assms(1) S by (force simp: framed_def)
    moreover from this have "safety_view (snd (f x s')) = safety_view s'"
      using assms(2) S view_state by (metis framed_def)
    ultimately show ?thesis using 2 by (simp add: then_do_def)
  qed
  then show ?thesis by (simp add: framed_def)
qed

lemma framed_and_do: "framed S m \<Longrightarrow> framed S n \<Longrightarrow> framed S (and_do m n)"
  unfolding and_do_def by (rule framed_then_do)

lemma framed_outcome: "framed S m \<Longrightarrow> framed S (outcome m)"
  by (auto simp: framed_def outcome_def split: prod.splits)

lemma framed_next_fault [frames]: "framed S next_fault"
  by (auto simp: framed_def next_fault_def safety_view_def split: list.splits)

lemma framed_now_ms [frames]: "framed S now_ms"
  by (auto simp: framed_def now_ms_def safety_view_def split: list.splits)

lemma framed_next_sync [frames]: "framed S next_sync"
  by (auto simp: framed_def next_sync_def safety_view_def split: list.splits)

lemma framed_store_read [frames]: "framed S (store_read f)"
  unfolding store_read_def
  by (rule framed_then_do) (auto split: fault.splits intro: frames)

lemma framed_store_write: "(\<And>w. S (wd_state w) \<Longrightarrow> safety_view (f w) = safety_view w) \<Longrightarrow> framed S (store_write f)"
  unfolding store_write_def
  by (rule framed_then_do)
    (auto split: fault.splits intro!: frames framed_change framed_and_do)

lemma framed_get_config [frames]: "framed S (get_config key)"
  by (simp add: get_config_def frames)

lemma framed_get_flag [frames]: "framed S (get_flag key)"
  unfolding get_flag_def by (rule framed_then_do) (rule frames)+

lemma framed_set_config:
  "key \<noteq> config_key_core_apply_recovery \<Longrightarrow> key \<noteq> config_key_indexer_sync_tail \<Longrightarrow> framed S (set_config key v)"
  unfolding set_config_def by (rule framed_store_write) (auto simp: safety_view_def)

lemma framed_set_configs:
  "config_key_core_apply_recovery \<notin> fst ` set entries \<Longrightarrow> framed present (set_configs entries)"
  unfolding set_configs_def
  by (rule framed_store_write) (auto simp: safety_view_def set_json_values_other)

lemma framed_assert_primary_lease [frames]: "framed S assert_primary_lease"
  unfolding assert_primary_lease_def
  by (rule framed_then_do) (auto split: fault.splits intro: frames)

lemma framed_record_activity [frames]: "framed S record_activity"
  unfolding record_activity_def
  by (rule framed_then_do, rule frames, rule framed_change) (simp add: safety_view_def)

lemma framed_observe [frames]: "framed S (observe s)"
  unfolding observe_def
  by (intro framed_then_do framed_and_do framed_change frames) (simp add: safety_view_def)

lemma framed_ready [frames]:
  "framed S is_dogecoin_history_ready" "framed S is_dogecoin_analytics_facts_ready"
  "framed S is_dogecoin_current_state_ready"
  by (simp_all add: is_dogecoin_history_ready_def is_dogecoin_analytics_facts_ready_def
      is_dogecoin_current_state_ready_def frames)

lemma framed_publish_progress: "framed present (publish_progress ix latest s)"
  unfolding publish_progress_def
  by (intro framed_then_do framed_and_do framed_set_configs frames)
    (auto simp: progress_entries_def config_keys)

lemma framed_adapt [frames]: "framed S (adapt_backfill_target_rows ix ms)"
  unfolding adapt_backfill_target_rows_def
  by (auto split: option.splits intro!: frames framed_change simp: safety_view_def)

lemma framed_mark_transaction_refs [frames]:
  "framed S (mark_transaction_refs_ready_if_caught_up s)"
proof -
  have "framed S (if ready then ret ()
      else set_config config_key_dogecoin_transaction_refs_ready (JBool True))" for ready
    by (auto intro!: frames framed_set_config simp: config_keys)
  moreover have "framed S (change (\<lambda>w. w\<lparr>wd_refs_ready := True\<rparr>))"
    by (rule framed_change) (simp add: safety_view_def)
  ultimately show ?thesis
    unfolding mark_transaction_refs_ready_if_caught_up_def
    by (intro framed_then_do framed_and_do frames) (auto intro!: frames framed_then_do framed_and_do)
qed

lemma framed_stored_sync_tail [frames]: "framed S stored_sync_tail"
  unfolding stored_sync_tail_def by (intro framed_then_do frames)

lemma framed_load_raw_snapshot [frames]: "framed S (load_raw_snapshot ix h)"
  unfolding load_raw_snapshot_def
  by (rule framed_then_do) (auto split: option.splits intro: frames)

lemma framed_load_raw_snapshots [frames]: "framed S (load_raw_snapshots ix hs)"
  by (induction hs) (auto intro!: frames framed_then_do)

lemma framed_fill_from [frames]: "framed S (fill_from block target deadline hs rows)"
  by (induction hs arbitrary: rows) (auto simp: Let_def intro!: frames framed_then_do framed_and_do)

lemma framed_catch:
  assumes "framed S m" and "\<And>e. framed S (h e)" shows "framed S (catch m h)"
proof -
  have "safety_view (snd (catch m h w)) = safety_view w" if S: "S (wd_state w)" for w
  proof (cases rule: eff_cases [of m w])
    case (2 x s')
    then show ?thesis using assms(1) S by (force simp: framed_def catch_def)
  next
    case (1 e s')
    then have "safety_view s' = safety_view w" using assms(1) S by (force simp: framed_def)
    moreover from this have "safety_view (snd (h e s')) = safety_view s'"
      using assms(2) S view_state by (metis framed_def)
    ultimately show ?thesis using 1 by (simp add: catch_def)
  qed
  then show ?thesis by (simp add: framed_def)
qed

lemma framed_load_backfill_snapshots [frames]: "framed S (load_backfill_snapshots ix it p)"
proof -
  have fill: "framed S (fill_backfill_window ix it p source)" for source
    unfolding fill_backfill_window_def by (intro framed_then_do frames)
  have retry: "framed S (change (\<lambda>w. w\<lparr>wd_node_retry_at := t\<rparr>))" for t
    by (rule framed_change) (simp add: safety_view_def)
  show ?thesis
    unfolding load_backfill_snapshots_def
    by (rule framed_catch [OF fill]) (auto intro!: frames framed_then_do framed_and_do fill retry)
qed

end
