(* ===== verification/Indexer_Safety.thy ===== *)
theory Indexer_Safety
  imports Indexer_Frame
begin

text \<open>
  Safety of the indexer's tails. \<open>tails_ok\<close> is the invariant of the world: the raw parts cover
  every height up to the sync tail; below the pending recovery marker (or altogether, without
  one) the heights processed in the warehouse are an initial segment without holes; and the
  process tail is not ahead of that segment, up to the reorganisation depth once the indexer is
  online, where the last \<open>depth\<close> blocks are processed again with every window. \<open>settled\<close> is the
  invariant between windows, without a marker.

  The warehouse enters through the locale \<open>window_store\<close>: what applying, recovering and
  materialising may do to the set of processed heights, also when they stop in the middle.
\<close>

section \<open>Triples over the view\<close>

definition vtriple ::
  "('w safety_view \<Rightarrow> bool) \<Rightarrow> ('w, 'a) io \<Rightarrow> ('a \<Rightarrow> 'w safety_view \<Rightarrow> bool)
     \<Rightarrow> ('w safety_view \<Rightarrow> bool) \<Rightarrow> bool" where
  "vtriple P m Q E \<longleftrightarrow>
     triple (\<lambda>w. P (safety_view w)) m (\<lambda>x w. Q x (safety_view w)) (\<lambda>w. E (safety_view w))"

lemma vtripleI:
  "(\<And>w x w'. P (safety_view w) \<Longrightarrow> m w = (Inr x, w') \<Longrightarrow> Q x (safety_view w'))
   \<Longrightarrow> (\<And>w e w'. P (safety_view w) \<Longrightarrow> m w = (Inl e, w') \<Longrightarrow> E (safety_view w')) \<Longrightarrow> vtriple P m Q E"
  unfolding vtriple_def by (rule tripleI)

lemma vtriple_conseq:
  "vtriple P m Q E \<Longrightarrow> (\<And>v. P' v \<Longrightarrow> P v) \<Longrightarrow> (\<And>x v. Q x v \<Longrightarrow> Q' x v) \<Longrightarrow> (\<And>v. E v \<Longrightarrow> E' v)
     \<Longrightarrow> vtriple P' m Q' E'"
  unfolding vtriple_def by (rule triple_conseq)

lemma vtriple_pre: "vtriple P m Q E \<Longrightarrow> (\<And>v. P' v \<Longrightarrow> P v) \<Longrightarrow> vtriple P' m Q E"
  by (rule vtriple_conseq)

lemma vtriple_ret: "(\<And>v. P v \<Longrightarrow> Q x v) \<Longrightarrow> vtriple P (ret x) Q E"
  unfolding vtriple_def by (rule triple_ret)

lemma vtriple_throw: "(\<And>v. P v \<Longrightarrow> E v) \<Longrightarrow> vtriple P (throw e) Q E"
  unfolding vtriple_def by (rule triple_throw)

lemma vtriple_then_do:
  "vtriple P m R E \<Longrightarrow> (\<And>x. vtriple (R x) (f x) Q E) \<Longrightarrow> vtriple P (then_do m f) Q E"
  unfolding vtriple_def by (rule triple_then_do)

lemma vtriple_and_do: "vtriple P m (\<lambda>_. R) E \<Longrightarrow> vtriple R n Q E \<Longrightarrow> vtriple P (and_do m n) Q E"
  unfolding vtriple_def by (rule triple_and_do)

lemma vtriple_catch:
  "vtriple P m Q R \<Longrightarrow> (\<And>e. vtriple R (h e) Q E) \<Longrightarrow> vtriple P (catch m h) Q E"
  unfolding vtriple_def by (rule triple_catch)

lemma outcome_eq: "outcome m w = (Inr r, w') \<longleftrightarrow> m w = (r, w')" "outcome m w \<noteq> (Inl e, w')"
  by (simp_all add: outcome_def split: prod.splits)

lemma vtriple_outcome: "vtriple P m (\<lambda>_. Q) Q \<Longrightarrow> vtriple P (outcome m) (\<lambda>_. Q) E"
proof (rule vtripleI)
  fix w r w' assume "vtriple P m (\<lambda>_. Q) Q" "P (safety_view w)" "outcome m w = (Inr r, w')"
  then show "Q (safety_view w')"
    by (cases r) (auto simp: outcome_eq vtriple_def dest: tripleD_ok tripleD_err)
qed (simp add: outcome_eq)

lemma vtriple_lift:
  "(\<And>v x. P v \<Longrightarrow> r = Inr x \<Longrightarrow> Q x v) \<Longrightarrow> (\<And>v. P v \<Longrightarrow> E v) \<Longrightarrow> vtriple P (lift_res r) Q E"
  unfolding vtriple_def by (rule triple_lift)

lemma vtriple_if:
  "(b \<Longrightarrow> vtriple P m Q E) \<Longrightarrow> (\<not> b \<Longrightarrow> vtriple P n Q E) \<Longrightarrow> vtriple P (if b then m else n) Q E"
  by simp

lemma vtriple_assume: "(b \<Longrightarrow> vtriple P m Q E) \<Longrightarrow> vtriple (\<lambda>v. b \<and> P v) m Q E"
  unfolding vtriple_def by (rule triple_assume)

lemma vtriple_ex: "(\<And>y. vtriple (P y) m Q E) \<Longrightarrow> vtriple (\<lambda>v. \<exists>y. P y v) m Q E"
  unfolding vtriple_def by (rule triple_ex)

lemma vtriple_get:
  "(\<And>w. P (safety_view w) \<Longrightarrow> Q (f w) (safety_view w)) \<Longrightarrow> vtriple P (get_field f) Q E"
  unfolding vtriple_def by (rule triple_get)

lemma vtriple_for_each:
  "(\<And>x. x \<in> set xs \<Longrightarrow> vtriple I (f x) (\<lambda>_. I) E) \<Longrightarrow> vtriple I (for_each f xs) (\<lambda>_. I) E"
  unfolding vtriple_def by (rule triple_for_each)

lemma vtriple_framed:
  assumes "framed S m" and "\<And>v. P v \<Longrightarrow> S (fst v)" and "\<And>v. P v \<Longrightarrow> E v"
  shows "vtriple P m (\<lambda>_. P) E"
  using triple_conseq [OF framed_triple [where P = P, OF assms(1,2)]] assms(3)
  by (simp add: vtriple_def)

lemma vtriple_frame_any:
  "framed (\<lambda>_. True) m \<Longrightarrow> (\<And>v. R v \<Longrightarrow> E v) \<Longrightarrow> vtriple R m (\<lambda>_. R) E"
  by (rule vtriple_framed) simp_all

text \<open>A framed call with a fact about its result.\<close>

lemma vtriple_framed_result:
  assumes "framed S m" and "\<And>v. P v \<Longrightarrow> S (fst v)" and "\<And>v. P v \<Longrightarrow> E v"
    and "\<And>w x w'. P (safety_view w) \<Longrightarrow> m w = (Inr x, w') \<Longrightarrow> R x"
  shows "vtriple P m (\<lambda>x v. R x \<and> P v) E"
proof -
  note f = vtriple_framed [OF assms(1), where P = P and E = E, OF assms(2,3)]
  show ?thesis
    by (rule vtripleI) (use f assms(4) in \<open>auto simp: vtriple_def dest: tripleD_ok tripleD_err\<close>)
qed

text \<open>Calls that change one part of the view.\<close>

lemma vtriple_change:
  "(\<And>w. P (safety_view w) \<Longrightarrow> Q () (safety_view (f w))) \<Longrightarrow> vtriple P (change f) Q E"
  unfolding vtriple_def by (rule triple_change)

lemma vtriple_store_write:
  assumes "\<And>w. P (safety_view w) \<Longrightarrow> Q (safety_view (f w))"
    and "\<And>v. P v \<Longrightarrow> E v" and "\<And>v. Q v \<Longrightarrow> E v"
  shows "vtriple P (store_write f) (\<lambda>_. Q) E"
proof -
  have ch: "vtriple P (change f) (\<lambda>_. Q) E" by (rule vtriple_change) (rule assms(1))
  show ?thesis
    unfolding store_write_def
  proof (rule vtriple_then_do)
    show "vtriple P next_fault (\<lambda>_. P) E"
      by (rule vtriple_framed [where S = "\<lambda>_. True"]) (simp_all add: frames assms(2))
    show "vtriple P (case ft of Completes \<Rightarrow> change f
        | Stops n e \<Rightarrow> if n = 0 then throw e else and_do (change f) (throw e)) (\<lambda>_. Q) E" for ft
      by (cases ft)
        (auto intro!: ch vtriple_and_do [OF ch] vtriple_throw simp: assms(2,3))
  qed
qed

definition with_state :: "core_indexer_state \<Rightarrow> 'w safety_view \<Rightarrow> 'w safety_view" where
  "with_state s = (\<lambda>(state, raw, parts, wh, legacy). (Some s, raw, parts, wh, JNull))"

lemma view_with_state: "safety_view (w\<lparr>wd_state := Some s\<rparr>) = with_state s (safety_view w)"
  by (simp add: safety_view_def with_state_def)

lemma vtriple_upsert:
  assumes "\<And>v. P v \<Longrightarrow> Q (upsert_core_indexer_state u (fst v)) (with_state (upsert_core_indexer_state u (fst v)) v)"
    and "\<And>v. P v \<Longrightarrow> E v" and "\<And>s v. Q s v \<Longrightarrow> E v"
  shows "vtriple P (upsert_state u) Q E"
  unfolding upsert_state_def
proof (rule vtriple_then_do)
  show "vtriple P (get_field (\<lambda>w. upsert_core_indexer_state u (wd_state w)))
      (\<lambda>s v. P v \<and> s = upsert_core_indexer_state u (fst v)) E"
    unfolding vtriple_def by (rule triple_get) (simp add: safety_view_def)
  show "vtriple (\<lambda>v. P v \<and> s = upsert_core_indexer_state u (fst v))
      (and_do (store_write (\<lambda>w. w\<lparr>wd_state := Some s\<rparr>)) (ret s)) Q E" for s
    by (rule vtriple_and_do [where R = "Q s"], rule vtriple_store_write)
      (auto simp: view_with_state assms intro: vtriple_ret dest: assms(1))
qed

definition with_marker :: "json \<Rightarrow> 'w safety_view \<Rightarrow> 'w safety_view" where
  "with_marker raw' = (\<lambda>(state, raw, parts, wh, legacy). (state, raw', parts, wh, legacy))"

lemma recovery_key: "config_key_indexer_sync_tail \<noteq> config_key_core_apply_recovery"
  by (simp add: config_keys)

lemma view_with_marker:
  "safety_view (w\<lparr>wd_configs := set_json_value config_key_core_apply_recovery raw (wd_configs w)\<rparr>)
     = with_marker raw (safety_view w)"
  using recovery_key by (auto simp: safety_view_def with_marker_def)

lemma vtriple_set_marker:
  assumes "\<And>v. P v \<Longrightarrow> Q (with_marker raw v)" and "\<And>v. P v \<Longrightarrow> E v" and "\<And>v. Q v \<Longrightarrow> E v"
  shows "vtriple P (set_config config_key_core_apply_recovery raw) (\<lambda>_. Q) E"
  unfolding set_config_def
proof (rule vtriple_store_write)
  show "Q (safety_view (w\<lparr>wd_configs := set_json_value config_key_core_apply_recovery raw (wd_configs w)\<rparr>))"
    if "P (safety_view w)" for w
    using assms(1) [OF that] by (simp add: view_with_marker)
qed (use assms in auto)

lemma get_json_value_deleted:
  "get_json_value key (snd (compare_and_delete_json_value key' v c))
     = (if key = key' \<and> js_get c key = Some v then JNull else get_json_value key c)"
  by (auto simp: get_json_value_def compare_and_delete_facts split: option.splits)

lemma vtriple_delete_marker:
  assumes "expected \<noteq> JNull"
    and "\<And>v. P v \<Longrightarrow> fst (snd v) = expected \<Longrightarrow> Q True (with_marker JNull v)"
    and "\<And>v. P v \<Longrightarrow> fst (snd v) \<noteq> expected \<Longrightarrow> Q False v"
    and "\<And>v. P v \<Longrightarrow> E v" and "\<And>b v. Q b v \<Longrightarrow> E v"
  shows "vtriple P (compare_and_delete_config config_key_core_apply_recovery expected) Q E"
  unfolding compare_and_delete_config_def
proof (rule vtriple_then_do)
  have found: "fst (compare_and_delete_json_value config_key_core_apply_recovery expected (wd_configs w))
      \<longleftrightarrow> fst (snd (safety_view w)) = expected" for w :: "'a world"
    using assms(1) by (auto simp: compare_and_delete_facts safety_view_def get_json_value_def split: option.splits)
  have view: "safety_view (w\<lparr>wd_configs := snd (compare_and_delete_json_value config_key_core_apply_recovery
        expected (wd_configs w))\<rparr>)
      = (if fst (snd (safety_view w)) = expected then with_marker JNull (safety_view w) else safety_view w)"
    for w :: "'a world"
    using found [of w] recovery_key
    by (auto simp: safety_view_def with_marker_def get_json_value_deleted compare_and_delete_facts)
  show "vtriple P (get_field (\<lambda>w. fst (compare_and_delete_json_value config_key_core_apply_recovery expected (wd_configs w))))
      (\<lambda>b v. P v \<and> b = (fst (snd v) = expected)) E"
    unfolding vtriple_def by (rule triple_get) (simp add: found)
  show "vtriple (\<lambda>v. P v \<and> b = (fst (snd v) = expected))
      (and_do (store_write (\<lambda>w. w\<lparr>wd_configs := snd (compare_and_delete_json_value
          config_key_core_apply_recovery expected (wd_configs w))\<rparr>)) (ret b)) Q E" for b
    by (rule vtriple_and_do [where R = "Q b"], rule vtriple_store_write)
      (auto simp: view assms intro: vtriple_ret)
qed

definition with_warehouse :: "'w \<Rightarrow> 'w safety_view \<Rightarrow> 'w safety_view" where
  "with_warehouse wh' = (\<lambda>(state, raw, parts, wh, legacy). (state, raw, parts, wh', legacy))"

lemma view_with_warehouse: "safety_view (w\<lparr>wd_warehouse := wh\<rparr>) = with_warehouse wh (safety_view w)"
  by (simp add: safety_view_def with_warehouse_def)

lemma view_warehouse: "fst (snd (snd (snd (safety_view w)))) = wd_warehouse w"
  by (simp add: safety_view_def)

lemma vtriple_warehouse_call:
  assumes "\<And>v r wh'. P v \<Longrightarrow> f (fst (snd (snd (snd v)))) = (r, wh') \<Longrightarrow>
      (case r of Inl e \<Rightarrow> E (with_warehouse wh' v) | Inr x \<Rightarrow> Q x (with_warehouse wh' v))"
  shows "vtriple P (warehouse_call f) Q E"
proof -
  have "case fst (warehouse_call f w) of Inl e \<Rightarrow> E (safety_view (snd (warehouse_call f w)))
      | Inr x \<Rightarrow> Q x (safety_view (snd (warehouse_call f w)))" if "P (safety_view w)" for w
    using assms [OF that, of "fst (f (wd_warehouse w))" "snd (f (wd_warehouse w))"]
    by (auto simp: warehouse_call_def Let_def view_with_warehouse case_prod_beta view_warehouse
        split: sum.splits)
  then show ?thesis by (intro vtripleI) (force split: sum.splits)+
qed

section \<open>The invariant\<close>

definition snapshot_at :: "int \<Rightarrow> json \<Rightarrow> bool" where
  "snapshot_at h p \<longleftrightarrow>
     (case parse_dogecoin_block_snapshot p of Inl _ \<Rightarrow> False | Inr b \<Rightarrow> db_height b = h)"

text \<open>A snapshot that either does not parse or is the block of height \<open>h\<close>.\<close>

definition snapshot_for :: "int \<Rightarrow> json \<Rightarrow> bool" where
  "snapshot_for h p \<longleftrightarrow>
     (case parse_dogecoin_block_snapshot p of Inl _ \<Rightarrow> True | Inr b \<Rightarrow> db_height b = h)"

definition raw_ok :: "(int, json) js_map \<Rightarrow> bool" where
  "raw_ok parts \<longleftrightarrow> (\<forall>h p. js_get parts h = Some p \<longrightarrow> snapshot_at h p)"

definition raw_covers :: "(int, json) js_map \<Rightarrow> int \<Rightarrow> bool" where
  "raw_covers parts n \<longleftrightarrow> (\<forall>h \<in> {0..n}. js_get parts h \<noteq> None)"

definition floor_height :: "core_settings \<Rightarrow> core_indexer_state \<Rightarrow> int" where
  "floor_height st s =
     (if cs_stage s = Online then cs_process_tail s - se_reprocess_depth st else cs_process_tail s)"

definition solid :: "int \<Rightarrow> int set \<Rightarrow> bool" where
  "solid k hs \<longleftrightarrow> 0 \<le> k \<and> {h \<in> hs. h < k} = {0..<k}"

text \<open>
  \<open>ok None\<close> holds of a warehouse at rest, \<open>ok (Some k)\<close> of one in which a window from height \<open>k\<close> on may
  have been interrupted.
\<close>

definition marker_bound :: "json \<Rightarrow> int \<Rightarrow> int set \<Rightarrow> (int option \<Rightarrow> bool) \<Rightarrow> bool" where
  "marker_bound raw k hs ok \<longleftrightarrow> (raw = JNull \<and> hs = {0..<k} \<and> ok None)
     \<or> (\<exists>m. raw = marker_json m \<and> marker_ok m \<and> rm_start_height m = k \<and> ok (Some k))"

definition state_ok :: "core_settings \<Rightarrow> int \<Rightarrow> (int, json) js_map \<Rightarrow> core_indexer_state \<Rightarrow> bool" where
  "state_ok st k parts s \<longleftrightarrow> - 1 \<le> cs_process_tail s \<and> cs_process_tail s \<le> cs_sync_tail s
     \<and> floor_height st s < k \<and> raw_covers parts (cs_sync_tail s)"

definition tails_ok ::
  "core_settings \<Rightarrow> ('w \<Rightarrow> int set) \<Rightarrow> (int option \<Rightarrow> 'w \<Rightarrow> bool) \<Rightarrow> 'w safety_view \<Rightarrow> bool" where
  "tails_ok st heights ok = (\<lambda>(state, raw, parts, wh, legacy).
     raw_ok parts \<and> (\<exists>k. solid k (heights wh) \<and> marker_bound raw k (heights wh) (\<lambda>p. ok p wh)
     \<and> (case state of
          None \<Rightarrow> heights wh = {} \<and> raw = JNull \<and> legacy = JNull
        | Some s \<Rightarrow> state_ok st k parts s)))"

text \<open>No marker, the given state row, and every height up to \<open>t\<close> processed.\<close>

definition settled ::
  "core_settings \<Rightarrow> ('w \<Rightarrow> int set) \<Rightarrow> (int option \<Rightarrow> 'w \<Rightarrow> bool) \<Rightarrow> core_indexer_state \<Rightarrow> int
     \<Rightarrow> 'w safety_view \<Rightarrow> bool" where
  "settled st heights ok s t = (\<lambda>(state, raw, parts, wh, legacy).
     state = Some s \<and> raw = JNull \<and> ok None wh \<and> raw_ok parts
     \<and> (\<exists>k. 0 \<le> k \<and> t < k \<and> heights wh = {0..<k} \<and> state_ok st k parts s))"

lemma settled_tails_ok: "settled st heights ok s t v \<Longrightarrow> tails_ok st heights ok v"
  by (force simp: settled_def tails_ok_def solid_def marker_bound_def split: prod.splits)

lemma settled_present: "settled st heights ok s t v \<Longrightarrow> present (fst v)"
  by (auto simp: settled_def)

lemma settled_floor: "settled st heights ok s t v \<Longrightarrow> settled st heights ok s (floor_height st s) v"
  by (auto simp: settled_def state_ok_def)

lemma settled_weaken: "settled st heights ok s t v \<Longrightarrow> t' \<le> t \<Longrightarrow> settled st heights ok s t' v"
  by (auto simp: settled_def)

lemma marked_tails_ok:
  "ok (Some (rm_start_height m)) wh \<Longrightarrow> raw_ok parts \<Longrightarrow> marker_ok m \<Longrightarrow> solid (rm_start_height m) (heights wh)
   \<Longrightarrow> state_ok st (rm_start_height m) parts s
   \<Longrightarrow> tails_ok st heights ok (Some s, marker_json m, parts, wh, legacy)"
  unfolding tails_ok_def marker_bound_def by auto

lemma state_ok_bound: "state_ok st k parts s \<Longrightarrow> floor_height st s < k' \<Longrightarrow> state_ok st k' parts s"
  by (simp add: state_ok_def)

lemma settled_iff:
  "settled st heights ok s t (state, raw, parts, wh, legacy) \<longleftrightarrow>
     state = Some s \<and> raw = JNull \<and> ok None wh \<and> raw_ok parts
     \<and> (\<exists>k. 0 \<le> k \<and> t < k \<and> heights wh = {0..<k} \<and> state_ok st k parts s)"
  by (simp add: settled_def)

lemma with_simps:
  "with_marker r (state, raw, parts, wh, legacy) = (state, r, parts, wh, legacy)"
  "with_warehouse wh' (state, raw, parts, wh, legacy) = (state, raw, parts, wh', legacy)"
  "with_state s (state, raw, parts, wh, legacy) = (Some s, raw, parts, wh, JNull)"
  by (simp_all add: with_marker_def with_warehouse_def with_state_def)

lemma raw_covers_mono: "raw_covers parts n \<Longrightarrow> m \<le> n \<Longrightarrow> raw_covers parts m"
  by (auto simp: raw_covers_def)

text \<open>Positive window sizes and depth, and texts that the recovery marker accepts.\<close>

definition indexer_ok :: "'w indexer \<Rightarrow> bool" where
  "indexer_ok ix \<longleftrightarrow> settings_ok (ix_settings ix)
     \<and> js_trim (ix_instance_id ix) \<noteq> [] \<and> js_trim (ix_now_text ix) \<noteq> []"

section \<open>The warehouse's contract\<close>

text \<open>The blocks of the heights \<open>a..b\<close>, as the parser yields them.\<close>

definition window_range :: "int \<Rightarrow> int \<Rightarrow> core_block_application list \<Rightarrow> bool" where
  "window_range a b apps \<longleftrightarrow> map ca_block_height apps = range_of a b \<and> list_all application_parsed apps"

locale window_store =
  fixes port :: "'w warehouse_port" and heights :: "'w \<Rightarrow> int set" and ok :: "int option \<Rightarrow> 'w \<Rightarrow> bool"
  assumes at_rest: "ok None w \<Longrightarrow> ok (Some k) w"
    and apply_kept: "ok None w \<Longrightarrow> 0 \<le> a \<Longrightarrow> a \<le> b \<Longrightarrow> window_range a b apps
      \<Longrightarrow> wp_apply port ft apps update w = (r, w')
      \<Longrightarrow> ok (Some a) w' \<and> {h \<in> heights w'. h < a} = {h \<in> heights w. h < a}"
    and apply_done: "ok None w \<Longrightarrow> heights w = {0..<k} \<Longrightarrow> 0 \<le> a \<Longrightarrow> a \<le> b \<Longrightarrow> a \<le> k \<Longrightarrow> window_range a b apps
      \<Longrightarrow> wp_apply port ft apps update w = (Inr x, w')
      \<Longrightarrow> ok None w' \<and> a \<le> ar_process_tail x \<and> ar_process_tail x \<le> b
        \<and> (heights w' = heights w \<union> {a..b}
           \<or> (\<exists>c \<in> heights w. a \<le> c \<and> c \<le> b \<and> heights w' = {h \<in> heights w. h < c} \<union> {c..b}))"
    and recover_kept: "ok (Some from) w \<Longrightarrow> 0 \<le> from \<Longrightarrow> wp_recover port ft from update w = (ru, w')
      \<Longrightarrow> ok (Some from) w' \<and> {h \<in> heights w'. h < from} = {h \<in> heights w. h < from}"
    and recover_rest: "ok None w \<Longrightarrow> 0 \<le> from \<Longrightarrow> wp_recover port ft from update w = (ru, w')
      \<Longrightarrow> ok None w' \<and> heights w' \<subseteq> heights w"
    and recover_done: "ok (Some from) w \<Longrightarrow> 0 \<le> from \<Longrightarrow> wp_recover port ft from update w = (Inr u, w')
      \<Longrightarrow> ok None w' \<and> heights w' = {h \<in> heights w. h < from}"
    and tail_exact: "wp_processed_tail port = Some tail \<Longrightarrow> ok None w
      \<Longrightarrow> (case tail w of None \<Rightarrow> heights w = {} | Some t \<Rightarrow> t \<in> heights w \<and> (\<forall>h \<in> heights w. h \<le> t))"
    and materialize_kept: "ok None w \<Longrightarrow> wp_materialize port ft as_of resume w = (ranges, rm, w')
      \<Longrightarrow> (\<forall>(p, w1) \<in> set ranges. ok None w1 \<and> heights w1 = heights w) \<and> ok None w' \<and> heights w' = heights w"
begin

abbreviation "safe \<equiv> \<lambda>st. tails_ok st heights ok"

text \<open>Applying a window to an initial segment leaves an initial segment.\<close>

lemma apply_segment:
  assumes "ok None w" and "heights w = {0..<k}" and "0 \<le> a" "a \<le> b" "a \<le> k"
    and "window_range a b apps"
    and "wp_apply port ft apps update w = (Inr x, w')"
  shows "ok None w' \<and> a \<le> ar_process_tail x \<and> ar_process_tail x \<le> b
    \<and> (\<exists>k'. a \<le> k' \<and> b < k' \<and> heights w' = {0..<k'})"
proof -
  note applied = apply_done [OF assms]
  from applied consider "heights w' = heights w \<union> {a..b}"
    | c where "c \<in> heights w" "a \<le> c" "c \<le> b" "heights w' = {h \<in> heights w. h < c} \<union> {c..b}"
    by blast
  then have "\<exists>k'. a \<le> k' \<and> b < k' \<and> heights w' = {0..<k'}"
  proof cases
    case 1
    then have "heights w' = {0..<max k (b + 1)}" using assms(2,3,5) by auto
    then show ?thesis using assms(4) by (intro exI [of _ "max k (b + 1)"]) auto
  next
    case 2
    then have "heights w' = {0..<b + 1}" using assms(2,3) by auto
    then show ?thesis using assms(4) by (intro exI [of _ "b + 1"]) auto
  qed
  then show ?thesis using applied by blast
qed

lemma marked_settled_safe:
  assumes "settled st heights ok s t (with_marker JNull v)" and "fst (snd v) = marker_json m"
    and "marker_ok m" and "floor_height st s < rm_start_height m" "rm_start_height m \<le> t + 1"
  shows "safe st v"
proof -
  obtain state raw parts wh legacy where v: "v = (state, raw, parts, wh, legacy)" by (cases v)
  from assms(1,2) obtain k where k: "t < k" "heights wh = {0..<k}" "state_ok st k parts s"
    and rest: "state = Some s" "raw = marker_json m" "ok None wh" "raw_ok parts"
    by (auto simp: v with_simps settled_iff)
  have "solid (rm_start_height m) (heights wh)"
    using k assms(3,5) by (auto simp: solid_def marker_ok_def)
  then show ?thesis
    using rest at_rest [OF rest(3)] state_ok_bound [OF k(3) assms(4)] assms(3) by (simp add: v marked_tails_ok)
qed

lemma apply_window_segment:
  assumes "ix_port ix = port" and "window_range a b apps" "0 \<le> a" "a \<le> b"
    and "rm_start_height m = a" "marker_ok m" and "floor_height st s < a"
  shows "vtriple
    (\<lambda>v. settled st heights ok s (a - 1) (with_marker JNull v) \<and> fst (snd v) = marker_json m)
    (apply_window ix apps update)
    (\<lambda>x v. (settled st heights ok s (ar_process_tail x) (with_marker JNull v) \<and> fst (snd v) = marker_json m)
       \<and> a \<le> ar_process_tail x \<and> ar_process_tail x \<le> b)
    (safe st)"
  unfolding apply_window_def assms(1)
proof (rule vtriple_then_do)
  let ?P = "\<lambda>v. settled st heights ok s (a - 1) (with_marker JNull v) \<and> fst (snd v) = marker_json m"
  have start: "safe st v" if "?P v" for v
    using marked_settled_safe [of st s "a - 1" v m] that assms(5,6,7) by simp
  show "vtriple ?P next_fault (\<lambda>_. ?P) (safe st)"
    by (rule vtriple_framed [where S = "\<lambda>_. True"]) (simp_all add: frames start)
  fix ft
  show "vtriple ?P (warehouse_call (wp_apply port ft apps update))
     (\<lambda>x v. (settled st heights ok s (ar_process_tail x) (with_marker JNull v) \<and> fst (snd v) = marker_json m)
       \<and> a \<le> ar_process_tail x \<and> ar_process_tail x \<le> b) (safe st)"
  proof (rule vtriple_warehouse_call)
    fix v r wh'
    assume P: "?P v" and run: "wp_apply port ft apps update (fst (snd (snd (snd v)))) = (r, wh')"
    obtain state raw parts wh legacy where v: "v = (state, raw, parts, wh, legacy)" by (cases v)
    from P obtain k where k: "0 \<le> k" "a - 1 < k" "heights wh = {0..<k}" "state_ok st k parts s"
      and rest: "state = Some s" "raw = marker_json m" "ok None wh" "raw_ok parts"
      by (auto simp: settled_iff with_simps v)
    have run': "wp_apply port ft apps update wh = (r, wh')" using run by (simp add: v)
    note kept = apply_kept [OF rest(3) assms(3,4,2) run']
    have "solid a (heights wh')" using kept k assms(3) by (auto simp: solid_def)
    then have failed: "safe st (with_warehouse wh' v)"
      using kept rest state_ok_bound [OF k(4) assms(7)] assms(5,6)
      by (simp add: v with_simps marked_tails_ok)
    show "case r of Inl e \<Rightarrow> safe st (with_warehouse wh' v)
      | Inr x \<Rightarrow> (settled st heights ok s (ar_process_tail x) (with_marker JNull (with_warehouse wh' v))
           \<and> fst (snd (with_warehouse wh' v)) = marker_json m)
         \<and> a \<le> ar_process_tail x \<and> ar_process_tail x \<le> b"
    proof (cases r)
      case (Inl e)
      then show ?thesis using failed by simp
    next
      case (Inr x)
      have "a \<le> k" using k(2) by simp
      from apply_segment [OF rest(3) k(3) assms(3,4) this assms(2) run' [unfolded Inr]]
      obtain k' where k': "a \<le> k'" "b < k'" "heights wh' = {0..<k'}" and ok': "ok None wh'"
        and tail: "a \<le> ar_process_tail x" "ar_process_tail x \<le> b" by blast
      have "state_ok st k' parts s" using state_ok_bound [OF k(4)] assms(7) k'(1) by simp
      moreover have "0 \<le> k'" "ar_process_tail x < k'" using k'(1,2) assms(3) tail by simp_all
      ultimately show ?thesis using Inr rest ok' tail k'(3)
        by (simp add: v with_simps settled_iff) blast
    qed
  qed
qed

lemma clear_marker_triple:
  assumes "marker_ok m" "floor_height st s < rm_start_height m" "rm_start_height m \<le> t + 1"
  shows "vtriple (\<lambda>v. settled st heights ok s t (with_marker JNull v) \<and> fst (snd v) = marker_json m)
    (clear_core_apply_recovery_marker m) (\<lambda>_. settled st heights ok s t) (safe st)"
  unfolding clear_core_apply_recovery_marker_def
proof (rule vtriple_then_do)
  let ?P = "\<lambda>v. settled st heights ok s t (with_marker JNull v) \<and> fst (snd v) = marker_json m"
  have P: "safe st v" if "?P v" for v using marked_settled_safe [OF _ _ assms] that by blast
  show "vtriple ?P (compare_and_delete_config config_key_core_apply_recovery (marker_json m))
      (\<lambda>b v. b \<and> settled st heights ok s t v) (safe st)"
    by (rule vtriple_delete_marker) (auto simp: P settled_tails_ok, simp add: marker_json_def)
  show "vtriple (\<lambda>v. b \<and> settled st heights ok s t v)
     (if b then ret () else throw (GenericError (''core apply recovery marker changed during apply instance=''
            @ rm_instance_id m @ '' window='' @ int_str (rm_start_height m) @ ''-''
            @ int_str (rm_end_height m)))) (\<lambda>_. settled st heights ok s t) (safe st)" for b
    by (cases b) (auto intro: vtriple_ret vtriple_throw)
qed

lemma step_triple:
  assumes "vtriple P work Q E" and "\<And>v. P v \<Longrightarrow> E v" and "\<And>x v. Q x v \<Longrightarrow> E v"
  shows "vtriple P (run_core_block_step ix step work) (\<lambda>r. Q (snd r)) E"
proof -
  have done': "vtriple P work (\<lambda>_. E) E" by (rule vtriple_conseq [OF assms(1)]) (auto intro: assms(3))
  have late: "vtriple P (if n = 0 then ret () else and_do (outcome work) (ret ())) (\<lambda>_. E) E" for n :: nat
    by (cases "n = 0")
      (auto intro: vtriple_ret assms(2) vtriple_and_do [OF vtriple_outcome [OF done']])
  have timed_out: "vtriple P (and_do (if n = 0 then ret () else and_do (outcome work) (ret ())) (throw e))
      (\<lambda>r. Q (snd r)) E" for n :: nat and e
    by (rule vtriple_and_do [OF late]) (rule vtriple_throw)
  have completed: "vtriple P (then_do work (\<lambda>result. and_do record_activity (and_do assert_primary_lease
      (then_do now_ms (\<lambda>ended. ret (ended - started, result)))))) (\<lambda>r. Q (snd r)) E" for started
    by (rule vtriple_then_do [OF assms(1)], rule vtriple_and_do, rule vtriple_frame_any,
        (simp_all add: frames assms(3))[2], rule vtriple_and_do, rule vtriple_frame_any,
        (simp_all add: frames assms(3))[2], rule vtriple_then_do, rule vtriple_frame_any,
        (simp_all add: frames assms(3))[2], rule vtriple_ret, simp)
  show ?thesis
    unfolding run_core_block_step_def
    by (rule vtriple_and_do, rule vtriple_frame_any, (simp_all add: frames assms(2))[2],
        rule vtriple_then_do, rule vtriple_frame_any, (simp_all add: frames assms(2))[2],
        rule vtriple_then_do, rule vtriple_frame_any, (simp_all add: frames assms(2))[2])
      (simp only: completed timed_out split: fault.split, simp)
qed

lemma apply_with_recovery_triple:
  assumes "indexer_ok ix" and "window_range a b apps" "0 \<le> a" "a \<le> b"
    and "floor_height st s < a" and "ix_port ix = port"
  shows "vtriple (settled st heights ok s (a - 1)) (apply_window_applications_with_recovery ix apps update)
    (\<lambda>r v. settled st heights ok s (ar_process_tail (snd r)) v
       \<and> a \<le> ar_process_tail (snd r) \<and> ar_process_tail (snd r) \<le> b) (safe st)"
proof -
  let ?m = "window_marker ix apps update"
  have range: "map ca_block_height apps = range_of a b" using assms(2) by (simp add: window_range_def)
  then have len: "length apps = nat (b - a + 1)" by (metis length_map length_range_of)
  then have ne: "apps \<noteq> []" using assms(4) by auto
  have "hd (map ca_block_height apps) = a" "last (map ca_block_height apps) = b"
    using assms(4) by (simp_all add: range hd_range_of last_range_of)
  then have m: "rm_start_height ?m = a" "rm_end_height ?m = b" "marker_ok ?m"
    using ne assms(1,3,4)
    by (simp_all add: window_marker_def create_core_apply_recovery_marker_def marker_ok_def
        indexer_ok_def hd_map last_map)
  let ?P = "\<lambda>t v. settled st heights ok s t (with_marker JNull v) \<and> fst (snd v) = marker_json ?m"
  have safe_P: "safe st v" if "?P t v" "a - 1 \<le> t" for t v
    using marked_settled_safe [of st s t v ?m] that assms(5) m by simp
  have set: "vtriple (settled st heights ok s (a - 1))
      (set_config config_key_core_apply_recovery (marker_json ?m)) (\<lambda>_. ?P (a - 1)) (safe st)"
  proof (rule vtriple_set_marker)
    show "?P (a - 1) (with_marker (marker_json ?m) v)" if "settled st heights ok s (a - 1) v" for v
      using that by (cases v) (simp add: with_simps settled_iff)
  qed (auto intro: settled_tails_ok safe_P)
  have applied: "vtriple (?P (a - 1)) (apply_window_applications ix apps update)
     (\<lambda>r v. ?P (ar_process_tail (snd r)) v \<and> a \<le> ar_process_tail (snd r) \<and> ar_process_tail (snd r) \<le> b) (safe st)"
    unfolding apply_window_applications_def
    by (rule step_triple [OF apply_window_segment [OF _ assms(2,3,4) m(1,3) assms(5)]])
      (use assms(6) safe_P in auto)
  have clear: "vtriple (\<lambda>v. ?P (ar_process_tail (snd r)) v \<and> a \<le> ar_process_tail (snd r) \<and> ar_process_tail (snd r) \<le> b)
     (and_do (clear_core_apply_recovery_marker ?m) (ret r))
     (\<lambda>r v. settled st heights ok s (ar_process_tail (snd r)) v
       \<and> a \<le> ar_process_tail (snd r) \<and> ar_process_tail (snd r) \<le> b) (safe st)" for r :: "int \<times> core_apply_result"
  proof (cases "a \<le> ar_process_tail (snd r) \<and> ar_process_tail (snd r) \<le> b")
    case True
    have "vtriple (?P (ar_process_tail (snd r))) (clear_core_apply_recovery_marker ?m)
        (\<lambda>_. settled st heights ok s (ar_process_tail (snd r))) (safe st)"
      by (rule clear_marker_triple) (use True assms(5) m in auto)
    then show ?thesis using True
      by (auto intro!: vtriple_and_do intro: vtriple_ret vtriple_pre)
  next
    case False
    then show ?thesis by (intro vtripleI) auto
  qed
  have handler: "vtriple (safe st) (and_do (adapt_backfill_target_rows ix None) (throw e)) Q (safe st)" for e Q
    by (rule vtriple_and_do, rule vtriple_framed [where S = "\<lambda>_. True"])
      (auto intro: frames vtriple_throw)
  show ?thesis
    unfolding apply_window_applications_with_recovery_def using ne
    by (simp, intro vtriple_and_do [OF set] vtriple_catch [OF _ handler] vtriple_then_do [OF applied clear])
qed

end

end
