(* ===== verification/Indexer_Invariant.thy ===== *)
theory Indexer_Invariant
  imports Indexer_Safety
begin

text \<open>
  The invariant along the code of an iteration: loading and processing a window, raw sync with
  its checkpoints, the stages, recovery and reconciliation at the start of an iteration, and runs.
\<close>

section \<open>Loading and parsing a window\<close>

lemma decode_block_height:
  "decode_block p = Inr app \<Longrightarrow> \<exists>b. parse_dogecoin_block_snapshot p = Inr b \<and> ca_block_height app = db_height b"
  by (auto simp: decode_block_def res_simps make_application_def)

lemma built_heights:
  assumes "build_fast_core_dogecoin_block_applications snapshots = Inr apps"
    and "list_all2 snapshot_for hs snapshots"
  shows "map ca_block_height apps = hs"
proof -
  have "list_all2 (\<lambda>p app. decode_block p = Inr app) snapshots apps"
    using assms(1) by (simp add: build_fast_iff map_res_Inr_iff)
  with assms(2) have "list_all2 (\<lambda>h app. ca_block_height app = h) hs apps"
    by (rule list_all2_trans [rotated 1])
      (auto simp: snapshot_for_def dest!: decode_block_height)
  then show ?thesis by (induction rule: list_all2_induct) auto
qed

lemma snapshot_at_for: "snapshot_at h p \<Longrightarrow> snapshot_for h p"
  by (auto simp: snapshot_at_def snapshot_for_def split: sum.splits)

text \<open>A prefix of the heights \<open>a..b\<close>, not empty.\<close>

definition loaded :: "int \<Rightarrow> int \<Rightarrow> json list \<Rightarrow> bool" where
  "loaded a b snapshots \<longleftrightarrow> (\<exists>b'. a \<le> b' \<and> b' \<le> b \<and> list_all2 snapshot_for (range_of a b') snapshots)"

lemma range_of_Cons: "a \<le> b \<Longrightarrow> range_of a b = a # range_of (a + 1) b"
proof (rule nth_equalityI)
  show "length (range_of a b) = length (a # range_of (a + 1) b)" if "a \<le> b"
    using that by (simp add: length_range_of)
  show "range_of a b ! i = (a # range_of (a + 1) b) ! i" if "a \<le> b" "i < length (range_of a b)" for i
    using that by (cases i) (auto simp: nth_range_of length_range_of)
qed

lemma loaded_single: "snapshot_for a p \<Longrightarrow> a \<le> b \<Longrightarrow> loaded a b [p]"
  unfolding loaded_def by (rule exI [of _ a]) (simp add: range_of_def)

lemma loaded_Cons: "snapshot_for a p \<Longrightarrow> loaded (a + 1) b ps \<Longrightarrow> loaded a b (p # ps)"
proof -
  assume p: "snapshot_for a p" and "loaded (a + 1) b ps"
  then obtain b' where b': "a + 1 \<le> b'" "b' \<le> b" "list_all2 snapshot_for (range_of (a + 1) b') ps"
    by (auto simp: loaded_def)
  then have "list_all2 snapshot_for (range_of a b') (p # ps)" using p by (simp add: range_of_Cons)
  then show ?thesis using b'(1,2) unfolding loaded_def by (intro exI [of _ b']) simp
qed

lemma loaded_all: "a \<le> b \<Longrightarrow> list_all2 snapshot_for (range_of a b) ps \<Longrightarrow> loaded a b ps"
  unfolding loaded_def by auto

lemma fill_from_first:
  assumes "fill_from block target deadline (h # hs) rows (w :: 'w world) = (Inr ps, w')"
  shows "\<exists>p. block h = Inr p \<and> (ps = [p] \<or> (\<exists>ps1 rows' (w1 :: 'w world) w2.
      fill_from block target deadline hs rows' w1 = (Inr ps1, w2) \<and> ps = p # ps1))"
proof -
  obtain p where p: "block h = Inr p"
    using assms by (cases "block h") (simp_all add: then_do_def lift_res_def)
  let ?rows = "rows + core_snapshot_row_count p"
  from assms p obtain w1 now where
    "(if (case target of None \<Rightarrow> False | Some t \<Rightarrow> t \<le> ?rows) \<or> deadline \<le> now then ret [p]
      else then_do (fill_from block target deadline hs ?rows) (\<lambda>rest. ret (p # rest))) w1 = (Inr ps, w')"
    by (auto simp: then_do_Inr and_do_def lift_res_def Let_def)
  then have "ps = [p] \<or> (\<exists>ps1 w2. fill_from block target deadline hs ?rows w1 = (Inr ps1, w2) \<and> ps = p # ps1)"
    by (cases "(case target of None \<Rightarrow> False | Some t \<Rightarrow> t \<le> ?rows) \<or> deadline \<le> now")
      (auto simp: then_do_Inr ret_def)
  then show ?thesis using p by blast
qed

lemma fill_from_loaded:
  assumes "fill_from block target deadline (range_of a b) rows (w :: 'w world) = (Inr ps, w')"
    and "\<And>h p. block h = Inr p \<Longrightarrow> snapshot_for h p" and "a \<le> b"
  shows "loaded a b ps"
  using assms(1,3)
proof (induction "nat (b - a)" arbitrary: a rows w ps w')
  case 0
  then have "range_of a b = [a]" by (simp add: range_of_def)
  then show ?case using 0 assms(2)
    by (auto simp: then_do_Inr and_do_def lift_res_def ret_def Let_def split: if_splits
        intro: loaded_single)
next
  case (Suc n)
  then have range: "range_of a b = a # range_of (a + 1) b" by (simp add: range_of_Cons)
  have "\<exists>p. block a = Inr p \<and> (ps = [p] \<or> (\<exists>ps1 rows' (w1 :: 'w world) w2.
      fill_from block target deadline (range_of (a + 1) b) rows' w1 = (Inr ps1, w2) \<and> ps = p # ps1))"
    using Suc.prems(1) unfolding range by (rule fill_from_first)
  then obtain p where p: "block a = Inr p" and rest: "ps = [p] \<or> (\<exists>ps1 rows' (w1 :: 'w world) w2.
      fill_from block target deadline (range_of (a + 1) b) rows' w1 = (Inr ps1, w2) \<and> ps = p # ps1)"
    by blast
  then consider "ps = [p]" | ps1 rows' w1 w2 where "ps = p # ps1"
    "fill_from block target deadline (range_of (a + 1) b) rows' (w1 :: 'w world) = (Inr ps1, w2)" by blast
  then show ?case
  proof cases
    case 1
    then show ?thesis using loaded_single [OF assms(2) [OF p]] Suc.prems(2) by simp
  next
    case (2 ps1 rows' w1 w2)
    have "n = nat (b - (a + 1))" "a + 1 \<le> b" using Suc.hyps(2) by simp_all
    then have "loaded (a + 1) b ps1" using Suc.hyps(1) 2(2) by blast
    then show ?thesis using 2(1) loaded_Cons [OF assms(2) [OF p]] by simp
  qed
qed

lemma load_backfill_loaded:
  assumes "load_backfill_snapshots ix it p w = (Inr ps, w')"
    and "\<And>source h p. it_block it source h = Inr p \<Longrightarrow> snapshot_for h p"
    and "pl_first_height p \<le> pl_last_height p"
  shows "loaded (pl_first_height p) (pl_last_height p) ps"
proof -
  have fill: "loaded (pl_first_height p) (pl_last_height p) ps"
    if "fill_backfill_window ix it p source w = (Inr ps, w')" for source w w'
    using that fill_from_loaded [OF _ assms(2) assms(3)]
    by (auto simp: fill_backfill_window_def then_do_Inr)
  show ?thesis
    using assms(1) fill
    by (auto simp: load_backfill_snapshots_def catch_Inr throw_def then_do_Inr and_do_def split: if_splits)
qed

lemma store_read_result:
  assumes "store_read f w = (Inr x, w')" shows "\<exists>fts. x = f (w\<lparr>wd_script := fts\<rparr>)"
proof (cases "wd_script w")
  case Nil
  have "w\<lparr>wd_script := []\<rparr> = w" using Nil by (cases w) simp
  moreover have "x = f w"
    using Nil assms by (auto simp: store_read_def then_do_def next_fault_def get_field_def)
  ultimately have "x = f (w\<lparr>wd_script := []\<rparr>)" by simp
  then show ?thesis ..
next
  case (Cons ft fts)
  then have "x = f (w\<lparr>wd_script := fts\<rparr>)"
    using assms by (cases ft) (auto simp: store_read_def then_do_def next_fault_def get_field_def throw_def)
  then show ?thesis ..
qed

lemma load_raw_snapshot_result:
  assumes "load_raw_snapshot ix h w = (Inr p, w')" shows "js_get (wd_raw_parts w) h = Some p"
proof -
  obtain part t where read: "store_read (\<lambda>w. js_get (wd_raw_parts w) h) w = (Inr part, t)"
    and case': "(case part of None \<Rightarrow> throw (GenericError (''missing raw dogecoin block snapshot chain=''
      @ ix_chain ix @ '' height='' @ int_str h)) | Some snapshot \<Rightarrow> ret snapshot) t = (Inr p, w')"
    using assms unfolding load_raw_snapshot_def then_do_Inr by blast
  have "part = Some p" using case' by (cases part) (simp_all add: throw_def ret_def)
  then show ?thesis using store_read_result [OF read] by auto
qed

lemma load_raw_loaded:
  assumes "load_raw_snapshots ix hs w = (Inr ps, w')" and "raw_ok (wd_raw_parts w)"
  shows "list_all2 snapshot_for hs ps"
  using assms
proof (induction hs arbitrary: w ps w')
  case Nil
  then show ?case by (simp add: ret_def)
next
  case (Cons h hs)
  then obtain p w1 ps1 w2 where p: "load_raw_snapshot ix h w = (Inr p, w1)"
    and rest: "load_raw_snapshots ix hs w1 = (Inr ps1, w2)" and ps: "ps = p # ps1"
    by (auto simp: then_do_Inr ret_def)
  have "safety_view w1 = safety_view w"
    by (rule framedD [OF framed_load_raw_snapshot [where S = "\<lambda>_. True"] _ p]) simp
  then have parts: "wd_raw_parts w1 = wd_raw_parts w" by (simp add: safety_view_def)
  have "js_get (wd_raw_parts w) h = Some p" by (rule load_raw_snapshot_result [OF p])
  then have "snapshot_for h p" using Cons.prems(2) by (auto simp: raw_ok_def intro: snapshot_at_for)
  then show ?case using Cons.IH [OF rest] Cons.prems(2) by (simp add: parts ps)
qed

section \<open>Processing and publishing\<close>

text \<open>The settled worlds whose state row satisfies \<open>R\<close>.\<close>

definition settled_with ::
  "core_settings \<Rightarrow> ('w \<Rightarrow> int set) \<Rightarrow> (int option \<Rightarrow> 'w \<Rightarrow> bool) \<Rightarrow> (core_indexer_state \<Rightarrow> bool) \<Rightarrow> 'w safety_view \<Rightarrow> bool" where
  "settled_with st heights ok R v \<longleftrightarrow> (\<exists>s. R s \<and> settled st heights ok s (floor_height st s) v)"

lemma settled_with_tails_ok: "settled_with st heights ok R v \<Longrightarrow> tails_ok st heights ok v"
  by (auto simp: settled_with_def dest: settled_tails_ok)

lemma settled_with_present: "settled_with st heights ok R v \<Longrightarrow> present (fst v)"
  by (auto simp: settled_with_def dest: settled_present)

lemma settled_with_mono: "settled_with st heights ok R v \<Longrightarrow> (\<And>s. R s \<Longrightarrow> R' s) \<Longrightarrow> settled_with st heights ok R' v"
  by (auto simp: settled_with_def)

lemma settled_withI: "settled st heights ok s t v \<Longrightarrow> R s \<Longrightarrow> settled_with st heights ok R v"
  by (auto simp: settled_with_def dest: settled_floor)

lemma settled_fst: "settled st heights ok s t v \<Longrightarrow> fst v = Some s"
  by (auto simp: settled_def)

text \<open>A new state row keeps a settled world settled when it fits the processed heights.\<close>

lemma settled_with_state:
  assumes "settled st heights ok s t v" and "- 1 \<le> cs_process_tail s'" "cs_process_tail s' \<le> cs_sync_tail s'"
    and "floor_height st s' \<le> max t (floor_height st s)"
    and "\<And>parts. raw_covers parts (cs_sync_tail s) \<Longrightarrow> parts = fst (snd (snd v)) \<Longrightarrow> raw_covers parts (cs_sync_tail s')"
  shows "settled st heights ok s' t (with_state s' v)"
proof -
  obtain state raw parts wh legacy where v: "v = (state, raw, parts, wh, legacy)" by (cases v)
  with assms(1) obtain k where k: "0 \<le> k" "t < k" "heights wh = {0..<k}" "state_ok st k parts s"
    and rest: "raw = JNull" "ok None wh" "raw_ok parts" by (auto simp: settled_iff)
  have "state_ok st k parts s'" using assms(2-5) k(2,4) by (auto simp: v state_ok_def max_def split: if_splits)
  then show ?thesis using k rest by (auto simp: v with_simps settled_iff)
qed

context window_store
begin

lemma set_error_triple: "vtriple (safe st) (set_error message) (\<lambda>_. safe st) (safe st)"
  unfolding set_error_def
proof (rule vtriple_and_do)
  show "vtriple (safe st) (upsert_state (no_update\<lparr>up_last_error := Some (Some message)\<rparr>)) (\<lambda>_. safe st) (safe st)"
  proof (rule vtriple_upsert)
    fix v assume safe: "safe st v"
    obtain state raw parts wh legacy where v: "v = (state, raw, parts, wh, legacy)" by (cases v)
    let ?s = "upsert_core_indexer_state (no_update\<lparr>up_last_error := Some (Some message)\<rparr>) state"
    have "state_ok st k parts ?s" if "solid k (heights wh)" "state = None" "heights wh = {}" for k
      using that by (auto simp: upsert_core_indexer_state_def no_update_def state_ok_def floor_height_def
          raw_covers_def solid_def)
    moreover have "state_ok st k parts ?s" if "state = Some s" "state_ok st k parts s" for k s
      using that by (auto simp: upsert_core_indexer_state_def no_update_def state_ok_def floor_height_def)
    ultimately show "safe st (with_state (upsert_core_indexer_state (no_update\<lparr>up_last_error := Some (Some message)\<rparr>) (fst v)) v)"
      using safe by (cases state) (auto simp: v tails_ok_def with_simps)
  qed
qed (rule vtriple_ret)

lemma exit_process_triple: "vtriple (safe st) (exit_process message) Q (safe st)"
  unfolding exit_process_def by (rule vtriple_and_do [OF set_error_triple]) (rule vtriple_throw)

lemma exit_for_timeout_triple: "vtriple (safe st) (and_do (exit_for_core_block_timeout ix e h) (throw e')) Q (safe st)"
proof (rule vtriple_and_do)
  show "vtriple (safe st) (exit_for_core_block_timeout ix e h) (\<lambda>_. safe st) (safe st)"
    unfolding exit_for_core_block_timeout_def
    by (cases e) (auto intro: vtriple_ret exit_process_triple)
qed (rule vtriple_throw)

lemma process_window_triple:
  assumes "indexer_ok ix" and "ix_port ix = port" and "0 \<le> a" and "floor_height st s < a"
    and load: "vtriple (settled st heights ok s (a - 1)) load
      (\<lambda>ps v. loaded a b ps \<and> settled st heights ok s (a - 1) v) (safe st)"
  shows "vtriple (settled st heights ok s (a - 1)) (process_window ix load last_height update)
    (\<lambda>m v. settled st heights ok s (wm_end m) v \<and> a \<le> wm_end m \<and> wm_end m \<le> b) (safe st)"
  unfolding process_window_def
proof (rule vtriple_catch [OF _ exit_for_timeout_triple])
  let ?P = "settled st heights ok s (a - 1)"
  have build: "vtriple ?P (run_core_block_step ix ''build_application''
      (lift_res (build_fast_core_dogecoin_block_applications ps)))
      (\<lambda>r v. (\<exists>b'. a \<le> b' \<and> b' \<le> b \<and> window_range a b' (snd r)) \<and> ?P v) (safe st)"
    if "loaded a b ps" for ps
  proof (rule step_triple [where Q = "\<lambda>apps v. (\<exists>b'. a \<le> b' \<and> b' \<le> b \<and> window_range a b' apps) \<and> ?P v"])
    show "vtriple ?P (lift_res (build_fast_core_dogecoin_block_applications ps))
      (\<lambda>apps v. (\<exists>b'. a \<le> b' \<and> b' \<le> b \<and> window_range a b' apps) \<and> ?P v) (safe st)"
      using that by (intro vtriple_lift) (auto simp: loaded_def window_range_def dest: built_heights built_parsed settled_tails_ok)
  qed (auto dest: settled_tails_ok)
  have result: "vtriple (\<lambda>v. (\<exists>b'. a \<le> b' \<and> b' \<le> b \<and> window_range a b' apps) \<and> ?P v)
      (then_do (apply_window_applications_with_recovery ix apps update) (\<lambda>(ms, r).
        ret \<lparr>wm_applied = ar_applied r, wm_apply_ms = ms, wm_end = ar_process_tail r\<rparr>))
      (\<lambda>m v. settled st heights ok s (wm_end m) v \<and> a \<le> wm_end m \<and> wm_end m \<le> b) (safe st)" for apps
  proof (rule vtriple_assume)
    assume "\<exists>b'. a \<le> b' \<and> b' \<le> b \<and> window_range a b' apps"
    then obtain b' where b': "a \<le> b'" "b' \<le> b" "window_range a b' apps" by blast
    show "vtriple ?P (then_do (apply_window_applications_with_recovery ix apps update) (\<lambda>(ms, r).
        ret \<lparr>wm_applied = ar_applied r, wm_apply_ms = ms, wm_end = ar_process_tail r\<rparr>))
      (\<lambda>m v. settled st heights ok s (wm_end m) v \<and> a \<le> wm_end m \<and> wm_end m \<le> b) (safe st)"
      by (rule vtriple_then_do [OF apply_with_recovery_triple [OF assms(1) b'(3) assms(3) b'(1) assms(4,2)]])
        (use b'(2) in \<open>auto intro: vtriple_ret\<close>)
  qed
  show "vtriple ?P (process_window_with_attempt ix load update)
      (\<lambda>m v. settled st heights ok s (wm_end m) v \<and> a \<le> wm_end m \<and> wm_end m \<le> b) (safe st)"
    unfolding process_window_with_attempt_def
  proof (rule vtriple_then_do)
    show "vtriple ?P (run_core_block_step ix ''load_raw'' load) (\<lambda>r v. loaded a b (snd r) \<and> ?P v) (safe st)"
      by (rule step_triple [OF load]) (auto dest: settled_tails_ok)
    show "vtriple (\<lambda>v. loaded a b (snd r) \<and> ?P v)
      (case r of (_, snapshots) \<Rightarrow>
        then_do (run_core_block_step ix ''build_application''
               (lift_res (build_fast_core_dogecoin_block_applications snapshots))) (\<lambda>(_, apps).
        then_do (apply_window_applications_with_recovery ix apps update) (\<lambda>(ms, r).
        ret \<lparr>wm_applied = ar_applied r, wm_apply_ms = ms, wm_end = ar_process_tail r\<rparr>)))
      (\<lambda>m v. settled st heights ok s (wm_end m) v \<and> a \<le> wm_end m \<and> wm_end m \<le> b) (safe st)" for r :: "int \<times> json list"
      by (rule vtriple_assume, cases r) (auto intro!: vtriple_then_do [OF build] result)
  qed
qed

lemma publish_window_triple:
  assumes "settings_ok st" and "- 1 \<le> wm_end m" "wm_end m \<le> cs_sync_tail s"
  shows "vtriple (settled st heights ok s (wm_end m)) (publish_window_progress ix latest m stage)
    (\<lambda>_. settled_with st heights ok (\<lambda>s'. cs_stage s' = stage)) (safe st)"
  unfolding publish_window_progress_def
proof (rule vtriple_catch [OF _ exit_for_timeout_triple], rule vtriple_and_do)
  let ?u = "\<lparr>up_last_error = Some None, up_online_tip = Some latest, up_process_tail = Some (wm_end m),
    up_stage = Some stage, up_sync_tail = None\<rparr>"
  let ?Q = "settled_with st heights ok (\<lambda>s'. cs_stage s' = stage)"
  have upsert: "vtriple (settled st heights ok s (wm_end m)) (upsert_state ?u) (\<lambda>_. ?Q) (safe st)"
  proof (rule vtriple_upsert)
    fix v assume v: "settled st heights ok s (wm_end m) v"
    let ?s = "upsert_core_indexer_state ?u (Some s)"
    have "settled st heights ok ?s (wm_end m) (with_state ?s v)"
      by (rule settled_with_state [OF v])
        (use assms in \<open>auto simp: upsert_core_indexer_state_def floor_height_def settings_ok_def\<close>)
    then show "?Q (with_state (upsert_core_indexer_state ?u (fst v)) v)"
      using settled_fst [OF v] by (auto simp: upsert_core_indexer_state_def intro: settled_withI)
  qed (auto dest: settled_tails_ok settled_with_tails_ok)
  show "vtriple (settled st heights ok s (wm_end m)) (run_core_block_step ix ''publish_progress''
      (then_do (upsert_state ?u) (\<lambda>s. and_do (publish_progress ix latest s) (ret s)))) (\<lambda>_. ?Q) (safe st)"
    by (rule step_triple [where Q = "\<lambda>_. ?Q"], rule vtriple_then_do [OF upsert], rule vtriple_and_do,
        rule vtriple_framed [OF framed_publish_progress])
      (auto intro: vtriple_ret dest: settled_tails_ok settled_with_tails_ok settled_with_present)
qed (rule vtriple_ret)

end

section \<open>Raw sync\<close>

definition with_parts :: "(int, json) js_map \<Rightarrow> 'w safety_view \<Rightarrow> 'w safety_view" where
  "with_parts parts' = (\<lambda>(state, raw, parts, wh, legacy). (state, raw, parts', wh, legacy))"

definition parts_dom :: "'w safety_view \<Rightarrow> int set" where
  "parts_dom v = {h. js_get (fst (snd (snd v))) h \<noteq> None}"

abbreviation put_parts :: "(int \<times> json) list \<Rightarrow> (int, json) js_map \<Rightarrow> (int, json) js_map" where
  "put_parts ps parts \<equiv> fold (\<lambda>(h, p). js_set h p) ps parts"

lemma js_get_put_parts:
  "js_get (put_parts ps parts) h = (case map_of (rev ps) h of Some p \<Rightarrow> Some p | None \<Rightarrow> js_get parts h)"
  using jsm.get_put_all [of ps parts h] by (simp add: jsm.put_all_def)

lemma stored_snapshot_at: "store_snapshot an (h, p) = Inr r \<Longrightarrow> snapshot_at h p"
  by (auto simp: store_snapshot_def parse_raw_block_snapshot_def and_then_Inr_iff snapshot_at_def
      split: if_splits)

lemma attempt_parts_at: "(h, p) \<in> set (attempt_parts an batch) \<Longrightarrow> snapshot_at h p"
  by (auto simp: attempt_parts_def is_ok_iff intro: stored_snapshot_at split: sum.splits if_splits)

lemma attempt_parts_all:
  assumes "sync_batch an batch = Inr stored" shows "fst ` set (attempt_parts an batch) = set batch"
proof -
  from assms obtain snapshots where sn: "an_snapshots an = Inr snapshots" "length snapshots = length batch"
    and stored: "map_res (store_snapshot an) (zip batch snapshots) = Inr stored"
    by (auto simp: sync_batch_def and_then_Inr_iff split: if_splits)
  have "is_ok (store_snapshot an p)" if "p \<in> set (zip batch snapshots)" for p
  proof -
    obtain i where i: "i < length (zip batch snapshots)" "zip batch snapshots ! i = p"
      using \<open>p \<in> set (zip batch snapshots)\<close> by (metis in_set_conv_nth)
    have "store_snapshot an (zip batch snapshots ! i) = Inr (stored ! i)"
      using stored i(1) by (simp only: map_res_Inr_iff list_all2_conv_all_nth)
    then show ?thesis by (simp add: i(2) is_ok_iff)
  qed
  then have "attempt_parts an batch = zip batch snapshots"
    by (simp add: attempt_parts_def sn filter_id_conv)
  moreover have "map fst (zip batch snapshots) = batch" by (rule map_fst_zip) (simp add: sn)
  ultimately show ?thesis by (metis set_map)
qed

lemma put_parts_raw_ok:
  "raw_ok parts \<Longrightarrow> (\<And>h p. (h, p) \<in> set ps \<Longrightarrow> snapshot_at h p) \<Longrightarrow> raw_ok (put_parts ps parts)"
  by (auto simp: raw_ok_def js_get_put_parts split: option.splits dest!: map_of_SomeD)

lemma put_parts_dom:
  "js_get (put_parts ps parts) h \<noteq> None \<longleftrightarrow> h \<in> fst ` set ps \<or> js_get parts h \<noteq> None"
proof -
  have "map_of (rev ps) h = None \<longleftrightarrow> h \<notin> fst ` set ps" by (simp add: map_of_eq_None_iff)
  then show ?thesis by (auto simp: js_get_put_parts split: option.splits)
qed

lemma view_store_attempt:
  "safety_view (store_attempt an batch w)
     = with_parts (put_parts (attempt_parts an batch) (wd_raw_parts w)) (safety_view w)"
  by (simp add: safety_view_def store_attempt_def with_parts_def Let_def)

lemma view_parts: "fst (snd (snd (safety_view w))) = wd_raw_parts w"
  by (simp add: safety_view_def)

lemma end_attempt_written:
  assumes "i < length (sy_running s)"
  shows "written_heights (end_attempt st i an s)
    \<subseteq> written_heights s \<union> (if is_ok (sync_batch an (fst (sy_running s ! i))) then set (fst (sy_running s ! i)) else {})"
proof -
  obtain batch attempt where run: "sy_running s ! i = (batch, attempt)" by fastforce
  show ?thesis
  proof (cases "sync_batch an batch")
    case (Inl e)
    then show ?thesis using run by (simp add: end_attempt_def written_heights_def Let_def)
  next
    case (Inr stored)
    have "sy_stored (end_attempt st i an s) = sy_stored s @ stored" using run Inr by (simp add: end_attempt_def)
    then have "written_heights (end_attempt st i an s) = written_heights s
        \<union> set (map (\<lambda>r. cb_block_height (sr_record r)) stored)"
      by (simp add: written_heights_def image_Un)
    then show ?thesis using run Inr by (simp add: sync_batch_heights [OF Inr])
  qed
qed

lemma end_round_written: "written_heights (end_round cp s) = written_heights s"
  by (simp add: written_heights_def end_round_fields)

lemma start_round_written: "written_heights (start_round s) = written_heights s"
  by (simp add: written_heights_def start_round_def Let_def)

text \<open>
  The loop under a script: \<open>J\<close> is what the caller wants to keep; it must survive new parts, and the
  hook may rely on every height from the first requested one up to the frontier being stored.
\<close>

lemma drive_sync_triple:
  assumes "sync_core hs s"
    and J_parts: "\<And>v an batch. J v \<Longrightarrow> J (with_parts (put_parts (attempt_parts an batch) (fst (snd (snd v)))) v)"
    and J_safe: "\<And>v. J v \<Longrightarrow> E v"
    and hook: "\<And>D f. {sync_base hs + 1..f} \<subseteq> D \<Longrightarrow>
      vtriple (\<lambda>v. J v \<and> D \<subseteq> parts_dom v) (hook f) (\<lambda>_ v. J v \<and> D \<subseteq> parts_dom v)
        (\<lambda>v. J v \<and> D \<subseteq> parts_dom v)"
  shows "vtriple (\<lambda>v. J v \<and> written_heights s \<subseteq> parts_dom v) (drive_sync st hook es s)
    (\<lambda>s' v. sync_finished s' \<and> sync_core hs s' \<and> J v \<and> written_heights s' \<subseteq> parts_dom v) E"
  using assms(1)
proof (induction es arbitrary: s)
  case Nil
  let ?P = "\<lambda>v. J v \<and> written_heights s \<subseteq> parts_dom v"
  have ch: "framed (\<lambda>_. True) (change (\<lambda>w. w\<lparr>wd_controller := sy_controller s\<rparr>))"
    by (rule framed_change) (simp add: safety_view_def)
  have "vtriple ?P (if sync_finished s then ret s
        else case sy_error s of Some e \<Rightarrow> throw e | None \<Rightarrow> throw (ProcessExit 0))
    (\<lambda>s' v. sync_finished s' \<and> sync_core hs s' \<and> J v \<and> written_heights s' \<subseteq> parts_dom v) E"
    using Nil by (auto intro!: vtriple_ret vtriple_throw J_safe split: option.split)
  then show ?case
    unfolding drive_sync.simps
    by (intro vtriple_and_do [OF vtriple_frame_any [OF ch]]) (auto intro: J_safe)
next
  case (Cons e es)
  let ?P = "\<lambda>s v. J v \<and> written_heights s \<subseteq> parts_dom v"
  let ?Q = "\<lambda>s' v. sync_finished s' \<and> sync_core hs s' \<and> J v \<and> written_heights s' \<subseteq> parts_dom v"
  show ?case
  proof (cases e)
    case (Round_Start active)
    show ?thesis
    proof (cases "sync_step st (Round_Start active) s = None")
      case True
      then show ?thesis using Cons Round_Start by simp
    next
      case False
      have next': "vtriple (?P s) (drive_sync st hook es (the (sync_step st (Round_Start r) s))) ?Q E" for r
      proof -
        obtain s' where s': "sync_step st (Round_Start r) s = Some s'" using False by (auto split: if_splits)
        then have "written_heights s' = written_heights s"
          by (auto simp: start_round_written written_heights_def split: if_splits sum.splits)
            (auto simp: start_round_def Let_def)
        then show ?thesis using Cons.IH [OF sync_core_step [OF Cons.prems s']] s' by simp
      qed
      have "vtriple (?P s) (outcome assert_primary_lease) (\<lambda>_. ?P s) E"
        by (rule vtriple_frame_any) (auto intro: framed_outcome frames J_safe)
      then show ?thesis
        by (simp only: Round_Start drive_sync.simps if_not_P [OF False])
          (rule vtriple_then_do, assumption, rule next')
    qed
  next
    case (Attempt i an)
    show ?thesis
    proof (cases "i < length (sy_running s)")
      case False
      then show ?thesis using Cons Attempt by simp
    next
      case True
      let ?batch = "fst (sy_running s ! i)"
      let ?s = "end_attempt st i an s"
      have store: "vtriple (?P s) (change (store_attempt an ?batch)) (\<lambda>_. ?P ?s) E"
      proof (rule vtriple_change)
        fix w assume P: "?P s (safety_view w)"
        have "set ?batch \<subseteq> fst ` set (attempt_parts an ?batch)" if "is_ok (sync_batch an ?batch)"
          using that attempt_parts_all by (auto simp: is_ok_iff)
        then have "written_heights ?s \<subseteq> fst ` set (attempt_parts an ?batch) \<union> parts_dom (safety_view w)"
          using end_attempt_written [OF True, of st an] P by (auto split: if_splits)
        moreover have "parts_dom (safety_view (store_attempt an ?batch w))
            = fst ` set (attempt_parts an ?batch) \<union> parts_dom (safety_view w)"
        proof -
          have "parts_dom (with_parts (put_parts ps parts) v) = fst ` set ps \<union> {h. js_get parts h \<noteq> None}"
            for ps :: "(int \<times> json) list" and parts and v :: "'w safety_view"
          proof -
            obtain state raw parts0 wh legacy where v: "v = (state, raw, parts0, wh, legacy)" by (cases v)
            show ?thesis using put_parts_dom [of ps parts] by (auto simp: v parts_dom_def with_parts_def)
          qed
          then show ?thesis by (simp add: view_store_attempt parts_dom_def view_parts)
        qed
        ultimately show "?P ?s (safety_view (store_attempt an ?batch w))"
          using J_parts [of "safety_view w" an ?batch] P by (simp add: view_store_attempt view_parts)
      qed
      have act: "vtriple (?P ?s) record_activity (\<lambda>_. ?P ?s) E"
        by (rule vtriple_frame_any) (auto intro: frames J_safe)
      have "sync_core hs ?s" by (rule sync_core_step [OF Cons.prems, of st "Attempt i an"]) (simp add: True)
      then show ?thesis using True Attempt
        by (simp, intro vtriple_and_do [OF store] vtriple_and_do [OF act] Cons.IH)
    qed
  next
    case (Round_End checkpoint)
    show ?thesis
    proof (cases "sync_step st (Round_End checkpoint) s = None")
      case True
      then show ?thesis using Cons Round_End by simp
    next
      case False
      then have idle: "sy_error s = None" "sy_running s = []" "sy_round s \<noteq> []" by (auto split: if_splits)
      have inv: "sync_core hs (end_round r s)" for r by (rule sync_core_end_round [OF Cons.prems idle(1,2)])
      have next': "vtriple (?P s) (drive_sync st hook es (end_round r s)) ?Q E" for r
        using Cons.IH [OF inv] by (simp add: end_round_written)
      show ?thesis
      proof (cases "sy_checkpoints (end_round (Inr ()) s) = sy_checkpoints s")
        case True
        show ?thesis
          unfolding Round_End drive_sync.simps if_not_P [OF False] if_P [OF True] by (rule next')
      next
        case moved: False
        let ?f = "last (sy_checkpoints (end_round (Inr ()) s))"
        have "?f \<in> set (sy_checkpoints (end_round (Inr ()) s))"
          using moved end_round_fields(7) [of "Inr ()" s] by auto
        then have "{sync_base hs + 1..?f} \<subseteq> written_heights s"
          using checkpoint_covered [OF inv] by (simp add: end_round_written)
        from vtriple_outcome [OF hook [OF this]]
        have "vtriple (?P s) (outcome (hook ?f)) (\<lambda>_. ?P s) E" .
        then show ?thesis
          by (simp only: Round_End drive_sync.simps if_not_P [OF False] if_not_P [OF moved])
            (rule vtriple_then_do, assumption, rule next')
      qed
    qed
  qed
qed

lemma with_parts_simp: "with_parts parts' (state, raw, parts, wh, legacy) = (state, raw, parts', wh, legacy)"
  by (simp add: with_parts_def)

lemma put_parts_covers: "raw_covers parts n \<Longrightarrow> raw_covers (put_parts ps parts) n"
  using put_parts_dom [of ps parts] unfolding raw_covers_def by blast

lemma settled_with_put:
  assumes "settled_with st heights ok R v"
  shows "settled_with st heights ok R (with_parts (put_parts (attempt_parts an batch) (fst (snd (snd v)))) v)"
proof -
  obtain state raw parts wh legacy where v: "v = (state, raw, parts, wh, legacy)" by (cases v)
  from assms obtain s k where s: "R s" "state = Some s" "raw = JNull" "ok None wh" "raw_ok parts"
    and k: "0 \<le> k" "floor_height st s < k" "heights wh = {0..<k}" "state_ok st k parts s"
    by (auto simp: v settled_with_def settled_iff)
  have "state_ok st k (put_parts (attempt_parts an batch) parts) s"
    using k(4) by (simp add: state_ok_def put_parts_covers)
  moreover have "raw_ok (put_parts (attempt_parts an batch) parts)"
    by (rule put_parts_raw_ok [OF s(5)]) (rule attempt_parts_at)
  ultimately have "settled st heights ok s (floor_height st s)
      (state, raw, put_parts (attempt_parts an batch) parts, wh, legacy)"
    using s k by (auto simp: settled_iff)
  then show ?thesis using s(1) by (auto simp: v with_parts_simp settled_with_def)
qed

lemma sync_base_bound: "sync_base (range_of a b) + 1 = a \<or> sync_base (range_of a b) + 1 = 0"
  by (cases "a \<le> b") (simp_all add: sync_base_range_of, simp add: range_of_def sync_base_def)

text \<open>A raw sync of the heights \<open>a..b\<close>: what the caller wants to keep, and the requested parts.\<close>

lemma store_raw_triple:
  assumes J_parts: "\<And>v an batch. J v \<Longrightarrow> J (with_parts (put_parts (attempt_parts an batch) (fst (snd (snd v)))) v)"
    and J_safe: "\<And>v. J v \<Longrightarrow> E v"
    and hook: "\<And>D f. {sync_base (range_of a b) + 1..f} \<subseteq> D \<Longrightarrow>
      vtriple (\<lambda>v. J v \<and> D \<subseteq> parts_dom v) (hook f) (\<lambda>_ v. J v \<and> D \<subseteq> parts_dom v)
        (\<lambda>v. J v \<and> D \<subseteq> parts_dom v)"
  shows "vtriple J (store_raw_block_heights ix (range_of a b) hook)
    (\<lambda>_ v. J v \<and> {a..b} \<subseteq> parts_dom v) E"
  unfolding store_raw_block_heights_def Let_def
proof (rule vtriple_then_do)
  show "vtriple J next_sync (\<lambda>_. J) E" by (rule vtriple_frame_any) (auto intro: frames J_safe)
next
  fix es
  show "vtriple J (then_do (get_field wd_controller) (\<lambda>c.
      drive_sync (sync_settings_of (ix_settings ix)) hook es
        (sync_start (sync_settings_of (ix_settings ix)) c (range_of a b))))
      (\<lambda>_ v. J v \<and> {a..b} \<subseteq> parts_dom v) E"
  proof (rule vtriple_then_do)
    show "vtriple J (get_field wd_controller) (\<lambda>_. J) E"
      by (rule vtriple_frame_any) (auto intro: frames J_safe)
  next
    fix c
    let ?s = "sync_start (sync_settings_of (ix_settings ix)) c (range_of a b)"
    have start: "sync_core (range_of a b) ?s" using sync_core_start [of "range_of a b"] by (simp add: sort_range_of)
    have none: "written_heights ?s = {}" by (simp add: written_heights_def sync_start_def Let_def)
    have done': "{a..b} \<subseteq> parts_dom v"
      if "sync_finished s'" "sync_core (range_of a b) s'" "written_heights s' \<subseteq> parts_dom v" for s' v
      using that finished_written [OF that(2,1)] by (simp add: set_range_of)
    show "vtriple J (drive_sync (sync_settings_of (ix_settings ix)) hook es ?s)
      (\<lambda>_ v. J v \<and> {a..b} \<subseteq> parts_dom v) E"
      by (rule vtriple_conseq [OF drive_sync_triple [OF start J_parts J_safe hook]])
        (auto simp: none dest: done')
  qed
qed

section \<open>The sync stage\<close>

text \<open>The rows that a sync of the state \<open>s\<close> may leave behind.\<close>

definition synced_from :: "core_indexer_state \<Rightarrow> core_indexer_state \<Rightarrow> bool" where
  "synced_from s s' \<longleftrightarrow> cs_process_tail s' = cs_process_tail s \<and> cs_stage s' = cs_stage s
     \<and> cs_sync_tail s \<le> cs_sync_tail s'"

lemma settled_with_synced: "settled st heights ok s t v \<Longrightarrow> settled_with st heights ok (synced_from s) v"
  by (erule settled_withI) (simp add: synced_from_def)

lemma raw_covers_extend:
  assumes "raw_covers parts n" and "{a..b} \<subseteq> {h. js_get parts h \<noteq> None}" and "a \<le> n + 1"
  shows "raw_covers parts b"
  unfolding raw_covers_def
proof
  fix h assume "h \<in> {0..b}"
  then consider "h \<in> {0..n}" | "h \<in> {a..b}" using assms(3) by force
  then show "js_get parts h \<noteq> None"
    by cases (use assms(1,2) in \<open>auto simp: raw_covers_def\<close>)
qed

lemma settled_with_covers:
  assumes "settled_with st heights ok (synced_from s) v" and "v = (state, raw, parts, wh, legacy)"
  shows "raw_covers parts (cs_sync_tail s)"
  using assms by (auto simp: settled_with_def settled_iff synced_from_def state_ok_def intro: raw_covers_mono)

text \<open>Moving the sync tail of such a row to \<open>f\<close>, once the parts from \<open>a\<close> to \<open>f\<close> are there.\<close>

lemma settled_with_move:
  assumes "settled_with st heights ok (synced_from s) v"
    and "{a..f} \<subseteq> parts_dom v" "a \<le> cs_sync_tail s + 1" "cs_process_tail s \<le> f"
  shows "fst v \<noteq> None
    \<and> settled_with st heights ok (\<lambda>s'. cs_process_tail s' = cs_process_tail s \<and> cs_stage s' = cs_stage s
        \<and> cs_sync_tail s' = f)
      (with_state (upsert_core_indexer_state \<lparr>up_last_error = e, up_online_tip = tip, up_process_tail = None,
         up_stage = Some (cs_stage s), up_sync_tail = Some f\<rparr> (fst v)) v)"
proof -
  obtain state raw parts wh legacy where v: "v = (state, raw, parts, wh, legacy)" by (cases v)
  have "{a..f} \<subseteq> {h. js_get parts h \<noteq> None}" using assms(2) by (simp add: v parts_dom_def)
  then have covers: "raw_covers parts f"
    by (rule raw_covers_extend [OF settled_with_covers [OF assms(1) v] _ assms(3)])
  from assms(1) obtain s1 where s1: "synced_from s s1" "settled st heights ok s1 (floor_height st s1) v"
    unfolding settled_with_def by blast
  let ?u = "\<lparr>up_last_error = e, up_online_tip = tip, up_process_tail = None,
         up_stage = Some (cs_stage s), up_sync_tail = Some f\<rparr>"
  let ?s = "upsert_core_indexer_state ?u (fst v)"
  have fields: "cs_process_tail ?s = cs_process_tail s" "cs_stage ?s = cs_stage s" "cs_sync_tail ?s = f"
    using s1(1) settled_fst [OF s1(2)] by (simp_all add: upsert_core_indexer_state_def synced_from_def)
  have "settled st heights ok ?s (floor_height st s1) (with_state ?s v)"
  proof (rule settled_with_state [OF s1(2)])
    have "- 1 \<le> cs_process_tail s"
      using s1 by (auto simp: v settled_iff state_ok_def synced_from_def)
    then show "- 1 \<le> cs_process_tail ?s" by (simp only: fields)
    show "floor_height st ?s \<le> max (floor_height st s1) (floor_height st s1)"
      using s1(1) unfolding floor_height_def fields synced_from_def by simp
  qed (use assms(4) fields covers v in auto)
  then show ?thesis using settled_fst [OF s1(2)] fields by (auto intro: settled_withI)
qed

lemma parts_dom_with_state: "parts_dom (with_state s v) = parts_dom v"
  by (cases v) (simp add: with_simps parts_dom_def)

context window_store
begin

lemma checkpoint_triple:
  assumes "{a..f} \<subseteq> D" "a \<le> cs_sync_tail s + 1" "cs_process_tail s \<le> cs_sync_tail s"
  shows "vtriple (\<lambda>v. settled_with st heights ok (synced_from s) v \<and> D \<subseteq> parts_dom v)
    (checkpoint_sync_tail latest s (cs_stage s) f)
    (\<lambda>_ v. settled_with st heights ok (synced_from s) v \<and> D \<subseteq> parts_dom v)
    (\<lambda>v. settled_with st heights ok (synced_from s) v \<and> D \<subseteq> parts_dom v)"
proof -
  let ?J = "\<lambda>v. settled_with st heights ok (synced_from s) v \<and> D \<subseteq> parts_dom v"
  let ?u = "\<lparr>up_last_error = Some None, up_online_tip = Some latest, up_process_tail = None,
      up_stage = Some (cs_stage s), up_sync_tail = Some f\<rparr>"
  have moved: "?J (with_state (upsert_core_indexer_state ?u (fst v)) v)" if "?J v" "cs_sync_tail s < f" for v
  proof -
    have "{a..f} \<subseteq> parts_dom v" "cs_process_tail s \<le> f" using assms that by auto
    from settled_with_move [OF _ this(1) assms(2) this(2), of st heights ok "Some None" "Some latest"] that
    show ?thesis by (auto simp: parts_dom_with_state synced_from_def elim!: settled_with_mono)
  qed
  have upsert: "vtriple ?J (upsert_state ?u) (\<lambda>_. ?J) ?J" if "cs_sync_tail s < f"
    by (rule vtriple_upsert) (use moved that in auto)
  have observed: "vtriple ?J (and_do (observe s') (ret ())) (\<lambda>_. ?J) ?J" for s'
    by (rule vtriple_and_do, rule vtriple_frame_any) (auto intro: frames vtriple_ret)
  show ?thesis
    unfolding checkpoint_sync_tail_def
    by (rule vtriple_if, rule vtriple_ret, simp, rule vtriple_and_do, rule vtriple_frame_any,
        rule frames, simp, rule vtriple_then_do [OF upsert observed]) simp
qed

lemma sync_heights_triple:
  assumes "a \<le> cs_sync_tail s + 1" "- 1 \<le> cs_sync_tail s" "cs_process_tail s \<le> cs_sync_tail s"
    and "cs_process_tail s \<le> b"
  shows "vtriple (settled st heights ok s t) (sync_raw_block_heights ix latest s (range_of a b) b (cs_stage s))
    (\<lambda>_. settled_with st heights ok (\<lambda>s'. cs_process_tail s' = cs_process_tail s \<and> cs_stage s' = cs_stage s
        \<and> cs_sync_tail s' = b)) (safe st)"
proof -
  let ?J = "settled_with st heights ok (synced_from s)"
  let ?Q = "settled_with st heights ok (\<lambda>s'. cs_process_tail s' = cs_process_tail s \<and> cs_stage s' = cs_stage s
        \<and> cs_sync_tail s' = b)"
  let ?u = "\<lparr>up_last_error = Some None, up_online_tip = Some latest, up_process_tail = None,
      up_stage = Some (cs_stage s), up_sync_tail = Some b\<rparr>"
  have store: "vtriple ?J (store_raw_block_heights ix (range_of a b) (checkpoint_sync_tail latest s (cs_stage s)))
      (\<lambda>_ v. ?J v \<and> {a..b} \<subseteq> parts_dom v) (safe st)"
  proof (rule store_raw_triple)
    have "sync_base (range_of a b) + 1 \<le> cs_sync_tail s + 1"
      using sync_base_bound [of a b] assms(1,2) by auto
    then show "vtriple (\<lambda>v. ?J v \<and> D \<subseteq> parts_dom v) (checkpoint_sync_tail latest s (cs_stage s) f)
        (\<lambda>_ v. ?J v \<and> D \<subseteq> parts_dom v) (\<lambda>v. ?J v \<and> D \<subseteq> parts_dom v)"
      if "{sync_base (range_of a b) + 1..f} \<subseteq> D" for D f
      by (rule checkpoint_triple [OF that _ assms(3)])
  qed (auto intro: settled_with_put settled_with_tails_ok)
  have upsert: "vtriple (\<lambda>v. ?J v \<and> {a..b} \<subseteq> parts_dom v) (upsert_state ?u) (\<lambda>_. ?Q) (safe st)"
    by (rule vtriple_upsert)
      (use settled_with_move [OF _ _ assms(1,4)] settled_with_tails_ok in blast)+
  have publish: "vtriple ?Q (and_do (publish_progress ix latest s') (ret True)) (\<lambda>_. ?Q) (safe st)" for s'
    by (rule vtriple_and_do, rule vtriple_framed [OF framed_publish_progress])
      (erule settled_with_present | erule settled_with_tails_ok | rule vtriple_ret | assumption)+
  have lease: "vtriple (\<lambda>v. ?J v \<and> {a..b} \<subseteq> parts_dom v) assert_primary_lease
      (\<lambda>_ v. ?J v \<and> {a..b} \<subseteq> parts_dom v) (safe st)"
    by (rule vtriple_frame_any) (auto intro: frames settled_with_tails_ok)
  show ?thesis
    unfolding sync_raw_block_heights_def
    by (rule vtriple_pre [OF vtriple_and_do [OF store vtriple_and_do [OF lease vtriple_then_do [OF upsert publish]]]])
      (rule settled_with_synced)
qed

text \<open>Updates of the row that leave both tails alone.\<close>

definition same_tails :: "core_indexer_state \<Rightarrow> core_indexer_state \<Rightarrow> bool" where
  "same_tails s s' \<longleftrightarrow> cs_process_tail s' = cs_process_tail s \<and> cs_sync_tail s' = cs_sync_tail s"

lemma upsert_keeps:
  assumes "settings_ok st" and "up_process_tail u = None" "up_sync_tail u = None"
    and "\<And>x. up_stage u = Some x \<Longrightarrow> x = Online \<or> x = stage \<or> stage \<noteq> Online"
  shows "vtriple (settled_with st heights ok (\<lambda>s'. same_tails s s' \<and> cs_stage s' = stage)) (upsert_state u)
    (\<lambda>_. settled_with st heights ok (\<lambda>s'. same_tails s s' \<and> cs_stage s' = pick (up_stage u) None stage))
    (safe st)"
proof (rule vtriple_upsert)
  fix v assume "settled_with st heights ok (\<lambda>s'. same_tails s s' \<and> cs_stage s' = stage) v"
  then obtain s1 where s1: "same_tails s s1" "cs_stage s1 = stage" "settled st heights ok s1 (floor_height st s1) v"
    unfolding settled_with_def by blast
  let ?s = "upsert_core_indexer_state u (fst v)"
  have v: "fst v = Some s1" by (rule settled_fst [OF s1(3)])
  have fields: "cs_process_tail ?s = cs_process_tail s1" "cs_sync_tail ?s = cs_sync_tail s1"
    "cs_stage ?s = pick (up_stage u) None stage"
    using assms(2,3) s1(2) by (simp_all add: v upsert_core_indexer_state_def pick_def split: option.splits)
  have "settled st heights ok ?s (floor_height st s1) (with_state ?s v)"
  proof (rule settled_with_state [OF s1(3)])
    show "- 1 \<le> cs_process_tail ?s" "cs_process_tail ?s \<le> cs_sync_tail ?s"
      using s1(3) unfolding fields by (auto simp: settled_def state_ok_def split: prod.splits)
    show "floor_height st ?s \<le> max (floor_height st s1) (floor_height st s1)"
      using assms(1,4) s1(2) unfolding floor_height_def fields
      by (auto simp: settings_ok_def pick_def split: option.splits)
  qed (simp add: fields)
  then show "settled_with st heights ok (\<lambda>s'. same_tails s s' \<and> cs_stage s' = pick (up_stage u) None stage)
      (with_state ?s v)"
    by (rule settled_withI) (use s1(1) fields in \<open>simp add: same_tails_def\<close>)
qed (auto dest: settled_with_tails_ok)

lemma set_config_keeps:
  "key \<noteq> config_key_core_apply_recovery \<Longrightarrow> key \<noteq> config_key_indexer_sync_tail
   \<Longrightarrow> vtriple (settled_with st heights ok R) (set_config key x) (\<lambda>_. settled_with st heights ok R) (safe st)"
  by (rule vtriple_frame_any [OF framed_set_config]) (auto dest: settled_with_tails_ok)

lemma settled_with_same:
  "settled st heights ok s t v \<Longrightarrow> settled_with st heights ok (\<lambda>s'. same_tails s s' \<and> cs_stage s' = cs_stage s) v"
  by (erule settled_withI) (simp add: same_tails_def)

lemma sync_backfill_triple:
  assumes "settings_ok (ix_settings ix)" and "st = ix_settings ix" and "cs_stage s = Sync_Backfill"
    and "- 1 \<le> cs_process_tail s" "cs_process_tail s \<le> cs_sync_tail s" "cs_process_tail s \<le> latest"
  shows "vtriple (settled st heights ok s t) (sync_backfill ix latest s) (\<lambda>_. safe st) (safe st)"
  unfolding sync_backfill_def
proof (rule vtriple_if)
  let ?u = "no_update\<lparr>up_stage := Some Process_Backfill, up_online_tip := Some latest\<rparr>"
  have up: "vtriple (settled_with st heights ok (\<lambda>s'. same_tails s s' \<and> cs_stage s' = Sync_Backfill)) (upsert_state ?u)
    (\<lambda>_. settled_with st heights ok (\<lambda>s'. same_tails s s' \<and> cs_stage s' = Process_Backfill)) (safe st)"
    using upsert_keeps [of st ?u Sync_Backfill s] assms(1,2) by (simp add: no_update_def)
  show "vtriple (settled st heights ok s t) (and_do (upsert_state ?u)
      (and_do (set_config config_key_indexer_stage (JStr (stage_str Process_Backfill))) (ret True)))
      (\<lambda>_. safe st) (safe st)"
  proof (rule vtriple_pre [OF vtriple_and_do [OF up vtriple_and_do [OF set_config_keeps vtriple_ret]]])
    show "settled_with st heights ok (\<lambda>s'. same_tails s s' \<and> cs_stage s' = Sync_Backfill) v"
      if "settled st heights ok s t v" for v using settled_with_same [OF that] assms(3) by simp
  qed (simp_all add: config_keys settled_with_tails_ok)
next
  let ?b = "min latest (cs_sync_tail s + se_sync_window (ix_settings ix))"
  have "cs_process_tail s \<le> ?b" using assms by (auto simp: settings_ok_def)
  moreover have "- 1 \<le> cs_sync_tail s" using assms(4,5) by simp
  ultimately show "vtriple (settled st heights ok s t) (sync_raw_block_window ix latest s ?b Sync_Backfill)
      (\<lambda>_. safe st) (safe st)"
    unfolding sync_raw_block_window_def
    using sync_heights_triple [of "cs_sync_tail s + 1" s ?b st t ix latest] assms(3,5)
    by (auto intro: vtriple_conseq settled_with_tails_ok)
qed

end

end
