(* ===== verification/Indexer_Stages.thy ===== *)
theory Indexer_Stages
  imports Indexer_Invariant
begin

text \<open>
  The invariant along the processing stages of the indexer (materialisation of the current state,
  backfill windows, online windows), along the start of an iteration (recovery of a pending
  window, the initial row, reconciliation with the warehouse), and along runs.
\<close>

text \<open>What a read returns is what the view shows.\<close>

lemma vtriple_store_read:
  assumes "\<And>w fts. P (safety_view w) \<Longrightarrow> R (f (w\<lparr>wd_script := fts\<rparr>)) (safety_view w)"
    and "\<And>v. P v \<Longrightarrow> E v"
  shows "vtriple P (store_read f) (\<lambda>x v. R x v \<and> P v) E"
proof (rule vtripleI)
  fix w x w' assume P: "P (safety_view w)" and run: "store_read f w = (Inr x, w')"
  have "safety_view w' = safety_view w"
    by (rule framedD [OF framed_store_read [where S = "\<lambda>_. True"] _ run]) simp
  then show "R x (safety_view w') \<and> P (safety_view w')"
    using store_read_result [OF run] assms(1) [OF P] P by auto
next
  fix w e w' assume P: "P (safety_view w)" and run: "store_read f w = (Inl e, w')"
  have "safety_view w' = safety_view w"
    by (rule framedD [OF framed_store_read [where S = "\<lambda>_. True"] _ run]) simp
  then show "E (safety_view w')" using assms(2) [OF P] by simp
qed

text \<open>
  The environment of a run: the node's answers are blocks of the requested heights, and its height
  is never below what has been processed.
\<close>

definition iteration_ok :: "iteration \<Rightarrow> bool" where
  "iteration_ok it \<longleftrightarrow> (\<forall>source h p. it_block it source h = Inr p \<longrightarrow> snapshot_for h p)"

definition answers_ok :: "indexer_event \<Rightarrow> bool" where
  "answers_ok e = (case e of Iterate it script clock syncs tm \<Rightarrow> iteration_ok it | Restart c now \<Rightarrow> True)"

definition tip_ok :: "indexer_event \<Rightarrow> 'w world \<Rightarrow> bool" where
  "tip_ok e w = (case e of
     Iterate it script clock syncs tm \<Rightarrow>
       (case it_latest it of Inl _ \<Rightarrow> True | Inr latest \<Rightarrow> - 1 \<le> latest
          \<and> (case wd_state w of None \<Rightarrow> True | Some s \<Rightarrow> cs_process_tail s \<le> latest))
   | Restart c now \<Rightarrow> True)"

fun tips_ok :: "'w indexer \<Rightarrow> indexer_event list \<Rightarrow> 'w world \<Rightarrow> bool" where
  "tips_ok ix [] w = True"
| "tips_ok ix (e # es) w = (tip_ok e w \<and> tips_ok ix es (indexer_step ix e w))"

context window_store
begin

section \<open>Materialisation\<close>

abbreviation kept_row :: "core_settings \<Rightarrow> core_indexer_state \<Rightarrow> core_indexer_stage \<Rightarrow> 'w safety_view \<Rightarrow> bool" where
  "kept_row st s stage \<equiv> settled_with st heights ok (\<lambda>s'. same_tails s s' \<and> cs_stage s' = stage)"

definition view_heights :: "'w safety_view \<Rightarrow> int set" where
  "view_heights v = heights (fst (snd (snd (snd v))))"

lemma view_heights_with_state: "view_heights (with_state s v) = view_heights v"
  by (cases v) (simp add: view_heights_def with_simps)

lemma settled_with_warehouse:
  assumes "settled_with st heights ok R v" and "ok None wh" and "heights wh = view_heights v"
  shows "settled_with st heights ok R (with_warehouse wh v)"
  using assms by (cases v) (auto simp: settled_with_def settled_iff with_simps view_heights_def)

lemma view_heights_with_warehouse: "view_heights (with_warehouse wh v) = heights wh"
  by (cases v) (simp add: view_heights_def with_simps)

lemma upsert_keeps_heights:
  assumes "settings_ok st" and "up_process_tail u = None" "up_sync_tail u = None" "up_stage u = None"
  shows "vtriple (\<lambda>v. kept_row st s stage v \<and> view_heights v = H) (upsert_state u)
    (\<lambda>_ v. kept_row st s stage v \<and> view_heights v = H) (safe st)"
proof (rule vtriple_upsert)
  fix v assume v: "kept_row st s stage v \<and> view_heights v = H"
  obtain state raw parts wh legacy where view: "v = (state, raw, parts, wh, legacy)" by (cases v)
  from v show "kept_row st s stage (with_state (upsert_core_indexer_state u (fst v)) v)
      \<and> view_heights (with_state (upsert_core_indexer_state u (fst v)) v) = H"
    using assms(2-4)
    by (auto simp: view settled_with_def settled_iff with_simps view_heights_with_state view_heights_def
        upsert_core_indexer_state_def same_tails_def state_ok_def floor_height_def
        intro!: exI [of _ "upsert_core_indexer_state u state"])
qed (auto dest: settled_with_tails_ok)

lemma heartbeat_keeps:
  assumes "settings_ok st"
  shows "vtriple (\<lambda>v. kept_row st s stage v \<and> view_heights v = H) (materialization_heartbeat latest)
    (\<lambda>_ v. kept_row st s stage v \<and> view_heights v = H) (safe st)"
proof -
  let ?I = "\<lambda>v. kept_row st s stage v \<and> view_heights v = H"
  have frame: "vtriple ?I m (\<lambda>_. ?I) (safe st)" if "framed (\<lambda>_. True) m" for m :: "('w, 'b) io"
    by (rule vtriple_frame_any [OF that]) (auto dest: settled_with_tails_ok)
  have beat: "vtriple ?I (change (\<lambda>w. w\<lparr>wd_last_heartbeat := t\<rparr>)) (\<lambda>_. ?I) (safe st)" for t
    by (rule vtriple_frame_any, rule framed_change) (auto simp: safety_view_def dest: settled_with_tails_ok)
  have up: "vtriple ?I (upsert_state (no_update\<lparr>up_online_tip := Some latest, up_last_error := Some None\<rparr>))
      (\<lambda>_. ?I) (safe st)"
    by (rule upsert_keeps_heights [OF assms]) (simp_all add: no_update_def)
  have act: "vtriple ?I record_activity (\<lambda>_. ?I) (safe st)" 
    and lease: "vtriple ?I assert_primary_lease (\<lambda>_. ?I) (safe st)"
    and now: "vtriple ?I now_ms (\<lambda>_. ?I) (safe st)"
    and get: "vtriple ?I (get_field wd_last_heartbeat) (\<lambda>_. ?I) (safe st)"
    by (rule vtriple_frame_any, rule frames, auto dest: settled_with_tails_ok)+
  show ?thesis
    unfolding materialization_heartbeat_def
    by (rule vtriple_and_do [OF act], rule vtriple_and_do [OF lease], rule vtriple_then_do [OF now],
        rule vtriple_then_do [OF get], rule vtriple_if, rule vtriple_ret, assumption,
        rule vtriple_then_do [OF now], rule vtriple_and_do [OF beat], rule vtriple_and_do [OF up],
        rule vtriple_ret, assumption)
qed

lemma range_keeps:
  assumes "settings_ok st" and "ok None (snd r)" "heights (snd r) = H"
  shows "vtriple (\<lambda>v. kept_row st s stage v \<and> view_heights v = H) (materialization_range latest as_of r)
    (\<lambda>_ v. kept_row st s stage v \<and> view_heights v = H) (safe st)"
proof -
  let ?I = "\<lambda>v. kept_row st s stage v \<and> view_heights v = H"
  obtain p wh where r: "r = (p, wh)" by (cases r)
  have wh: "vtriple ?I (change (\<lambda>w. w\<lparr>wd_warehouse := wh\<rparr>)) (\<lambda>_. ?I) (safe st)"
    by (rule vtriple_change)
      (use assms(2,3) in \<open>simp add: r view_with_warehouse settled_with_warehouse view_heights_with_warehouse\<close>)
  have checkpoint: "vtriple ?I (set_configs [(config_key_dogecoin_current_state_materialization, x)]) (\<lambda>_. ?I) (safe st)" for x
    by (rule vtriple_framed [OF framed_set_configs])
      (auto simp: config_keys simp del: not_None_eq dest: settled_with_tails_ok settled_with_present)
  have "vtriple ?I (case p of None \<Rightarrow> ret ()
      | Some progress \<Rightarrow> set_configs [(config_key_dogecoin_current_state_materialization,
          materialization_checkpoint as_of progress)]) (\<lambda>_. ?I) (safe st)"
    using checkpoint by (auto split: option.splits intro!: vtriple_ret)
  then show ?thesis
    unfolding materialization_range_def r prod.case
    by (intro vtriple_and_do [OF wh] vtriple_and_do [OF _ heartbeat_keeps [OF assms(1)]])
qed

lemma materialize_keeps:
  assumes "settings_ok st" and "ix_port ix = port"
  shows "vtriple (kept_row st s stage) (materialize_current_state ix latest as_of)
    (\<lambda>_. kept_row st s stage) (safe st)"
proof -
  let ?I = "\<lambda>H v. kept_row st s stage v \<and> view_heights v = H"
  have frame: "vtriple (?I H) m (\<lambda>_. ?I H) (safe st)" if "framed (\<lambda>_. True) m" for m :: "('w, 'b) io" and H
    by (rule vtriple_frame_any [OF that]) (auto dest: settled_with_tails_ok)
  have flag: "vtriple (?I H) (set_config key x) (\<lambda>_. ?I H) (safe st)"
    if "key \<noteq> config_key_core_apply_recovery" "key \<noteq> config_key_indexer_sync_tail" for key x H
    by (rule frame [OF framed_set_config [OF that]])
  have cleared: "vtriple (?I H) (store_write (\<lambda>w. w\<lparr>wd_configs :=
        delete_by_prefix config_key_dogecoin_current_state_materialization (wd_configs w)\<rparr>)) (\<lambda>_. ?I H) (safe st)" for H
    by (rule frame, rule framed_store_write)
      (simp add: safety_view_def delete_by_prefix_other config_keys)
  have get: "vtriple (?I H) (get_field (\<lambda>w. wp_materialize (ix_port ix) ft as_of resume (wd_warehouse w)))
      (\<lambda>x v. ((\<forall>r \<in> set (fst x). ok None (snd r) \<and> heights (snd r) = H) \<and> ok None (snd (snd x)) \<and> heights (snd (snd x)) = H)
        \<and> ?I H v) (safe st)" for H ft resume
  proof (rule vtriple_get)
    fix w :: "'w world" assume I: "?I H (safety_view w)"
    obtain ranges rm w' where run: "wp_materialize port ft as_of resume (wd_warehouse w) = (ranges, rm, w')"
      by (cases "wp_materialize port ft as_of resume (wd_warehouse w)") auto
    have "ok None (wd_warehouse w)" "heights (wd_warehouse w) = H"
      using I by (auto simp: safety_view_def settled_with_def settled_iff view_heights_def)
    then show "((\<forall>r \<in> set (fst (wp_materialize (ix_port ix) ft as_of resume (wd_warehouse w))).
          ok None (snd r) \<and> heights (snd r) = H)
        \<and> ok None (snd (snd (wp_materialize (ix_port ix) ft as_of resume (wd_warehouse w))))
        \<and> heights (snd (snd (wp_materialize (ix_port ix) ft as_of resume (wd_warehouse w)))) = H)
      \<and> ?I H (safety_view w)"
      using materialize_kept [OF _ run] I by (auto simp: assms(2) run)
  qed
  have rest: "vtriple (?I H) (case x of (ranges, r, wh) \<Rightarrow>
     and_do (for_each (materialization_range latest as_of) ranges) (
     and_do (change (\<lambda>w. w\<lparr>wd_warehouse := wh\<rparr>)) (
     and_do (lift_res r) (
     and_do (set_config config_key_dogecoin_current_state_ready (JBool True)) (
     and_do (set_config config_key_dogecoin_history_ready (JBool False))
       (store_write (\<lambda>w. w\<lparr>wd_configs :=
          delete_by_prefix config_key_dogecoin_current_state_materialization (wd_configs w)\<rparr>)))))))
     (\<lambda>_. ?I H) (safe st)"
    if x: "(\<forall>r \<in> set (fst x). ok None (snd r) \<and> heights (snd r) = H) \<and> ok None (snd (snd x)) \<and> heights (snd (snd x)) = H"
    for x :: "(materialization_progress option \<times> 'w) list \<times> unit res \<times> 'w" and H
  proof -
    obtain ranges r wh where x': "x = (ranges, r, wh)" by (cases x)
    have each: "vtriple (?I H) (for_each (materialization_range latest as_of) ranges) (\<lambda>_. ?I H) (safe st)"
      by (rule vtriple_for_each, rule range_keeps [OF assms(1)]) (use x in \<open>auto simp: x'\<close>)
    have wh: "vtriple (?I H) (change (\<lambda>w. w\<lparr>wd_warehouse := wh\<rparr>)) (\<lambda>_. ?I H) (safe st)"
      by (rule vtriple_change)
        (use x in \<open>simp add: x' view_with_warehouse settled_with_warehouse view_heights_with_warehouse\<close>)
    show ?thesis
      unfolding x' prod.case
      by (rule vtriple_and_do [OF each], rule vtriple_and_do [OF wh], rule vtriple_and_do,
          rule frame, rule frames, rule vtriple_and_do [OF flag], (simp add: config_keys)+,
          rule vtriple_and_do [OF flag], (simp add: config_keys)+) (use cleared in \<open>simp add: config_keys\<close>)
  qed
  have all: "vtriple (?I H) (materialize_current_state ix latest as_of) (\<lambda>_. ?I H) (safe st)" for H
    unfolding materialize_current_state_def
    by (rule vtriple_then_do, rule frame, rule frames, rule vtriple_then_do, rule frame, rule frames,
        rule vtriple_then_do [OF get], rule vtriple_assume, rule rest)
  have "vtriple (\<lambda>v. \<exists>H. ?I H v) (materialize_current_state ix latest as_of) (\<lambda>_. kept_row st s stage) (safe st)"
    by (rule vtriple_ex, rule vtriple_conseq [OF all]) auto
  then show ?thesis by (rule vtriple_pre) blast
qed

section \<open>The backfill stage\<close>

lemma promote_triple:
  assumes "settings_ok st" and "ix_port ix = port"
  shows "vtriple (kept_row st s (cs_stage s)) (promote_backfill_to_online ix latest s ready) (\<lambda>_. safe st) (safe st)"
proof -
  let ?u = "no_update\<lparr>up_stage := Some Online, up_online_tip := Some latest, up_last_error := Some None\<rparr>"
  have mat: "vtriple (kept_row st s (cs_stage s)) (materialize_current_state_if_needed ix latest s ready)
      (\<lambda>_. kept_row st s (cs_stage s)) (safe st)"
    unfolding materialize_current_state_if_needed_def
    by (rule vtriple_if, rule vtriple_ret, assumption, rule materialize_keeps [OF assms])
  have up: "vtriple (kept_row st s (cs_stage s)) (upsert_state ?u) (\<lambda>_. kept_row st s Online) (safe st)"
    using upsert_keeps [of st ?u "cs_stage s" s] assms(1) by (simp add: no_update_def)
  have flag: "vtriple (kept_row st s Online) (set_config key x) (\<lambda>_. kept_row st s Online) (safe st)"
    if "key \<noteq> config_key_core_apply_recovery" "key \<noteq> config_key_indexer_sync_tail" for key x
    by (rule set_config_keeps [OF that])
  have last': "vtriple (kept_row st s Online) (set_config key x) (\<lambda>_. safe st) (safe st)"
    if "key \<noteq> config_key_core_apply_recovery" "key \<noteq> config_key_indexer_sync_tail" for key x
    by (rule vtriple_conseq [OF flag [OF that]]) (auto dest: settled_with_tails_ok)
  show ?thesis
    unfolding promote_backfill_to_online_def
    by (rule vtriple_and_do [OF mat], rule vtriple_and_do [OF up], rule vtriple_and_do [OF flag],
        (simp add: config_keys)+, rule vtriple_and_do [OF flag], (simp add: config_keys)+,
        rule vtriple_and_do [OF flag], (simp add: config_keys)+)
      (use last' in \<open>simp add: config_keys\<close>)
qed

lemma return_to_sync_triple:
  assumes "settings_ok st" and "cs_stage s \<noteq> Online"
  shows "vtriple (kept_row st s (cs_stage s)) (return_backfill_to_sync latest) (\<lambda>_. safe st) (safe st)"
proof -
  let ?u = "no_update\<lparr>up_stage := Some Sync_Backfill, up_online_tip := Some latest\<rparr>"
  have up: "vtriple (kept_row st s (cs_stage s)) (upsert_state ?u) (\<lambda>_. kept_row st s Sync_Backfill) (safe st)"
    using upsert_keeps [of st ?u "cs_stage s" s] assms by (simp add: no_update_def)
  have flag: "vtriple (kept_row st s Sync_Backfill) (set_config config_key_indexer_stage x) (\<lambda>_. safe st) (safe st)" for x
    by (rule vtriple_conseq [OF set_config_keeps]) (auto simp: config_keys dest: settled_with_tails_ok)
  show ?thesis unfolding return_backfill_to_sync_def by (rule vtriple_and_do [OF up flag])
qed

lemma transition_triple:
  assumes "settings_ok st" and "ix_port ix = port" and "cs_stage s \<noteq> Online"
  shows "vtriple (kept_row st s (cs_stage s)) (transition_completed_backfill ix latest s ready)
    (\<lambda>_. safe st) (safe st)"
proof -
  have ask: "vtriple (kept_row st s (cs_stage s)) (should_promote_backfill ix latest s ready)
      (\<lambda>_. kept_row st s (cs_stage s)) (safe st)"
  proof (rule vtriple_frame_any)
    show "framed (\<lambda>_. True) (should_promote_backfill ix latest s ready)"
      unfolding should_promote_backfill_def by (auto intro!: frames framed_then_do)
  qed (auto dest: settled_with_tails_ok)
  have "vtriple (kept_row st s (cs_stage s))
      (if promote then promote_backfill_to_online ix latest s ready else return_backfill_to_sync latest)
      (\<lambda>_. safe st) (safe st)" for promote
    by (rule vtriple_if, rule promote_triple [OF assms(1,2)], rule return_to_sync_triple [OF assms(1,3)])
  then show ?thesis
    unfolding transition_completed_backfill_def
    by (intro vtriple_then_do [OF ask] vtriple_and_do [where R = "safe st"] vtriple_ret)
qed

lemma backfill_window_triple:
  assumes "indexer_ok ix" and "ix_port ix = port" and "st = ix_settings ix" and "iteration_ok it"
    and "cs_stage s = Process_Backfill" "- 1 \<le> cs_process_tail s" "cs_process_tail s < cs_sync_tail s"
  shows "vtriple (settled st heights ok s (floor_height st s)) (process_backfill_window ix it latest s ready)
    (\<lambda>_. safe st) (safe st)"
  unfolding process_backfill_window_def Let_def
proof (rule vtriple_then_do)
  let ?I = "settled st heights ok s (floor_height st s)"
  have floor: "floor_height st s = cs_process_tail s" using assms(5) by (simp add: floor_height_def)
  show "vtriple ?I now_ms (\<lambda>_. ?I) (safe st)"
    by (rule vtriple_frame_any) (auto intro: frames settled_tails_ok)
  fix now
  show "vtriple ?I (then_do (get_field wd_node_retry_at) (\<lambda>retry_at.
     then_do (process_window ix (load_backfill_snapshots ix it (plan_backfill_window (ix_settings ix) now retry_at latest s))
         (pl_last_height (plan_backfill_window (ix_settings ix) now retry_at latest s)) ready) (\<lambda>m.
     and_do (adapt_backfill_target_rows ix (Some (wm_apply_ms m))) (
     and_do (publish_window_progress ix latest m Process_Backfill) (ret True))))) (\<lambda>_. safe st) (safe st)"
  proof (rule vtriple_then_do)
    show "vtriple ?I (get_field wd_node_retry_at) (\<lambda>_. ?I) (safe st)"
      by (rule vtriple_frame_any) (auto intro: frames settled_tails_ok)
    fix retry_at
    let ?p = "plan_backfill_window (ix_settings ix) now retry_at latest s"
    let ?a = "pl_first_height ?p" and ?b = "pl_last_height ?p"
    have ok': "settings_ok st" using assms(1,3) by (simp add: indexer_ok_def)
    from backfill_window_bounds [OF this assms(7), of now retry_at latest]
    have bounds: "?a = cs_process_tail s + 1" "?a \<le> ?b" "?b \<le> cs_sync_tail s"
      by (simp_all add: Let_def assms(3))
    have I: "?I = settled st heights ok s (?a - 1)" by (simp add: bounds(1) floor)
    have load: "vtriple (settled st heights ok s (?a - 1)) (load_backfill_snapshots ix it ?p)
        (\<lambda>ps v. loaded ?a ?b ps \<and> settled st heights ok s (?a - 1) v) (safe st)"
    proof (rule vtriple_framed_result [OF framed_load_backfill_snapshots [where S = "\<lambda>_. True"]])
      show "loaded ?a ?b ps" if "load_backfill_snapshots ix it ?p w = (Inr ps, w')" for w w' ps
        by (rule load_backfill_loaded [OF that])
          (use assms(4) bounds(2) in \<open>auto simp: iteration_ok_def\<close>)
    qed (auto intro: settled_tails_ok)
    have process: "vtriple (settled st heights ok s (?a - 1))
        (process_window ix (load_backfill_snapshots ix it ?p) ?b ready)
        (\<lambda>m v. settled st heights ok s (wm_end m) v \<and> ?a \<le> wm_end m \<and> wm_end m \<le> ?b) (safe st)"
      by (rule process_window_triple [OF assms(1,2) _ _ load]) (use bounds assms(6) floor in simp_all)
    have rest: "vtriple (\<lambda>v. settled st heights ok s (wm_end m) v \<and> ?a \<le> wm_end m \<and> wm_end m \<le> ?b)
      (and_do (adapt_backfill_target_rows ix (Some (wm_apply_ms m))) (
       and_do (publish_window_progress ix latest m Process_Backfill) (ret True))) (\<lambda>_. safe st) (safe st)" for m
    proof (cases "?a \<le> wm_end m \<and> wm_end m \<le> ?b")
      case True
      have adapt: "vtriple (settled st heights ok s (wm_end m)) (adapt_backfill_target_rows ix (Some (wm_apply_ms m)))
          (\<lambda>_. settled st heights ok s (wm_end m)) (safe st)"
        by (rule vtriple_frame_any) (auto intro: frames settled_tails_ok)
      have publish: "vtriple (settled st heights ok s (wm_end m)) (publish_window_progress ix latest m Process_Backfill)
          (\<lambda>_. safe st) (safe st)"
        by (rule vtriple_conseq [OF publish_window_triple [OF ok']])
          (use True bounds assms(6) in \<open>auto intro: settled_with_tails_ok\<close>)
      show ?thesis
        by (rule vtriple_pre [OF vtriple_and_do [OF adapt vtriple_and_do [OF publish vtriple_ret]]]) auto
    next
      case False
      then show ?thesis by (intro vtripleI) auto
    qed
    show "vtriple ?I (then_do (process_window ix (load_backfill_snapshots ix it ?p) ?b ready) (\<lambda>m.
        and_do (adapt_backfill_target_rows ix (Some (wm_apply_ms m))) (
        and_do (publish_window_progress ix latest m Process_Backfill) (ret True)))) (\<lambda>_. safe st) (safe st)"
      unfolding I by (rule vtriple_then_do [OF process rest])
  qed
qed

lemma process_backfill_triple:
  assumes "indexer_ok ix" and "ix_port ix = port" and "st = ix_settings ix" and "iteration_ok it"
    and "cs_stage s = Process_Backfill" "- 1 \<le> cs_process_tail s"
  shows "vtriple (settled st heights ok s (floor_height st s)) (process_backfill ix it latest s)
    (\<lambda>_. safe st) (safe st)"
  unfolding process_backfill_def
proof (rule vtriple_then_do)
  show "vtriple (settled st heights ok s (floor_height st s)) is_dogecoin_current_state_ready
      (\<lambda>_. settled st heights ok s (floor_height st s)) (safe st)"
    by (rule vtriple_frame_any) (auto intro: frames settled_tails_ok)
  fix ready
  have ok': "settings_ok st" using assms(1,3) by (simp add: indexer_ok_def)
  have "vtriple (settled st heights ok s (floor_height st s)) (transition_completed_backfill ix latest s ready)
      (\<lambda>_. safe st) (safe st)"
    by (rule vtriple_pre [OF transition_triple [OF ok' assms(2)]])
      (simp add: assms(5), erule settled_with_same)
  then show "vtriple (settled st heights ok s (floor_height st s))
      (if cs_sync_tail s \<le> cs_process_tail s then transition_completed_backfill ix latest s ready
       else process_backfill_window ix it latest s ready) (\<lambda>_. safe st) (safe st)"
    using backfill_window_triple [OF assms] by simp
qed

section \<open>The online stage\<close>

lemma sync_online_triple:
  assumes "settings_ok (ix_settings ix)" and "cs_stage s = Online"
    and "- 1 \<le> cs_process_tail s" "cs_process_tail s \<le> cs_sync_tail s" "cs_process_tail s \<le> latest"
    and "sync_end = min latest (cs_sync_tail s + se_sync_window (ix_settings ix))"
  shows "vtriple (settled st heights ok s t) (sync_online_backlog_if_needed ix latest s sync_end)
    (\<lambda>_. settled_with st heights ok (\<lambda>s'. cs_process_tail s' = cs_process_tail s \<and> cs_stage s' = Online
       \<and> cs_process_tail s \<le> cs_sync_tail s')) (safe st)"
  unfolding sync_online_backlog_if_needed_def Let_def
proof (rule vtriple_if)
  let ?R = "\<lambda>s'. cs_process_tail s' = cs_process_tail s \<and> cs_stage s' = Online
       \<and> cs_process_tail s \<le> cs_sync_tail s'"
  show "vtriple (settled st heights ok s t) (ret False) (\<lambda>_. settled_with st heights ok ?R) (safe st)"
    by (rule vtriple_ret, erule settled_withI) (simp add: assms)
  let ?a = "online_raw_refresh_start s sync_end (se_reprocess_depth (ix_settings ix))"
  have "?a \<le> cs_sync_tail s + 1" using assms(3,4) by (simp add: online_raw_refresh_start_def)
  moreover have end_bound: "cs_process_tail s \<le> sync_end" using assms by (auto simp: settings_ok_def)
  moreover have "- 1 \<le> cs_sync_tail s" using assms(3,4) by simp
  ultimately have base: "vtriple (settled st heights ok s t)
      (sync_raw_block_heights ix latest s (range_of ?a sync_end) sync_end Online)
      (\<lambda>_. settled_with st heights ok (\<lambda>s'. cs_process_tail s' = cs_process_tail s \<and> cs_stage s' = Online
        \<and> cs_sync_tail s' = sync_end)) (safe st)"
    using sync_heights_triple [of ?a s sync_end st t ix latest] assms(2,4) by simp
  have sync: "vtriple (settled st heights ok s t)
      (sync_raw_block_heights ix latest s (range_of ?a sync_end) sync_end Online)
      (\<lambda>_. settled_with st heights ok ?R) (safe st)"
    by (rule vtriple_conseq [OF base]) (use end_bound in \<open>auto elim!: settled_with_mono\<close>)
  show "vtriple (settled st heights ok s t)
      (and_do (sync_raw_block_heights ix latest s (range_of ?a sync_end) sync_end Online) (ret True))
      (\<lambda>_. settled_with st heights ok ?R) (safe st)"
    by (rule vtriple_and_do [OF sync vtriple_ret])
qed

lemma refreshed_triple:
  "vtriple (settled_with st heights ok R) (refreshed_online_backlog_state s sync_end)
    (\<lambda>s' v. R s' \<and> settled st heights ok s' (floor_height st s') v) (safe st)"
  unfolding refreshed_online_backlog_state_def
proof (rule vtriple_then_do)
  show "vtriple (settled_with st heights ok R) (store_read wd_state)
      (\<lambda>x v. x = fst v \<and> settled_with st heights ok R v) (safe st)"
    by (rule vtriple_store_read) (auto simp: safety_view_def dest: settled_with_tails_ok)
  show "vtriple (\<lambda>v. x = fst v \<and> settled_with st heights ok R v)
      (ret (case x of Some s' \<Rightarrow> s' | None \<Rightarrow> s\<lparr>cs_sync_tail := sync_end\<rparr>))
      (\<lambda>s' v. R s' \<and> settled st heights ok s' (floor_height st s') v) (safe st)" for x
    by (rule vtriple_ret) (auto simp: settled_with_def settled_iff)
qed

lemma settled_put:
  assumes "settled st heights ok s t v"
  shows "settled st heights ok s t (with_parts (put_parts (attempt_parts an batch) (fst (snd (snd v)))) v)"
proof -
  obtain state raw parts wh legacy where v: "v = (state, raw, parts, wh, legacy)" by (cases v)
  from assms obtain k where s: "state = Some s" "raw = JNull" "ok None wh" "raw_ok parts"
    and k: "0 \<le> k" "t < k" "heights wh = {0..<k}" "state_ok st k parts s"
    by (auto simp: v settled_iff)
  have "raw_ok (put_parts (attempt_parts an batch) parts)"
    by (rule put_parts_raw_ok [OF s(4)]) (rule attempt_parts_at)
  moreover have "state_ok st k (put_parts (attempt_parts an batch) parts) s"
    using k(4) by (simp add: state_ok_def put_parts_covers)
  ultimately show ?thesis using s k by (auto simp: v with_parts_simp settled_iff)
qed

lemma settled_start:
  assumes "settled st heights ok s (floor_height st s) v" and "a = max 0 (floor_height st s + 1)"
  shows "settled st heights ok s (a - 1) v"
  using assms by (auto simp: settled_def max_def)

lemma online_window_triple:
  assumes "indexer_ok ix" and "ix_port ix = port" and "st = ix_settings ix" and "cs_stage s = Online"
    and "- 1 \<le> cs_process_tail s" "cs_process_tail s \<le> target" "target \<le> cs_sync_tail s"
  shows "vtriple (settled st heights ok s (floor_height st s)) (process_online_window ix latest s target ready)
    (\<lambda>_. settled_with st heights ok (\<lambda>s'. cs_stage s' = Online)) (safe st)"
proof -
  have ok': "settings_ok st" using assms(1,3) by (simp add: indexer_ok_def)
  let ?a = "max 0 (cs_process_tail s - se_reprocess_depth st + 1)"
  let ?b = "min target (cs_process_tail s + se_process_window st)"
  have depth: "1 \<le> se_reprocess_depth st" using ok' by (simp add: settings_ok_def)
  have hs: "online_process_heights (cs_process_tail s) target (se_reprocess_depth (ix_settings ix))
      (se_process_window (ix_settings ix)) = range_of ?a ?b"
    using online_window_start [OF depth assms(6,5)] by (simp add: online_process_heights_def assms(3))
  have floor: "floor_height st s = cs_process_tail s - se_reprocess_depth st"
    using assms(4) by (simp add: floor_height_def)
  let ?P = "settled st heights ok s (?a - 1)"
  have store: "vtriple ?P (store_raw_block_heights ix (range_of ?a ?b) (\<lambda>_. ret ())) (\<lambda>_. ?P) (safe st)"
    by (rule vtriple_conseq [OF store_raw_triple [where J = ?P and E = "safe st"]])
      (auto intro: settled_put settled_tails_ok vtriple_ret)
  have bounds: "vtriple ?P (lift_res (require_core_process_window_bounds (range_of ?a ?b)))
      (\<lambda>_ v. ?a \<le> ?b \<and> ?P v) (safe st)"
  proof (rule vtriple_lift)
    show "?a \<le> ?b \<and> ?P v" if "?P v" "require_core_process_window_bounds (range_of ?a ?b) = Inr x" for v x
      using that by (cases "?a \<le> ?b") (simp_all add: range_of_def require_core_process_window_bounds_def)
  qed (rule settled_tails_ok)
  have load: "vtriple ?P (load_raw_snapshots ix (range_of ?a ?b)) (\<lambda>ps v. loaded ?a ?b ps \<and> ?P v) (safe st)"
    if "?a \<le> ?b"
  proof (rule vtriple_framed_result [OF framed_load_raw_snapshots [where S = "\<lambda>_. True"]])
    show "loaded ?a ?b ps" if "?P (safety_view w)" "load_raw_snapshots ix (range_of ?a ?b) w = (Inr ps, w')" for w w' ps
    proof (rule loaded_all [OF \<open>?a \<le> ?b\<close>], rule load_raw_loaded [OF that(2)])
      show "raw_ok (wd_raw_parts w)" using that(1) by (simp add: safety_view_def settled_iff)
    qed
  qed (auto intro: settled_tails_ok)
  have process: "vtriple ?P (process_window ix (load_raw_snapshots ix (range_of ?a ?b)) last_height ready)
      (\<lambda>m v. settled st heights ok s (wm_end m) v \<and> ?a \<le> wm_end m \<and> wm_end m \<le> ?b) (safe st)"
    if "?a \<le> ?b" for last_height
    by (rule process_window_triple [OF assms(1,2) _ _ load [OF that]]) (use floor in simp_all)
  have publish: "vtriple (\<lambda>v. settled st heights ok s (wm_end m) v \<and> ?a \<le> wm_end m \<and> wm_end m \<le> ?b)
      (and_do (publish_window_progress ix latest m Online) (ret (wm_applied m \<or> cs_process_tail s < wm_end m)))
      (\<lambda>_. settled_with st heights ok (\<lambda>s'. cs_stage s' = Online)) (safe st)" for m
  proof (cases "?a \<le> wm_end m \<and> wm_end m \<le> ?b")
    case True
    have pub: "vtriple (settled st heights ok s (wm_end m)) (publish_window_progress ix latest m Online)
        (\<lambda>_. settled_with st heights ok (\<lambda>s'. cs_stage s' = Online)) (safe st)"
      by (rule publish_window_triple [OF ok']) (use True assms(7) in auto)
    show ?thesis by (rule vtriple_pre [OF vtriple_and_do [OF pub vtriple_ret]]) auto
  next
    case False
    then show ?thesis by (intro vtripleI) auto
  qed
  have rest: "vtriple (\<lambda>v. ?a \<le> ?b \<and> ?P v) (case x of (first_height, last_height) \<Rightarrow>
      then_do (process_window ix (load_raw_snapshots ix (range_of ?a ?b)) last_height ready) (\<lambda>m.
      and_do (publish_window_progress ix latest m Online) (ret (wm_applied m \<or> cs_process_tail s < wm_end m))))
      (\<lambda>_. settled_with st heights ok (\<lambda>s'. cs_stage s' = Online)) (safe st)" for x :: "int \<times> int"
    by (cases x) (auto intro!: vtriple_assume vtriple_then_do [OF process publish])
  show ?thesis
    unfolding process_online_window_def hs Let_def
    by (rule vtriple_pre [OF vtriple_and_do [OF store vtriple_then_do [OF bounds rest]]])
      (erule settled_start, simp add: floor)
qed

lemma advance_online_triple:
  assumes "indexer_ok ix" and "ix_port ix = port" and "st = ix_settings ix" and "cs_stage s = Online"
    and "- 1 \<le> cs_process_tail s" "cs_process_tail s \<le> cs_sync_tail s" "cs_process_tail s \<le> latest"
  shows "vtriple (settled st heights ok s (floor_height st s)) (advance_online_backlog ix latest s)
    (\<lambda>_. settled_with st heights ok (\<lambda>s'. cs_stage s' = Online)) (safe st)"
  unfolding advance_online_backlog_def Let_def
proof (rule vtriple_then_do)
  let ?e = "min latest (cs_sync_tail s + se_sync_window (ix_settings ix))"
  let ?R = "\<lambda>s'. cs_process_tail s' = cs_process_tail s \<and> cs_stage s' = Online
       \<and> cs_process_tail s \<le> cs_sync_tail s'"
  let ?Q = "\<lambda>_. settled_with st heights ok (\<lambda>s'. cs_stage s' = Online)"
  have ok': "settings_ok (ix_settings ix)" using assms(1) by (simp add: indexer_ok_def)
  show "vtriple (settled st heights ok s (floor_height st s)) (sync_online_backlog_if_needed ix latest s ?e)
      (\<lambda>_. settled_with st heights ok ?R) (safe st)"
    by (rule sync_online_triple [OF ok' assms(4-7) refl])
  have process: "vtriple (settled st heights ok s' (floor_height st s'))
      (process_online_backlog_if_needed ix latest s' force) ?Q (safe st)" if R: "?R s'" for s' force
  proof -
    let ?I = "settled st heights ok s' (floor_height st s')"
    have window: "vtriple ?I (process_online_window ix latest s' (min (cs_sync_tail s') latest) ready) ?Q (safe st)" for ready
      by (rule online_window_triple [OF assms(1-3)]) (use R assms(5,7) in auto)
    have ready: "vtriple ?I is_dogecoin_current_state_ready (\<lambda>_. ?I) (safe st)"
      by (rule vtriple_frame_any) (auto intro: frames settled_tails_ok)
    have no_work: "vtriple ?I (ret False) ?Q (safe st)"
      by (rule vtriple_ret, erule settled_withI) (use R in simp)
    show ?thesis
      unfolding process_online_backlog_if_needed_def Let_def
      by (rule vtriple_if, rule no_work, rule vtriple_then_do, rule ready, rule window)
  qed
  have then': "vtriple (\<lambda>v. ?R s' \<and> settled st heights ok s' (floor_height st s') v)
      (then_do (process_online_backlog_if_needed ix latest s' did_sync) (\<lambda>did_process. ret (did_sync \<or> did_process)))
      ?Q (safe st)" for s' did_sync
    by (rule vtriple_assume, rule vtriple_then_do [OF process vtriple_ret])
  show "vtriple (settled_with st heights ok ?R) (then_do (refreshed_online_backlog_state s ?e) (\<lambda>refreshed.
      then_do (process_online_backlog_if_needed ix latest refreshed did_sync) (\<lambda>did_process.
      ret (did_sync \<or> did_process)))) ?Q (safe st)" for did_sync
    by (rule vtriple_then_do [OF refreshed_triple then'])
qed

lemma online_stage_kept:
  assumes "settings_ok st" and "\<And>x. up_stage u = Some x \<Longrightarrow> x = Online"
    and "up_process_tail u = None" "up_sync_tail u = None"
  shows "vtriple (settled_with st heights ok (\<lambda>s'. cs_stage s' = Online)) (upsert_state u)
    (\<lambda>_. settled_with st heights ok (\<lambda>s'. cs_stage s' = Online)) (safe st)"
proof -
  have one: "vtriple (settled_with st heights ok (\<lambda>s'. same_tails s s' \<and> cs_stage s' = Online)) (upsert_state u)
      (\<lambda>_. settled_with st heights ok (\<lambda>s'. cs_stage s' = Online)) (safe st)" for s
    by (rule vtriple_conseq [OF upsert_keeps [OF assms(1,3,4), where stage = Online and s = s]])
      (use assms(2) in \<open>auto simp: pick_def elim!: settled_with_mono split: option.splits\<close>)
  have "vtriple (\<lambda>v. \<exists>s. settled_with st heights ok (\<lambda>s'. same_tails s s' \<and> cs_stage s' = Online) v) (upsert_state u)
      (\<lambda>_. settled_with st heights ok (\<lambda>s'. cs_stage s' = Online)) (safe st)"
    by (rule vtriple_ex, rule one)
  then show ?thesis by (rule vtriple_pre) (auto simp: settled_with_def same_tails_def)
qed

lemma publish_no_work_triple:
  assumes "settings_ok st"
  shows "vtriple (settled_with st heights ok (\<lambda>s'. cs_stage s' = Online)) (publish_online_no_work_if_possible ix latest s)
    (\<lambda>_. safe st) (safe st)"
proof -
  let ?I = "settled_with st heights ok (\<lambda>s'. cs_stage s' = Online)"
  have publish: "vtriple ?I (and_do (publish_progress ix latest s') (ret x)) (\<lambda>_. safe st) (safe st)" for s' and x :: bool
    by (rule vtriple_and_do, rule vtriple_framed [OF framed_publish_progress])
      (erule settled_with_present | rule vtriple_ret | erule settled_with_tails_ok)+
  have current: "vtriple ?I (is_current_online_state_ready latest s) (\<lambda>_. ?I) (safe st)"
  proof (rule vtriple_frame_any)
    show "framed (\<lambda>_. True) (is_current_online_state_ready latest s)"
      unfolding is_current_online_state_ready_def by (auto intro!: frames framed_then_do)
  qed (auto dest: settled_with_tails_ok)
  have ensure: "vtriple ?I (ensure_ready_online_state latest s) (\<lambda>_. ?I) (safe st)"
    unfolding ensure_ready_online_state_def
    by (rule vtriple_if, rule vtriple_ret, assumption, rule online_stage_kept [OF assms])
      (simp_all add: no_update_def)
  show ?thesis
    unfolding publish_online_no_work_if_possible_def
    by (intro vtriple_then_do [OF current] vtriple_if vtriple_then_do [OF ensure publish] publish vtriple_ret)
      (erule settled_with_tails_ok)
qed

lemma online_triple:
  assumes "indexer_ok ix" and "ix_port ix = port" and "st = ix_settings ix" and "cs_stage s = Online"
    and "- 1 \<le> cs_process_tail s" "cs_process_tail s \<le> cs_sync_tail s" "cs_process_tail s \<le> latest"
  shows "vtriple (settled st heights ok s (floor_height st s)) (online ix latest s) (\<lambda>_. safe st) (safe st)"
proof -
  let ?I = "settled_with st heights ok (\<lambda>s'. cs_stage s' = Online)"
  have ok': "settings_ok st" using assms(1,3) by (simp add: indexer_ok_def)
  have worked: "vtriple ?I (ret True) (\<lambda>_. safe st) (safe st)"
    by (rule vtriple_ret) (erule settled_with_tails_ok)
  have idle: "vtriple ?I (and_do (publish_online_no_work_if_possible ix latest s) (ret False)) (\<lambda>_. safe st) (safe st)"
    by (rule vtriple_and_do [OF publish_no_work_triple [OF ok'] vtriple_ret])
  show ?thesis
    unfolding online_def
    by (rule vtriple_then_do [OF advance_online_triple [OF assms]]) (rule vtriple_if [OF worked idle])
qed

lemma stage_triple:
  assumes "indexer_ok ix" and "ix_port ix = port" and "st = ix_settings ix" and "iteration_ok it"
    and "cs_process_tail s \<le> latest"
  shows "vtriple (settled st heights ok s (floor_height st s)) (run_dogecoin_stage ix it latest s)
    (\<lambda>_. safe st) (safe st)"
proof -
  let ?b = "- 1 \<le> cs_process_tail s \<and> cs_process_tail s \<le> cs_sync_tail s"
  have ok': "settings_ok (ix_settings ix)" using assms(1) by (simp add: indexer_ok_def)
  have "vtriple (settled st heights ok s (floor_height st s)) (run_dogecoin_stage ix it latest s)
      (\<lambda>_. safe st) (safe st)" if ?b
    using that sync_backfill_triple [OF ok' assms(3)] process_backfill_triple [OF assms(1-4)]
      online_triple [OF assms(1-3)] assms(5)
    unfolding run_dogecoin_stage_def by (cases "cs_stage s") simp_all
  then have "vtriple (\<lambda>v. ?b \<and> settled st heights ok s (floor_height st s) v) (run_dogecoin_stage ix it latest s)
      (\<lambda>_. safe st) (safe st)" by (rule vtriple_assume)
  then show ?thesis by (rule vtriple_pre) (auto simp: settled_def state_ok_def)
qed

section \<open>The start of an iteration\<close>

definition calm :: "core_settings \<Rightarrow> 'w safety_view \<Rightarrow> bool" where
  "calm st v \<longleftrightarrow> safe st v \<and> fst (snd v) = JNull"

lemma recover_step:
  assumes "safe st v" and "fst (snd v) = marker_json m"
    and "wp_recover port ft (rm_start_height m) update (fst (snd (snd (snd v)))) = (r, wh')"
  shows "safe st (with_warehouse wh' v) \<and> fst (snd (with_warehouse wh' v)) = marker_json m
    \<and> fst (with_warehouse wh' v) = fst v
    \<and> (is_ok r \<longrightarrow> calm st (with_marker JNull (with_warehouse wh' v)))"
proof -
  obtain state raw parts wh legacy where v: "v = (state, raw, parts, wh, legacy)" by (cases v)
  have raw: "raw = marker_json m" "raw \<noteq> JNull" using assms(2) by (simp_all add: v marker_json_def)
  obtain k s where st: "raw_ok parts" "solid k (heights wh)" "marker_bound raw k (heights wh) (\<lambda>p. ok p wh)"
    "state = Some s" "state_ok st k parts s"
    using assms(1) raw(2) by (auto simp: v tails_ok_def split: option.splits)
  obtain m' where m': "raw = marker_json m'" "marker_ok m'" "rm_start_height m' = k" "ok (Some k) wh"
    using st(3) raw(2) by (auto simp: marker_bound_def)
  have "m' = m" using raw(1) m'(1) by (simp add: marker_json_inject)
  then have k: "marker_ok m" "rm_start_height m = k" "0 \<le> k" using m' by (auto simp: marker_ok_def)
  have run: "wp_recover port ft k update wh = (r, wh')" using assms(3) by (simp add: v k(2))
  note kept = recover_kept [OF m'(4) k(3) run]
  have solid: "solid k (heights wh')" using kept st(2) by (simp add: solid_def)
  have "safe st (with_warehouse wh' v)"
    using kept st raw(1) k solid by (auto simp: v with_simps intro!: marked_tails_ok)
  moreover have "calm st (with_marker JNull (with_warehouse wh' v))" if "is_ok r"
  proof -
    from that obtain u where "wp_recover port ft k update wh = (Inr u, wh')" using run by (auto simp: is_ok_iff)
    from recover_done [OF m'(4) k(3) this] have "ok None wh'" "heights wh' = {0..<k}"
      using st(2) by (simp_all add: solid_def)
    then show ?thesis using st solid
      by (auto simp: v with_simps calm_def tails_ok_def marker_bound_def)
  qed
  ultimately show ?thesis using raw(1) by (simp add: v with_simps)
qed

lemma marker_present:
  assumes "safe st v" and "truthy (fst (snd v))"
  shows "\<exists>m. fst (snd v) = marker_json m \<and> marker_ok m"
  using assms by (auto simp: tails_ok_def marker_bound_def split: prod.splits)

lemma marker_absent:
  assumes "safe st v" and "\<not> truthy (fst (snd v))" shows "calm st v"
  using assms by (auto simp: calm_def tails_ok_def marker_bound_def marker_json_def split: prod.splits)

lemma recover_pending_triple:
  assumes "ix_port ix = port"
  shows "vtriple (\<lambda>v. safe st v \<and> fst v = x) (recover_pending_core_apply_if_needed ix)
    (\<lambda>_ v. calm st v \<and> fst v = x) (safe st)"
  unfolding recover_pending_core_apply_if_needed_def
proof (rule vtriple_then_do)
  let ?P = "\<lambda>v. safe st v \<and> fst v = x"
  let ?Q = "\<lambda>_ v. calm st v \<and> fst v = x"
  show "vtriple ?P (get_config config_key_core_apply_recovery) (\<lambda>raw v. raw = fst (snd v) \<and> ?P v) (safe st)"
    unfolding get_config_def by (rule vtriple_store_read) (simp_all add: safety_view_def)
  fix raw
  show "vtriple (\<lambda>v. raw = fst (snd v) \<and> ?P v) (if \<not> truthy raw then ret () else
      then_do (lift_res (parse_core_apply_recovery_marker raw)) (\<lambda>m.
      and_do (recover_window ix (rm_start_height m) (rm_update_current_state m)) (
      then_do (compare_and_delete_config config_key_core_apply_recovery (marker_json m)) (\<lambda>cleared.
      if cleared then ret ()
      else throw (GenericError (''core apply recovery marker changed during recovery chain=''
             @ ix_chain ix @ '' window='' @ int_str (rm_start_height m) @ ''-''
             @ int_str (rm_end_height m))))))) ?Q (safe st)"
  proof (rule vtriple_if)
    assume "\<not> truthy raw"
    then show "vtriple (\<lambda>v. raw = fst (snd v) \<and> ?P v) (ret ()) ?Q (safe st)"
      by (intro vtriple_ret) (auto dest: marker_absent)
  next
    assume "\<not> \<not> truthy raw"
    have parse: "vtriple (\<lambda>v. raw = fst (snd v) \<and> ?P v) (lift_res (parse_core_apply_recovery_marker raw))
        (\<lambda>m v. fst (snd v) = marker_json m \<and> ?P v) (safe st)"
    proof (rule vtriple_lift)
      fix v m assume v: "raw = fst (snd v) \<and> ?P v" and m: "parse_core_apply_recovery_marker raw = Inr m"
      then obtain m' where "raw = marker_json m'" "marker_ok m'"
        using marker_present [of st v] \<open>\<not> \<not> truthy raw\<close> by auto
      then show "fst (snd v) = marker_json m \<and> ?P v" using v m parse_marker_json [of m'] by auto
    qed simp
    have recover: "vtriple (\<lambda>v. fst (snd v) = marker_json m \<and> ?P v)
        (recover_window ix (rm_start_height m) (rm_update_current_state m))
        (\<lambda>_ v. (fst (snd v) = marker_json m \<and> ?P v) \<and> calm st (with_marker JNull v)) (safe st)" for m
      unfolding recover_window_def assms
    proof (rule vtriple_then_do)
      show "vtriple (\<lambda>v. fst (snd v) = marker_json m \<and> ?P v) next_fault
          (\<lambda>_ v. fst (snd v) = marker_json m \<and> ?P v) (safe st)"
        by (rule vtriple_frame_any) (auto intro: frames)
      show "vtriple (\<lambda>v. fst (snd v) = marker_json m \<and> ?P v)
          (warehouse_call (wp_recover port ft (rm_start_height m) (rm_update_current_state m)))
          (\<lambda>_ v. (fst (snd v) = marker_json m \<and> ?P v) \<and> calm st (with_marker JNull v)) (safe st)" for ft
        by (rule vtriple_warehouse_call) (use recover_step in \<open>force split: sum.splits\<close>)
    qed
    have clear: "vtriple (\<lambda>v. (fst (snd v) = marker_json m \<and> ?P v) \<and> calm st (with_marker JNull v))
      (then_do (compare_and_delete_config config_key_core_apply_recovery (marker_json m)) (\<lambda>cleared.
       if cleared then ret () else throw (e m))) ?Q (safe st)" for m e
    proof (rule vtriple_then_do)
      show "vtriple (\<lambda>v. (fst (snd v) = marker_json m \<and> ?P v) \<and> calm st (with_marker JNull v))
          (compare_and_delete_config config_key_core_apply_recovery (marker_json m))
          (\<lambda>b v. b \<and> calm st v \<and> fst v = x) (safe st)"
      proof (rule vtriple_delete_marker)
        show "True \<and> calm st (with_marker JNull v) \<and> fst (with_marker JNull v) = x"
          if "(fst (snd v) = marker_json m \<and> ?P v) \<and> calm st (with_marker JNull v)" for v
          using that by (cases v) (simp add: with_simps)
      qed (auto simp: marker_json_def calm_def)
      show "vtriple (\<lambda>v. b \<and> calm st v \<and> fst v = x) (if b then ret () else throw (e m)) ?Q (safe st)" for b
        by (cases b) (auto intro!: vtriple_ret vtriple_throw)
    qed
    show "vtriple (\<lambda>v. raw = fst (snd v) \<and> ?P v)
      (then_do (lift_res (parse_core_apply_recovery_marker raw)) (\<lambda>m.
      and_do (recover_window ix (rm_start_height m) (rm_update_current_state m)) (
      then_do (compare_and_delete_config config_key_core_apply_recovery (marker_json m)) (\<lambda>cleared.
      if cleared then ret ()
      else throw (GenericError (''core apply recovery marker changed during recovery chain=''
             @ ix_chain ix @ '' window='' @ int_str (rm_start_height m) @ ''-''
             @ int_str (rm_end_height m))))))) ?Q (safe st)"
      by (rule vtriple_then_do [OF parse vtriple_and_do [OF recover clear]])
  qed
qed

lemma calm_settled:
  assumes "calm st v" and "fst v = Some s" shows "settled st heights ok s (floor_height st s) v"
proof -
  obtain state raw parts wh legacy where v: "v = (state, raw, parts, wh, legacy)" by (cases v)
  from assms obtain k where k: "solid k (heights wh)" "marker_bound JNull k (heights wh) (\<lambda>p. ok p wh)" "state_ok st k parts s"
    and rest: "state = Some s" "raw = JNull" "raw_ok parts"
    by (auto simp: v calm_def tails_ok_def)
  have "heights wh = {0..<k}" "ok None wh" using k(2) by (simp_all add: marker_bound_def marker_json_def)
  then show ?thesis using k rest by (auto simp: v settled_iff solid_def state_ok_def)
qed

lemma initial_row:
  assumes "calm st v" and "fst v = None" and "- 1 \<le> latest"
  shows "settled st heights ok (upsert_core_indexer_state \<lparr>up_last_error = e, up_online_tip = Some latest,
      up_process_tail = Some (- 1), up_stage = Some Sync_Backfill, up_sync_tail = Some (min (- 1) latest)\<rparr> (fst v)) (- 1)
    (with_state (upsert_core_indexer_state \<lparr>up_last_error = e, up_online_tip = Some latest,
      up_process_tail = Some (- 1), up_stage = Some Sync_Backfill, up_sync_tail = Some (min (- 1) latest)\<rparr> (fst v)) v)"
  using assms
  by (cases v)
    (auto simp: calm_def tails_ok_def marker_bound_def marker_json_def with_simps settled_iff
      upsert_core_indexer_state_def state_ok_def floor_height_def raw_covers_def intro!: exI [of _ 0])

lemma ensure_state_triple:
  assumes "- 1 \<le> latest" and "\<And>s. x = Some s \<Longrightarrow> cs_process_tail s \<le> latest"
  shows "vtriple (\<lambda>v. calm st v \<and> fst v = x) (ensure_state latest)
    (\<lambda>s v. cs_process_tail s \<le> latest \<and> settled st heights ok s (floor_height st s) v) (safe st)"
  unfolding ensure_state_def
proof (rule vtriple_then_do)
  let ?P = "\<lambda>v. calm st v \<and> fst v = x"
  let ?Q = "\<lambda>s v. cs_process_tail s \<le> latest \<and> settled st heights ok s (floor_height st s) v"
  show "vtriple ?P (store_read wd_state) (\<lambda>y v. y = fst v \<and> ?P v) (safe st)"
    by (rule vtriple_store_read) (simp_all add: safety_view_def calm_def)
  fix y
  let ?u = "\<lambda>stored. \<lparr>up_last_error = Some None, up_online_tip = Some latest,
           up_process_tail = Some (- 1), up_stage = Some Sync_Backfill,
           up_sync_tail = Some (min stored latest)\<rparr>"
  show "vtriple (\<lambda>v. y = fst v \<and> ?P v) (case y of Some s \<Rightarrow> ret s
      | None \<Rightarrow> then_do stored_sync_tail (\<lambda>stored. upsert_state (?u stored))) ?Q (safe st)"
  proof (cases y)
    case (Some s)
    have "vtriple (\<lambda>v. y = fst v \<and> ?P v) (ret s) ?Q (safe st)"
      by (rule vtriple_ret) (use calm_settled assms(2) Some in auto)
    then show ?thesis by (simp add: Some)
  next
    case None
    let ?N = "\<lambda>v. calm st v \<and> fst v = None"
    have legacy: "get_json_value config_key_indexer_sync_tail (wd_configs w) = JNull" if "?N (safety_view w)"
      for w :: "'w world"
      using that by (auto simp: calm_def tails_ok_def safety_view_def)
    have stored: "vtriple ?N stored_sync_tail (\<lambda>i v. i = - 1 \<and> ?N v) (safe st)"
      unfolding stored_sync_tail_def get_config_def
    proof (rule vtriple_then_do)
      show "vtriple ?N (store_read (\<lambda>w. get_json_value config_key_indexer_sync_tail (wd_configs w)))
          (\<lambda>j v. j = JNull \<and> ?N v) (safe st)"
        by (rule vtriple_store_read) (use legacy in \<open>auto simp: calm_def\<close>)
      show "vtriple (\<lambda>v. j = JNull \<and> ?N v) (ret (case j of JNum (JInt i) \<Rightarrow> i | _ \<Rightarrow> - 1))
          (\<lambda>i v. i = - 1 \<and> ?N v) (safe st)" for j
        by (rule vtriple_ret) auto
    qed
    have upsert: "vtriple (\<lambda>v. i = - 1 \<and> ?N v) (upsert_state (?u i)) ?Q (safe st)" for i
    proof (rule vtriple_assume, rule vtriple_upsert)
      fix v assume "i = - 1" and v: "?N v"
      let ?s = "upsert_core_indexer_state (?u i) (fst v)"
      have "settled st heights ok ?s (- 1) (with_state ?s v)"
        using initial_row [OF _ _ assms(1)] v by (simp add: \<open>i = - 1\<close>)
      moreover have "cs_process_tail ?s = - 1" by (simp add: upsert_core_indexer_state_def)
      ultimately show "cs_process_tail ?s \<le> latest \<and> settled st heights ok ?s (floor_height st ?s) (with_state ?s v)"
        using assms(1) settled_floor by simp
    qed (auto simp: calm_def intro: settled_tails_ok)
    have "vtriple (\<lambda>v. y = fst v \<and> ?P v) (then_do stored_sync_tail (\<lambda>stored. upsert_state (?u stored))) ?Q (safe st)"
      by (rule vtriple_pre [OF vtriple_then_do [OF stored upsert]]) (simp add: None)
    then show ?thesis by (simp add: None)
  qed
qed

lemma reconcile_triple:
  assumes "ix_port ix = port" and "settings_ok st"
  shows "vtriple (\<lambda>v. cs_process_tail s \<le> latest \<and> settled st heights ok s (floor_height st s) v)
    (reconcile_process_tail_with_warehouse ix s)
    (\<lambda>s' v. cs_process_tail s' \<le> latest \<and> settled st heights ok s' (floor_height st s') v) (safe st)"
proof (rule vtriple_assume)
  assume latest: "cs_process_tail s \<le> latest"
  let ?I = "settled st heights ok s (floor_height st s)"
  let ?Q = "\<lambda>s' v. cs_process_tail s' \<le> latest \<and> settled st heights ok s' (floor_height st s') v"
  have same: "vtriple ?I (ret s) ?Q (safe st)" by (rule vtriple_ret) (simp add: latest)
  have noted: "vtriple P (change (\<lambda>w. w\<lparr>wd_tail_reconciled := True\<rparr>)) (\<lambda>_. P) (safe st)"
    if "\<And>v. P v \<Longrightarrow> ?I v" for P
    by (rule vtriple_frame_any, rule framed_change) (auto simp: safety_view_def dest: that settled_tails_ok)
  have warehouse: "vtriple ?I (then_do (store_read (\<lambda>w. tail (wd_warehouse w))) (\<lambda>t.
           and_do (change (\<lambda>w. w\<lparr>wd_tail_reconciled := True\<rparr>)) (
           let warehouse_tail = (case t of None \<Rightarrow> - 1 | Some i \<Rightarrow> i) in
           if cs_process_tail s \<le> warehouse_tail then ret s
           else
             then_do is_dogecoin_current_state_ready (\<lambda>ready.
             and_do (recover_window ix (warehouse_tail + 1) ready)
               (upsert_state (no_update\<lparr>up_process_tail := Some warehouse_tail\<rparr>)))))) ?Q (safe st)"
    if tail: "wp_processed_tail port = Some tail" for tail
  proof (rule vtriple_then_do)
    let ?R = "\<lambda>t v. heights (fst (snd (snd (snd v)))) = {0..<(case t of None \<Rightarrow> - 1 | Some i \<Rightarrow> i) + 1}
        \<and> - 1 \<le> (case t of None \<Rightarrow> - 1 | Some i \<Rightarrow> i)"
    show "vtriple ?I (store_read (\<lambda>w. tail (wd_warehouse w))) (\<lambda>t v. ?R t v \<and> ?I v) (safe st)"
    proof (rule vtriple_store_read)
      fix w :: "'w world" and fts assume "?I (safety_view w)"
      then obtain k where k: "0 \<le> k" "heights (wd_warehouse w) = {0..<k}" "ok None (wd_warehouse w)"
        by (auto simp: safety_view_def settled_iff)
      have "(case tail (wd_warehouse w) of None \<Rightarrow> - 1 | Some i \<Rightarrow> i) = k - 1"
      proof (cases "tail (wd_warehouse w)")
        case None
        then show ?thesis using tail_exact [OF tail k(3)] k(1,2) by simp
      next
        case (Some i)
        then have i: "0 \<le> i" "i < k" "\<forall>h \<in> {0..<k}. h \<le> i" using tail_exact [OF tail k(3)] k(2) by auto
        then have "k - 1 \<in> {0..<k}" by simp
        then have "k - 1 \<le> i" using i(3) by blast
        then show ?thesis using i(2) Some by simp
      qed
      then show "?R (tail (wd_warehouse (w\<lparr>wd_script := fts\<rparr>))) (safety_view w)"
        using k by (simp add: safety_view_def)
    qed (rule settled_tails_ok)
    fix t :: "int option"
    define k where "k = (case t of None \<Rightarrow> - 1 | Some i \<Rightarrow> i) + 1"
    have t: "(case t of None \<Rightarrow> - 1 | Some i \<Rightarrow> i) = k - 1" by (simp add: k_def)
    let ?u = "no_update\<lparr>up_process_tail := Some (k - 1)\<rparr>"
    let ?H = "\<lambda>v. ?I v \<and> heights (fst (snd (snd (snd v)))) = {0..<k} \<and> 0 \<le> k"
    have ready: "vtriple ?H is_dogecoin_current_state_ready (\<lambda>_. ?H) (safe st)"
      by (rule vtriple_frame_any) (auto intro: frames settled_tails_ok)
    have recover: "vtriple ?H (recover_window ix k update) (\<lambda>_. ?H) (safe st)" for update
      unfolding recover_window_def assms(1)
    proof (rule vtriple_then_do)
      show "vtriple ?H next_fault (\<lambda>_. ?H) (safe st)"
        by (rule vtriple_frame_any) (auto intro: frames settled_tails_ok)
      show "vtriple ?H (warehouse_call (wp_recover port ft k update)) (\<lambda>_. ?H) (safe st)" for ft
      proof (rule vtriple_warehouse_call)
        fix v r wh' assume H: "?H v" and run: "wp_recover port ft k update (fst (snd (snd (snd v)))) = (r, wh')"
        have rest: "ok None (fst (snd (snd (snd v))))" using H by (cases v) (auto simp: settled_iff)
        from recover_rest [OF rest _ run] recover_kept [OF at_rest [OF rest] _ run] H
        have kept: "ok None wh'" "{h \<in> heights wh'. h < k} = {0..<k}" "heights wh' \<subseteq> {0..<k}" by auto
        then have "heights wh' = {0..<k}" by blast
        with kept(1) have "?H (with_warehouse wh' v)" using H by (cases v) (auto simp: settled_iff with_simps)
        then show "case r of Inl e \<Rightarrow> safe st (with_warehouse wh' v) | Inr x \<Rightarrow> ?H (with_warehouse wh' v)"
          by (auto split: sum.splits intro: settled_tails_ok)
      qed
    qed
    have upsert: "vtriple ?H (upsert_state ?u) ?Q (safe st)" if "k - 1 < cs_process_tail s"
    proof (rule vtriple_upsert)
      fix v assume H: "?H v"
      let ?s = "upsert_core_indexer_state ?u (fst v)"
      have s: "fst v = Some s" using H settled_fst by blast
      have fields: "cs_process_tail ?s = k - 1" "cs_sync_tail ?s = cs_sync_tail s" "cs_stage ?s = cs_stage s"
        by (simp_all add: s upsert_core_indexer_state_def no_update_def)
      have "settled st heights ok ?s (floor_height st ?s) (with_state ?s v)"
      proof -
        obtain state raw parts wh legacy where v: "v = (state, raw, parts, wh, legacy)" by (cases v)
        have "floor_height st ?s < k" using assms(2) unfolding floor_height_def fields by (simp add: settings_ok_def)
        moreover have "- 1 \<le> k - 1" "k - 1 \<le> cs_sync_tail s" "raw_covers parts (cs_sync_tail s)"
          using H that by (auto simp: v settled_iff state_ok_def)
        ultimately have "state_ok st k parts ?s" by (simp add: state_ok_def fields)
        then show ?thesis
          using H \<open>floor_height st ?s < k\<close> by (auto simp: v settled_iff with_simps)
      qed
      then show "cs_process_tail ?s \<le> latest \<and> settled st heights ok ?s (floor_height st ?s) (with_state ?s v)"
        using that latest fields(1) by simp
    qed (auto intro: settled_tails_ok)
    have rewind: "vtriple ?H (if cs_process_tail s \<le> k - 1 then ret s
           else then_do is_dogecoin_current_state_ready (\<lambda>ready.
             and_do (recover_window ix (k - 1 + 1) ready) (upsert_state ?u))) ?Q (safe st)"
    proof (rule vtriple_if)
      show "vtriple ?H (ret s) ?Q (safe st)" by (rule vtriple_pre [OF same]) simp
      assume "\<not> cs_process_tail s \<le> k - 1"
      then have "k - 1 < cs_process_tail s" by simp
      from vtriple_then_do [OF ready vtriple_and_do [OF recover upsert [OF this]]]
      show "vtriple ?H (then_do is_dogecoin_current_state_ready (\<lambda>ready.
             and_do (recover_window ix (k - 1 + 1) ready) (upsert_state ?u))) ?Q (safe st)" by simp
    qed
    have pre: "vtriple ?H (change (\<lambda>w. w\<lparr>wd_tail_reconciled := True\<rparr>)) (\<lambda>_. ?H) (safe st)"
      by (rule noted) simp
    show "vtriple (\<lambda>v. ?R t v \<and> ?I v) (and_do (change (\<lambda>w. w\<lparr>wd_tail_reconciled := True\<rparr>)) (
           let warehouse_tail = (case t of None \<Rightarrow> - 1 | Some i \<Rightarrow> i) in
           if cs_process_tail s \<le> warehouse_tail then ret s
           else
             then_do is_dogecoin_current_state_ready (\<lambda>ready.
             and_do (recover_window ix (warehouse_tail + 1) ready)
               (upsert_state (no_update\<lparr>up_process_tail := Some warehouse_tail\<rparr>))))) ?Q (safe st)"
      unfolding t Let_def by (rule vtriple_pre [OF vtriple_and_do [OF pre rewind]]) auto
  qed
  have get: "vtriple ?I (get_field wd_tail_reconciled) (\<lambda>_. ?I) (safe st)"
    by (rule vtriple_frame_any) (auto intro: frames settled_tails_ok)
  have unknown: "vtriple ?I (and_do (change (\<lambda>w. w\<lparr>wd_tail_reconciled := True\<rparr>)) (ret s)) ?Q (safe st)"
    by (rule vtriple_and_do [OF noted same])
  show "vtriple ?I (reconcile_process_tail_with_warehouse ix s) ?Q (safe st)"
    unfolding reconcile_process_tail_with_warehouse_def assms(1)
    by (rule vtriple_then_do [OF get], rule vtriple_if, rule same)
      (use unknown warehouse in \<open>auto split: option.splits\<close>)
qed

lemma watchdog_triple:
  "vtriple (settled st heights ok s t) (assert_progress_watchdog ix latest s)
    (\<lambda>_. settled st heights ok s t) (safe st)"
proof -
  let ?I = "settled st heights ok s t"
  have frame: "vtriple ?I m (\<lambda>_. ?I) (safe st)" if "framed (\<lambda>_. True) m" for m :: "('w, 'b) io"
    by (rule vtriple_frame_any [OF that]) (auto dest: settled_tails_ok)
  have skip: "vtriple ?I (if cs_stage s \<noteq> Online then ret False else is_dogecoin_current_state_ready) (\<lambda>_. ?I) (safe st)"
    by (rule frame) (auto intro: frames)
  have expired: "vtriple ?I (exit_process message) (\<lambda>_. ?I) (safe st)" for message
    by (rule vtriple_pre [OF exit_process_triple]) (rule settled_tails_ok)
  have age: "vtriple ?I (case age of None \<Rightarrow> ret ()
      | Some age \<Rightarrow> if is_fresh_progress_age (Some age) limit then ret () else exit_process (message age))
      (\<lambda>_. ?I) (safe st)" for age limit message
    using expired by (auto split: option.splits intro: vtriple_ret)
  show ?thesis
    unfolding assert_progress_watchdog_def
    by (rule vtriple_then_do [OF skip], rule vtriple_if, rule vtriple_ret, assumption,
        rule vtriple_then_do, rule frame, rule frames, rule vtriple_then_do, rule frame, rule frames,
        rule vtriple_then_do, rule frame, rule frames, rule age)
qed

lemma run_dogecoin_triple:
  assumes "indexer_ok ix" and "ix_port ix = port" and "st = ix_settings ix" and "iteration_ok it"
    and "\<And>latest. it_latest it = Inr latest \<Longrightarrow> - 1 \<le> latest
      \<and> (\<forall>s. x = Some s \<longrightarrow> cs_process_tail s \<le> latest)"
  shows "vtriple (\<lambda>v. safe st v \<and> fst v = x) (run_dogecoin ix it) (\<lambda>_. safe st) (safe st)"
proof -
  let ?P = "\<lambda>v. safe st v \<and> fst v = x"
  have ok': "settings_ok st" using assms(1,3) by (simp add: indexer_ok_def)
  have latest: "vtriple ?P (lift_res (it_latest it)) (\<lambda>latest v. it_latest it = Inr latest \<and> ?P v) (safe st)"
    by (rule vtriple_lift) auto
  have lease: "vtriple ?P assert_primary_lease (\<lambda>_. ?P) (safe st)"
    by (rule vtriple_frame_any) (auto intro: frames)
  let ?J = "\<lambda>latest s v. cs_process_tail s \<le> latest \<and> settled st heights ok s (floor_height st s) v"
  have work: "vtriple ?P (and_do (recover_pending_core_apply_if_needed ix) (
        then_do (ensure_state latest) (\<lambda>s0.
        then_do (reconcile_process_tail_with_warehouse ix s0) (\<lambda>s.
        and_do (mark_transaction_refs_ready_if_caught_up s) (
        and_do (publish_progress ix latest s) (
        and_do (assert_progress_watchdog ix latest s)
          (run_dogecoin_stage ix it latest s))))))) (\<lambda>_. safe st) (safe st)"
    if it: "it_latest it = Inr latest" for latest
  proof (rule vtriple_and_do [OF recover_pending_triple [OF assms(2)]], rule vtriple_then_do)
    show "vtriple (\<lambda>v. calm st v \<and> fst v = x) (ensure_state latest) (?J latest) (safe st)"
      by (rule ensure_state_triple) (use assms(5) [OF it] in auto)
    have stage: "vtriple (?J latest s)
       (and_do (mark_transaction_refs_ready_if_caught_up s) (and_do (publish_progress ix latest s) (
        and_do (assert_progress_watchdog ix latest s) (run_dogecoin_stage ix it latest s))))
       (\<lambda>_. safe st) (safe st)" for s
    proof (rule vtriple_assume)
      assume l: "cs_process_tail s \<le> latest"
      let ?I = "settled st heights ok s (floor_height st s)"
      have mark: "vtriple ?I (mark_transaction_refs_ready_if_caught_up s) (\<lambda>_. ?I) (safe st)"
        by (rule vtriple_frame_any) (auto intro: frames settled_tails_ok)
      have publish: "vtriple ?I (publish_progress ix latest s) (\<lambda>_. ?I) (safe st)"
        by (rule vtriple_framed [OF framed_publish_progress]) (erule settled_present settled_tails_ok)+
      show "vtriple ?I (and_do (mark_transaction_refs_ready_if_caught_up s) (and_do (publish_progress ix latest s) (
          and_do (assert_progress_watchdog ix latest s) (run_dogecoin_stage ix it latest s))))
          (\<lambda>_. safe st) (safe st)"
        by (rule vtriple_and_do [OF mark vtriple_and_do [OF publish vtriple_and_do [OF watchdog_triple
              stage_triple [OF assms(1-4) l]]]])
    qed
    show "vtriple (?J latest s0) (then_do (reconcile_process_tail_with_warehouse ix s0) (\<lambda>s.
        and_do (mark_transaction_refs_ready_if_caught_up s) (and_do (publish_progress ix latest s) (
        and_do (assert_progress_watchdog ix latest s) (run_dogecoin_stage ix it latest s)))))
        (\<lambda>_. safe st) (safe st)" for s0
      by (rule vtriple_then_do [OF reconcile_triple [OF assms(2) ok'] stage])
  qed
  have handler: "vtriple (safe st) (case e of
          PrimaryLeaseLostError \<Rightarrow> throw e
        | ProcessExit n \<Rightarrow> throw e
        | _ \<Rightarrow> and_do (set_error (thrown_message e)) (throw e)) Q (safe st)" for e Q
    by (cases e) (auto intro!: vtriple_throw vtriple_and_do [OF set_error_triple])
  show ?thesis
    unfolding run_dogecoin_def
    by (rule vtriple_then_do [OF latest], rule vtriple_assume, rule vtriple_and_do [OF lease],
        rule vtriple_catch [OF work handler]) 
qed

section \<open>Runs\<close>

lemma safe_step:
  assumes "indexer_ok ix" and "ix_port ix = port" and "answers_ok e" "tip_ok e w"
    and "safe (ix_settings ix) (safety_view w)"
  shows "safe (ix_settings ix) (safety_view (indexer_step ix e w))"
proof (cases e)
  case (Restart c now)
  have "safety_view (restart c now w) = safety_view w" by (simp add: restart_def safety_view_def)
  then show ?thesis using assms(5) Restart by simp
next
  case (Iterate it script clock syncs tm)
  let ?w = "w\<lparr>wd_script := script, wd_clock := clock, wd_syncs := syncs, wd_telemetry := tm\<rparr>"
  have view: "safety_view ?w = safety_view w" by (simp add: safety_view_def)
  have "vtriple (\<lambda>v. safe (ix_settings ix) v \<and> fst v = wd_state w) (run_dogecoin ix it)
      (\<lambda>_. safe (ix_settings ix)) (safe (ix_settings ix))"
    by (rule run_dogecoin_triple [OF assms(1,2) refl])
      (use assms(3,4) in \<open>auto simp: answers_ok_def tip_ok_def Iterate\<close>)
  then have "triple (\<lambda>w'. safe (ix_settings ix) (safety_view w') \<and> fst (safety_view w') = wd_state w)
      (run_dogecoin ix it) (\<lambda>_ w. safe (ix_settings ix) (safety_view w)) (\<lambda>w. safe (ix_settings ix) (safety_view w))"
    by (simp add: vtriple_def)
  from triple_conseq [OF this, where P' = "\<lambda>w'. w' = ?w" and Q' = "\<lambda>_ w. safe (ix_settings ix) (safety_view w)"
      and E' = "\<lambda>w. safe (ix_settings ix) (safety_view w)"]
  have "triple (\<lambda>w'. w' = ?w) (run_dogecoin ix it) (\<lambda>_ w. safe (ix_settings ix) (safety_view w))
      (\<lambda>w. safe (ix_settings ix) (safety_view w))"
    using assms(5) by (auto simp: view) (auto simp: safety_view_def)
  from triple_final [OF this, of ?w] show ?thesis by (simp add: Iterate)
qed

lemma safe_run:
  assumes "indexer_ok ix" and "ix_port ix = port"
  shows "list_all answers_ok es \<Longrightarrow> tips_ok ix es w \<Longrightarrow> safe (ix_settings ix) (safety_view w)
    \<Longrightarrow> safe (ix_settings ix) (safety_view (indexer_run ix es w))"
proof (induction es arbitrary: w)
  case (Cons e es)
  then show ?case using safe_step [OF assms] by (simp add: indexer_run_def)
qed (simp add: indexer_run_def)

text \<open>The invariant written out.\<close>

lemma safe_facts:
  assumes "safe st (safety_view w)"
  shows "(\<forall>h p. js_get (wd_raw_parts w) h = Some p \<longrightarrow> snapshot_at h p)
    \<and> (case wd_state w of
         None \<Rightarrow> heights (wd_warehouse w) = {}
       | Some s \<Rightarrow> - 1 \<le> cs_process_tail s \<and> cs_process_tail s \<le> cs_sync_tail s
           \<and> (\<forall>h \<in> {0..cs_sync_tail s}. js_get (wd_raw_parts w) h \<noteq> None)
           \<and> {0..floor_height st s} \<subseteq> heights (wd_warehouse w))
    \<and> (get_json_value config_key_core_apply_recovery (wd_configs w) = JNull
         \<longrightarrow> (\<exists>k \<ge> 0. heights (wd_warehouse w) = {0..<k}))"
proof -
  from assms obtain k where raw: "raw_ok (wd_raw_parts w)" and k: "solid k (heights (wd_warehouse w))"
    and bound: "marker_bound (get_json_value config_key_core_apply_recovery (wd_configs w)) k (heights (wd_warehouse w))
      (\<lambda>p. ok p (wd_warehouse w))"
    and row: "case wd_state w of None \<Rightarrow> heights (wd_warehouse w) = {} | Some s \<Rightarrow> state_ok st k (wd_raw_parts w) s"
    by (auto simp: tails_ok_def safety_view_def split: option.splits)
  have "{0..t} \<subseteq> heights (wd_warehouse w)" if "t < k" for t
    using k that by (force simp: solid_def)
  then show ?thesis
    using raw row bound k
    by (auto simp: raw_ok_def state_ok_def raw_covers_def marker_bound_def marker_json_def solid_def
        split: option.splits)
qed

text \<open>Without a marker the warehouse is at rest.\<close>

lemma safe_rest:
  "safe st (safety_view w) \<Longrightarrow> get_json_value config_key_core_apply_recovery (wd_configs w) = JNull
     \<Longrightarrow> ok None (wd_warehouse w)"
  by (auto simp: tails_ok_def safety_view_def marker_bound_def marker_json_def split: option.splits)

end

end
