(* ===== verification/Memory_Port.thy ===== *)
theory Memory_Port
  imports Memory_Warehouse Indexer_Stages
begin

text \<open>
  The in-memory warehouse as the store behind the indexer. \<open>Memory_Warehouse\<close> gives its operations
  as functions that return the new state or an error; here they are run statement by statement,
  so that the state left behind by a throw in the middle of a window is visible, and they are
  shown to agree with those functions whenever they complete. They satisfy the contract
  \<open>window_store\<close>, so every theorem about the indexer holds on this warehouse.
\<close>

section \<open>Statement by statement\<close>

text \<open>A call that either changes the state or throws before it has changed anything.\<close>

definition mutate :: "('s \<Rightarrow> 's res) \<Rightarrow> ('s, unit) eff" where
  "mutate f s = (case f s of Inl e \<Rightarrow> (Inl e, s) | Inr s' \<Rightarrow> (Inr (), s'))"

definition run_movement :: "int \<Rightarrow> address_movement \<Rightarrow> (warehouse, unit) eff" where
  "run_movement height mv =
     then_do (get_field (append_unique_address_movement mv)) (\<lambda>unique.
     if \<not> unique then ret ()
     else
       and_do (change (\<lambda>w. w\<lparr>ws_address_movements := ws_address_movements w @ [mv]\<rparr>))
         (mutate (apply_balance_delta mv height)))"

definition run_application ::
  "utxo_map \<Rightarrow> utxo_map \<Rightarrow> core_block_application \<Rightarrow> (warehouse, unit) eff" where
  "run_application created current a =
     (let movements = core_application_address_movements a created current in
      then_do (lift_res (core_application_transaction_facts a created current)) (\<lambda>facts.
      and_do (change (apply_batch_utxo_creates (ca_utxo_creates a))) (
      and_do (for_each (\<lambda>spend. mutate (apply_batch_utxo_spend spend)) (ca_utxo_spends a)) (
      and_do (for_each (run_movement (ca_block_height a)) movements) (
      and_do (change (fold upsert_analytics_transaction_fact facts))
        (change (append_applied_block (ca_block_height a) (ca_block_hash a))))))))"

definition run_rewind :: "int \<Rightarrow> (warehouse, unit) eff" where
  "run_rewind from = and_do (change (rewind_tables from)) (mutate rebuild_balances_from_current_utxos)"

definition run_pending ::
  "core_block_application list \<Rightarrow> (warehouse, core_block_application list) eff" where
  "run_pending inp =
     then_do (get_field (\<lambda>w. first_conflict inp (ws_applied_blocks w))) (\<lambda>conflict.
     case conflict of
       Some h \<Rightarrow> and_do (run_rewind h) (ret (filter (\<lambda>c. h \<le> ca_block_height c) inp))
     | None \<Rightarrow> get_field (\<lambda>w.
         filter (\<lambda>a. \<not> has_applied_block (ca_block_height a) (ca_block_hash a) w) inp))"

definition run_window :: "core_block_application list \<Rightarrow> (warehouse, core_apply_result) eff" where
  "run_window inp =
     (if inp = [] then ret \<lparr>ar_applied = False, ar_process_tail = - 1\<rparr>
      else
        then_do (run_pending inp) (\<lambda>pending.
        if pending = [] then ret (unapplied_core_window_result inp)
        else
          (let created = core_created_outputs_by_key pending in
           then_do (get_field (get_utxo_outputs (external_core_spend_keys pending))) (\<lambda>current.
           and_do (for_each (run_application created current) pending)
             (ret (applied_core_window_result inp pending))))))"

lemma mutate_Inr: "mutate f s = (Inr u, s') \<longleftrightarrow> f s = Inr s'"
  by (auto simp: mutate_def split: sum.splits)

lemma for_each_fold:
  assumes "\<And>x s s'. m x s = (Inr (), s') \<longleftrightarrow> f x s = Inr s'"
  shows "for_each m xs s = (Inr (), s') \<longleftrightarrow> fold_res f xs s = Inr s'"
  by (induction xs arbitrary: s) (auto simp: ret_def and_do_def then_do_Inr assms res_simps)

lemma run_movement_agrees:
  "run_movement height mv w = (Inr (), w') \<longleftrightarrow> apply_batch_address_movement_if_unique height mv w = Inr w'"
  by (auto simp: run_movement_def apply_batch_address_movement_if_unique_def then_do_Inr and_do_def
      get_field_def change_def ret_def mutate_Inr)

lemma run_application_agrees:
  "run_application created current a w = (Inr (), w') \<longleftrightarrow> apply_in_memory_core_application created current a w = Inr w'"
  using for_each_fold [where m = "\<lambda>s. mutate (apply_batch_utxo_spend s)" and f = apply_batch_utxo_spend, OF mutate_Inr]
    for_each_fold [where m = "run_movement (ca_block_height a)", OF run_movement_agrees]
  by (auto simp: run_application_def apply_in_memory_core_application_def Let_def then_do_Inr and_do_def
      lift_res_def change_def res_simps apply_batch_utxo_spends_def apply_batch_address_movements_def)

lemma run_rewind_agrees: "run_rewind h w = (Inr (), w') \<longleftrightarrow> rewind_in_memory_core_tail h w = Inr w'"
  by (simp add: run_rewind_def rewind_in_memory_core_tail_def and_do_def then_do_Inr change_def mutate_Inr)

lemma run_pending_agrees:
  "run_pending inp w = (Inr p, w') \<longleftrightarrow> pending_in_memory_core_applications inp w = Inr (w', p)"
  using run_rewind_agrees
  by (auto simp: run_pending_def pending_in_memory_core_applications_def then_do_Inr and_do_def
      get_field_def ret_def res_simps split: option.splits)

lemma run_window_agrees:
  "run_window inp w = (Inr r, w') \<longleftrightarrow> apply_core_dogecoin_window inp w = Inr (w', r)"
proof -
  have each: "for_each (run_application c u) p w1 = (Inr (), w2)
      \<longleftrightarrow> fold_res (apply_in_memory_core_application c u) p w1 = Inr w2" for c u p w1 w2
    by (rule for_each_fold) (rule run_application_agrees)
  show ?thesis
    by (auto simp: run_window_def apply_core_dogecoin_window_def Let_def then_do_Inr and_do_def get_field_def
        ret_def res_simps run_pending_agrees each split: if_splits)
qed

section \<open>Recovery after a throw\<close>

lemma keeps_mutate:
  "(\<And>w w'. keeps h w0 w \<Longrightarrow> f w = Inr w' \<Longrightarrow> keeps h w0 w')
   \<Longrightarrow> triple (keeps h w0) (mutate f) (\<lambda>_. keeps h w0) (keeps h w0)"
  by (rule tripleI) (auto simp: mutate_def split: sum.splits)

lemma keeps_run_movement:
  assumes "h \<le> am_block_height mv"
  shows "triple (keeps h w0) (run_movement height mv) (\<lambda>_. keeps h w0) (keeps h w0)"
proof -
  have append: "triple (keeps h w0) (change (\<lambda>w. w\<lparr>ws_address_movements := ws_address_movements w @ [mv]\<rparr>))
      (\<lambda>_. keeps h w0) (keeps h w0)"
    by (rule triple_change) (use assms in \<open>simp add: keeps_iff\<close>)
  have delta: "triple (keeps h w0) (mutate (apply_balance_delta mv height)) (\<lambda>_. keeps h w0) (keeps h w0)"
    by (rule keeps_mutate) (auto dest!: apply_balance_delta_Inr)
  show ?thesis
    unfolding run_movement_def
    by (rule triple_then_do [where R = "\<lambda>_. keeps h w0"], rule triple_get, assumption, rule triple_if,
        rule triple_ret, assumption, rule triple_and_do [OF append delta])
qed

lemma keeps_run_application:
  assumes "window_new h w0 [a]"
  shows "triple (keeps h w0) (run_application created current a) (\<lambda>_. keeps h w0) (keeps h w0)"
  unfolding run_application_def Let_def
proof (rule triple_then_do)
  have new: "h \<le> ca_block_height a"
    and creates: "\<And>o'. o' \<in> set (ca_utxo_creates a) \<Longrightarrow> h \<le> uo_block_height o'
        \<and> uo_output_key o' \<notin> uo_output_key ` set (ws_utxo_outputs w0)
        \<and> uo_txid o' \<notin> tf_txid ` set (ws_transaction_facts w0)"
    and spends: "\<And>s y. s \<in> set (ca_utxo_spends a) \<Longrightarrow> h \<le> us_spent_in_block s
        \<and> (y \<in> set (ws_utxo_outputs w0) \<longrightarrow> uo_output_key y = us_output_key s \<longrightarrow> is_clean y)"
    using assms by (simp_all add: window_new_def list_all_iff)
  show "triple (keeps h w0) (lift_res (core_application_transaction_facts a created current))
      (\<lambda>facts w. core_application_transaction_facts a created current = Inr facts \<and> keeps h w0 w) (keeps h w0)"
    by (rule triple_lift) simp_all
  have create: "triple (keeps h w0) (change (apply_batch_utxo_creates (ca_utxo_creates a))) (\<lambda>_. keeps h w0) (keeps h w0)"
  proof (rule triple_change)
    have one: "keeps h w0 (upsert_utxo_output o' w)" if "o' \<in> set (ca_utxo_creates a)" "keeps h w0 w" for o' w
      using creates [OF that(1)] by (auto intro: keeps_create [OF that(2)])
    show "keeps h w0 (apply_batch_utxo_creates (ca_utxo_creates a) w)" if "keeps h w0 w" for w
      unfolding apply_batch_utxo_creates_def
      by (rule fold_invariant [where P = "keeps h w0" and Q = "\<lambda>o'. o' \<in> set (ca_utxo_creates a)"])
        (use that one in auto)
  qed
  have spend: "triple (keeps h w0) (for_each (\<lambda>spend. mutate (apply_batch_utxo_spend spend)) (ca_utxo_spends a))
      (\<lambda>_. keeps h w0) (keeps h w0)"
  proof (rule triple_for_each, rule keeps_mutate)
    show "keeps h w0 w'" if "s \<in> set (ca_utxo_spends a)" "keeps h w0 w" "apply_batch_utxo_spend s w = Inr w'" for s w w'
      by (rule keeps_spend [OF that(2,3)]) (use spends that(1) in auto)
  qed
  have move: "triple (keeps h w0) (for_each (run_movement (ca_block_height a))
      (core_application_address_movements a created current)) (\<lambda>_. keeps h w0) (keeps h w0)"
  proof (rule triple_for_each, rule keeps_run_movement)
    show "h \<le> am_block_height mv" if "mv \<in> set (core_application_address_movements a created current)" for mv
      using movements_of_application [OF that] new creates by auto
  qed
  have fact: "triple (keeps h w0) (change (fold upsert_analytics_transaction_fact facts)) (\<lambda>_. keeps h w0) (keeps h w0)"
    if facts: "core_application_transaction_facts a created current = Inr facts" for facts
  proof (rule triple_change)
    have one: "keeps h w0 (upsert_analytics_transaction_fact f w)" if "f \<in> set facts" "keeps h w0 w" for f w
    proof (rule keeps_fact [OF that(2)])
      from facts_of_application [OF facts that(1)] obtain o' where "o' \<in> set (ca_utxo_creates a)"
        and txid: "tf_txid f = uo_txid o'" and height: "tf_block_height f = ca_block_height a" by auto
      then show "h \<le> tf_block_height f" "tf_txid f \<notin> tf_txid ` set (ws_transaction_facts w0)"
        using creates [of o'] new by simp_all
    qed
    show "keeps h w0 (fold upsert_analytics_transaction_fact facts w)" if "keeps h w0 w" for w
      by (rule fold_invariant [where P = "keeps h w0" and Q = "\<lambda>f. f \<in> set facts"]) (use that one in auto)
  qed
  have block: "triple (keeps h w0) (change (append_applied_block (ca_block_height a) (ca_block_hash a)))
      (\<lambda>_. keeps h w0) (keeps h w0)"
    by (rule triple_change) (rule keeps_block [OF _ new])
  show "triple (\<lambda>w. core_application_transaction_facts a created current = Inr facts \<and> keeps h w0 w)
      (and_do (change (apply_batch_utxo_creates (ca_utxo_creates a))) (
       and_do (for_each (\<lambda>spend. mutate (apply_batch_utxo_spend spend)) (ca_utxo_spends a)) (
       and_do (for_each (run_movement (ca_block_height a)) (core_application_address_movements a created current)) (
       and_do (change (fold upsert_analytics_transaction_fact facts))
         (change (append_applied_block (ca_block_height a) (ca_block_hash a)))))))
      (\<lambda>_. keeps h w0) (keeps h w0)" for facts
    by (rule triple_assume, rule triple_and_do [OF create], rule triple_and_do [OF spend],
        rule triple_and_do [OF move], rule triple_and_do [OF fact block])
qed

lemma keeps_run_window:
  assumes "all_below h w" and "window_new h w inp"
  shows "keeps h w (snd (run_window inp w))"
proof (cases "inp = []")
  case True
  then show ?thesis using keeps_self [OF assms(1)] by (simp add: run_window_def ret_def)
next
  case False
  have heights: "\<forall>a \<in> set inp. h \<le> ca_block_height a" using assms(2) by (simp add: window_new_def list_all_iff)
  have below: "list_all (\<lambda>b. ab_block_height b < h) (ws_applied_blocks w)" using assms(1) by (simp add: all_below_def)
  have "\<not> has_applied_block (ca_block_height a) x w" if "a \<in> set inp" for a x
    using that heights below
    by (force simp: has_applied_block_def is_applied_block_record_def list_ex_iff list_all_iff)
  then have "run_pending inp w = (Inr inp, w)"
    using no_conflict_below [OF below heights]
    by (simp add: run_pending_def then_do_def get_field_def filter_id_conv)
  then have run: "run_window inp w = and_do (for_each (run_application (core_created_outputs_by_key inp)
        (get_utxo_outputs (external_core_spend_keys inp) w)) inp) (ret (applied_core_window_result inp inp)) w"
    using False by (simp add: run_window_def then_do_def get_field_def Let_def)
  have each: "triple (keeps h w) (for_each (run_application created current) inp) (\<lambda>_. keeps h w) (keeps h w)" for created current
  proof (rule triple_for_each, rule keeps_run_application)
    show "window_new h w [a]" if "a \<in> set inp" for a
      using assms(2) that by (auto simp: window_new_def list_all_iff)
  qed
  show ?thesis
    unfolding run
    by (rule triple_final [OF triple_and_do [OF each triple_ret] keeps_self [OF assms(1)]])
qed

text \<open>
  C2. A window that breaks off in the middle is undone by recovery exactly as a complete one.
  Take a warehouse whose rows all lie below a height and a window of blocks from that height on
  that is new to it, and let applying it throw at any statement, with outputs created, outputs
  spent or movements booked for part of a block: recovering from that height gives the state that
  recovery from the untouched warehouse would give.
\<close>

theorem interrupted_window_recovered:
  assumes "all_below h w" and "window_new h w inp"
  shows "recover_core_dogecoin_window h (snd (run_window inp w)) = materialize_core_dogecoin_current_state w"
  using keeps_run_window [OF assms]
  unfolding keeps_def recover_core_dogecoin_window_def rewind_in_memory_core_tail_def
    materialize_core_dogecoin_current_state_def by simp

text \<open>The sample window, followed by a block that spends an output nobody created.\<close>

definition broken_window :: "core_block_application list" where
  "broken_window = sample_window @ [(hd sample_window)\<lparr>ca_block_hash := ''broken'', ca_utxo_creates := [],
     ca_utxo_spends := [\<lparr>us_output_key = ''missing:0'', us_spent_by_txid = ''x'', us_spent_in_block = 9,
       us_spent_input_index = 0\<rparr>]\<rparr>]"

theorem interrupted_window_recovered_witness:
  "\<not> is_ok (fst (run_window broken_window sample_warehouse))
   \<and> snd (run_window broken_window sample_warehouse) \<noteq> sample_warehouse
   \<and> recover_core_dogecoin_window 2 (snd (run_window broken_window sample_warehouse))
       = materialize_core_dogecoin_current_state sample_warehouse"
proof -
  have new: "window_new 2 sample_warehouse broken_window"
    using sample_warehouse_facts(2)
    by (simp add: broken_window_def window_new_def sample_window_def sample_warehouse_def empty_warehouse_state_def
        sample_application_def sample_output_def)
  have broken: "\<not> is_ok (fst (run_window broken_window sample_warehouse))
      \<and> snd (run_window broken_window sample_warehouse) \<noteq> sample_warehouse" by code_simp
  show ?thesis using broken interrupted_window_recovered [OF sample_warehouse_facts(1) new] by blast
qed

section \<open>The recorded blocks, also after a throw\<close>

abbreviation at_blocks :: "applied_block list \<Rightarrow> warehouse \<Rightarrow> bool" where
  "at_blocks B w \<equiv> ws_applied_blocks w = B"

lemma keeps_blocks:
  assumes "\<And>w w'. f w = Inr w' \<Longrightarrow> ws_applied_blocks w' = ws_applied_blocks w"
  shows "triple (at_blocks B) (mutate f) (\<lambda>_. at_blocks B) (at_blocks B)"
  by (rule tripleI) (auto simp: mutate_def assms split: sum.splits)

lemma spend_blocks: "apply_batch_utxo_spend s w = Inr w' \<Longrightarrow> ws_applied_blocks w' = ws_applied_blocks w"
  by (auto simp: apply_batch_utxo_spend_def res_simps upsert_utxo_output_def)

lemma delta_blocks: "apply_balance_delta mv h w = Inr w' \<Longrightarrow> ws_applied_blocks w' = ws_applied_blocks w"
  by (auto dest!: apply_balance_delta_Inr)

lemma rebuild_blocks: "rebuild_balances_from_current_utxos w = Inr w' \<Longrightarrow> ws_applied_blocks w' = ws_applied_blocks w"
  by (auto dest!: rebuild_balances_Inr)

lemma run_movement_blocks: "triple (at_blocks B) (run_movement h mv) (\<lambda>_. at_blocks B) (at_blocks B)"
  unfolding run_movement_def
  by (rule triple_then_do [where R = "\<lambda>_. at_blocks B"])
    (auto intro!: triple_get triple_ret triple_and_do [where R = "at_blocks B"] triple_change
      keeps_blocks [OF delta_blocks])

lemma creates_blocks: "ws_applied_blocks (apply_batch_utxo_creates os w) = ws_applied_blocks w"
  unfolding apply_batch_utxo_creates_def
  by (induction os arbitrary: w) (simp_all add: upsert_utxo_output_def)

lemma facts_blocks: "ws_applied_blocks (fold upsert_analytics_transaction_fact fs w) = ws_applied_blocks w"
  by (induction fs arbitrary: w) (simp_all add: upsert_analytics_transaction_fact_def)

lemma run_application_blocks:
  "triple (at_blocks B) (run_application created current a) (\<lambda>_. at_blocks (append_blocks [a] B)) (at_blocks B)"
  unfolding run_application_def Let_def
  by (rule triple_then_do [where R = "\<lambda>_. at_blocks B"], rule triple_lift, assumption, assumption,
      rule triple_and_do [where R = "at_blocks B"], rule triple_change, simp add: creates_blocks,
      rule triple_and_do [where R = "at_blocks B"], rule triple_for_each, rule keeps_blocks, erule spend_blocks,
      rule triple_and_do [where R = "at_blocks B"], rule triple_for_each, rule run_movement_blocks,
      rule triple_and_do [where R = "at_blocks B"], rule triple_change, simp add: facts_blocks,
      rule triple_change) (simp add: append_applied_block_def has_applied_block_set)

lemma append_blocks_append: "append_blocks (xs @ ys) B = append_blocks ys (append_blocks xs B)"
  by (induction xs arbitrary: B) simp_all

lemma run_applications_blocks:
  "triple (at_blocks B) (for_each (run_application created current) apps) (\<lambda>_. at_blocks (append_blocks apps B))
     (\<lambda>w. \<exists>pre post. apps = pre @ post \<and> at_blocks (append_blocks pre B) w)"
proof (induction apps arbitrary: B)
  case Nil
  show ?case by (simp add: triple_ret)
next
  case (Cons a apps)
  have first: "triple (at_blocks B) (run_application created current a) (\<lambda>_. at_blocks (append_blocks [a] B))
      (\<lambda>w. \<exists>pre post. a # apps = pre @ post \<and> at_blocks (append_blocks pre B) w)"
    by (rule triple_conseq [OF run_application_blocks]) (auto intro: exI [of _ "[]"])
  have rest: "triple (at_blocks (append_blocks [a] B)) (for_each (run_application created current) apps)
      (\<lambda>_. at_blocks (append_blocks (a # apps) B))
      (\<lambda>w. \<exists>pre post. a # apps = pre @ post \<and> at_blocks (append_blocks pre B) w)"
  proof (rule triple_conseq [OF Cons.IH])
    fix w assume "\<exists>pre post. apps = pre @ post \<and> at_blocks (append_blocks pre (append_blocks [a] B)) w"
    then obtain pre post where "apps = pre @ post" "at_blocks (append_blocks pre (append_blocks [a] B)) w" by blast
    then have "a # apps = (a # pre) @ post \<and> at_blocks (append_blocks (a # pre) B) w" by simp
    then show "\<exists>pre post. a # apps = pre @ post \<and> at_blocks (append_blocks pre B) w" by blast
  qed (simp_all add: append_blocks_append [of "[a]" apps])
  show ?case unfolding for_each.simps by (rule triple_and_do [OF first rest])
qed

lemma rewind_blocks: "ws_applied_blocks (rewind_tables h w) = filter (\<lambda>b. ab_block_height b < h) (ws_applied_blocks w)"
  by (simp add: rewind_tables_def)

lemma run_rewind_blocks:
  "triple (at_blocks B) (run_rewind h) (\<lambda>_. at_blocks (filter (\<lambda>b. ab_block_height b < h) B))
     (at_blocks (filter (\<lambda>b. ab_block_height b < h) B))"
  unfolding run_rewind_def
  by (rule triple_and_do [where R = "at_blocks (filter (\<lambda>b. ab_block_height b < h) B)"], rule triple_change,
      simp add: rewind_blocks, rule keeps_blocks, erule rebuild_blocks)

section \<open>The contract\<close>

text \<open>
  A call to the store, with the fault of the world: it does not get there, it is done but the
  reply is lost, or it is done.
\<close>

definition under_fault :: "fault \<Rightarrow> ('s, 'a) eff \<Rightarrow> ('s, 'a) eff" where
  "under_fault ft m =
     (case ft of Completes \<Rightarrow> m | Stops n e \<Rightarrow> if n = 0 then throw e else and_do m (throw e))"

definition memory_port :: "warehouse warehouse_port" where
  "memory_port = \<lparr>
     wp_apply = (\<lambda>ft apps update. under_fault ft (run_window apps)),
     wp_recover = (\<lambda>ft from update. under_fault ft (run_rewind from)),
     wp_processed_tail = Some get_applied_block_tail,
     wp_materialize = (\<lambda>ft as_of resume w.
       case under_fault ft (mutate materialize_core_dogecoin_current_state) w of (r, w') \<Rightarrow> ([], r, w'))\<rparr>"

definition block_heights :: "warehouse \<Rightarrow> int set" where
  "block_heights w = ab_block_height ` set (ws_applied_blocks w)"

definition blocks_ok :: "applied_block list \<Rightarrow> bool" where
  "blocks_ok B \<longleftrightarrow> distinct (map ab_block_height B) \<and> (\<forall>b \<in> set B. 0 \<le> ab_block_height b)"

abbreviation heights_of :: "applied_block list \<Rightarrow> int set" where
  "heights_of B \<equiv> ab_block_height ` set B"

lemma heights_append: "heights_of (append_blocks apps B) = heights_of B \<union> ca_block_height ` set apps"
proof -
  have h: "heights_of X = fst ` set (processed_of X)" for X by (force simp: processed_of_def)
  show ?thesis by (simp only: h append_blocks_set image_Un) (force simp: image_image)
qed

text \<open>What a window may do to the recorded blocks, and what it has done when it completes.\<close>

definition window_kept :: "int \<Rightarrow> int \<Rightarrow> applied_block list \<Rightarrow> applied_block list \<Rightarrow> bool" where
  "window_kept a b B B' \<longleftrightarrow> blocks_ok B' \<and> {h \<in> heights_of B. h < a} \<subseteq> heights_of B'
     \<and> heights_of B' \<subseteq> heights_of B \<union> {a..b}"

lemma blocks_ok_prefix:
  assumes "blocks_ok B" and "distinct (map ca_block_height apps)" and "\<forall>a \<in> set apps. 0 \<le> ca_block_height a"
    and "\<forall>a \<in> set apps. \<forall>b \<in> set B. ab_block_height b = ca_block_height a \<longrightarrow> ab_block_hash b = ca_block_hash a"
  shows "blocks_ok (append_blocks apps B)"
proof -
  have "\<forall>h \<in> heights_of (append_blocks apps B). 0 \<le> h"
    using assms(1,3) by (auto simp: heights_append blocks_ok_def)
  then show ?thesis using append_blocks_distinct assms by (auto simp: blocks_ok_def)
qed

lemma distinct_range_of: "distinct (range_of a b)"
  by (auto simp: range_of_def distinct_map inj_on_def)

text \<open>Of the pending blocks, whose heights are new or recorded with the same hash.\<close>

lemma run_pending_part:
  assumes "blocks_ok B" and "map ca_block_height inp = range_of a b" "0 \<le> a"
    and "\<forall>p \<in> set pending. \<forall>x \<in> set B. ab_block_height x = ca_block_height p \<longrightarrow> ab_block_hash x = ca_block_hash p"
    and "pending = filter P inp"
  shows "triple (at_blocks B) (for_each (run_application created current) pending)
    (\<lambda>_ w. blocks_ok (ws_applied_blocks w)
       \<and> heights_of (ws_applied_blocks w) = heights_of B \<union> ca_block_height ` set pending)
    (\<lambda>w. blocks_ok (ws_applied_blocks w) \<and> heights_of B \<subseteq> heights_of (ws_applied_blocks w)
       \<and> heights_of (ws_applied_blocks w) \<subseteq> heights_of B \<union> ca_block_height ` set pending)"
proof -
  have d: "distinct (map ca_block_height pending)"
    using assms(2,5) by (simp add: distinct_map_filter distinct_range_of)
  have "ca_block_height ` set inp = {a..b}" using arg_cong [OF assms(2), of set] by (simp add: set_range_of)
  then have pos: "\<forall>p \<in> set pending. 0 \<le> ca_block_height p" using assms(3,5) by force
  have pre: "blocks_ok (append_blocks pre B)" if "pending = pre @ post" for pre post
    by (rule blocks_ok_prefix [OF assms(1)]) (use that d pos assms(4) in auto)
  show ?thesis
  proof (rule triple_conseq [OF run_applications_blocks])
    fix x w assume "at_blocks (append_blocks pending B) w"
    then show "blocks_ok (ws_applied_blocks w)
        \<and> heights_of (ws_applied_blocks w) = heights_of B \<union> ca_block_height ` set pending"
      using pre [of pending "[]"] by (simp add: heights_append)
  next
    fix w assume "\<exists>pre post. pending = pre @ post \<and> at_blocks (append_blocks pre B) w"
    then obtain pre' post where "pending = pre' @ post" "at_blocks (append_blocks pre' B) w" by blast
    then show "blocks_ok (ws_applied_blocks w) \<and> heights_of B \<subseteq> heights_of (ws_applied_blocks w)
        \<and> heights_of (ws_applied_blocks w) \<subseteq> heights_of B \<union> ca_block_height ` set pending"
      using pre by (auto simp: heights_append)
  qed
qed

lemma first_conflict_cases:
  assumes "distinct (map ab_block_height B)"
  shows "case first_conflict inp B of
      None \<Rightarrow> \<forall>p \<in> set inp. \<forall>x \<in> set B. ab_block_height x = ca_block_height p \<longrightarrow> ab_block_hash x = ca_block_hash p
    | Some h \<Rightarrow> h \<in> ca_block_height ` set inp \<and> h \<in> heights_of B"
proof (induction inp)
  case Nil
  show ?case by simp
next
  case (Cons p inp)
  let ?f = "find (\<lambda>x. ab_block_height x = ca_block_height p) B"
  have unique: "x = y" if "x \<in> set B" "y \<in> set B" "ab_block_height x = ab_block_height y" for x y
    using assms that by (auto simp: distinct_map dest: inj_onD)
  show ?case
  proof (cases ?f)
    case None
    then have "\<forall>x \<in> set B. ab_block_height x \<noteq> ca_block_height p" by (simp add: find_None_iff)
    then show ?thesis using Cons.IH None by (auto split: option.splits)
  next
    case (Some y)
    then have y: "y \<in> set B" "ab_block_height y = ca_block_height p" by (auto simp: find_Some_iff)
    show ?thesis
    proof (cases "ab_block_hash y = ca_block_hash p")
      case True
      have "\<forall>x \<in> set B. ab_block_height x = ca_block_height p \<longrightarrow> ab_block_hash x = ca_block_hash p"
        using unique y True by metis
      then show ?thesis using Cons.IH Some True by (auto split: option.splits)
    next
      case False
      then show ?thesis using Some y by force
    qed
  qed
qed

definition window_done :: "int \<Rightarrow> int \<Rightarrow> applied_block list \<Rightarrow> applied_block list \<Rightarrow> bool" where
  "window_done a b B B' \<longleftrightarrow> blocks_ok B' \<and> (heights_of B' = heights_of B \<union> {a..b}
     \<or> (\<exists>c \<in> heights_of B. a \<le> c \<and> c \<le> b \<and> heights_of B' = {h \<in> heights_of B. h < c} \<union> {c..b}))"

lemma window_done_kept: "window_done a b B B' \<Longrightarrow> window_kept a b B B'"
  by (auto simp: window_done_def window_kept_def)

text \<open>The pending blocks, and what is recorded when they are about to be applied.\<close>

definition pending_for :: "core_block_application list \<Rightarrow> int \<Rightarrow> int \<Rightarrow> applied_block list
    \<Rightarrow> core_block_application list \<Rightarrow> applied_block list \<Rightarrow> bool" where
  "pending_for inp a b B pending B1 \<longleftrightarrow> blocks_ok B1 \<and> (\<exists>P. pending = filter P inp)
     \<and> (\<forall>p \<in> set pending. \<forall>x \<in> set B1. ab_block_height x = ca_block_height p \<longrightarrow> ab_block_hash x = ca_block_hash p)
     \<and> (B1 = B \<and> {a..b} \<subseteq> heights_of B \<union> ca_block_height ` set pending
        \<or> (\<exists>c \<in> heights_of B. a \<le> c \<and> c \<le> b \<and> heights_of B1 = {h \<in> heights_of B. h < c}
             \<and> ca_block_height ` set pending = {c..b}))"

lemma run_pending_blocks:
  assumes "blocks_ok B" and "map ca_block_height inp = range_of a b"
  shows "triple (at_blocks B) (run_pending inp) (\<lambda>pending w. pending_for inp a b B pending (ws_applied_blocks w))
    (\<lambda>w. window_kept a b B (ws_applied_blocks w))"
proof -
  have inp: "ca_block_height ` set inp = {a..b}" using arg_cong [OF assms(2), of set] by (simp add: set_range_of)
  have d: "distinct (map ab_block_height B)" using assms(1) by (simp add: blocks_ok_def)
  note conflict = first_conflict_cases [OF d, of inp]
  have none: "triple (at_blocks B) (get_field (\<lambda>w.
         filter (\<lambda>a. \<not> has_applied_block (ca_block_height a) (ca_block_hash a) w) inp))
      (\<lambda>pending w. pending_for inp a b B pending (ws_applied_blocks w)) E"
    if "first_conflict inp B = None" for E
  proof (rule triple_get)
    fix w assume w: "at_blocks B w"
    let ?p = "filter (\<lambda>a. \<not> has_applied_block (ca_block_height a) (ca_block_hash a) w) inp"
    have "ca_block_height p \<in> heights_of B \<union> ca_block_height ` set ?p" if "p \<in> set inp" for p
    proof (cases "has_applied_block (ca_block_height p) (ca_block_hash p) w")
      case True
      then show ?thesis by (force simp: has_applied_block_def is_applied_block_record_def list_ex_iff w)
    qed (use that in simp)
    then have "{a..b} \<subseteq> heights_of B \<union> ca_block_height ` set ?p" unfolding inp [symmetric] by blast
    moreover have "\<exists>P. ?p = filter P inp" by blast
    moreover have "\<forall>p \<in> set ?p. \<forall>x \<in> set B. ab_block_height x = ca_block_height p \<longrightarrow> ab_block_hash x = ca_block_hash p"
      using conflict that by simp
    ultimately show "pending_for inp a b B ?p (ws_applied_blocks w)"
      using assms(1) w unfolding pending_for_def by blast
  qed
  have some: "triple (at_blocks B) (and_do (run_rewind h) (ret (filter (\<lambda>c. h \<le> ca_block_height c) inp)))
      (\<lambda>pending w. pending_for inp a b B pending (ws_applied_blocks w))
      (\<lambda>w. window_kept a b B (ws_applied_blocks w))"
    if "first_conflict inp B = Some h" for h
  proof -
    have h: "a \<le> h" "h \<le> b" "h \<in> heights_of B" using conflict that inp by auto
    let ?B = "filter (\<lambda>x. ab_block_height x < h) B" and ?p = "filter (\<lambda>c. h \<le> ca_block_height c) inp"
    have ok: "blocks_ok ?B" using assms(1) by (auto simp: blocks_ok_def distinct_map_filter)
    have low: "heights_of ?B = {x \<in> heights_of B. x < h}" by auto
    have "ca_block_height ` set ?p = {x \<in> ca_block_height ` set inp. h \<le> x}" by auto
    then have high: "ca_block_height ` set ?p = {h..b}" using h by (auto simp: inp)
    have new: "\<forall>p \<in> set ?p. \<forall>x \<in> set ?B. ab_block_height x = ca_block_height p \<longrightarrow> ab_block_hash x = ca_block_hash p"
      by auto
    have "\<exists>P. ?p = filter P inp" by blast
    then have p: "pending_for inp a b B ?p ?B"
      unfolding pending_for_def
      by (intro conjI disjI2 bexI [of _ h]) (rule ok new h low high | assumption)+
    have "triple (at_blocks B) (run_rewind h) (\<lambda>_. at_blocks ?B) (\<lambda>w. window_kept a b B (ws_applied_blocks w))"
      by (rule triple_conseq [OF run_rewind_blocks]) (use ok low h in \<open>auto simp: window_kept_def\<close>)
    then show ?thesis by (rule triple_and_do) (rule triple_ret, simp add: p)
  qed
  have "triple (at_blocks B) (get_field (\<lambda>w. first_conflict inp (ws_applied_blocks w)))
      (\<lambda>c w. c = first_conflict inp B \<and> at_blocks B w) (\<lambda>w. window_kept a b B (ws_applied_blocks w))"
    by (rule triple_get) simp
  then show ?thesis
    unfolding run_pending_def
    by (rule triple_then_do)
      (rule triple_assume, cases "first_conflict inp B", use none some in auto)
qed

lemma union_covered: "H' = H1 \<union> P \<Longrightarrow> H1 = H \<Longrightarrow> I \<subseteq> H \<union> P \<Longrightarrow> P \<subseteq> I \<Longrightarrow> H' = H \<union> I"
  by blast

lemma run_window_blocks:
  assumes "blocks_ok B" and "map ca_block_height inp = range_of a b" "0 \<le> a" "a \<le> b"
  shows "triple (at_blocks B) (run_window inp)
    (\<lambda>x w. window_done a b B (ws_applied_blocks w) \<and> a \<le> ar_process_tail x \<and> ar_process_tail x \<le> b)
    (\<lambda>w. window_kept a b B (ws_applied_blocks w))"
proof -
  let ?E = "\<lambda>w. window_kept a b B (ws_applied_blocks w)"
  let ?Q = "\<lambda>x w. window_done a b B (ws_applied_blocks w) \<and> a \<le> ar_process_tail x \<and> ar_process_tail x \<le> b"
  have inp: "ca_block_height ` set inp = {a..b}" using arg_cong [OF assms(2), of set] by (simp add: set_range_of)
  have ne: "inp \<noteq> []" using inp assms(4) by auto
  have "last (map ca_block_height inp) = b" using assms(2,4) by (simp add: last_range_of)
  then have last': "core_window_end inp = b" using ne by (simp add: core_window_end_def last_map)
  have covered: "window_done a b B B'"
    if p: "pending_for inp a b B pending B1" and B': "blocks_ok B'"
      "heights_of B' = heights_of B1 \<union> ca_block_height ` set pending" for pending B1 B'
  proof -
    have sub: "ca_block_height ` set pending \<subseteq> {a..b}" using p unfolding pending_for_def inp [symmetric] by auto
    from p have "B1 = B \<and> {a..b} \<subseteq> heights_of B \<union> ca_block_height ` set pending
        \<or> (\<exists>c \<in> heights_of B. a \<le> c \<and> c \<le> b \<and> heights_of B1 = {h \<in> heights_of B. h < c}
             \<and> ca_block_height ` set pending = {c..b})"
      unfolding pending_for_def by (elim conjE)
    then show ?thesis
    proof
      assume D: "B1 = B \<and> {a..b} \<subseteq> heights_of B \<union> ca_block_height ` set pending"
      have "heights_of B' = heights_of B \<union> {a..b}"
        by (rule union_covered [OF B'(2) _ conjunct2 [OF D] sub]) (simp only: conjunct1 [OF D])
      then show ?thesis using B'(1) by (simp add: window_done_def)
    next
      assume "\<exists>c \<in> heights_of B. a \<le> c \<and> c \<le> b \<and> heights_of B1 = {h \<in> heights_of B. h < c}
             \<and> ca_block_height ` set pending = {c..b}"
      then obtain c where c: "c \<in> heights_of B" "a \<le> c" "c \<le> b"
        and h: "heights_of B1 = {h \<in> heights_of B. h < c}" "ca_block_height ` set pending = {c..b}"
        by (elim bexE conjE)
      have "heights_of B' = {h \<in> heights_of B. h < c} \<union> {c..b}" by (simp only: B'(2) h)
      then have "\<exists>c \<in> heights_of B. a \<le> c \<and> c \<le> b \<and> heights_of B' = {h \<in> heights_of B. h < c} \<union> {c..b}"
        by (intro bexI [OF _ c(1)] conjI c)
      then show ?thesis unfolding window_done_def by (intro conjI disjI2 B'(1))
    qed
  qed
  have partial: "window_kept a b B B'"
    if p: "pending_for inp a b B pending B1" and B': "blocks_ok B'" "heights_of B1 \<subseteq> heights_of B'"
      "heights_of B' \<subseteq> heights_of B1 \<union> ca_block_height ` set pending" for pending B1 B'
  proof -
    have sub: "ca_block_height ` set pending \<subseteq> {a..b}" using p unfolding pending_for_def inp [symmetric] by auto
    have D: "B1 = B \<or> (\<exists>c. a \<le> c \<and> heights_of B1 = {h \<in> heights_of B. h < c})"
      using p unfolding pending_for_def by (elim conjE disjE bexE) auto
    have "{h \<in> heights_of B. h < a} \<subseteq> heights_of B1 \<and> heights_of B1 \<subseteq> heights_of B"
      using D
    proof
      assume "\<exists>c. a \<le> c \<and> heights_of B1 = {h \<in> heights_of B. h < c}"
      then obtain c where "a \<le> c" "heights_of B1 = {h \<in> heights_of B. h < c}" by (elim exE conjE)
      then show ?thesis by (simp only:) auto
    qed auto
    then have "{h \<in> heights_of B. h < a} \<subseteq> heights_of B'" "heights_of B' \<subseteq> heights_of B \<union> {a..b}"
      using B'(2,3) sub by (meson order_trans, meson Un_mono order_trans)
    then show ?thesis using B'(1) unfolding window_kept_def by (intro conjI)
  qed
  have tail: "a \<le> ar_process_tail (applied_core_window_result inp pending)
      \<and> ar_process_tail (applied_core_window_result inp pending) \<le> b"
    if "pending_for inp a b B pending B1" "pending \<noteq> []" for pending B1
  proof -
    have "ca_block_height (last pending) \<in> ca_block_height ` set inp"
      using that last_in_set [OF that(2)] unfolding pending_for_def by fastforce
    then show ?thesis using that(2) assms(3) last'
      by (auto simp: inp applied_core_window_result_def core_window_result_tail_def core_window_end_def Let_def)
  qed
  have apply': "triple (\<lambda>w. pending_for inp a b B pending (ws_applied_blocks w))
      (if pending = [] then ret (unapplied_core_window_result inp)
        else (let created = core_created_outputs_by_key pending in
           then_do (get_field (get_utxo_outputs (external_core_spend_keys pending))) (\<lambda>current.
           and_do (for_each (run_application created current) pending)
             (ret (applied_core_window_result inp pending))))) ?Q ?E" for pending
  proof (rule triple_if)
    assume "pending = []"
    have "window_done a b B (ws_applied_blocks w)" if "pending_for inp a b B pending (ws_applied_blocks w)" for w
    proof (rule covered [OF that])
      show "blocks_ok (ws_applied_blocks w)" using that unfolding pending_for_def by (elim conjE)
    qed (simp add: \<open>pending = []\<close>)
    then show "triple (\<lambda>w. pending_for inp a b B pending (ws_applied_blocks w))
        (ret (unapplied_core_window_result inp)) ?Q ?E"
      using assms(4) by (intro triple_ret) (simp add: unapplied_core_window_result_def last')
  next
    assume ne': "pending \<noteq> []"
    let ?P = "\<lambda>B1 w. pending_for inp a b B pending B1 \<and> at_blocks B1 w"
    have each: "triple (?P B1) (for_each (run_application created current) pending)
        (\<lambda>_ w. ?Q (applied_core_window_result inp pending) w) ?E" for B1 created current
    proof (rule triple_assume)
      assume p: "pending_for inp a b B pending B1"
      then obtain F where F: "blocks_ok B1" "pending = filter F inp"
        "\<forall>p \<in> set pending. \<forall>x \<in> set B1. ab_block_height x = ca_block_height p \<longrightarrow> ab_block_hash x = ca_block_hash p"
        unfolding pending_for_def by blast
      show "triple (at_blocks B1) (for_each (run_application created current) pending)
          (\<lambda>_ w. ?Q (applied_core_window_result inp pending) w) ?E"
        by (rule triple_conseq [OF run_pending_part [OF F(1) assms(2,3) F(3,2)]])
          (use covered [OF p] partial [OF p] tail [OF p ne'] in auto)
    qed
    have step: "triple (?P B1) (then_do (get_field (get_utxo_outputs (external_core_spend_keys pending))) (\<lambda>current.
           and_do (for_each (run_application created current) pending)
             (ret (applied_core_window_result inp pending)))) ?Q ?E" for B1 created
      by (rule triple_then_do [where R = "\<lambda>_. ?P B1"], rule triple_get, assumption,
          rule triple_and_do [OF each], rule triple_ret)
    have "triple (\<lambda>w. \<exists>B1. ?P B1 w) (then_do (get_field (get_utxo_outputs (external_core_spend_keys pending))) (\<lambda>current.
           and_do (for_each (run_application created current) pending)
             (ret (applied_core_window_result inp pending)))) ?Q ?E" for created
      by (rule triple_ex) (rule step)
    then show "triple (\<lambda>w. pending_for inp a b B pending (ws_applied_blocks w))
        (let created = core_created_outputs_by_key pending in
           then_do (get_field (get_utxo_outputs (external_core_spend_keys pending))) (\<lambda>current.
           and_do (for_each (run_application created current) pending)
             (ret (applied_core_window_result inp pending)))) ?Q ?E"
      unfolding Let_def by (rule triple_pre) simp
  qed
  show ?thesis
    unfolding run_window_def using ne
    by simp (rule triple_then_do [OF run_pending_blocks [OF assms(1,2)] apply'])
qed

lemma under_fault_triple:
  assumes "triple P m Q E" and "\<And>s. P s \<Longrightarrow> E s" and "\<And>x s. Q x s \<Longrightarrow> E s"
  shows "triple P (under_fault ft m) Q E"
proof (cases ft)
  case Completes
  then show ?thesis using assms(1) by (simp add: under_fault_def)
next
  case (Stops n e)
  have "triple P m (\<lambda>_. E) E" by (rule triple_conseq [OF assms(1)]) (auto intro: assms(3))
  then have "triple P (and_do m (throw e)) Q E" by (rule triple_and_do) (rule triple_throw)
  moreover have "triple P (throw e) Q E" by (rule triple_throw) (rule assms(2))
  ultimately show ?thesis by (simp add: under_fault_def Stops)
qed

lemma tail_fold:
  "fold (\<lambda>b t. case t of None \<Rightarrow> Some (ab_block_height b) | Some h \<Rightarrow> Some (max h (ab_block_height b))) B (Some m)
     = Some (Max (insert m (heights_of B)))"
proof (induction B arbitrary: m)
  case (Cons b B)
  have "Max (insert (max m (ab_block_height b)) (heights_of B)) = Max (insert m (heights_of (b # B)))"
    by (cases "B = []") (simp_all add: max.assoc)
  then show ?case using Cons by simp
qed simp

lemma tail_exact_memory:
  "case get_applied_block_tail w of None \<Rightarrow> block_heights w = {}
   | Some t \<Rightarrow> t \<in> block_heights w \<and> (\<forall>h \<in> block_heights w. h \<le> t)"
proof (cases "ws_applied_blocks w")
  case (Cons b B)
  have h: "block_heights w = insert (ab_block_height b) (heights_of B)" by (simp add: block_heights_def Cons)
  have "get_applied_block_tail w = Some (Max (block_heights w))"
    unfolding h by (simp add: get_applied_block_tail_def Cons tail_fold)
  moreover have "finite (block_heights w)" "block_heights w \<noteq> {}" by (simp_all add: h)
  ultimately show ?thesis by simp
qed (simp add: get_applied_block_tail_def block_heights_def)

text \<open>Its calls leave nothing running, so an interrupted window needs no weaker condition.\<close>

definition warehouse_ok :: "int option \<Rightarrow> warehouse \<Rightarrow> bool" where
  "warehouse_ok pending w \<longleftrightarrow> blocks_ok (ws_applied_blocks w)"

interpretation memory: window_store memory_port block_heights warehouse_ok
proof
  fix w and k :: int
  show "warehouse_ok None w \<Longrightarrow> warehouse_ok (Some k) w" by (simp add: warehouse_ok_def)
next
  fix w and a b :: int and apps :: "core_block_application list" and ft update r w'
  assume w: "warehouse_ok None w" and ab: "0 \<le> a" "a \<le> b" and "window_range a b apps"
  then have apps: "map ca_block_height apps = range_of a b" by (simp add: window_range_def)
  note window = run_window_blocks [OF w [unfolded warehouse_ok_def] apps ab]
  have kept: "triple (at_blocks (ws_applied_blocks w)) (under_fault ft (run_window apps))
      (\<lambda>x w'. window_done a b (ws_applied_blocks w) (ws_applied_blocks w') \<and> a \<le> ar_process_tail x \<and> ar_process_tail x \<le> b)
      (\<lambda>w'. window_kept a b (ws_applied_blocks w) (ws_applied_blocks w'))"
  proof (rule under_fault_triple [OF window])
    show "window_kept a b (ws_applied_blocks w) (ws_applied_blocks s)" if "at_blocks (ws_applied_blocks w) s" for s
      using that w by (auto simp: window_kept_def warehouse_ok_def)
  qed (erule conjE, erule window_done_kept)
  show "warehouse_ok (Some a) w' \<and> {h \<in> block_heights w'. h < a} = {h \<in> block_heights w. h < a}"
    if "wp_apply memory_port ft apps update w = (r, w')"
  proof -
    have run: "under_fault ft (run_window apps) w = (r, w')" using that by (simp add: memory_port_def)
    have "window_kept a b (ws_applied_blocks w) (ws_applied_blocks w')"
      using tripleD_ok [OF kept] tripleD_err [OF kept] run window_done_kept by (cases r) blast+
    then have "warehouse_ok (Some a) w'" "{h \<in> block_heights w. h < a} \<subseteq> block_heights w'"
      "block_heights w' \<subseteq> block_heights w \<union> {a..b}"
      by (simp_all add: window_kept_def warehouse_ok_def block_heights_def)
    then show ?thesis by auto
  qed
  fix x
  show "warehouse_ok None w' \<and> a \<le> ar_process_tail x \<and> ar_process_tail x \<le> b
      \<and> (block_heights w' = block_heights w \<union> {a..b}
         \<or> (\<exists>c \<in> block_heights w. a \<le> c \<and> c \<le> b \<and> block_heights w' = {h \<in> block_heights w. h < c} \<union> {c..b}))"
    if "wp_apply memory_port ft apps update w = (Inr x, w')"
  proof -
    have run: "under_fault ft (run_window apps) w = (Inr x, w')" using that by (simp add: memory_port_def)
    have "window_done a b (ws_applied_blocks w) (ws_applied_blocks w') \<and> a \<le> ar_process_tail x \<and> ar_process_tail x \<le> b"
      by (rule tripleD_ok [OF kept _ run]) simp
    then show ?thesis by (simp add: window_done_def block_heights_def warehouse_ok_def)
  qed
next
  fix w and start :: int and ft update and ru :: "unit res" and w'
  have any: "warehouse_ok (Some start) w \<longleftrightarrow> warehouse_ok None w" by (simp add: warehouse_ok_def)
  let ?B = "ws_applied_blocks w"
  let ?L = "filter (\<lambda>b. ab_block_height b < start) ?B"
  have low: "heights_of ?L = {h \<in> heights_of ?B. h < start}" by auto
  have ok: "blocks_ok ?L" if "warehouse_ok None w"
    using that by (auto simp: warehouse_ok_def blocks_ok_def distinct_map_filter)
  have rewind: "triple (at_blocks ?B) (under_fault ft (run_rewind start)) (\<lambda>_. at_blocks ?L)
      (\<lambda>w'. at_blocks ?B w' \<or> at_blocks ?L w')"
    by (rule under_fault_triple) (rule triple_conseq [OF run_rewind_blocks], auto)
  have left: "at_blocks ?B w' \<or> at_blocks ?L w'" if "wp_recover memory_port ft start update w = (ru, w')"
  proof -
    have run: "under_fault ft (run_rewind start) w = (ru, w')" using that by (simp add: memory_port_def)
    show ?thesis using tripleD_ok [OF rewind] tripleD_err [OF rewind] run by (cases ru) blast+
  qed
  show "warehouse_ok (Some start) w' \<and> {h \<in> block_heights w'. h < start} = {h \<in> block_heights w. h < start}"
    if "warehouse_ok (Some start) w" "wp_recover memory_port ft start update w = (ru, w')"
    using left [OF that(2)] ok low that(1) unfolding any by (auto simp: block_heights_def warehouse_ok_def)
  show "warehouse_ok None w' \<and> block_heights w' \<subseteq> block_heights w"
    if "warehouse_ok None w" "wp_recover memory_port ft start update w = (ru, w')"
    using left [OF that(2)] ok low that(1) by (auto simp: block_heights_def warehouse_ok_def)
  show "warehouse_ok None w' \<and> block_heights w' = {h \<in> block_heights w. h < start}"
    if "warehouse_ok (Some start) w" "wp_recover memory_port ft start update w = (Inr u, w')" for u
  proof -
    have run: "under_fault ft (run_rewind start) w = (Inr u, w')" using that(2) by (simp add: memory_port_def)
    have "at_blocks ?L w'" by (rule tripleD_ok [OF rewind _ run]) simp
    then show ?thesis using low ok that(1) unfolding any by (simp add: block_heights_def warehouse_ok_def)
  qed
next
  fix tail :: "warehouse \<Rightarrow> int option" and w
  assume "wp_processed_tail memory_port = Some tail"
  then have "tail = get_applied_block_tail" by (simp add: memory_port_def)
  then show "case tail w of None \<Rightarrow> block_heights w = {}
      | Some t \<Rightarrow> t \<in> block_heights w \<and> (\<forall>h \<in> block_heights w. h \<le> t)"
    using tail_exact_memory by simp
next
  fix w ft as_of resume ranges and rm :: "unit res" and w'
  assume w: "warehouse_ok None w" and run: "wp_materialize memory_port ft as_of resume w = (ranges, rm, w')"
  have rebuild: "triple (at_blocks (ws_applied_blocks w)) (under_fault ft (mutate materialize_core_dogecoin_current_state))
      (\<lambda>_. at_blocks (ws_applied_blocks w)) (at_blocks (ws_applied_blocks w))"
    by (rule under_fault_triple, rule keeps_blocks)
      (auto simp: materialize_core_dogecoin_current_state_def dest: rebuild_blocks)
  from run have "ranges = []" "under_fault ft (mutate materialize_core_dogecoin_current_state) w = (rm, w')"
    by (auto simp: memory_port_def split: prod.splits)
  moreover from this have "at_blocks (ws_applied_blocks w) w'"
    using tripleD_ok [OF rebuild] tripleD_err [OF rebuild] by (cases rm) blast+
  ultimately show "(\<forall>(p, w1) \<in> set ranges. warehouse_ok None w1 \<and> block_heights w1 = block_heights w)
      \<and> warehouse_ok None w' \<and> block_heights w' = block_heights w"
    using w by (simp add: warehouse_ok_def block_heights_def)
qed

end
