(* ===== verification/Indexer_Runs.thy ===== *)
theory Indexer_Runs
  imports Memory_Port
begin

text \<open>
  Runs of the indexer on the in-memory warehouse: the safety of its tails over any number of
  iterations, failures, crashes and restarts, and a run of a one-block chain from an empty
  installation to the online stage, computed in full.
\<close>

definition fresh_world :: "'w \<Rightarrow> concurrency_controller \<Rightarrow> telemetry \<Rightarrow> 'w world" where
  "fresh_world wh c tm = \<lparr>wd_state = None, wd_configs = [], wd_raw_parts = [], wd_core_blocks = [],
     wd_transaction_refs = [], wd_warehouse = wh, wd_tail_reconciled = False, wd_refs_ready = False,
     wd_target_rows = None, wd_node_retry_at = 0, wd_observation = None, wd_last_activity = 0,
     wd_last_heartbeat = 0, wd_controller = c, wd_telemetry = tm, wd_script = [], wd_clock = [],
     wd_syncs = []\<rparr>"



section \<open>A run, computed\<close>

definition genesis_snapshot :: json where
  "genesis_snapshot = JObj [(''block'', JObj
     [(''hash'', JStr ''g''), (''height'', JNum (JInt 0)), (''time'', JNum (JInt 100)),
      (''previousblockhash'', JNull),
      (''tx'', JArr [JObj [(''txid'', JStr ''t''), (''vin'', JArr [JObj [(''coinbase'', JStr ''00'')]]),
        (''vout'', JArr [JObj [(''value'', JStr ''0.00000005''),
          (''scriptPubKey'', JObj [(''address'', JStr ''DA''), (''type'', JStr ''pubkeyhash'')])]])]])])]"

definition sample_answers :: batch_answers where
  "sample_answers = \<lparr>an_snapshots = Inr [genesis_snapshot], an_put_part = \<lambda>_. Inr (),
     an_upsert_core_blocks = Inr (), an_upsert_refs = Inr (), an_now = ''t''\<rparr>"

definition sample_iteration :: iteration where
  "sample_iteration = \<lparr>it_latest = Inr 0,
     it_block = \<lambda>_ h. if h = 0 then Inr genesis_snapshot else Inl (GenericError ''none'')\<rparr>"

definition sample_telemetry :: telemetry where
  "sample_telemetry = \<lparr>tm_sync_blocks_per_second = JNull, tm_sync_eta_seconds = JNull,
     tm_process_blocks_per_second = JNull, tm_process_eta_seconds = JNull, tm_last_activity_at = JNull\<rparr>"

definition sample_indexer :: "warehouse indexer" where
  "sample_indexer = \<lparr>ix_settings = Indexer_Plan.sample_settings, ix_port = memory_port,
     ix_instance_id = ''i'', ix_chain = ''dogecoin'', ix_now_text = ''t''\<rparr>"

definition sample_event :: indexer_event where
  "sample_event = Iterate sample_iteration [] []
     [[Round_Start (Inr ()), Attempt 0 sample_answers, Round_End (Inr ())]] sample_telemetry"

text \<open>An iteration that dies inside the window: the warehouse has applied it, the reply is lost.\<close>

definition sample_crash :: indexer_event where
  "sample_crash = Iterate sample_iteration
     (replicate 17 Completes @ [Stops 1 (GenericError ''connection lost'')]) [] [] sample_telemetry"






section \<open>A failed rewind\<close>

text \<open>The calls of an iteration never take back that the tail has been checked.\<close>

definition keeps_check :: "('w, 'a) io \<Rightarrow> bool" where
  "keeps_check m \<longleftrightarrow> (\<forall>w. wd_tail_reconciled w \<longrightarrow> wd_tail_reconciled (snd (m w)))"

named_theorems check_kept \<open>calls that keep the tail checked\<close>

lemma keeps_check_basic [check_kept]:
  "keeps_check (ret x)" "keeps_check (throw e)" "keeps_check (get_field f)" "keeps_check (lift_res r)"
  "keeps_check next_fault" "keeps_check now_ms" "keeps_check next_sync" "keeps_check (warehouse_call g)"
  by (auto simp: keeps_check_def ret_def throw_def get_field_def lift_res_def next_fault_def now_ms_def next_sync_def
      warehouse_call_def Let_def case_prod_beta split: list.splits)

lemma keeps_check_change: "(\<And>w. wd_tail_reconciled w \<Longrightarrow> wd_tail_reconciled (f w)) \<Longrightarrow> keeps_check (change f)"
  by (simp add: keeps_check_def change_def)

lemma keeps_check_then_do [check_kept]: "keeps_check m \<Longrightarrow> (\<And>x. keeps_check (f x)) \<Longrightarrow> keeps_check (then_do m f)"
  unfolding keeps_check_def then_do_def by (metis (mono_tags, lifting) prod.case_eq_if snd_conv sum.case_eq_if)

lemma keeps_check_and_do [check_kept]: "keeps_check m \<Longrightarrow> keeps_check n \<Longrightarrow> keeps_check (and_do m n)"
  unfolding and_do_def by (rule keeps_check_then_do)

lemma keeps_check_catch [check_kept]: "keeps_check m \<Longrightarrow> (\<And>e. keeps_check (h e)) \<Longrightarrow> keeps_check (catch m h)"
  unfolding keeps_check_def catch_def by (metis (mono_tags, lifting) prod.case_eq_if snd_conv sum.case_eq_if)

lemma keeps_check_outcome [check_kept]: "keeps_check m \<Longrightarrow> keeps_check (outcome m)"
  by (simp add: keeps_check_def outcome_def case_prod_beta)

lemma keeps_check_for_each [check_kept]: "(\<And>x. keeps_check (f x)) \<Longrightarrow> keeps_check (for_each f xs)"
  by (induction xs) (simp_all add: check_kept)

lemma keeps_check_cases [check_kept]:
  "keeps_check m \<Longrightarrow> keeps_check n \<Longrightarrow> keeps_check (if b then m else n)"
  "keeps_check m \<Longrightarrow> (\<And>y. keeps_check (f y)) \<Longrightarrow> keeps_check (case x of None \<Rightarrow> m | Some y \<Rightarrow> f y)"
  "(\<And>a b. keeps_check (g a b)) \<Longrightarrow> keeps_check (case p of (a, b) \<Rightarrow> g a b)"
  "keeps_check m \<Longrightarrow> (\<And>k e. keeps_check (h k e)) \<Longrightarrow> keeps_check (case ft of Completes \<Rightarrow> m | Stops k e \<Rightarrow> h k e)"
  by (simp_all split: option.split prod.split fault.split)

lemma keeps_check_stores [check_kept]:
  "keeps_check (store_read f)" "(\<And>w. wd_tail_reconciled w \<Longrightarrow> wd_tail_reconciled (g w)) \<Longrightarrow> keeps_check (store_write g)"
  unfolding store_read_def store_write_def by (intro check_kept keeps_check_change; assumption)+

lemmas check_stores = get_config_def get_flag_def set_config_def set_configs_def compare_and_delete_config_def
  upsert_state_def set_error_def exit_process_def apply_window_def recover_window_def assert_primary_lease_def
  record_activity_def is_dogecoin_history_ready_def is_dogecoin_analytics_facts_ready_def
  is_dogecoin_current_state_ready_def observe_def Let_def

lemma keeps_check_progress [check_kept]:
  "keeps_check (set_error message)" "keeps_check (publish_progress ix latest s)"
  "keeps_check (assert_progress_watchdog ix latest s)" "keeps_check (upsert_state u)"
  "keeps_check (set_config key v)" "keeps_check (set_configs entries)" "keeps_check assert_primary_lease"
  "keeps_check record_activity" "keeps_check is_dogecoin_current_state_ready" "keeps_check (recover_window ix from update)"
  unfolding check_stores publish_progress_def assert_progress_watchdog_def
  by (intro check_kept keeps_check_change; simp)+

lemma keeps_check_drive_sync:
  "(\<And>i. keeps_check (hook i)) \<Longrightarrow> keeps_check (drive_sync st hook es s)"
  by (induction st hook es s rule: drive_sync.induct)
    (auto simp: store_attempt_def Let_def intro!: check_kept keeps_check_change split: option.split)

lemma keeps_check_sync [check_kept]: "keeps_check (sync_backfill ix latest s)"
    "keeps_check (sync_online_backlog_if_needed ix latest s e)" "keeps_check (store_raw_block_heights ix heights (\<lambda>_. ret ()))"
  unfolding sync_backfill_def sync_online_backlog_if_needed_def sync_raw_block_window_def sync_raw_block_heights_def
    store_raw_block_heights_def checkpoint_sync_tail_def observe_def Let_def
  by (intro check_kept keeps_check_drive_sync keeps_check_change; simp)+

lemma keeps_check_snapshots [check_kept]:
  "keeps_check (load_raw_snapshots ix hs)" "keeps_check (fill_from block target deadline hs rows)"
  by (induction hs arbitrary: rows) (auto simp: load_raw_snapshot_def Let_def intro!: check_kept)

lemma keeps_check_step [check_kept]: "keeps_check work \<Longrightarrow> keeps_check (run_core_block_step ix step work)"
  unfolding run_core_block_step_def by (intro check_kept)

lemma keeps_check_exit [check_kept]: "keeps_check (exit_for_core_block_timeout ix e height)"
  by (auto simp: exit_for_core_block_timeout_def exit_process_def intro!: check_kept split: js_error.split)

lemma keeps_check_adapt [check_kept]: "keeps_check (adapt_backfill_target_rows ix ms)"
  unfolding adapt_backfill_target_rows_def by (intro check_kept keeps_check_change) simp

lemma keeps_check_window [check_kept]:
  "keeps_check load \<Longrightarrow> keeps_check (process_window ix load last_height update)"
  "keeps_check (publish_window_progress ix latest m stage)" "keeps_check (process_backfill_window ix it latest s ready)"
  unfolding process_backfill_window_def publish_window_progress_def process_window_def process_window_with_attempt_def
    apply_window_applications_with_recovery_def clear_core_apply_recovery_marker_def apply_window_applications_def
    load_backfill_snapshots_def fill_backfill_window_def compare_and_delete_config_def apply_window_def Let_def
  by (intro check_kept keeps_check_change; simp)+

lemma keeps_check_materialize [check_kept]: "keeps_check (materialize_current_state ix latest as_of)"
  unfolding materialize_current_state_def materialization_range_def materialization_heartbeat_def get_config_def
  by (intro check_kept keeps_check_change; simp)

lemma keeps_check_stage: "keeps_check (run_dogecoin_stage ix it latest s)"
  unfolding run_dogecoin_stage_def process_backfill_def transition_completed_backfill_def should_promote_backfill_def
    promote_backfill_to_online_def materialize_current_state_if_needed_def return_backfill_to_sync_def online_def
    advance_online_backlog_def refreshed_online_backlog_state_def process_online_backlog_if_needed_def
    process_online_window_def publish_online_no_work_if_possible_def is_current_online_state_ready_def
    ensure_ready_online_state_def get_config_def Let_def
  by (cases "cs_stage s") (simp_all only: core_indexer_stage.case, (intro check_kept)+)

lemma keeps_check_iteration: "keeps_check (run_dogecoin ix it)"
proof -
  have "keeps_check (case e of PrimaryLeaseLostError \<Rightarrow> throw e | ProcessExit n \<Rightarrow> throw e
      | _ \<Rightarrow> and_do (set_error (thrown_message e)) (throw e))" for e :: js_error
    by (cases e) (auto intro: check_kept)
  then show ?thesis
    unfolding run_dogecoin_def recover_pending_core_apply_if_needed_def ensure_state_def stored_sync_tail_def
      reconcile_process_tail_with_warehouse_def mark_transaction_refs_ready_if_caught_up_def get_config_def get_flag_def
      compare_and_delete_config_def Let_def
    by (intro check_kept keeps_check_change keeps_check_stage; simp)
qed

lemma keeps_check_run:
  assumes "wd_tail_reconciled w" and "\<forall>e \<in> set es. \<exists>it script clock syncs tm. e = Iterate it script clock syncs tm"
  shows "wd_tail_reconciled (indexer_run ix es w)"
  using assms
proof (induction es arbitrary: w)
  case Nil
  then show ?case by (simp add: indexer_run_def)
next
  case (Cons e es)
  then obtain it script clock syncs tm where e: "e = Iterate it script clock syncs tm" by auto
  have "wd_tail_reconciled (indexer_step ix e w)"
    using keeps_check_iteration [of ix it] Cons.prems(1) by (simp add: e keeps_check_def)
  from Cons.IH [OF this] Cons.prems(2) show ?case by (simp add: indexer_run_def)
qed

text \<open>
  C39. The check of the process tail against the warehouse happens once per process even when acting on
  it fails. Take an iteration that finds no recovery marker and a warehouse behind the recorded tail,
  and let the rewind throw (and the calls before and after it complete): the iteration throws that error,
  and the recorded row keeps its tails and gets the error's message. However many iterations follow,
  whatever they do and wherever they fail, the check then accepts any row without looking at the
  warehouse; only a restart makes it look again.
\<close>

theorem failed_rewind_not_retried:
  assumes "wp_processed_tail (ix_port ix) = Some tail" and "\<not> wd_tail_reconciled w"
    and "wd_script w = [Completes, Completes, Completes, Completes, Completes, ft]"
    and "it_latest it = Inr latest" and "wd_state w = Some s"
    and "get_json_value config_key_core_apply_recovery (wd_configs w) = JNull"
    and "(case tail (wd_warehouse w) of None \<Rightarrow> - 1 | Some t \<Rightarrow> t) < cs_process_tail s"
    and "\<And>update. wp_recover (ix_port ix) ft ((case tail (wd_warehouse w) of None \<Rightarrow> - 1 | Some t \<Rightarrow> t) + 1)
      update (wd_warehouse w) = (Inl e, wh)"
    and "e \<noteq> PrimaryLeaseLostError" "\<forall>n. e \<noteq> ProcessExit n"
    and "\<forall>e \<in> set es. \<exists>it script clock syncs tm. e = Iterate it script clock syncs tm"
  shows "let (r, w') = run_dogecoin ix it w; w2 = indexer_run ix es w' in
    r = Inl e \<and> wd_state w' = Some (s\<lparr>cs_last_error := Some (thrown_message e)\<rparr>)
    \<and> (\<forall>s2. reconcile_process_tail_with_warehouse ix s2 w2 = (Inr s2, w2))
    \<and> \<not> wd_tail_reconciled (restart c now w2)"
proof -
  let ?w = "w\<lparr>wd_tail_reconciled := True, wd_script := [], wd_warehouse := wh\<rparr>"
  let ?final = "?w\<lparr>wd_state := Some (s\<lparr>cs_last_error := Some (thrown_message e)\<rparr>)\<rparr>"
  have "set_error (thrown_message e) ?w = (Inr (), ?final)"
    using assms(5)
    by (simp add: set_error_def upsert_state_def store_write_def next_fault_def then_do_def and_do_def get_field_def
        change_def ret_def upsert_core_indexer_state_def no_update_def)
  then have handled: "(case e of PrimaryLeaseLostError \<Rightarrow> throw e | ProcessExit n \<Rightarrow> throw e
      | _ \<Rightarrow> and_do (set_error (thrown_message e)) (throw e)) ?w = (Inl e, ?final)"
    using assms(9,10) by (cases e) (simp_all add: and_do_def then_do_def throw_def)
  have run: "run_dogecoin ix it w = (Inl e, ?final)"
    using assms(1-8) handled
    by (simp add: run_dogecoin_def recover_pending_core_apply_if_needed_def ensure_state_def
        reconcile_process_tail_with_warehouse_def then_do_def and_do_def catch_def get_field_def change_def lift_res_def
        assert_primary_lease_def store_read_def next_fault_def ret_def Let_def is_dogecoin_current_state_ready_def
        get_flag_def get_config_def recover_window_def warehouse_call_def)
  have "wd_tail_reconciled (indexer_run ix es ?final)" by (rule keeps_check_run [OF _ assms(11)]) simp
  then show ?thesis
    using run
    by (simp add: Let_def reconcile_process_tail_with_warehouse_def then_do_def get_field_def ret_def restart_def)
qed

theorem failed_rewind_not_retried_witness:
  "let w = (fresh_world empty_warehouse_state (create_controller 2 2 2) sample_telemetry)
       \<lparr>wd_state := Some \<lparr>cs_stage = Process_Backfill, cs_sync_tail = 9, cs_process_tail = 3, cs_online_tip = 10,
          cs_last_error = None\<rparr>,
        wd_script := [Completes, Completes, Completes, Completes, Completes, Stops 0 (GenericError ''connection lost'')]\<rparr>;
     (r, w') = run_dogecoin sample_indexer sample_iteration w;
     w2 = indexer_run sample_indexer [sample_event, sample_crash] w' in
   r = Inl (GenericError ''connection lost'') \<and> map_option cs_process_tail (wd_state w') = Some 3
   \<and> (\<forall>s. reconcile_process_tail_with_warehouse sample_indexer s w2 = (Inr s, w2))"
proof -
  let ?s = "\<lparr>cs_stage = Process_Backfill, cs_sync_tail = 9, cs_process_tail = 3, cs_online_tip = 10,
      cs_last_error = None\<rparr>"
  let ?ft = "Stops 0 (GenericError ''connection lost'')"
  let ?w = "(fresh_world empty_warehouse_state (create_controller 2 2 2) sample_telemetry)
       \<lparr>wd_state := Some ?s, wd_script := [Completes, Completes, Completes, Completes, Completes, ?ft]\<rparr>"
  have "let (r, w') = run_dogecoin sample_indexer sample_iteration ?w;
      w2 = indexer_run sample_indexer [sample_event, sample_crash] w' in
    r = Inl (GenericError ''connection lost'')
    \<and> wd_state w' = Some (?s\<lparr>cs_last_error := Some (thrown_message (GenericError ''connection lost''))\<rparr>)
    \<and> (\<forall>s2. reconcile_process_tail_with_warehouse sample_indexer s2 w2 = (Inr s2, w2))
    \<and> \<not> wd_tail_reconciled (restart (create_controller 2 2 2) 0 w2)"
    by (rule failed_rewind_not_retried [where tail = get_applied_block_tail and ft = ?ft and latest = 0
          and wh = empty_warehouse_state])
      (simp_all add: fresh_world_def empty_warehouse_state_def get_applied_block_tail_def sample_indexer_def
        sample_iteration_def sample_event_def sample_crash_def memory_port_def under_fault_def throw_def
        get_json_value_def)
  then show ?thesis by (auto simp: Let_def split: prod.splits)
qed

end
