(* ===== verification/Js_Text.thy ===== *)
theory Js_Text
  imports Projection
begin

text \<open>
  More of the JavaScript string library for the request-handling components: case mapping,
  prefix and suffix tests, truthiness of optional strings, and \<^verbatim>\<open>Number(string)\<close> with its
  rounding to the 53-bit binary format.
\<close>

section \<open>Strings\<close>

definition starts_with :: "string \<Rightarrow> string \<Rightarrow> bool" where
  "starts_with p s \<longleftrightarrow> take (length p) s = p"

definition ends_with :: "string \<Rightarrow> string \<Rightarrow> bool" where
  "ends_with p s \<longleftrightarrow> drop (length s - length p) s = p"

fun js_includes :: "string \<Rightarrow> string \<Rightarrow> bool" where
  "js_includes p [] = (p = [])"
| "js_includes p (c # cs) = (starts_with p (c # cs) \<or> js_includes p cs)"

text \<open>
  \<^verbatim>\<open>toLowerCase\<close> and \<^verbatim>\<open>toUpperCase\<close> on code units below 256. The upper case of the micro sign
  and of y with diaeresis lies outside that range; both are left alone.
\<close>

definition lower_char :: "char \<Rightarrow> char" where
  "lower_char c = (let n = char_code c in
     if 65 \<le> n \<and> n \<le> 90 \<or> 192 \<le> n \<and> n \<le> 222 \<and> n \<noteq> 215 then char_of (n + 32) else c)"

definition upper_char :: "char \<Rightarrow> string" where
  "upper_char c = (let n = char_code c in
     if n = 223 then ''SS''
     else if 97 \<le> n \<and> n \<le> 122 \<or> 224 \<le> n \<and> n \<le> 254 \<and> n \<noteq> 247 then [char_of (n - 32)] else [c])"

definition js_lower :: "string \<Rightarrow> string" where
  "js_lower s = map lower_char s"

definition js_upper :: "string \<Rightarrow> string" where
  "js_upper s = concat (map upper_char s)"

text \<open>\<^verbatim>\<open>/[A-Za-z0-9]/\<close>.\<close>

definition is_alnum :: "char \<Rightarrow> bool" where
  "is_alnum c \<longleftrightarrow> (let n = char_code c in 48 \<le> n \<and> n \<le> 57 \<or> 65 \<le> n \<and> n \<le> 90 \<or> 97 \<le> n \<and> n \<le> 122)"

lemma starts_with_iff: "starts_with p s \<longleftrightarrow> (\<exists>r. s = p @ r)"
proof
  assume "starts_with p s"
  then have "s = p @ drop (length p) s" by (metis append_take_drop_id starts_with_def)
  then show "\<exists>r. s = p @ r" ..
qed (auto simp: starts_with_def)

lemma starts_with_append [simp]: "starts_with p (p @ r)"
  by (simp add: starts_with_def)

lemma js_split_no_sep: "c \<notin> set s \<Longrightarrow> js_split c s = [s]"
  by (induction s) auto

text \<open>The first two parts of a split text.\<close>

lemma js_split_two:
  "js_split c s = a # b # r \<longleftrightarrow> (\<exists>t. s = a @ c # t \<and> c \<notin> set a \<and> js_split c t = b # r)"
proof (induction s arbitrary: a)
  case Nil
  show ?case by simp
next
  case (Cons x s)
  show ?case
  proof (cases "x = c")
    case True
    then show ?thesis by (auto simp: Cons_eq_append_conv)
  next
    case False
    have "js_split c (x # s) = a # b # r \<longleftrightarrow> (\<exists>a'. a = x # a' \<and> js_split c s = a' # b # r)"
      using False by (auto split: list.splits)
    also have "\<dots> \<longleftrightarrow> (\<exists>t. x # s = a @ c # t \<and> c \<notin> set a \<and> js_split c t = b # r)"
      using False by (auto simp: Cons.IH Cons_eq_append_conv)
    finally show ?thesis .
  qed
qed

lemma js_split_head: "js_split c s = a # r \<Longrightarrow> c \<notin> set a \<and> (\<exists>t. s = a @ t \<and> (t = [] \<or> hd t = c))"
proof (induction s arbitrary: a)
  case Nil
  then show ?case by simp
next
  case (Cons x s)
  show ?case
  proof (cases "x = c")
    case False
    then obtain a' where a: "a = x # a'" "js_split c s = a' # r"
      using Cons.prems by (auto split: list.splits)
    then show ?thesis using Cons.IH [OF a(2)] False by auto
  qed (use Cons.prems in auto)
qed

section \<open>Numbers read from text\<close>

text \<open>
  A non-negative rational is rounded to the nearest value with 53 significant bits, ties to
  even. \<open>ulp_exponent\<close> is the exponent of the last place, not below that of the subnormal
  numbers; from \<open>2 ^ 1024\<close> on the result is infinite.
\<close>

fun bit_length :: "nat \<Rightarrow> nat" where
  "bit_length n = (if n = 0 then 0 else Suc (bit_length (n div 2)))"

declare bit_length.simps [simp del]

definition pow2 :: "int \<Rightarrow> rat" where
  "pow2 e = (if 0 \<le> e then 2 ^ nat e else 1 / 2 ^ nat (- e))"

definition floor_log2 :: "rat \<Rightarrow> int" where
  "floor_log2 q =
     (let (a, b) = quotient_of q;
          k = int (bit_length (nat a)) - int (bit_length (nat b)) in
      if q < pow2 k then k - 1 else k)"

definition ulp_exponent :: "rat \<Rightarrow> int" where
  "ulp_exponent q = max (- 1074) (floor_log2 q - 52)"

definition round_half_even :: "rat \<Rightarrow> int" where
  "round_half_even q =
     (let f = \<lfloor>q\<rfloor>; r = q - of_int f in
      if r < 1 / 2 then f else if 1 / 2 < r then f + 1 else if even f then f else f + 1)"

definition round_double :: "rat \<Rightarrow> rat option" where
  "round_double q =
     (if q = 0 then Some 0
      else let e = ulp_exponent q; r = of_int (round_half_even (q / pow2 e)) * pow2 e in
        if 2 ^ 1024 \<le> r then None else Some r)"

definition js_num_of :: "rat \<Rightarrow> js_num" where
  "js_num_of q = (if of_int \<lfloor>q\<rfloor> = q then JInt \<lfloor>q\<rfloor> else JDec q)"

definition signed_double :: "int \<Rightarrow> rat \<Rightarrow> js_num" where
  "signed_double sg q =
     (case round_double q of
        None \<Rightarrow> if sg < 0 then JNegInf else JPosInf
      | Some r \<Rightarrow> js_num_of (of_int sg * r))"

text \<open>
  An unsigned decimal literal: digits with an optional fraction, one of them non-empty, and an
  optional exponent.
\<close>

definition decimal_mantissa :: "string \<Rightarrow> rat option" where
  "decimal_mantissa s =
     (let w = takeWhile is_digit s; r = dropWhile is_digit s in
      if r = [] then (if w = [] then None else Some (of_nat (digits_value w)))
      else if hd r = CHR ''.'' \<and> list_all is_digit (tl r) \<and> (w \<noteq> [] \<or> tl r \<noteq> [])
      then Some (of_nat (digits_value (w @ tl r)) / 10 ^ length (tl r))
      else None)"

definition decimal_literal :: "string \<Rightarrow> rat option" where
  "decimal_literal s =
     (let is_e = (\<lambda>c. c = CHR ''e'' \<or> c = CHR ''E'');
          m = takeWhile (\<lambda>c. \<not> is_e c) s; r = dropWhile (\<lambda>c. \<not> is_e c) s in
      case decimal_mantissa m of
        None \<Rightarrow> None
      | Some q \<Rightarrow>
          if r = [] then Some q
          else (let (sg, ds) = split_sign (tl r) in
            if all_digits ds
            then Some (if sg < 0 then q / 10 ^ digits_value ds else q * 10 ^ digits_value ds)
            else None))"

definition js_number :: "string \<Rightarrow> js_num" where
  "js_number v =
     (let s = js_trim v in
      if s = [] then JInt 0
      else case radix_prefix s of
        Some (b, r) \<Rightarrow>
          if is_radix_numeral b r then signed_double 1 (of_nat (radix_value b r)) else JNaN
      | None \<Rightarrow>
          (let (sg, r) = split_sign s in
           if r = ''Infinity'' then (if sg < 0 then JNegInf else JPosInf)
           else case decimal_literal r of None \<Rightarrow> JNaN | Some q \<Rightarrow> signed_double sg q))"

text \<open>Integers of at most 53 bits are read exactly.\<close>

lemma bit_length_bounds: "0 < n \<Longrightarrow> 2 ^ (bit_length n - 1) \<le> n \<and> n < 2 ^ bit_length n \<and> 0 < bit_length n"
proof (induction n rule: bit_length.induct)
  case (1 n)
  have step: "bit_length n = Suc (bit_length (n div 2))" using 1(2) by (subst bit_length.simps) simp
  show ?case
  proof (cases "n div 2 = 0")
    case True
    then have "n = 1" using 1(2) by simp
    then show ?thesis using step by (simp add: bit_length.simps)
  next
    case False
    then have "2 ^ (bit_length (n div 2) - 1) \<le> n div 2" "n div 2 < 2 ^ bit_length (n div 2)"
      "0 < bit_length (n div 2)"
      using 1 by auto
    moreover from this(3) have "(2::nat) ^ bit_length (n div 2) = 2 * 2 ^ (bit_length (n div 2) - 1)"
      by (cases "bit_length (n div 2)") simp_all
    ultimately show ?thesis using step by simp linarith
  qed
qed

lemma round_double_exact:
  assumes "n \<le> 2 ^ 53"
  shows "round_double (of_nat n) = Some (of_nat n)"
proof (cases "n = 0")
  case False
  let ?b = "bit_length n"
  have b: "2 ^ (?b - 1) \<le> n" "n < 2 ^ ?b" "0 < ?b" using bit_length_bounds [of n] False by auto
  have q: "quotient_of (of_nat n) = (int n, 1)" using quotient_of_int [of "int n"] by (simp only: Rat.of_int_def of_int_of_nat_eq)
  have one: "bit_length 1 = 1" by (simp add: bit_length.simps)
  have p: "pow2 (int (?b - 1)) = of_nat (2 ^ (?b - 1))" by (simp add: pow2_def)
  have "\<not> (of_nat n :: rat) < of_nat (2 ^ (?b - 1))" using b(1) by (simp only: of_nat_less_iff not_less)
  moreover have "int ?b - int (bit_length (nat 1)) = int (?b - 1)" using b(3) one by simp
  ultimately have log: "floor_log2 (of_nat n) = int (?b - 1)"
    unfolding floor_log2_def q Let_def prod.case nat_int by (simp only: p if_False)
  have "(2::nat) ^ (?b - 1) \<le> 2 ^ 53" using b(1) assms by linarith
  then have small: "?b - 1 \<le> 53" by (simp only: power_increasing_iff)
  have less: "(of_nat n :: rat) < 2 ^ 1024"
  proof -
    have "(of_nat n :: rat) \<le> of_nat (2 ^ 53)" using assms by (simp only: of_nat_le_iff)
    also have "\<dots> < 2 ^ 1024" by simp
    finally show ?thesis .
  qed
  have r: "round_half_even (of_int k) = k" for k by (simp add: round_half_even_def)
  show ?thesis
  proof (cases "?b - 1 \<le> 52")
    case True
    let ?e = "ulp_exponent (of_nat n)"
    have e: "?e \<le> 0" "?e = int (?b - 1) - 52" using True by (simp_all add: ulp_exponent_def log)
    then have "of_nat n / pow2 ?e = of_int (int n * 2 ^ nat (- ?e))"
      by (cases "?e = 0") (simp_all add: pow2_def)
    then have "of_int (round_half_even (of_nat n / pow2 ?e)) * pow2 ?e = (of_nat n :: rat)"
      using e(1) by (simp only: r) (auto simp: pow2_def)
    then show ?thesis using False less by (simp add: round_double_def Let_def)
  next
    case False
    then have "?b = 54" using small by simp
    then have "n = 2 ^ 53" using b(1) assms by simp
    moreover have "ulp_exponent (of_nat n) = 1" using log \<open>?b = 54\<close> by (simp only: ulp_exponent_def)
    moreover have "(of_nat (2 ^ 53) :: rat) / pow2 1 = of_int (2 ^ 52)" by (simp add: pow2_def)
    ultimately show ?thesis using r [of "2 ^ 52"] by (simp add: round_double_def Let_def pow2_def)
  qed
qed (simp add: round_double_def)

lemma js_num_of_nat [simp]: "js_num_of (of_nat n) = JInt (int n)"
  by (simp add: js_num_of_def)

lemma js_number_digits:
  assumes "all_digits s" and "digits_value s \<le> 2 ^ 53"
  shows "js_number s = JInt (int (digits_value s))"
proof -
  have digits: "list_all is_digit s" "s \<noteq> []" using assms(1) by (simp_all add: all_digits_def)
  have no_e: "takeWhile (\<lambda>c. \<not> (c = CHR ''e'' \<or> c = CHR ''E'')) s = s"
    "dropWhile (\<lambda>c. \<not> (c = CHR ''e'' \<or> c = CHR ''E'')) s = []"
    using digits(1) by (auto simp: list_all_iff takeWhile_eq_all_conv dropWhile_eq_Nil_conv is_digit_def char_code_def)
  have tw: "takeWhile is_digit s = s" "dropWhile is_digit s = []"
    using digits(1) by (auto simp: list_all_iff takeWhile_eq_all_conv dropWhile_eq_Nil_conv)
  have m: "decimal_mantissa s = Some (of_nat (digits_value s))"
    unfolding decimal_mantissa_def Let_def tw using digits(2) by simp
  have "decimal_literal s = Some (of_nat (digits_value s))"
    unfolding decimal_literal_def Let_def no_e m by simp
  moreover have "s \<noteq> ''Infinity''" using digits(1) by (auto simp: is_digit_def char_code_def)
  ultimately show ?thesis
    using assms digits(2)
    by (simp add: js_number_def radix_prefix_digits split_sign_digits signed_double_def round_double_exact)
qed

lemma js_number_nat_str: "n \<le> 2 ^ 53 \<Longrightarrow> js_number (nat_str n) = JInt (int n)"
  by (simp add: js_number_digits all_digits_nat_str)

end
