(* ===== verification/Value_Objects.thy ===== *)
theory Value_Objects
  imports Js_Text
begin

text \<open>
  The value objects of \<^verbatim>\<open>shared-kernel/src/domain/value-objects.ts\<close>: external ids, API secrets,
  block times, modes and the bounded integers of query parameters. The key derivation of
  \<^verbatim>\<open>node:crypto\<close> and the random bytes and UUIDs are arguments. URL parsing and home directory
  expansion are calls of the platform and not modelled.
\<close>

section \<open>External ids\<close>

record external_id =
  ei_value :: string
  ei_prefix :: string

definition is_id_prefix :: "string option \<Rightarrow> bool" where
  "is_id_prefix v = (case v of None \<Rightarrow> False | Some p \<Rightarrow> p \<in> set [''key''])"

definition id_error :: "string \<Rightarrow> js_error" where
  "id_error raw = ValidationError (''invalid parameter for `id`: '' @ raw)"

definition require_id_prefix :: "string option \<Rightarrow> string \<Rightarrow> string res" where
  "require_id_prefix v raw =
     (case v of
        Some p \<Rightarrow> if is_id_prefix v then Inr p else Inl (ValidationError (''invalid id prefix: '' @ raw))
      | None \<Rightarrow> Inl (ValidationError (''invalid id prefix: '' @ raw)))"

definition has_expected_prefix :: "string \<Rightarrow> string option \<Rightarrow> bool" where
  "has_expected_prefix p expected = (case expected of None \<Rightarrow> True | Some e \<Rightarrow> p = e)"

definition assert_expected_prefix :: "string \<Rightarrow> string option \<Rightarrow> string \<Rightarrow> unit res" where
  "assert_expected_prefix p expected raw =
     (if \<not> has_expected_prefix p expected then Inl (id_error raw) else Inr ())"

definition assert_id_suffix_present :: "string option \<Rightarrow> string \<Rightarrow> string res" where
  "assert_id_suffix_present v raw =
     (case v of None \<Rightarrow> Inl (id_error raw) | Some s \<Rightarrow> if s = [] then Inl (id_error raw) else Inr s)"

definition assert_id_suffix_length :: "string \<Rightarrow> string \<Rightarrow> unit res" where
  "assert_id_suffix_length v raw = (if 32 < length v then Inl (id_error raw) else Inr ())"

definition assert_id_suffix_characters :: "string \<Rightarrow> string \<Rightarrow> unit res" where
  "assert_id_suffix_characters v raw =
     (if \<not> (v \<noteq> [] \<and> list_all is_alnum v) then Inl (id_error raw) else Inr ())"

definition assert_valid_id_suffix :: "string option \<Rightarrow> string \<Rightarrow> unit res" where
  "assert_valid_id_suffix v raw =
     and_then (assert_id_suffix_present v raw) (\<lambda>s.
     and_then (assert_id_suffix_length s raw) (\<lambda>_.
     assert_id_suffix_characters s raw))"

definition external_id_parse :: "string \<Rightarrow> string option \<Rightarrow> external_id res" where
  "external_id_parse v expected =
     (let trimmed = js_trim v; parts = js_split (CHR ''_'') trimmed;
          prefix = (case parts of [] \<Rightarrow> None | p # _ \<Rightarrow> Some p);
          suffix = (case parts of _ # s # _ \<Rightarrow> Some s | _ \<Rightarrow> None) in
      and_then (require_id_prefix prefix v) (\<lambda>id_prefix.
      and_then (assert_expected_prefix id_prefix expected v) (\<lambda>_.
      and_then (assert_valid_id_suffix suffix v) (\<lambda>_.
      Inr \<lparr>ei_value = trimmed, ei_prefix = id_prefix\<rparr>))))"

text \<open>\<open>uuid\<close> is the text of a random UUID, whose dashes are dropped.\<close>

definition external_id_create :: "string \<Rightarrow> string option \<Rightarrow> string \<Rightarrow> external_id res" where
  "external_id_create prefix raw uuid =
     (let trimmed = (case raw of None \<Rightarrow> [] | Some r \<Rightarrow> js_trim r);
          suffix = (if trimmed \<noteq> [] then trimmed else take 24 (filter (\<lambda>c. c \<noteq> CHR ''-'') uuid)) in
      external_id_parse (prefix @ ''_'' @ suffix) (Some prefix))"

lemma assert_valid_id_suffix_ok:
  "assert_valid_id_suffix v raw = Inr () \<longleftrightarrow>
     (\<exists>s. v = Some s \<and> s \<noteq> [] \<and> length s \<le> 32 \<and> list_all is_alnum s)"
proof (cases v)
  case (Some s)
  then show ?thesis
    by (cases "s = []"; cases "32 < length s"; cases "list_all is_alnum s")
      (simp_all add: assert_valid_id_suffix_def assert_id_suffix_present_def assert_id_suffix_length_def
        assert_id_suffix_characters_def)
qed (simp add: assert_valid_id_suffix_def assert_id_suffix_present_def)

lemma external_id_parse_iff:
  "external_id_parse v (Some ''key'') = Inr e \<longleftrightarrow>
     (\<exists>s rest. js_trim v = ''key_'' @ s @ rest \<and> s \<noteq> [] \<and> length s \<le> 32 \<and> list_all is_alnum s
        \<and> (rest = [] \<or> hd rest = CHR ''_'') \<and> e = \<lparr>ei_value = js_trim v, ei_prefix = ''key''\<rparr>)"
    (is "?l \<longleftrightarrow> ?r")
proof -
  have alnum: "CHR ''_'' \<notin> set s" if "list_all is_alnum s" for s
    using that by (auto simp: list_all_iff is_alnum_def char_code_def Let_def)
  have parts: "?l \<longleftrightarrow> (\<exists>s r. js_split (CHR ''_'') (js_trim v) = ''key'' # s # r \<and> s \<noteq> [] \<and> length s \<le> 32
      \<and> list_all is_alnum s \<and> e = \<lparr>ei_value = js_trim v, ei_prefix = ''key''\<rparr>)"
  proof -
    obtain p ps where ps: "js_split (CHR ''_'') (js_trim v) = p # ps"
      using js_split_nonempty [of "CHR ''_''" "js_trim v"] by (cases "js_split (CHR ''_'') (js_trim v)") blast+
    have prefix: "require_id_prefix (Some p) v = Inr q \<longleftrightarrow> p = ''key'' \<and> q = p" for q
      by (auto simp: require_id_prefix_def is_id_prefix_def)
    have expected: "assert_expected_prefix q (Some ''key'') v = Inr u \<longleftrightarrow> q = ''key''" for q u
      by (auto simp: assert_expected_prefix_def has_expected_prefix_def)
    show ?thesis
      by (cases ps) (auto simp: external_id_parse_def Let_def ps res_simps prefix expected assert_valid_id_suffix_ok)
  qed
  show ?thesis
  proof
    assume ?l
    then obtain s r where s: "js_split (CHR ''_'') (js_trim v) = ''key'' # s # r" "s \<noteq> []" "length s \<le> 32"
      "list_all is_alnum s" "e = \<lparr>ei_value = js_trim v, ei_prefix = ''key''\<rparr>"
      using parts by blast
    then obtain t where "js_trim v = ''key'' @ CHR ''_'' # t" "js_split (CHR ''_'') t = s # r"
      by (auto simp: js_split_two)
    with js_split_head [OF this(2)] s show ?r by auto
  next
    assume ?r
    then obtain s rest where s: "js_trim v = ''key_'' @ s @ rest" "s \<noteq> []" "length s \<le> 32" "list_all is_alnum s"
      "rest = [] \<or> hd rest = CHR ''_''" "e = \<lparr>ei_value = js_trim v, ei_prefix = ''key''\<rparr>" by blast
    have "\<exists>r. js_split (CHR ''_'') (s @ rest) = s # r"
    proof (cases rest)
      case Nil
      then show ?thesis using js_split_no_sep [OF alnum [OF s(4)]] by simp
    next
      case (Cons c cs)
      then show ?thesis using js_split_append [OF alnum [OF s(4)], of cs] s(5) by auto
    qed
    then obtain r where "js_split (CHR ''_'') (s @ rest) = s # r" ..
    then have "js_split (CHR ''_'') (js_trim v) = ''key'' # s # r" using s(1) by (auto simp: js_split_two)
    then show ?l using parts s by blast
  qed
qed

text \<open>
  Parsing an API key id accepts exactly the trimmed texts that start with \<open>key_\<close> and a part
  of one to 32 letters and digits, up to the end or to a second underscore, and returns the
  trimmed text. What follows a second underscore is not looked at: such an id may have any
  length and any characters. A second parse of the accepted text changes nothing.
\<close>

theorem external_id_accepts:
  "(is_ok (external_id_parse v (Some ''key'')) \<longleftrightarrow>
     (\<exists>s rest. js_trim v = ''key_'' @ s @ rest \<and> s \<noteq> [] \<and> length s \<le> 32 \<and> list_all is_alnum s
        \<and> (rest = [] \<or> hd rest = CHR ''_'')))
   \<and> (case external_id_parse v (Some ''key'') of
        Inl e \<Rightarrow> status_code e = Some 400
      | Inr e \<Rightarrow> ei_value e = js_trim v \<and> external_id_parse (ei_value e) (Some ''key'') = Inr e)"
proof (cases "external_id_parse v (Some ''key'')")
  case (Inl e)
  then have "status_code e = Some 400"
    by (auto simp: external_id_parse_def Let_def and_then_Inl_iff require_id_prefix_def assert_expected_prefix_def
        assert_valid_id_suffix_def assert_id_suffix_present_def assert_id_suffix_length_def id_error_def
        assert_id_suffix_characters_def split: list.splits option.splits if_splits)
  then show ?thesis using Inl external_id_parse_iff [of v] by fastforce
next
  case (Inr e)
  have "external_id_parse (js_trim v) (Some ''key'') = Inr e"
    using Inr by (simp only: external_id_parse_iff js_trim_idem)
  moreover have "ei_value e = js_trim v" using Inr by (auto simp: external_id_parse_iff)
  ultimately have idem: "ei_value e = js_trim v \<and> external_id_parse (ei_value e) (Some ''key'') = Inr e" by simp
  have form: "\<exists>s rest. js_trim v = ''key_'' @ s @ rest \<and> s \<noteq> [] \<and> length s \<le> 32 \<and> list_all is_alnum s
        \<and> (rest = [] \<or> hd rest = CHR ''_'')"
    using Inr by (auto simp only: external_id_parse_iff)
  have "is_ok (external_id_parse v (Some ''key''))" using Inr by simp
  with form idem show ?thesis unfolding Inr sum.case by blast
qed

section \<open>API secrets\<close>

record api_secret =
  as_value :: string
  as_hash :: string

text \<open>\<open>kdf\<close> is \<^verbatim>\<open>scryptSync\<close> with the fixed salt, in hexadecimal.\<close>

definition hash_api_secret_lookup_key :: "(string \<Rightarrow> string) \<Rightarrow> string \<Rightarrow> string" where
  "hash_api_secret_lookup_key kdf v = kdf v"

definition generate_api_secret :: "(string \<Rightarrow> string) \<Rightarrow> string \<Rightarrow> api_secret" where
  "generate_api_secret kdf token =
     \<lparr>as_value = ''sk_'' @ token, as_hash = hash_api_secret_lookup_key kdf token\<rparr>"

definition hash_from_token :: "(string \<Rightarrow> string) \<Rightarrow> string \<Rightarrow> string" where
  "hash_from_token kdf api_token =
     hash_api_secret_lookup_key kdf (last (js_split (CHR ''_'') api_token))"

lemma hash_from_generated_token:
  assumes "CHR ''_'' \<notin> set token"
  shows "hash_from_token kdf (as_value (generate_api_secret kdf token)) = as_hash (generate_api_secret kdf token)"
proof -
  have "js_split (CHR ''_'') (''sk'' @ CHR ''_'' # token) = [''sk'', token]"
    using assms by (subst js_split_append) (simp_all add: js_split_no_sep)
  then show ?thesis by (simp add: hash_from_token_def generate_api_secret_def)
qed

section \<open>Modes, families and block times\<close>

definition mode_input_value :: "string option \<Rightarrow> string" where
  "mode_input_value inp = (case inp of None \<Rightarrow> ''both'' | Some s \<Rightarrow> js_lower (js_trim s))"

definition is_mode :: "string \<Rightarrow> bool" where
  "is_mode v \<longleftrightarrow> v \<in> set [''both'', ''indexer'', ''http'']"

definition parse_mode :: "string option \<Rightarrow> string res" where
  "parse_mode inp =
     (let v = mode_input_value inp in
      if \<not> is_mode v
      then Inl (ValidationError (''invalid mode: '' @ (case inp of None \<Rightarrow> ''undefined'' | Some s \<Rightarrow> s)))
      else Inr v)"

definition is_chain_family :: "string \<Rightarrow> bool" where
  "is_chain_family v \<longleftrightarrow> v = ''dogecoin''"

definition parse_chain_family :: "string \<Rightarrow> string res" where
  "parse_chain_family inp =
     (let v = js_lower (js_trim inp) in
      if \<not> is_chain_family v then Inl (ValidationError (''invalid architecture: '' @ inp)) else Inr v)"

fun is_positive_integer :: "js_num \<Rightarrow> bool" where
  "is_positive_integer (JInt i) = (0 < i)"
| "is_positive_integer _ = False"

definition block_time_parse :: "js_num \<Rightarrow> js_num res" where
  "block_time_parse v =
     (if \<not> is_positive_integer v then Inl (ValidationError (''invalid block time: '' @ js_num_str v))
      else Inr v)"

section \<open>Bounded query parameters\<close>

definition default_page_limit :: int where
  "default_page_limit = 50"

definition max_page_limit :: int where
  "max_page_limit = 500"

definition max_page_offset :: int where
  "max_page_offset = 100000"

fun non_negative_integer_or_undefined :: "js_num \<Rightarrow> int option" where
  "non_negative_integer_or_undefined (JInt i) = (if 0 \<le> i then Some i else None)"
| "non_negative_integer_or_undefined _ = None"

definition parse_non_negative_integer :: "string option \<Rightarrow> int option" where
  "parse_non_negative_integer v =
     (case v of None \<Rightarrow> None
      | Some s \<Rightarrow> if s = [] then None else non_negative_integer_or_undefined (js_number s))"

datatype page_parameter = Number_Param js_num | Text_Param string

fun page_parameter_number :: "page_parameter \<Rightarrow> js_num" where
  "page_parameter_number (Number_Param n) = n"
| "page_parameter_number (Text_Param s) = (if js_trim s = [] then JNaN else js_number s)"

fun page_parameter_str :: "page_parameter \<Rightarrow> string" where
  "page_parameter_str (Number_Param n) = js_num_str n"
| "page_parameter_str (Text_Param s) = s"

text \<open>\<open>dflt\<close> is the optional \<^verbatim>\<open>defaultValue\<close>, returned for an absent parameter.\<close>

definition parse_bounded_non_negative_integer ::
  "page_parameter option \<Rightarrow> int option \<Rightarrow> string \<Rightarrow> int \<Rightarrow> int option res" where
  "parse_bounded_non_negative_integer v dflt field maximum =
     (case v of None \<Rightarrow> Inr dflt
      | Some p \<Rightarrow>
          (case non_negative_integer_or_undefined (page_parameter_number p) of
             Some i \<Rightarrow> if maximum < i
               then Inl (ValidationError (''invalid parameter for `'' @ field @ ''`: '' @ page_parameter_str p))
               else Inr (Some i)
           | None \<Rightarrow> Inl (ValidationError (''invalid parameter for `'' @ field @ ''`: '' @ page_parameter_str p))))"

lemma parse_bounded_range:
  assumes "parse_bounded_non_negative_integer v (Some d) field m = Inr r" and "0 \<le> d" and "d \<le> m"
  obtains i where "r = Some i" "0 \<le> i" "i \<le> m"
  using assms
  by (auto simp: parse_bounded_non_negative_integer_def split: option.splits if_splits)
     (metis non_negative_integer_or_undefined.elims option.distinct(1) option.inject not_less)

lemma parse_bounded_text:
  assumes "n \<le> 2 ^ 53"
  shows "parse_bounded_non_negative_integer (Some (Text_Param (nat_str n))) d field m
    = (if m < int n then Inl (ValidationError (''invalid parameter for `'' @ field @ ''`: '' @ nat_str n))
       else Inr (Some (int n)))"
  using assms
  by (simp add: parse_bounded_non_negative_integer_def js_number_nat_str all_digits_nat_str)

end
