(* ===== verification/Rate_Limiter.thy ===== *)
theory Rate_Limiter
  imports Js_Map
begin

text \<open>
  The in-process request budget of an API key
  (\<^verbatim>\<open>access-control/src/application/api-key-rate-limiter.ts\<close>): a map from subjects to fixed
  windows. Times are milliseconds of \<^verbatim>\<open>Date.now\<close>. \<open>rate_run\<close> logs the requests that were let
  through; the theorem bounds them in every interval of the window's length, wherever it starts.
\<close>

section \<open>The limiter\<close>

record rate_limit_policy =
  rp_max_requests :: int
  rp_window_ms :: int

record rate_limit_result =
  rr_allowed :: bool
  rr_limit :: int
  rr_remaining :: int
  rr_reset_seconds :: int
  rr_retry_after_seconds :: "int option"

record rate_limit_window =
  rw_count :: int
  rw_reset_at :: int

type_synonym rate_limit_windows = "(string, rate_limit_window) js_map"

definition default_api_key_rate_limit_policy :: rate_limit_policy where
  "default_api_key_rate_limit_policy = \<lparr>rp_max_requests = 300, rp_window_ms = 60000\<rparr>"

fun is_positive_integer :: "js_num \<Rightarrow> bool" where
  "is_positive_integer (JInt i) = (0 < i)"
| "is_positive_integer _ = False"

definition assert_positive_integer :: "js_num \<Rightarrow> string \<Rightarrow> int res" where
  "assert_positive_integer v label =
     (case v of
        JInt i \<Rightarrow> if is_positive_integer v then Inr i
          else Inl (GenericError (''invalid '' @ label @ '': '' @ js_num_str v))
      | _ \<Rightarrow> Inl (GenericError (''invalid '' @ label @ '': '' @ js_num_str v)))"

definition normalize_rate_limit_policy :: "js_num \<Rightarrow> js_num \<Rightarrow> rate_limit_policy res" where
  "normalize_rate_limit_policy max_requests window_ms =
     and_then (assert_positive_integer max_requests ''API key rate limit'') (\<lambda>m.
     and_then (assert_positive_integer window_ms ''API key rate limit window'') (\<lambda>w.
     Inr \<lparr>rp_max_requests = m, rp_window_ms = w\<rparr>))"

definition is_active_rate_limit_window :: "rate_limit_window option \<Rightarrow> int \<Rightarrow> bool" where
  "is_active_rate_limit_window w now = (case w of None \<Rightarrow> False | Some x \<Rightarrow> now < rw_reset_at x)"

text \<open>\<^verbatim>\<open>Math.ceil\<close> of the quotient.\<close>

definition seconds_until :: "int \<Rightarrow> int \<Rightarrow> int" where
  "seconds_until timestamp now = max 1 (- ((now - timestamp) div 1000))"

definition current_window ::
  "rate_limit_policy \<Rightarrow> string \<Rightarrow> int \<Rightarrow> rate_limit_windows \<Rightarrow> rate_limit_window \<times> rate_limit_windows" where
  "current_window p subject now ws =
     (case js_get ws subject of
        Some w \<Rightarrow>
          if is_active_rate_limit_window (Some w) now then (w, ws)
          else (let n = \<lparr>rw_count = 0, rw_reset_at = now + rp_window_ms p\<rparr> in (n, js_set subject n ws))
      | None \<Rightarrow> (let n = \<lparr>rw_count = 0, rw_reset_at = now + rp_window_ms p\<rparr> in (n, js_set subject n ws)))"

text \<open>The window object is shared with the map, so counting it up writes it back.\<close>

definition rate_limit_consume ::
  "rate_limit_policy \<Rightarrow> string \<Rightarrow> int \<Rightarrow> rate_limit_windows \<Rightarrow> rate_limit_result \<times> rate_limit_windows" where
  "rate_limit_consume p subject now ws =
     (let (w, ws') = current_window p subject now ws;
          reset_seconds = seconds_until (rw_reset_at w) now in
      if rp_max_requests p \<le> rw_count w
      then (\<lparr>rr_allowed = False, rr_limit = rp_max_requests p, rr_remaining = 0,
              rr_reset_seconds = reset_seconds, rr_retry_after_seconds = Some reset_seconds\<rparr>, ws')
      else (\<lparr>rr_allowed = True, rr_limit = rp_max_requests p,
              rr_remaining = rp_max_requests p - (rw_count w + 1),
              rr_reset_seconds = reset_seconds, rr_retry_after_seconds = None\<rparr>,
            js_set subject (w\<lparr>rw_count := rw_count w + 1\<rparr>) ws'))"

section \<open>What it guarantees\<close>

text \<open>The log holds subject and time of every request that was let through.\<close>

type_synonym rate_log = "(string \<times> int) list"

definition rate_step ::
  "rate_limit_policy \<Rightarrow> string \<times> int \<Rightarrow> rate_limit_windows \<times> rate_log \<Rightarrow> rate_limit_windows \<times> rate_log" where
  "rate_step p = (\<lambda>(subject, now) (ws, passed).
     let (r, ws') = rate_limit_consume p subject now ws in
     (ws', if rr_allowed r then passed @ [(subject, now)] else passed))"

definition rate_run :: "rate_limit_policy \<Rightarrow> (string \<times> int) list \<Rightarrow> rate_limit_windows \<times> rate_log" where
  "rate_run p reqs = fold (rate_step p) reqs ([], [])"

definition allowed_between :: "string \<Rightarrow> int \<Rightarrow> int \<Rightarrow> rate_log \<Rightarrow> nat" where
  "allowed_between subject a b passed = length (filter (\<lambda>(s, x). s = subject \<and> a \<le> x \<and> x < b) passed)"

lemma allowed_between_append [simp]:
  "allowed_between subject a b (passed @ [(s, x)])
     = allowed_between subject a b passed + (if s = subject \<and> a \<le> x \<and> x < b then 1 else 0)"
  by (simp add: allowed_between_def)

lemma allowed_between_mono:
  assumes "a \<le> a'" and "b' \<le> b" shows "allowed_between subject a' b' passed \<le> allowed_between subject a b passed"
  using assms unfolding allowed_between_def by (induction passed) auto

text \<open>
  Seen from one subject: its window and the times at which it was let through. The window counts
  the times since it began; an interval of the window's length that reaches into it holds at most
  one full window more.
\<close>

definition count_from :: "int \<Rightarrow> int list \<Rightarrow> int" where
  "count_from a ts = int (length (filter (\<lambda>x. a \<le> x) ts))"

definition count_in :: "int \<Rightarrow> int \<Rightarrow> int list \<Rightarrow> int" where
  "count_in a b ts = int (length (filter (\<lambda>x. a \<le> x \<and> x < b) ts))"

definition budget_inv :: "rate_limit_policy \<Rightarrow> int \<Rightarrow> rate_limit_window option \<Rightarrow> int list \<Rightarrow> bool" where
  "budget_inv p now w ts \<longleftrightarrow> list_all (\<lambda>x. x \<le> now) ts
     \<and> (case w of None \<Rightarrow> ts = []
        | Some w \<Rightarrow>
            rw_reset_at w - rp_window_ms p \<le> now \<and> list_all (\<lambda>x. x < rw_reset_at w) ts
            \<and> 0 \<le> rw_count w \<and> rw_count w \<le> rp_max_requests p
            \<and> rw_count w = count_from (rw_reset_at w - rp_window_ms p) ts
            \<and> (\<forall>t. (rw_reset_at w < t + 2 * rp_window_ms p \<longrightarrow>
                   count_in t (t + rp_window_ms p) ts \<le> rp_max_requests p + rw_count w)
                 \<and> count_in t (t + rp_window_ms p) ts \<le> 2 * rp_max_requests p))"

lemma count_simps [simp]:
  "count_from a [] = 0" "count_in a b [] = 0"
  "count_from a (ts @ [x]) = count_from a ts + (if a \<le> x then 1 else 0)"
  "count_in a b (ts @ [x]) = count_in a b ts + (if a \<le> x \<and> x < b then 1 else 0)"
  by (simp_all add: count_from_def count_in_def)

lemma count_in_from: "a \<le> t \<Longrightarrow> count_in t b ts \<le> count_from a ts"
  unfolding count_in_def count_from_def by (induction ts) auto

lemma count_from_in: "list_all (\<lambda>x. x < b) ts \<Longrightarrow> a' \<le> a \<Longrightarrow> count_from a ts \<le> count_in a' b ts"
  unfolding count_in_def count_from_def by (induction ts) auto

lemma count_from_none: "list_all (\<lambda>x. x < a) ts \<Longrightarrow> count_from a ts = 0"
  unfolding count_from_def by (induction ts) auto

lemma budget_later: "budget_inv p now w ts \<Longrightarrow> now \<le> now' \<Longrightarrow> budget_inv p now' w ts"
  by (auto simp: budget_inv_def list_all_iff split: option.splits; force)

lemma budget_new_window:
  assumes inv: "budget_inv p now w ts" and "0 < rp_max_requests p" "0 < rp_window_ms p"
    and idle: "\<not> is_active_rate_limit_window w now"
  shows "budget_inv p now (Some \<lparr>rw_count = 0, rw_reset_at = now + rp_window_ms p\<rparr>) ts"
proof (cases w)
  case None
  then show ?thesis using assms by (simp add: budget_inv_def)
next
  case (Some x)
  have old: "rw_reset_at x \<le> now" "list_all (\<lambda>y. y < rw_reset_at x) ts"
    "rw_count x = count_from (rw_reset_at x - rp_window_ms p) ts" "rw_count x \<le> rp_max_requests p"
    "\<And>t. count_in t (t + rp_window_ms p) ts \<le> 2 * rp_max_requests p" "list_all (\<lambda>y. y \<le> now) ts"
    using inv idle Some by (auto simp: budget_inv_def is_active_rate_limit_window_def)
  have before: "list_all (\<lambda>y. y < now) ts" using old(1,2) by (auto simp: list_all_iff)
  have "count_in t (t + rp_window_ms p) ts \<le> rp_max_requests p" if "now < t + rp_window_ms p" for t
    using count_in_from [of "rw_reset_at x - rp_window_ms p" t "t + rp_window_ms p" ts] that old(1,3,4) by linarith
  moreover have "list_all (\<lambda>y. y < now + rp_window_ms p) ts" using before assms(3) by (auto simp: list_all_iff)
  ultimately show ?thesis
    using old(5,6) assms(2,3) count_from_none [OF before] by (simp add: budget_inv_def algebra_simps)
qed

lemma budget_count:
  assumes inv: "budget_inv p now (Some w) ts" and "rw_count w < rp_max_requests p" and "now < rw_reset_at w"
  shows "budget_inv p now (Some (w\<lparr>rw_count := rw_count w + 1\<rparr>)) (ts @ [now])"
proof -
  have old: "rw_reset_at w - rp_window_ms p \<le> now" "list_all (\<lambda>x. x < rw_reset_at w) ts" "0 \<le> rw_count w"
    "rw_count w = count_from (rw_reset_at w - rp_window_ms p) ts"
    "\<And>t. rw_reset_at w < t + 2 * rp_window_ms p \<Longrightarrow>
       count_in t (t + rp_window_ms p) ts \<le> rp_max_requests p + rw_count w"
    "\<And>t. count_in t (t + rp_window_ms p) ts \<le> 2 * rp_max_requests p" "list_all (\<lambda>y. y \<le> now) ts"
    using inv unfolding budget_inv_def option.case by blast+
  have "count_in t (t + rp_window_ms p) (ts @ [now]) \<le> 2 * rp_max_requests p" for t
  proof (cases "t \<le> now \<and> now < t + rp_window_ms p")
    case True
    then have "rw_reset_at w < t + 2 * rp_window_ms p" using old(1) by linarith
    from old(5) [OF this] show ?thesis using assms(2) True by simp
  next
    case False
    then show ?thesis using old(6) [of t] by auto
  qed
  moreover have "count_in t (t + rp_window_ms p) (ts @ [now]) \<le> rp_max_requests p + (rw_count w + 1)"
    if "rw_reset_at w < t + 2 * rp_window_ms p" for t
    using old(5) [OF that] by simp
  ultimately show ?thesis using old assms(2,3) by (simp add: budget_inv_def)
qed

text \<open>The times of a subject in the log, and the step of its window.\<close>

definition times_of :: "string \<Rightarrow> rate_log \<Rightarrow> int list" where
  "times_of subject passed = map snd (filter (\<lambda>(s, x). s = subject) passed)"

lemma allowed_between_times: "int (allowed_between subject a b passed) = count_in a b (times_of subject passed)"
  unfolding allowed_between_def times_of_def count_in_def by (induction passed) auto

lemma rate_step_other:
  "subject \<noteq> s \<Longrightarrow> rate_step p (s, now) (ws, passed) = (ws', passed') \<Longrightarrow>
     js_get ws' subject = js_get ws subject \<and> times_of subject passed' = times_of subject passed"
  by (auto simp: rate_step_def rate_limit_consume_def current_window_def Let_def js_get_set times_of_def
      split: option.splits if_splits)

lemma rate_step_budget:
  assumes "budget_inv p now (js_get ws subject) (times_of subject passed)"
    and "0 < rp_max_requests p" "0 < rp_window_ms p"
    and step: "rate_step p (s, now) (ws, passed) = (ws', passed')"
  shows "budget_inv p now (js_get ws' subject) (times_of subject passed')"
proof (cases "subject = s")
  case False
  then show ?thesis using rate_step_other [OF False step] assms(1) by simp
next
  case True
  let ?n = "\<lparr>rw_count = 0, rw_reset_at = now + rp_window_ms p\<rparr>"
  define w where "w = fst (current_window p s now ws)"
  define ws1 where "ws1 = snd (current_window p s now ws)"
  have cw: "current_window p s now ws = (w, ws1)" by (simp add: w_def ws1_def)
  have w1: "js_get ws1 s = Some w \<and> now < rw_reset_at w \<and> budget_inv p now (Some w) (times_of s passed)"
  proof (cases "is_active_rate_limit_window (js_get ws s) now")
    case active: True
    then obtain x where x: "js_get ws s = Some x" "now < rw_reset_at x"
      by (auto simp: is_active_rate_limit_window_def split: option.splits)
    then have "current_window p s now ws = (x, ws)" by (simp add: current_window_def is_active_rate_limit_window_def)
    then show ?thesis using cw x assms(1) True by simp
  next
    case False
    then have "current_window p s now ws = (?n, js_set s ?n ws)"
      by (auto simp: current_window_def is_active_rate_limit_window_def Let_def split: option.splits)
    then have "w = ?n" "ws1 = js_set s ?n ws" using cw by simp_all
    then show ?thesis
      using budget_new_window [OF assms(1-3)] False True assms(3) by (simp add: js_get_set)
  qed
  show ?thesis
  proof (cases "rp_max_requests p \<le> rw_count w")
    case full: True
    then have "ws' = ws1" "passed' = passed"
      using step by (simp_all add: rate_step_def rate_limit_consume_def cw Let_def)
    then show ?thesis using w1 True by simp
  next
    case False
    then have "ws' = js_set s (w\<lparr>rw_count := rw_count w + 1\<rparr>) ws1" "passed' = passed @ [(s, now)]"
      using step by (simp_all add: rate_step_def rate_limit_consume_def cw Let_def)
    then show ?thesis using budget_count [of p now w "times_of s passed"] w1 False True
      by (simp add: js_get_set times_of_def)
  qed
qed

lemma rate_run_budget:
  assumes "0 < rp_max_requests p" "0 < rp_window_ms p"
    and "sorted (map snd (reqs :: (string \<times> int) list))" and "\<forall>r \<in> set reqs. snd r \<le> now"
  shows "budget_inv p now (js_get (fst (rate_run p reqs)) subject) (times_of subject (snd (rate_run p reqs)))"
  using assms(3,4)
proof (induction reqs arbitrary: now rule: rev_induct)
  case Nil
  show ?case by (simp add: rate_run_def budget_inv_def times_of_def)
next
  case (snoc r reqs)
  obtain s t where r: "r = (s, t)" by (cases r)
  obtain ws passed where run: "rate_run p reqs = (ws, passed)" by (cases "rate_run p reqs")
  obtain ws' passed' where step: "rate_step p (s, t) (ws, passed) = (ws', passed')"
    by (cases "rate_step p (s, t) (ws, passed)")
  have "budget_inv p t (js_get ws subject) (times_of subject passed)"
    using snoc.IH [of t] snoc.prems r run by (auto simp: sorted_append)
  from rate_step_budget [OF this assms(1,2) step]
  have "budget_inv p now (js_get ws' subject) (times_of subject passed')"
    by (rule budget_later) (use snoc.prems(2) r in simp)
  moreover have "rate_run p (reqs @ [r]) = (ws', passed')" using run step r by (simp add: rate_run_def)
  ultimately show ?case by simp
qed

text \<open>The two halves of the budget, for a policy of positive numbers.\<close>

lemma rate_run_double_budget:
  assumes "0 < rp_max_requests p" "0 < rp_window_ms p"
    and "sorted (map snd (reqs :: (string \<times> int) list))"
    and "rate_run p reqs = (ws, passed)"
  shows "int (allowed_between subject t (t + rp_window_ms p) passed) \<le> 2 * rp_max_requests p"
proof -
  let ?now = "Max (insert 0 (snd ` set reqs))"
  have "\<forall>r \<in> set reqs. snd r \<le> ?now" by simp
  then have "budget_inv p ?now (js_get ws subject) (times_of subject passed)"
    using rate_run_budget [OF assms(1-3)] assms(4) by fastforce
  then show ?thesis
    using assms(1,2) unfolding allowed_between_times
    by (cases "js_get ws subject") (simp_all add: budget_inv_def)
qed

lemma rate_run_passes:
  "allowed_between subject a b (snd (rate_run p reqs)) \<le> allowed_between subject a b reqs"
proof (induction reqs rule: rev_induct)
  case (snoc r reqs)
  then show ?case by (cases r) (auto simp: rate_run_def rate_step_def le_SucI split: prod.split)
qed (simp add: rate_run_def allowed_between_def)

lemma rate_refusal_spent:
  assumes pos: "0 < rp_max_requests p" "0 < rp_window_ms p"
    and "sorted (map snd (reqs :: (string \<times> int) list))" and "\<forall>r \<in> set reqs. snd r \<le> now"
    and "rate_run p reqs = (ws, passed)"
  shows "rr_allowed (fst (rate_limit_consume p subject now ws))
     \<or> rp_max_requests p \<le> int (allowed_between subject (now + 1 - rp_window_ms p) (now + 1) passed)"
proof (cases "is_active_rate_limit_window (js_get ws subject) now")
  case False
  then show ?thesis using pos
    by (auto simp: rate_limit_consume_def current_window_def is_active_rate_limit_window_def Let_def
        split: option.splits)
next
  case True
  then obtain w where w: "js_get ws subject = Some w" "now < rw_reset_at w"
    by (auto simp: is_active_rate_limit_window_def split: option.splits)
  let ?ts = "times_of subject passed"
  have count: "rw_count w = count_from (rw_reset_at w - rp_window_ms p) ?ts"
    and "list_all (\<lambda>x. x \<le> now) ?ts"
    using rate_run_budget [OF pos assms(3,4), of subject] assms(5) w(1) by (simp_all add: budget_inv_def)
  then have "list_all (\<lambda>x. x < now + 1) ?ts" by (simp add: list_all_iff)
  from count_from_in [OF this, of "now + 1 - rp_window_ms p" "rw_reset_at w - rp_window_ms p"]
  have "rw_count w \<le> int (allowed_between subject (now + 1 - rp_window_ms p) (now + 1) passed)"
    using count w(2) by (simp add: allowed_between_times)
  then show ?thesis using True w(1)
    by (auto simp: rate_limit_consume_def current_window_def Let_def)
qed

text \<open>
  C36. The request budget. Let requests of any API keys arrive in the order of the clock: in
  every interval of one window's length, wherever it starts, at most twice the budget of a key is
  let through (once the budget per window, and an interval meets two windows at most); and a
  request is refused only if the full budget of its key was let through within the last window's
  length, itself included.
\<close>

theorem rate_limit_budget:
  assumes "normalize_rate_limit_policy max_requests window_ms = Inr p"
    and "sorted (map snd reqs)" and "\<forall>r \<in> set reqs. snd r \<le> now"
    and "rate_run p reqs = (ws, passed)"
  shows "(\<forall>subject t. int (allowed_between subject t (t + rp_window_ms p) passed) \<le> 2 * rp_max_requests p)
    \<and> (\<forall>subject. rr_allowed (fst (rate_limit_consume p subject now ws))
         \<or> rp_max_requests p \<le> int (allowed_between subject (now + 1 - rp_window_ms p) (now + 1) passed))"
proof -
  have pos: "0 < rp_max_requests p" "0 < rp_window_ms p"
    using assms(1)
    by (auto simp: normalize_rate_limit_policy_def assert_positive_integer_def res_simps split: js_num.splits if_splits)
  show ?thesis
    using rate_run_double_budget [OF pos assms(2,4)] rate_refusal_spent [OF pos assms(2-4)] by blast
qed

text \<open>A burst around the end of a window takes twice the budget, and no more.\<close>

theorem rate_limit_budget_witness:
  "let p = \<lparr>rp_max_requests = 2, rp_window_ms = 10\<rparr>;
     reqs = [(''k'', 0), (''k'', 9), (''k'', 9), (''k'', 10), (''k'', 11), (''k'', 12)];
     (ws, passed) = rate_run p reqs in
   (\<forall>subject t. int (allowed_between subject t (t + 10) passed) \<le> 4)
   \<and> allowed_between ''k'' 2 12 passed = 3 \<and> \<not> rr_allowed (fst (rate_limit_consume p ''k'' 12 ws))"
proof -
  let ?p = "\<lparr>rp_max_requests = 2, rp_window_ms = 10\<rparr>"
  let ?reqs = "[(''k'', 0), (''k'', 9), (''k'', 9), (''k'', 10), (''k'', 11), (''k'', 12)] :: (string \<times> int) list"
  have norm: "normalize_rate_limit_policy (JInt 2) (JInt 10) = Inr ?p" by code_simp
  obtain ws passed where run: "rate_run ?p ?reqs = (ws, passed)" by (cases "rate_run ?p ?reqs")
  have "(\<lambda>(ws, passed). allowed_between ''k'' 2 12 passed = 3 \<and> \<not> rr_allowed (fst (rate_limit_consume ?p ''k'' 12 ws)))
      (rate_run ?p ?reqs)" by code_simp
  then have shape: "allowed_between ''k'' 2 12 passed = 3" "\<not> rr_allowed (fst (rate_limit_consume ?p ''k'' 12 ws))"
    by (simp_all add: run)
  show ?thesis using rate_limit_budget [OF norm, of ?reqs 12 ws passed] run shape by simp
qed

end
