(* ===== verification/Access_Control.thy ===== *)
theory Access_Control
  imports Value_Objects Rate_Limiter Effects
begin

text \<open>
  API keys and their administration: \<^verbatim>\<open>access-control/src/domain\<close>, the service of
  \<^verbatim>\<open>application/access-control-service.ts\<close> and the tables of
  \<^verbatim>\<open>platform/src/metadata-store.ts\<close> behind it. The rows of \<^verbatim>\<open>api_keys\<close> are in the order of their
  internal ids. A handler is an effect on the tables; each of its reads and writes is one
  statement of the database, so the checks of a handler and its write are separate steps, which
  matters when two requests interleave.
\<close>

section \<open>Keys\<close>

datatype api_key_role = Admin | Member

fun role_str :: "api_key_role \<Rightarrow> string" where
  "role_str Admin = ''admin''"
| "role_str Member = ''member''"

definition parse_api_key_role :: "string \<Rightarrow> api_key_role res" where
  "parse_api_key_role v =
     (let normalized = js_lower (js_trim v) in
      if normalized = ''admin'' then Inr Admin
      else if normalized = ''member'' then Inr Member
      else Inl (ValidationError (''invalid parameter for `role`: '' @ v)))"

record api_key_record =
  ak_api_key_id :: int
  ak_id :: string
  ak_role :: api_key_role
  ak_secret_key_hash :: string
  ak_is_active :: bool
  ak_updated_at :: "string option"
  ak_created_at :: string

record create_api_key_input =
  ci_id :: "string option"
  ci_role :: "string option"

record api_key_response =
  kr_id :: string
  kr_is_active :: bool
  kr_role :: api_key_role
  kr_created_at :: string
  kr_key :: "string option"

text \<open>What a request takes from outside: a random UUID, random bytes in hexadecimal and the time.\<close>

record api_entropy =
  en_uuid :: string
  en_token :: string
  en_now :: string

definition create_api_key_id :: "string option \<Rightarrow> string \<Rightarrow> string res" where
  "create_api_key_id key uuid =
     (case key of
        None \<Rightarrow> and_then (external_id_create ''key'' None uuid) (\<lambda>e. Inr (ei_value e))
      | Some i \<Rightarrow>
          if i = [] then and_then (external_id_create ''key'' None uuid) (\<lambda>e. Inr (ei_value e))
          else and_then (external_id_parse i (Some ''key'')) (\<lambda>e. Inr (ei_value e)))"

definition api_key_create ::
  "(string \<Rightarrow> string) \<Rightarrow> api_entropy \<Rightarrow> create_api_key_input \<Rightarrow> (api_key_record \<times> string) res" where
  "api_key_create kdf en inp =
     (let secret = generate_api_secret kdf (en_token en) in
      and_then (create_api_key_id (ci_id inp) (en_uuid en)) (\<lambda>key.
      and_then (parse_api_key_role (case ci_role inp of None \<Rightarrow> ''member'' | Some r \<Rightarrow> r)) (\<lambda>role.
      Inr (\<lparr>ak_api_key_id = 0, ak_id = key, ak_role = role, ak_secret_key_hash = as_hash secret,
             ak_is_active = True, ak_updated_at = None, ak_created_at = en_now en\<rparr>,
           as_value secret))))"

definition set_api_key_is_active :: "string \<Rightarrow> api_key_record \<Rightarrow> bool \<Rightarrow> api_key_record" where
  "set_api_key_is_active now r active = r\<lparr>ak_is_active := active, ak_updated_at := Some now\<rparr>"

definition set_api_key_role :: "string \<Rightarrow> api_key_record \<Rightarrow> string \<Rightarrow> api_key_record res" where
  "set_api_key_role now r role =
     and_then (parse_api_key_role role) (\<lambda>parsed. Inr (r\<lparr>ak_role := parsed, ak_updated_at := Some now\<rparr>))"

definition api_key_to_response :: "api_key_record \<Rightarrow> string option \<Rightarrow> api_key_response" where
  "api_key_to_response r token =
     \<lparr>kr_id = ak_id r, kr_is_active = ak_is_active r, kr_role = ak_role r,
      kr_created_at = ak_created_at r,
      kr_key = (case token of None \<Rightarrow> None | Some t \<Rightarrow> if t = [] then None else Some t)\<rparr>"

definition require_api_key :: "api_key_record option \<Rightarrow> api_key_record res" where
  "require_api_key r = (case r of None \<Rightarrow> Inl (NotFoundError ''not found'') | Some x \<Rightarrow> Inr x)"

section \<open>Audit events\<close>

datatype audit_outcome = Success | Failure | Denied | Rate_Limited

record audit_event_record =
  av_audit_event_id :: int
  av_id :: string
  av_actor_api_key_id :: int
  av_actor_api_key :: string
  av_actor_role :: api_key_role
  av_created_at :: string
  av_error :: "string option"
  av_ip :: "string option"
  av_method :: string
  av_operation :: string
  av_outcome :: audit_outcome
  av_owner_api_key :: "string option"
  av_owner_api_key_id :: "int option"
  av_path :: string
  av_request_id :: string
  av_resource_ids :: "string list"
  av_resource_ids_json :: string
  av_resource_type :: string
  av_route :: string
  av_status_code :: int
  av_user_agent :: "string option"

record audit_event_filters =
  af_actor :: "string option"
  af_from :: "string option"
  af_method :: "string option"
  af_offset :: "page_parameter option"
  af_limit :: "page_parameter option"
  af_outcome :: "audit_outcome option"
  af_resource_id :: "string option"
  af_resource_type :: "string option"
  af_status_code :: "int option"
  af_to :: "string option"

record audit_event_response =
  ar_id :: string
  ar_actor_id :: string
  ar_actor_role :: api_key_role
  ar_method :: string
  ar_path :: string
  ar_route :: string
  ar_operation :: string
  ar_resource_type :: string
  ar_resource_ids :: "string list"
  ar_owner :: "string option"
  ar_status_code :: int
  ar_outcome :: audit_outcome
  ar_error :: "string option"
  ar_request_id :: string
  ar_ip :: "string option"
  ar_user_agent :: "string option"
  ar_created_at :: string

definition audit_event_to_response :: "audit_event_record \<Rightarrow> audit_event_response" where
  "audit_event_to_response r =
     \<lparr>ar_id = av_id r, ar_actor_id = av_actor_api_key r, ar_actor_role = av_actor_role r,
      ar_method = av_method r, ar_path = av_path r, ar_route = av_route r,
      ar_operation = av_operation r, ar_resource_type = av_resource_type r,
      ar_resource_ids = av_resource_ids r,
      ar_owner = (case av_owner_api_key r of None \<Rightarrow> None | Some o' \<Rightarrow> if o' = [] then None else Some o'),
      ar_status_code = av_status_code r, ar_outcome = av_outcome r, ar_error = av_error r,
      ar_request_id = av_request_id r, ar_ip = av_ip r, ar_user_agent = av_user_agent r,
      ar_created_at = av_created_at r\<rparr>"

section \<open>The tables\<close>

record key_store =
  ks_keys :: "api_key_record list"
  ks_next_id :: int
  ks_events :: "audit_event_record list"
  ks_next_event_id :: int

definition count_api_keys :: "key_store \<Rightarrow> int" where
  "count_api_keys s = int (length (ks_keys s))"

definition count_active_admin_api_keys :: "key_store \<Rightarrow> int" where
  "count_active_admin_api_keys s =
     int (length (filter (\<lambda>r. ak_role r = Admin \<and> ak_is_active r) (ks_keys s)))"

definition get_api_key_by_id :: "string \<Rightarrow> key_store \<Rightarrow> api_key_record option" where
  "get_api_key_by_id key s = find (\<lambda>r. ak_id r = key) (ks_keys s)"

definition get_api_key_by_hash :: "string \<Rightarrow> key_store \<Rightarrow> api_key_record option" where
  "get_api_key_by_hash h s = find (\<lambda>r. ak_secret_key_hash r = h) (ks_keys s)"

definition get_api_key_by_internal_id :: "int \<Rightarrow> key_store \<Rightarrow> api_key_record option" where
  "get_api_key_by_internal_id i s = find (\<lambda>r. ak_api_key_id r = i) (ks_keys s)"

text \<open>
  The ids and the hashes are unique columns; a violation is reported as a failed query
  (\<^verbatim>\<open>metadataInfrastructureMessage\<close> finds no known phrase in it).
\<close>

definition insert_api_key :: "api_key_record \<Rightarrow> (key_store, unit) eff" where
  "insert_api_key r s =
     (if \<exists>x \<in> set (ks_keys s). ak_id x = ak_id r \<or> ak_secret_key_hash x = ak_secret_key_hash r
      then throw (InfrastructureError ''metadata query failed'') s
      else change (\<lambda>s. s\<lparr>ks_keys := ks_keys s @ [r\<lparr>ak_api_key_id := ks_next_id s\<rparr>],
                          ks_next_id := ks_next_id s + 1\<rparr>) s)"

definition assert_found :: "'a option \<Rightarrow> 'a res" where
  "assert_found r = (case r of None \<Rightarrow> Inl (GenericError ''expected inserted row'') | Some x \<Rightarrow> Inr x)"

definition create_api_key :: "api_key_record \<Rightarrow> (key_store, api_key_record) eff" where
  "create_api_key r =
     and_do (insert_api_key r)
       (then_do (get_field (get_api_key_by_id (ak_id r))) (\<lambda>row. lift_res (assert_found row)))"

text \<open>One transaction under a lock: the count and the insertion are one step of the database.\<close>

definition create_bootstrap_api_key :: "api_key_record \<Rightarrow> (key_store, api_key_record option) eff" where
  "create_bootstrap_api_key r =
     then_do (get_field count_api_keys) (\<lambda>n.
     if 0 < n then ret None
     else and_do (insert_api_key r)
       (then_do (get_field (get_api_key_by_id (ak_id r))) (\<lambda>row.
        then_do (lift_res (assert_found row)) (\<lambda>x. ret (Some x)))))"

definition list_api_keys :: "int \<Rightarrow> int option \<Rightarrow> key_store \<Rightarrow> api_key_record list" where
  "list_api_keys offset limit s =
     (let rows = drop (nat offset) (ks_keys s) in
      case limit of None \<Rightarrow> rows | Some n \<Rightarrow> take (nat n) rows)"

definition update_api_key :: "api_key_record \<Rightarrow> key_store \<Rightarrow> key_store" where
  "update_api_key r s =
     s\<lparr>ks_keys := map (\<lambda>x. if ak_id x = ak_id r
         then x\<lparr>ak_secret_key_hash := ak_secret_key_hash r, ak_is_active := ak_is_active r,
                ak_role := ak_role r, ak_updated_at := ak_updated_at r\<rparr> else x) (ks_keys s)\<rparr>"

definition delete_api_keys :: "string list \<Rightarrow> key_store \<Rightarrow> key_store" where
  "delete_api_keys ids s =
     (if ids = [] then s else s\<lparr>ks_keys := filter (\<lambda>r. ak_id r \<notin> set ids) (ks_keys s)\<rparr>)"

definition create_audit_event :: "audit_event_record \<Rightarrow> key_store \<Rightarrow> key_store" where
  "create_audit_event e s =
     s\<lparr>ks_events := ks_events s @ [e\<lparr>av_audit_event_id := ks_next_event_id s\<rparr>],
       ks_next_event_id := ks_next_event_id s + 1\<rparr>"

text \<open>
  Texts compare exactly and byte by byte, as in SQLite; the texts ordered here are time stamps.
\<close>

fun text_before :: "string \<Rightarrow> string \<Rightarrow> bool" where
  "text_before xs [] = False"
| "text_before [] (y # ys) = True"
| "text_before (x # xs) (y # ys) = (char_code x < char_code y \<or> (x = y \<and> text_before xs ys))"

definition delete_audit_events_before :: "string \<Rightarrow> key_store \<Rightarrow> key_store" where
  "delete_audit_events_before cutoff s =
     s\<lparr>ks_events := filter (\<lambda>e. \<not> text_before (av_created_at e) cutoff) (ks_events s)\<rparr>"

text \<open>An absent or empty text filter does not apply.\<close>

definition text_filter :: "string option \<Rightarrow> (string \<Rightarrow> bool) \<Rightarrow> bool" where
  "text_filter f p = (case f of None \<Rightarrow> True | Some v \<Rightarrow> v = [] \<or> p v)"

definition value_filter :: "'a option \<Rightarrow> 'a \<Rightarrow> bool" where
  "value_filter f x = (case f of None \<Rightarrow> True | Some v \<Rightarrow> v = x)"

text \<open>\<open>like\<close> is the \<^verbatim>\<open>LIKE\<close> of the database, whose treatment of case depends on the dialect.\<close>

definition audit_event_matches ::
  "(string \<Rightarrow> string \<Rightarrow> bool) \<Rightarrow> audit_event_filters \<Rightarrow> int option \<Rightarrow> audit_event_record \<Rightarrow> bool" where
  "audit_event_matches like f actor_api_key_id e \<longleftrightarrow>
     text_filter (af_actor f) (\<lambda>v. av_actor_api_key e = v)
     \<and> value_filter actor_api_key_id (av_actor_api_key_id e)
     \<and> text_filter (af_from f) (\<lambda>v. \<not> text_before (av_created_at e) v)
     \<and> text_filter (af_to f) (\<lambda>v. \<not> text_before v (av_created_at e))
     \<and> text_filter (af_method f) (\<lambda>v. av_method e = v)
     \<and> value_filter (af_outcome f) (av_outcome e)
     \<and> text_filter (af_resource_type f) (\<lambda>v. av_resource_type e = v)
     \<and> value_filter (af_status_code f) (av_status_code e)
     \<and> text_filter (af_resource_id f) (\<lambda>v. like (av_resource_ids_json e) (''%'' @ v @ ''%''))"

fun insert_event :: "audit_event_record \<Rightarrow> audit_event_record list \<Rightarrow> audit_event_record list" where
  "insert_event e [] = [e]"
| "insert_event e (x # xs) =
     (if text_before (av_created_at x) (av_created_at e)
         \<or> (av_created_at x = av_created_at e \<and> av_audit_event_id x < av_audit_event_id e)
      then e # x # xs else x # insert_event e xs)"

text \<open>\<^verbatim>\<open>ORDER BY created_at DESC, audit_event_id DESC\<close>.\<close>

definition newest_first :: "audit_event_record list \<Rightarrow> audit_event_record list" where
  "newest_first es = fold insert_event es []"

definition list_audit_events_rows ::
  "(string \<Rightarrow> string \<Rightarrow> bool) \<Rightarrow> audit_event_filters \<Rightarrow> int option \<Rightarrow> int \<Rightarrow> int \<Rightarrow> key_store
     \<Rightarrow> audit_event_record list" where
  "list_audit_events_rows like f actor offset limit s =
     take (nat limit) (drop (nat offset)
       (newest_first (filter (audit_event_matches like f actor) (ks_events s))))"

end
