(* ===== verification/Access_Service.thy ===== *)
theory Access_Service
  imports Access_Control
begin

text \<open>
  The service \<^verbatim>\<open>access-control-service.ts\<close>: creation, update and deletion of API keys by
  administrators, authentication and the audit trail. The update and the deletion of keys check
  first and write later, in separate statements; the checks are definitions of their own so that
  two requests can be interleaved.
\<close>

section \<open>Actors and checks\<close>

record authenticated_api_key =
  aa_api_key_id :: int
  aa_id :: string
  aa_role :: api_key_role

definition require_authenticated_api_key :: "authenticated_api_key option \<Rightarrow> authenticated_api_key res" where
  "require_authenticated_api_key actor =
     (case actor of None \<Rightarrow> Inl (UnauthorizedError ''unauthorized'') | Some a \<Rightarrow> Inr a)"

definition require_admin_role :: "authenticated_api_key \<Rightarrow> unit res" where
  "require_admin_role actor =
     (if aa_role actor \<noteq> Admin then Inl (ForbiddenError ''forbidden'') else Inr ())"

definition require_admin_api_key :: "authenticated_api_key option \<Rightarrow> unit res" where
  "require_admin_api_key actor = and_then (require_authenticated_api_key actor) require_admin_role"

definition is_active_admin_api_key :: "api_key_record \<Rightarrow> bool" where
  "is_active_admin_api_key r \<longleftrightarrow> ak_is_active r \<and> ak_role r = Admin"

definition removes_active_admin_api_key :: "api_key_record \<Rightarrow> api_key_record \<Rightarrow> bool" where
  "removes_active_admin_api_key current updated \<longleftrightarrow>
     is_active_admin_api_key current \<and> \<not> is_active_admin_api_key updated"

definition is_active_admin_api_key_record :: "api_key_record option \<Rightarrow> bool" where
  "is_active_admin_api_key_record r = (case r of None \<Rightarrow> False | Some x \<Rightarrow> is_active_admin_api_key x)"

definition count_active_admins :: "api_key_record option list \<Rightarrow> int" where
  "count_active_admins rs = int (length (filter is_active_admin_api_key_record rs))"

definition removes_last_active_admin_api_key :: "int \<Rightarrow> int \<Rightarrow> bool" where
  "removes_last_active_admin_api_key deleting active \<longleftrightarrow> 0 < deleting \<and> active - deleting \<le> 0"

definition last_admin_error :: js_error where
  "last_admin_error = ValidationError ''cannot remove the last active admin API key''"

definition assert_all_api_keys_found :: "api_key_record option list \<Rightarrow> unit res" where
  "assert_all_api_keys_found rs = (if list_ex Option.is_none rs then Inl (NotFoundError ''not found'') else Inr ())"

definition create_api_key_role :: "string option \<Rightarrow> bool \<Rightarrow> api_key_role res" where
  "create_api_key_role role has_configured_keys =
     (if \<not> has_configured_keys then Inr Admin
      else parse_api_key_role (case role of None \<Rightarrow> ''member'' | Some r \<Rightarrow> r))"

definition bounded_page :: "page_parameter option \<Rightarrow> page_parameter option \<Rightarrow> (int \<times> int) res" where
  "bounded_page offset limit =
     and_then (parse_bounded_non_negative_integer offset (Some 0) ''offset'' max_page_offset) (\<lambda>o'.
     and_then (parse_bounded_non_negative_integer limit (Some default_page_limit) ''limit'' max_page_limit) (\<lambda>l.
     Inr (case o' of None \<Rightarrow> 0 | Some i \<Rightarrow> i, case l of None \<Rightarrow> default_page_limit | Some i \<Rightarrow> i)))"

section \<open>Creating keys\<close>

definition has_configured_keys :: "key_store \<Rightarrow> bool" where
  "has_configured_keys s \<longleftrightarrow> 0 < count_api_keys s"

definition assert_can_create_key :: "bool \<Rightarrow> authenticated_api_key option \<Rightarrow> unit res" where
  "assert_can_create_key configured actor = (if configured then require_admin_api_key actor else Inr ())"

definition assert_api_key_id_does_not_exist :: "string \<Rightarrow> (key_store, unit) eff" where
  "assert_api_key_id_does_not_exist key =
     then_do (get_field (get_api_key_by_id key)) (\<lambda>existing.
     if existing \<noteq> None then throw (ValidationError (''invalid parameter for `id`: '' @ key)) else ret ())"

definition assert_api_key_id_available :: "string option \<Rightarrow> (key_store, unit) eff" where
  "assert_api_key_id_available key =
     (case key of
        None \<Rightarrow> ret ()
      | Some k \<Rightarrow>
          if k = [] then ret ()
          else then_do (lift_res (external_id_parse k (Some ''key''))) (\<lambda>_. assert_api_key_id_does_not_exist k))"

definition create_bootstrap_key ::
  "(string \<Rightarrow> string) \<Rightarrow> api_entropy \<Rightarrow> create_api_key_input \<Rightarrow> (key_store, api_key_response) eff" where
  "create_bootstrap_key kdf en inp =
     and_do (assert_api_key_id_available (ci_id inp)) (
     then_do (lift_res (api_key_create kdf en (inp\<lparr>ci_role := Some ''admin''\<rparr>))) (\<lambda>(r, token).
     then_do (create_bootstrap_api_key r) (\<lambda>result.
     case result of
       None \<Rightarrow> throw (UnauthorizedError ''unauthorized'')
     | Some row \<Rightarrow> ret (api_key_to_response row (Some token)))))"

definition create_key ::
  "(string \<Rightarrow> string) \<Rightarrow> api_entropy \<Rightarrow> create_api_key_input \<Rightarrow> authenticated_api_key option
     \<Rightarrow> (key_store, api_key_response) eff" where
  "create_key kdf en inp actor =
     (case actor of
        None \<Rightarrow> create_bootstrap_key kdf en inp
      | Some a \<Rightarrow>
          then_do (get_field has_configured_keys) (\<lambda>configured.
          and_do (lift_res (assert_can_create_key configured (Some a))) (
          and_do (assert_api_key_id_available (ci_id inp)) (
          then_do (lift_res (create_api_key_role (ci_role inp) configured)) (\<lambda>role.
          then_do (lift_res (api_key_create kdf en (inp\<lparr>ci_role := Some (role_str role)\<rparr>))) (\<lambda>(r, token).
          then_do (create_api_key r) (\<lambda>row.
          ret (api_key_to_response row (Some token)))))))))"

section \<open>Reading keys\<close>

definition list_keys ::
  "authenticated_api_key \<Rightarrow> page_parameter option \<Rightarrow> page_parameter option
     \<Rightarrow> (key_store, api_key_response list) eff" where
  "list_keys actor offset limit =
     and_do (lift_res (require_admin_api_key (Some actor))) (
     then_do (lift_res (bounded_page offset limit)) (\<lambda>(o', l).
     then_do (get_field (list_api_keys o' (Some l))) (\<lambda>rows.
     ret (map (\<lambda>r. api_key_to_response r None) rows))))"

definition get_key :: "authenticated_api_key \<Rightarrow> string \<Rightarrow> (key_store, api_key_response) eff" where
  "get_key actor key =
     and_do (lift_res (require_admin_api_key (Some actor))) (
     then_do (get_field (get_api_key_by_id key)) (\<lambda>row.
     then_do (lift_res (require_api_key row)) (\<lambda>r. ret (api_key_to_response r None))))"

section \<open>Changing keys\<close>

record update_key_input =
  ui_is_active :: "bool option"
  ui_role :: "string option"

text \<open>
  \<open>None\<close> is the record object itself, untouched; the code compares the objects to see whether
  there is anything to write.
\<close>

definition apply_api_key_role :: "string \<Rightarrow> api_key_record \<Rightarrow> string option \<Rightarrow> api_key_record option res" where
  "apply_api_key_role now current role =
     (case role of
        None \<Rightarrow> Inr None
      | Some r \<Rightarrow> if r = [] then Inr None
          else and_then (set_api_key_role now current r) (\<lambda>x. Inr (Some x)))"

definition apply_api_key_update ::
  "string \<Rightarrow> api_key_record \<Rightarrow> update_key_input \<Rightarrow> api_key_record option res" where
  "apply_api_key_update now current inp =
     and_then (apply_api_key_role now current (ui_role inp)) (\<lambda>r.
     Inr (case ui_is_active inp of
            None \<Rightarrow> r
          | Some b \<Rightarrow> Some (set_api_key_is_active now (case r of None \<Rightarrow> current | Some x \<Rightarrow> x) b)))"

definition assert_has_another_active_admin_api_key :: "(key_store, unit) eff" where
  "assert_has_another_active_admin_api_key =
     then_do (get_field count_active_admin_api_keys) (\<lambda>n. if 1 < n then ret () else throw last_admin_error)"

definition assert_does_not_remove_last_active_admin ::
  "api_key_record \<Rightarrow> api_key_record \<Rightarrow> (key_store, unit) eff" where
  "assert_does_not_remove_last_active_admin current updated =
     (if \<not> removes_active_admin_api_key current updated then ret ()
      else assert_has_another_active_admin_api_key)"

text \<open>Everything of \<^verbatim>\<open>updateKey\<close> up to the write, and the write.\<close>

definition update_key_checked ::
  "string \<Rightarrow> authenticated_api_key \<Rightarrow> string \<Rightarrow> update_key_input \<Rightarrow> (key_store, api_key_record option) eff" where
  "update_key_checked now actor key inp =
     and_do (lift_res (require_admin_api_key (Some actor))) (
     then_do (get_field (get_api_key_by_id key)) (\<lambda>row.
     then_do (lift_res (require_api_key row)) (\<lambda>current.
     then_do (lift_res (apply_api_key_update now current inp)) (\<lambda>updated.
     and_do (assert_does_not_remove_last_active_admin current (case updated of None \<Rightarrow> current | Some u \<Rightarrow> u))
       (ret updated)))))"

definition update_api_key_if_changed :: "api_key_record option \<Rightarrow> (key_store, unit) eff" where
  "update_api_key_if_changed updated =
     (case updated of None \<Rightarrow> ret () | Some u \<Rightarrow> change (update_api_key u))"

definition update_key ::
  "string \<Rightarrow> authenticated_api_key \<Rightarrow> string \<Rightarrow> update_key_input \<Rightarrow> (key_store, unit) eff" where
  "update_key now actor key inp = then_do (update_key_checked now actor key inp) update_api_key_if_changed"

definition assert_delete_keeps_active_admin :: "api_key_record option list \<Rightarrow> (key_store, unit) eff" where
  "assert_delete_keeps_active_admin rows =
     then_do (get_field count_active_admin_api_keys) (\<lambda>active.
     if removes_last_active_admin_api_key (count_active_admins rows) active then throw last_admin_error else ret ())"

definition assert_can_delete_keys :: "string list \<Rightarrow> (key_store, unit) eff" where
  "assert_can_delete_keys ids =
     then_do (get_field (\<lambda>s. map (\<lambda>key. get_api_key_by_id key s) (unique ids))) (\<lambda>rows.
     and_do (lift_res (assert_all_api_keys_found rows)) (assert_delete_keeps_active_admin rows))"

definition delete_keys :: "authenticated_api_key \<Rightarrow> string list \<Rightarrow> (key_store, unit) eff" where
  "delete_keys actor ids =
     and_do (lift_res (require_admin_api_key (Some actor))) (
     and_do (assert_can_delete_keys ids) (change (delete_api_keys ids)))"

section \<open>Authentication and the audit trail\<close>

definition require_api_token_header :: "string option \<Rightarrow> string res" where
  "require_api_token_header token =
     (case token of
        None \<Rightarrow> Inl (UnauthorizedError ''unauthorized'')
      | Some t \<Rightarrow> if js_trim t = [] then Inl (UnauthorizedError ''unauthorized'') else Inr (js_trim t))"

definition is_authenticating_api_key :: "api_key_record option \<Rightarrow> bool" where
  "is_authenticating_api_key r = (case r of None \<Rightarrow> False | Some x \<Rightarrow> ak_is_active x)"

definition assert_api_key_authenticates :: "api_key_record option \<Rightarrow> api_key_record res" where
  "assert_api_key_authenticates r =
     (case r of
        Some x \<Rightarrow> if is_authenticating_api_key r then Inr x else Inl (UnauthorizedError ''unauthorized'')
      | None \<Rightarrow> Inl (UnauthorizedError ''unauthorized''))"

definition authenticate ::
  "(string \<Rightarrow> string) \<Rightarrow> string option \<Rightarrow> (key_store, authenticated_api_key option) eff" where
  "authenticate kdf token =
     then_do (get_field has_configured_keys) (\<lambda>configured.
     if \<not> configured then ret None
     else
       then_do (lift_res (require_api_token_header token)) (\<lambda>t.
       then_do (get_field (get_api_key_by_hash (hash_from_token kdf t))) (\<lambda>row.
       then_do (lift_res (assert_api_key_authenticates row)) (\<lambda>r.
       ret (Some \<lparr>aa_api_key_id = ak_api_key_id r, aa_id = ak_id r, aa_role = ak_role r\<rparr>)))))"

definition consume_rate_limit ::
  "rate_limit_policy \<Rightarrow> int \<Rightarrow> authenticated_api_key \<Rightarrow> rate_limit_windows
     \<Rightarrow> rate_limit_result \<times> rate_limit_windows" where
  "consume_rate_limit p now actor ws = rate_limit_consume p (int_str (aa_api_key_id actor)) now ws"

definition list_audit_events ::
  "(string \<Rightarrow> string \<Rightarrow> bool) \<Rightarrow> authenticated_api_key \<Rightarrow> audit_event_filters
     \<Rightarrow> (key_store, audit_event_response list) eff" where
  "list_audit_events like actor f =
     then_do (lift_res (bounded_page (af_offset f) (af_limit f))) (\<lambda>(o', l).
     then_do (get_field (list_audit_events_rows like f
                (if aa_role actor = Admin then None else Some (aa_api_key_id actor)) o' l)) (\<lambda>rows.
     ret (map audit_event_to_response rows)))"

end
