(* ===== verification/Access_Requests.thy ===== *)
theory Access_Requests
  imports Access_Service
begin

text \<open>
  Requests to the key administration: the token check in front of every route
  (\<^verbatim>\<open>enforceApiTokenAuth\<close> of \<^verbatim>\<open>access-control/src/infrastructure/http.ts\<close>), the rate limit and the
  dispatch of \<^verbatim>\<open>apps/api/src/index.ts\<close> to the service. \<open>api_run\<close> handles a list of requests one
  after the other; the last section interleaves two of them.
\<close>

section \<open>The token check\<close>

record api_state =
  at_store :: key_store
  at_windows :: rate_limit_windows

record api_token_auth_result =
  au_key :: "authenticated_api_key option"
  au_rate_limit :: "rate_limit_result option"

definition on_store :: "(key_store, 'a) eff \<Rightarrow> (api_state, 'a) eff" where
  "on_store m s = (case m (at_store s) of (r, k) \<Rightarrow> (r, s\<lparr>at_store := k\<rparr>))"

definition strip_trailing_slash :: "string \<Rightarrow> string" where
  "strip_trailing_slash path = (if ends_with ''/'' path then butlast path else path)"

definition normalize_auth_path :: "string \<Rightarrow> string" where
  "normalize_auth_path path = (if path = ''/'' then path else strip_trailing_slash path)"

definition public_route_prefixes :: "string list" where
  "public_route_prefixes = [''/v1/heartbeat'', ''/v1/status'', ''/openapi'']"

definition is_public_route :: "string \<Rightarrow> bool" where
  "is_public_route path \<longleftrightarrow>
     path = ''/'' \<or> path = ''/up'' \<or> list_ex (\<lambda>p. starts_with p path) public_route_prefixes"

definition is_bootstrap_key_route :: "string \<Rightarrow> string \<Rightarrow> bool \<Rightarrow> bool" where
  "is_bootstrap_key_route rq_method path configured \<longleftrightarrow>
     js_upper rq_method = ''POST'' \<and> path = ''/v1/keys'' \<and> \<not> configured"

definition assert_has_configured_api_keys :: "bool \<Rightarrow> unit res" where
  "assert_has_configured_api_keys configured =
     (if \<not> configured then Inl (UnauthorizedError ''unauthorized'') else Inr ())"

definition require_authenticated_key :: "authenticated_api_key option \<Rightarrow> authenticated_api_key res" where
  "require_authenticated_key k =
     (case k of None \<Rightarrow> Inl (UnauthorizedError ''unauthorized'') | Some a \<Rightarrow> Inr a)"

fun authentication_error :: "js_error \<Rightarrow> js_error" where
  "authentication_error (UnauthorizedError m) = UnauthorizedError m"
| "authentication_error e = InfrastructureError ''authentication store unavailable''"

definition authenticate_or_throw ::
  "(string \<Rightarrow> string) \<Rightarrow> string option \<Rightarrow> (key_store, authenticated_api_key) eff" where
  "authenticate_or_throw kdf token =
     catch (then_do (authenticate kdf token) (\<lambda>k. lift_res (require_authenticated_key k)))
       (\<lambda>e. throw (authentication_error e))"

definition enforce_protected_api_token_auth ::
  "(string \<Rightarrow> string) \<Rightarrow> rate_limit_policy \<Rightarrow> int \<Rightarrow> string \<Rightarrow> string \<Rightarrow> string option
     \<Rightarrow> (api_state, api_token_auth_result) eff" where
  "enforce_protected_api_token_auth kdf p now rq_method path token =
     then_do (get_field (\<lambda>s. has_configured_keys (at_store s))) (\<lambda>configured.
     if is_bootstrap_key_route rq_method path configured
     then ret \<lparr>au_key = None, au_rate_limit = None\<rparr>
     else
       and_do (lift_res (assert_has_configured_api_keys configured)) (
       then_do (on_store (authenticate_or_throw kdf token)) (\<lambda>actor.
       then_do (get_field (\<lambda>s. consume_rate_limit p now actor (at_windows s))) (\<lambda>(r, ws).
       and_do (change (\<lambda>s. s\<lparr>at_windows := ws\<rparr>))
         (ret \<lparr>au_key = Some actor, au_rate_limit = Some r\<rparr>)))))"

definition enforce_api_token_auth ::
  "(string \<Rightarrow> string) \<Rightarrow> rate_limit_policy \<Rightarrow> int \<Rightarrow> string \<Rightarrow> string \<Rightarrow> string option
     \<Rightarrow> (api_state, api_token_auth_result) eff" where
  "enforce_api_token_auth kdf p now rq_method path token =
     (if is_public_route (normalize_auth_path path) then ret \<lparr>au_key = None, au_rate_limit = None\<rparr>
      else enforce_protected_api_token_auth kdf p now rq_method (normalize_auth_path path) token)"

section \<open>Filters of the audit events\<close>

record audit_event_query =
  aeq_actor :: "string option"
  aeq_from :: "string option"
  aeq_limit :: "string option"
  aeq_method :: "string option"
  aeq_offset :: "string option"
  aeq_outcome :: "audit_outcome option"
  aeq_resource_id :: "string option"
  aeq_resource_type :: "string option"
  aeq_status_code :: "string option"
  aeq_to :: "string option"

definition parse_numeric_filter :: "string option \<Rightarrow> string \<Rightarrow> int option res" where
  "parse_numeric_filter v field =
     (case v of None \<Rightarrow> Inr None
      | Some t \<Rightarrow>
          (case non_negative_integer_or_undefined (js_number t) of
             None \<Rightarrow> Inl (ValidationError (''invalid parameter for `'' @ field @ ''`: '' @ t))
           | Some i \<Rightarrow> Inr (Some i)))"

definition assign_audit_event_string_filter :: "string option \<Rightarrow> string option" where
  "assign_audit_event_string_filter v = (case v of None \<Rightarrow> None | Some t \<Rightarrow> if t = [] then None else Some t)"

text \<open>The numbers in the order of \<^verbatim>\<open>auditEventNumericFilterKeys\<close>.\<close>

definition audit_event_numeric_filters_from_query ::
  "audit_event_query \<Rightarrow> (int option \<times> int option \<times> int option) res" where
  "audit_event_numeric_filters_from_query q =
     and_then (parse_bounded_non_negative_integer (map_option Text_Param (aeq_limit q))
                 (Some default_page_limit) ''limit'' max_page_limit) (\<lambda>l.
     and_then (parse_bounded_non_negative_integer (map_option Text_Param (aeq_offset q))
                 (Some 0) ''offset'' max_page_offset) (\<lambda>o'.
     and_then (parse_numeric_filter (aeq_status_code q) ''statusCode'') (\<lambda>c.
     Inr (l, o', c))))"

definition audit_event_filters_from_query :: "audit_event_query \<Rightarrow> audit_event_filters res" where
  "audit_event_filters_from_query q =
     and_then (audit_event_numeric_filters_from_query q) (\<lambda>(l, o', c).
     Inr \<lparr>af_actor = assign_audit_event_string_filter (aeq_actor q),
          af_from = assign_audit_event_string_filter (aeq_from q),
          af_method = assign_audit_event_string_filter (aeq_method q),
          af_offset = map_option (\<lambda>i. Number_Param (JInt i)) o',
          af_limit = map_option (\<lambda>i. Number_Param (JInt i)) l,
          af_outcome = aeq_outcome q,
          af_resource_id = assign_audit_event_string_filter (aeq_resource_id q),
          af_resource_type = assign_audit_event_string_filter (aeq_resource_type q),
          af_status_code = c,
          af_to = assign_audit_event_string_filter (aeq_to q)\<rparr>)"

section \<open>Dispatch\<close>

datatype key_operation =
    Create_Key create_api_key_input
  | List_Keys "page_parameter option" "page_parameter option"
  | Get_Key string
  | Update_Key string update_key_input
  | Delete_Keys "string list"
  | List_Events audit_event_query

fun operation_route :: "key_operation \<Rightarrow> string \<times> string" where
  "operation_route (Create_Key _) = (''POST'', ''/v1/keys/'')"
| "operation_route (List_Keys _ _) = (''GET'', ''/v1/keys/'')"
| "operation_route (Get_Key key) = (''GET'', ''/v1/keys/'' @ key)"
| "operation_route (Update_Key key _) = (''PUT'', ''/v1/keys/'' @ key)"
| "operation_route (Delete_Keys _) = (''DELETE'', ''/v1/keys/'')"
| "operation_route (List_Events _) = (''GET'', ''/v1/audit/events'')"

datatype api_reply =
    Key_Created api_key_response
  | Keys_Listed "api_key_response list"
  | Key_Shown api_key_response
  | No_Content
  | Events_Listed "audit_event_response list"
  | Rate_Exceeded rate_limit_result

definition resolve_authenticated_api_key :: "authenticated_api_key option \<Rightarrow> authenticated_api_key res" where
  "resolve_authenticated_api_key actor =
     (case actor of
        None \<Rightarrow> Inl (InfrastructureError ''authenticated API key missing from request context'')
      | Some a \<Rightarrow> Inr a)"

fun dispatch ::
  "(string \<Rightarrow> string) \<Rightarrow> (string \<Rightarrow> string \<Rightarrow> bool) \<Rightarrow> api_entropy \<Rightarrow> authenticated_api_key option
     \<Rightarrow> key_operation \<Rightarrow> (key_store, api_reply) eff" where
  "dispatch kdf like en actor (Create_Key inp) =
     then_do (create_key kdf en inp actor) (\<lambda>k. ret (Key_Created k))"
| "dispatch kdf like en actor (List_Keys offset limit) =
     then_do (lift_res (bounded_page offset limit)) (\<lambda>(o', l).
     then_do (lift_res (resolve_authenticated_api_key actor)) (\<lambda>a.
     then_do (list_keys a (Some (Number_Param (JInt o'))) (Some (Number_Param (JInt l)))) (\<lambda>ks.
     ret (Keys_Listed ks))))"
| "dispatch kdf like en actor (Get_Key key) =
     then_do (lift_res (resolve_authenticated_api_key actor)) (\<lambda>a.
     then_do (get_key a key) (\<lambda>k. ret (Key_Shown k)))"
| "dispatch kdf like en actor (Update_Key key inp) =
     then_do (lift_res (resolve_authenticated_api_key actor)) (\<lambda>a.
     and_do (update_key (en_now en) a key inp) (ret No_Content))"
| "dispatch kdf like en actor (Delete_Keys ids) =
     then_do (lift_res (resolve_authenticated_api_key actor)) (\<lambda>a.
     and_do (delete_keys a ids) (ret No_Content))"
| "dispatch kdf like en actor (List_Events q) =
     then_do (lift_res (resolve_authenticated_api_key actor)) (\<lambda>a.
     then_do (lift_res (audit_event_filters_from_query q)) (\<lambda>f.
     then_do (list_audit_events like a f) (\<lambda>es. ret (Events_Listed es))))"

record api_environment =
  ae_kdf :: "string \<Rightarrow> string"
  ae_like :: "string \<Rightarrow> string \<Rightarrow> bool"
  ae_policy :: rate_limit_policy

record api_request =
  aq_token :: "string option"
  aq_operation :: key_operation
  aq_entropy :: api_entropy
  aq_time :: int

definition handle_rate_limit :: "rate_limit_result option \<Rightarrow> api_reply option" where
  "handle_rate_limit r =
     (case r of None \<Rightarrow> None | Some x \<Rightarrow> if rr_allowed x then None else Some (Rate_Exceeded x))"

definition handle_request :: "api_environment \<Rightarrow> api_request \<Rightarrow> (api_state, api_reply) eff" where
  "handle_request ae q =
     (let (rq_method, path) = operation_route (aq_operation q) in
      then_do (enforce_api_token_auth (ae_kdf ae) (ae_policy ae) (aq_time q) rq_method path (aq_token q))
        (\<lambda>auth.
      case handle_rate_limit (au_rate_limit auth) of
        Some limited \<Rightarrow> ret limited
      | None \<Rightarrow> on_store (dispatch (ae_kdf ae) (ae_like ae) (aq_entropy q) (au_key auth) (aq_operation q))))"

definition api_run :: "api_environment \<Rightarrow> api_request list \<Rightarrow> api_state \<Rightarrow> api_state" where
  "api_run ae qs s = fold (\<lambda>q s. snd (handle_request ae q s)) qs s"

definition empty_key_store :: key_store where
  "empty_key_store = \<lparr>ks_keys = [], ks_next_id = 1, ks_events = [], ks_next_event_id = 1\<rparr>"

definition empty_api_state :: api_state where
  "empty_api_state = \<lparr>at_store = empty_key_store, at_windows = []\<rparr>"

section \<open>What a handler may do to the keys\<close>

named_theorems eff_simps \<open>unfolding of effects\<close>
declare then_do_Inr [eff_simps] then_do_Inl [eff_simps] and_do_def [eff_simps] ret_def [eff_simps]
  throw_def [eff_simps] get_field_def [eff_simps] change_def [eff_simps] lift_res_def [eff_simps]

definition admins :: "key_store \<Rightarrow> api_key_record list" where
  "admins s = filter is_active_admin_api_key (ks_keys s)"

definition keys_ok :: "key_store \<Rightarrow> bool" where
  "keys_ok s \<longleftrightarrow> distinct (map ak_id (ks_keys s)) \<and> distinct (map ak_secret_key_hash (ks_keys s))
     \<and> distinct (map ak_api_key_id (ks_keys s)) \<and> list_all (\<lambda>r. ak_api_key_id r < ks_next_id s) (ks_keys s)"

definition admin_ok :: "key_store \<Rightarrow> bool" where
  "admin_ok s \<longleftrightarrow> keys_ok s \<and> (ks_keys s = [] \<or> admins s \<noteq> [])"

text \<open>The keys a step leaves behind, by what it did.\<close>

inductive key_change :: "key_store \<Rightarrow> key_store \<Rightarrow> bool" where
  same: "key_change s s"
| inserted: "\<lbrakk>\<forall>x \<in> set (ks_keys s). ak_id x \<noteq> ak_id r \<and> ak_secret_key_hash x \<noteq> ak_secret_key_hash r;
     ks_keys s = [] \<Longrightarrow> is_active_admin_api_key r\<rbrakk> \<Longrightarrow>
     key_change s (s\<lparr>ks_keys := ks_keys s @ [r\<lparr>ak_api_key_id := ks_next_id s\<rparr>], ks_next_id := ks_next_id s + 1\<rparr>)"
| updated: "\<lbrakk>get_api_key_by_id (ak_id u) s = Some r; ak_secret_key_hash u = ak_secret_key_hash r;
     removes_active_admin_api_key r u \<Longrightarrow> 1 < length (admins s)\<rbrakk> \<Longrightarrow> key_change s (update_api_key u s)"
| deleted: "\<lbrakk>\<forall>k \<in> set ids. get_api_key_by_id k s \<noteq> None;
     (\<forall>k \<in> set ids. \<forall>r. get_api_key_by_id k s = Some r \<longrightarrow> \<not> is_active_admin_api_key r)
     \<or> length (filter (\<lambda>k. is_active_admin_api_key_record (get_api_key_by_id k s)) (unique ids)) < length (admins s)\<rbrakk>
     \<Longrightarrow> key_change s (delete_api_keys ids s)"

lemma count_admins: "count_active_admin_api_keys s = int (length (admins s))"
proof -
  have "is_active_admin_api_key = (\<lambda>r. ak_role r = Admin \<and> ak_is_active r)"
    by (rule ext) (auto simp: is_active_admin_api_key_def)
  then show ?thesis by (simp add: count_active_admin_api_keys_def admins_def)
qed

lemma key_found:
  assumes "distinct (map ak_id (ks_keys s))"
  shows "get_api_key_by_id k s = Some r \<longleftrightarrow> r \<in> set (ks_keys s) \<and> ak_id r = k"
proof
  assume "get_api_key_by_id k s = Some r"
  then show "r \<in> set (ks_keys s) \<and> ak_id r = k" by (auto simp: get_api_key_by_id_def find_Some_iff)
next
  assume r: "r \<in> set (ks_keys s) \<and> ak_id r = k"
  then obtain x where x: "get_api_key_by_id k s = Some x"
    by (cases "get_api_key_by_id k s") (auto simp: get_api_key_by_id_def find_None_iff)
  then have "x \<in> set (ks_keys s)" "ak_id x = k" by (auto simp: get_api_key_by_id_def find_Some_iff)
  then show "get_api_key_by_id k s = Some r" using x r assms by (auto simp: distinct_map dest: inj_onD)
qed

lemma key_change_ok:
  assumes "key_change s s'" and "admin_ok s"
  shows "admin_ok s'"
  using assms
proof (cases rule: key_change.cases)
  case same
  then show ?thesis using assms(2) by simp
next
  case (inserted r)
  then show ?thesis using assms(2)
    by (force simp: admin_ok_def keys_ok_def admins_def list_all_iff is_active_admin_api_key_def)
next
  case (updated u r)
  let ?f = "\<lambda>x. if ak_id x = ak_id u
         then x\<lparr>ak_secret_key_hash := ak_secret_key_hash u, ak_is_active := ak_is_active u,
                ak_role := ak_role u, ak_updated_at := ak_updated_at u\<rparr> else x"
  have d: "distinct (map ak_id (ks_keys s))" using assms(2) by (simp add: admin_ok_def keys_ok_def)
  have r: "r \<in> set (ks_keys s)" "ak_id r = ak_id u" using updated(2) key_found [OF d] by auto
  have unique: "x = r" if "x \<in> set (ks_keys s)" "ak_id x = ak_id u" for x
    using that updated(2) key_found [OF d, of "ak_id u" x] by simp
  have same: "map ak_id (ks_keys s') = map ak_id (ks_keys s)"
    "map ak_secret_key_hash (ks_keys s') = map ak_secret_key_hash (ks_keys s)"
    "map ak_api_key_id (ks_keys s') = map ak_api_key_id (ks_keys s)"
    using unique updated(3) unfolding updated(1) update_api_key_def by auto
  have "list_all (\<lambda>r. ak_api_key_id r < ks_next_id s') (ks_keys s')
      \<longleftrightarrow> list_all (\<lambda>i. i < ks_next_id s') (map ak_api_key_id (ks_keys s'))"
    by (simp add: list_all_iff)
  moreover have "ks_next_id s' = ks_next_id s" by (simp add: updated(1) update_api_key_def)
  ultimately have "keys_ok s'" using assms(2) same by (simp add: admin_ok_def keys_ok_def list_all_iff)
  moreover have "admins s' \<noteq> []"
  proof -
    have "\<exists>x \<in> set (ks_keys s). is_active_admin_api_key (?f x)"
    proof (cases "removes_active_admin_api_key r u")
      case True
      then have "1 < length (admins s)" by (rule updated(4))
      then obtain x y ys where a: "admins s = x # y # ys"
        by (cases "admins s"; cases "tl (admins s)") auto
      have "distinct (map ak_id (admins s))" using d by (simp add: admins_def distinct_map_filter)
      then have "ak_id x \<noteq> ak_id y" using a by simp
      then consider "ak_id x \<noteq> ak_id u" | "ak_id y \<noteq> ak_id u" by metis
      then obtain z where "z \<in> {x, y}" "ak_id z \<noteq> ak_id u" by cases auto
      moreover have "x \<in> set (admins s)" "y \<in> set (admins s)" using a by simp_all
      ultimately show ?thesis by (auto simp: admins_def)
    next
      case False
      have "ks_keys s \<noteq> []" using r(1) by auto
      then obtain x where x: "x \<in> set (ks_keys s)" "is_active_admin_api_key x"
        using assms(2) by (auto simp: admin_ok_def admins_def filter_empty_conv)
      then have "is_active_admin_api_key (?f x)"
        using False unique by (auto simp: removes_active_admin_api_key_def is_active_admin_api_key_def)
      then show ?thesis using x(1) by blast
    qed
    then obtain x where "x \<in> set (ks_keys s)" "is_active_admin_api_key (?f x)" by blast
    moreover have "ks_keys s' = map ?f (ks_keys s)" by (simp add: updated(1) update_api_key_def)
    ultimately have "?f x \<in> set (admins s')" by (simp only: admins_def set_filter set_map) blast
    then show ?thesis by (metis empty_iff empty_set)
  qed
  ultimately show ?thesis by (simp add: admin_ok_def)
next
  case (deleted ids)
  have d: "distinct (map ak_id (ks_keys s))" using assms(2) by (simp add: admin_ok_def keys_ok_def)
  have "keys_ok s'" using assms(2) unfolding deleted(1) admin_ok_def keys_ok_def delete_api_keys_def
    by (auto simp: distinct_map_filter list_all_iff)
  moreover have "admins s' \<noteq> []" if "ks_keys s \<noteq> []"
  proof -
    have "\<exists>x \<in> set (admins s). ak_id x \<notin> set ids"
      using deleted(3)
    proof
      assume none: "\<forall>k \<in> set ids. \<forall>r. get_api_key_by_id k s = Some r \<longrightarrow> \<not> is_active_admin_api_key r"
      have "admins s \<noteq> []" using assms(2) that by (simp add: admin_ok_def)
      then obtain x where "x \<in> set (admins s)" by (cases "admins s") auto
      then show ?thesis using none key_found [OF d] by (auto simp: admins_def)
    next
      let ?deleted = "filter (\<lambda>k. is_active_admin_api_key_record (get_api_key_by_id k s)) (unique ids)"
      assume less: "length ?deleted < length (admins s)"
      have "length (map ak_id (admins s)) = card (ak_id ` set (admins s))"
        using distinct_card [OF distinct_map_filter [OF d, of is_active_admin_api_key]] by (simp only: admins_def set_map)
      moreover have "distinct ?deleted" by simp
      then have "length ?deleted = card (set ?deleted)" by (rule distinct_card [symmetric])
      ultimately have "\<not> ak_id ` set (admins s) \<subseteq> set ?deleted"
        using less by (metis card_mono finite_set length_map not_less)
      then obtain x where x: "x \<in> set (admins s)" "ak_id x \<notin> set ?deleted" by blast
      then have "get_api_key_by_id (ak_id x) s = Some x" using key_found [OF d] by (auto simp: admins_def)
      then have "ak_id x \<notin> set ids" using x by (auto simp: admins_def is_active_admin_api_key_record_def)
      then show ?thesis using x(1) by blast
    qed
    then obtain x where x: "x \<in> set (admins s)" "ak_id x \<notin> set ids" by blast
    then have "x \<in> set (admins s')" unfolding deleted(1) by (auto simp: admins_def delete_api_keys_def)
    then show ?thesis by (metis empty_iff empty_set)
  qed
  ultimately show ?thesis unfolding deleted(1)
    by (cases "ks_keys s = []") (simp_all add: admin_ok_def delete_api_keys_def)
qed

text \<open>Every handler makes one such change, or throws and changes nothing.\<close>

lemma update_key_change: "update_key now a key inp s = (r, s') \<Longrightarrow> key_change s s'"
proof (cases r)
  case (Inl e)
  assume "update_key now a key inp s = (r, s')"
  then have "s' = s" using Inl
    by (auto simp: update_key_def update_key_checked_def eff_simps update_api_key_if_changed_def
        assert_does_not_remove_last_active_admin_def assert_has_another_active_admin_api_key_def
        split: if_splits option.splits)
  then show ?thesis by (simp add: key_change.same)
next
  case (Inr x)
  assume "update_key now a key inp s = (r, s')"
  then obtain u where u: "update_key_checked now a key inp s = (Inr u, s)" "s' = snd (update_api_key_if_changed u s)"
    using Inr by (auto simp: update_key_def update_key_checked_def eff_simps
        assert_does_not_remove_last_active_admin_def assert_has_another_active_admin_api_key_def
        split: if_splits)
  show ?thesis
  proof (cases u)
    case None
    then show ?thesis using u(2) by (simp add: update_api_key_if_changed_def ret_def key_change.same)
  next
    case (Some v)
    obtain c where c: "get_api_key_by_id key s = Some c" "apply_api_key_update now c inp = Inr (Some v)"
      "removes_active_admin_api_key c v \<Longrightarrow> 1 < count_active_admin_api_keys s"
      using u(1) Some
      by (auto simp: update_key_checked_def eff_simps require_api_key_def
          assert_does_not_remove_last_active_admin_def assert_has_another_active_admin_api_key_def
          split: if_splits option.splits)
    have v: "ak_id v = ak_id c \<and> ak_secret_key_hash v = ak_secret_key_hash c"
      using c(2)
      by (auto simp: apply_api_key_update_def apply_api_key_role_def set_api_key_role_def res_simps
          set_api_key_is_active_def split: option.splits if_splits)
    moreover have "ak_id c = key" using c(1) by (auto simp: get_api_key_by_id_def find_Some_iff)
    ultimately have "key_change s (update_api_key v s)"
      using c(1,3) by (auto intro!: key_change.updated simp: count_admins)
    then show ?thesis using u(2) Some by (simp add: update_api_key_if_changed_def change_def)
  qed
qed

lemma delete_keys_change: "delete_keys a ids s = (r, s') \<Longrightarrow> key_change s s'"
proof -
  assume run: "delete_keys a ids s = (r, s')"
  let ?rows = "map (\<lambda>key. get_api_key_by_id key s) (unique ids)"
  show ?thesis
  proof (cases "assert_can_delete_keys ids s")
    case (Pair x t)
    have t: "t = s"
      using Pair by (cases x) (auto simp: assert_can_delete_keys_def assert_delete_keeps_active_admin_def
          eff_simps split: if_splits)
    show ?thesis
    proof (cases "require_admin_api_key (Some a)")
      case (Inl e)
      then have "s' = s" using run by (cases r) (auto simp: delete_keys_def eff_simps)
      then show ?thesis by (simp add: key_change.same)
    next
      case (Inr u)
      show ?thesis
      proof (cases x)
        case (Inl e)
        then have "s' = s" using run Inr Pair t by (cases r) (auto simp: delete_keys_def eff_simps)
        then show ?thesis by (simp add: key_change.same)
      next
        case ok: (Inr y)
        have found: "\<not> list_ex Option.is_none ?rows"
          and keeps: "\<not> removes_last_active_admin_api_key (count_active_admins ?rows) (count_active_admin_api_keys s)"
          using Pair ok t
          by (auto simp: assert_can_delete_keys_def assert_delete_keeps_active_admin_def eff_simps
              assert_all_api_keys_found_def split: if_splits)
        have rows: "count_active_admins ?rows
            = int (length (filter (\<lambda>k. is_active_admin_api_key_record (get_api_key_by_id k s)) (unique ids)))"
          by (simp add: count_active_admins_def filter_map comp_def)
        have "\<forall>k \<in> set ids. get_api_key_by_id k s \<noteq> None"
          using found by (simp add: list_ex_iff Option.is_none_def image_iff) (metis not_None_eq)
        moreover have "(\<forall>k \<in> set ids. \<forall>r. get_api_key_by_id k s = Some r \<longrightarrow> \<not> is_active_admin_api_key r)
            \<or> length (filter (\<lambda>k. is_active_admin_api_key_record (get_api_key_by_id k s)) (unique ids)) < length (admins s)"
        proof (cases "filter (\<lambda>k. is_active_admin_api_key_record (get_api_key_by_id k s)) (unique ids) = []")
          case True
          then show ?thesis by (auto simp: filter_empty_conv is_active_admin_api_key_record_def)
        next
          case False
          then show ?thesis
            using keeps by (auto simp: removes_last_active_admin_api_key_def rows count_admins)
        qed
        ultimately have "key_change s (delete_api_keys ids s)" by (rule key_change.deleted)
        moreover have "s' = delete_api_keys ids s"
          using run Inr Pair ok t by (cases r) (auto simp: delete_keys_def eff_simps)
        ultimately show ?thesis by simp
      qed
    qed
  qed
qed

lemma available_state: "assert_api_key_id_available k s = (r, s') \<Longrightarrow> s' = s"
  by (cases r) (auto simp: assert_api_key_id_available_def assert_api_key_id_does_not_exist_def eff_simps
      split: option.splits if_splits)

lemma insert_key_change:
  assumes "insert_api_key k s = (r, s')" and "ks_keys s = [] \<Longrightarrow> is_active_admin_api_key k"
  shows "key_change s s'"
  using assms
  by (auto simp: insert_api_key_def eff_simps split: if_splits intro!: key_change.intros)

lemma created_active: "api_key_create kdf en inp = Inr (k, t) \<Longrightarrow> ak_is_active k
    \<and> parse_api_key_role (case ci_role inp of None \<Rightarrow> ''member'' | Some r \<Rightarrow> r) = Inr (ak_role k)
    \<and> ak_secret_key_hash k = as_hash (generate_api_secret kdf (en_token en)) \<and> t = as_value (generate_api_secret kdf (en_token en))"
  by (auto simp: api_key_create_def Let_def res_simps)

lemma parse_role_str [simp]: "parse_api_key_role (role_str r) = Inr r"
  by (cases r) (simp_all add: parse_api_key_role_def js_lower_def lower_char_def char_code_def js_trim_def is_js_space_def)

lemma create_api_key_change:
  assumes "create_api_key k s = (r, s')" and "ks_keys s = [] \<Longrightarrow> is_active_admin_api_key k"
  shows "key_change s s'"
proof -
  obtain r1 s1 where i: "insert_api_key k s = (r1, s1)" by (cases "insert_api_key k s")
  have "s' = s1" using assms(1) i by (cases r; cases r1) (auto simp: create_api_key_def eff_simps)
  then show ?thesis using insert_key_change [OF i assms(2)] by simp
qed

lemma create_bootstrap_change:
  assumes "create_bootstrap_api_key k s = (r, s')" and "is_active_admin_api_key k"
  shows "key_change s s'"
proof (cases "0 < count_api_keys s")
  case True
  then have "s' = s" using assms(1) by (cases r) (auto simp: create_bootstrap_api_key_def eff_simps)
  then show ?thesis by (simp add: key_change.same)
next
  case False
  obtain r1 s1 where i: "insert_api_key k s = (r1, s1)" by (cases "insert_api_key k s")
  have "s' = s1" using assms(1) i False
    by (cases r; cases r1) (auto simp: create_bootstrap_api_key_def eff_simps)
  then show ?thesis using insert_key_change [OF i] assms(2) by simp
qed

lemma create_key_change: "create_key kdf en inp actor s = (r, s') \<Longrightarrow> key_change s s'"
proof (cases actor)
  case None
  assume run: "create_key kdf en inp actor s = (r, s')"
  obtain r1 s1 where a: "assert_api_key_id_available (ci_id inp) s = (r1, s1)"
    by (cases "assert_api_key_id_available (ci_id inp) s")
  then have s1: "s1 = s" by (rule available_state)
  show ?thesis
  proof (cases "is_ok r1 \<and> is_ok (api_key_create kdf en (inp\<lparr>ci_role := Some ''admin''\<rparr>))")
    case False
    then have "s' = s" using run None a s1
      by (cases r; cases r1) (auto simp: create_key_def create_bootstrap_key_def eff_simps is_ok_iff)
    then show ?thesis by (simp add: key_change.same)
  next
    case True
    then obtain k t where k: "api_key_create kdf en (inp\<lparr>ci_role := Some ''admin''\<rparr>) = Inr (k, t)"
      by (auto simp: is_ok_iff)
    have "ak_role k = Admin" using created_active [OF k] parse_role_str [of Admin] by simp
    then have active: "is_active_admin_api_key k" using created_active [OF k] by (simp add: is_active_admin_api_key_def)
    obtain r2 s2 where b: "create_bootstrap_api_key k s = (r2, s2)" by (cases "create_bootstrap_api_key k s")
    have "s' = s2" using run None a s1 True k b
      by (cases r; cases r1; cases r2) (auto simp: create_key_def create_bootstrap_key_def eff_simps split: option.splits)
    then show ?thesis using create_bootstrap_change [OF b active] by simp
  qed
next
  case (Some x)
  assume run: "create_key kdf en inp actor s = (r, s')"
  let ?c = "has_configured_keys s"
  obtain r1 s1 where a: "assert_api_key_id_available (ci_id inp) s = (r1, s1)"
    by (cases "assert_api_key_id_available (ci_id inp) s")
  then have s1: "s1 = s" by (rule available_state)
  show ?thesis
  proof (cases "is_ok (assert_can_create_key ?c (Some x)) \<and> is_ok r1 \<and> is_ok (create_api_key_role (ci_role inp) ?c)
      \<and> (\<forall>role. create_api_key_role (ci_role inp) ?c = Inr role \<longrightarrow>
            is_ok (api_key_create kdf en (inp\<lparr>ci_role := Some (role_str role)\<rparr>)))")
    case False
    then have "s' = s" using run Some a s1
      by (cases r; cases r1) (auto simp: create_key_def eff_simps is_ok_iff)
    then show ?thesis by (simp add: key_change.same)
  next
    case True
    then obtain role k t where role: "create_api_key_role (ci_role inp) ?c = Inr role"
      and k: "api_key_create kdf en (inp\<lparr>ci_role := Some (role_str role)\<rparr>) = Inr (k, t)"
      by (auto simp: is_ok_iff)
    have kr: "ak_role k = role" "ak_is_active k" using created_active [OF k] by auto
    have active: "is_active_admin_api_key k" if "ks_keys s = []"
      using that role kr
      by (simp add: is_active_admin_api_key_def has_configured_keys_def count_api_keys_def create_api_key_role_def)
    obtain r2 s2 where b: "create_api_key k s = (r2, s2)" by (cases "create_api_key k s")
    have "s' = s2" using run Some a s1 True role k b
      by (cases r; cases r1; cases r2) (auto simp: create_key_def eff_simps is_ok_iff)
    then show ?thesis using create_api_key_change [OF b active] by simp
  qed
qed

lemma list_keys_state: "list_keys a o' l s = (r, s') \<Longrightarrow> s' = s"
  by (cases r) (auto simp: list_keys_def eff_simps split: prod.splits)

lemma get_key_state: "get_key a k s = (r, s') \<Longrightarrow> s' = s"
  by (cases r) (auto simp: get_key_def eff_simps)

lemma list_audit_events_state: "list_audit_events like a f s = (r, s') \<Longrightarrow> s' = s"
  by (cases r) (auto simp: list_audit_events_def eff_simps split: prod.splits)

lemma then_ret_state: "then_do m (\<lambda>x. ret (g x)) s = (r, s') \<Longrightarrow> \<exists>r1. m s = (r1, s')"
  by (cases r) (auto simp: eff_simps)

lemma lift_then_state:
  "then_do (lift_res q) f s = (r, s') \<Longrightarrow> s' = s \<or> (\<exists>x. q = Inr x \<and> f x s = (r, s'))"
  by (cases r) (auto simp: eff_simps)

text \<open>What a request of an actor may change: nothing, unless the actor is an administrator or the
  key table is empty.\<close>

lemma require_admin_lift:
  "and_do (lift_res (require_admin_api_key (Some a))) m s = (r, s') \<Longrightarrow> s' = s \<or> aa_role a = Admin"
  by (cases r) (auto simp: eff_simps require_admin_api_key_def require_authenticated_api_key_def
      require_admin_role_def split: if_splits)

lemma create_key_guard:
  assumes "create_key kdf en inp actor s = (r, s')" and "ks_keys s \<noteq> []"
  shows "s' = s \<or> (\<exists>a. actor = Some a \<and> aa_role a = Admin)"
proof (cases actor)
  case None
  obtain r1 s1 where a: "assert_api_key_id_available (ci_id inp) s = (r1, s1)"
    by (cases "assert_api_key_id_available (ci_id inp) s")
  then have s1: "s1 = s" by (rule available_state)
  have "create_bootstrap_api_key k s = (Inr None, s)" for k
    using assms(2) by (simp add: create_bootstrap_api_key_def eff_simps count_api_keys_def)
  then have "s' = s" using assms(1) a s1 None
    by (cases r; cases r1) (auto simp: create_key_def create_bootstrap_key_def eff_simps)
  then show ?thesis ..
next
  case (Some x)
  have "has_configured_keys s" using assms(2) by (simp add: has_configured_keys_def count_api_keys_def)
  then show ?thesis using assms(1) Some
    by (cases r) (auto simp: create_key_def eff_simps assert_can_create_key_def require_admin_api_key_def
        require_authenticated_api_key_def require_admin_role_def split: if_splits)
qed



lemma dispatch_change:
  assumes "dispatch kdf like en actor oper s = (r, s')"
  shows "key_change s s' \<and> (s' = s \<or> ks_keys s = [] \<or> (\<exists>a. actor = Some a \<and> aa_role a = Admin))"
proof (cases oper)
  case (Create_Key inp)
  then obtain r1 where "create_key kdf en inp actor s = (r1, s')"
    using assms then_ret_state by fastforce
  then show ?thesis using create_key_change create_key_guard by blast
next
  case (List_Keys o' l)
  then have "s' = s" using assms list_keys_state
    by (auto dest!: lift_then_state then_ret_state split: prod.splits)
  then show ?thesis by (simp add: key_change.same)
next
  case (Get_Key k)
  then have "s' = s" using assms get_key_state by (auto dest!: lift_then_state then_ret_state)
  then show ?thesis by (simp add: key_change.same)
next
  case (Update_Key k inp)
  then have "s' = s \<or> (\<exists>a r1. actor = Some a \<and> update_key (en_now en) a k inp s = (r1, s'))"
    using assms
    by (auto simp: and_do_def resolve_authenticated_api_key_def dest!: lift_then_state then_ret_state
        split: option.splits)
  then show ?thesis
  proof
    assume "\<exists>a r1. actor = Some a \<and> update_key (en_now en) a k inp s = (r1, s')"
    then obtain a r1 where a: "actor = Some a" "update_key (en_now en) a k inp s = (r1, s')" by blast
    have "s' = s \<or> aa_role a = Admin"
    proof (cases "aa_role a")
      case Member
      then have "update_key_checked (en_now en) a k inp s = (Inl (ForbiddenError ''forbidden''), s)"
        by (simp add: update_key_checked_def and_do_def then_do_def lift_res_def require_admin_api_key_def
            require_authenticated_api_key_def require_admin_role_def)
      then show ?thesis using a(2) by (simp add: update_key_def then_do_def)
    qed simp
    then show ?thesis using update_key_change [OF a(2)] a(1) by blast
  qed (simp add: key_change.same)
next
  case (Delete_Keys ids)
  then have "s' = s \<or> (\<exists>a r1. actor = Some a \<and> delete_keys a ids s = (r1, s'))"
    using assms
    by (auto simp: and_do_def resolve_authenticated_api_key_def dest!: lift_then_state then_ret_state
        split: option.splits)
  then show ?thesis
  proof
    assume "\<exists>a r1. actor = Some a \<and> delete_keys a ids s = (r1, s')"
    then obtain a r1 where a: "actor = Some a" "delete_keys a ids s = (r1, s')" by blast
    have "s' = s \<or> aa_role a = Admin" by (rule require_admin_lift) (use a(2) in \<open>simp add: delete_keys_def\<close>)
    then show ?thesis using delete_keys_change [OF a(2)] a(1) by blast
  qed (simp add: key_change.same)
next
  case (List_Events f)
  then have "s' = s" using assms list_audit_events_state by (auto dest!: lift_then_state then_ret_state)
  then show ?thesis by (simp add: key_change.same)
qed

text \<open>The actor of a request is an active key whose hash is that of the presented token.\<close>

lemma found_by_hash: "get_api_key_by_hash h s = Some r \<Longrightarrow> r \<in> set (ks_keys s) \<and> ak_secret_key_hash r = h"
  by (auto simp: get_api_key_by_hash_def find_Some_iff)

lemma authenticate_actor:
  assumes "authenticate kdf token s = (Inr (Some a), s')"
  shows "s' = s \<and> (\<exists>t r. token = Some t \<and> r \<in> set (ks_keys s) \<and> ak_is_active r
    \<and> ak_secret_key_hash r = hash_from_token kdf (js_trim t)
    \<and> a = \<lparr>aa_api_key_id = ak_api_key_id r, aa_id = ak_id r, aa_role = ak_role r\<rparr>)"
  using assms
  by (auto simp: authenticate_def eff_simps require_api_token_header_def assert_api_key_authenticates_def
      is_authenticating_api_key_def dest!: found_by_hash split: if_splits option.splits)

lemma enforce_store:
  assumes "enforce_api_token_auth kdf p now rq_method path token s = (r, s')"
  shows "at_store s' = at_store s \<and> (\<forall>x. r = Inr x \<longrightarrow> (case au_key x of
      None \<Rightarrow> is_public_route (normalize_auth_path path) \<or> ks_keys (at_store s) = []
    | Some a \<Rightarrow> \<exists>t k. token = Some t \<and> k \<in> set (ks_keys (at_store s)) \<and> ak_is_active k
        \<and> ak_secret_key_hash k = hash_from_token kdf (js_trim t)
        \<and> a = \<lparr>aa_api_key_id = ak_api_key_id k, aa_id = ak_id k, aa_role = ak_role k\<rparr>))"
proof -
  obtain q k where auth: "authenticate kdf token (at_store s) = (q, k)" by (cases "authenticate kdf token (at_store s)")
  have k: "k = at_store s" using auth by (cases q) (auto simp: authenticate_def eff_simps split: if_splits)
  have err: "on_store (authenticate_or_throw kdf token) s = (Inl (authentication_error e), s)" if "q = Inl e" for e
    using auth that k by (simp add: on_store_def authenticate_or_throw_def catch_def then_do_def throw_def)
  have none: "on_store (authenticate_or_throw kdf token) s = (Inl (UnauthorizedError ''unauthorized''), s)" if "q = Inr None"
    using auth that k
    by (simp add: on_store_def authenticate_or_throw_def catch_def then_do_def throw_def lift_res_def require_authenticated_key_def)
  have some: "on_store (authenticate_or_throw kdf token) s = (Inr a, s)" if "q = Inr (Some a)" for a
    using auth that k
    by (simp add: on_store_def authenticate_or_throw_def catch_def then_do_def lift_res_def require_authenticated_key_def)
  have actor: "\<exists>t k. token = Some t \<and> k \<in> set (ks_keys (at_store s)) \<and> ak_is_active k
        \<and> ak_secret_key_hash k = hash_from_token kdf (js_trim t)
        \<and> a = \<lparr>aa_api_key_id = ak_api_key_id k, aa_id = ak_id k, aa_role = ak_role k\<rparr>" if "q = Inr (Some a)" for a
    using authenticate_actor [of kdf token "at_store s" a k] auth that by blast
  show ?thesis
  proof (cases "is_public_route (normalize_auth_path path)")
    case True
    then show ?thesis using assms by (auto simp: enforce_api_token_auth_def eff_simps)
  next
    case False
    then have run: "enforce_protected_api_token_auth kdf p now rq_method (normalize_auth_path path) token s = (r, s')"
      using assms by (simp add: enforce_api_token_auth_def)
    show ?thesis
    proof (cases "is_bootstrap_key_route rq_method (normalize_auth_path path) (has_configured_keys (at_store s))")
      case True
      then show ?thesis using run
        by (auto simp: enforce_protected_api_token_auth_def eff_simps then_do_def is_bootstrap_key_route_def
            has_configured_keys_def count_api_keys_def)
    next
      case no_boot: False
      show ?thesis
      proof (cases "has_configured_keys (at_store s)")
        case False
        then show ?thesis using run no_boot
          by (auto simp: enforce_protected_api_token_auth_def then_do_def and_do_def get_field_def lift_res_def
              assert_has_configured_api_keys_def)
      next
        case True
        consider (e) e where "q = Inl e" | (n) "q = Inr None" | (a) a where "q = Inr (Some a)"
          by (cases q; cases "case q of Inr x \<Rightarrow> x | _ \<Rightarrow> None") auto
        then show ?thesis
        proof cases
          case e
          then show ?thesis using run no_boot True err [OF e]
            by (auto simp: enforce_protected_api_token_auth_def then_do_def and_do_def get_field_def lift_res_def
                assert_has_configured_api_keys_def)
        next
          case n
          then show ?thesis using run no_boot True none [OF n]
            by (auto simp: enforce_protected_api_token_auth_def then_do_def and_do_def get_field_def lift_res_def
                assert_has_configured_api_keys_def)
        next
          case a
          then have "at_store s' = at_store s \<and> (\<exists>rl. r = Inr \<lparr>au_key = Some a, au_rate_limit = Some rl\<rparr>)"
            using run no_boot True some [OF a]
            by (auto simp: enforce_protected_api_token_auth_def then_do_def and_do_def get_field_def lift_res_def
                assert_has_configured_api_keys_def change_def ret_def split: prod.splits)
          then show ?thesis using actor [OF a] by auto
        qed
      qed
    qed
  qed
qed

end
