(* ===== verification/Access_Safety.thy ===== *)
theory Access_Safety
  imports Access_Requests
begin

text \<open>
  What the key administration guarantees over any sequence of requests, and what two requests can
  do to each other when their statements interleave.
\<close>

section \<open>One request after the other\<close>

lemma handle_request_change:
  assumes "handle_request ae q s = (r, s')"
  shows "key_change (at_store s) (at_store s')
    \<and> (at_store s' = at_store s \<or> ks_keys (at_store s) = []
       \<or> (\<exists>t k. aq_token q = Some t \<and> k \<in> set (ks_keys (at_store s)) \<and> is_active_admin_api_key k
            \<and> ak_secret_key_hash k = hash_from_token (ae_kdf ae) (js_trim t)))"
proof -
  obtain rq_method path where route: "operation_route (aq_operation q) = (rq_method, path)"
    by (cases "operation_route (aq_operation q)")
  let ?auth = "enforce_api_token_auth (ae_kdf ae) (ae_policy ae) (aq_time q) rq_method path (aq_token q)"
  obtain r1 s1 where auth: "?auth s = (r1, s1)" by (cases "?auth s")
  note st = enforce_store [OF auth]
  show ?thesis
  proof (cases r1)
    case (Inl e)
    then have "s' = s1" using assms route auth by (simp add: handle_request_def then_do_def)
    then show ?thesis using st by (simp add: key_change.same)
  next
    case (Inr x)
    show ?thesis
    proof (cases "handle_rate_limit (au_rate_limit x)")
      case (Some l)
      then have "s' = s1" using assms route auth Inr by (simp add: handle_request_def then_do_def ret_def)
      then show ?thesis using st by (simp add: key_change.same)
    next
      case None
      let ?d = "dispatch (ae_kdf ae) (ae_like ae) (aq_entropy q) (au_key x) (aq_operation q)"
      obtain r2 k2 where d: "?d (at_store s) = (r2, k2)" by (cases "?d (at_store s)")
      then have s': "at_store s' = k2"
        using assms route auth Inr None st by (auto simp: handle_request_def then_do_def on_store_def)
      have change: "key_change (at_store s) k2 \<and> (k2 = at_store s \<or> ks_keys (at_store s) = []
          \<or> (\<exists>a. au_key x = Some a \<and> aa_role a = Admin))"
        by (rule dispatch_change [OF d])
      define A where "A \<longleftrightarrow> (\<exists>t k. aq_token q = Some t \<and> k \<in> set (ks_keys (at_store s))
            \<and> is_active_admin_api_key k \<and> ak_secret_key_hash k = hash_from_token (ae_kdf ae) (js_trim t))"
      have "A" if a: "au_key x = Some a" "aa_role a = Admin" for a
        unfolding A_def using st Inr a by (auto simp: is_active_admin_api_key_def)
      then show ?thesis using change unfolding s' A_def [symmetric] by blast
    qed
  qed
qed

lemma api_run_admin_ok: "admin_ok (at_store s) \<Longrightarrow> admin_ok (at_store (api_run ae qs s))"
proof (induction qs arbitrary: s)
  case (Cons q qs)
  obtain r s' where step: "handle_request ae q s = (r, s')" by (cases "handle_request ae q s")
  have "admin_ok (at_store s')"
    using handle_request_change [OF step] key_change_ok Cons.prems by blast
  from Cons.IH [OF this] show ?case using step by (simp add: api_run_def)
qed (simp add: api_run_def)

text \<open>
  C7. The administrators never lock themselves out one request at a time. From an empty
  installation, after any sequence of requests handled one after the other (with any tokens,
  creating, updating, deleting, reading), the ids, the internal ids and the secret hashes of the
  stored keys are pairwise different, and unless there is no key at all there is an active key
  with the role admin.
\<close>

theorem admin_never_lost:
  "let keys = ks_keys (at_store (api_run ae qs empty_api_state)) in
     distinct (map ak_id keys) \<and> distinct (map ak_api_key_id keys) \<and> distinct (map ak_secret_key_hash keys)
     \<and> (keys = [] \<or> (\<exists>k \<in> set keys. ak_is_active k \<and> ak_role k = Admin))"
proof -
  have "admin_ok (at_store empty_api_state)"
    by (simp add: admin_ok_def keys_ok_def empty_api_state_def empty_key_store_def)
  from api_run_admin_ok [OF this, of ae qs] show ?thesis
    by (auto simp: admin_ok_def keys_ok_def admins_def filter_empty_conv is_active_admin_api_key_def Let_def)
qed

text \<open>
  C8. Only administrators change keys. If handling a request changes the key tables in any way,
  the key table was empty (the bootstrap of the first key), or the request carried a token whose
  secret hashes to the stored hash of an active key with the role admin.
\<close>

theorem only_admins_change_keys:
  assumes "handle_request ae q s = (r, s')" and "at_store s' \<noteq> at_store s"
  shows "ks_keys (at_store s) = []
    \<or> (\<exists>t k. aq_token q = Some t \<and> k \<in> set (ks_keys (at_store s)) \<and> ak_is_active k \<and> ak_role k = Admin
         \<and> ak_secret_key_hash k = hash_from_token (ae_kdf ae) (js_trim t))"
  using handle_request_change [OF assms(1)] assms(2) unfolding is_active_admin_api_key_def by blast

definition sample_environment :: api_environment where
  "sample_environment = \<lparr>ae_kdf = (\<lambda>t. ''hash-'' @ t), ae_like = (\<lambda>_ _. False),
     ae_policy = default_api_key_rate_limit_policy\<rparr>"

definition sample_request :: "string option \<Rightarrow> string \<Rightarrow> key_operation \<Rightarrow> api_request" where
  "sample_request token fresh oper = \<lparr>aq_token = token, aq_operation = oper,
     aq_entropy = \<lparr>en_uuid = ''0a-1b'', en_token = fresh, en_now = ''t''\<rparr>, aq_time = 0\<rparr>"

definition sample_admin_state :: api_state where
  "sample_admin_state = snd (handle_request sample_environment
     (sample_request None ''aa'' (Create_Key \<lparr>ci_id = Some ''key_root'', ci_role = None\<rparr>)) empty_api_state)"

theorem only_admins_change_keys_witness:
  "\<exists>t k. Some ''sk_aa'' = Some t \<and> k \<in> set (ks_keys (at_store sample_admin_state)) \<and> ak_is_active k
     \<and> ak_role k = Admin \<and> ak_secret_key_hash k = hash_from_token (ae_kdf sample_environment) (js_trim t)"
proof -
  let ?q = "sample_request (Some ''sk_aa'') ''bb'' (Create_Key \<lparr>ci_id = None, ci_role = Some ''member''\<rparr>)"
  obtain r s' where step: "handle_request sample_environment ?q sample_admin_state = (r, s')"
    by (cases "handle_request sample_environment ?q sample_admin_state")
  have "length (ks_keys (at_store (snd (handle_request sample_environment ?q sample_admin_state)))) = 2
      \<and> length (ks_keys (at_store sample_admin_state)) = 1" by code_simp
  then have keys: "length (ks_keys (at_store s')) = 2" "length (ks_keys (at_store sample_admin_state)) = 1"
    by (simp_all add: step)
  then have "at_store s' \<noteq> at_store sample_admin_state" by auto
  from only_admins_change_keys [OF step this] show ?thesis
    using keys(2) by (auto simp: sample_request_def)
qed

section \<open>Tokens\<close>

lemma hex_token_trim:
  assumes "list_all is_alnum token" "token \<noteq> []"
  shows "js_trim (''sk_'' @ token) = ''sk_'' @ token" and "CHR ''_'' \<notin> set token"
proof -
  have "is_alnum (last token)" using assms by (simp add: list_all_iff)
  then have "\<not> is_js_space (last token)" by (auto simp: is_alnum_def is_js_space_def Let_def)
  then show "js_trim (''sk_'' @ token) = ''sk_'' @ token"
    by (intro js_trim_id) (use assms(2) in \<open>auto simp: is_js_space_def char_code_def\<close>)
  show "CHR ''_'' \<notin> set token" using assms(1) by (auto simp: list_all_iff is_alnum_def char_code_def Let_def)
qed

lemma created_row:
  assumes "create_key kdf en inp actor s = (Inr resp, s')"
  obtains k where "ks_keys s' = ks_keys s @ [k]" "kr_id resp = ak_id k" "kr_role resp = ak_role k" "ak_is_active k"
    "ak_secret_key_hash k = as_hash (generate_api_secret kdf (en_token en))"
    "kr_key resp = Some (as_value (generate_api_secret kdf (en_token en)))"
    "\<forall>x \<in> set (ks_keys s). ak_id x \<noteq> ak_id k \<and> ak_secret_key_hash x \<noteq> ak_secret_key_hash k"
proof -
  note result = that
  have stored: thesis
    if ins: "insert_api_key k0 s = (Inr u, s')" and row: "get_api_key_by_id (ak_id k0) s' = Some k"
      and resp: "resp = api_key_to_response k (Some t)" and made: "api_key_create kdf en inp' = Inr (k0, t)"
    for k0 k t u inp'
  proof -
    have new: "ks_keys s' = ks_keys s @ [k0\<lparr>ak_api_key_id := ks_next_id s\<rparr>]"
      "\<forall>x \<in> set (ks_keys s). ak_id x \<noteq> ak_id k0 \<and> ak_secret_key_hash x \<noteq> ak_secret_key_hash k0"
      using ins by (auto simp: insert_api_key_def eff_simps split: if_splits)
    then have "find (\<lambda>r. ak_id r = ak_id k0) (ks_keys s) = None" by (auto simp: find_None_iff)
    moreover have "find P (xs @ [y]) = (case find P xs of None \<Rightarrow> if P y then Some y else None | Some x \<Rightarrow> Some x)"
      for P :: "api_key_record \<Rightarrow> bool" and xs y by (induction xs) auto
    ultimately have "k = k0\<lparr>ak_api_key_id := ks_next_id s\<rparr>"
      using row new(1) by (simp add: get_api_key_by_id_def)
    then show thesis
      using new resp created_active [OF made]
      by (intro result [of k]) (simp_all add: api_key_to_response_def generate_api_secret_def)
  qed
  show thesis
  proof (cases actor)
    case None
    obtain r1 s1 where a: "assert_api_key_id_available (ci_id inp) s = (r1, s1)"
      by (cases "assert_api_key_id_available (ci_id inp) s")
    then have s1: "s1 = s" by (rule available_state)
    then show thesis using assms None a stored
      by (auto simp: create_key_def create_bootstrap_key_def eff_simps create_bootstrap_api_key_def
          assert_found_def split: option.splits if_splits)
  next
    case (Some x)
    obtain r1 s1 where a: "assert_api_key_id_available (ci_id inp) s = (r1, s1)"
      by (cases "assert_api_key_id_available (ci_id inp) s")
    then have s1: "s1 = s" by (rule available_state)
    then show thesis using assms Some a stored
      by (auto simp: create_key_def eff_simps create_api_key_def assert_found_def split: option.splits)
  qed
qed

text \<open>
  A created key authenticates. The token that the creation of a key returns, and only
  returns once, authenticates as that key with its id and role as long as the key is stored and
  active; once the key is deactivated or deleted the same token is refused.
\<close>

theorem created_key_authenticates:
  assumes "create_key kdf en inp actor s = (Inr resp, s')"
    and "list_all is_alnum (en_token en)" and "en_token en \<noteq> []"
  shows "\<exists>token k. kr_key resp = Some token \<and> k \<in> set (ks_keys s') \<and> ak_id k = kr_id resp
    \<and> authenticate kdf (Some token) s'
        = (Inr (Some \<lparr>aa_api_key_id = ak_api_key_id k, aa_id = kr_id resp, aa_role = kr_role resp\<rparr>), s')
    \<and> authenticate kdf (Some token) (update_api_key (set_api_key_is_active now k False) s')
        = (Inl (UnauthorizedError ''unauthorized''), update_api_key (set_api_key_is_active now k False) s')
    \<and> (\<forall>a. fst (authenticate kdf (Some token) (delete_api_keys [kr_id resp] s')) \<noteq> Inr (Some a))"
proof -
  obtain k where k: "ks_keys s' = ks_keys s @ [k]" "kr_id resp = ak_id k" "kr_role resp = ak_role k" "ak_is_active k"
    "ak_secret_key_hash k = as_hash (generate_api_secret kdf (en_token en))"
    "kr_key resp = Some (as_value (generate_api_secret kdf (en_token en)))"
    "\<forall>x \<in> set (ks_keys s). ak_id x \<noteq> ak_id k \<and> ak_secret_key_hash x \<noteq> ak_secret_key_hash k"
    using created_row [OF assms(1)] by blast
  let ?t = "''sk_'' @ en_token en"
  have trim: "js_trim ?t = ?t" using hex_token_trim(1) [OF assms(2,3)] by simp
  have hash: "hash_from_token kdf ?t = ak_secret_key_hash k"
    using hash_from_generated_token [OF hex_token_trim(2) [OF assms(2,3)], of kdf] k(5)
    by (simp add: generate_api_secret_def)
  have found: "find P (xs @ [y]) = Some y" if "\<forall>x \<in> set xs. \<not> P x" "P y" for P :: "api_key_record \<Rightarrow> bool" and xs y
    using that by (induction xs) auto
  have auth: "authenticate kdf (Some ?t) s2
      = (case find (\<lambda>r. ak_secret_key_hash r = ak_secret_key_hash k) (ks_keys s2) of
           None \<Rightarrow> (Inl (UnauthorizedError ''unauthorized''), s2)
         | Some r \<Rightarrow> if ak_is_active r
             then (Inr (Some \<lparr>aa_api_key_id = ak_api_key_id r, aa_id = ak_id r, aa_role = ak_role r\<rparr>), s2)
             else (Inl (UnauthorizedError ''unauthorized''), s2))" if "ks_keys s2 \<noteq> []" for s2
    using that unfolding authenticate_def
    by (simp add: then_do_def get_field_def lift_res_def ret_def has_configured_keys_def count_api_keys_def
        require_api_token_header_def trim [simplified] hash [simplified] get_api_key_by_hash_def
        assert_api_key_authenticates_def is_authenticating_api_key_def split: option.splits)
  let ?k' = "set_api_key_is_active now k False"
  let ?g = "\<lambda>x. if ak_id x = ak_id ?k' then x\<lparr>ak_secret_key_hash := ak_secret_key_hash ?k',
      ak_is_active := ak_is_active ?k', ak_role := ak_role ?k', ak_updated_at := ak_updated_at ?k'\<rparr> else x"
  have "map ?g (ks_keys s) = ks_keys s" using k(7) by (intro map_idI) (simp add: set_api_key_is_active_def)
  then have off: "ks_keys (update_api_key ?k' s') = ks_keys s @ [?g k]" using k(1) by (simp add: update_api_key_def)
  have live: "authenticate kdf (Some ?t) s'
      = (Inr (Some \<lparr>aa_api_key_id = ak_api_key_id k, aa_id = ak_id k, aa_role = ak_role k\<rparr>), s')"
    using auth [of s'] k(1,4,7) by (simp add: found)
  have dead: "authenticate kdf (Some ?t) (update_api_key ?k' s')
      = (Inl (UnauthorizedError ''unauthorized''), update_api_key ?k' s')"
    using auth [of "update_api_key ?k' s'"] off k(7)
    by (subst auth) (simp_all add: found set_api_key_is_active_def)
  have gone: "fst (authenticate kdf (Some ?t) (delete_api_keys [ak_id k] s')) \<noteq> Inr (Some a)" for a
  proof -
    have rows: "ks_keys (delete_api_keys [ak_id k] s') = ks_keys s"
      using k(1,7) by (simp add: delete_api_keys_def filter_id_conv)
    show ?thesis
    proof (cases "ks_keys s = []")
      case True
      then show ?thesis using rows
        by (simp add: authenticate_def then_do_def get_field_def ret_def has_configured_keys_def count_api_keys_def)
    next
      case False
      have "find (\<lambda>r. ak_secret_key_hash r = ak_secret_key_hash k) (ks_keys s) = None"
        using k(7) by (auto simp: find_None_iff)
      then show ?thesis using auth [of "delete_api_keys [ak_id k] s'"] False rows by simp
    qed
  qed
  have token: "kr_key resp = Some ?t" using k(6) by (simp add: generate_api_secret_def)
  have "k \<in> set (ks_keys s')" using k(1) by simp
  then show ?thesis using token k(2,3) live dead gone by metis
qed

theorem created_key_authenticates_witness:
  "\<exists>token s'. authenticate (\<lambda>t. ''hash-'' @ t) (Some token) s'
     = (Inr (Some \<lparr>aa_api_key_id = 1, aa_id = ''key_root'', aa_role = Admin\<rparr>), s')"
proof -
  let ?en = "\<lparr>en_uuid = ''0a-1b'', en_token = ''aa'', en_now = ''t''\<rparr>"
  let ?run = "create_key (\<lambda>t. ''hash-'' @ t) ?en \<lparr>ci_id = Some ''key_root'', ci_role = None\<rparr> None empty_key_store"
  let ?row = "\<lparr>ak_api_key_id = 1, ak_id = ''key_root'', ak_role = Admin, ak_secret_key_hash = ''hash-aa'',
     ak_is_active = True, ak_updated_at = None, ak_created_at = ''t''\<rparr>"
  have run: "?run = (Inr \<lparr>kr_id = ''key_root'', kr_is_active = True, kr_role = Admin, kr_created_at = ''t'',
      kr_key = Some ''sk_aa''\<rparr>, empty_key_store\<lparr>ks_keys := [?row], ks_next_id := 2\<rparr>)" by code_simp
  have "list_all is_alnum (en_token ?en)" "en_token ?en \<noteq> []" by code_simp+
  from created_key_authenticates [OF run this] show ?thesis by (auto simp: empty_key_store_def)
qed

section \<open>Two requests at once\<close>

text \<open>Without an active administrator nothing changes any more.\<close>

lemma locked_out:
  assumes "ks_keys (at_store s) \<noteq> []" and "admins (at_store s) = []"
  shows "at_store (api_run ae qs s) = at_store s"
  using assms
proof (induction qs arbitrary: s)
  case (Cons q qs)
  obtain r s' where step: "handle_request ae q s = (r, s')" by (cases "handle_request ae q s")
  have "at_store s' = at_store s"
    using handle_request_change [OF step] Cons.prems by (auto simp: admins_def filter_empty_conv)
  then show ?case using Cons.IH [of s'] Cons.prems step by (simp add: api_run_def)
qed (simp add: api_run_def)

lemma admins_none: "admins s = [] \<longleftrightarrow> \<not> (\<exists>k \<in> set (ks_keys s). ak_is_active k \<and> ak_role k = Admin)"
  by (auto simp: admins_def filter_empty_conv is_active_admin_api_key_def)

definition actor_of :: "api_key_record \<Rightarrow> authenticated_api_key" where
  "actor_of k = \<lparr>aa_api_key_id = ak_api_key_id k, aa_id = ak_id k, aa_role = ak_role k\<rparr>"

definition demotion :: update_key_input where
  "demotion = \<lparr>ui_is_active = None, ui_role = Some ''member''\<rparr>"

text \<open>
  C37. Two demotions at once lock everybody out. The check that another active administrator
  remains and the write are separate statements. If exactly two keys are active administrators
  and each demotes the other, and both requests check before either writes, both checks pass;
  after the two writes no active administrator is left, and from then on no sequence of requests
  changes the key tables again.
\<close>

theorem concurrent_demotions_lock_out:
  assumes "distinct (map ak_id (ks_keys s))"
    and "filter (\<lambda>k. ak_is_active k \<and> ak_role k = Admin) (ks_keys s) = [a, b]"
  shows "\<exists>u v. update_key_checked now (actor_of a) (ak_id b) demotion s = (Inr u, s)
    \<and> update_key_checked now (actor_of b) (ak_id a) demotion s = (Inr v, s)
    \<and> (let s' = snd (update_api_key_if_changed v (snd (update_api_key_if_changed u s))) in
       \<not> (\<exists>k \<in> set (ks_keys s'). ak_is_active k \<and> ak_role k = Admin)
       \<and> (\<forall>ae qs ws. at_store (api_run ae qs \<lparr>at_store = s', at_windows = ws\<rparr>) = s'))"
proof -
  have ab: "admins s = [a, b]" using assms(2) by (simp add: admins_def is_active_admin_api_key_def [abs_def])
  then have "a \<in> set (admins s)" "b \<in> set (admins s)" by simp_all
  then have mem: "a \<in> set (ks_keys s)" "b \<in> set (ks_keys s)"
    and act: "ak_is_active a" "ak_role a = Admin" "ak_is_active b" "ak_role b = Admin"
    by (auto simp: admins_def is_active_admin_api_key_def)
  let ?d = "\<lambda>k. k\<lparr>ak_role := Member, ak_updated_at := Some now\<rparr>"
  have member: "parse_api_key_role ''member'' = Inr Member" using parse_role_str [of Member] by simp
  have checked: "update_key_checked now (actor_of x) (ak_id y) demotion s = (Inr (Some (?d y)), s)"
    if "ak_role x = Admin" "y \<in> set (ks_keys s)" for x y
  proof -
    have "get_api_key_by_id (ak_id y) s = Some y" using key_found [OF assms(1)] that(2) by simp
    then show ?thesis
      using that(1) count_admins [of s] ab
      by (simp add: update_key_checked_def then_do_def and_do_def lift_res_def get_field_def ret_def
          require_admin_api_key_def require_authenticated_api_key_def require_admin_role_def actor_of_def
          require_api_key_def apply_api_key_update_def apply_api_key_role_def demotion_def set_api_key_role_def
          member assert_does_not_remove_last_active_admin_def assert_has_another_active_admin_api_key_def)
  qed
  let ?s' = "update_api_key (?d a) (update_api_key (?d b) s)"
  have others: "x = a \<or> x = b" if "x \<in> set (ks_keys s)" "ak_is_active x" "ak_role x = Admin" for x
  proof -
    have "x \<in> set (admins s)" using that by (simp add: admins_def is_active_admin_api_key_def)
    then show ?thesis using ab by simp
  qed
  have none: "\<not> (\<exists>k \<in> set (ks_keys ?s'). ak_is_active k \<and> ak_role k = Admin)"
    using others by (auto simp: update_api_key_def split: if_splits)
  have lock: "at_store (api_run ae qs \<lparr>at_store = ?s', at_windows = ws\<rparr>) = ?s'" for ae qs ws
  proof -
    have "admins ?s' = []" using none unfolding admins_none .
    moreover have "ks_keys ?s' \<noteq> []" using mem(1) by (auto simp: update_api_key_def)
    ultimately show ?thesis using locked_out [of "\<lparr>at_store = ?s', at_windows = ws\<rparr>" ae qs] by simp
  qed
  show ?thesis
    using checked [OF act(2) mem(2)] checked [OF act(4) mem(1)] none lock
    by (auto simp: update_api_key_if_changed_def change_def Let_def)
qed

definition sample_key :: "int \<Rightarrow> string \<Rightarrow> api_key_record" where
  "sample_key i key = \<lparr>ak_api_key_id = i, ak_id = key, ak_role = Admin, ak_secret_key_hash = key,
     ak_is_active = True, ak_updated_at = None, ak_created_at = ''t''\<rparr>"

theorem concurrent_demotions_lock_out_witness:
  "\<exists>s'. ks_keys s' \<noteq> [] \<and> (\<forall>ae qs. at_store (api_run ae qs \<lparr>at_store = s', at_windows = []\<rparr>) = s')"
proof -
  let ?s = "empty_key_store\<lparr>ks_keys := [sample_key 1 ''key_a'', sample_key 2 ''key_b'']\<rparr>"
  have s: "distinct (map ak_id (ks_keys ?s))"
    "filter (\<lambda>k. ak_is_active k \<and> ak_role k = Admin) (ks_keys ?s) = [sample_key 1 ''key_a'', sample_key 2 ''key_b'']"
    by (simp_all add: sample_key_def)
  obtain u v where uv: "let s' = snd (update_api_key_if_changed v (snd (update_api_key_if_changed u ?s))) in
       \<not> (\<exists>k \<in> set (ks_keys s'). ak_is_active k \<and> ak_role k = Admin)
       \<and> (\<forall>ae qs ws. at_store (api_run ae qs \<lparr>at_store = s', at_windows = ws\<rparr>) = s')"
    using concurrent_demotions_lock_out [OF s] by blast
  have "ks_keys (snd (update_api_key_if_changed v (snd (update_api_key_if_changed u ?s)))) \<noteq> []"
    by (auto simp: update_api_key_if_changed_def change_def ret_def update_api_key_def split: option.splits)
  then show ?thesis using uv unfolding Let_def by blast
qed

end
