(* ===== verification/Http_Api.thy ===== *)
theory Http_Api
  imports Access_Requests Block_Applications
begin

text \<open>
  The decisions of \<^verbatim>\<open>apps/api/src/index.ts\<close> around every request: what is recorded in the audit
  trail, how an error becomes a response, and how responses may be cached. Request and response
  objects, logging and the route table of the web framework are not modelled. The object literals
  that the code uses as tables are read at path segments; segments that name a member of
  \<^verbatim>\<open>Object.prototype\<close>, which such a table inherits, are left out.
\<close>

section \<open>Audit trail\<close>

definition audit_default_outcome :: "int \<Rightarrow> audit_outcome" where
  "audit_default_outcome status = (if 400 \<le> status then Failure else Success)"

definition audit_outcome_of :: "int \<Rightarrow> audit_outcome" where
  "audit_outcome_of status =
     (if status = 401 \<or> status = 403 then Denied
      else if status = 429 then Rate_Limited else audit_default_outcome status)"

text \<open>A request is recorded once, and only for an authenticated key.\<close>

definition audited_request_actor :: "authenticated_api_key option \<Rightarrow> bool \<Rightarrow> authenticated_api_key option" where
  "audited_request_actor actor audited = (if audited then None else actor)"

definition forwarded_client_ip :: "string option \<Rightarrow> string option" where
  "forwarded_client_ip forwarded_for =
     (case forwarded_for of
        None \<Rightarrow> None
      | Some v \<Rightarrow> (let ip = js_trim (hd (js_split (CHR '','') v)) in if ip = [] then None else Some ip))"

definition client_ip :: "string option \<Rightarrow> string option \<Rightarrow> string option" where
  "client_ip forwarded_for real_ip =
     (case forwarded_client_ip forwarded_for of Some ip \<Rightarrow> Some ip | None \<Rightarrow> real_ip)"

definition segment :: "nat \<Rightarrow> string list \<Rightarrow> string option" where
  "segment i segments = (if i < length segments then Some (segments ! i) else None)"

definition audit_resource_types :: "(string \<times> string) list" where
  "audit_resource_types = [(''keys'', ''api_key''), (''audit'', ''audit_event'')]"

definition explorer_audit_resource :: "string option \<Rightarrow> string option \<Rightarrow> string" where
  "explorer_audit_resource key child =
     (case child of
        None \<Rightarrow> ''explorer''
      | Some c \<Rightarrow> ''explorer_'' @ (case key of None \<Rightarrow> ''undefined'' | Some i \<Rightarrow> i))"

definition fallback_audit_resource :: "string option \<Rightarrow> string" where
  "fallback_audit_resource collection = (case collection of None \<Rightarrow> ''unknown'' | Some c \<Rightarrow> c)"

definition special_audit_resource :: "string option \<Rightarrow> string option \<Rightarrow> string option \<Rightarrow> string" where
  "special_audit_resource collection key child =
     (if collection = Some ''explorer'' then explorer_audit_resource key child
      else fallback_audit_resource collection)"

text \<open>The type of the addressed resource, with its id for the typed collections.\<close>

definition audit_resource :: "string list \<Rightarrow> string \<times> string option" where
  "audit_resource segments =
     (let collection = segment 1 segments; key = segment 2 segments; child = segment 3 segments in
      case map_of audit_resource_types (case collection of None \<Rightarrow> [] | Some c \<Rightarrow> c) of
        Some type' \<Rightarrow> (type', key)
      | None \<Rightarrow> (special_audit_resource collection key child, None))"

definition has_id_route_param :: "string list \<Rightarrow> bool" where
  "has_id_route_param segments \<longleftrightarrow> segment 1 segments = Some ''keys'' \<and> segment 2 segments \<noteq> None"

definition apply_id_route_param :: "string list \<Rightarrow> string list" where
  "apply_id_route_param segments = (if has_id_route_param segments then segments[2 := '':id''] else segments)"

definition explorer_collection_resource_name :: "string \<Rightarrow> string" where
  "explorer_collection_resource_name collection =
     (if butlast collection = [] then ''id'' else butlast collection)"

definition explorer_resource_name :: "string option \<Rightarrow> string" where
  "explorer_resource_name collection =
     (case collection of None \<Rightarrow> ''id'' | Some c \<Rightarrow> explorer_collection_resource_name c)"

definition explorer_reference_param :: "string option \<Rightarrow> string" where
  "explorer_reference_param collection =
     (if collection = Some ''blocks'' then '':ref'' else '':'' @ explorer_resource_name collection)"

definition apply_explorer_reference_param :: "string list \<Rightarrow> string list" where
  "apply_explorer_reference_param segments =
     (if segment 3 segments = None then segments
      else segments[3 := explorer_reference_param (segment 2 segments)])"

definition has_explorer_address_child_param :: "string list \<Rightarrow> bool" where
  "has_explorer_address_child_param segments \<longleftrightarrow>
     segment 2 segments = Some ''addresses'' \<and> segment 4 segments \<noteq> None"

definition apply_explorer_address_param :: "string list \<Rightarrow> string list" where
  "apply_explorer_address_param segments =
     (if has_explorer_address_child_param segments then segments[3 := '':address''] else segments)"

definition apply_explorer_route_params :: "string list \<Rightarrow> string list" where
  "apply_explorer_route_params segments =
     (if segment 1 segments \<noteq> Some ''explorer'' then segments
      else apply_explorer_address_param (apply_explorer_reference_param segments))"

definition audit_route :: "string list \<Rightarrow> string" where
  "audit_route segments = ''/'' @ js_join ''/'' (apply_explorer_route_params (apply_id_route_param segments))"

definition audit_operation :: "string \<Rightarrow> string" where
  "audit_operation rq_method =
     (case map_of [(''DELETE'', ''delete''), (''PATCH'', ''update''), (''POST'', ''create''), (''PUT'', ''update'')]
             (js_upper rq_method) of
        Some oper \<Rightarrow> oper | None \<Rightarrow> ''read'')"

definition is_admin_read :: "authenticated_api_key \<Rightarrow> string \<Rightarrow> bool" where
  "is_admin_read actor rq_method \<longleftrightarrow> aa_role actor = Admin \<and> js_upper rq_method = ''GET''"

definition owner_scoped_audit_resource_types :: "string list" where
  "owner_scoped_audit_resource_types = []"

definition is_actor_owned_audit_resource :: "authenticated_api_key \<Rightarrow> string \<Rightarrow> string \<Rightarrow> bool" where
  "is_actor_owned_audit_resource actor rq_method type' \<longleftrightarrow>
     type' \<in> set owner_scoped_audit_resource_types \<and> \<not> is_admin_read actor rq_method"

definition audit_owner :: "authenticated_api_key \<Rightarrow> string \<Rightarrow> string \<Rightarrow> (int \<times> string) option" where
  "audit_owner actor rq_method type' =
     (if \<not> is_actor_owned_audit_resource actor rq_method type' then None
      else Some (aa_api_key_id actor, aa_id actor))"

record audit_descriptor =
  ad_route :: string
  ad_operation :: string
  ad_resource_type :: string
  ad_resource_ids :: "string list"
  ad_owner :: "(int \<times> string) option"

definition audit_resource_ids :: "string option \<Rightarrow> string list" where
  "audit_resource_ids key = (case key of None \<Rightarrow> [] | Some k \<Rightarrow> [k])"

definition audit_descriptor_of :: "string \<Rightarrow> string \<Rightarrow> authenticated_api_key \<Rightarrow> audit_descriptor" where
  "audit_descriptor_of rq_method path actor =
     (let segments = filter (\<lambda>p. p \<noteq> []) (js_split (CHR ''/'') path);
          (type', key) = audit_resource segments in
      \<lparr>ad_route = audit_route segments, ad_operation = audit_operation rq_method,
       ad_resource_type = type', ad_resource_ids = audit_resource_ids key,
       ad_owner = audit_owner actor rq_method type'\<rparr>)"

section \<open>Errors\<close>

datatype api_failure = Thrown js_error | Validation_Failed json | Route_Not_Found | Other_Failure

fun only_doge_message :: "js_error \<Rightarrow> string" where
  "only_doge_message (OnlyDogeError m _) = m"
| "only_doge_message (ValidationError m) = m"
| "only_doge_message (ConflictError m) = m"
| "only_doge_message (UnauthorizedError m) = m"
| "only_doge_message (ForbiddenError m) = m"
| "only_doge_message (NotFoundError m) = m"
| "only_doge_message (TooEarlyError m) = m"
| "only_doge_message (InfrastructureError m) = m"
| "only_doge_message _ = []"

text \<open>\<open>hide\<close> hides the credentials of the URLs in a message; URLs are parsed by the platform.\<close>

definition handle_infrastructure_error :: "(string \<Rightarrow> string) \<Rightarrow> api_failure \<Rightarrow> (int \<times> string) option" where
  "handle_infrastructure_error hide f =
     (case f of Thrown (InfrastructureError m) \<Rightarrow> Some (500, hide m) | _ \<Rightarrow> None)"

definition handle_only_doge_error :: "api_failure \<Rightarrow> (int \<times> string) option" where
  "handle_only_doge_error f =
     (case f of
        Thrown e \<Rightarrow> (case status_code e of Some n \<Rightarrow> Some (int n, only_doge_message e) | None \<Rightarrow> None)
      | _ \<Rightarrow> None)"

fun read_validation_status :: "json \<Rightarrow> int option" where
  "read_validation_status (JObj fs) =
     (case own_prop (JObj fs) ''status'' of JNum (JInt i) \<Rightarrow> Some i | _ \<Rightarrow> None)"
| "read_validation_status _ = None"

definition validation_status :: "json \<Rightarrow> int" where
  "validation_status e = (case read_validation_status e of Some i \<Rightarrow> i | None \<Rightarrow> 422)"

fun non_empty_string_or_null :: "json \<Rightarrow> string option" where
  "non_empty_string_or_null (JStr s) = (if js_trim s = [] then None else Some s)"
| "non_empty_string_or_null _ = None"

definition object_validation_error :: "json \<Rightarrow> string" where
  "object_validation_error e =
     (case non_empty_string_or_null (own_prop e ''summary'') of
        Some s \<Rightarrow> s
      | None \<Rightarrow> (case non_empty_string_or_null (own_prop e ''message'') of
          Some s \<Rightarrow> s | None \<Rightarrow> ''invalid request''))"

fun describe_validation_error :: "json \<Rightarrow> string" where
  "describe_validation_error (JObj fs) = object_validation_error (JObj fs)"
| "describe_validation_error (JArr xs) = object_validation_error (JArr xs)"
| "describe_validation_error _ = ''invalid request''"

definition handle_validation_error :: "api_failure \<Rightarrow> (int \<times> string) option" where
  "handle_validation_error f =
     (case f of Validation_Failed e \<Rightarrow> Some (validation_status e, describe_validation_error e) | _ \<Rightarrow> None)"

definition handle_not_found_error :: "api_failure \<Rightarrow> (int \<times> string) option" where
  "handle_not_found_error f = (case f of Route_Not_Found \<Rightarrow> Some (404, ''not found'') | _ \<Rightarrow> None)"

definition handle_unhandled_error :: "int \<times> string" where
  "handle_unhandled_error = (500, ''rekt'')"

definition known_api_error :: "(string \<Rightarrow> string) \<Rightarrow> api_failure \<Rightarrow> (int \<times> string) option" where
  "known_api_error hide f =
     (case find (\<lambda>r. r \<noteq> None) [handle_infrastructure_error hide f, handle_only_doge_error f,
             handle_validation_error f, handle_not_found_error f] of
        Some r \<Rightarrow> r | None \<Rightarrow> None)"

text \<open>Status and message of the response to an error.\<close>

definition handle_api_error :: "(string \<Rightarrow> string) \<Rightarrow> api_failure \<Rightarrow> int \<times> string" where
  "handle_api_error hide f =
     (case known_api_error hide f of Some r \<Rightarrow> r | None \<Rightarrow> handle_unhandled_error)"

section \<open>Caching\<close>

record cache_policy =
  cp_cache_control :: string
  cp_vary :: "string option"

definition no_store_policy :: cache_policy where
  "no_store_policy = \<lparr>cp_cache_control = ''no-store'', cp_vary = None\<rparr>"

definition private_fast_policy :: cache_policy where
  "private_fast_policy = \<lparr>cp_cache_control = ''private, max-age=5, stale-while-revalidate=15'',
     cp_vary = Some ''x-api-token''\<rparr>"

definition has_any_prefix :: "string \<Rightarrow> string list \<Rightarrow> bool" where
  "has_any_prefix path prefixes = list_ex (\<lambda>p. starts_with p path) prefixes"

definition cache_policy_rules :: "((string \<Rightarrow> bool) \<times> cache_policy) list" where
  "cache_policy_rules =
     [(\<lambda>path. path = ''/'' \<or> path = ''/up'' \<or> starts_with ''/v1/heartbeat'' path
         \<or> starts_with ''/v1/status'' path, no_store_policy),
      (starts_with ''/v1/explorer/search'', private_fast_policy),
      (starts_with ''/v1/explorer/mempool'',
         \<lparr>cp_cache_control = ''no-store'', cp_vary = Some ''x-api-token''\<rparr>),
      (starts_with ''/v1/explorer/addresses'',
         \<lparr>cp_cache_control = ''private, max-age=15, stale-while-revalidate=60'',
          cp_vary = Some ''x-api-token''\<rparr>),
      (\<lambda>path. has_any_prefix path [''/v1/explorer/blocks'', ''/v1/explorer/transactions''],
         \<lparr>cp_cache_control = ''private, max-age=30, stale-while-revalidate=120'',
          cp_vary = Some ''x-api-token''\<rparr>),
      (starts_with ''/openapi'',
         \<lparr>cp_cache_control = ''public, max-age=300, stale-while-revalidate=3600'', cp_vary = None\<rparr>),
      (\<lambda>path. path = ''/v1/keys'' \<or> starts_with ''/v1/keys/'' path,
         \<lparr>cp_cache_control = ''no-store'', cp_vary = Some ''x-api-token''\<rparr>)]"

definition is_cacheable_method :: "string \<Rightarrow> bool" where
  "is_cacheable_method rq_method \<longleftrightarrow> js_upper rq_method = ''GET'' \<or> js_upper rq_method = ''HEAD''"

definition should_disable_cache :: "string \<Rightarrow> int \<Rightarrow> bool" where
  "should_disable_cache rq_method status \<longleftrightarrow> 400 \<le> status \<or> \<not> is_cacheable_method rq_method"

definition has_trailing_cache_slash :: "string \<Rightarrow> bool" where
  "has_trailing_cache_slash path \<longleftrightarrow> path \<noteq> ''/'' \<and> ends_with ''/'' path"

definition normalize_cache_path :: "string \<Rightarrow> string" where
  "normalize_cache_path path = (if \<not> has_trailing_cache_slash path then path else butlast path)"

definition matched_policy_or_default :: "((string \<Rightarrow> bool) \<times> cache_policy) option \<Rightarrow> cache_policy" where
  "matched_policy_or_default rule = (case rule of None \<Rightarrow> no_store_policy | Some (_, p) \<Rightarrow> p)"

definition matched_cache_policy :: "string \<Rightarrow> cache_policy" where
  "matched_cache_policy path = matched_policy_or_default (find (\<lambda>(m, _). m path) cache_policy_rules)"

definition resolve_cache_policy :: "string \<Rightarrow> string \<Rightarrow> int \<Rightarrow> cache_policy" where
  "resolve_cache_policy rq_method path status =
     (if should_disable_cache rq_method status then no_store_policy
      else matched_cache_policy (normalize_cache_path path))"

definition is_open_api_html_path :: "string \<Rightarrow> bool" where
  "is_open_api_html_path path \<longleftrightarrow> starts_with ''/openapi'' path \<and> \<not> ends_with ''/json'' path"

definition text_content_type :: "string \<Rightarrow> string" where
  "text_content_type path =
     (if is_open_api_html_path path then ''text/html; charset=utf-8'' else ''text/plain; charset=utf-8'')"

lemma normalize_paths_agree: "normalize_auth_path path = normalize_cache_path path"
  by (simp add: normalize_auth_path_def normalize_cache_path_def strip_trailing_slash_def
      has_trailing_cache_slash_def)

lemma matched_cache_policy_cases:
  "\<not> is_public_route path \<Longrightarrow>
     cp_cache_control (matched_cache_policy path) = ''no-store''
     \<or> (cp_vary (matched_cache_policy path) = Some ''x-api-token''
        \<and> starts_with ''private'' (cp_cache_control (matched_cache_policy path)))"
  by (auto simp: matched_cache_policy_def matched_policy_or_default_def cache_policy_rules_def
      is_public_route_def public_route_prefixes_def no_store_policy_def private_fast_policy_def
      starts_with_def [of "''private''"])

text \<open>
  Nothing behind the token check is cached for others. The response to a request that fails,
  or that is not a GET or HEAD, is never stored. For every path that the token check does not
  treat as public, whatever the method and status, the response is either not stored, or private
  to the client and varying with the token header.
\<close>

theorem protected_responses_private:
  assumes "p = resolve_cache_policy rq_method path status"
  shows "(400 \<le> status \<or> \<not> is_cacheable_method rq_method \<longrightarrow> cp_cache_control p = ''no-store'')
    \<and> (\<not> is_public_route (normalize_auth_path path) \<longrightarrow>
         cp_cache_control p = ''no-store''
         \<or> (cp_vary p = Some ''x-api-token'' \<and> starts_with ''private'' (cp_cache_control p)))"
  using matched_cache_policy_cases assms unfolding normalize_paths_agree
  by (auto simp: resolve_cache_policy_def should_disable_cache_def no_store_policy_def)

theorem protected_responses_private_witness:
  "cp_vary (resolve_cache_policy ''get'' ''/v1/explorer/blocks/7/'' 200) = Some ''x-api-token''
   \<and> starts_with ''private'' (cp_cache_control (resolve_cache_policy ''get'' ''/v1/explorer/blocks/7/'' 200))"
proof -
  have "\<not> is_public_route (normalize_auth_path ''/v1/explorer/blocks/7/'')
      \<and> cp_cache_control (resolve_cache_policy ''get'' ''/v1/explorer/blocks/7/'' 200) \<noteq> ''no-store''" by code_simp
  with protected_responses_private [OF refl, of 200 "''get''" "''/v1/explorer/blocks/7/''"] show ?thesis by blast
qed

end
