(* ===== verification/Leader_Lease.thy ===== *)
theory Leader_Lease
  imports Metadata Config_Keys
begin

text \<open>
  The leader lease of the indexer service (\<^verbatim>\<open>core-dogecoin-indexer-service.ts\<close>, from
  \<^verbatim>\<open>leaseLeadership\<close> to \<^verbatim>\<open>assertPrimaryLease\<close>): processes, each with an id of its own drawn at
  start, compete for one configuration value by compare-and-swap. Reading the value, judging it
  and swapping it are separate steps, between which the others run and time passes; each process
  reads its own clock. A failing swap may have been performed or not. The text of a time stamp is
  \<^verbatim>\<open>Date.toISOString\<close> and \<^verbatim>\<open>Date.parse\<close>, an argument with the law that parsing inverts printing.
\<close>

section \<open>Leases\<close>

record date_text =
  dt_iso :: "int \<Rightarrow> string"
  dt_parse :: "string \<Rightarrow> js_num"

definition create_lease :: "date_text \<Rightarrow> string \<Rightarrow> int \<Rightarrow> json" where
  "create_lease dt instance_id now =
     JObj [(''instanceId'', JStr instance_id), (''heartbeatAt'', JStr (dt_iso dt now))]"

definition is_primary_lease_candidate :: "json \<Rightarrow> bool" where
  "is_primary_lease_candidate v \<longleftrightarrow> truthy v \<and> (case v of JStr _ \<Rightarrow> False | _ \<Rightarrow> True)"

definition has_primary_lease_shape :: "json \<Rightarrow> bool" where
  "has_primary_lease_shape v \<longleftrightarrow>
     (case (own_prop v ''instanceId'', own_prop v ''heartbeatAt'') of
        (JStr _, JStr _) \<Rightarrow> True | _ \<Rightarrow> False)"

definition to_primary_lease :: "json \<Rightarrow> json option" where
  "to_primary_lease v =
     (if \<not> is_primary_lease_candidate v then None else if \<not> has_primary_lease_shape v then None else Some v)"

fun lease_text :: "json \<Rightarrow> string" where
  "lease_text (JStr s) = s"
| "lease_text _ = []"

definition lease_instance :: "json \<Rightarrow> string" where
  "lease_instance l = lease_text (own_prop l ''instanceId'')"

text \<open>\<^verbatim>\<open>Date.now() - Date.parse(...)\<close>, which is not a number for an unreadable text.\<close>

definition lease_age :: "date_text \<Rightarrow> int \<Rightarrow> json \<Rightarrow> int option" where
  "lease_age dt now l =
     (case dt_parse dt (lease_text (own_prop l ''heartbeatAt'')) of JInt t \<Rightarrow> Some (now - t) | _ \<Rightarrow> None)"

definition is_fresh_primary_lease :: "date_text \<Rightarrow> int \<Rightarrow> json \<Rightarrow> int \<Rightarrow> bool" where
  "is_fresh_primary_lease dt now l interval =
     (case lease_age dt now l of Some a \<Rightarrow> a \<le> interval * 3 | None \<Rightarrow> False)"

definition has_fresh_primary_lease :: "date_text \<Rightarrow> int \<Rightarrow> json option \<Rightarrow> int \<Rightarrow> bool" where
  "has_fresh_primary_lease dt now own interval =
     (case own of
        None \<Rightarrow> False
      | Some l \<Rightarrow> (case lease_age dt now l of Some a \<Rightarrow> a < interval | None \<Rightarrow> False))"

section \<open>One process\<close>

text \<open>
  Where a process is: idle (outside the lease code), waiting for the value of the lease, holding
  the value read, or waiting for a swap (with the value it expects, where \<^verbatim>\<open>null\<close> stands for an
  absent key, the lease to store, and whether it renews or claims).
\<close>

datatype lease_phase = Idle | Reading | Holding json | Swapping "json option" json bool

record node =
  nd_lease :: "json option"
  nd_phase :: lease_phase

definition assert_primary_lease :: "node \<Rightarrow> unit res" where
  "assert_primary_lease n = (if nd_lease n = None then Inl PrimaryLeaseLostError else Inr ())"

definition lease_leadership :: "date_text \<Rightarrow> int \<Rightarrow> int \<Rightarrow> node \<Rightarrow> node" where
  "lease_leadership dt interval now n =
     (if has_fresh_primary_lease dt now (nd_lease n) interval then n else n\<lparr>nd_phase := Reading\<rparr>)"

definition renew_primary_lease :: "date_text \<Rightarrow> string \<Rightarrow> int \<Rightarrow> json \<Rightarrow> node \<Rightarrow> node" where
  "renew_primary_lease dt i now expected n = n\<lparr>nd_phase := Swapping (Some expected) (create_lease dt i now) True\<rparr>"

definition claim_primary_lease :: "date_text \<Rightarrow> string \<Rightarrow> int \<Rightarrow> json \<Rightarrow> node \<Rightarrow> node" where
  "claim_primary_lease dt i now current n =
     n\<lparr>nd_phase := Swapping (if current = JNull then None else Some current) (create_lease dt i now) False\<rparr>"

definition lease_competing_primary :: "date_text \<Rightarrow> int \<Rightarrow> string \<Rightarrow> int \<Rightarrow> json \<Rightarrow> node \<Rightarrow> node" where
  "lease_competing_primary dt interval i now current n =
     (if is_fresh_primary_lease dt now current interval then n\<lparr>nd_lease := None, nd_phase := Idle\<rparr>
      else claim_primary_lease dt i now current n)"

definition lease_known_primary :: "date_text \<Rightarrow> int \<Rightarrow> string \<Rightarrow> int \<Rightarrow> json \<Rightarrow> node \<Rightarrow> node" where
  "lease_known_primary dt interval i now current n =
     (if lease_instance current = i then renew_primary_lease dt i now current n
      else lease_competing_primary dt interval i now current n)"

text \<open>The rest of \<^verbatim>\<open>leaseLeadership\<close>, once the value has been read.\<close>

definition judge_lease :: "date_text \<Rightarrow> int \<Rightarrow> string \<Rightarrow> int \<Rightarrow> node \<Rightarrow> node" where
  "judge_lease dt interval i now n =
     (case nd_phase n of
        Holding current \<Rightarrow>
          (case to_primary_lease current of
             None \<Rightarrow> claim_primary_lease dt i now current n
           | Some l \<Rightarrow> lease_known_primary dt interval i now current n)
      | _ \<Rightarrow> n)"

text \<open>The timer of \<^verbatim>\<open>runWithPrimaryLeaseHeartbeat\<close>.\<close>

definition heartbeat :: "date_text \<Rightarrow> string \<Rightarrow> int \<Rightarrow> node \<Rightarrow> node" where
  "heartbeat dt i now n =
     (case nd_lease n of None \<Rightarrow> n | Some l \<Rightarrow> if nd_phase n = Idle then renew_primary_lease dt i now l n else n)"

text \<open>How a swap ends: with its answer, or with an error before or after it was performed.\<close>

datatype swap_outcome = Answered | Failed_Before | Failed_After

definition finish_swap :: "swap_outcome \<Rightarrow> node \<Rightarrow> app_config \<Rightarrow> node \<times> app_config" where
  "finish_swap out n c =
     (case nd_phase n of
        Swapping expected nxt renewing \<Rightarrow>
          (let (won, c') = compare_and_swap_json_value config_key_primary expected nxt c in
           case out of
             Answered \<Rightarrow> (n\<lparr>nd_lease := if won then Some nxt else None, nd_phase := Idle\<rparr>, c')
           | Failed_Before \<Rightarrow> (n\<lparr>nd_lease := if renewing then None else nd_lease n, nd_phase := Idle\<rparr>, c)
           | Failed_After \<Rightarrow> (n\<lparr>nd_lease := if renewing then None else nd_lease n, nd_phase := Idle\<rparr>, c'))
      | _ \<Rightarrow> (n, c))"

section \<open>Many processes\<close>

record cluster =
  cl_now :: int
  cl_config :: app_config
  cl_nodes :: "string \<Rightarrow> node"

datatype lease_event = Tick nat | Lead string | Read_Lease string | Judge string | Heartbeat string | Finish string swap_outcome

text \<open>\<open>skew i\<close> is how far the clock of process \<open>i\<close> is ahead.\<close>

definition set_node :: "string \<Rightarrow> node \<Rightarrow> cluster \<Rightarrow> cluster" where
  "set_node i n c = c\<lparr>cl_nodes := (cl_nodes c)(i := n)\<rparr>"

fun lease_step :: "date_text \<Rightarrow> int \<Rightarrow> (string \<Rightarrow> int) \<Rightarrow> lease_event \<Rightarrow> cluster \<Rightarrow> cluster" where
  "lease_step dt interval skew (Tick d) c = c\<lparr>cl_now := cl_now c + int d\<rparr>"
| "lease_step dt interval skew (Lead i) c =
     (if nd_phase (cl_nodes c i) = Idle
      then set_node i (lease_leadership dt interval (cl_now c + skew i) (cl_nodes c i)) c else c)"
| "lease_step dt interval skew (Read_Lease i) c =
     (if nd_phase (cl_nodes c i) = Reading
      then set_node i ((cl_nodes c i)\<lparr>nd_phase := Holding (get_json_value config_key_primary (cl_config c))\<rparr>) c
      else c)"
| "lease_step dt interval skew (Judge i) c =
     set_node i (judge_lease dt interval i (cl_now c + skew i) (cl_nodes c i)) c"
| "lease_step dt interval skew (Heartbeat i) c =
     set_node i (heartbeat dt i (cl_now c + skew i) (cl_nodes c i)) c"
| "lease_step dt interval skew (Finish i out) c =
     (let (n, config) = finish_swap out (cl_nodes c i) (cl_config c) in set_node i n c\<lparr>cl_config := config\<rparr>)"

definition lease_run :: "date_text \<Rightarrow> int \<Rightarrow> (string \<Rightarrow> int) \<Rightarrow> lease_event list \<Rightarrow> cluster \<Rightarrow> cluster" where
  "lease_run dt interval skew es c = fold (lease_step dt interval skew) es c"

definition fresh_cluster :: "app_config \<Rightarrow> cluster" where
  "fresh_cluster config = \<lparr>cl_now = 0, cl_config = config, cl_nodes = \<lambda>_. \<lparr>nd_lease = None, nd_phase = Idle\<rparr>\<rparr>"

section \<open>At most one fresh lease\<close>

text \<open>
  A lease stamped \<open>t\<close> is overtaken when the clock of some process is more than three heartbeats
  past it. What holds of process \<open>i\<close>: the lease it believes in is the stored one or overtaken; the
  lease of another process that it is about to replace is overtaken.
\<close>

definition overtaken :: "int \<Rightarrow> (string \<Rightarrow> int) \<Rightarrow> int \<Rightarrow> int \<Rightarrow> bool" where
  "overtaken interval skew now t \<longleftrightarrow> (\<exists>j. t + 3 * interval < now + skew j)"

definition stored_lease :: "cluster \<Rightarrow> json option" where
  "stored_lease c = js_get (cl_config c) config_key_primary"

definition belief_ok :: "date_text \<Rightarrow> int \<Rightarrow> (string \<Rightarrow> int) \<Rightarrow> cluster \<Rightarrow> string \<Rightarrow> json \<Rightarrow> bool" where
  "belief_ok dt interval skew c i l \<longleftrightarrow>
     (\<exists>t. l = create_lease dt i t \<and> (stored_lease c = Some l \<or> overtaken interval skew (cl_now c) t))"

definition phase_ok :: "date_text \<Rightarrow> int \<Rightarrow> (string \<Rightarrow> int) \<Rightarrow> cluster \<Rightarrow> string \<Rightarrow> lease_phase \<Rightarrow> bool" where
  "phase_ok dt interval skew c i p \<longleftrightarrow>
     (case p of
        Swapping expected nxt renewing \<Rightarrow>
          (\<exists>t. nxt = create_lease dt i t)
          \<and> (\<forall>k t. expected = Some (create_lease dt k t) \<longrightarrow>
               (k = i \<and> renewing) \<or> overtaken interval skew (cl_now c) t)
      | _ \<Rightarrow> True)"

definition lease_inv :: "date_text \<Rightarrow> int \<Rightarrow> (string \<Rightarrow> int) \<Rightarrow> cluster \<Rightarrow> bool" where
  "lease_inv dt interval skew c \<longleftrightarrow>
     (\<forall>i. (\<forall>l. nd_lease (cl_nodes c i) = Some l \<longrightarrow> belief_ok dt interval skew c i l)
        \<and> phase_ok dt interval skew c i (nd_phase (cl_nodes c i)))"

definition date_law :: "date_text \<Rightarrow> bool" where
  "date_law dt \<longleftrightarrow> (\<forall>t. dt_parse dt (dt_iso dt t) = JInt t)"

lemma create_lease_inject:
  "date_law dt \<Longrightarrow> create_lease dt i t = create_lease dt k u \<longleftrightarrow> i = k \<and> t = u"
  by (auto simp: create_lease_def date_law_def) (metis js_num.inject(1))

lemma created_lease [simp]:
  "lease_instance (create_lease dt i t) = i"
  "date_law dt \<Longrightarrow> lease_age dt now (create_lease dt i t) = Some (now - t)"
  "to_primary_lease (create_lease dt i t) = Some (create_lease dt i t)"
  "create_lease dt i t \<noteq> JNull" "JNull \<noteq> create_lease dt i t"
  by (simp_all add: create_lease_def lease_instance_def lease_age_def date_law_def to_primary_lease_def
      is_primary_lease_candidate_def has_primary_lease_shape_def)

lemma lease_leadership_lease [simp]: "nd_lease (lease_leadership dt interval now n) = nd_lease n"
  by (simp add: lease_leadership_def)

lemma overtaken_later: "overtaken interval skew now t \<Longrightarrow> now \<le> now' \<Longrightarrow> overtaken interval skew now' t"
  unfolding overtaken_def by (metis add_mono_thms_linordered_semiring(3) order_less_le_trans)

lemma inv_same_view:
  assumes "lease_inv dt interval skew c" and "stored_lease c' = stored_lease c" and "cl_now c \<le> cl_now c'"
    and "\<And>k. k \<noteq> i \<Longrightarrow> cl_nodes c' k = cl_nodes c k"
    and "\<And>l. nd_lease (cl_nodes c' i) = Some l \<Longrightarrow> belief_ok dt interval skew c i l"
    and "phase_ok dt interval skew c i (nd_phase (cl_nodes c' i))"
  shows "lease_inv dt interval skew c'"
proof -
  have b: "belief_ok dt interval skew c' k l" if "belief_ok dt interval skew c k l" for k l
    using that assms(2,3) overtaken_later by (fastforce simp: belief_ok_def)
  have p: "phase_ok dt interval skew c' k q" if "phase_ok dt interval skew c k q" for k q
    using that overtaken_later [OF _ assms(3)] by (cases q) (fastforce simp: phase_ok_def)+
  show ?thesis
    unfolding lease_inv_def
  proof
    fix k
    show "(\<forall>l. nd_lease (cl_nodes c' k) = Some l \<longrightarrow> belief_ok dt interval skew c' k l)
        \<and> phase_ok dt interval skew c' k (nd_phase (cl_nodes c' k))"
      using assms(1,4-6) b p by (cases "k = i") (auto simp: lease_inv_def)
  qed
qed

lemma judge_ok:
  assumes "date_law dt" and "phase_ok dt interval skew c i (nd_phase n)"
  shows "phase_ok dt interval skew c i (nd_phase (judge_lease dt interval i (cl_now c + skew i) n))
    \<and> (nd_lease (judge_lease dt interval i (cl_now c + skew i) n) = nd_lease n
       \<or> nd_lease (judge_lease dt interval i (cl_now c + skew i) n) = None)"
proof (cases "nd_phase n")
  case (Holding v)
  have created: "to_primary_lease v = Some v" if "v = create_lease dt k t" for k t using that by simp
  have late: "overtaken interval skew (cl_now c) t"
    if "\<not> is_fresh_primary_lease dt (cl_now c + skew i) (create_lease dt k t) interval" for k t
    using that assms(1) by (auto simp: is_fresh_primary_lease_def overtaken_def intro!: exI [of _ i])
  let ?now = "cl_now c + skew i"
  have claim: "phase_ok dt interval skew c i (nd_phase (claim_primary_lease dt i ?now v n))"
    if "\<And>k t. v = create_lease dt k t \<Longrightarrow> \<not> is_fresh_primary_lease dt ?now v interval"
    using that late by (auto simp: claim_primary_lease_def phase_ok_def)
  have renew: "phase_ok dt interval skew c i (nd_phase (renew_primary_lease dt i ?now v n))" if "lease_instance v = i"
    using that by (auto simp: renew_primary_lease_def phase_ok_def)
  consider (none) "to_primary_lease v = None" | (own) "to_primary_lease v = Some v" "lease_instance v = i"
    | (fresh) "to_primary_lease v = Some v" "lease_instance v \<noteq> i" "is_fresh_primary_lease dt ?now v interval"
    | (stale) "to_primary_lease v = Some v" "lease_instance v \<noteq> i" "\<not> is_fresh_primary_lease dt ?now v interval"
    by (cases "to_primary_lease v") (auto simp: to_primary_lease_def split: if_splits)
  then show ?thesis
  proof cases
    case none
    then have "v \<noteq> create_lease dt k t" for k t using created by auto
    moreover have "judge_lease dt interval i ?now n = claim_primary_lease dt i ?now v n"
      using none Holding by (simp add: judge_lease_def)
    moreover have "nd_lease (claim_primary_lease dt i ?now v n) = nd_lease n" by (simp add: claim_primary_lease_def)
    ultimately show ?thesis using claim by simp
  next
    case own
    then show ?thesis using renew Holding by (simp add: judge_lease_def lease_known_primary_def renew_primary_lease_def)
  next
    case fresh
    then show ?thesis using Holding
      by (simp add: judge_lease_def lease_known_primary_def lease_competing_primary_def phase_ok_def)
  next
    case stale
    then have "judge_lease dt interval i ?now n = claim_primary_lease dt i ?now v n"
      using Holding by (simp add: judge_lease_def lease_known_primary_def lease_competing_primary_def)
    moreover have "nd_lease (claim_primary_lease dt i ?now v n) = nd_lease n" by (simp add: claim_primary_lease_def)
    moreover have "phase_ok dt interval skew c i (nd_phase (claim_primary_lease dt i ?now v n))"
      by (rule claim) (use stale(3) in blast)
    ultimately show ?thesis by simp
  qed
qed (use assms in \<open>simp_all add: judge_lease_def\<close>)

lemma finish_inv:
  assumes inv: "lease_inv dt interval skew c" and law: "date_law dt"
  shows "lease_inv dt interval skew (lease_step dt interval skew (Finish i out) c)"
proof (cases "nd_phase (cl_nodes c i)")
  case (Swapping e nxt renewing)
  let ?n = "cl_nodes c i"
  have "phase_ok dt interval skew c i (nd_phase ?n)" using inv by (simp add: lease_inv_def)
  then obtain t where nxt: "nxt = create_lease dt i t"
    and e: "\<And>k u. e = Some (create_lease dt k u) \<Longrightarrow> (k = i \<and> renewing) \<or> overtaken interval skew (cl_now c) u"
    using Swapping by (auto simp: phase_ok_def)
  obtain n' config where f: "finish_swap out ?n (cl_config c) = (n', config)"
    by (cases "finish_swap out ?n (cl_config c)")
  have step: "lease_step dt interval skew (Finish i out) c = set_node i n' c\<lparr>cl_config := config\<rparr>"
    using f by simp
  have idle: "nd_phase n' = Idle"
    using f Swapping by (auto simp: finish_swap_def Let_def split: prod.splits swap_outcome.splits)
  define c' where "c' = set_node i n' c\<lparr>cl_config := config\<rparr>"
  have now: "cl_now c' = cl_now c" and nodes: "cl_nodes c' = (cl_nodes c)(i := n')"
    by (simp_all add: c'_def set_node_def)
  have written: "stored_lease c' = stored_lease c \<or> stored_lease c = e \<and> stored_lease c' = Some nxt"
    using f Swapping
    by (auto simp: finish_swap_def Let_def stored_lease_def c'_def set_node_def compare_and_swap_json_value_def
        js_get_set split: if_splits swap_outcome.splits)
  have own: "(nd_lease n' = Some nxt \<and> stored_lease c' = Some nxt) \<or> nd_lease n' = None
      \<or> (nd_lease n' = nd_lease ?n \<and> \<not> renewing)"
    using f Swapping
    by (auto simp: finish_swap_def Let_def stored_lease_def c'_def set_node_def compare_and_swap_json_value_def
        js_get_set split: if_splits swap_outcome.splits)
  have kept: "belief_ok dt interval skew c' k l"
    if believed: "belief_ok dt interval skew c k l" and other: "k \<noteq> i \<or> \<not> renewing" for k l
  proof -
    obtain u where u: "l = create_lease dt k u" "stored_lease c = Some l \<or> overtaken interval skew (cl_now c) u"
      using believed by (auto simp: belief_ok_def)
    show ?thesis
    proof (cases "overtaken interval skew (cl_now c) u")
      case True
      then show ?thesis using u(1) now by (auto simp: belief_ok_def)
    next
      case False
      then have "stored_lease c = Some l" using u(2) by simp
      moreover have "e \<noteq> Some l" using e [of k u] u(1) False other by auto
      ultimately have "stored_lease c' = Some l" using written by auto
      then show ?thesis using u(1) by (auto simp: belief_ok_def)
    qed
  qed
  have "lease_inv dt interval skew c'"
    unfolding lease_inv_def
  proof
    fix k
    show "(\<forall>l. nd_lease (cl_nodes c' k) = Some l \<longrightarrow> belief_ok dt interval skew c' k l)
        \<and> phase_ok dt interval skew c' k (nd_phase (cl_nodes c' k))"
    proof (cases "k = i")
      case False
      have same: "phase_ok dt interval skew c' k p = phase_ok dt interval skew c k p" for p
        by (simp only: phase_ok_def now)
      have "\<forall>l. nd_lease (cl_nodes c k) = Some l \<longrightarrow> belief_ok dt interval skew c' k l"
        using inv kept False by (auto simp: lease_inv_def)
      then show ?thesis using inv False by (simp add: nodes same lease_inv_def)
    next
      case True
      have "belief_ok dt interval skew c' i l" if l: "nd_lease n' = Some l" for l
        using own
      proof (elim disjE conjE)
        assume "nd_lease n' = Some nxt" "stored_lease c' = Some nxt"
        then show ?thesis using l nxt by (auto simp: belief_ok_def)
      next
        assume "nd_lease n' = nd_lease ?n" "\<not> renewing"
        then show ?thesis using l inv kept [of i l] by (auto simp: lease_inv_def)
      qed (use l in simp)
      then show ?thesis using True idle nodes by (simp add: phase_ok_def)
    qed
  qed
  then show ?thesis by (simp only: step c'_def)
qed (use inv in \<open>simp_all add: finish_swap_def set_node_def\<close>)

lemma lease_inv_step:
  assumes inv: "lease_inv dt interval skew c" and law: "date_law dt"
  shows "lease_inv dt interval skew (lease_step dt interval skew ev c)"
proof (cases ev)
  case (Tick d)
  show ?thesis unfolding Tick
    by (rule inv_same_view [OF inv, where i = "[]"]) (use inv in \<open>auto simp: stored_lease_def lease_inv_def\<close>)
next
  case (Lead i)
  show ?thesis unfolding Lead
    by (rule inv_same_view [OF inv, where i = i])
      (use inv in \<open>auto simp: stored_lease_def lease_inv_def set_node_def lease_leadership_def phase_ok_def split: if_splits\<close>)
next
  case (Read_Lease i)
  show ?thesis unfolding Read_Lease
    by (rule inv_same_view [OF inv, where i = i])
      (use inv in \<open>auto simp: stored_lease_def lease_inv_def set_node_def phase_ok_def split: if_splits\<close>)
next
  case (Judge i)
  have p: "phase_ok dt interval skew c i (nd_phase (cl_nodes c i))"
    and b: "\<And>l. nd_lease (cl_nodes c i) = Some l \<Longrightarrow> belief_ok dt interval skew c i l"
    using inv by (simp_all add: lease_inv_def)
  show ?thesis unfolding Judge
    by (rule inv_same_view [OF inv, where i = i])
      (use judge_ok [OF law p] b in \<open>auto simp: stored_lease_def set_node_def\<close>)
next
  case (Heartbeat i)
  have p: "phase_ok dt interval skew c i (nd_phase (cl_nodes c i))"
    and b: "\<And>l. nd_lease (cl_nodes c i) = Some l \<Longrightarrow> belief_ok dt interval skew c i l"
    using inv by (simp_all add: lease_inv_def)
  have "phase_ok dt interval skew c i (nd_phase (heartbeat dt i (cl_now c + skew i) (cl_nodes c i)))"
  proof (cases "nd_lease (cl_nodes c i)")
    case None
    then show ?thesis using p by (simp add: heartbeat_def)
  next
    case (Some l)
    from b [OF this] show ?thesis using p Some
      by (auto simp: heartbeat_def renew_primary_lease_def phase_ok_def belief_ok_def create_lease_inject [OF law])
  qed
  then show ?thesis unfolding Heartbeat using b
    by (intro inv_same_view [OF inv, where i = i])
      (auto simp: stored_lease_def set_node_def heartbeat_def renew_primary_lease_def split: option.splits if_splits)
next
  case (Finish i out)
  then show ?thesis using finish_inv [OF inv law] by simp
qed

lemma lease_inv_run:
  assumes "date_law dt" and "lease_inv dt interval skew c"
  shows "lease_inv dt interval skew (lease_run dt interval skew es c)"
  using assms(2) lease_inv_step [OF _ assms(1)]
  by (induction es arbitrary: c) (simp_all add: lease_run_def)

text \<open>
  C6. At most one process holds a fresh lease. Let any number of processes claim, renew and lose
  the lease in any interleaving, with swaps whose answers are lost before or after they took
  effect and whatever was stored before, and let their clocks differ by at most two heartbeats: a
  process whose lease is less than one heartbeat old by its own clock (the test that lets it skip
  the store) is the one whose lease is stored, so no two processes pass that test at once.
\<close>

theorem one_fresh_lease:
  assumes "date_law dt" and "\<And>i j. skew j - skew i \<le> 2 * interval"
    and "c = lease_run dt interval skew es (fresh_cluster config)"
    and "has_fresh_primary_lease dt (cl_now c + skew i) (nd_lease (cl_nodes c i)) interval"
  shows "stored_lease c = nd_lease (cl_nodes c i)
    \<and> (\<forall>k. k \<noteq> i \<longrightarrow> \<not> has_fresh_primary_lease dt (cl_now c + skew k) (nd_lease (cl_nodes c k)) interval)"
proof -
  have inv: "lease_inv dt interval skew c"
    unfolding assms(3)
    by (rule lease_inv_run [OF assms(1)]) (simp add: lease_inv_def fresh_cluster_def phase_ok_def)
  have stored: "\<exists>t. nd_lease (cl_nodes c k) = Some (create_lease dt k t) \<and> stored_lease c = Some (create_lease dt k t)"
    if fresh: "has_fresh_primary_lease dt (cl_now c + skew k) (nd_lease (cl_nodes c k)) interval" for k
  proof -
    obtain l where l: "nd_lease (cl_nodes c k) = Some l"
      using fresh by (auto simp: has_fresh_primary_lease_def split: option.splits)
    then obtain t where t: "l = create_lease dt k t" "stored_lease c = Some l \<or> overtaken interval skew (cl_now c) t"
      using inv by (auto simp: lease_inv_def belief_ok_def)
    have "cl_now c + skew k - t < interval" using fresh l t(1) assms(1) by (simp add: has_fresh_primary_lease_def)
    then have "\<not> overtaken interval skew (cl_now c) t"
      using assms(2) [of _ k] by (auto simp: overtaken_def not_less) (smt (verit, best))
    then show ?thesis using l t by blast
  qed
  show ?thesis using stored [OF assms(4)] stored create_lease_inject [OF assms(1)] by (metis option.inject)
qed

text \<open>
  Two processes may both believe in their leases: the one that was replaced while its renewal
  hangs still passes \<open>assert_primary_lease\<close>, which only asks for a lease, not for its age.
\<close>

definition sample_dates :: date_text where
  "sample_dates = \<lparr>dt_iso = int_str, dt_parse = (\<lambda>s. case js_bigint s of Inr i \<Rightarrow> JInt i | Inl _ \<Rightarrow> JNaN)\<rparr>"

definition takeover :: "lease_event list" where
  "takeover = [Lead ''a'', Read_Lease ''a'', Judge ''a'', Finish ''a'' Answered, Tick 31,
     Lead ''b'', Read_Lease ''b'', Judge ''b'', Finish ''b'' Answered]"

theorem one_fresh_lease_witness:
  "let c = lease_run sample_dates 10 (\<lambda>_. 0) takeover (fresh_cluster []) in
   assert_primary_lease (cl_nodes c ''a'') = Inr () \<and> assert_primary_lease (cl_nodes c ''b'') = Inr ()
   \<and> stored_lease c = nd_lease (cl_nodes c ''b'')
   \<and> \<not> has_fresh_primary_lease sample_dates (cl_now c) (nd_lease (cl_nodes c ''a'')) 10"
proof -
  let ?c = "lease_run sample_dates 10 (\<lambda>_. 0) takeover (fresh_cluster [])"
  have law: "date_law sample_dates" by (simp add: date_law_def sample_dates_def)
  have run: "assert_primary_lease (cl_nodes ?c ''a'') = Inr () \<and> assert_primary_lease (cl_nodes ?c ''b'') = Inr ()
      \<and> has_fresh_primary_lease sample_dates (cl_now ?c + 0) (nd_lease (cl_nodes ?c ''b'')) 10" by code_simp
  have "stored_lease ?c = nd_lease (cl_nodes ?c ''b'')
      \<and> (\<forall>k. k \<noteq> ''b'' \<longrightarrow> \<not> has_fresh_primary_lease sample_dates (cl_now ?c + 0) (nd_lease (cl_nodes ?c k)) 10)"
    by (rule one_fresh_lease [OF law _ refl]) (use run in simp_all)
  then have "stored_lease ?c = nd_lease (cl_nodes ?c ''b'')"
    "\<not> has_fresh_primary_lease sample_dates (cl_now ?c) (nd_lease (cl_nodes ?c ''a'')) 10" by simp_all
  then show ?thesis using run by (simp add: Let_def)
qed

end
