(* ===== verification/Prefetcher.thy ===== *)
theory Prefetcher
  imports Raw_Sync
begin

text \<open>
  The ordered read-ahead of \<^verbatim>\<open>core-block-prefetcher.ts\<close>. A fetch in flight is an entry of
  \<open>pf_pending\<close>, with the generation and the heights it was started for; it settles at any later
  time with any answer. One \<open>get\<close> is split at its \<^verbatim>\<open>await\<close> into \<open>get_start\<close> and \<open>get_finish\<close>.
  Weights and their running average are rationals here where the code rounds; they only decide
  how far ahead is read.
\<close>

section \<open>The prefetcher\<close>

record prefetch_options =
  po_batch_size :: int
  po_concurrency :: int
  po_max_buffered_blocks :: int
  po_max_buffered_weight :: rat

record 's prefetch_batch =
  pb_start :: int
  pb_end :: int
  pb_generation :: int
  pb_snapshots :: "'s list option"
  pb_error :: "js_error option"
  pb_weight :: rat

record 's prefetcher =
  pf_average_weight :: rat
  pf_batches :: "'s prefetch_batch list"
  pf_generation :: int
  pf_in_flight :: int
  pf_limit :: int
  pf_next_start :: int
  pf_pending :: "(int \<times> int \<times> int) list"

definition new_prefetcher :: "'s prefetcher" where
  "new_prefetcher = \<lparr>pf_average_weight = 0, pf_batches = [], pf_generation = 0, pf_in_flight = 0,
     pf_limit = - 1, pf_next_start = 0, pf_pending = []\<rparr>"

definition batch_blocks :: "'s prefetch_batch \<Rightarrow> int" where
  "batch_blocks b = pb_end b - pb_start b + 1"

definition buffered_blocks :: "'s prefetcher \<Rightarrow> int" where
  "buffered_blocks s = sum_list (map batch_blocks (pf_batches s))"

definition batch_weight :: "rat \<Rightarrow> 's prefetch_batch \<Rightarrow> rat" where
  "batch_weight average b =
     (case pb_snapshots b of Some _ \<Rightarrow> pb_weight b | None \<Rightarrow> of_int (batch_blocks b) * average)"

definition buffered_weight :: "'s prefetcher \<Rightarrow> rat" where
  "buffered_weight s = sum_list (map (batch_weight (pf_average_weight s)) (pf_batches s))"

definition has_budget :: "prefetch_options \<Rightarrow> 's prefetcher \<Rightarrow> bool" where
  "has_budget opts s \<longleftrightarrow> buffered_blocks s < po_max_buffered_blocks opts
     \<and> buffered_weight s < po_max_buffered_weight opts"

definition should_schedule :: "prefetch_options \<Rightarrow> int \<Rightarrow> 's prefetcher \<Rightarrow> bool" where
  "should_schedule opts cursor s =
     (if pf_limit s < pf_next_start s then False
      else if pf_next_start s \<le> cursor then True
      else pf_in_flight s < po_concurrency opts \<and> has_budget opts s)"

definition schedule :: "prefetch_options \<Rightarrow> 's prefetcher \<Rightarrow> 's prefetcher" where
  "schedule opts s =
     (let start = pf_next_start s;
          end' = min (pf_limit s) (start + max 1 (po_batch_size opts) - 1) in
      s\<lparr>pf_next_start := end' + 1, pf_in_flight := pf_in_flight s + 1,
        pf_batches := pf_batches s @ [\<lparr>pb_start = start, pb_end = end', pb_generation = pf_generation s,
          pb_snapshots = None, pb_error = None, pb_weight = 0\<rparr>],
        pf_pending := pf_pending s @ [(pf_generation s, start, end')]\<rparr>)"

function pump :: "prefetch_options \<Rightarrow> int \<Rightarrow> 's prefetcher \<Rightarrow> 's prefetcher" where
  "pump opts cursor s = (if should_schedule opts cursor s then pump opts cursor (schedule opts s) else s)"
  by pat_completeness auto

termination
  by (relation "measure (\<lambda>(opts, cursor, s). nat (pf_limit s + 1 - pf_next_start s))")
    (auto simp: should_schedule_def schedule_def Let_def split: if_splits)

declare pump.simps [simp del]

definition reset_prefetcher :: "'s prefetcher \<Rightarrow> 's prefetcher" where
  "reset_prefetcher s = s\<lparr>pf_generation := pf_generation s + 1, pf_batches := [], pf_in_flight := 0\<rparr>"

definition covers :: "int \<Rightarrow> 's prefetcher \<Rightarrow> bool" where
  "covers height s =
     (case pf_batches s of [] \<Rightarrow> False | b # _ \<Rightarrow> pb_start b \<le> height \<and> height \<le> pf_next_start s)"

definition align_to :: "int \<Rightarrow> 's prefetcher \<Rightarrow> 's prefetcher" where
  "align_to height s =
     (if \<not> covers height s then (reset_prefetcher s)\<lparr>pf_next_start := height\<rparr>
      else s\<lparr>pf_batches := filter (\<lambda>b. height \<le> pb_end b) (pf_batches s)\<rparr>)"

definition batch_for :: "int \<Rightarrow> 's prefetcher \<Rightarrow> 's prefetch_batch option" where
  "batch_for height s = find (\<lambda>b. pb_start b \<le> height \<and> height \<le> pb_end b) (pf_batches s)"

text \<open>Up to the \<^verbatim>\<open>await\<close>: the start and the generation of the batch that \<open>get\<close> waits for.\<close>

definition get_start :: "prefetch_options \<Rightarrow> int \<Rightarrow> int \<Rightarrow> 's prefetcher \<Rightarrow> (int \<times> int) res \<times> 's prefetcher" where
  "get_start opts height limit s =
     (let s' = pump opts height (align_to height (s\<lparr>pf_limit := limit\<rparr>)) in
      case batch_for height s' of
        None \<Rightarrow> (Inl (GenericError (''core block prefetch has no batch for height='' @ int_str height)), s')
      | Some b \<Rightarrow> (Inr (pb_start b, pb_generation b), s'))"

text \<open>After it, once the batch has settled; \<open>None\<close> while it has not.\<close>

definition get_finish :: "int \<Rightarrow> int \<times> int \<Rightarrow> 's prefetcher \<Rightarrow> ('s res \<times> 's prefetcher) option" where
  "get_finish height key s =
     (let (start, generation) = key in
      if generation \<noteq> pf_generation s
      then Some (Inl (GenericError (''core block prefetch was reset while height='' @ int_str height
             @ '' was pending'')), s)
      else case find (\<lambda>b. pb_start b = start) (pf_batches s) of
        None \<Rightarrow> None
      | Some b \<Rightarrow>
          (case pb_snapshots b of
             None \<Rightarrow> (case pb_error b of None \<Rightarrow> None | Some e \<Rightarrow> Some (Inl e, reset_prefetcher s))
           | Some xs \<Rightarrow>
               if nat (height - start) < length xs then Some (Inr (xs ! nat (height - start)), s)
               else Some (Inl (GenericError (''core block prefetch returned no snapshot for height=''
                      @ int_str height)), reset_prefetcher s)))"

definition observe_weight :: "rat \<Rightarrow> rat \<Rightarrow> rat" where
  "observe_weight average sample = (if average = 0 then sample else average + 3 / 10 * (sample - average))"

definition update_batch :: "int \<Rightarrow> ('s prefetch_batch \<Rightarrow> 's prefetch_batch) \<Rightarrow> 's prefetcher \<Rightarrow> 's prefetcher" where
  "update_batch start f s =
     s\<lparr>pf_batches := map (\<lambda>b. if pb_start b = start then f b else b) (pf_batches s)\<rparr>"

definition settle ::
  "prefetch_options \<Rightarrow> ('s \<Rightarrow> rat) \<Rightarrow> int \<times> int \<times> int \<Rightarrow> 's list res \<Rightarrow> 's prefetcher \<Rightarrow> 's prefetcher" where
  "settle opts weigh fetch answer s =
     (let (generation, start, end') = fetch; expected = end' - start + 1 in
      if generation \<noteq> pf_generation s then s
      else
        (let s1 = s\<lparr>pf_in_flight := pf_in_flight s - 1\<rparr> in
         case answer of
           Inl e \<Rightarrow> update_batch start (\<lambda>b. b\<lparr>pb_error := Some e\<rparr>) s1
         | Inr xs \<Rightarrow>
             if int (length xs) \<noteq> expected
             then update_batch start (\<lambda>b. b\<lparr>pb_error := Some (GenericError
                    (''core block prefetch size mismatch requested='' @ int_str expected
                     @ '' received='' @ nat_str (length xs)))\<rparr>) s1
             else
               (let weight = sum_list (map weigh xs);
                    s2 = update_batch start (\<lambda>b. b\<lparr>pb_snapshots := Some xs, pb_weight := weight\<rparr>) s1;
                    s3 = s2\<lparr>pf_average_weight := observe_weight (pf_average_weight s2) (weight / of_int expected)\<rparr> in
                pump opts (case pf_batches s3 of [] \<Rightarrow> start | b # _ \<Rightarrow> pb_start b) s3)))"

section \<open>Runs\<close>

text \<open>
  A consumer that asks for one height after the other, with fetches settling in between. The
  history keeps every snapshot handed out with the height it was asked for.
\<close>

datatype 's prefetch_event = Get int int | Settle nat "'s list res" | Finish_Get | Reset

record 's prefetch_run =
  pr_prefetcher :: "'s prefetcher"
  pr_waiting :: "(int \<times> int \<times> int) option"
  pr_history :: "(int \<times> 's) list"

fun prefetch_step ::
  "prefetch_options \<Rightarrow> ('s \<Rightarrow> rat) \<Rightarrow> 's prefetch_event \<Rightarrow> 's prefetch_run \<Rightarrow> 's prefetch_run" where
  "prefetch_step opts weigh (Get height limit) r =
     (if pr_waiting r \<noteq> None then r
      else case get_start opts height limit (pr_prefetcher r) of
        (Inl e, s) \<Rightarrow> r\<lparr>pr_prefetcher := s\<rparr>
      | (Inr key, s) \<Rightarrow> r\<lparr>pr_prefetcher := s, pr_waiting := Some (height, key)\<rparr>)"
| "prefetch_step opts weigh (Settle i answer) r =
     (let s = pr_prefetcher r in
      if i < length (pf_pending s)
      then r\<lparr>pr_prefetcher := settle opts weigh (pf_pending s ! i) answer
               (s\<lparr>pf_pending := take i (pf_pending s) @ drop (Suc i) (pf_pending s)\<rparr>)\<rparr>
      else r)"
| "prefetch_step opts weigh Finish_Get r =
     (case pr_waiting r of
        None \<Rightarrow> r
      | Some (height, key) \<Rightarrow>
          (case get_finish height key (pr_prefetcher r) of
             None \<Rightarrow> r
           | Some (Inl e, s) \<Rightarrow> r\<lparr>pr_prefetcher := s, pr_waiting := None\<rparr>
           | Some (Inr x, s) \<Rightarrow> r\<lparr>pr_prefetcher := s, pr_waiting := None,
                                   pr_history := pr_history r @ [(height, x)]\<rparr>))"
| "prefetch_step opts weigh Reset r = r\<lparr>pr_prefetcher := reset_prefetcher (pr_prefetcher r)\<rparr>"

definition new_prefetch_run :: "'s prefetch_run" where
  "new_prefetch_run = \<lparr>pr_prefetcher = new_prefetcher, pr_waiting = None, pr_history = []\<rparr>"

text \<open>
  An answer is faithful if, having the requested length, it holds the snapshots of the requested
  heights in order; one of another length may hold anything.
\<close>

definition faithful :: "(int \<Rightarrow> 's \<Rightarrow> bool) \<Rightarrow> int \<times> int \<times> int \<Rightarrow> 's list res \<Rightarrow> bool" where
  "faithful of_height fetch answer =
     (case (fetch, answer) of
        ((_, start, end'), Inr xs) \<Rightarrow>
          int (length xs) = end' - start + 1 \<longrightarrow> (\<forall>i < length xs. of_height (start + int i) (xs ! i))
      | _ \<Rightarrow> True)"

fun faithful_run ::
  "(int \<Rightarrow> 's \<Rightarrow> bool) \<Rightarrow> prefetch_options \<Rightarrow> ('s \<Rightarrow> rat) \<Rightarrow> 's prefetch_event list \<Rightarrow> 's prefetch_run \<Rightarrow> bool" where
  "faithful_run of_height opts weigh [] r = True"
| "faithful_run of_height opts weigh (e # es) r =
     ((case e of
         Settle i answer \<Rightarrow> i < length (pf_pending (pr_prefetcher r)) \<longrightarrow>
           faithful of_height (pf_pending (pr_prefetcher r) ! i) answer
       | _ \<Rightarrow> True)
      \<and> faithful_run of_height opts weigh es (prefetch_step opts weigh e r))"

definition prefetch_run_all ::
  "prefetch_options \<Rightarrow> ('s \<Rightarrow> rat) \<Rightarrow> 's prefetch_event list \<Rightarrow> 's prefetch_run" where
  "prefetch_run_all opts weigh es = fold (prefetch_step opts weigh) es new_prefetch_run"

section \<open>Order and bounds\<close>

text \<open>Batches that are consecutive ranges of heights, from one height up to below another.\<close>

fun consecutive :: "int \<Rightarrow> 's prefetch_batch list \<Rightarrow> int \<Rightarrow> bool" where
  "consecutive a [] n = (a = n)"
| "consecutive a (b # bs) n = (pb_start b = a \<and> a \<le> pb_end b \<and> consecutive (pb_end b + 1) bs n)"

definition batch_ok :: "(int \<Rightarrow> 's \<Rightarrow> bool) \<Rightarrow> int \<Rightarrow> 's prefetch_batch \<Rightarrow> bool" where
  "batch_ok of_height generation b \<longleftrightarrow> pb_generation b = generation
     \<and> (case pb_snapshots b of
          None \<Rightarrow> True
        | Some xs \<Rightarrow> \<forall>i < length xs. of_height (pb_start b + int i) (xs ! i))"

definition buffer_bound :: "prefetch_options \<Rightarrow> int" where
  "buffer_bound opts = max 0 (po_max_buffered_blocks opts - 1) + max 1 (po_batch_size opts)"

definition pending_ok :: "'s prefetcher \<Rightarrow> int \<times> int \<times> int \<Rightarrow> bool" where
  "pending_ok s = (\<lambda>(g, a, z). g \<le> pf_generation s
     \<and> (g = pf_generation s \<longrightarrow> a \<le> z \<and> z < pf_next_start s
          \<and> (\<forall>b \<in> set (pf_batches s). pb_start b = a \<longrightarrow> pb_end b = z)))"

definition prefetcher_inv :: "(int \<Rightarrow> 's \<Rightarrow> bool) \<Rightarrow> prefetch_options \<Rightarrow> 's prefetcher \<Rightarrow> bool" where
  "prefetcher_inv of_height opts s \<longleftrightarrow>
     (\<exists>a. consecutive a (pf_batches s) (pf_next_start s))
     \<and> list_all (batch_ok of_height (pf_generation s)) (pf_batches s)
     \<and> list_all (pending_ok s) (pf_pending s)
     \<and> buffered_blocks s \<le> buffer_bound opts"

lemma consecutive_le: "consecutive a bs n \<Longrightarrow> a \<le> n"
  by (induction bs arbitrary: a) force+

lemma consecutive_bounds:
  "consecutive a bs n \<Longrightarrow> b \<in> set bs \<Longrightarrow> a \<le> pb_start b \<and> pb_start b \<le> pb_end b \<and> pb_end b < n"
  by (induction bs arbitrary: a) (use consecutive_le in fastforce)+

lemma consecutive_snoc:
  "consecutive a (bs @ [b]) n \<longleftrightarrow> consecutive a bs (pb_start b) \<and> pb_start b \<le> pb_end b \<and> pb_end b + 1 = n"
  by (induction bs arbitrary: a) auto

lemma consecutive_filter:
  "consecutive a bs n \<Longrightarrow> \<exists>a'. consecutive a' (filter (\<lambda>b. h \<le> pb_end b) bs) n"
proof (induction bs arbitrary: a)
  case (Cons b bs)
  then obtain a' where a': "consecutive a' (filter (\<lambda>b. h \<le> pb_end b) bs) n" by fastforce
  show ?case
  proof (cases "h \<le> pb_end b")
    case True
    have "h \<le> pb_end x" if "x \<in> set bs" for x
      using consecutive_bounds [of "pb_end b + 1" bs n x] Cons.prems that True by force
    then have "filter (\<lambda>b. h \<le> pb_end b) bs = bs" by (simp add: filter_id_conv)
    then show ?thesis using Cons.prems True by auto
  qed (use a' in auto)
qed auto

lemma consecutive_total: "consecutive a bs n \<Longrightarrow> sum_list (map batch_blocks bs) = n - a"
  by (induction bs arbitrary: a) (auto simp: batch_blocks_def)

lemma consecutive_update:
  "(\<And>b. pb_start (f b) = pb_start b \<and> pb_end (f b) = pb_end b) \<Longrightarrow>
     consecutive a (map f bs) n = consecutive a bs n"
  by (induction bs arbitrary: a) auto

lemma filter_total_le:
  "consecutive a bs n \<Longrightarrow> sum_list (map batch_blocks (filter P bs)) \<le> sum_list (map batch_blocks bs)"
  by (induction bs arbitrary: a) (auto simp: batch_blocks_def, force+)

text \<open>The cursor is below the next start, or it is the next start and nothing is buffered.\<close>

definition cursor_ok :: "int \<Rightarrow> 's prefetcher \<Rightarrow> bool" where
  "cursor_ok cursor s \<longleftrightarrow> cursor < pf_next_start s \<or> (cursor = pf_next_start s \<and> pf_batches s = [])"

lemma batch_ok_error [simp]: "batch_ok of_height g (b\<lparr>pb_error := e\<rparr>) = batch_ok of_height g b"
  by (simp add: batch_ok_def cong: option.case_cong) 

lemma list_all_without: "list_all P xs \<Longrightarrow> list_all P (take i xs @ drop j xs)"
  by (auto simp: list_all_iff dest: in_set_takeD in_set_dropD)

lemma schedule_inv:
  assumes inv: "prefetcher_inv of_height opts s" and go: "should_schedule opts cursor s" and cursor: "cursor_ok cursor s"
  shows "prefetcher_inv of_height opts (schedule opts s) \<and> cursor_ok cursor (schedule opts s)"
proof -
  define e where "e = min (pf_limit s) (pf_next_start s + max 1 (po_batch_size opts) - 1)"
  have s': "schedule opts s = s\<lparr>pf_next_start := e + 1, pf_in_flight := pf_in_flight s + 1,
      pf_batches := pf_batches s @ [\<lparr>pb_start = pf_next_start s, pb_end = e, pb_generation = pf_generation s,
        pb_snapshots = None, pb_error = None, pb_weight = 0\<rparr>],
      pf_pending := pf_pending s @ [(pf_generation s, pf_next_start s, e)]\<rparr>"
    by (simp add: schedule_def Let_def e_def)
  have le: "pf_next_start s \<le> e" using go by (auto simp: e_def should_schedule_def split: if_splits)
  obtain a where a: "consecutive a (pf_batches s) (pf_next_start s)" using inv by (auto simp: prefetcher_inv_def)
  have "buffered_blocks s \<le> max 0 (po_max_buffered_blocks opts - 1)"
    using go cursor by (auto simp: should_schedule_def cursor_ok_def has_budget_def buffered_blocks_def split: if_splits)
  moreover have "e - pf_next_start s + 1 \<le> max 1 (po_batch_size opts)" by (simp add: e_def)
  ultimately have "buffered_blocks (schedule opts s) \<le> buffer_bound opts"
    by (simp add: s' buffered_blocks_def batch_blocks_def buffer_bound_def)
  moreover have "consecutive a (pf_batches (schedule opts s)) (pf_next_start (schedule opts s))"
    using a le by (simp add: s' consecutive_snoc)
  moreover have "list_all (batch_ok of_height (pf_generation s)) (pf_batches (schedule opts s))"
    using inv by (simp add: s' prefetcher_inv_def batch_ok_def)
  moreover have "list_all (pending_ok (schedule opts s)) (pf_pending (schedule opts s))"
    using inv le consecutive_bounds [OF a]
    by (fastforce simp: s' prefetcher_inv_def pending_ok_def list_all_iff)
  ultimately show ?thesis using le cursor by (auto simp: prefetcher_inv_def s' cursor_ok_def)
qed

lemma pump_inv:
  "prefetcher_inv of_height opts s \<Longrightarrow> cursor_ok cursor s \<Longrightarrow> prefetcher_inv of_height opts (pump opts cursor s)"
proof (induction opts cursor s rule: pump.induct)
  case (1 opts cursor s)
  then show ?case using schedule_inv [OF 1(2) _ 1(3)] by (subst pump.simps) auto
qed

lemma reset_inv: "prefetcher_inv of_height opts s \<Longrightarrow> prefetcher_inv of_height opts (reset_prefetcher s)"
  by (auto simp: prefetcher_inv_def reset_prefetcher_def buffered_blocks_def buffer_bound_def pending_ok_def list_all_iff)

lemma align_inv:
  assumes inv: "prefetcher_inv of_height opts s"
  shows "prefetcher_inv of_height opts (align_to h s) \<and> cursor_ok h (align_to h s)"
proof (cases "covers h s")
  case False
  then show ?thesis using inv
    by (auto simp: align_to_def prefetcher_inv_def reset_prefetcher_def buffered_blocks_def buffer_bound_def
        pending_ok_def list_all_iff cursor_ok_def)
next
  case True
  obtain a where a: "consecutive a (pf_batches s) (pf_next_start s)" using inv by (auto simp: prefetcher_inv_def)
  have h: "h \<le> pf_next_start s" using True by (auto simp: covers_def split: list.splits)
  have "filter (\<lambda>b. h \<le> pb_end b) (pf_batches s) = []" if "h = pf_next_start s"
    using consecutive_bounds [OF a] that by (force simp: filter_empty_conv)
  then have "cursor_ok h (align_to h s)" using h True by (auto simp: cursor_ok_def align_to_def)
  moreover have "prefetcher_inv of_height opts (align_to h s)"
    using inv consecutive_filter [OF a, of h] filter_total_le [OF a, of "\<lambda>b. h \<le> pb_end b"] True
    by (auto simp: prefetcher_inv_def align_to_def pending_ok_def list_all_iff buffered_blocks_def)
  ultimately show ?thesis by blast
qed

lemma get_start_inv:
  assumes "prefetcher_inv of_height opts s" and "get_start opts h limit s = (r, s')"
  shows "prefetcher_inv of_height opts s' \<and> (\<forall>start g. r = Inr (start, g) \<longrightarrow> start \<le> h)"
proof -
  have inv: "prefetcher_inv of_height opts (s\<lparr>pf_limit := limit\<rparr>)"
    using assms(1) by (simp add: prefetcher_inv_def pending_ok_def [abs_def] buffered_blocks_def)
  have "s' = pump opts h (align_to h (s\<lparr>pf_limit := limit\<rparr>))"
    using assms(2) by (auto simp: get_start_def Let_def split: option.splits)
  then have "prefetcher_inv of_height opts s'" using pump_inv align_inv [OF inv] by blast
  moreover have "start \<le> h" if "r = Inr (start, g)" for start g
    using assms(2) that by (auto simp: get_start_def Let_def batch_for_def find_Some_iff split: option.splits)
  ultimately show ?thesis by blast
qed

lemma update_inv:
  assumes inv: "prefetcher_inv of_height opts s"
    and f: "\<And>b. pb_start (f b) = pb_start b \<and> pb_end (f b) = pb_end b \<and> pb_generation (f b) = pb_generation b"
    and ok: "\<And>b. b \<in> set (pf_batches s) \<Longrightarrow> pb_start b = start \<Longrightarrow> batch_ok of_height (pf_generation s) (f b)"
  shows "prefetcher_inv of_height opts (update_batch start f s)"
proof -
  let ?g = "\<lambda>b. if pb_start b = start then f b else b"
  have g: "pb_start (?g b) = pb_start b \<and> pb_end (?g b) = pb_end b" for b using f by auto
  have "sum_list (map batch_blocks (map ?g (pf_batches s))) = sum_list (map batch_blocks (pf_batches s))"
    using g by (intro arg_cong [where f = sum_list]) (auto simp: batch_blocks_def)
  moreover have "list_all (batch_ok of_height (pf_generation s)) (map ?g (pf_batches s))"
    using inv ok by (auto simp: prefetcher_inv_def list_all_iff)
  moreover have "list_all (pending_ok (update_batch start f s)) (pf_pending s)"
  proof -
    have "(\<forall>b \<in> set (map ?g (pf_batches s)). pb_start b = a \<longrightarrow> pb_end b = z)
        = (\<forall>b \<in> set (pf_batches s). pb_start b = a \<longrightarrow> pb_end b = z)" for a z
      unfolding list.set_map ball_simps(9) by (intro ball_cong refl) (use f in simp)
    then have "pending_ok (update_batch start f s) = pending_ok s"
      unfolding pending_ok_def update_batch_def by (simp del: list.set_map add: split del: if_split)
    then show ?thesis using inv by (simp add: prefetcher_inv_def)
  qed
  ultimately show ?thesis
    using inv consecutive_update [of ?g, OF g] by (simp add: prefetcher_inv_def update_batch_def buffered_blocks_def)
qed

lemma settle_inv:
  assumes inv: "prefetcher_inv of_height opts s" and p: "pending_ok s fetch" and f: "faithful of_height fetch answer"
  shows "prefetcher_inv of_height opts (settle opts weigh fetch answer s)"
proof -
  obtain g a z where fetch: "fetch = (g, a, z)" by (cases fetch)
  let ?s1 = "s\<lparr>pf_in_flight := pf_in_flight s - 1\<rparr>"
  have inv1: "prefetcher_inv of_height opts ?s1"
    using inv by (simp add: prefetcher_inv_def pending_ok_def [abs_def] buffered_blocks_def)
  have bad: "prefetcher_inv of_height opts (update_batch a (\<lambda>b. b\<lparr>pb_error := Some e\<rparr>) ?s1)" for e
    by (rule update_inv [OF inv1]) (use inv in \<open>simp_all add: prefetcher_inv_def list_all_iff\<close>)
  show ?thesis
  proof (cases "g = pf_generation s")
    case False
    then show ?thesis using inv fetch by (simp add: settle_def)
  next
    case g: True
    show ?thesis
    proof (cases answer)
      case (Inl e)
      then show ?thesis using bad g fetch by (simp add: settle_def)
    next
      case (Inr xs)
      show ?thesis
      proof (cases "int (length xs) = z - a + 1")
        case False
        then show ?thesis using bad g fetch Inr by (simp add: settle_def)
      next
        case True
        have content: "\<forall>i < length xs. of_height (a + int i) (xs ! i)"
          using f Inr True by (simp add: faithful_def fetch)
        let ?s2 = "update_batch a (\<lambda>b. b\<lparr>pb_snapshots := Some xs, pb_weight := sum_list (map weigh xs)\<rparr>) ?s1"
        have inv2: "prefetcher_inv of_height opts ?s2"
          by (rule update_inv [OF inv1]) (use inv content in \<open>auto simp: prefetcher_inv_def batch_ok_def list_all_iff\<close>)
        define s3 where "s3 = ?s2\<lparr>pf_average_weight := observe_weight (pf_average_weight ?s2)
            (sum_list (map weigh xs) / of_int (z - a + 1))\<rparr>"
        have inv3: "prefetcher_inv of_height opts s3"
          using inv2 by (simp add: s3_def prefetcher_inv_def pending_ok_def [abs_def] buffered_blocks_def)
        have "a < pf_next_start s3" using p g by (simp add: pending_ok_def fetch s3_def update_batch_def)
        moreover have "pb_start (hd (pf_batches s3)) < pf_next_start s3" if "pf_batches s3 \<noteq> []"
        proof -
          obtain c where "consecutive c (pf_batches s3) (pf_next_start s3)" using inv3 by (auto simp: prefetcher_inv_def)
          from consecutive_bounds [OF this, of "hd (pf_batches s3)"] that show ?thesis by simp
        qed
        ultimately have "cursor_ok (case pf_batches s3 of [] \<Rightarrow> a | b # _ \<Rightarrow> pb_start b) s3"
          by (auto simp: cursor_ok_def split: list.splits)
        from pump_inv [OF inv3 this] show ?thesis
          using g fetch Inr True by (simp add: settle_def Let_def s3_def)
      qed
    qed
  qed
qed

definition run_inv :: "(int \<Rightarrow> 's \<Rightarrow> bool) \<Rightarrow> prefetch_options \<Rightarrow> 's prefetch_run \<Rightarrow> bool" where
  "run_inv of_height opts r \<longleftrightarrow> prefetcher_inv of_height opts (pr_prefetcher r)
     \<and> (\<forall>h start g. pr_waiting r = Some (h, start, g) \<longrightarrow> start \<le> h)
     \<and> list_all (\<lambda>(h, x). of_height h x) (pr_history r)"

lemma get_finish_inv:
  assumes inv: "prefetcher_inv of_height opts s" and "start \<le> h" and "get_finish h (start, g) s = Some (r, s')"
  shows "prefetcher_inv of_height opts s' \<and> (\<forall>x. r = Inr x \<longrightarrow> of_height h x)"
proof -
  have "of_height h x" if r: "r = Inr x" for x
  proof -
    obtain b xs where b: "find (\<lambda>b. pb_start b = start) (pf_batches s) = Some b" "pb_snapshots b = Some xs"
      "nat (h - start) < length xs" "x = xs ! nat (h - start)"
      using assms(3) r by (auto simp: get_finish_def split: if_splits option.splits)
    then have "b \<in> set (pf_batches s)" "pb_start b = start" by (auto simp: find_Some_iff)
    then have "batch_ok of_height (pf_generation s) b" using inv by (simp add: prefetcher_inv_def list_all_iff)
    then have "of_height (start + int (nat (h - start))) x"
      using b \<open>pb_start b = start\<close> assms(2) by (simp only: batch_ok_def option.case) 
    then show ?thesis using assms(2) b by simp
  qed
  moreover have "s' = s \<or> s' = reset_prefetcher s"
    using assms(3) by (auto simp: get_finish_def split: if_splits option.splits)
  ultimately show ?thesis using inv reset_inv by auto
qed

lemma prefetch_step_inv:
  assumes inv: "run_inv of_height opts r" and f: "faithful_run of_height opts weigh [e] r"
  shows "run_inv of_height opts (prefetch_step opts weigh e r)"
proof (cases e)
  case (Get h limit)
  obtain q s' where q: "get_start opts h limit (pr_prefetcher r) = (q, s')"
    by (cases "get_start opts h limit (pr_prefetcher r)")
  have "prefetcher_inv of_height opts s' \<and> (\<forall>start g. q = Inr (start, g) \<longrightarrow> start \<le> h)"
    by (rule get_start_inv [OF _ q]) (use inv in \<open>simp add: run_inv_def\<close>)
  then show ?thesis using inv q Get by (auto simp: run_inv_def split: sum.splits)
next
  case (Settle i answer)
  let ?s = "pr_prefetcher r"
  let ?s' = "?s\<lparr>pf_pending := take i (pf_pending ?s) @ drop (Suc i) (pf_pending ?s)\<rparr>"
  show ?thesis
  proof (cases "i < length (pf_pending ?s)")
    case True
    have "list_all (pending_ok ?s) (pf_pending ?s)" and base: "prefetcher_inv of_height opts ?s"
      using inv by (simp_all add: run_inv_def prefetcher_inv_def)
    then have "pending_ok ?s (pf_pending ?s ! i)" using True by (simp add: list_all_length)
    then have p: "pending_ok ?s' (pf_pending ?s ! i)" by (simp add: pending_ok_def)
    have "prefetcher_inv of_height opts ?s'"
    proof -
      have "pending_ok ?s' = pending_ok ?s" by (simp add: pending_ok_def fun_eq_iff)
      then show ?thesis
        using base list_all_without [of "pending_ok ?s" "pf_pending ?s" i "Suc i"]
        by (simp add: prefetcher_inv_def buffered_blocks_def)
    qed
    from settle_inv [OF this p] f show ?thesis using inv True Settle by (simp add: run_inv_def Let_def)
  qed (use inv Settle in \<open>simp add: Let_def\<close>)
next
  case Finish_Get
  show ?thesis
  proof (cases "pr_waiting r")
    case (Some w)
    obtain h start g where w: "w = (h, start, g)" by (cases w)
    have le: "start \<le> h" and base: "prefetcher_inv of_height opts (pr_prefetcher r)"
      using inv Some w by (auto simp: run_inv_def)
    show ?thesis
    proof (cases "get_finish h (start, g) (pr_prefetcher r)")
      case None
      then show ?thesis using inv Some w Finish_Get by simp
    next
      case (Some qs)
      obtain q s' where qs: "qs = (q, s')" by (cases qs)
      from get_finish_inv [OF base le Some [unfolded qs]] show ?thesis
        using inv Some qs w \<open>pr_waiting r = Some w\<close> Finish_Get by (auto simp: run_inv_def split: sum.splits)
    qed
  qed (use inv Finish_Get in simp)
next
  case Reset
  then show ?thesis using inv reset_inv [of of_height opts "pr_prefetcher r"] by (simp add: run_inv_def)
qed

lemma prefetch_run_inv:
  "run_inv of_height opts r \<Longrightarrow> faithful_run of_height opts weigh es r \<Longrightarrow>
     run_inv of_height opts (fold (prefetch_step opts weigh) es r)"
proof (induction es arbitrary: r)
  case (Cons e es)
  have "run_inv of_height opts (prefetch_step opts weigh e r)"
    by (rule prefetch_step_inv [OF Cons.prems(1)]) (use Cons.prems(2) in simp)
  then show ?case using Cons by simp
qed simp

text \<open>
  C35. The read-ahead hands out the right block and stays within its budget. Whatever heights are
  asked for and in whatever order fetches settle (late, failed, too short, after a reset), as long
  as an answer of the requested length holds the requested heights in order: every snapshot handed
  out is one of the height that was asked for, the batches are consecutive ranges, and the blocks
  loaded or in flight never exceed the block budget by a whole batch.
\<close>

theorem prefetch_in_order:
  assumes "faithful_run of_height opts weigh es new_prefetch_run"
  shows "let r = prefetch_run_all opts weigh es; s = pr_prefetcher r in
    (\<forall>(h, x) \<in> set (pr_history r). of_height h x)
    \<and> (\<exists>a. consecutive a (pf_batches s) (pf_next_start s))
    \<and> buffered_blocks s \<le> max 0 (po_max_buffered_blocks opts - 1) + max 1 (po_batch_size opts)"
proof -
  have "run_inv of_height opts (new_prefetch_run :: 'a prefetch_run)"
    by (simp add: run_inv_def new_prefetch_run_def prefetcher_inv_def new_prefetcher_def buffered_blocks_def buffer_bound_def)
  from prefetch_run_inv [OF this assms] show ?thesis
    by (auto simp: prefetch_run_all_def run_inv_def prefetcher_inv_def buffer_bound_def list_all_iff Let_def)
qed

definition sample_options :: prefetch_options where
  "sample_options = \<lparr>po_batch_size = 2, po_concurrency = 2, po_max_buffered_blocks = 4, po_max_buffered_weight = 100\<rparr>"

text \<open>The second batch settles first; the first one then serves both of its heights.\<close>

definition sample_prefetch :: "int prefetch_event list" where
  "sample_prefetch = [Get 5 20, Settle 1 (Inr [7, 8]), Settle 0 (Inr [5, 6]), Finish_Get, Get 6 20, Finish_Get]"

theorem prefetch_in_order_witness:
  "pr_history (prefetch_run_all sample_options (\<lambda>_. 1) sample_prefetch) = [(5, 5), (6, 6)]
   \<and> buffered_blocks (pr_prefetcher (prefetch_run_all sample_options (\<lambda>_. 1) sample_prefetch)) \<le> 5"
proof -
  have "faithful_run (=) sample_options (\<lambda>_. 1) sample_prefetch new_prefetch_run" by code_simp
  from prefetch_in_order [OF this] have "buffered_blocks (pr_prefetcher (prefetch_run_all sample_options (\<lambda>_. 1) sample_prefetch)) \<le> 5"
    by (simp add: Let_def sample_options_def)
  moreover have "pr_history (prefetch_run_all sample_options (\<lambda>_. 1) sample_prefetch) = [(5, 5), (6, 6)]" by code_simp
  ultimately show ?thesis by simp
qed

end
