(* ===== verification/Explorer_Block.thy ===== *)
theory Explorer_Block
  imports Core_State Js_Text
begin

text \<open>
  What the explorer shows of a block: the parsing and serialising half of
  \<^verbatim>\<open>modules/explorer-query/src/application/explorer-query-service.ts\<close> and
  \<^verbatim>\<open>explorer-response-builders.ts\<close>. The explorer reads the same raw snapshots as the indexer with
  functions of its own, more lenient in places; the theorems say when it shows what the ledger
  holds. The set of addresses the code collects on the way is never read and is left out.
\<close>

section \<open>Reading snapshots\<close>

record explorer_block =
  eb_hash :: string
  eb_height :: int
  eb_time :: int
  eb_tx :: "json list"

definition parameter_error :: "string \<Rightarrow> string \<Rightarrow> js_error" where
  "parameter_error field v = ValidationError (''invalid parameter for `'' @ field @ ''`: '' @ v)"

fun read_number :: "json \<Rightarrow> json" where
  "read_number (JNum n) = JNum n"
| "read_number _ = JUndefined"

fun read_string :: "json \<Rightarrow> json" where
  "read_string (JStr s) = JStr s"
| "read_string _ = JUndefined"

fun invalid_number_value :: "json \<Rightarrow> string" where
  "invalid_number_value JUndefined = []"
| "invalid_number_value v = json_str v"

text \<open>As in the indexer, an integer too large to be printed in full is outside the model.\<close>

fun explorer_require_number :: "json \<Rightarrow> string \<Rightarrow> int res" where
  "explorer_require_number (JNum (JInt i)) field =
     (if i < 0 then Inl (parameter_error field (js_num_str (JInt i)))
      else if i < 10 ^ 21 then Inr i else Inl (OutsideModel field))"
| "explorer_require_number v field = Inl (parameter_error field (invalid_number_value v))"

definition explorer_require_string :: "json \<Rightarrow> string \<Rightarrow> string res" where
  "explorer_require_string v field =
     and_then (trim_optional_text v) (\<lambda>t. if t = [] then Inl (parameter_error field []) else Inr t)"

definition require_record :: "json \<Rightarrow> string \<Rightarrow> json res" where
  "require_record v field = (if is_plain_record v then Inr v else Inl (parameter_error field []))"

fun transactions_of :: "json \<Rightarrow> json list" where
  "transactions_of (JArr ts) = filter is_dogecoin_transaction ts"
| "transactions_of _ = []"

definition parse_block :: "json \<Rightarrow> explorer_block res" where
  "parse_block snapshot =
     and_then (require_record (own_prop snapshot ''block'') ''block'') (\<lambda>candidate.
     and_then (explorer_require_string (read_string (own_prop candidate ''hash'')) ''block.hash'') (\<lambda>hash.
     and_then (explorer_require_number (read_number (own_prop candidate ''height'')) ''block.height'') (\<lambda>height.
     and_then (explorer_require_number (read_number (own_prop candidate ''time'')) ''block.time'') (\<lambda>time.
     Inr \<lparr>eb_hash = hash, eb_height = height, eb_time = time,
          eb_tx = transactions_of (own_prop candidate ''tx'')\<rparr>))))"

fun read_inputs :: "json \<Rightarrow> json list" where
  "read_inputs (JArr xs) = xs"
| "read_inputs _ = []"

fun read_outputs :: "json \<Rightarrow> json list" where
  "read_outputs (JArr xs) = xs"
| "read_outputs _ = []"

section \<open>Amounts\<close>

definition assert_decimal_parts :: "string \<Rightarrow> string \<Rightarrow> string \<Rightarrow> unit res" where
  "assert_decimal_parts raw whole fraction =
     (if \<not> all_digits whole \<or> \<not> list_all is_digit fraction
      then Inl (ValidationError (''invalid decimal amount: '' @ raw)) else Inr ())"

definition first_part :: "string list \<Rightarrow> string" where
  "first_part ps = (case ps of [] \<Rightarrow> [] | p # _ \<Rightarrow> p)"

definition second_part :: "string list \<Rightarrow> string" where
  "second_part ps = (case ps of _ # q # _ \<Rightarrow> q | _ \<Rightarrow> [])"

definition decimal_parts_to_base :: "string list \<Rightarrow> string" where
  "decimal_parts_to_base ps =
     (let t = strip_zeros (first_part ps @ pad_end 8 (CHR ''0'') (second_part ps)) in
      if t = [] then ''0'' else t)"

definition string_decimal_to_base :: "string \<Rightarrow> string res" where
  "string_decimal_to_base v =
     (let ps = js_split (CHR ''.'') (js_trim v) in
      and_then (assert_decimal_parts v (first_part ps) (second_part ps)) (\<lambda>_.
      Inr (decimal_parts_to_base [first_part ps, take 8 (second_part ps)])))"

fun require_amount_base :: "json \<Rightarrow> string res" where
  "require_amount_base JUndefined = Inl (ValidationError ''missing output value'')"
| "require_amount_base (JNum n) = Inr (decimal_parts_to_base (js_split (CHR ''.'') (to_fixed n 8)))"
| "require_amount_base (JStr s) = string_decimal_to_base s"
| "require_amount_base v = Inl call_error"

section \<open>Transactions\<close>

record explorer_created_output =
  ec_address :: string
  ec_output_key :: string
  ec_value_base :: string

record explorer_transaction_summary =
  ex_txid :: string
  ex_tx_index :: int
  ex_block_height :: int
  ex_block_hash :: string
  ex_block_time :: int
  ex_is_coinbase :: bool
  ex_input_count :: int
  ex_output_count :: int
  ex_total_input_base :: string
  ex_total_output_base :: string
  ex_fee_base :: "string option"

record explorer_transaction_input =
  ei_address :: string
  ei_output_key :: string
  ei_value_base :: string

record explorer_transaction_output =
  eo_address :: string
  eo_vout :: int
  eo_output_key :: string
  eo_value_base :: string
  eo_script_type :: string
  eo_is_spendable :: bool
  eo_spent_by_txid :: "string option"
  eo_spent_in_block :: "int option"

record explorer_block_summary =
  es_hash :: string
  es_height :: int
  es_time :: int
  es_tx_count :: int

type_synonym resolved_inputs = "(string, explorer_created_output) js_map"

definition input_key :: "json \<Rightarrow> string res" where
  "input_key inp =
     and_then (explorer_require_string (own_prop inp ''txid'') ''vin.txid'') (\<lambda>txid.
     and_then (explorer_require_number (own_prop inp ''vout'') ''vin.vout'') (\<lambda>vout.
     Inr (txid @ '':'' @ int_str vout)))"

definition resolved_input_amount :: "explorer_created_output option \<Rightarrow> int res" where
  "resolved_input_amount r = (case r of None \<Rightarrow> Inr 0 | Some x \<Rightarrow> parse_amount_base (ec_value_base x))"

definition resolved_input_value :: "resolved_inputs \<Rightarrow> json \<Rightarrow> int res" where
  "resolved_input_value resolved inp =
     and_then (is_coinbase_input inp) (\<lambda>coinbase.
     if coinbase then Inr 0
     else and_then (input_key inp) (\<lambda>key. resolved_input_amount (js_get resolved key)))"

definition total_resolved_input_base :: "resolved_inputs \<Rightarrow> json list \<Rightarrow> int res" where
  "total_resolved_input_base resolved inputs = sum_res (resolved_input_value resolved) inputs"

definition output_amount :: "json \<Rightarrow> int res" where
  "output_amount out =
     and_then (get_prop out ''value'') (\<lambda>v. and_then (require_amount_base v) parse_amount_base)"

definition total_output_base :: "json list \<Rightarrow> int res" where
  "total_output_base outs = sum_res output_amount outs"

definition transaction_fee_base :: "bool \<Rightarrow> int \<Rightarrow> int \<Rightarrow> string option" where
  "transaction_fee_base coinbase total_input total_output =
     (if coinbase \<or> total_input = 0 then None else Some (format_amount_base (total_input - total_output)))"

definition serialize_transaction_summary ::
  "explorer_block \<Rightarrow> json \<Rightarrow> int \<Rightarrow> resolved_inputs \<Rightarrow> explorer_transaction_summary res" where
  "serialize_transaction_summary block tx tx_index resolved =
     and_then (explorer_require_string (own_prop tx ''txid'') ''tx.txid'') (\<lambda>txid.
     let inputs = read_inputs (own_prop tx ''vin''); outs = read_outputs (own_prop tx ''vout'') in
     and_then (some_res is_coinbase_input inputs) (\<lambda>coinbase.
     and_then (total_resolved_input_base resolved inputs) (\<lambda>total_input.
     and_then (total_output_base outs) (\<lambda>total_output.
     Inr \<lparr>ex_txid = txid, ex_tx_index = tx_index, ex_block_height = eb_height block,
          ex_block_hash = eb_hash block, ex_block_time = eb_time block, ex_is_coinbase = coinbase,
          ex_input_count = int (length inputs), ex_output_count = int (length outs),
          ex_total_input_base = format_amount_base total_input,
          ex_total_output_base = format_amount_base total_output,
          ex_fee_base = transaction_fee_base coinbase total_input total_output\<rparr>))))"

definition has_resolved_address :: "explorer_created_output option \<Rightarrow> bool" where
  "has_resolved_address r = (case r of None \<Rightarrow> False | Some x \<Rightarrow> ec_address x \<noteq> [])"

definition serialize_transaction_input ::
  "resolved_inputs \<Rightarrow> json \<Rightarrow> explorer_transaction_input list res" where
  "serialize_transaction_input resolved inp =
     and_then (is_coinbase_input inp) (\<lambda>coinbase.
     if coinbase then Inr []
     else and_then (input_key inp) (\<lambda>key.
       Inr (if \<not> has_resolved_address (js_get resolved key) then []
            else case js_get resolved key of
              None \<Rightarrow> []
            | Some x \<Rightarrow> [\<lparr>ei_address = ec_address x, ei_output_key = key, ei_value_base = ec_value_base x\<rparr>])))"

definition serialize_transaction_inputs ::
  "resolved_inputs \<Rightarrow> json \<Rightarrow> explorer_transaction_input list res" where
  "serialize_transaction_inputs resolved tx =
     and_then (map_res (serialize_transaction_input resolved) (read_inputs (own_prop tx ''vin''))) (\<lambda>xs.
     Inr (concat xs))"

text \<open>\<^verbatim>\<open>output.n ?? fallback\<close>.\<close>

definition output_index :: "json \<Rightarrow> nat \<Rightarrow> json" where
  "output_index out i = (if is_nullish (own_prop out ''n'') then JNum (JInt (int i)) else own_prop out ''n'')"

definition explorer_script_type :: "json \<Rightarrow> string res" where
  "explorer_script_type out = trim_optional_text (own_prop (own_prop out ''scriptPubKey'') ''type'')"

definition spent_by_txid :: "utxo_output option \<Rightarrow> string option" where
  "spent_by_txid c = (case c of None \<Rightarrow> None | Some x \<Rightarrow> uo_spent_by_txid x)"

definition spent_in_block :: "utxo_output option \<Rightarrow> int option" where
  "spent_in_block c = (case c of None \<Rightarrow> None | Some x \<Rightarrow> uo_spent_in_block x)"

definition serialize_transaction_output ::
  "string \<Rightarrow> utxo_map \<Rightarrow> nat \<times> json \<Rightarrow> explorer_transaction_output res" where
  "serialize_transaction_output txid current = (\<lambda>(i, out).
     and_then (extract_dogecoin_output_address out) (\<lambda>address.
     and_then (explorer_require_number (output_index out i) ''vout.n'') (\<lambda>vout.
     and_then (require_amount_base (own_prop out ''value'')) (\<lambda>value_base.
     and_then (explorer_script_type out) (\<lambda>script_type.
     let stored = js_get current (output_key_of txid i) in
     Inr \<lparr>eo_address = address, eo_vout = vout, eo_output_key = output_key_of txid i,
          eo_value_base = value_base, eo_script_type = script_type, eo_is_spendable = (address \<noteq> []),
          eo_spent_by_txid = spent_by_txid stored, eo_spent_in_block = spent_in_block stored\<rparr>)))))"

definition serialize_transaction_outputs ::
  "string \<Rightarrow> json list \<Rightarrow> utxo_map \<Rightarrow> explorer_transaction_output list res" where
  "serialize_transaction_outputs txid outs current =
     map_res (serialize_transaction_output txid current) (List.enumerate 0 outs)"

definition serialize_block :: "explorer_block \<Rightarrow> explorer_block_summary" where
  "serialize_block b =
     \<lparr>es_hash = eb_hash b, es_height = eb_height b, es_time = eb_time b, es_tx_count = int (length (eb_tx b))\<rparr>"

section \<open>Agreement with the ledger\<close>

subsection \<open>Amounts\<close>

lemma decimal_match_no_space: "decimal_match s = Some (sg, w, f) \<Longrightarrow> js_trim s = s"
proof -
  assume m: "decimal_match s = Some (sg, w, f)"
  have "\<not> is_js_space c" if "c \<in> set s" for c
  proof -
    have "c \<in> set sg \<union> set w \<union> set f \<union> {CHR ''.''}"
      using that decimal_match_Some(4) [OF m] by (auto split: if_splits)
    then have "c = CHR ''-'' \<or> c = CHR ''.'' \<or> is_digit c"
      using decimal_match_Some(1-3) [OF m] by (auto simp: all_digits_def list_all_iff)
    then show ?thesis by (auto simp: is_digit_not_space) (simp_all add: is_js_space_def char_code_def)
  qed
  then show ?thesis by (intro js_trim_id) (cases "s = []"; simp)
qed

lemma split_decimal_parts:
  assumes "all_digits w" and "list_all is_digit f"
  shows "first_part (js_split (CHR ''.'') (if f = [] then w else w @ ''.'' @ f)) = w
    \<and> second_part (js_split (CHR ''.'') (if f = [] then w else w @ ''.'' @ f)) = f"
proof -
  have dot: "CHR ''.'' \<notin> set w" "CHR ''.'' \<notin> set f"
    using assms by (auto simp: all_digits_def list_all_iff is_digit_def char_code_def)
  show ?thesis
    using dot js_split_append [OF dot(1), of f]
    by (simp add: js_split_no_sep first_part_def second_part_def)
qed

lemma format_unsigned:
  "format_decimal_unit_parts [] w f 8 = decimal_parts_to_base [w, take 8 f]"
  by (simp add: format_decimal_unit_parts_def decimal_parts_to_base_def first_part_def second_part_def Let_def)

lemma from_decimal_units_unsigned:
  assumes "from_decimal_units (Amount_Text a) 8 = Inr vb" and "hd vb \<noteq> CHR ''-''"
  obtains w f where "decimal_match (js_trim a) = Some ([], w, f)" "vb = decimal_parts_to_base [w, take 8 f]"
proof -
  from assms(1) obtain sg w f where m: "decimal_match (js_trim a) = Some (sg, w, f)"
    and vb: "vb = format_decimal_unit_parts sg w f 8"
    by (auto simp: from_decimal_units_def require_decimal_unit_match_def and_then_Inr_iff split: option.splits)
  have "sg = []"
    using decimal_match_Some(1) [OF m] assms(2) by (auto simp: vb format_decimal_unit_parts_def Let_def)
  with m vb show thesis by (auto simp: format_unsigned intro: that)
qed

text \<open>What the ledger stores for an unsigned amount is what the explorer shows.\<close>

lemma amount_agrees:
  assumes amount: "require_amount v = Inr a" and vb: "from_decimal_units (Amount_Text a) 8 = Inr vb"
    and sign: "hd vb \<noteq> CHR ''-''"
  shows "require_amount_base v = Inr vb"
proof -
  obtain w f where m: "decimal_match (js_trim a) = Some ([], w, f)"
    and vb: "vb = decimal_parts_to_base [w, take 8 f]"
    using from_decimal_units_unsigned [OF vb sign] .
  note parts = split_decimal_parts [OF decimal_match_Some(2,3) [OF m]]
  have shape: "js_trim a = (if f = [] then w else w @ ''.'' @ f)" using decimal_match_Some(4) [OF m] by simp
  consider (num) n where "v = JNum n" | (string) s where "v = JStr s"
    using amount by (cases v) auto
  then show ?thesis
  proof cases
    case (string s)
    then have a: "js_trim s = a" using amount by (auto simp: require_trimmed_amount_def split: if_splits)
    then have "js_trim s = (if f = [] then w else w @ ''.'' @ f)" using shape by (metis js_trim_idem)
    then show ?thesis
      using parts decimal_match_Some(2,3) [OF m] vb string
      by (simp add: string_decimal_to_base_def assert_decimal_parts_def Let_def)
  next
    case (num n)
    then have a: "a = to_fixed n 8" using amount by simp
    show ?thesis
    proof (cases "\<exists>x. num_value n = Some x \<and> \<bar>x\<bar> < 10 ^ 21")
      case False
      then have "a \<in> {''[number]'', ''NaN'', ''Infinity'', ''-Infinity''}"
        unfolding a by (cases n) (auto simp: to_fixed_rat_def)
      moreover have "decimal_match (js_trim t) = None" if "t \<in> {''[number]'', ''NaN'', ''Infinity'', ''-Infinity''}" for t
        using that by (auto simp: decimal_match_def split_decimal_def str_eval)
      ultimately show ?thesis using m by simp
    next
      case True
      then obtain x where x: "num_value n = Some x" "\<bar>x\<bar> < 10 ^ 21" by blast
      define sg where "sg = (if x < 0 then ''-'' else [])"
      obtain w' f' where m': "decimal_match (sg @ to_fixed_digits 8 (nat \<lfloor>\<bar>x\<bar> * 10 ^ 8 + 1 / 2\<rfloor>)) = Some (sg, w', f')"
        and len: "length f' = 8"
        by (rule decimal_match_to_fixed [of sg 8 "nat \<lfloor>\<bar>x\<bar> * 10 ^ 8 + 1 / 2\<rfloor>"]) (auto simp: sg_def)
      have "a = sg @ to_fixed_digits 8 (nat \<lfloor>\<bar>x\<bar> * 10 ^ 8 + 1 / 2\<rfloor>)"
        using x by (simp add: a to_fixed_finite to_fixed_rat_def sg_def)
      then have "decimal_match a = Some (sg, w', f')" using m' by simp
      moreover from decimal_match_no_space [OF this] have "js_trim a = a" .
      ultimately have eq: "sg = []" "w' = w" "f' = f" "js_trim a = a" using m by auto
      then have "to_fixed n 8 = (if f = [] then w else w @ ''.'' @ f)" using shape a by simp
      moreover have "take 8 f = f" using len eq by simp
      ultimately show ?thesis
        using parts vb num
        by (simp add: decimal_parts_to_base_def first_part_def second_part_def)
    qed
  qed
qed

lemma unsigned_amount_text:
  assumes "from_decimal_units (Amount_Text a) 8 = Inr vb" and "hd vb \<noteq> CHR ''-''"
  shows "is_amount_text vb"
proof -
  obtain w f where m: "decimal_match (js_trim a) = Some ([], w, f)"
    and vb: "vb = decimal_parts_to_base [w, take 8 f]"
    using from_decimal_units_unsigned [OF assms] .
  have "vb = nat_str (digits_value (w @ pad_end 8 (CHR ''0'') (take 8 f)))"
    using format_decimal_unit_parts_value [OF decimal_match_Some(2,3) [OF m], of "[]" 8]
    by (simp add: vb flip: format_unsigned)
  then show ?thesis using is_amount_text_int_str [of "int k" for k] by (simp add: int_str_def)
qed

lemma amount_text_values: "is_amount_text s \<Longrightarrow> parse_amount_base s = js_bigint s \<and> js_bigint s = Inr (big_value s)"
  by (simp add: parse_amount_base_text js_bigint_amount big_value_def)

subsection \<open>Sums\<close>

lemma sum_res_from:
  "fold_res (\<lambda>x acc. and_then (f x) (\<lambda>v. Inr (acc + v))) xs n
     = and_then (map_res f xs) (\<lambda>vs. Inr (n + sum_list vs))"
proof (induction xs arbitrary: n)
  case (Cons x xs)
  show ?case by (cases "f x"; cases "map_res f xs") (simp_all add: Cons.IH add.assoc)
qed simp

lemma sum_res_iff: "sum_res f xs = Inr t \<longleftrightarrow> (\<exists>vs. list_all2 (\<lambda>x v. f x = Inr v) xs vs \<and> t = sum_list vs)"
  by (auto simp: sum_res_def sum_res_from and_then_Inr_iff map_res_Inr_iff)

lemma sum_res_Cons:
  "sum_res f (x # xs) = Inr t \<longleftrightarrow> (\<exists>v r. f x = Inr v \<and> sum_res f xs = Inr r \<and> t = v + r)"
  unfolding sum_res_iff list_all2_Cons1 by (metis sum_list.Cons)

lemma sum_res_total:
  assumes "\<And>x. x \<in> set xs \<Longrightarrow> f x = Inr (g x)"
  shows "sum_res f xs = Inr (sum_list (map g xs))"
  unfolding sum_res_iff by (rule exI [of _ "map g xs"]) (simp add: list_all2_conv_all_nth assms)

lemma sum_sorted: "sum_list (map g (sort_key k xs)) = sum_list (map g xs)" for g :: "'a \<Rightarrow> int"
proof -
  have "sum_mset (image_mset g (mset (sort_key k xs))) = sum_mset (image_mset g (mset xs))" by simp
  then show ?thesis by (simp only: flip: mset_map sum_mset_sum_list)
qed

subsection \<open>Inputs and outputs\<close>

lemma output_agrees:
  assumes "make_output b txid k out i coinbase = Inr o'" and "hd (uo_value_base o') \<noteq> CHR ''-''"
  shows "output_amount out = Inr (big_value (uo_value_base o'))"
    and "require_amount_base (own_prop out ''value'') = Inr (uo_value_base o')"
    and "is_amount_text (uo_value_base o')"
proof -
  from assms(1) obtain a where a: "require_amount (own_prop out ''value'') = Inr a"
      "from_decimal_units (Amount_Text a) 8 = Inr (uo_value_base o')"
    and out: "\<not> is_nullish out"
    by (auto simp: make_output_def and_then_Inr_iff extract_dogecoin_output_address_def get_prop_def split: if_splits)
  show "require_amount_base (own_prop out ''value'') = Inr (uo_value_base o')"
    using amount_agrees [OF a assms(2)] .
  moreover show t: "is_amount_text (uo_value_base o')" using unsigned_amount_text [OF a(2) assms(2)] .
  ultimately show "output_amount out = Inr (big_value (uo_value_base o'))"
    using out amount_text_values [OF t] by (simp add: output_amount_def get_prop_def)
qed

lemma output_key_index:
  assumes "txid @ '':'' @ int_str v = output_key_of t n" shows "v = int n"
proof -
  have tail: "takeWhile (\<lambda>c. c \<noteq> CHR '':'') (rev (s @ '':'' @ int_str k)) = rev (int_str k)" for s k
    using colon_notin_int_str [of k] by (subst rev_append, subst rev_append) (simp add: takeWhile_append)
  have "rev (int_str v) = rev (int_str (int n))"
    using arg_cong [OF assms, of "\<lambda>s. takeWhile (\<lambda>c. c \<noteq> CHR '':'') (rev s)"]
    unfolding output_key_of_def tail .
  then show ?thesis by simp
qed

lemma explorer_require_string_agrees:
  "require_string v l = Inr t \<Longrightarrow> explorer_require_string v field = Inr t"
  by (cases v) (auto simp: explorer_require_string_def require_trimmed_string_def Let_def split: if_splits)

lemma explorer_require_number_agrees:
  assumes "require_number v l = Inr i" and "0 \<le> i"
  shows "explorer_require_number v field = Inr i"
proof -
  from assms(1) obtain n where v: "v = JNum n" by (cases v) auto
  with assms show ?thesis by (cases n) (auto split: if_splits)
qed

lemma input_agrees:
  assumes "spend_output_key inp = Inr (output_key_of t n)"
  shows "input_key inp = Inr (output_key_of t n)"
proof -
  from assms obtain txid vout where i: "require_string (own_prop inp ''txid'') ''vin.txid'' = Inr txid"
      "require_number (own_prop inp ''vout'') ''vin.vout'' = Inr vout" "txid @ '':'' @ int_str vout = output_key_of t n"
    by (auto simp: spend_output_key_def and_then_Inr_iff)
  then have "explorer_require_number (own_prop inp ''vout'') ''vin.vout'' = Inr vout"
    using explorer_require_number_agrees [OF i(2)] output_key_index [OF i(3)] by simp
  then show ?thesis using explorer_require_string_agrees [OF i(1)] i(3) by (simp add: input_key_def)
qed

subsection \<open>Blocks and transactions\<close>

definition explorer_view :: "parsed_dogecoin_block \<Rightarrow> explorer_block" where
  "explorer_view b = \<lparr>eb_hash = db_hash b, eb_height = db_height b, eb_time = db_time b, eb_tx = db_tx b\<rparr>"

lemma parse_block_agrees:
  assumes "parse_dogecoin_block_snapshot snapshot = Inr b" and "0 \<le> db_height b" and "0 \<le> db_time b"
  shows "parse_block snapshot = Inr (explorer_view b)"
proof -
  let ?c = "own_prop snapshot ''block''"
  from assms(1) have c: "is_plain_record ?c"
    and hash: "require_string (own_prop ?c ''hash'') ''block.hash'' = Inr (db_hash b)"
    and height: "require_number (own_prop ?c ''height'') ''block.height'' = Inr (db_height b)"
    and time: "require_number (own_prop ?c ''time'') ''block.time'' = Inr (db_time b)"
    and tx: "read_dogecoin_transactions (own_prop ?c ''tx'') (db_height b) = Inr (db_tx b)"
    by (auto simp: parse_dogecoin_block_snapshot_def and_then_Inr_iff get_prop_def require_block_record_def
        split: if_splits)
  have "read_string (own_prop ?c ''hash'') = own_prop ?c ''hash''"
    using hash by (cases "own_prop ?c ''hash''") auto
  moreover have "read_number (own_prop ?c k) = own_prop ?c k" if "require_number (own_prop ?c k) l = Inr i" for k l i
    using that by (cases "own_prop ?c k") auto
  moreover have "transactions_of (own_prop ?c ''tx'') = db_tx b"
  proof -
    from tx obtain ts where ts: "own_prop ?c ''tx'' = JArr ts"
      "map_res (check_transaction (db_height b)) (List.enumerate 0 ts) = Inr (db_tx b)"
      by (auto simp: read_dogecoin_transactions_def split: json.splits list.splits)
    have "list_all2 (\<lambda>it t. check_transaction (db_height b) it = Inr t) (List.enumerate 0 ts) (db_tx b)"
      using ts(2) by (simp add: map_res_Inr_iff)
    then have "list_all2 (\<lambda>it t. is_dogecoin_transaction t \<and> snd it = t) (List.enumerate 0 ts) (db_tx b)"
      by (rule list_all2_mono) (auto simp: check_transaction_def split: if_splits)
    then have "map snd (List.enumerate 0 ts) = db_tx b" "list_all is_dogecoin_transaction (db_tx b)"
      by (induction rule: list_all2_induct) auto
    then have "ts = db_tx b" "list_all is_dogecoin_transaction ts" by auto
    then show ?thesis using ts(1) by (simp add: filter_id_conv list_all_iff)
  qed
  ultimately show ?thesis
    using c explorer_require_string_agrees [OF hash] explorer_require_number_agrees [OF height assms(2)]
      explorer_require_number_agrees [OF time assms(3)] height time
    by (simp add: parse_block_def require_record_def explorer_view_def)
qed

text \<open>The map of resolved inputs holds what the ledger has for every key the transaction spends.\<close>

definition created_output :: "utxo_output \<Rightarrow> explorer_created_output" where
  "created_output o' = \<lparr>ec_address = uo_address o', ec_output_key = uo_output_key o', ec_value_base = uo_value_base o'\<rparr>"

definition resolves :: "resolved_inputs \<Rightarrow> utxo_map \<Rightarrow> utxo_map \<Rightarrow> utxo_spend list \<Rightarrow> bool" where
  "resolves m created current spends \<longleftrightarrow> (\<forall>s \<in> set spends.
     (\<exists>t n. us_output_key s = output_key_of t n)
     \<and> js_get m (us_output_key s) = map_option created_output (lookup_output created current (us_output_key s))
     \<and> (\<forall>o'. lookup_output created current (us_output_key s) = Some o' \<longrightarrow> is_amount_text (uo_value_base o')))"

definition coinbase_inputs :: "json \<Rightarrow> nat" where
  "coinbase_inputs tx = length (filter (\<lambda>i. is_coinbase_input i = Inr True) (read_inputs (own_prop tx ''vin'')))"

lemma read_inputs_agree: "dogecoin_inputs tx = Inr xs \<Longrightarrow> read_inputs (own_prop tx ''vin'') = xs"
  by (cases "own_prop tx ''vin''") (auto simp: dogecoin_inputs_def nullish_list_def is_nullish_def)

lemma read_outputs_agree: "dogecoin_outputs tx = Inr xs \<Longrightarrow> read_outputs (own_prop tx ''vout'') = xs"
  by (cases "own_prop tx ''vout''") (auto simp: dogecoin_outputs_def nullish_list_def is_nullish_def)

lemma input_values_agree:
  assumes "list_all2 (\<lambda>ix y. decode_spend txid h ix = Inr y) ixs ys"
    and "resolves m created current (concat (map (case_option [] (\<lambda>s. [s])) ys))"
    and "sum_res (core_spend_value created current) (concat (map (case_option [] (\<lambda>s. [s])) ys)) = Inr t"
  shows "sum_res (resolved_input_value m) (map snd ixs) = Inr t
    \<and> length ixs = length (concat (map (case_option [] (\<lambda>s. [s])) ys))
        + length (filter (\<lambda>i. is_coinbase_input i = Inr True) (map snd ixs))"
  using assms
proof (induction arbitrary: t rule: list_all2_induct)
  case Nil
  then show ?case by (simp add: sum_res_def)
next
  case (Cons ix ixs y ys)
  obtain i inp where ix: "ix = (i, inp)" by (cases ix)
  show ?case
  proof (cases y)
    case None
    then have "is_coinbase_input inp = Inr True"
      using Cons.hyps(1) by (auto simp: ix decode_spend_def and_then_Inr_iff split: if_splits)
    moreover from this have "resolved_input_value m inp = Inr 0" by (simp add: resolved_input_value_def)
    ultimately show ?thesis using Cons.IH [of t] Cons.prems None
      by (auto simp: ix sum_res_Cons)
  next
    case (Some s)
    then have inp: "is_coinbase_input inp = Inr False" "spend_output_key inp = Inr (us_output_key s)"
      using Cons.hyps(1) by (auto simp: ix decode_spend_def and_then_Inr_iff make_spend_def split: if_splits)
    from Cons.prems(1) Some obtain k n where key: "us_output_key s = output_key_of k n"
      and get: "js_get m (us_output_key s) = map_option created_output (lookup_output created current (us_output_key s))"
      and amount: "\<forall>o'. lookup_output created current (us_output_key s) = Some o' \<longrightarrow> is_amount_text (uo_value_base o')"
      by (auto simp: resolves_def)
    from Cons.prems(2) Some obtain v r where v: "core_spend_value created current s = Inr v"
      and r: "sum_res (core_spend_value created current) (concat (map (case_option [] (\<lambda>s. [s])) ys)) = Inr r"
        "t = v + r"
      by (auto simp: sum_res_Cons)
    have "input_key inp = Inr (us_output_key s)" using input_agrees inp(2) key by simp
    then have val: "resolved_input_value m inp = Inr v"
      using inp(1) v get amount amount_text_values
      by (auto simp: resolved_input_value_def resolved_input_amount_def core_spend_value_def created_output_def
          split: option.splits)
    have "resolves m created current (concat (map (case_option [] (\<lambda>s. [s])) ys))"
      using Cons.prems(1) Some by (simp add: resolves_def)
    from Cons.IH [OF this r(1)] show ?thesis
      using val r(2) Some inp(1) by (auto simp: ix sum_res_Cons)
  qed
qed

text \<open>
  C33. The explorer shows what the ledger recorded. Whenever the indexer accepts a block and
  decodes one of its transactions, the explorer parses the same snapshot to the same block, and its
  summary of the transaction, computed from the raw block, equals the transaction fact that the
  warehouse stored with the window (position, coinbase flag, number of outputs, totals and fee), if
  the explorer resolves the spent outputs as the ledger does, the spent keys name output positions,
  and no amount is negative. Only the number of inputs differs, by the coinbase inputs, which the
  ledger does not count.
\<close>

theorem explorer_agrees_with_ledger:
  assumes "parse_dogecoin_block_snapshot snapshot = Inr b" and "0 \<le> db_height b" and "0 \<le> db_time b"
    and tx: "decode_transaction b (i, tx) = Inr e"
    and fact: "core_transaction_fact a txid (te_creates e) (te_spends e) created current = Inr f"
    and a: "ca_block_hash a = db_hash b" "ca_block_height a = db_height b" "ca_block_time a = db_time b"
    and m: "resolves m created current (te_spends e)"
    and sign: "\<forall>o' \<in> set (te_creates e). uo_txid o' = txid \<and> hd (uo_value_base o') \<noteq> CHR ''-''"
  shows "\<exists>block x. parse_block snapshot = Inr block
    \<and> serialize_transaction_summary block tx (int i) m = Inr x
    \<and> ex_txid x = tf_txid f \<and> ex_tx_index x = tf_tx_index f \<and> ex_block_hash x = tf_block_hash f
    \<and> ex_block_height x = tf_block_height f \<and> ex_block_time x = tf_block_time f
    \<and> ex_is_coinbase x = tf_is_coinbase f \<and> ex_output_count x = tf_output_count f
    \<and> ex_total_input_base x = tf_total_input_base f \<and> ex_total_output_base x = tf_gross_output_base f
    \<and> ex_fee_base x = tf_fee_base f
    \<and> ex_input_count x = tf_input_count f + int (coinbase_inputs tx)"
proof -
  from tx obtain txid' coinbase inputs ys outs where
    id: "require_string (own_prop tx ''txid'') ''tx.txid'' = Inr txid'"
    and coinbase: "has_coinbase_input tx = Inr coinbase"
    and inputs: "dogecoin_inputs tx = Inr inputs"
    and ys: "map_res (decode_spend txid' (db_height b)) (List.enumerate 0 inputs) = Inr ys"
      "te_spends e = concat (map (case_option [] (\<lambda>s. [s])) ys)"
    and outs: "dogecoin_outputs tx = Inr outs"
      "map_res (\<lambda>(k, out). make_output b txid' i out k coinbase) (List.enumerate 0 outs) = Inr (te_creates e)"
    by (auto simp: decode_transaction_def decode_transaction_spends_def decode_transaction_outputs_def
        and_then_Inr_iff)
  let ?os = "te_creates e"
  have made: "\<exists>out k. make_output b txid' i out k coinbase = Inr o'" if "o' \<in> set ?os" for o'
    using map_res_set [OF outs(2) that] by auto
  then have row: "uo_txid o' = txid' \<and> uo_tx_index o' = int i \<and> uo_is_coinbase o' = coinbase" if "o' \<in> set ?os" for o'
    using that by (fastforce simp: make_output_def and_then_Inr_iff)
  have amount: "output_amount out = Inr (big_value (uo_value_base o'))"
    if "make_output b txid' i out k coinbase = Inr o'" "o' \<in> set ?os" for out k o'
    using output_agrees(1) [OF that(1)] sign that(2) by blast
  have "list_all2 (\<lambda>ko o'. output_amount (snd ko) = Inr (big_value (uo_value_base o'))) (List.enumerate 0 outs) ?os"
    using outs(2) unfolding map_res_Inr_iff by (rule list.rel_mono_strong) (auto intro: amount)
  then have "list_all2 (\<lambda>out v. output_amount out = Inr v) (map snd (List.enumerate 0 outs))
      (map (\<lambda>o'. big_value (uo_value_base o')) ?os)"
    by (simp only: list.rel_map)
  then have total_out: "total_output_base outs = Inr (sum_list (map (\<lambda>o'. big_value (uo_value_base o')) ?os))"
    by (auto simp: total_output_base_def sum_res_iff)
  have vals: "js_bigint (uo_value_base o') = Inr (big_value (uo_value_base o'))" if o': "o' \<in> set ?os" for o'
  proof -
    obtain out k where "make_output b txid' i out k coinbase = Inr o'" using made [OF o'] by blast
    from output_agrees(3) [OF this] sign o' show ?thesis using amount_text_values by blast
  qed
  from fact obtain first ti where first: "require_analytics_output (sort_key uo_vout ?os) = Inr first"
    and ti: "sum_res (core_spend_value created current) (te_spends e) = Inr ti"
    and f: "f = \<lparr>tf_block_hash = ca_block_hash a, tf_block_height = ca_block_height a,
           tf_block_time = ca_block_time a,
           tf_fee_base = analytics_fee_base (list_ex uo_is_coinbase (sort_key uo_vout ?os)) ti
             (sum_list (map (\<lambda>o'. big_value (uo_value_base o')) ?os)),
           tf_gross_output_base = int_str (sum_list (map (\<lambda>o'. big_value (uo_value_base o')) ?os)),
           tf_input_count = int (length (te_spends e)),
           tf_is_coinbase = list_ex uo_is_coinbase (sort_key uo_vout ?os), tf_output_count = int (length ?os),
           tf_total_input_base = int_str ti, tf_tx_index = uo_tx_index first,
           tf_txid = txid, tf_version = ca_block_height a\<rparr>"
    using sum_res_total [of "sort_key uo_vout ?os" "\<lambda>o'. js_bigint (uo_value_base o')" "\<lambda>o'. big_value (uo_value_base o')"]
    by (auto simp: core_transaction_fact_def Let_def and_then_Inr_iff vals sum_sorted)
  have "first \<in> set ?os"
  proof -
    from first obtain r where "sort_key uo_vout ?os = first # r"
      by (cases "sort_key uo_vout ?os") (simp_all add: require_analytics_output_def)
    then show ?thesis by (metis list.set_intros(1) set_sort)
  qed
  then have "list_ex uo_is_coinbase (sort_key uo_vout ?os) = coinbase" "uo_tx_index first = int i" "txid' = txid"
    using row sign by (auto simp: list_ex_iff)
  moreover have "sum_res (resolved_input_value m) inputs = Inr ti \<and> length inputs = length (te_spends e) + coinbase_inputs tx"
    using input_values_agree [OF ys(1) [unfolded map_res_Inr_iff], of m created current ti] m ti
    by (simp add: ys(2) coinbase_inputs_def read_inputs_agree [OF inputs])
  moreover have "length outs = length ?os" using map_res_Inr_length [OF outs(2)] by simp
  moreover have "some_res is_coinbase_input inputs = Inr coinbase"
    using coinbase inputs by (simp add: has_coinbase_input_def)
  ultimately show ?thesis
    using parse_block_agrees [OF assms(1-3)] explorer_require_string_agrees [OF id] total_out a
    by (simp add: serialize_transaction_summary_def Let_def read_inputs_agree [OF inputs] read_outputs_agree [OF outs(1)]
        total_resolved_input_base_def f explorer_view_def transaction_fee_base_def analytics_fee_base_def format_amount_base_def)
qed

lemma sample_output_made:
  "make_output block txid i sample_output_json 0 c = Inr
     \<lparr>uo_address = ''DA'', uo_block_hash = db_hash block, uo_block_height = db_height block,
      uo_block_time = db_time block, uo_is_coinbase = c, uo_is_spendable = True,
      uo_output_key = output_key_of txid 0, uo_script_type = ''pubkeyhash'',
      uo_spent_by_txid = None, uo_spent_in_block = None, uo_spent_input_index = None,
      uo_tx_index = int i, uo_txid = txid, uo_value_base = ''150000000'', uo_vout = 0\<rparr>"
proof -
  have trims: "js_trim '' DA '' = ''DA''" "js_trim ''1.5'' = ''1.5''"
    "js_trim ''pubkeyhash'' = ''pubkeyhash''" by (simp_all add: str_eval)
  show ?thesis
    by (simp add: make_output_def sample_output_json_def get_prop_def is_nullish_def
      extract_dogecoin_output_address_def first_trimmed_text_def output_address_candidates_def
      output_address_list_def known_output_address_list_def output_index_value_def
      output_script_type_def require_trimmed_amount_def sample_amount trims)
qed

definition spent_row :: utxo_output where
  "spent_row = \<lparr>uo_address = ''DB'', uo_block_hash = ''b3'', uo_block_height = 3,
      uo_block_time = 50, uo_is_coinbase = True, uo_is_spendable = True,
      uo_output_key = ''s:0'', uo_script_type = ''pubkeyhash'',
      uo_spent_by_txid = None, uo_spent_in_block = None, uo_spent_input_index = None,
      uo_tx_index = 0, uo_txid = ''s'', uo_value_base = ''200000000'', uo_vout = 0\<rparr>"

theorem explorer_agrees_with_ledger_witness:
  "\<exists>block x. parse_block sample_snapshot = Inr block
     \<and> serialize_transaction_summary block sample_transaction 0 [(''s:0'', created_output spent_row)] = Inr x
     \<and> ex_total_input_base x = ''200000000'' \<and> ex_total_output_base x = ''150000000''
     \<and> ex_fee_base x = Some ''50000000'' \<and> ex_input_count x = 1"
proof -
  let ?b = "\<lparr>db_hash = ''b7'', db_height = 7, db_time = 100, db_previous_hash = Some ''b6'',
      db_tx = [sample_transaction]\<rparr>"
  let ?o = "\<lparr>uo_address = ''DA'', uo_block_hash = ''b7'', uo_block_height = 7,
      uo_block_time = 100, uo_is_coinbase = False, uo_is_spendable = True,
      uo_output_key = output_key_of ''t'' 0, uo_script_type = ''pubkeyhash'',
      uo_spent_by_txid = None, uo_spent_in_block = None, uo_spent_input_index = None,
      uo_tx_index = 0, uo_txid = ''t'', uo_value_base = ''150000000'', uo_vout = 0\<rparr>"
  let ?s = "make_spend ''t'' 7 0 ''s:0''"
  let ?e = "\<lparr>te_creates = [?o], te_spends = [?s]\<rparr>"
  have trims: "js_trim ''t'' = ''t''" "js_trim ''s'' = ''s''" "int_str 0 = ''0''"
    by (simp_all add: str_eval)
  have inputs: "dogecoin_inputs sample_transaction
      = Inr [JObj [(''txid'', JStr ''s''), (''vout'', JNum (JInt 0))]]"
    and outputs: "dogecoin_outputs sample_transaction = Inr [sample_output_json]"
    and txid: "require_string (own_prop sample_transaction ''txid'') ''tx.txid'' = Inr ''t''"
    by (simp_all add: sample_transaction_def dogecoin_inputs_def dogecoin_outputs_def
        nullish_list_def is_nullish_def require_trimmed_string_def trims)
  have tx: "decode_transaction ?b (0, sample_transaction) = Inr ?e"
    by (simp add: decode_transaction_def txid has_coinbase_input_def inputs is_coinbase_input_def get_prop_def
        is_nullish_def decode_transaction_spends_def decode_spend_def spend_output_key_def
        require_trimmed_string_def trims decode_transaction_outputs_def outputs sample_output_made)
  have big: "js_bigint ''150000000'' = Inr 150000000" "js_bigint ''200000000'' = Inr 200000000"
    "int_str 150000000 = ''150000000''" "int_str 200000000 = ''200000000''" "int_str 50000000 = ''50000000''"
    by (simp_all add: js_bigint_amount is_amount_text_def signed_value_def str_eval)
  let ?a = "make_application ?b ?e"
  let ?f = "\<lparr>tf_block_hash = ''b7'', tf_block_height = 7, tf_block_time = 100,
      tf_fee_base = Some ''50000000'', tf_gross_output_base = ''150000000'', tf_input_count = 1,
      tf_is_coinbase = False, tf_output_count = 1, tf_total_input_base = ''200000000'', tf_tx_index = 0,
      tf_txid = ''t'', tf_version = 7\<rparr>"
  have f: "core_transaction_fact ?a ''t'' (te_creates ?e) (te_spends ?e) [] [(''s:0'', spent_row)] = Inr ?f"
    by (simp add: core_transaction_fact_def Let_def require_analytics_output_def sum_res_def core_spend_value_def
        lookup_output_def spent_row_def make_spend_def big analytics_fee_base_def make_application_def)
  have m: "resolves [(''s:0'', created_output spent_row)] [] [(''s:0'', spent_row)] (te_spends ?e)"
  proof -
    have "''s:0'' = output_key_of ''s'' 0" by (simp add: output_key_of_def trims)
    moreover have "is_amount_text ''200000000''" by (simp add: is_amount_text_def str_eval)
    ultimately show ?thesis
      by (auto simp: resolves_def make_spend_def lookup_output_def spent_row_def)
  qed
  have c: "coinbase_inputs sample_transaction = 0"
    by (simp add: coinbase_inputs_def sample_transaction_def is_coinbase_input_def get_prop_def is_nullish_def)
  from explorer_agrees_with_ledger [OF sample_parsed _ _ tx f _ _ _ m] show ?thesis
    by (auto simp: make_application_def c)
qed

section \<open>Inputs that the warehouse does not know\<close>

text \<open>A transaction that spends 2 and 10 base units and pays 5.\<close>

definition two_input_transaction :: json where
  "two_input_transaction = JObj
     [(''txid'', JStr ''t''),
      (''vin'', JArr [JObj [(''txid'', JStr ''s''), (''vout'', JNum (JInt 0))],
                      JObj [(''txid'', JStr ''u''), (''vout'', JNum (JInt 0))]]),
      (''vout'', JArr [JObj [(''value'', JStr ''0.00000005'')]])]"

definition two_inputs :: resolved_inputs where
  "two_inputs = [(''s:0'', \<lparr>ec_address = ''DA'', ec_output_key = ''s:0'', ec_value_base = ''2''\<rparr>),
     (''u:0'', \<lparr>ec_address = ''DB'', ec_output_key = ''u:0'', ec_value_base = ''10''\<rparr>)]"

lemma two_input_facts:
  "explorer_require_string (own_prop two_input_transaction ''txid'') ''tx.txid'' = Inr ''t''"
  "some_res is_coinbase_input (read_inputs (own_prop two_input_transaction ''vin'')) = Inr False"
  "total_resolved_input_base two_inputs (read_inputs (own_prop two_input_transaction ''vin'')) = Inr 12"
  "total_resolved_input_base (take (Suc 0) two_inputs) (read_inputs (own_prop two_input_transaction ''vin'')) = Inr 2"
  "total_output_base (read_outputs (own_prop two_input_transaction ''vout'')) = Inr 5"
  "format_amount_base 7 = ''7''" "format_amount_base (- 3) = ''-3''"
  "is_ok (serialize_transaction_inputs two_inputs two_input_transaction)"
  "is_ok (serialize_transaction_outputs ''t'' (read_outputs (own_prop two_input_transaction ''vout'')) [])"
  by code_simp+

text \<open>
  A transaction shown before its inputs are indexed gets a wrong fee. An input whose output
  the warehouse does not hold yet counts as zero, and a fee is shown as soon as any input is
  resolved: for a transaction that spends 2 and 10 base units and pays 5, the fee is 7 with both
  inputs resolved, and minus 3 when only the first one is.
\<close>

theorem unresolved_inputs_wrong_fee:
  "\<forall>block. \<exists>x y.
     serialize_transaction_summary block two_input_transaction 0 two_inputs = Inr x
     \<and> ex_fee_base x = Some ''7''
     \<and> serialize_transaction_summary block two_input_transaction 0 (take (Suc 0) two_inputs) = Inr y
     \<and> ex_fee_base y = Some ''-3''"
  by (simp add: serialize_transaction_summary_def transaction_fee_base_def Let_def two_input_facts)

end
