(* ===== verification/Explorer_Query.thy ===== *)
theory Explorer_Query
  imports Explorer_Block Value_Objects Config_Keys
begin

text \<open>
  The explorer's queries (\<^verbatim>\<open>explorer-query-service.ts\<close>): search, blocks, transactions, addresses.
  The stores are read only; they are the record \<open>explorer_ports\<close> of functions that answer or fail.
  A query reads them one after the other and takes every answer as it is; the answers of one query
  need not belong to the same moment, so nothing is assumed about how they fit together. Reads that
  the code starts at once and awaits together report the first failing one in order.
\<close>

section \<open>Ports\<close>

record dogecoin_ref =
  dr_rpc_endpoint :: string
  dr_rps :: int

record explorer_ref =
  er_block_hash :: string
  er_block_height :: int
  er_block_time :: int
  er_tx_index :: int

record address_summary =
  as_balance :: string
  as_received_base :: string
  as_sent_base :: string
  as_tx_count :: int
  as_utxo_count :: int

record address_transaction_row =
  at_fact :: transaction_fact
  at_received_base :: string
  at_sent_base :: string

record explorer_ports =
  xp_dogecoin_config :: "dogecoin_ref option res"
  xp_can_read_history :: "bool res"
  xp_json_value :: "string \<Rightarrow> json option res"
  xp_core_block_by_hash :: "string \<Rightarrow> (string \<times> int) option res"
  xp_block_part :: "js_num \<Rightarrow> json option res"
  xp_created_utxo_outputs :: "string list \<Rightarrow> resolved_inputs res"
  xp_utxo_outputs :: "string list \<Rightarrow> utxo_map res"
  xp_address_summary :: "string \<Rightarrow> address_summary option res"
  xp_applied_block_by_hash :: "string \<Rightarrow> (string \<times> int) option res"
  xp_transaction_ref :: "string \<Rightarrow> explorer_ref option res"
  xp_address_transactions :: "string \<Rightarrow> int \<Rightarrow> int \<Rightarrow> address_transaction_row list res"
  xp_address_utxos :: "string \<Rightarrow> int \<Rightarrow> int \<Rightarrow> utxo_output list res"
  xp_applied_blocks :: "int \<Rightarrow> int \<Rightarrow> (string \<times> int) list res"

section \<open>Parameters and readiness\<close>

definition normalize_required_query :: "string option \<Rightarrow> string res" where
  "normalize_required_query query =
     (let q = (case query of None \<Rightarrow> [] | Some t \<Rightarrow> js_trim t) in
      if q = [] then Inl (ValidationError ''missing input params'') else Inr q)"

definition require_explorer_address :: "string \<Rightarrow> string res" where
  "require_explorer_address address =
     (if js_trim address = [] then Inl (ValidationError ''missing input params'') else Inr (js_trim address))"

definition explorer_page :: "page_parameter option \<Rightarrow> page_parameter option \<Rightarrow> (int \<times> int) res" where
  "explorer_page offset limit =
     and_then (parse_bounded_non_negative_integer offset (Some 0) ''offset'' max_page_offset) (\<lambda>o'.
     and_then (parse_bounded_non_negative_integer limit (Some default_page_limit) ''limit'' max_page_limit) (\<lambda>l.
     Inr (case o' of None \<Rightarrow> 0 | Some i \<Rightarrow> i, case l of None \<Rightarrow> default_page_limit | Some i \<Rightarrow> i)))"

definition page_of :: "int \<times> int \<Rightarrow> 'a list \<Rightarrow> 'a list" where
  "page_of page xs = take (nat (snd page)) (drop (nat (fst page)) xs)"

definition resolve_dogecoin :: "explorer_ports \<Rightarrow> dogecoin_ref res" where
  "resolve_dogecoin p =
     and_then (xp_dogecoin_config p) (\<lambda>c.
     case c of None \<Rightarrow> Inl (NotFoundError ''dogecoin config not found'') | Some d \<Rightarrow> Inr d)"

text \<open>A stored tail is an integer; other values are outside the model.\<close>

definition config_number_or_default :: "explorer_ports \<Rightarrow> string \<Rightarrow> int \<Rightarrow> int res" where
  "config_number_or_default p key fallback =
     and_then (xp_json_value p key) (\<lambda>v.
     case v of
       None \<Rightarrow> Inr fallback
     | Some JNull \<Rightarrow> Inr fallback
     | Some (JNum (JInt i)) \<Rightarrow> Inr i
     | Some _ \<Rightarrow> Inl (OutsideModel key))"

definition assert_history_ready :: "explorer_ports \<Rightarrow> unit res" where
  "assert_history_ready p =
     and_then (xp_can_read_history p) (\<lambda>ready.
     if ready then Inr () else Inl (TooEarlyError ''dogecoin history index is not ready''))"

section \<open>Blocks\<close>

definition get_block_by_height :: "explorer_ports \<Rightarrow> js_num \<Rightarrow> explorer_block_summary option res" where
  "get_block_by_height p height =
     and_then (xp_block_part p height) (\<lambda>part.
     case part of
       None \<Rightarrow> Inr None
     | Some snapshot \<Rightarrow> and_then (parse_block snapshot) (\<lambda>b. Inr (Some (serialize_block b))))"

definition load_block_snapshot :: "explorer_ports \<Rightarrow> js_num \<Rightarrow> explorer_block res" where
  "load_block_snapshot p height =
     and_then (xp_block_part p height) (\<lambda>part.
     case part of
       None \<Rightarrow> Inl (NotFoundError ''block not found'')
     | Some snapshot \<Rightarrow> parse_block snapshot)"

definition descending_block_heights :: "int \<Rightarrow> int \<Rightarrow> int \<Rightarrow> int list" where
  "descending_block_heights tail offset limit =
     (if tail < 0 \<or> limit \<le> 0 then []
      else let start = tail - offset in
        if start < 0 then []
        else map (\<lambda>i. start - int i) [0..<nat (min limit (start + 1))])"

definition some_values :: "'a option list \<Rightarrow> 'a list" where
  "some_values xs = concat (map (case_option [] (\<lambda>x. [x])) xs)"

definition list_applied_blocks :: "explorer_ports \<Rightarrow> int \<Rightarrow> int \<Rightarrow> explorer_block_summary list res" where
  "list_applied_blocks p offset limit =
     and_then (xp_applied_blocks p offset limit) (\<lambda>refs.
     and_then (map_res (\<lambda>(_, height). get_block_by_height p (JInt height)) refs) (\<lambda>bs.
     Inr (some_values bs)))"

definition list_blocks ::
  "explorer_ports \<Rightarrow> page_parameter option \<Rightarrow> page_parameter option \<Rightarrow> explorer_block_summary list res" where
  "list_blocks p offset limit =
     and_then (explorer_page offset limit) (\<lambda>(o', l).
     and_then (resolve_dogecoin p) (\<lambda>_.
     and_then (config_number_or_default p config_key_indexer_sync_tail (- 1)) (\<lambda>tail.
     if tail < 0 then list_applied_blocks p o' l
     else and_then (map_res (\<lambda>h. get_block_by_height p (JInt h)) (descending_block_heights tail o' l)) (\<lambda>bs.
          Inr (some_values bs)))))"

definition resolve_block_snapshot :: "explorer_ports \<Rightarrow> string \<Rightarrow> explorer_block res" where
  "resolve_block_snapshot p r =
     (let normalized = js_trim r in
      if all_digits normalized then load_block_snapshot p (js_number normalized)
      else
        and_then (xp_applied_block_by_hash p normalized) (\<lambda>applied.
        and_then (case applied of Some x \<Rightarrow> Inr (Some x) | None \<Rightarrow> xp_core_block_by_hash p normalized) (\<lambda>found.
        case found of
          None \<Rightarrow> Inl (NotFoundError ''block not found'')
        | Some (_, height) \<Rightarrow> load_block_snapshot p (JInt height))))"

definition transaction_input_keys :: "json \<Rightarrow> string list res" where
  "transaction_input_keys tx =
     and_then (map_res (\<lambda>inp. and_then (is_coinbase_input inp) (\<lambda>c. Inr (c, inp))) (read_inputs (own_prop tx ''vin'')))
       (\<lambda>flagged. map_res input_key (map snd (filter (\<lambda>(c, _). \<not> c) flagged)))"

definition load_resolved_inputs :: "explorer_ports \<Rightarrow> json list \<Rightarrow> resolved_inputs res" where
  "load_resolved_inputs p txs =
     and_then (map_res transaction_input_keys txs) (\<lambda>keys.
     xp_created_utxo_outputs p (rev (remdups (rev (concat keys)))))"

record explorer_block_page =
  bp_block :: explorer_block_summary
  bp_offset :: int
  bp_limit :: int
  bp_returned_count :: int
  bp_total_count :: int
  bp_transactions :: "explorer_transaction_summary list"

definition get_block ::
  "explorer_ports \<Rightarrow> string \<Rightarrow> page_parameter option \<Rightarrow> page_parameter option \<Rightarrow> explorer_block_page res" where
  "get_block p r offset limit =
     and_then (explorer_page offset limit) (\<lambda>(o', l).
     and_then (resolve_dogecoin p) (\<lambda>_.
     and_then (assert_history_ready p) (\<lambda>_.
     and_then (resolve_block_snapshot p r) (\<lambda>block.
     let txs = page_of (o', l) (eb_tx block) in
     and_then (load_resolved_inputs p txs) (\<lambda>resolved.
     and_then (map_res (\<lambda>(i, tx). serialize_transaction_summary block tx (o' + int i) resolved) (List.enumerate 0 txs))
       (\<lambda>summaries.
     Inr \<lparr>bp_block = serialize_block block, bp_offset = o', bp_limit = l,
          bp_returned_count = int (length txs), bp_total_count = int (length (eb_tx block)),
          bp_transactions = summaries\<rparr>))))))"

section \<open>Transactions\<close>

definition transaction_refs_ready :: "explorer_ports \<Rightarrow> bool res" where
  "transaction_refs_ready p =
     and_then (xp_json_value p config_key_dogecoin_transaction_refs_ready) (\<lambda>v. Inr (v = Some (JBool True)))"

definition raw_transaction_ref_lookup_limit :: int where
  "raw_transaction_ref_lookup_limit = 1000"

definition has_txid :: "string \<Rightarrow> json \<Rightarrow> bool" where
  "has_txid txid tx \<longleftrightarrow> own_prop tx ''txid'' = JStr txid"

definition find_index :: "('a \<Rightarrow> bool) \<Rightarrow> 'a list \<Rightarrow> nat option" where
  "find_index P xs = (let n = length (takeWhile (\<lambda>x. \<not> P x) xs) in if n < length xs then Some n else None)"

text \<open>The loop over heights, from the sync tail downwards.\<close>

fun find_in_heights :: "explorer_ports \<Rightarrow> string \<Rightarrow> int list \<Rightarrow> explorer_ref option res" where
  "find_in_heights p txid [] = Inr None"
| "find_in_heights p txid (h # hs) =
     and_then (xp_block_part p (JInt h)) (\<lambda>part.
     case part of
       None \<Rightarrow> find_in_heights p txid hs
     | Some snapshot \<Rightarrow>
         and_then (parse_block snapshot) (\<lambda>block.
         case find_index (has_txid txid) (eb_tx block) of
           Some i \<Rightarrow> Inr (Some \<lparr>er_block_hash = eb_hash block, er_block_height = eb_height block,
                                er_block_time = eb_time block, er_tx_index = int i\<rparr>)
         | None \<Rightarrow> find_in_heights p txid hs))"

definition find_raw_transaction_ref :: "explorer_ports \<Rightarrow> string \<Rightarrow> explorer_ref option res" where
  "find_raw_transaction_ref p txid =
     and_then (config_number_or_default p config_key_indexer_sync_tail (- 1)) (\<lambda>sync_tail.
     if sync_tail < 0 then Inr None
     else
       and_then (config_number_or_default p config_key_indexer_process_tail (- 1)) (\<lambda>process_tail.
       let earliest = max 0 (max (process_tail + 1) (sync_tail - raw_transaction_ref_lookup_limit + 1)) in
       find_in_heights p txid (rev [earliest..sync_tail])))"

definition get_transaction_ref :: "explorer_ports \<Rightarrow> string \<Rightarrow> explorer_ref option res" where
  "get_transaction_ref p txid =
     and_then (xp_transaction_ref p txid) (\<lambda>stored.
     case stored of
       None \<Rightarrow>
         and_then (transaction_refs_ready p) (\<lambda>ready.
         if ready then Inr None else find_raw_transaction_ref p txid)
     | Some r \<Rightarrow>
         and_then (xp_core_block_by_hash p (er_block_hash r)) (\<lambda>canonical.
         Inr (case canonical of
                None \<Rightarrow> None
              | Some (_, height) \<Rightarrow> if height \<noteq> er_block_height r then None else Some r)))"

definition require_transaction_ref :: "explorer_ports \<Rightarrow> string \<Rightarrow> explorer_ref res" where
  "require_transaction_ref p txid =
     and_then (get_transaction_ref p txid) (\<lambda>r.
     case r of None \<Rightarrow> Inl (NotFoundError ''transaction not found'') | Some x \<Rightarrow> Inr x)"

definition require_transaction :: "explorer_block \<Rightarrow> string \<Rightarrow> json res" where
  "require_transaction block txid =
     (case find (has_txid txid) (eb_tx block) of
        None \<Rightarrow> Inl (NotFoundError ''transaction not found'')
      | Some tx \<Rightarrow> Inr tx)"

record explorer_transaction_detail =
  td_transaction :: explorer_transaction_summary
  td_inputs :: "explorer_transaction_input list"
  td_outputs :: "explorer_transaction_output list"

definition get_transaction :: "explorer_ports \<Rightarrow> string \<Rightarrow> explorer_transaction_detail res" where
  "get_transaction p raw_txid =
     (let txid = js_trim raw_txid in
      and_then (resolve_dogecoin p) (\<lambda>_.
      and_then (assert_history_ready p) (\<lambda>_.
      and_then (require_transaction_ref p txid) (\<lambda>r.
      and_then (load_block_snapshot p (JInt (er_block_height r))) (\<lambda>block.
      and_then (require_transaction block txid) (\<lambda>tx.
      and_then (load_resolved_inputs p [tx]) (\<lambda>resolved.
      and_then (serialize_transaction_summary block tx (er_tx_index r) resolved) (\<lambda>summary.
      let outs = read_outputs (own_prop tx ''vout'') in
      and_then (xp_utxo_outputs p (map (output_key_of txid) [0..<length outs])) (\<lambda>current.
      and_then (serialize_transaction_inputs resolved tx) (\<lambda>inputs.
      and_then (serialize_transaction_outputs txid outs current) (\<lambda>outputs.
      Inr \<lparr>td_transaction = summary, td_inputs = inputs, td_outputs = outputs\<rparr>)))))))))))"

section \<open>Addresses\<close>

record explorer_address_detail =
  ad_address :: string
  ad_balance :: string
  ad_received_base :: string
  ad_sent_base :: string
  ad_tx_count :: int
  ad_utxo_count :: int

definition address_detail :: "string \<Rightarrow> address_summary option \<Rightarrow> explorer_address_detail" where
  "address_detail address summary =
     (case summary of
        None \<Rightarrow> \<lparr>ad_address = address, ad_balance = ''0'', ad_received_base = ''0'', ad_sent_base = ''0'',
                 ad_tx_count = 0, ad_utxo_count = 0\<rparr>
      | Some s \<Rightarrow> \<lparr>ad_address = address, ad_balance = as_balance s, ad_received_base = as_received_base s,
                   ad_sent_base = as_sent_base s, ad_tx_count = as_tx_count s, ad_utxo_count = as_utxo_count s\<rparr>)"

definition assert_address_exists :: "address_summary option \<Rightarrow> unit res" where
  "assert_address_exists s = (if s = None then Inl (NotFoundError ''address not found'') else Inr ())"

definition get_address :: "explorer_ports \<Rightarrow> string \<Rightarrow> explorer_address_detail res" where
  "get_address p address =
     and_then (require_explorer_address address) (\<lambda>a.
     and_then (resolve_dogecoin p) (\<lambda>_.
     and_then (xp_address_summary p a) (\<lambda>summary.
     and_then (assert_address_exists summary) (\<lambda>_.
     Inr (address_detail a summary)))))"

record explorer_address_transaction =
  xt_transaction :: explorer_transaction_summary
  xt_received_base :: string
  xt_sent_base :: string

definition address_transaction_summary_from_facts :: "address_transaction_row \<Rightarrow> explorer_address_transaction" where
  "address_transaction_summary_from_facts row =
     (let f = at_fact row in
      \<lparr>xt_transaction = \<lparr>ex_txid = tf_txid f, ex_tx_index = tf_tx_index f, ex_block_height = tf_block_height f,
          ex_block_hash = tf_block_hash f, ex_block_time = tf_block_time f, ex_is_coinbase = tf_is_coinbase f,
          ex_input_count = tf_input_count f, ex_output_count = tf_output_count f,
          ex_total_input_base = tf_total_input_base f, ex_total_output_base = tf_gross_output_base f,
          ex_fee_base = tf_fee_base f\<rparr>,
       xt_received_base = at_received_base row, xt_sent_base = at_sent_base row\<rparr>)"

text \<open>
  \<^verbatim>\<open>Array.sort\<close> with a comparison function is stable; \<^verbatim>\<open>localeCompare\<close> depends on the locale and is
  the argument \<open>lc\<close>.
\<close>

fun first_non_zero :: "int list \<Rightarrow> int" where
  "first_non_zero [] = 0"
| "first_non_zero (x # xs) = (if x \<noteq> 0 then x else first_non_zero xs)"

fun sort_in :: "('a \<Rightarrow> 'a \<Rightarrow> int) \<Rightarrow> 'a \<Rightarrow> 'a list \<Rightarrow> 'a list" where
  "sort_in cmp x [] = [x]"
| "sort_in cmp x (y # ys) = (if cmp x y \<le> 0 then x # y # ys else y # sort_in cmp x ys)"

definition js_sort :: "('a \<Rightarrow> 'a \<Rightarrow> int) \<Rightarrow> 'a list \<Rightarrow> 'a list" where
  "js_sort cmp xs = foldr (sort_in cmp) xs []"

definition compare_address_transaction_summaries ::
  "(string \<Rightarrow> string \<Rightarrow> int) \<Rightarrow> explorer_address_transaction \<Rightarrow> explorer_address_transaction \<Rightarrow> int" where
  "compare_address_transaction_summaries lc l r =
     first_non_zero [ex_block_height (xt_transaction r) - ex_block_height (xt_transaction l),
       ex_tx_index (xt_transaction r) - ex_tx_index (xt_transaction l),
       lc (ex_txid (xt_transaction r)) (ex_txid (xt_transaction l))]"

definition list_address_transactions ::
  "(string \<Rightarrow> string \<Rightarrow> int) \<Rightarrow> explorer_ports \<Rightarrow> string \<Rightarrow> page_parameter option \<Rightarrow> page_parameter option
     \<Rightarrow> explorer_address_transaction list res" where
  "list_address_transactions lc p address offset limit =
     and_then (explorer_page offset limit) (\<lambda>(o', l).
     and_then (require_explorer_address address) (\<lambda>a.
     and_then (resolve_dogecoin p) (\<lambda>_.
     and_then (assert_history_ready p) (\<lambda>_.
     and_then (xp_address_transactions p a o' l) (\<lambda>rows.
     Inr (js_sort (compare_address_transaction_summaries lc)
            (map address_transaction_summary_from_facts rows)))))))"

text \<open>Only \<^verbatim>\<open>isCoinbase\<close>, \<^verbatim>\<open>isSpendable\<close> and \<^verbatim>\<open>spentInputIndex\<close> of a row are not passed on.\<close>

record explorer_address_utxo =
  xu_address :: string
  xu_block_hash :: string
  xu_block_height :: int
  xu_block_time :: int
  xu_output_key :: string
  xu_script_type :: string
  xu_spent_by_txid :: "string option"
  xu_spent_in_block :: "int option"
  xu_txid :: string
  xu_tx_index :: int
  xu_value_base :: string
  xu_vout :: int

definition list_address_utxos ::
  "explorer_ports \<Rightarrow> string \<Rightarrow> page_parameter option \<Rightarrow> page_parameter option \<Rightarrow> explorer_address_utxo list res" where
  "list_address_utxos p address offset limit =
     and_then (explorer_page offset limit) (\<lambda>(o', l).
     and_then (require_explorer_address address) (\<lambda>a.
     and_then (resolve_dogecoin p) (\<lambda>_.
     and_then (xp_address_utxos p a o' l) (\<lambda>rows.
     Inr (map (\<lambda>u. \<lparr>xu_address = uo_address u, xu_block_hash = uo_block_hash u,
            xu_block_height = uo_block_height u, xu_block_time = uo_block_time u,
            xu_output_key = uo_output_key u, xu_script_type = uo_script_type u,
            xu_spent_by_txid = uo_spent_by_txid u, xu_spent_in_block = uo_spent_in_block u,
            xu_txid = uo_txid u, xu_tx_index = uo_tx_index u, xu_value_base = uo_value_base u,
            xu_vout = uo_vout u\<rparr>) rows)))))"

section \<open>Search\<close>

datatype explorer_search_result =
    Block_Match int string int
  | Transaction_Match string int string int
  | Address_Match string string int

definition block_search_result :: "explorer_block_summary \<Rightarrow> explorer_search_result" where
  "block_search_result b = Block_Match (es_height b) (es_hash b) (es_time b)"

definition search_transaction :: "explorer_ports \<Rightarrow> string \<Rightarrow> explorer_search_result option res" where
  "search_transaction p q =
     and_then (get_transaction_ref p q) (\<lambda>r.
     Inr (map_option (\<lambda>x. Transaction_Match q (er_block_height x) (er_block_hash x) (er_block_time x)) r))"

definition search_block_hash :: "explorer_ports \<Rightarrow> string \<Rightarrow> explorer_search_result option res" where
  "search_block_hash p q =
     and_then (xp_applied_block_by_hash p q) (\<lambda>r.
     case r of
       None \<Rightarrow> Inr None
     | Some (_, height) \<Rightarrow>
         and_then (get_block_by_height p (JInt height)) (\<lambda>b. Inr (map_option block_search_result b)))"

definition address_search_result :: "string \<Rightarrow> address_summary option \<Rightarrow> explorer_search_result option" where
  "address_search_result address s = map_option (\<lambda>x. Address_Match address (as_balance x) (as_tx_count x)) s"

definition search_address :: "explorer_ports \<Rightarrow> string \<Rightarrow> explorer_search_result option res" where
  "search_address p q = and_then (xp_address_summary p q) (\<lambda>s. Inr (address_search_result q s))"

definition search :: "explorer_ports \<Rightarrow> string option \<Rightarrow> explorer_search_result list res" where
  "search p query =
     and_then (normalize_required_query query) (\<lambda>q.
     and_then (resolve_dogecoin p) (\<lambda>_.
     and_then (assert_history_ready p) (\<lambda>_.
     if all_digits q
     then and_then (get_block_by_height p (js_number q)) (\<lambda>b.
          Inr (case b of None \<Rightarrow> [] | Some x \<Rightarrow> [block_search_result x]))
     else
       and_then (search_transaction p q) (\<lambda>tx.
       and_then (search_block_hash p q) (\<lambda>block.
       and_then (search_address p q) (\<lambda>address.
       Inr (some_values [tx, block, address])))))))"

section \<open>Pages\<close>

lemma explorer_page_bounds:
  assumes "explorer_page offset limit = Inr (o', l)"
  shows "0 \<le> o' \<and> o' \<le> max_page_offset \<and> 0 \<le> l \<and> l \<le> max_page_limit"
proof -
  from assms obtain x y where x: "parse_bounded_non_negative_integer offset (Some 0) ''offset'' max_page_offset = Inr x"
    and y: "parse_bounded_non_negative_integer limit (Some default_page_limit) ''limit'' max_page_limit = Inr y"
    and o': "o' = (case x of None \<Rightarrow> 0 | Some i \<Rightarrow> i)" and l: "l = (case y of None \<Rightarrow> default_page_limit | Some i \<Rightarrow> i)"
    by (auto simp: explorer_page_def and_then_Inr_iff)
  obtain i where "x = Some i" "0 \<le> i" "i \<le> max_page_offset"
    by (rule parse_bounded_range [OF x]) (auto simp: max_page_offset_def)
  moreover obtain j where "y = Some j" "0 \<le> j" "j \<le> max_page_limit"
    by (rule parse_bounded_range [OF y]) (auto simp: max_page_limit_def default_page_limit_def)
  ultimately show ?thesis using o' l by simp
qed

lemma page_of_bound: "explorer_page offset limit = Inr (o', l) \<Longrightarrow> int (length (page_of (o', l) xs)) \<le> l"
  using explorer_page_bounds [of offset limit o' l] by (auto simp: page_of_def)

lemma explorer_require_string_trimmed:
  "explorer_require_string v field = Inr t \<Longrightarrow> t \<noteq> []"
  by (auto simp: explorer_require_string_def and_then_Inr_iff split: if_splits)

lemma summary_shape:
  assumes "serialize_transaction_summary block tx i m = Inr x"
  shows "ex_tx_index x = i \<and> ex_block_hash x = eb_hash block
    \<and> ex_block_height x = eb_height block \<and> ex_block_time x = eb_time block
    \<and> ex_txid x \<noteq> [] \<and> is_amount_text (ex_total_input_base x) \<and> is_amount_text (ex_total_output_base x)
    \<and> (case ex_fee_base x of None \<Rightarrow> True | Some f \<Rightarrow> is_amount_text f)"
proof -
  from assms obtain txid coinbase ti ts where
    "explorer_require_string (own_prop tx ''txid'') ''tx.txid'' = Inr txid"
    and x: "x = \<lparr>ex_txid = txid, ex_tx_index = i, ex_block_height = eb_height block,
          ex_block_hash = eb_hash block, ex_block_time = eb_time block, ex_is_coinbase = coinbase,
          ex_input_count = int (length (read_inputs (own_prop tx ''vin''))),
          ex_output_count = int (length (read_outputs (own_prop tx ''vout''))),
          ex_total_input_base = format_amount_base ti, ex_total_output_base = format_amount_base ts,
          ex_fee_base = transaction_fee_base coinbase ti ts\<rparr>"
    by (auto simp: serialize_transaction_summary_def Let_def and_then_Inr_iff)
  then show ?thesis
    using explorer_require_string_trimmed
    by (auto simp: x format_amount_base_def is_amount_text_int_str transaction_fee_base_def)
qed

text \<open>The heights of a page are that page of all heights, from the tail down to zero.\<close>

lemma descending_page:
  assumes "0 \<le> o'" and "0 \<le> l"
  shows "descending_block_heights tail o' l = page_of (o', l) (rev [0..tail])"
proof (rule nth_equalityI)
  show "length (descending_block_heights tail o' l) = length (page_of (o', l) (rev [0..tail]))"
    using assms by (auto simp: descending_block_heights_def page_of_def Let_def)
  fix i assume i: "i < length (descending_block_heights tail o' l)"
  then have "descending_block_heights tail o' l ! i = tail - o' - int i" and b: "int i < l" "int i \<le> tail - o'"
    by (auto simp: descending_block_heights_def Let_def split: if_splits)
  moreover have "page_of (o', l) (rev [0..tail]) ! i = tail - o' - int i"
    using assms b by (simp add: page_of_def rev_nth nth_upto)
  ultimately show "descending_block_heights tail o' l ! i = page_of (o', l) (rev [0..tail]) ! i" by simp
qed

text \<open>
  Listing blocks pages through the chain. If the raw blocks are there up to the sync tail, the
  page at an offset is exactly that slice of the list of all blocks from the tail down to block
  zero, for every accepted offset and limit; so consecutive pages neither repeat nor skip a block.
\<close>

theorem list_blocks_pages:
  assumes "explorer_page offset limit = Inr page" and "xp_dogecoin_config p = Inr (Some d)"
    and "xp_json_value p config_key_indexer_sync_tail = Inr (Some (JNum (JInt tail)))" and "0 \<le> tail"
    and "\<And>h. 0 \<le> h \<Longrightarrow> h \<le> tail \<Longrightarrow>
          \<exists>snapshot b. xp_block_part p (JInt h) = Inr (Some snapshot) \<and> parse_block snapshot = Inr b
            \<and> summary h = serialize_block b"
  shows "list_blocks p offset limit = Inr (page_of page (map summary (rev [0..tail])))"
proof -
  obtain o' l where page: "page = (o', l)" by (cases page)
  let ?hs = "descending_block_heights tail o' l"
  have bounds: "0 \<le> o'" "0 \<le> l" using explorer_page_bounds assms(1) page by blast+
  have hs: "?hs = page_of (o', l) (rev [0..tail])" using descending_page [OF bounds] .
  have "get_block_by_height p (JInt h) = Inr (Some (summary h))" if "h \<in> set ?hs" for h
  proof -
    have "h \<in> set (rev [0..tail])"
      using that unfolding hs page_of_def by (auto dest!: in_set_takeD in_set_dropD)
    then have "0 \<le> h" "h \<le> tail" by auto
    from assms(5) [OF this] show ?thesis by (auto simp: get_block_by_height_def)
  qed
  then have "map_res (\<lambda>h. get_block_by_height p (JInt h)) ?hs = Inr (map (\<lambda>h. Some (summary h)) ?hs)"
    by (rule map_res_total)
  moreover have "some_values (map (\<lambda>h. Some (summary h)) hs) = map summary hs" for hs
    by (induction hs) (auto simp: some_values_def)
  moreover have "map summary ?hs = page_of (o', l) (map summary (rev [0..tail]))"
    by (simp add: hs page_of_def take_map drop_map)
  ultimately show ?thesis
    using assms(1-4) by (simp add: list_blocks_def page resolve_dogecoin_def config_number_or_default_def)
qed

text \<open>
  C38. A page of a block is well formed. Whatever the stores answer, a page that is returned holds
  at most the accepted limit of transactions (500 at most), its counts are the ones of the page and
  of the block, the transactions are numbered from the offset without gaps and carry the hash,
  height and time of the block, their ids are not blank, and all their totals and fees are integer
  amounts.
\<close>

theorem block_page_well_formed:
  assumes "get_block p r offset limit = Inr pg"
  shows "bp_returned_count pg = int (length (bp_transactions pg)) \<and> bp_returned_count pg \<le> bp_limit pg
    \<and> bp_limit pg \<le> 500 \<and> bp_total_count pg = es_tx_count (bp_block pg)
    \<and> (\<forall>k < length (bp_transactions pg). let x = bp_transactions pg ! k in
         ex_tx_index x = bp_offset pg + int k \<and> ex_block_hash x = es_hash (bp_block pg)
         \<and> ex_block_height x = es_height (bp_block pg) \<and> ex_block_time x = es_time (bp_block pg)
         \<and> ex_txid x \<noteq> [] \<and> is_amount_text (ex_total_input_base x) \<and> is_amount_text (ex_total_output_base x)
         \<and> (case ex_fee_base x of None \<Rightarrow> True | Some f \<Rightarrow> is_amount_text f))"
proof -
  from assms obtain o' l block resolved summaries where
    page: "explorer_page offset limit = Inr (o', l)"
    and s: "map_res (\<lambda>(i, tx). serialize_transaction_summary block tx (o' + int i) resolved)
         (List.enumerate 0 (page_of (o', l) (eb_tx block))) = Inr summaries"
    and pg: "pg = \<lparr>bp_block = serialize_block block, bp_offset = o', bp_limit = l,
          bp_returned_count = int (length (page_of (o', l) (eb_tx block))), bp_total_count = int (length (eb_tx block)),
          bp_transactions = summaries\<rparr>"
    by (auto simp: get_block_def Let_def and_then_Inr_iff)
  let ?txs = "page_of (o', l) (eb_tx block)"
  have len: "length summaries = length ?txs" using map_res_Inr_length [OF s] by simp
  have "serialize_transaction_summary block (?txs ! k) (o' + int k) resolved = Inr (summaries ! k)"
    if "k < length summaries" for k
    using s that len unfolding map_res_Inr_iff list_all2_conv_all_nth by (auto simp: nth_enumerate_eq)
  then have "let x = summaries ! k in
         ex_tx_index x = o' + int k \<and> ex_block_hash x = eb_hash block
         \<and> ex_block_height x = eb_height block \<and> ex_block_time x = eb_time block
         \<and> ex_txid x \<noteq> [] \<and> is_amount_text (ex_total_input_base x) \<and> is_amount_text (ex_total_output_base x)
         \<and> (case ex_fee_base x of None \<Rightarrow> True | Some f \<Rightarrow> is_amount_text f)"
    if "k < length summaries" for k
    unfolding Let_def using summary_shape that by blast
  then show ?thesis
    using len page_of_bound [OF page, of "eb_tx block"] explorer_page_bounds [OF page]
    by (simp add: pg serialize_block_def max_page_limit_def)
qed

section \<open>Only canonical transactions\<close>

lemma find_in_heights_Some:
  "find_in_heights p txid hs = Inr (Some r) \<Longrightarrow>
     \<exists>h \<in> set hs. \<exists>snapshot block. xp_block_part p (JInt h) = Inr (Some snapshot)
       \<and> parse_block snapshot = Inr block \<and> er_block_height r = eb_height block"
proof (induction hs)
  case (Cons h hs)
  show ?case
  proof (cases "xp_block_part p (JInt h)")
    case (Inr part)
    show ?thesis
    proof (cases part)
      case None
      then show ?thesis using Cons Inr by auto
    next
      case (Some snapshot)
      from Cons.prems Inr Some obtain block where b: "parse_block snapshot = Inr block"
        by (auto simp: and_then_Inr_iff)
      show ?thesis
      proof (cases "find_index (has_txid txid) (eb_tx block)")
        case None
        then show ?thesis using Cons Inr Some b by auto
      next
        case (Some i)
        then show ?thesis using Cons.prems Inr \<open>part = Some snapshot\<close> b by auto
      qed
    qed
  qed (use Cons.prems in simp)
qed simp

definition canonical_ref :: "explorer_ports \<Rightarrow> string \<Rightarrow> int \<Rightarrow> bool" where
  "canonical_ref p txid h \<longleftrightarrow> (\<exists>r c. xp_transaction_ref p txid = Inr (Some r)
     \<and> xp_core_block_by_hash p (er_block_hash r) = Inr (Some (c, h)) \<and> er_block_height r = h)"

definition synced_ref :: "explorer_ports \<Rightarrow> string \<Rightarrow> int \<Rightarrow> bool" where
  "synced_ref p txid h \<longleftrightarrow> xp_transaction_ref p txid = Inr None
     \<and> (\<exists>sync_tail process_tail h' snapshot block.
          config_number_or_default p config_key_indexer_sync_tail (- 1) = Inr sync_tail
          \<and> config_number_or_default p config_key_indexer_process_tail (- 1) = Inr process_tail
          \<and> process_tail < h' \<and> h' \<le> sync_tail \<and> sync_tail - 1000 < h' \<and> 0 \<le> h'
          \<and> xp_block_part p (JInt h') = Inr (Some snapshot) \<and> parse_block snapshot = Inr block
          \<and> eb_height block = h)"

lemma get_transaction_ref_sound:
  assumes "get_transaction_ref p txid = Inr (Some r)"
  shows "canonical_ref p txid (er_block_height r) \<or> synced_ref p txid (er_block_height r)"
proof -
  from assms obtain stored where stored: "xp_transaction_ref p txid = Inr stored"
    by (auto simp: get_transaction_ref_def and_then_Inr_iff)
  show ?thesis
  proof (cases stored)
    case (Some x)
    then show ?thesis using assms stored
      by (auto simp: get_transaction_ref_def and_then_Inr_iff canonical_ref_def split: option.splits if_splits)
  next
    case None
    then have "find_raw_transaction_ref p txid = Inr (Some r)"
      using assms stored by (auto simp: get_transaction_ref_def and_then_Inr_iff split: if_splits)
    then obtain sync_tail process_tail where
      tails: "config_number_or_default p config_key_indexer_sync_tail (- 1) = Inr sync_tail"
        "config_number_or_default p config_key_indexer_process_tail (- 1) = Inr process_tail"
      and found: "find_in_heights p txid
         (rev [max 0 (max (process_tail + 1) (sync_tail - raw_transaction_ref_lookup_limit + 1))..sync_tail]) = Inr (Some r)"
      by (auto simp: find_raw_transaction_ref_def and_then_Inr_iff Let_def split: if_splits)
    from find_in_heights_Some [OF found] obtain h' snapshot block where
      h': "h' \<in> set [max 0 (max (process_tail + 1) (sync_tail - raw_transaction_ref_lookup_limit + 1))..sync_tail]"
      and part: "xp_block_part p (JInt h') = Inr (Some snapshot)" "parse_block snapshot = Inr block"
        "er_block_height r = eb_height block"
      by auto
    from h' have "process_tail < h'" "h' \<le> sync_tail" "sync_tail - 1000 < h'" "0 \<le> h'"
      by (auto simp: raw_transaction_ref_lookup_limit_def)
    then have "synced_ref p txid (er_block_height r)"
      using stored None tails part unfolding synced_ref_def by metis
    then show ?thesis ..
  qed
qed

text \<open>
  C34. The transaction that is shown is on the chain. A transaction detail that is returned belongs
  to a transaction with exactly the requested (trimmed) id in the raw block stored at its height,
  and that block was reached in one of two ways: by the warehouse's reference, whose block the
  metadata store still lists at that height (a reference into a block that a reorganisation removed
  is never followed), or, without a reference, through a raw block above the process tail and at
  most a thousand blocks below the sync tail.
\<close>

theorem shown_transaction_on_chain:
  assumes "get_transaction p raw_txid = Inr d"
  shows "let x = td_transaction d; txid = js_trim raw_txid in
    ex_txid x = txid
    \<and> (\<exists>h snapshot block tx. xp_block_part p (JInt h) = Inr (Some snapshot) \<and> parse_block snapshot = Inr block
         \<and> tx \<in> set (eb_tx block) \<and> own_prop tx ''txid'' = JStr txid
         \<and> ex_block_hash x = eb_hash block \<and> ex_block_height x = eb_height block
         \<and> (canonical_ref p txid h \<or> synced_ref p txid h))"
proof -
  from assms obtain r block tx resolved summary where
    r: "require_transaction_ref p (js_trim raw_txid) = Inr r"
    and block: "load_block_snapshot p (JInt (er_block_height r)) = Inr block"
    and tx: "require_transaction block (js_trim raw_txid) = Inr tx"
    and s: "serialize_transaction_summary block tx (er_tx_index r) resolved = Inr summary"
    and d: "td_transaction d = summary"
    by (auto simp: get_transaction_def Let_def and_then_Inr_iff)
  from r have ref: "get_transaction_ref p (js_trim raw_txid) = Inr (Some r)"
    by (auto simp: require_transaction_ref_def and_then_Inr_iff split: option.splits)
  from block obtain snapshot where snapshot: "xp_block_part p (JInt (er_block_height r)) = Inr (Some snapshot)"
    "parse_block snapshot = Inr block"
    by (auto simp: load_block_snapshot_def and_then_Inr_iff split: option.splits)
  from tx have "find (has_txid (js_trim raw_txid)) (eb_tx block) = Some tx"
    by (auto simp: require_transaction_def split: option.splits)
  then have found: "tx \<in> set (eb_tx block)" "own_prop tx ''txid'' = JStr (js_trim raw_txid)"
    by (auto simp: find_Some_iff has_txid_def)
  have "ex_txid summary = js_trim raw_txid"
    using s found(2) by (auto simp: serialize_transaction_summary_def Let_def and_then_Inr_iff
        explorer_require_string_def split: if_splits)
  then show ?thesis
    using get_transaction_ref_sound [OF ref] snapshot found summary_shape [OF s]
    unfolding d Let_def by blast
qed

section \<open>Order of an address's transactions\<close>

lemma sort_in_mset: "mset (sort_in cmp x ys) = add_mset x (mset ys)"
  by (induction ys) auto

lemma js_sort_mset: "mset (js_sort cmp xs) = mset xs"
  by (induction xs) (simp_all add: js_sort_def sort_in_mset)

lemma js_sort_sorted:
  assumes "\<And>x y. cmp x y \<le> 0 \<Longrightarrow> R x y" and "\<And>x y. \<not> cmp x y \<le> 0 \<Longrightarrow> R y x" and "\<And>x y z. R x y \<Longrightarrow> R y z \<Longrightarrow> R x z"
  shows "sorted_wrt R (js_sort cmp xs)"
proof -
  have step: "sorted_wrt R ys \<Longrightarrow> sorted_wrt R (sort_in cmp x ys)" for x ys
  proof (induction ys)
    case (Cons y ys)
    have "set (sort_in cmp x ys) = insert x (set ys)" using sort_in_mset [of cmp x ys] by (metis set_mset_add_mset_insert set_mset_mset)
    then show ?case using Cons assms by fastforce
  qed simp
  show ?thesis by (induction xs) (simp_all add: js_sort_def step)
qed

definition not_later :: "explorer_address_transaction \<Rightarrow> explorer_address_transaction \<Rightarrow> bool" where
  "not_later x y \<longleftrightarrow> ex_block_height (xt_transaction y) < ex_block_height (xt_transaction x)
     \<or> (ex_block_height (xt_transaction y) = ex_block_height (xt_transaction x)
        \<and> ex_tx_index (xt_transaction y) \<le> ex_tx_index (xt_transaction x))"

text \<open>
  An address's history is shown newest first and complete: whatever the locale's comparison of
  ids says, the returned page holds exactly the rows of the warehouse's page, and they are ordered
  from the highest block downwards and within a block from the highest transaction index downwards.
\<close>

theorem address_history_newest_first:
  assumes "list_address_transactions lc p address offset limit = Inr xs"
  shows "\<exists>page rows. explorer_page offset limit = Inr page
    \<and> xp_address_transactions p (js_trim address) (fst page) (snd page) = Inr rows
    \<and> mset xs = mset (map address_transaction_summary_from_facts rows)
    \<and> sorted_wrt not_later xs"
proof -
  from assms obtain o' l rows where "explorer_page offset limit = Inr (o', l)"
    and "xp_address_transactions p (js_trim address) o' l = Inr rows"
    and xs: "xs = js_sort (compare_address_transaction_summaries lc) (map address_transaction_summary_from_facts rows)"
    by (auto simp: list_address_transactions_def and_then_Inr_iff require_explorer_address_def split: if_splits)
  moreover have "sorted_wrt not_later xs"
    unfolding xs
    by (rule js_sort_sorted) (auto simp: compare_address_transaction_summaries_def not_later_def split: if_splits)
  ultimately show ?thesis by (auto simp: js_sort_mset)
qed

section \<open>Samples\<close>

definition sample_part :: "js_num \<Rightarrow> json" where
  "sample_part h = JObj [(''block'', JObj
     [(''hash'', JStr ''b''), (''height'', JNum h), (''time'', JNum (JInt 100)),
      (''tx'', JArr [two_input_transaction])])]"

definition sample_fact :: "int \<Rightarrow> address_transaction_row" where
  "sample_fact h = \<lparr>at_fact = \<lparr>tf_block_hash = ''b'', tf_block_height = h, tf_block_time = 100,
      tf_fee_base = None, tf_gross_output_base = ''5'', tf_input_count = 2, tf_is_coinbase = False,
      tf_output_count = 1, tf_total_input_base = ''12'', tf_tx_index = 0, tf_txid = ''t'', tf_version = h\<rparr>,
    at_received_base = ''0'', at_sent_base = ''2''\<rparr>"

definition sample_ports :: explorer_ports where
  "sample_ports =
     \<lparr>xp_dogecoin_config = Inr (Some \<lparr>dr_rpc_endpoint = ''http://node'', dr_rps = 10\<rparr>),
      xp_can_read_history = Inr True,
      xp_json_value = (\<lambda>k. Inr (if k = config_key_indexer_sync_tail then Some (JNum (JInt 9)) else None)),
      xp_core_block_by_hash = (\<lambda>h. Inr (if h = ''b'' then Some (''b'', 7) else None)),
      xp_block_part = (\<lambda>h. Inr (Some (sample_part h))),
      xp_created_utxo_outputs = (\<lambda>_. Inr two_inputs),
      xp_utxo_outputs = (\<lambda>_. Inr []),
      xp_address_summary = (\<lambda>_. Inr None),
      xp_applied_block_by_hash = (\<lambda>h. Inr (if h = ''b'' then Some (''b'', 7) else None)),
      xp_transaction_ref = (\<lambda>_. Inr (Some \<lparr>er_block_hash = ''b'', er_block_height = 7, er_block_time = 100,
        er_tx_index = 0\<rparr>)),
      xp_address_transactions = (\<lambda>_ _ _. Inr [sample_fact 3, sample_fact 8]),
      xp_address_utxos = (\<lambda>_ _ _. Inr []),
      xp_applied_blocks = (\<lambda>_ _. Inr [])\<rparr>"

abbreviation sample_number :: "int \<Rightarrow> page_parameter option" where
  "sample_number i \<equiv> Some (Number_Param (JInt i))"

lemma sample_page: "explorer_page (sample_number 1) (sample_number 2) = Inr (1, 2)"
  by (simp add: explorer_page_def parse_bounded_non_negative_integer_def max_page_offset_def max_page_limit_def)

lemma sample_part_parses:
  "0 \<le> h \<Longrightarrow> h \<le> 9 \<Longrightarrow> parse_block (sample_part (JInt h))
     = Inr \<lparr>eb_hash = ''b'', eb_height = h, eb_time = 100, eb_tx = [two_input_transaction]\<rparr>"
proof -
  have "js_trim ''b'' = ''b''" "is_dogecoin_transaction two_input_transaction"
    by (simp_all add: str_eval two_input_transaction_def)
  then show "0 \<le> h \<Longrightarrow> h \<le> 9 \<Longrightarrow> ?thesis"
    by (simp add: parse_block_def sample_part_def require_record_def explorer_require_string_def)
qed

theorem list_blocks_pages_witness:
  "list_blocks sample_ports (sample_number 1) (sample_number 2)
     = Inr [\<lparr>es_hash = ''b'', es_height = 8, es_time = 100, es_tx_count = 1\<rparr>,
            \<lparr>es_hash = ''b'', es_height = 7, es_time = 100, es_tx_count = 1\<rparr>]"
proof -
  let ?summary = "\<lambda>h. \<lparr>es_hash = ''b'', es_height = h, es_time = 100, es_tx_count = 1\<rparr>"
  have "list_blocks sample_ports (sample_number 1) (sample_number 2)
      = Inr (page_of (1, 2) (map ?summary (rev [0..9])))"
    by (rule list_blocks_pages [where d = "\<lparr>dr_rpc_endpoint = ''http://node'', dr_rps = 10\<rparr>"])
      (use sample_page sample_part_parses in \<open>auto simp: sample_ports_def serialize_block_def\<close>)
  also have "page_of (1, 2) (map ?summary (rev [0..9])) = [?summary 8, ?summary 7]"
    by (simp add: page_of_def upto.simps numeral_eq_Suc)
  finally show ?thesis .
qed

lemma sample_queries_ok:
  "is_ok (get_block sample_ports ''b'' None (sample_number 2))" "is_ok (get_transaction sample_ports '' t '')"
proof -
  have trims: "js_trim '' t '' = ''t''" "js_trim ''b'' = ''b''" "\<not> all_digits ''b''"
    by (simp_all add: str_eval)
  have id: "own_prop two_input_transaction ''txid'' = JStr ''t''" by (simp add: two_input_transaction_def)
  have keys: "is_ok (transaction_input_keys two_input_transaction)" by code_simp
  have loaded: "load_resolved_inputs sample_ports [two_input_transaction] = Inr two_inputs"
    using keys by (auto simp: load_resolved_inputs_def sample_ports_def is_ok_iff)
  have base: "resolve_dogecoin sample_ports = Inr \<lparr>dr_rpc_endpoint = ''http://node'', dr_rps = 10\<rparr>"
    "assert_history_ready sample_ports = Inr ()"
    "load_block_snapshot sample_ports (JInt 7)
      = Inr \<lparr>eb_hash = ''b'', eb_height = 7, eb_time = 100, eb_tx = [two_input_transaction]\<rparr>"
    "resolve_block_snapshot sample_ports ''b'' = load_block_snapshot sample_ports (JInt 7)"
    by (simp_all add: resolve_dogecoin_def assert_history_ready_def load_block_snapshot_def sample_part_parses
        resolve_block_snapshot_def trims sample_ports_def Let_def)
  have summary: "is_ok (serialize_transaction_summary b two_input_transaction i two_inputs)" for b i
    by (simp add: serialize_transaction_summary_def two_input_facts Let_def)
  have page: "explorer_page None (sample_number 2) = Inr (0, 2)"
    by (simp add: explorer_page_def parse_bounded_non_negative_integer_def max_page_limit_def)
  let ?b = "\<lparr>eb_hash = ''b'', eb_height = 7, eb_time = 100, eb_tx = [two_input_transaction]\<rparr>"
  obtain x where x: "serialize_transaction_summary ?b two_input_transaction 0 two_inputs = Inr x"
    using summary unfolding is_ok_iff by blast
  show "is_ok (get_block sample_ports ''b'' None (sample_number 2))"
    by (simp add: get_block_def page base page_of_def loaded x)
  have r: "require_transaction_ref sample_ports ''t'' = Inr \<lparr>er_block_hash = ''b'', er_block_height = 7,
      er_block_time = 100, er_tx_index = 0\<rparr>"
    by (simp add: require_transaction_ref_def get_transaction_ref_def sample_ports_def)
  have current: "xp_utxo_outputs sample_ports ks = Inr []" for ks by (simp add: sample_ports_def)
  show "is_ok (get_transaction sample_ports '' t '')"
    using two_input_facts(8,9)
    by (auto simp: get_transaction_def trims base r require_transaction_def has_txid_def id loaded current x Let_def is_ok_iff)
qed

theorem block_page_well_formed_witness:
  "\<exists>pg. get_block sample_ports ''b'' None (sample_number 2) = Inr pg \<and> bp_limit pg \<le> 500
     \<and> bp_returned_count pg = int (length (bp_transactions pg))"
proof -
  obtain pg where pg: "get_block sample_ports ''b'' None (sample_number 2) = Inr pg"
    using sample_queries_ok(1) by (auto simp: is_ok_iff)
  from block_page_well_formed [OF pg] pg show ?thesis by blast
qed

theorem shown_transaction_on_chain_witness:
  "\<exists>d. get_transaction sample_ports '' t '' = Inr d \<and> ex_txid (td_transaction d) = ''t''"
proof -
  obtain d where d: "get_transaction sample_ports '' t '' = Inr d"
    using sample_queries_ok(2) by (auto simp: is_ok_iff)
  have "js_trim '' t '' = ''t''" by (simp add: str_eval)
  moreover have "ex_txid (td_transaction d) = js_trim '' t ''"
    using shown_transaction_on_chain [OF d] unfolding Let_def by (rule conjunct1)
  ultimately show ?thesis using d by simp
qed

theorem address_history_newest_first_witness:
  "\<exists>xs. list_address_transactions (\<lambda>_ _. 0) sample_ports ''DA'' None None = Inr xs
     \<and> map (\<lambda>x. ex_block_height (xt_transaction x)) xs = [8, 3] \<and> sorted_wrt not_later xs"
proof -
  have t: "js_trim ''DA'' = ''DA''" by (simp add: str_eval)
  let ?xs = "map address_transaction_summary_from_facts [sample_fact 8, sample_fact 3]"
  have "resolve_dogecoin sample_ports = Inr \<lparr>dr_rpc_endpoint = ''http://node'', dr_rps = 10\<rparr>"
    "assert_history_ready sample_ports = Inr ()"
    "\<And>a o' l. xp_address_transactions sample_ports a o' l = Inr [sample_fact 3, sample_fact 8]"
    by (simp_all add: resolve_dogecoin_def assert_history_ready_def sample_ports_def)
  moreover have "explorer_page None None = Inr (0, default_page_limit)"
    by (simp add: explorer_page_def parse_bounded_non_negative_integer_def)
  moreover have "require_explorer_address ''DA'' = Inr ''DA''" by (simp add: require_explorer_address_def t)
  moreover have "js_sort (compare_address_transaction_summaries (\<lambda>_ _. 0))
      (map address_transaction_summary_from_facts [sample_fact 3, sample_fact 8]) = ?xs"
    by (simp add: js_sort_def compare_address_transaction_summaries_def
        address_transaction_summary_from_facts_def sample_fact_def Let_def)
  ultimately have xs: "list_address_transactions (\<lambda>_ _. 0) sample_ports ''DA'' None None = Inr ?xs"
    unfolding list_address_transactions_def by (simp only: and_then.simps prod.case)
  have "map (\<lambda>x. ex_block_height (xt_transaction x)) ?xs = [8, 3]"
    by (simp add: address_transaction_summary_from_facts_def sample_fact_def Let_def)
  moreover have "sorted_wrt not_later ?xs" using address_history_newest_first [OF xs] by (elim exE conjE)
  ultimately show ?thesis using xs by (intro exI [of _ ?xs] conjI)
qed

end
