(* ===== verification/Explorer_Mempool.thy ===== *)
theory Explorer_Mempool
  imports Explorer_Query
begin

text \<open>
  The explorer's view of the node's mempool (\<^verbatim>\<open>listMempool\<close> and the functions it uses in
  \<^verbatim>\<open>explorer-query-service.ts\<close>): reading the entries of the node, ordering them, and the cache that
  lets concurrent requests share one load. A promise is a number, its load pending or settled;
  requests and settlements come in any order, with any readings of the clock.
\<close>

section \<open>Reading the node's answer\<close>

fun read_non_negative_integer :: "json \<Rightarrow> int option" where
  "read_non_negative_integer (JNum n) = non_negative_integer_or_undefined n"
| "read_non_negative_integer _ = None"

definition read_optional_record :: "json \<Rightarrow> json option" where
  "read_optional_record v = (if is_plain_record v then Some v else None)"

definition read_mempool_size_bytes :: "json \<Rightarrow> int option" where
  "read_mempool_size_bytes e =
     (case read_non_negative_integer (own_prop e ''size'') of
        Some n \<Rightarrow> Some n | None \<Rightarrow> read_non_negative_integer (own_prop e ''vsize''))"

definition read_mempool_amount_value :: "json \<Rightarrow> json option \<Rightarrow> string \<Rightarrow> string \<Rightarrow> json" where
  "read_mempool_amount_value e fees entry_key fee_key =
     (if own_prop e entry_key \<noteq> JUndefined then own_prop e entry_key
      else case fees of None \<Rightarrow> JUndefined | Some f \<Rightarrow> own_prop f fee_key)"

definition decimal_amount_or_null :: "amount_input \<Rightarrow> string option" where
  "decimal_amount_or_null a = (case from_decimal_units a 8 of Inl _ \<Rightarrow> None | Inr t \<Rightarrow> Some t)"

fun read_decimal_amount_base :: "json \<Rightarrow> string option" where
  "read_decimal_amount_base (JNum n) = decimal_amount_or_null (Amount_Num n)"
| "read_decimal_amount_base (JStr s) = decimal_amount_or_null (Amount_Text s)"
| "read_decimal_amount_base _ = None"

definition read_mempool_amount :: "json \<Rightarrow> json option \<Rightarrow> string \<Rightarrow> string \<Rightarrow> string option" where
  "read_mempool_amount e fees entry_key fee_key =
     read_decimal_amount_base (read_mempool_amount_value e fees entry_key fee_key)"

fun read_string_array :: "json \<Rightarrow> string list" where
  "read_string_array (JArr xs) =
     concat (map (\<lambda>x. case x of JStr s \<Rightarrow> if js_trim s = [] then [] else [s] | _ \<Rightarrow> []) xs)"
| "read_string_array _ = []"

definition fee_rate_base_per_kilobyte :: "string option \<Rightarrow> int option \<Rightarrow> string option res" where
  "fee_rate_base_per_kilobyte fee_base size_bytes =
     (case (fee_base, size_bytes) of
        (Some f, Some n) \<Rightarrow>
          if f = [] \<or> n \<le> 0 then Inr None
          else and_then (parse_amount_base f) (\<lambda>v. Inr (Some (format_amount_base (bigint_div (v * 1000) n))))
      | _ \<Rightarrow> Inr None)"

record mempool_transaction =
  mt_txid :: string
  mt_time :: "int option"
  mt_height :: "int option"
  mt_size_bytes :: "int option"
  mt_fee_base :: "string option"
  mt_modified_fee_base :: "string option"
  mt_fee_rate_base_per_kilobyte :: "string option"
  mt_ancestor_count :: "int option"
  mt_ancestor_size_bytes :: "int option"
  mt_ancestor_fees_base :: "string option"
  mt_descendant_count :: "int option"
  mt_descendant_size_bytes :: "int option"
  mt_descendant_fees_base :: "string option"
  mt_depends :: "string list"

definition serialize_mempool_transaction :: "string \<times> json \<Rightarrow> mempool_transaction res" where
  "serialize_mempool_transaction = (\<lambda>(txid, e).
     let fees = read_optional_record (own_prop e ''fees'');
         size_bytes = read_mempool_size_bytes e;
         fee_base = read_mempool_amount e fees ''fee'' ''base'' in
     and_then (fee_rate_base_per_kilobyte fee_base size_bytes) (\<lambda>rate.
     Inr \<lparr>mt_txid = txid,
          mt_time = read_non_negative_integer (own_prop e ''time''),
          mt_height = read_non_negative_integer (own_prop e ''height''),
          mt_size_bytes = size_bytes, mt_fee_base = fee_base,
          mt_modified_fee_base = read_mempool_amount e fees ''modifiedfee'' ''modified'',
          mt_fee_rate_base_per_kilobyte = rate,
          mt_ancestor_count = read_non_negative_integer (own_prop e ''ancestorcount''),
          mt_ancestor_size_bytes = read_non_negative_integer (own_prop e ''ancestorsize''),
          mt_ancestor_fees_base = read_mempool_amount e fees ''ancestorfees'' ''ancestor'',
          mt_descendant_count = read_non_negative_integer (own_prop e ''descendantcount''),
          mt_descendant_size_bytes = read_non_negative_integer (own_prop e ''descendantsize''),
          mt_descendant_fees_base = read_mempool_amount e fees ''descendantfees'' ''descendant'',
          mt_depends = read_string_array (own_prop e ''depends'')\<rparr>))"

record mempool_info =
  mi_bytes :: "int option"
  mi_usage_bytes :: "int option"
  mi_max_mempool_bytes :: "int option"
  mi_mempool_min_fee_base_per_kilobyte :: "string option"
  mi_min_relay_fee_base_per_kilobyte :: "string option"

definition serialize_mempool_info :: "json \<Rightarrow> mempool_info" where
  "serialize_mempool_info info =
     \<lparr>mi_bytes = read_non_negative_integer (own_prop info ''bytes''),
      mi_usage_bytes = read_non_negative_integer (own_prop info ''usage''),
      mi_max_mempool_bytes = read_non_negative_integer (own_prop info ''maxmempool''),
      mi_mempool_min_fee_base_per_kilobyte = read_decimal_amount_base (own_prop info ''mempoolminfee''),
      mi_min_relay_fee_base_per_kilobyte = read_decimal_amount_base (own_prop info ''minrelaytxfee'')\<rparr>"

definition mempool_time :: "mempool_transaction \<Rightarrow> int" where
  "mempool_time t = (case mt_time t of None \<Rightarrow> - 1 | Some n \<Rightarrow> n)"

definition compare_mempool_transactions ::
  "(string \<Rightarrow> string \<Rightarrow> int) \<Rightarrow> mempool_transaction \<Rightarrow> mempool_transaction \<Rightarrow> int" where
  "compare_mempool_transactions lc l r =
     first_non_zero [mempool_time r - mempool_time l, lc (mt_txid l) (mt_txid r)]"

text \<open>The node's answer: the entries in order, the time of the answer and the info object.\<close>

record mempool_answer =
  ma_entries :: "(string \<times> json) list"
  ma_fetched_at :: string
  ma_info :: json

record mempool_snapshot =
  ms_info :: mempool_info
  ms_fetched_at :: string
  ms_total_count :: int
  ms_transactions :: "mempool_transaction list"

definition load_mempool_snapshot :: "(string \<Rightarrow> string \<Rightarrow> int) \<Rightarrow> mempool_answer res \<Rightarrow> mempool_snapshot res" where
  "load_mempool_snapshot lc answer =
     and_then answer (\<lambda>a.
     and_then (map_res serialize_mempool_transaction (ma_entries a)) (\<lambda>txs.
     let sorted_txs = js_sort (compare_mempool_transactions lc) txs in
     Inr \<lparr>ms_info = serialize_mempool_info (ma_info a), ms_fetched_at = ma_fetched_at a,
          ms_total_count = int (length sorted_txs), ms_transactions = sorted_txs\<rparr>))"

record mempool_page =
  mp_snapshot :: mempool_snapshot
  mp_offset :: int
  mp_limit :: int
  mp_returned_count :: int
  mp_transactions :: "mempool_transaction list"

text \<open>The page of a snapshot; the page is parsed before the snapshot is asked for.\<close>

definition mempool_page_of :: "int \<times> int \<Rightarrow> mempool_snapshot \<Rightarrow> mempool_page" where
  "mempool_page_of page s =
     \<lparr>mp_snapshot = s, mp_offset = fst page, mp_limit = snd page,
      mp_returned_count = int (length (page_of page (ms_transactions s))),
      mp_transactions = page_of page (ms_transactions s)\<rparr>"

definition list_mempool ::
  "explorer_ports \<Rightarrow> page_parameter option \<Rightarrow> page_parameter option \<Rightarrow> mempool_snapshot res \<Rightarrow> mempool_page res" where
  "list_mempool p offset limit snapshot =
     and_then (explorer_page offset limit) (\<lambda>page.
     and_then (resolve_dogecoin p) (\<lambda>_.
     and_then snapshot (\<lambda>s. Inr (mempool_page_of page s))))"

section \<open>The shared load\<close>

record mempool_cache =
  mc_entry :: "(int \<times> nat) option"
  mc_loads :: "mempool_snapshot res option list"

definition mempool_cache_ttl_ms :: int where
  "mempool_cache_ttl_ms = 1000"

definition is_fresh_mempool_cache_entry :: "(int \<times> nat) option \<Rightarrow> int \<Rightarrow> bool" where
  "is_fresh_mempool_cache_entry e now = (case e of None \<Rightarrow> False | Some (expires, _) \<Rightarrow> now < expires)"

definition is_current_mempool_promise :: "(int \<times> nat) option \<Rightarrow> nat \<Rightarrow> bool" where
  "is_current_mempool_promise e promise = (case e of None \<Rightarrow> False | Some (_, q) \<Rightarrow> q = promise)"

definition delete_mempool_snapshot_if_current :: "nat \<Rightarrow> mempool_cache \<Rightarrow> mempool_cache" where
  "delete_mempool_snapshot_if_current promise c =
     (if is_current_mempool_promise (mc_entry c) promise then c\<lparr>mc_entry := None\<rparr> else c)"

text \<open>The promise that a request gets; a new one is a new load.\<close>

definition get_cached_mempool_snapshot :: "int \<Rightarrow> mempool_cache \<Rightarrow> nat \<times> mempool_cache" where
  "get_cached_mempool_snapshot now c =
     (case mc_entry c of
        Some (expires, promise) \<Rightarrow>
          if is_fresh_mempool_cache_entry (mc_entry c) now then (promise, c)
          else (length (mc_loads c), c\<lparr>mc_entry := Some (now + mempool_cache_ttl_ms, length (mc_loads c)),
                                       mc_loads := mc_loads c @ [None]\<rparr>)
      | None \<Rightarrow> (length (mc_loads c), c\<lparr>mc_entry := Some (now + mempool_cache_ttl_ms, length (mc_loads c)),
                                         mc_loads := mc_loads c @ [None]\<rparr>))"

definition settle_mempool_load :: "nat \<Rightarrow> mempool_snapshot res \<Rightarrow> mempool_cache \<Rightarrow> mempool_cache" where
  "settle_mempool_load promise r c =
     (if promise < length (mc_loads c) \<and> mc_loads c ! promise = None
      then let c' = c\<lparr>mc_loads := (mc_loads c)[promise := Some r]\<rparr> in
        (if is_ok r then c' else delete_mempool_snapshot_if_current promise c')
      else c)"

section \<open>Order and sharing\<close>

lemma load_sorted:
  assumes "load_mempool_snapshot lc answer = Inr s"
  shows "sorted_wrt (\<lambda>x y. mempool_time y \<le> mempool_time x) (ms_transactions s)"
  using assms
  by (auto simp: load_mempool_snapshot_def and_then_Inr_iff Let_def compare_mempool_transactions_def
      intro!: js_sort_sorted split: if_splits)

definition amount_or_null :: "string option \<Rightarrow> bool" where
  "amount_or_null a = (case a of None \<Rightarrow> True | Some t \<Rightarrow> is_ok (parse_amount_base t))"

lemma amount_or_null_None [simp]: "amount_or_null None"
  by (simp add: amount_or_null_def)

lemma decimal_amount_ok: "amount_or_null (decimal_amount_or_null a)"
  using from_decimal_units_amount
  by (auto simp: amount_or_null_def decimal_amount_or_null_def is_ok_iff split: sum.splits)

lemma read_amount_ok: "amount_or_null (read_mempool_amount e fees k l)"
  unfolding read_mempool_amount_def
  by (cases "read_mempool_amount_value e fees k l") (simp_all add: decimal_amount_ok)

lemma fee_rate_ok: "fee_rate_base_per_kilobyte f n = Inr r \<Longrightarrow> amount_or_null r"
  by (auto simp: fee_rate_base_per_kilobyte_def and_then_Inr_iff amount_or_null_def split: option.splits if_splits)

definition mempool_row_ok :: "mempool_transaction \<Rightarrow> bool" where
  "mempool_row_ok t \<longleftrightarrow> amount_or_null (mt_fee_base t) \<and> amount_or_null (mt_modified_fee_base t)
    \<and> amount_or_null (mt_fee_rate_base_per_kilobyte t) \<and> amount_or_null (mt_ancestor_fees_base t)
    \<and> amount_or_null (mt_descendant_fees_base t)"

lemma mempool_transaction_ok:
  assumes "serialize_mempool_transaction e = Inr t" shows "mt_txid t = fst e \<and> mempool_row_ok t"
proof -
  obtain txid v where e: "e = (txid, v)" by (cases e)
  from assms obtain rate where "fee_rate_base_per_kilobyte
      (read_mempool_amount v (read_optional_record (own_prop v ''fees'')) ''fee'' ''base'')
      (read_mempool_size_bytes v) = Inr rate"
    by (auto simp: e serialize_mempool_transaction_def Let_def and_then_Inr_iff)
  with assms show ?thesis
    by (auto simp: e serialize_mempool_transaction_def Let_def mempool_row_ok_def read_amount_ok fee_rate_ok)
qed

text \<open>
  A mempool page shows the node's mempool. A page that is returned is a slice, of at most the
  accepted limit, of a list that holds every entry of the node's answer exactly once, newest first
  with entries without a time at the end, whatever the locale's order of ids; the total is the
  number of entries, and every fee in it is null or an integer amount.
\<close>

theorem mempool_page_shows_node:
  assumes "list_mempool p offset limit (load_mempool_snapshot lc (Inr a)) = Inr pg"
  shows "let all = ms_transactions (mp_snapshot pg) in
    mset (map mt_txid all) = mset (map fst (ma_entries a))
    \<and> sorted_wrt (\<lambda>x y. mempool_time y \<le> mempool_time x) all
    \<and> list_all mempool_row_ok all
    \<and> ms_total_count (mp_snapshot pg) = int (length (ma_entries a))
    \<and> mp_transactions pg = take (nat (mp_limit pg)) (drop (nat (mp_offset pg)) all)
    \<and> mp_returned_count pg = int (length (mp_transactions pg)) \<and> mp_returned_count pg \<le> mp_limit pg"
proof -
  from assms obtain page s where page: "explorer_page offset limit = Inr page"
    and s: "load_mempool_snapshot lc (Inr a) = Inr s" and pg: "pg = mempool_page_of page s"
    by (auto simp: list_mempool_def and_then_Inr_iff)
  from s obtain txs where txs: "map_res serialize_mempool_transaction (ma_entries a) = Inr txs"
    and all: "ms_transactions s = js_sort (compare_mempool_transactions lc) txs"
    and total: "ms_total_count s = int (length txs)"
    by (auto simp: load_mempool_snapshot_def Let_def and_then_Inr_iff js_sort_mset simp flip: size_mset)
  have each: "list_all2 (\<lambda>e t. mt_txid t = fst e \<and> mempool_row_ok t) (ma_entries a) txs"
    using txs unfolding map_res_Inr_iff by (rule list_all2_mono) (rule mempool_transaction_ok)
  then have "map mt_txid txs = map fst (ma_entries a)" "list_all mempool_row_ok txs" "length txs = length (ma_entries a)"
    by (induction rule: list_all2_induct) auto
  moreover have m: "mset (ms_transactions s) = mset txs" by (simp add: all js_sort_mset)
  moreover from m have "set (ms_transactions s) = set txs" by (metis set_mset_mset)
  moreover have "mset (map mt_txid (ms_transactions s)) = mset (map mt_txid txs)" using m by simp
  moreover obtain o' l where "page = (o', l)" by (cases page)
  ultimately show ?thesis
    using load_sorted [OF s] total page_of_bound [of offset limit "fst page" "snd page" "ms_transactions s"] page
    by (simp add: pg mempool_page_of_def page_of_def Let_def list_all_iff)
qed

text \<open>
  Requests at any clock readings and settlements of loads. The log has, for every request, its time,
  the time at which the load it got was started, and the outcome that load had at that moment.
\<close>

datatype mempool_event = Ask int | Answer nat "mempool_snapshot res"

record mempool_run =
  mr_cache :: mempool_cache
  mr_started :: "int list"
  mr_log :: "(int \<times> int \<times> mempool_snapshot res option) list"

fun mempool_step :: "mempool_event \<Rightarrow> mempool_run \<Rightarrow> mempool_run" where
  "mempool_step (Ask now) r =
     (let (promise, c) = get_cached_mempool_snapshot now (mr_cache r);
          started = mr_started r @ (if length (mc_loads c) = length (mr_started r) then [] else [now]) in
      \<lparr>mr_cache = c, mr_started = started, mr_log = mr_log r @ [(now, started ! promise, mc_loads c ! promise)]\<rparr>)"
| "mempool_step (Answer promise x) r = r\<lparr>mr_cache := settle_mempool_load promise x (mr_cache r)\<rparr>"

definition mempool_run_all :: "mempool_event list \<Rightarrow> mempool_run" where
  "mempool_run_all es = fold mempool_step es
     \<lparr>mr_cache = \<lparr>mc_entry = None, mc_loads = []\<rparr>, mr_started = [], mr_log = []\<rparr>"

definition failed_load :: "mempool_snapshot res option \<Rightarrow> bool" where
  "failed_load x = (case x of None \<Rightarrow> False | Some r \<Rightarrow> \<not> is_ok r)"

definition cache_inv :: "mempool_run \<Rightarrow> bool" where
  "cache_inv r \<longleftrightarrow> length (mr_started r) = length (mc_loads (mr_cache r))
     \<and> (case mc_entry (mr_cache r) of
          None \<Rightarrow> True
        | Some (expires, q) \<Rightarrow> q < length (mr_started r) \<and> expires = mr_started r ! q + mempool_cache_ttl_ms
            \<and> \<not> failed_load (mc_loads (mr_cache r) ! q))
     \<and> list_all (\<lambda>(now, start, outcome). now < start + mempool_cache_ttl_ms \<and> \<not> failed_load outcome) (mr_log r)"

lemma mempool_step_inv:
  assumes "cache_inv r" shows "cache_inv (mempool_step e r)"
proof (cases e)
  case (Ask now)
  have new: "cache_inv (mempool_step e r)"
    if "get_cached_mempool_snapshot now (mr_cache r) = (length (mc_loads (mr_cache r)),
        (mr_cache r)\<lparr>mc_entry := Some (now + mempool_cache_ttl_ms, length (mc_loads (mr_cache r))),
                     mc_loads := mc_loads (mr_cache r) @ [None]\<rparr>)"
    using assms that
    by (auto simp: Ask cache_inv_def failed_load_def nth_append mempool_cache_ttl_ms_def Let_def)
  show ?thesis
  proof (cases "mc_entry (mr_cache r)")
    case None
    then show ?thesis by (intro new) (simp add: get_cached_mempool_snapshot_def)
  next
    case (Some x)
    obtain expires q where x: "x = (expires, q)" by (cases x)
    show ?thesis
    proof (cases "now < expires")
      case True
      then show ?thesis using assms Some x
        by (auto simp: Ask cache_inv_def get_cached_mempool_snapshot_def is_fresh_mempool_cache_entry_def Let_def)
    next
      case False
      then show ?thesis using Some x
        by (intro new) (simp add: get_cached_mempool_snapshot_def is_fresh_mempool_cache_entry_def)
    qed
  qed
next
  case (Answer q x)
  then show ?thesis using assms
    by (auto simp: cache_inv_def settle_mempool_load_def delete_mempool_snapshot_if_current_def Let_def
        is_current_mempool_promise_def failed_load_def nth_list_update split: option.splits)
qed

text \<open>
  The mempool cache never serves what is old or known to have failed. Whatever requests come,
  at whatever clock readings, and however loads settle in between: a request gets a load that was
  started less than one second before it (by the clock that both read), and never one that had
  already failed when the request came.
\<close>

theorem mempool_cache_fresh:
  "list_all (\<lambda>(now, start, outcome). now < start + 1000 \<and> \<not> failed_load outcome) (mr_log (mempool_run_all es))"
proof -
  have "cache_inv (fold mempool_step es r)" if "cache_inv r" for r
    using that by (induction es arbitrary: r) (simp_all add: mempool_step_inv)
  moreover have "cache_inv \<lparr>mr_cache = \<lparr>mc_entry = None, mc_loads = []\<rparr>, mr_started = [], mr_log = []\<rparr>"
    by (simp add: cache_inv_def)
  ultimately have "cache_inv (mempool_run_all es)" unfolding mempool_run_all_def by blast
  then show ?thesis by (simp add: cache_inv_def mempool_cache_ttl_ms_def)
qed

definition sample_answer :: mempool_answer where
  "sample_answer = \<lparr>ma_entries = [(''t'', JObj [(''time'', JNum (JInt 5))]), (''u'', JObj []),
      (''v'', JObj [(''time'', JNum (JInt 9)), (''fee'', JStr ''0.00000002''), (''size'', JNum (JInt 4))])],
    ma_fetched_at = ''now'', ma_info = JObj []\<rparr>"

theorem mempool_page_shows_node_witness:
  "\<exists>pg. list_mempool sample_ports None (sample_number 2) (load_mempool_snapshot (\<lambda>_ _. 0) (Inr sample_answer)) = Inr pg
     \<and> map mt_txid (mp_transactions pg) = [''v'', ''t'']
     \<and> map mt_fee_rate_base_per_kilobyte (mp_transactions pg) = [Some ''500'', None]
     \<and> ms_total_count (mp_snapshot pg) = 3"
proof -
  obtain s where s: "load_mempool_snapshot (\<lambda>_ _. 0) (Inr sample_answer) = Inr s"
    and shown: "map mt_txid (page_of (0, 2) (ms_transactions s)) = [''v'', ''t'']
      \<and> map mt_fee_rate_base_per_kilobyte (page_of (0, 2) (ms_transactions s)) = [Some ''500'', None]"
  proof -
    have "case load_mempool_snapshot (\<lambda>_ _. 0) (Inr sample_answer) of
        Inl e \<Rightarrow> False
      | Inr s \<Rightarrow> map mt_txid (page_of (0, 2) (ms_transactions s)) = [''v'', ''t'']
          \<and> map mt_fee_rate_base_per_kilobyte (page_of (0, 2) (ms_transactions s)) = [Some ''500'', None]"
      by code_simp
    then show thesis by (auto intro: that split: sum.splits)
  qed
  have "explorer_page None (sample_number 2) = Inr (0, 2)"
    by (simp add: explorer_page_def parse_bounded_non_negative_integer_def max_page_limit_def)
  then have pg: "list_mempool sample_ports None (sample_number 2) (load_mempool_snapshot (\<lambda>_ _. 0) (Inr sample_answer))
      = Inr (mempool_page_of (0, 2) s)"
    by (simp add: list_mempool_def resolve_dogecoin_def s) (simp add: sample_ports_def)
  have "ms_total_count s = 3"
    using mempool_page_shows_node [OF pg] by (simp add: Let_def mempool_page_of_def sample_answer_def)
  then show ?thesis using pg shown
    by (intro exI [of _ "mempool_page_of (0, 2) s"]) (simp add: mempool_page_of_def)
qed

end
