(* ===== verification/Mempool_Watch.thy ===== *)
theory Mempool_Watch
  imports Explorer_Mempool Leader_Lease Access_Control
begin

text \<open>
  Mempool watches, the part that is not the detector: which outputs of a transaction a watch
  matches (\<^verbatim>\<open>platform/src/mempool-watch-match.ts\<close>), the rows of active watches
  (\<^verbatim>\<open>metadata-store.ts\<close>), the session that streams events to a client
  (\<^verbatim>\<open>mempool-watch-session.ts\<close>) and the rows of the mempool sampler (\<^verbatim>\<open>mempool-sampler.ts\<close>).
  Clocks, time stamps, ids and the events a session receives are arguments.
\<close>

section \<open>Matching\<close>

record appear_output =
  ao_vout :: json
  ao_value_base :: string

definition output_value_base :: "json \<Rightarrow> string res" where
  "output_value_base out =
     (case own_prop out ''value'' of
        JUndefined \<Rightarrow> Inr ''0''
      | JNull \<Rightarrow> Inr ''0''
      | JNum n \<Rightarrow> from_decimal_units (Amount_Num n) 8
      | JStr s \<Rightarrow> from_decimal_units (Amount_Text s) 8
      | _ \<Rightarrow> Inl call_error)"

definition watch_output_index :: "json \<Rightarrow> nat \<Rightarrow> json" where
  "watch_output_index out i = (if is_nullish (own_prop out ''n'') then JNum (JInt (int i)) else own_prop out ''n'')"

definition matching_output :: "string \<Rightarrow> nat \<times> json \<Rightarrow> appear_output option res" where
  "matching_output address = (\<lambda>(i, out).
     and_then (extract_dogecoin_output_address out) (\<lambda>a.
     if a \<noteq> address then Inr None
     else and_then (output_value_base out) (\<lambda>v.
       Inr (Some \<lparr>ao_vout = watch_output_index out i, ao_value_base = v\<rparr>))))"

definition collect_matching_outputs :: "json \<Rightarrow> string \<Rightarrow> appear_output list res" where
  "collect_matching_outputs tx address =
     and_then (dogecoin_outputs tx) (\<lambda>outs.
     and_then (map_res (matching_output address) (List.enumerate 0 outs)) (\<lambda>rows.
     Inr (some_values rows)))"

definition sum_value_base :: "appear_output list \<Rightarrow> int res" where
  "sum_value_base outs =
     fold_res (\<lambda>out total. and_then (js_bigint (ao_value_base out)) (\<lambda>v. Inr (total + v))) outs 0"

definition matching_outputs_for_address :: "json \<Rightarrow> string \<Rightarrow> string option \<Rightarrow> appear_output list option res" where
  "matching_outputs_for_address tx address min_value_base =
     and_then (collect_matching_outputs tx address) (\<lambda>outs.
     if outs = [] then Inr None
     else case min_value_base of
       None \<Rightarrow> Inr (Some outs)
     | Some m \<Rightarrow> and_then (sum_value_base outs) (\<lambda>total.
         and_then (js_bigint m) (\<lambda>least. Inr (if total \<ge> least then Some outs else None))))"

section \<open>Active watches\<close>

record active_mempool_watch =
  aw_id :: string
  aw_api_key_id :: string
  aw_address :: string
  aw_min_value_base :: "string option"
  aw_expires_at :: string
  aw_created_at :: string

definition mempool_watch_max_concurrent :: nat where
  "mempool_watch_max_concurrent = 5"

definition delete_expired_mempool_watches :: "string \<Rightarrow> active_mempool_watch list \<Rightarrow> active_mempool_watch list" where
  "delete_expired_mempool_watches now ws = filter (\<lambda>w. text_before now (aw_expires_at w)) ws"

text \<open>The count deletes expired rows first.\<close>

definition count_active_mempool_watches_by_api_key_id ::
  "string \<Rightarrow> string \<Rightarrow> active_mempool_watch list \<Rightarrow> nat \<times> active_mempool_watch list" where
  "count_active_mempool_watches_by_api_key_id now k ws =
     (let ws' = delete_expired_mempool_watches now ws
      in (length (filter (\<lambda>w. aw_api_key_id w = k) ws'), ws'))"

definition watch_limit_error :: js_error where
  "watch_limit_error = ConflictError (''mempool watch session limit reached for this API key (''
     @ nat_str mempool_watch_max_concurrent @ '')'')"

text \<open>
  Creating a watch counts the rows of the key and then inserts. \<open>now1\<close> and \<open>now2\<close> are the clock
  readings of the two deletions; the row's own \<open>created_at\<close> is the third.
\<close>

definition check_mempool_watch_limit ::
  "string \<Rightarrow> string \<Rightarrow> string \<Rightarrow> active_mempool_watch list \<Rightarrow> unit res \<times> active_mempool_watch list" where
  "check_mempool_watch_limit now1 now2 k ws =
     (let (n, ws') = count_active_mempool_watches_by_api_key_id now2 k (delete_expired_mempool_watches now1 ws)
      in (if mempool_watch_max_concurrent \<le> n then Inl watch_limit_error else Inr (), ws'))"

definition create_active_mempool_watch ::
  "string \<Rightarrow> string \<Rightarrow> active_mempool_watch
     \<Rightarrow> active_mempool_watch list \<Rightarrow> active_mempool_watch res \<times> active_mempool_watch list" where
  "create_active_mempool_watch now1 now2 w ws =
     (case check_mempool_watch_limit now1 now2 (aw_api_key_id w) ws of
        (Inl e, ws') \<Rightarrow> (Inl e, ws')
      | (Inr _, ws') \<Rightarrow> (Inr w, ws' @ [w]))"

definition delete_active_mempool_watch :: "string \<Rightarrow> active_mempool_watch list \<Rightarrow> active_mempool_watch list" where
  "delete_active_mempool_watch i ws = filter (\<lambda>w. aw_id w \<noteq> i) ws"

definition compare_created :: "active_mempool_watch \<Rightarrow> active_mempool_watch \<Rightarrow> int" where
  "compare_created x y =
     (if text_before (aw_created_at x) (aw_created_at y) then - 1
      else if text_before (aw_created_at y) (aw_created_at x) then 1 else 0)"

text \<open>\<^verbatim>\<open>ORDER BY created_at ASC\<close>; rows of equal time are taken in the order they were written.\<close>

definition list_active_mempool_watches ::
  "string \<Rightarrow> active_mempool_watch list \<Rightarrow> active_mempool_watch list \<times> active_mempool_watch list" where
  "list_active_mempool_watches now ws =
     (let ws' = delete_expired_mempool_watches now ws in (js_sort compare_created ws', ws'))"

definition get_active_mempool_watch_by_api_key_id ::
  "string \<Rightarrow> string \<Rightarrow> active_mempool_watch list \<Rightarrow> active_mempool_watch option \<times> active_mempool_watch list" where
  "get_active_mempool_watch_by_api_key_id now k ws =
     (let (sorted_ws, ws') = list_active_mempool_watches now ws
      in (find (\<lambda>w. aw_api_key_id w = k) sorted_ws, ws'))"

section \<open>Appearances\<close>

datatype appear_source = Catchup | Live

record appear_payload =
  ap_address :: string
  ap_detected_at :: string
  ap_outputs :: "appear_output list"
  ap_source :: appear_source
  ap_txid :: string

record appear_event = appear_payload +
  ae_api_key_id :: string
  ae_watch_id :: string

definition public_appear_payload :: "appear_event \<Rightarrow> appear_payload" where
  "public_appear_payload e = appear_payload.truncate e"

section \<open>Sessions\<close>

datatype sse_event = Appeared appear_payload | Timed_Out string string | Comment string

definition mempool_watch_session_ms :: int where
  "mempool_watch_session_ms = 5 * 60 * 1000"

definition mempool_watch_heartbeat_ms :: int where
  "mempool_watch_heartbeat_ms = 15000"

definition detector_status_key :: string where
  "detector_status_key = ''mempool_watch_detector_status''"

definition normalize_watch_address :: "string \<Rightarrow> string res" where
  "normalize_watch_address a =
     (if js_trim a = [] then Inl (ValidationError ''address is required'') else Inr (js_trim a))"

definition normalize_min_value_base :: "string option \<Rightarrow> string option res" where
  "normalize_min_value_base v =
     (case v of
        None \<Rightarrow> Inr None
      | Some t \<Rightarrow>
          if t = [] then Inr None
          else if \<not> all_digits (js_trim t)
          then Inl (ValidationError ''minValueBase must be a non-negative integer string'')
          else Inr (Some (let n = strip_zeros (js_trim t) in if n = [] then ''0'' else n)))"

text \<open>
  \<^verbatim>\<open>Date.parse(status.expiresAt)\<close>. Every value under the key is written by the detector, with a
  text in this place.
\<close>

definition status_expires_at :: "date_text \<Rightarrow> json \<Rightarrow> js_num" where
  "status_expires_at dt status = dt_parse dt (lease_text (own_prop status ''expiresAt''))"

definition is_after :: "js_num \<Rightarrow> int \<Rightarrow> bool" where
  "is_after t now = (case t of JInt i \<Rightarrow> now < i | _ \<Rightarrow> False)"

definition assert_detector_available :: "date_text \<Rightarrow> int \<Rightarrow> json \<Rightarrow> unit res" where
  "assert_detector_available dt now status =
     (if own_prop status ''degraded'' = JBool True \<and> is_after (status_expires_at dt status) now
      then Inl (TooEarlyError ''mempool watch detector is temporarily unavailable'') else Inr ())"

text \<open>The subscription of a session: events of other watches, and all events before the watch exists, are dropped.\<close>

definition handle_appear :: "string option \<Rightarrow> appear_event \<Rightarrow> appear_event option \<Rightarrow> appear_event option" where
  "handle_appear watch_id e appear = (if watch_id \<noteq> Some (ae_watch_id e) then appear else Some e)"

text \<open>
  One turn of the loop: the events delivered since the turn before, whether the request was aborted,
  the readings of the clock in the order of the code, and whether the consumer closed the stream
  before the loop could go on after a heartbeat.
\<close>

record session_turn =
  tn_events :: "appear_event list"
  tn_aborted :: bool
  tn_now :: int
  tn_heartbeat_now :: int
  tn_next_now :: int
  tn_closed :: bool

record open_watch =
  ow_id :: string
  ow_address :: string
  ow_expires_at :: string
  ow_deadline :: int

fun session_loop :: "open_watch \<Rightarrow> session_turn list \<Rightarrow> int \<Rightarrow> appear_event option \<Rightarrow> sse_event list \<times> bool" where
  "session_loop o' [] next_beat appear = ([], False)"
| "session_loop o' (t # ts) next_beat appear =
     (let appear' = fold (handle_appear (Some (ow_id o'))) (tn_events t) appear in
      if tn_aborted t then ([Timed_Out (ow_address o') (ow_expires_at o')], True)
      else case appear' of
        Some e \<Rightarrow> ([Appeared (public_appear_payload e)], True)
      | None \<Rightarrow>
          if ow_deadline o' \<le> tn_now t then ([Timed_Out (ow_address o') (ow_expires_at o')], True)
          else if next_beat \<le> tn_heartbeat_now t
          then let (es, ended) = (if tn_closed t then ([], True)
                                  else session_loop o' ts (tn_next_now t + mempool_watch_heartbeat_ms) None)
               in (Comment ''heartbeat'' # es, ended)
          else session_loop o' ts next_beat None)"

record watch_world =
  ww_watches :: "active_mempool_watch list"
  ww_config :: app_config
  ww_changes :: nat

text \<open>
  The arguments of a session: the request, what it draws and reads (its random id, clock readings,
  the text of the time its row is created) and, per call of a store or of the bus, whether the call
  fails; a failing creation may have written its row.
\<close>

record session_input =
  si_address :: string
  si_api_key_id :: string
  si_min_value_base :: "string option"
  si_watch_id :: string
  si_created_ms :: int
  si_status_ms :: int
  si_clock :: "string \<times> string \<times> string"
  si_connected_ms :: int
  si_closed :: bool
  si_status_fault :: "js_error option"
  si_create_fault :: "(bool \<times> js_error) option"
  si_publish_fault :: "js_error option"
  si_delete_fault :: "js_error option"
  si_last_publish_fault :: "js_error option"

datatype session_end = Session_Open | Session_Closed | Session_Failed js_error

definition with_call_fault :: "js_error option \<Rightarrow> ('s, 'a) eff \<Rightarrow> ('s, 'a) eff" where
  "with_call_fault f m = (case f of None \<Rightarrow> m | Some e \<Rightarrow> throw e)"

definition publish_watch_changed :: "js_error option \<Rightarrow> (watch_world, unit) eff" where
  "publish_watch_changed f = with_call_fault f (change (\<lambda>w. w\<lparr>ww_changes := ww_changes w + 1\<rparr>))"

definition create_watch_call :: "session_input \<Rightarrow> active_mempool_watch \<Rightarrow> (watch_world, active_mempool_watch) eff" where
  "create_watch_call i row s =
     (case (si_create_fault i, si_clock i) of
        (f, now1, now2, _) \<Rightarrow>
          let (r, ws) = create_active_mempool_watch now1 now2 row (ww_watches s) in
          (case f of
             None \<Rightarrow> (r, s\<lparr>ww_watches := ws\<rparr>)
           | Some (written, e) \<Rightarrow> (Inl e, if written then s\<lparr>ww_watches := ws\<rparr> else s)))"

text \<open>The \<^verbatim>\<open>finally\<close> block of a session that has its watch; an error in it replaces the outcome.\<close>

definition close_session :: "session_input \<Rightarrow> session_end \<Rightarrow> watch_world \<Rightarrow> session_end \<times> watch_world" where
  "close_session i outcome s =
     (case and_do (with_call_fault (si_delete_fault i)
                     (change (\<lambda>w. w\<lparr>ww_watches := delete_active_mempool_watch (si_watch_id i) (ww_watches w)\<rparr>)))
                  (publish_watch_changed (si_last_publish_fault i)) s of
        (Inl e, s') \<Rightarrow> (Session_Failed e, s')
      | (Inr _, s') \<Rightarrow> (outcome, s'))"

definition begin_session :: "date_text \<Rightarrow> session_input \<Rightarrow> (watch_world, active_mempool_watch) eff" where
  "begin_session dt i =
     then_do (lift_res (normalize_watch_address (si_address i))) (\<lambda>address.
     then_do (lift_res (normalize_min_value_base (si_min_value_base i))) (\<lambda>least.
     then_do (with_call_fault (si_status_fault i)
               (get_field (\<lambda>s. get_json_value detector_status_key (ww_config s)))) (\<lambda>status.
     and_do (lift_res (assert_detector_available dt (si_status_ms i) status))
       (create_watch_call i
          \<lparr>aw_id = si_watch_id i, aw_api_key_id = si_api_key_id i, aw_address = address,
           aw_min_value_base = least,
           aw_expires_at = dt_iso dt (si_created_ms i + mempool_watch_session_ms),
           aw_created_at = snd (snd (si_clock i))\<rparr>))))"

definition opened_watch :: "session_input \<Rightarrow> active_mempool_watch \<Rightarrow> open_watch" where
  "opened_watch i w =
     \<lparr>ow_id = aw_id w, ow_address = aw_address w, ow_expires_at = aw_expires_at w,
      ow_deadline = si_created_ms i + mempool_watch_session_ms\<rparr>"

definition open_session ::
  "date_text \<Rightarrow> session_input \<Rightarrow> session_turn list \<Rightarrow> watch_world
     \<Rightarrow> (sse_event list \<times> session_end) \<times> watch_world" where
  "open_session dt i ts s =
     (case begin_session dt i s of
        (Inl e, s1) \<Rightarrow> (([], Session_Failed e), s1)
      | (Inr w, s1) \<Rightarrow>
          (case publish_watch_changed (si_publish_fault i) s1 of
             (Inl e, s2) \<Rightarrow> (let (outcome, s3) = close_session i (Session_Failed e) s2 in (([], outcome), s3))
           | (Inr _, s2) \<Rightarrow>
               let (es, ended) =
                 (if si_closed i then ([], True)
                  else session_loop (opened_watch i w) ts (si_connected_ms i + mempool_watch_heartbeat_ms) None);
                   (outcome, s3) = (if ended then close_session i Session_Closed s2 else (Session_Open, s2))
               in ((Comment ''connected'' # es, outcome), s3)))"

section \<open>Mempool samples\<close>

record mempool_sample_row =
  sr_sampled_at :: string
  sr_txid :: string
  sr_entry_time :: "int option"
  sr_height :: "int option"
  sr_size_bytes :: "int option"
  sr_fee_base :: "string option"
  sr_fee_rate_base_per_kilobyte :: "string option"
  sr_raw_json :: string

fun read_integer :: "json \<Rightarrow> string list \<Rightarrow> int option" where
  "read_integer r [] = None"
| "read_integer r (k # ks) =
     (case read_non_negative_integer (own_prop r k) of Some i \<Rightarrow> Some i | None \<Rightarrow> read_integer r ks)"

fun read_fee_value :: "json \<Rightarrow> amount_input option" where
  "read_fee_value (JNum n) = (if n = JNaN \<or> n = JPosInf \<or> n = JNegInf then None else Some (Amount_Num n))"
| "read_fee_value (JStr s) = (if js_trim s \<noteq> [] then Some (Amount_Text s) else None)"
| "read_fee_value _ = None"

definition read_nested_fee_value :: "json \<Rightarrow> amount_input option" where
  "read_nested_fee_value v = (if is_plain_record v then read_fee_value (own_prop v ''base'') else None)"

definition decimal_dogecoin_to_base :: "amount_input option \<Rightarrow> string option" where
  "decimal_dogecoin_to_base v = (case v of None \<Rightarrow> None | Some a \<Rightarrow> decimal_amount_or_null a)"

definition read_fee_base :: "json \<Rightarrow> string option" where
  "read_fee_base e =
     decimal_dogecoin_to_base
       (case read_fee_value (own_prop e ''fee'') of
          Some v \<Rightarrow> Some v | None \<Rightarrow> read_nested_fee_value (own_prop e ''fees''))"

definition sample_fee_rate :: "string option \<Rightarrow> int option \<Rightarrow> string option res" where
  "sample_fee_rate fee_base size_bytes =
     (case (fee_base, size_bytes) of
        (Some f, Some n) \<Rightarrow>
          if n = 0 then Inr None
          else and_then (js_bigint f) (\<lambda>v. Inr (Some (int_str (bigint_div (v * 1000) n))))
      | _ \<Rightarrow> Inr None)"

text \<open>\<open>stringify\<close> is \<^verbatim>\<open>JSON.stringify\<close>.\<close>

definition mempool_sample_row :: "(json \<Rightarrow> string) \<Rightarrow> string \<Rightarrow> string \<times> json \<Rightarrow> mempool_sample_row res" where
  "mempool_sample_row stringify sampled_at = (\<lambda>(txid, e).
     let size_bytes = read_integer e [''vsize'', ''size'']; fee_base = read_fee_base e in
     and_then (sample_fee_rate fee_base size_bytes) (\<lambda>rate.
     Inr \<lparr>sr_sampled_at = sampled_at, sr_txid = txid, sr_entry_time = read_integer e [''time''],
          sr_height = read_integer e [''height''], sr_size_bytes = size_bytes, sr_fee_base = fee_base,
          sr_fee_rate_base_per_kilobyte = rate, sr_raw_json = stringify e\<rparr>))"

fun replace_first :: "char \<Rightarrow> char \<Rightarrow> string \<Rightarrow> string" where
  "replace_first a b [] = []"
| "replace_first a b (c # cs) = (if c = a then b # cs else c # replace_first a b cs)"

text \<open>A text that is no date is replaced by the time \<open>now\<close>.\<close>

definition click_house_date_time :: "date_text \<Rightarrow> int \<Rightarrow> string \<Rightarrow> string" where
  "click_house_date_time dt now v =
     replace_first (CHR ''T'') (CHR '' '')
       (take 19 (dt_iso dt (case dt_parse dt v of JInt t \<Rightarrow> t | _ \<Rightarrow> now)))"

definition mempool_sample_rows ::
  "date_text \<Rightarrow> int \<Rightarrow> (json \<Rightarrow> string) \<Rightarrow> mempool_answer \<Rightarrow> mempool_sample_row list res" where
  "mempool_sample_rows dt now stringify a =
     map_res (mempool_sample_row stringify (click_house_date_time dt now (ma_fetched_at a))) (ma_entries a)"

section \<open>The limit of a key\<close>

definition watch_count :: "string \<Rightarrow> active_mempool_watch list \<Rightarrow> nat" where
  "watch_count k ws = length (filter (\<lambda>w. aw_api_key_id w = k) ws)"

datatype watch_op = Create_Watch string string active_mempool_watch | Delete_Watch string | List_Watches string

fun watch_op_step :: "watch_op \<Rightarrow> active_mempool_watch list \<Rightarrow> active_mempool_watch list" where
  "watch_op_step (Create_Watch now1 now2 w) ws = snd (create_active_mempool_watch now1 now2 w ws)"
| "watch_op_step (Delete_Watch i) ws = delete_active_mempool_watch i ws"
| "watch_op_step (List_Watches now) ws = snd (list_active_mempool_watches now ws)"

lemma watch_count_filter: "watch_count k (filter p ws) \<le> watch_count k ws"
  by (induction ws) (auto simp: watch_count_def)

lemma watch_count_filter_le: "watch_count k ws \<le> n \<Longrightarrow> watch_count k (filter p ws) \<le> n"
  using watch_count_filter le_trans by blast

lemma watch_count_append [simp]: "watch_count k (us @ ws) = watch_count k us + watch_count k ws"
  by (simp add: watch_count_def)

lemma check_limit_unfold:
  "check_mempool_watch_limit now1 now2 k ws =
     (let ws' = filter (\<lambda>w. text_before now2 (aw_expires_at w)) (filter (\<lambda>w. text_before now1 (aw_expires_at w)) ws)
      in (if mempool_watch_max_concurrent \<le> watch_count k ws' then Inl watch_limit_error else Inr (), ws'))"
  by (simp add: check_mempool_watch_limit_def count_active_mempool_watches_by_api_key_id_def
      delete_expired_mempool_watches_def watch_count_def Let_def)

lemma watch_op_count:
  assumes "\<forall>k. watch_count k ws \<le> mempool_watch_max_concurrent"
  shows "watch_count k (watch_op_step x ws) \<le> mempool_watch_max_concurrent"
proof (cases x)
  case (Create_Watch now1 now2 w)
  let ?ws = "filter (\<lambda>w. text_before now2 (aw_expires_at w)) (filter (\<lambda>w. text_before now1 (aw_expires_at w)) ws)"
  have le: "watch_count k ?ws \<le> mempool_watch_max_concurrent" for k
    using assms by (intro watch_count_filter_le) simp
  have one: "watch_count k [w] = (if aw_api_key_id w = k then 1 else 0)" by (simp add: watch_count_def)
  show ?thesis
    using le [of k] le [of "aw_api_key_id w"] one
    by (auto simp: Create_Watch create_active_mempool_watch_def check_limit_unfold Let_def not_le)
next
  case (Delete_Watch i)
  then show ?thesis
    using assms by (simp add: delete_active_mempool_watch_def watch_count_filter_le)
next
  case (List_Watches now)
  then show ?thesis
    using assms
    by (simp add: list_active_mempool_watches_def delete_expired_mempool_watches_def Let_def watch_count_filter_le)
qed

text \<open>
  No API key has more than five watches. After any sequence of creations, deletions and listings,
  each of them run as a whole as the lock of Postgres makes them, the table has at most five rows of
  every key; and a creation is refused, with the error that names the limit, exactly when five rows of
  its key have not expired.
\<close>

theorem watch_limit_holds:
  "watch_count k (fold watch_op_step ops []) \<le> mempool_watch_max_concurrent
   \<and> (fst (create_active_mempool_watch now1 now2 w ws) = Inl watch_limit_error
       \<longleftrightarrow> mempool_watch_max_concurrent \<le> watch_count (aw_api_key_id w)
             (filter (\<lambda>w. text_before now1 (aw_expires_at w) \<and> text_before now2 (aw_expires_at w)) ws))"
proof -
  have "\<forall>k. watch_count k (fold watch_op_step ops ws) \<le> mempool_watch_max_concurrent"
    if "\<forall>k. watch_count k ws \<le> mempool_watch_max_concurrent" for ws
    using that by (induction ops arbitrary: ws) (simp_all add: watch_op_count)
  from this [of "[]"] have "\<forall>k. watch_count k (fold watch_op_step ops []) \<le> mempool_watch_max_concurrent"
    by (simp add: watch_count_def)
  then show ?thesis
    by (auto simp: create_active_mempool_watch_def check_limit_unfold Let_def watch_limit_error_def conj_commute)
qed

definition sample_watch :: "string \<Rightarrow> active_mempool_watch" where
  "sample_watch i = \<lparr>aw_id = i, aw_api_key_id = ''k'', aw_address = ''D'', aw_min_value_base = None,
     aw_expires_at = ''2'', aw_created_at = ''1''\<rparr>"

text \<open>
  Without a lock the limit does not hold. On SQLite and MySQL the count and the insert are separate
  statements: two creations that both count four rows of the key both insert, and the key has six.
\<close>

theorem concurrent_watches_exceed_limit:
  "let ws = map sample_watch [''a'', ''b'', ''c'', ''d''];
       (first, ws1) = check_mempool_watch_limit ''1'' ''1'' ''k'' ws;
       (second, ws2) = check_mempool_watch_limit ''1'' ''1'' ''k'' ws1
   in first = Inr () \<and> second = Inr ()
      \<and> mempool_watch_max_concurrent < watch_count ''k'' (ws2 @ [sample_watch ''e''] @ [sample_watch ''f''])"
  by (simp add: check_limit_unfold Let_def watch_count_def sample_watch_def mempool_watch_max_concurrent_def char_code_def)

section \<open>What a session sends\<close>

definition own_events :: "open_watch \<Rightarrow> session_turn \<Rightarrow> appear_event list" where
  "own_events o' t = filter (\<lambda>e. ae_watch_id e = ow_id o') (tn_events t)"

definition final_event :: "open_watch \<Rightarrow> session_turn list \<Rightarrow> sse_event \<Rightarrow> bool" where
  "final_event o' ts x \<longleftrightarrow> x = Timed_Out (ow_address o') (ow_expires_at o')
     \<or> (\<exists>t \<in> set ts. \<exists>e \<in> set (own_events o' t). x = Appeared (public_appear_payload e))"

definition ends_session :: "open_watch \<Rightarrow> session_turn \<Rightarrow> bool" where
  "ends_session o' t \<longleftrightarrow> tn_aborted t \<or> own_events o' t \<noteq> [] \<or> ow_deadline o' \<le> tn_now t"

lemma received_event:
  "fold (handle_appear (Some (ow_id o'))) (tn_events t) None
     = (if own_events o' t = [] then None else Some (last (own_events o' t)))"
proof -
  have "fold (handle_appear (Some (ow_id o'))) es a
     = (let own = filter (\<lambda>e. ae_watch_id e = ow_id o') es in if own = [] then a else Some (last own))" for es a
    by (induction es arbitrary: a) (auto simp: handle_appear_def Let_def)
  then show ?thesis by (simp add: own_events_def Let_def)
qed

lemma session_loop_shape:
  assumes "session_loop o' ts beat None = (es, ended)"
  shows "\<exists>n rest. es = replicate n (Comment ''heartbeat'') @ rest
    \<and> (rest = [] \<or> (ended \<and> (\<exists>x. rest = [x] \<and> final_event o' ts x)))"
  using assms
proof (induction ts arbitrary: beat es)
  case Nil
  then show ?case by simp
next
  case (Cons t ts)
  have more: "final_event o' ts x \<Longrightarrow> final_event o' (t # ts) x" for x by (auto simp: final_event_def)
  have ends: ?case if "es = [x]" "ended" "final_event o' (t # ts) x" for x
    using that by (intro exI [of _ 0] exI [of _ "[x]"]) simp
  consider "tn_aborted t" | "\<not> tn_aborted t" "own_events o' t \<noteq> []"
    | "\<not> tn_aborted t" "own_events o' t = []" "ow_deadline o' \<le> tn_now t"
    | "\<not> tn_aborted t" "own_events o' t = []" "\<not> ow_deadline o' \<le> tn_now t" "\<not> beat \<le> tn_heartbeat_now t"
    | "\<not> tn_aborted t" "own_events o' t = []" "\<not> ow_deadline o' \<le> tn_now t" "beat \<le> tn_heartbeat_now t"
    by blast
  then show ?case
  proof cases
    case 1
    with Cons.prems show ?thesis
      by (intro ends [of "Timed_Out (ow_address o') (ow_expires_at o')"]) (auto simp: final_event_def)
  next
    case 2
    with Cons.prems show ?thesis
      by (intro ends [of "Appeared (public_appear_payload (last (own_events o' t)))"])
        (auto simp: received_event final_event_def)
  next
    case 3
    with Cons.prems show ?thesis
      by (intro ends [of "Timed_Out (ow_address o') (ow_expires_at o')"]) (auto simp: received_event final_event_def)
  next
    case 4
    with Cons.prems Cons.IH [of beat es] more show ?thesis by (simp add: received_event) blast
  next
    case 5
    show ?thesis
    proof (cases "tn_closed t")
      case True
      with 5 Cons.prems show ?thesis by (intro exI [of _ 1] exI [of _ "[]"]) (simp add: received_event)
    next
      case False
      with 5 Cons.prems obtain es' where es: "es = Comment ''heartbeat'' # es'"
        and rec: "session_loop o' ts (tn_next_now t + mempool_watch_heartbeat_ms) None = (es', ended)"
        by (auto simp: received_event split: prod.splits)
      from Cons.IH [OF rec] obtain n rest where "es' = replicate n (Comment ''heartbeat'') @ rest"
        and "rest = [] \<or> (ended \<and> (\<exists>x. rest = [x] \<and> final_event o' ts x))" by blast
      then show ?thesis using more by (intro exI [of _ "Suc n"] exI [of _ rest]) (auto simp: es)
    qed
  qed
qed

lemma session_loop_ends:
  "\<exists>t \<in> set ts. ends_session o' t \<Longrightarrow> snd (session_loop o' ts beat None)"
  by (induction ts arbitrary: beat)
    (auto simp: received_event ends_session_def case_prod_beta)

lemma session_loop_reports:
  assumes "\<forall>u \<in> set us. \<not> ends_session o' u \<and> \<not> tn_closed u"
    and "\<not> tn_aborted t" and "own_events o' t \<noteq> []"
  shows "\<exists>n. session_loop o' (us @ t # vs) beat None
    = (replicate n (Comment ''heartbeat'') @ [Appeared (public_appear_payload (last (own_events o' t)))], True)"
  using assms(1)
proof (induction us arbitrary: beat)
  case Nil
  then show ?case using assms(2,3) by (intro exI [of _ 0]) (simp add: received_event)
next
  case (Cons u us)
  then have u: "\<not> tn_aborted u" "own_events o' u = []" "\<not> ow_deadline o' \<le> tn_now u" "\<not> tn_closed u"
    and us: "\<forall>u \<in> set us. \<not> ends_session o' u \<and> \<not> tn_closed u" by (auto simp: ends_session_def)
  show ?case
  proof (cases "beat \<le> tn_heartbeat_now u")
    case True
    from Cons.IH [OF us, of "tn_next_now u + mempool_watch_heartbeat_ms"] obtain n where
      "session_loop o' (us @ t # vs) (tn_next_now u + mempool_watch_heartbeat_ms) None
        = (replicate n (Comment ''heartbeat'') @ [Appeared (public_appear_payload (last (own_events o' t)))], True)" ..
    with u True show ?thesis by (intro exI [of _ "Suc n"]) (simp add: received_event)
  next
    case False
    with u Cons.IH [OF us, of beat] show ?thesis by (simp add: received_event)
  qed
qed

lemma create_active_ok:
  assumes "create_active_mempool_watch now1 now2 row ws = (Inr w, ws')"
  shows "w = row \<and> (\<exists>us. set us \<subseteq> set ws \<and> ws' = us @ [row])"
proof -
  let ?us = "filter (\<lambda>w. text_before now2 (aw_expires_at w)) (filter (\<lambda>w. text_before now1 (aw_expires_at w)) ws)"
  have "set ?us \<subseteq> set ws" by auto
  then show ?thesis
    using assms
    by (intro conjI exI [of _ ?us])
      (auto simp: create_active_mempool_watch_def check_limit_unfold Let_def split: if_splits)
qed

lemma create_watch_call_ok:
  assumes "create_watch_call i row s = (Inr w, s1)"
  shows "w = row \<and> (\<exists>ws. set ws \<subseteq> set (ww_watches s) \<and> s1 = s\<lparr>ww_watches := ws @ [row]\<rparr>)"
proof -
  obtain now1 now2 created where clock: "si_clock i = (now1, now2, created)" by (cases "si_clock i")
  from assms have f: "si_create_fault i = None"
    by (auto simp: create_watch_call_def split: option.splits prod.splits)
  obtain r ws where c: "create_active_mempool_watch now1 now2 row (ww_watches s) = (r, ws)" by fastforce
  with assms f clock have "r = Inr w" "s1 = s\<lparr>ww_watches := ws\<rparr>" by (simp_all add: create_watch_call_def)
  with create_active_ok c show ?thesis by blast
qed

lemma create_watch_call_err:
  assumes "create_watch_call i row s = (Inl e, s1)" and "\<forall>e. si_create_fault i \<noteq> Some (True, e)"
  shows "set (ww_watches s1) \<subseteq> set (ww_watches s)"
  using assms
  by (auto simp: create_watch_call_def create_active_mempool_watch_def check_limit_unfold Let_def
      split: prod.splits if_splits option.splits)

lemma call_fault_cases:
  "with_call_fault f m s = (r, s') \<longleftrightarrow> (case f of None \<Rightarrow> m s = (r, s') | Some e \<Rightarrow> r = Inl e \<and> s' = s)"
  by (auto simp: with_call_fault_def throw_def split: option.splits)

lemma begin_session_ok:
  assumes "begin_session dt i s = (Inr w, s1)"
  shows "aw_id w = si_watch_id i \<and> aw_api_key_id w = si_api_key_id i
    \<and> normalize_watch_address (si_address i) = Inr (aw_address w)
    \<and> normalize_min_value_base (si_min_value_base i) = Inr (aw_min_value_base w)
    \<and> assert_detector_available dt (si_status_ms i) (get_json_value detector_status_key (ww_config s)) = Inr ()
    \<and> (\<exists>ws. set ws \<subseteq> set (ww_watches s) \<and> s1 = s\<lparr>ww_watches := ws @ [w]\<rparr>)"
  using assms
  by (auto simp: begin_session_def then_do_Inr and_do_def lift_res_def get_field_def call_fault_cases
      split: option.splits dest!: create_watch_call_ok)

lemma begin_session_err:
  assumes "begin_session dt i s = (Inl e, s1)" and "\<forall>e. si_create_fault i \<noteq> Some (True, e)"
  shows "set (ww_watches s1) \<subseteq> set (ww_watches s)"
  using assms create_watch_call_err [OF _ assms(2)]
  by (fastforce simp: begin_session_def then_do_Inl and_do_def lift_res_def get_field_def call_fault_cases
      split: option.splits)

lemma publish_changed_facts:
  "publish_watch_changed f s = (r, s') \<Longrightarrow> ww_watches s' = ww_watches s \<and> ww_config s' = ww_config s"
  by (auto simp: publish_watch_changed_def call_fault_cases change_def split: option.splits)

lemma close_session_facts:
  assumes "close_session i outcome s = (outcome', s')" and "si_delete_fault i = None"
  shows "ww_watches s' = delete_active_mempool_watch (si_watch_id i) (ww_watches s)"
    and "outcome' = outcome \<or> (\<exists>e. outcome' = Session_Failed e)"
  using assms
  by (auto simp: close_session_def and_do_def then_do_def with_call_fault_def change_def publish_watch_changed_def
      throw_def split: option.splits)

text \<open>
  C26. A session leaves no watch behind and answers in order. Whatever is delivered and read on the way,
  a session that is over, because it ended, was closed by its client or failed, has no row in the table
  (unless the deletion itself fails, or a creation that wrote its row was reported as failed), one that
  is still open has its row, and no other row appears. What it sent is nothing, or \<^verbatim>\<open>connected\<close>,
  heartbeats, and then at most one final event, only when it is over: the time-out, or the public part
  of an event the bus delivered for this very watch.
\<close>

theorem session_leaves_no_watch:
  assumes run: "open_session dt i ts s = ((es, outcome), s')"
    and new: "si_watch_id i \<notin> aw_id ` set (ww_watches s)"
    and delete: "si_delete_fault i = None" and create: "\<forall>e. si_create_fault i \<noteq> Some (True, e)"
  shows "(outcome = Session_Open \<longleftrightarrow> si_watch_id i \<in> aw_id ` set (ww_watches s'))
    \<and> {w \<in> set (ww_watches s'). aw_id w \<noteq> si_watch_id i} \<subseteq> set (ww_watches s)
    \<and> (es = [] \<or> (\<exists>n rest. es = Comment ''connected'' # replicate n (Comment ''heartbeat'') @ rest
         \<and> (rest = [] \<or> outcome \<noteq> Session_Open
              \<and> (\<exists>x w. rest = [x] \<and> aw_id w = si_watch_id i \<and> final_event (opened_watch i w) ts x))))"
proof (cases rule: eff_cases [of "begin_session dt i" s])
  case (1 e s1)
  with run begin_session_err [OF 1 create] new show ?thesis by (auto simp: open_session_def)
next
  case (2 w s1)
  note ok = begin_session_ok [OF 2]
  then obtain ws where ws: "set ws \<subseteq> set (ww_watches s)" "s1 = s\<lparr>ww_watches := ws @ [w]\<rparr>" by blast
  have closed: "si_watch_id i \<notin> aw_id ` set (ww_watches t')"
      "set (ww_watches t') \<subseteq> set (ww_watches s)" "o' \<noteq> Session_Open \<Longrightarrow> o'' \<noteq> Session_Open"
    if "close_session i o' t = (o'', t')" and "ww_watches t = ws @ [w]" for t t' o' o''
    using close_session_facts [OF that(1) delete] that(2) ws ok
    by (auto simp: delete_active_mempool_watch_def)
  show ?thesis
  proof (cases rule: eff_cases [of "publish_watch_changed (si_publish_fault i)" s1])
    case (1 e s2)
    with ws publish_changed_facts [OF 1] have "ww_watches s2 = ws @ [w]" by simp
    moreover obtain o'' s3 where c: "close_session i (Session_Failed e) s2 = (o'', s3)" by (cases "close_session i (Session_Failed e) s2")
    ultimately show ?thesis using closed [OF c] run 1 2 by (auto simp: open_session_def)
  next
    case (2 u s2)
    with ws publish_changed_facts [OF 2] have s2: "ww_watches s2 = ws @ [w]" by simp
    obtain es' ended where loop: "(if si_closed i then ([], True)
        else session_loop (opened_watch i w) ts (si_connected_ms i + mempool_watch_heartbeat_ms) None) = (es', ended)"
      by fastforce
    have shape: "\<exists>n rest. es' = replicate n (Comment ''heartbeat'') @ rest
        \<and> (rest = [] \<or> (ended \<and> (\<exists>x. rest = [x] \<and> final_event (opened_watch i w) ts x)))"
      using loop session_loop_shape by (cases "si_closed i") fastforce+
    obtain o'' s3 where c: "close_session i Session_Closed s2 = (o'', s3)" by (cases "close_session i Session_Closed s2")
    have es: "es = Comment ''connected'' # es'" and fin: "outcome = (if ended then o'' else Session_Open)"
        "s' = (if ended then s3 else s2)"
      using run \<open>begin_session dt i s = (Inr w, s1)\<close> 2 loop c by (auto simp: open_session_def split: if_splits)
    show ?thesis
    proof (cases ended)
      case True
      then show ?thesis using closed [OF c s2] shape ok by (auto simp: es fin)
    next
      case False
      then show ?thesis using s2 ws ok shape by (auto simp: es fin)
    qed
  qed
qed

text \<open>
  C27. A session reports and ends. Once its watch exists and was announced, a session ends by the turn
  that is aborted, reads its deadline, or receives an event of its watch; and if the turns before are
  quiet (no event of the watch, no abort, clock below the deadline, stream not closed) and that turn
  receives events of the watch, the client gets heartbeats and then the last of these events, even when
  the deadline has passed in the same turn. Where two events arrive within a turn of the polling loop
  this is not the first one, which the documents promise: the handler overwrites an event that has not
  been reported yet.
\<close>

theorem session_reports_event:
  assumes begun: "begin_session dt i s = (Inr w, s1)" and publish: "si_publish_fault i = None"
    and delete: "si_delete_fault i = None"
  shows "((\<exists>t \<in> set ts. ends_session (opened_watch i w) t) \<longrightarrow> snd (fst (open_session dt i ts s)) \<noteq> Session_Open)
    \<and> ((\<forall>u \<in> set us. \<not> ends_session (opened_watch i w) u \<and> \<not> tn_closed u) \<and> \<not> si_closed i
        \<and> \<not> tn_aborted t \<and> own_events (opened_watch i w) t \<noteq> []
       \<longrightarrow> (\<exists>n. fst (fst (open_session dt i (us @ t # vs) s)) = Comment ''connected'' # replicate n (Comment ''heartbeat'')
             @ [Appeared (public_appear_payload (last (own_events (opened_watch i w) t)))]))"
proof (intro conjI impI)
  obtain s2 where pub: "publish_watch_changed (si_publish_fault i) s1 = (Inr (), s2)"
    by (simp add: publish publish_watch_changed_def with_call_fault_def change_def)
  let ?o = "opened_watch i w" and ?beat = "si_connected_ms i + mempool_watch_heartbeat_ms"
  have whole: "fst (fst (open_session dt i ts s))
      = Comment ''connected'' # (if si_closed i then [] else fst (session_loop ?o ts ?beat None))"
    "snd (fst (open_session dt i ts s))
      = (if si_closed i \<or> snd (session_loop ?o ts ?beat None)
         then fst (close_session i Session_Closed s2) else Session_Open)" for ts
    using begun pub by (auto simp: open_session_def case_prod_beta)
  show "snd (fst (open_session dt i ts s)) \<noteq> Session_Open" if e: "\<exists>t \<in> set ts. ends_session ?o t"
  proof -
    obtain o'' s3 where "close_session i Session_Closed s2 = (o'', s3)" by (cases "close_session i Session_Closed s2")
    then show ?thesis
      using close_session_facts(2) [OF _ delete] session_loop_ends [OF e] by (fastforce simp: whole)
  qed
  assume quiet: "(\<forall>u \<in> set us. \<not> ends_session ?o u \<and> \<not> tn_closed u) \<and> \<not> si_closed i
        \<and> \<not> tn_aborted t \<and> own_events ?o t \<noteq> []"
  then obtain n where "session_loop ?o (us @ t # vs) ?beat None
      = (replicate n (Comment ''heartbeat'') @ [Appeared (public_appear_payload (last (own_events ?o t)))], True)"
    using session_loop_reports by blast
  with quiet show "\<exists>n. fst (fst (open_session dt i (us @ t # vs) s))
      = Comment ''connected'' # replicate n (Comment ''heartbeat'')
        @ [Appeared (public_appear_payload (last (own_events ?o t)))]"
    by (intro exI [of _ n]) (simp add: whole)
qed

definition sample_iso :: date_text where
  "sample_iso = \<lparr>dt_iso = (\<lambda>_. ''9''), dt_parse = (\<lambda>_. JNaN)\<rparr>"

definition sample_session :: session_input where
  "sample_session = \<lparr>si_address = '' D '', si_api_key_id = ''k'', si_min_value_base = Some ''007'',
     si_watch_id = ''mw_1'', si_created_ms = 0, si_status_ms = 0, si_clock = (''1'', ''1'', ''1''),
     si_connected_ms = 1, si_closed = False, si_status_fault = None, si_create_fault = None,
     si_publish_fault = None, si_delete_fault = None, si_last_publish_fault = None\<rparr>"

definition sample_world :: watch_world where
  "sample_world = \<lparr>ww_watches = [sample_watch ''a''], ww_config = [], ww_changes = 0\<rparr>"

definition sample_event :: appear_event where
  "sample_event = \<lparr>ap_address = ''D'', ap_detected_at = ''2'', ap_outputs = [], ap_source = Live, ap_txid = ''t'',
     ae_api_key_id = ''k'', ae_watch_id = ''mw_1''\<rparr>"

definition sample_turn :: "appear_event list \<Rightarrow> int \<Rightarrow> session_turn" where
  "sample_turn es now = \<lparr>tn_events = es, tn_aborted = False, tn_now = now, tn_heartbeat_now = now,
     tn_next_now = now, tn_closed = False\<rparr>"

lemma sample_session_fields [simp]:
  "si_watch_id sample_session = ''mw_1''" "si_created_ms sample_session = 0" "si_connected_ms sample_session = 1"
  "si_closed sample_session = False" "si_create_fault sample_session = None"
  "si_publish_fault sample_session = None" "si_delete_fault sample_session = None"
  "si_last_publish_fault sample_session = None"
  by (simp_all add: sample_session_def)

lemma sample_session_begins:
  "begin_session sample_iso sample_session sample_world
     = (Inr \<lparr>aw_id = ''mw_1'', aw_api_key_id = ''k'', aw_address = ''D'', aw_min_value_base = Some ''7'',
             aw_expires_at = ''9'', aw_created_at = ''1''\<rparr>,
        sample_world\<lparr>ww_watches := [sample_watch ''a'',
          \<lparr>aw_id = ''mw_1'', aw_api_key_id = ''k'', aw_address = ''D'', aw_min_value_base = Some ''7'',
             aw_expires_at = ''9'', aw_created_at = ''1''\<rparr>]\<rparr>)"
  by code_simp

theorem session_leaves_no_watch_witness:
  "snd (fst (open_session sample_iso sample_session [sample_turn [] 20000, sample_turn [sample_event] 20100] sample_world))
     = Session_Closed
   \<and> ''mw_1'' \<notin> aw_id ` set (ww_watches (snd (open_session sample_iso sample_session
        [sample_turn [] 20000, sample_turn [sample_event] 20100] sample_world)))"
proof -
  let ?r = "open_session sample_iso sample_session [sample_turn [] 20000, sample_turn [sample_event] 20100] sample_world"
  have out: "snd (fst ?r) = Session_Closed"
    by (simp add: open_session_def sample_session_begins publish_watch_changed_def with_call_fault_def change_def
        close_session_def and_do_def then_do_def opened_watch_def sample_turn_def handle_appear_def sample_event_def
        mempool_watch_heartbeat_ms_def mempool_watch_session_ms_def)
  have "(snd (fst ?r) = Session_Open \<longleftrightarrow> si_watch_id sample_session \<in> aw_id ` set (ww_watches (snd ?r)))"
    using session_leaves_no_watch [of sample_iso sample_session
        "[sample_turn [] 20000, sample_turn [sample_event] 20100]" sample_world
        "fst (fst ?r)" "snd (fst ?r)" "snd ?r"]
    by (simp add: sample_world_def sample_watch_def)
  with out show ?thesis by simp
qed

theorem session_reports_event_witness:
  "\<exists>n. fst (fst (open_session sample_iso sample_session [sample_turn [] 20000, sample_turn [sample_event] 20100] sample_world))
     = Comment ''connected'' # replicate n (Comment ''heartbeat'') @ [Appeared (public_appear_payload sample_event)]"
  using session_reports_event [OF sample_session_begins, of "[]" "[sample_turn [] 20000]" "sample_turn [sample_event] 20100" "[]"]
  by (simp add: opened_watch_def own_events_def ends_session_def sample_turn_def sample_event_def
      mempool_watch_session_ms_def)

section \<open>What a watch matches\<close>

definition readable_output :: "json \<Rightarrow> bool" where
  "readable_output out \<longleftrightarrow> is_ok (extract_dogecoin_output_address out) \<and> is_ok (output_value_base out)"

definition output_text :: "json \<Rightarrow> string" where
  "output_text out = (case output_value_base out of Inr v \<Rightarrow> v | Inl _ \<Rightarrow> [])"

definition requested_minimum :: "string option \<Rightarrow> nat option" where
  "requested_minimum v =
     (case v of None \<Rightarrow> None | Some t \<Rightarrow> if t = [] then None else Some (digits_value (js_trim t)))"

lemma js_bigint_trim: "js_bigint (js_trim v) = Inr i \<Longrightarrow> js_bigint v = Inr i"
  by (cases "radix_prefix (js_trim v)"; cases "split_sign (js_trim v)"; cases "js_trim v = []")
    (simp_all add: js_bigint_def case_prod_beta split: if_splits)

lemma output_value_base_bigint: "output_value_base out = Inr v \<Longrightarrow> js_bigint v = Inr (big_value v)"
proof -
  assume v: "output_value_base out = Inr v"
  have "v = ''0'' \<or> (\<exists>a. from_decimal_units a 8 = Inr v)"
    using v by (cases "own_prop out ''value''") (auto simp: output_value_base_def)
  then show ?thesis
  proof
    assume "v = ''0''"
    then show ?thesis by (simp add: big_value_def js_bigint_digits all_digits_def is_digit_def char_code_def)
  next
    assume "\<exists>a. from_decimal_units a 8 = Inr v"
    then obtain a i where "from_decimal_units a 8 = Inr v" and i: "parse_amount_base v = Inr i"
      using from_decimal_units_amount by blast
    from i have "js_bigint (js_trim v) = Inr i" by (simp add: parse_amount_base_def Let_def split: if_splits)
    then have "js_bigint v = Inr i" by (rule js_bigint_trim)
    then show ?thesis by (simp add: big_value_def)
  qed
qed

lemma normalized_minimum:
  assumes "normalize_min_value_base raw = Inr least"
  shows "(case least of None \<Rightarrow> requested_minimum raw = None
    | Some m \<Rightarrow> \<exists>n. requested_minimum raw = Some n \<and> js_bigint m = Inr (int n))"
proof (cases raw)
  case None
  with assms show ?thesis by (auto simp: normalize_min_value_base_def requested_minimum_def)
next
  case (Some t)
  show ?thesis
  proof (cases "t = []")
    case True
    with assms Some show ?thesis by (auto simp: normalize_min_value_base_def requested_minimum_def)
  next
    case False
    with assms Some have d: "all_digits (js_trim t)"
      and least: "least = Some (let n = strip_zeros (js_trim t) in if n = [] then ''0'' else n)"
      by (auto simp: normalize_min_value_base_def split: if_splits)
    from strip_zeros_digits [OF d] have "strip_zeros (js_trim t) \<noteq> []" "all_digits (strip_zeros (js_trim t))"
      by (auto simp: all_digits_def)
    then show ?thesis
      using False by (simp add: least Let_def Some requested_minimum_def js_bigint_digits strip_zeros_value)
  qed
qed

lemma sum_value_base_total:
  assumes "\<forall>out \<in> set outs. js_bigint (ao_value_base out) = Inr (big_value (ao_value_base out))"
  shows "sum_value_base outs = Inr (\<Sum>out \<leftarrow> outs. big_value (ao_value_base out))"
proof -
  have "fold_res (\<lambda>out total. and_then (js_bigint (ao_value_base out)) (\<lambda>v. Inr (total + v))) outs s
      = Inr (s + (\<Sum>out \<leftarrow> outs. big_value (ao_value_base out)))" for s
    using assms by (induction outs arbitrary: s) simp_all
  then show ?thesis by (simp add: sum_value_base_def)
qed

lemma collected_outputs:
  assumes "dogecoin_outputs tx = Inr outs" and "\<forall>out \<in> set outs. readable_output out"
  shows "collect_matching_outputs tx address
    = Inr (map (\<lambda>(i, out). \<lparr>ao_vout = watch_output_index out i, ao_value_base = output_text out\<rparr>)
        (filter (\<lambda>(i, out). extract_dogecoin_output_address out = Inr address) (List.enumerate 0 outs)))"
proof -
  let ?row = "\<lambda>(i, out). \<lparr>ao_vout = watch_output_index out i, ao_value_base = output_text out\<rparr>"
  let ?pays = "\<lambda>(i, out). extract_dogecoin_output_address out = Inr address"
  have "matching_output address x = Inr (if ?pays x then Some (?row x) else None)"
    if "x \<in> set (List.enumerate 0 outs)" for x
  proof -
    from that have "fst x < length outs" "snd x = outs ! fst x" by (auto simp: in_set_enumerate_eq)
    then have "snd x \<in> set outs" by simp
    with assms(2) have "readable_output (snd x)" by blast
    then show ?thesis
      by (auto simp: matching_output_def readable_output_def is_ok_iff output_text_def split: prod.splits)
  qed
  then have "map_res (matching_output address) (List.enumerate 0 outs)
      = Inr (map (\<lambda>x. if ?pays x then Some (?row x) else None) (List.enumerate 0 outs))"
    by (rule map_res_total)
  moreover have "some_values (map (\<lambda>x. if ?pays x then Some (?row x) else None) xs) = map ?row (filter ?pays xs)" for xs
    by (induction xs) (auto simp: some_values_def)
  ultimately show ?thesis by (simp add: collect_matching_outputs_def assms(1))
qed

text \<open>
  C28. A watch matches exactly the payments it asks for. When the outputs of a transaction can be read,
  the answer for an address is the outputs whose address it is, with their place and amount, provided
  there is one and their amounts sum to at least the minimum of the request (a run of digits, leading
  zeros and surrounding white space allowed; none or an empty text means no minimum); otherwise no match.
\<close>

theorem watch_matches_payments:
  assumes outs: "dogecoin_outputs tx = Inr outs" and readable: "\<forall>out \<in> set outs. readable_output out"
    and least: "normalize_min_value_base raw = Inr least"
  shows "let paid = filter (\<lambda>(i, out). extract_dogecoin_output_address out = Inr address) (List.enumerate 0 outs);
             total = (\<Sum>(i, out) \<leftarrow> paid. big_value (output_text out))
         in matching_outputs_for_address tx address least
            = Inr (if paid = [] \<or> (\<exists>m. requested_minimum raw = Some m \<and> total < int m) then None
                   else Some (map (\<lambda>(i, out). \<lparr>ao_vout = watch_output_index out i, ao_value_base = output_text out\<rparr>) paid))"
proof -
  define paid where "paid = filter (\<lambda>(i, out). extract_dogecoin_output_address out = Inr address) (List.enumerate 0 outs)"
  define rows where "rows = map (\<lambda>(i, out). \<lparr>ao_vout = watch_output_index out i, ao_value_base = output_text out\<rparr>) paid"
  have "js_bigint (ao_value_base r) = Inr (big_value (ao_value_base r))" if "r \<in> set rows" for r
  proof -
    from that obtain i out where x: "(i, out) \<in> set (List.enumerate 0 outs)" and r: "ao_value_base r = output_text out"
      by (auto simp: rows_def paid_def)
    from x have "out \<in> set outs" by (auto simp: in_set_enumerate_eq)
    with readable have "readable_output out" by blast
    then show ?thesis
      by (auto simp: readable_output_def is_ok_iff output_text_def r output_value_base_bigint)
  qed
  then have "sum_value_base rows = Inr (\<Sum>out \<leftarrow> rows. big_value (ao_value_base out))"
    by (intro sum_value_base_total) blast
  moreover have "(\<Sum>out \<leftarrow> rows. big_value (ao_value_base out)) = (\<Sum>(i, out) \<leftarrow> paid. big_value (output_text out))"
    by (auto simp: rows_def comp_def intro!: arg_cong [where f = sum_list])
  moreover have "collect_matching_outputs tx address = Inr rows"
    by (simp add: collected_outputs [OF outs readable] rows_def paid_def)
  moreover have "rows = [] \<longleftrightarrow> paid = []" by (simp add: rows_def)
  ultimately have "matching_outputs_for_address tx address least
      = Inr (if paid = [] \<or> (\<exists>m. requested_minimum raw = Some m \<and> (\<Sum>(i, out) \<leftarrow> paid. big_value (output_text out)) < int m)
             then None else Some rows)"
    using normalized_minimum [OF least]
    by (auto simp: matching_outputs_for_address_def not_le split: option.splits)
  then show ?thesis by (simp add: rows_def paid_def Let_def)
qed

definition sample_paying :: "string \<Rightarrow> string \<Rightarrow> json" where
  "sample_paying address amount =
     JObj [(''value'', JStr amount), (''scriptPubKey'', JObj [(''address'', JStr address)])]"

definition sample_payment :: json where
  "sample_payment = JObj [(''txid'', JStr ''t''), (''vout'', JArr
     [sample_paying ''D'' ''0.00000060'', sample_paying ''E'' ''1'', sample_paying ''D'' ''0.0000005''])]"

lemma sample_payment_read:
  "dogecoin_outputs sample_payment
     = Inr [sample_paying ''D'' ''0.00000060'', sample_paying ''E'' ''1'', sample_paying ''D'' ''0.0000005'']"
  "readable_output (sample_paying ''D'' ''0.00000060'')" "readable_output (sample_paying ''E'' ''1'')"
  "readable_output (sample_paying ''D'' ''0.0000005'')"
  "normalize_min_value_base (Some '' 0100 '') = Inr (Some ''100'')"
  "requested_minimum (Some '' 0100 '') = Some 100"
  by code_simp+

lemma sample_payment_paid:
  "extract_dogecoin_output_address (sample_paying ''D'' ''0.00000060'') = Inr ''D''"
  "extract_dogecoin_output_address (sample_paying ''E'' ''1'') = Inr ''E''"
  "extract_dogecoin_output_address (sample_paying ''D'' ''0.0000005'') = Inr ''D''"
  "big_value (output_text (sample_paying ''D'' ''0.00000060'')) = 60"
  "big_value (output_text (sample_paying ''D'' ''0.0000005'')) = 50"
  by code_simp+

theorem watch_matches_payments_witness:
  "matching_outputs_for_address sample_payment ''D'' (Some ''100'')
     = Inr (Some [\<lparr>ao_vout = watch_output_index (sample_paying ''D'' ''0.00000060'') 0,
                   ao_value_base = output_text (sample_paying ''D'' ''0.00000060'')\<rparr>,
                  \<lparr>ao_vout = watch_output_index (sample_paying ''D'' ''0.0000005'') 2,
                   ao_value_base = output_text (sample_paying ''D'' ''0.0000005'')\<rparr>])"
  using watch_matches_payments [OF sample_payment_read(1) _ sample_payment_read(5), of "''D''"]
  by (simp add: sample_payment_read sample_payment_paid numeral_2_eq_2)

end
