(* ===== verification/Mempool_Detector.thy ===== *)
theory Mempool_Detector
  imports Mempool_Watch
begin

text \<open>
  The detector of mempool appearances (\<^verbatim>\<open>platform/src/mempool-appear-detector.ts\<close>): the cache of mempool
  transactions, the watches it knows, and its three kinds of work (refreshing the watches, polling the
  node, handling a raw transaction), which the code runs one after the other. Every answer of the node
  and the registry, every clock reading, what other instances write to the detector's status and every
  failure of a publication is an argument or a script of the state.
\<close>

section \<open>State and publications\<close>

record detector_options =
  do_cache_max_txids :: nat
  do_owner_instance_id :: string
  do_rpc_batch_size :: nat
  do_rpc_poll_ms :: int

text \<open>
  The script of publications says, for each publication to come, the text of its time and whether it
  fails; one that fails may have been delivered to the listeners of the same process. After its end no
  publication fails.
\<close>

record detector =
  dd_watches :: "(string, active_mempool_watch list) js_map"
  dd_cache :: "(string, json) js_map"
  dd_config :: app_config
  dd_events :: "appear_event list"
  dd_publications :: "(string \<times> (bool \<times> js_error) option) list"

definition publish_appear :: "(string \<Rightarrow> appear_event) \<Rightarrow> (detector, unit) eff" where
  "publish_appear ev s =
     (let (at_text, f, rest) = (case dd_publications s of [] \<Rightarrow> ([], None, []) | (t, f) # ps \<Rightarrow> (t, f, ps));
          s' = s\<lparr>dd_publications := rest\<rparr>;
          delivered = s'\<lparr>dd_events := dd_events s @ [ev at_text]\<rparr> in
      case f of None \<Rightarrow> (Inr (), delivered) | Some (d, e) \<Rightarrow> (Inl e, if d then delivered else s'))"

section \<open>Transactions\<close>

text \<open>\<^verbatim>\<open>transaction.txid?.trim()\<close>, where the empty text also stands for \<^verbatim>\<open>undefined\<close>: the code tests both alike.\<close>

definition trimmed_txid :: "json \<Rightarrow> string res" where
  "trimmed_txid tx =
     (case own_prop tx ''txid'' of
        JStr s \<Rightarrow> Inr (js_trim s) | JUndefined \<Rightarrow> Inr [] | JNull \<Rightarrow> Inr [] | _ \<Rightarrow> Inl call_error)"

definition compact_transaction :: "json \<Rightarrow> json res" where
  "compact_transaction tx =
     and_then (trimmed_txid tx) (\<lambda>t.
     Inr (JObj ((''txid'', JStr t) #
       (if truthy (own_prop tx ''vout'') then [(''vout'', own_prop tx ''vout'')] else []))))"

definition appearance :: "active_mempool_watch \<Rightarrow> appear_output list \<Rightarrow> appear_source \<Rightarrow> string \<Rightarrow> string \<Rightarrow> appear_event" where
  "appearance w outs source txid at_text =
     \<lparr>ap_address = aw_address w, ap_detected_at = at_text, ap_outputs = outs, ap_source = source, ap_txid = txid,
      ae_api_key_id = aw_api_key_id w, ae_watch_id = aw_id w\<rparr>"

definition match_watch :: "json \<Rightarrow> string \<Rightarrow> appear_source \<Rightarrow> active_mempool_watch \<Rightarrow> (detector, unit) eff" where
  "match_watch tx txid source w =
     then_do (lift_res (matching_outputs_for_address tx (aw_address w) (aw_min_value_base w))) (\<lambda>r.
     case r of None \<Rightarrow> ret () | Some outs \<Rightarrow> publish_appear (appearance w outs source txid))"

definition match_transaction :: "json \<Rightarrow> active_mempool_watch list \<Rightarrow> appear_source \<Rightarrow> (detector, unit) eff" where
  "match_transaction tx ws source =
     then_do (lift_res (trimmed_txid tx)) (\<lambda>txid.
     if txid = [] then ret () else for_each (match_watch tx txid source) ws)"

definition match_cached_transactions ::
  "active_mempool_watch list \<Rightarrow> appear_source \<Rightarrow> json list \<Rightarrow> (detector, unit) eff" where
  "match_cached_transactions ws source txs = for_each (\<lambda>tx. match_transaction tx ws source) txs"

definition watches_by_address :: "active_mempool_watch list \<Rightarrow> (string, active_mempool_watch list) js_map" where
  "watches_by_address ws =
     fold (\<lambda>w m. js_set (aw_address w)
       ((case js_get m (aw_address w) of None \<Rightarrow> [] | Some l \<Rightarrow> l) @ [w]) m) ws []"

definition all_watches :: "detector \<Rightarrow> active_mempool_watch list" where
  "all_watches s = concat (js_values (dd_watches s))"

section \<open>The status of the detector\<close>

definition detector_status :: "date_text \<Rightarrow> detector_options \<Rightarrow> bool \<Rightarrow> nat \<Rightarrow> int \<Rightarrow> json" where
  "detector_status dt opts degraded observed now =
     JObj [(''version'', JNum (JInt 1)), (''ownerInstanceId'', JStr (do_owner_instance_id opts)),
           (''degraded'', JBool degraded), (''observedTxids'', JNum (JInt (int observed))),
           (''observedAt'', JStr (dt_iso dt now)),
           (''expiresAt'', JStr (dt_iso dt (now + do_rpc_poll_ms opts * 3)))]"

definition is_expired_status :: "date_text \<Rightarrow> int \<Rightarrow> json \<Rightarrow> bool" where
  "is_expired_status dt now current \<longleftrightarrow>
     current = JNull \<or> (case status_expires_at dt current of JInt t \<Rightarrow> t \<le> now | _ \<Rightarrow> True)"

definition is_status_owner :: "detector_options \<Rightarrow> json \<Rightarrow> bool" where
  "is_status_owner opts current \<longleftrightarrow> own_prop current ''ownerInstanceId'' = JStr (do_owner_instance_id opts)"

text \<open>One attempt: what other instances store before the value is read and before it is swapped, and failures.\<close>

record status_turn =
  st_before :: "json option"
  st_read_fault :: "js_error option"
  st_now :: int
  st_between :: "json option"
  st_swap_fault :: "(bool \<times> js_error) option"

definition others_store :: "json option \<Rightarrow> (detector, unit) eff" where
  "others_store v = change (\<lambda>s. case v of None \<Rightarrow> s
     | Some j \<Rightarrow> s\<lparr>dd_config := set_json_value detector_status_key j (dd_config s)\<rparr>)"

definition swap_status :: "(bool \<times> js_error) option \<Rightarrow> json \<Rightarrow> json \<Rightarrow> (detector, bool) eff" where
  "swap_status f current next_value s =
     (let (ok, c) = compare_and_swap_json_value detector_status_key
            (if current = JNull then None else Some current) next_value (dd_config s) in
      case f of
        None \<Rightarrow> (Inr ok, s\<lparr>dd_config := c\<rparr>)
      | Some (done, e) \<Rightarrow> (Inl e, if done then s\<lparr>dd_config := c\<rparr> else s))"

fun persist_attempts ::
  "date_text \<Rightarrow> detector_options \<Rightarrow> bool \<Rightarrow> nat \<Rightarrow> status_turn list \<Rightarrow> (detector, unit) eff" where
  "persist_attempts dt opts degraded observed [] =
     throw (GenericError ''mempool watch detector status CAS did not converge'')"
| "persist_attempts dt opts degraded observed (t # ts) =
     and_do (others_store (st_before t))
    (then_do (with_call_fault (st_read_fault t)
               (get_field (\<lambda>s. get_json_value detector_status_key (dd_config s)))) (\<lambda>current.
       let held = own_prop current ''degraded'' = JBool True \<and> \<not> is_expired_status dt (st_now t) current
                   \<and> \<not> is_status_owner opts current in
       if \<not> degraded \<and> held then ret ()
       else if degraded \<and> held then ret ()
       else and_do (others_store (st_between t))
           (then_do (swap_status (st_swap_fault t) current (detector_status dt opts degraded observed (st_now t))) (\<lambda>ok.
              if ok then ret () else persist_attempts dt opts degraded observed ts))))"

definition persist_detector_status ::
  "date_text \<Rightarrow> detector_options \<Rightarrow> bool \<Rightarrow> nat \<Rightarrow> (nat \<Rightarrow> status_turn) \<Rightarrow> (detector, unit) eff" where
  "persist_detector_status dt opts degraded observed turns =
     persist_attempts dt opts degraded observed (map turns [0, 1, 2, 3])"

section \<open>Synchronisation with the node\<close>

text \<open>
  What one synchronisation receives: the configuration, the mempool entries, the answers to the batches
  of requested transactions (\<^verbatim>\<open>mapWithConcurrency\<close> keeps the order of the batches), and the turns of the
  status loop. The batch size is positive, as the code's constant is.
\<close>

record node_answers =
  na_dogecoin :: "unit res"
  na_entries :: "(string \<times> json) list res"
  na_transactions :: "string list \<Rightarrow> json list res"
  na_status :: "nat \<Rightarrow> status_turn"

function chunk_array :: "nat \<Rightarrow> 'a list \<Rightarrow> 'a list list" where
  "chunk_array n xs = (if n = 0 \<or> xs = [] then [] else take n xs # chunk_array n (drop n xs))"
  by auto
termination by (relation "measure (\<lambda>(n, xs). length xs)") auto

declare chunk_array.simps [simp del]

definition hydrate :: "nat \<Rightarrow> (string list \<Rightarrow> json list res) \<Rightarrow> string list \<Rightarrow> json list res" where
  "hydrate n answer txids = and_then (map_res answer (chunk_array n txids)) (\<lambda>rs. Inr (concat rs))"

definition keep_cached :: "(string, json) js_map \<Rightarrow> string list \<Rightarrow> (string, json) js_map" where
  "keep_cached cache txids =
     fold (\<lambda>t m. case js_get cache t of Some c \<Rightarrow> js_set t c m | None \<Rightarrow> m) txids []"

definition missing_txids :: "(string, json) js_map \<Rightarrow> string list \<Rightarrow> string list" where
  "missing_txids cache txids = filter (\<lambda>t. js_get cache t = None) txids"

definition add_hydrated ::
  "(string \<times> json) list \<Rightarrow> json \<Rightarrow> (string, json) js_map \<times> json list \<Rightarrow> ((string, json) js_map \<times> json list) res" where
  "add_hydrated entries r = (\<lambda>(cache, new).
     if \<not> is_dogecoin_transaction r then Inr (cache, new)
     else and_then (compact_transaction r) (\<lambda>compact.
          and_then (trimmed_txid compact) (\<lambda>txid.
          if txid = [] \<or> js_get entries txid = None then Inr (cache, new)
          else Inr (js_set txid compact cache, new @ [compact]))))"

definition adopt_mempool ::
  "date_text \<Rightarrow> detector_options \<Rightarrow> appear_source \<Rightarrow> node_answers \<Rightarrow> nat
     \<Rightarrow> (string, json) js_map \<times> json list \<Rightarrow> (detector, unit) eff" where
  "adopt_mempool dt opts source a observed p =
     and_do (change (\<lambda>s. s\<lparr>dd_cache := fst p\<rparr>))
    (and_do (persist_detector_status dt opts False observed (na_status a))
       (if source = Live
        then then_do (get_field all_watches) (\<lambda>ws.
             match_cached_transactions (if snd p = [] then [] else ws) source (snd p))
        else ret ()))"

definition synchronize_mempool ::
  "date_text \<Rightarrow> detector_options \<Rightarrow> appear_source \<Rightarrow> node_answers \<Rightarrow> (detector, unit) eff" where
  "synchronize_mempool dt opts source a =
     then_do (lift_res (na_dogecoin a)) (\<lambda>_.
     then_do (lift_res (na_entries a)) (\<lambda>entries.
     let txids = map fst entries in
     if do_cache_max_txids opts < length txids
     then and_do (change (\<lambda>s. s\<lparr>dd_cache := []\<rparr>))
                 (persist_detector_status dt opts True (length txids) (na_status a))
     else then_do (get_field dd_cache) (\<lambda>cache.
          then_do (lift_res (hydrate (do_rpc_batch_size opts) (na_transactions a) (missing_txids cache txids))) (\<lambda>records.
          then_do (lift_res (fold_res (add_hydrated entries) records (keep_cached cache txids, [])))
            (adopt_mempool dt opts source a (length txids))))))"

section \<open>The three kinds of work\<close>

definition refresh_watches ::
  "date_text \<Rightarrow> detector_options \<Rightarrow> active_mempool_watch list res \<Rightarrow> node_answers \<Rightarrow> (detector, unit) eff" where
  "refresh_watches dt opts listing a =
     then_do (get_field (\<lambda>s. map aw_id (all_watches s))) (\<lambda>previous_ids.
     then_do (lift_res listing) (\<lambda>ws.
     and_do (change (\<lambda>s. s\<lparr>dd_watches := watches_by_address ws\<rparr>))
       (if ws = [] then ret ()
        else and_do (synchronize_mempool dt opts Catchup a)
            (then_do (get_field (\<lambda>s. js_values (dd_cache s))) (\<lambda>txs.
             match_cached_transactions (filter (\<lambda>w. aw_id w \<notin> set previous_ids) ws) Catchup txs)))))"

definition handle_decoded_transaction :: "detector_options \<Rightarrow> json \<Rightarrow> appear_source \<Rightarrow> (detector, unit) eff" where
  "handle_decoded_transaction opts tx source =
     then_do (lift_res (trimmed_txid tx)) (\<lambda>txid.
     if txid = [] then ret ()
     else then_do (lift_res (compact_transaction tx)) (\<lambda>compact.
          and_do (change (\<lambda>s.
              if js_get (dd_cache s) txid = None \<and> length (dd_cache s) < do_cache_max_txids opts
              then s\<lparr>dd_cache := js_set txid compact (dd_cache s)\<rparr> else s))
          (then_do (get_field dd_watches) (\<lambda>known.
           if known = [] then ret ()
           else then_do (get_field all_watches) (\<lambda>ws. match_transaction tx ws source)))))"

text \<open>
  A raw transaction is decoded by the node only while there are watches; \<open>watched\<close> is what the test
  before the decoding saw, the work itself runs later. Errors are logged and end the work.
\<close>

definition handle_raw_tx_hex :: "detector_options \<Rightarrow> bool \<Rightarrow> json res \<Rightarrow> (detector, unit) eff" where
  "handle_raw_tx_hex opts watched decoded =
     (if \<not> watched then ret ()
      else catch (then_do (lift_res decoded) (\<lambda>tx.
                  if \<not> is_dogecoin_transaction tx then ret () else handle_decoded_transaction opts tx Live))
             (\<lambda>_. ret ()))"

definition poll_turn :: "date_text \<Rightarrow> detector_options \<Rightarrow> node_answers \<Rightarrow> (detector, unit) eff" where
  "poll_turn dt opts a =
     catch (then_do (get_field dd_watches) (\<lambda>known.
            if known = [] then ret () else synchronize_mempool dt opts Live a))
       (\<lambda>_. ret ())"

datatype detector_work =
    Refresh "active_mempool_watch list res" node_answers
  | Poll node_answers
  | Raw_Transaction bool "json res"

fun detector_step :: "date_text \<Rightarrow> detector_options \<Rightarrow> detector_work \<Rightarrow> detector \<Rightarrow> detector" where
  "detector_step dt opts (Refresh listing a) s = snd (refresh_watches dt opts listing a s)"
| "detector_step dt opts (Poll a) s = snd (poll_turn dt opts a s)"
| "detector_step dt opts (Raw_Transaction watched tx) s = snd (handle_raw_tx_hex opts watched tx s)"

definition new_detector :: "app_config \<Rightarrow> (string \<times> (bool \<times> js_error) option) list \<Rightarrow> detector" where
  "new_detector c ps = \<lparr>dd_watches = [], dd_cache = [], dd_config = c, dd_events = [], dd_publications = ps\<rparr>"

definition detector_run :: "date_text \<Rightarrow> detector_options \<Rightarrow> detector_work list \<Rightarrow> detector \<Rightarrow> detector" where
  "detector_run dt opts works s = fold (detector_step dt opts) works s"

section \<open>Every appearance is true\<close>

lemma compact_facts:
  assumes "compact_transaction tx = Inr c"
  shows "trimmed_txid c = trimmed_txid tx"
    and "matching_outputs_for_address c a m = Inr (Some outs) \<Longrightarrow> matching_outputs_for_address tx a m = Inr (Some outs)"
proof -
  from assms obtain t where t: "trimmed_txid tx = Inr t"
    and c: "c = JObj ((''txid'', JStr t) # (if truthy (own_prop tx ''vout'') then [(''vout'', own_prop tx ''vout'')] else []))"
    by (auto simp: compact_transaction_def and_then_Inr_iff)
  have "t = [] \<or> (\<exists>s. t = js_trim s)"
    using t by (auto simp: trimmed_txid_def split: json.splits)
  then have "js_trim t = t" by (auto simp: js_trim_def [of "[]"])
  then show "trimmed_txid c = trimmed_txid tx" by (simp add: t) (simp add: c trimmed_txid_def)
  assume m: "matching_outputs_for_address c a m = Inr (Some outs)"
  show "matching_outputs_for_address tx a m = Inr (Some outs)"
  proof (cases "truthy (own_prop tx ''vout'')")
    case True
    then have "dogecoin_outputs c = dogecoin_outputs tx" by (simp add: c dogecoin_outputs_def)
    with m show ?thesis by (simp add: matching_outputs_for_address_def collect_matching_outputs_def)
  next
    case False
    then have "dogecoin_outputs c = Inr []" by (simp add: c dogecoin_outputs_def nullish_list_def is_nullish_def)
    with m show ?thesis
      by (simp add: matching_outputs_for_address_def collect_matching_outputs_def some_values_def)
  qed
qed

lemma watches_by_address_set: "set (concat (js_values (watches_by_address ws))) = set ws"
proof -
  define put :: "active_mempool_watch \<Rightarrow> _" where "put = (\<lambda>w m. js_set (aw_address w)
       ((case js_get m (aw_address w) of None \<Rightarrow> [] | Some l \<Rightarrow> l) @ [w]) m)"
  have values_set: "x \<in> set (concat (js_values m)) \<longleftrightarrow> (\<exists>k l. js_get m k = Some l \<and> x \<in> set l)" if "js_map_ok m"
    for m :: "(string, active_mempool_watch list) js_map" and x
  proof -
    have "set (js_values m) = {l. \<exists>k. js_get m k = Some l}"
      using that by (force simp: js_values_def js_map_ok_def js_keys_def map_of_eq_Some_iff)
    then show ?thesis by auto
  qed
  have "js_map_ok (fold put ws m) \<and> set (concat (js_values (fold put ws m))) = set (concat (js_values m)) \<union> set ws"
    if "js_map_ok m" for m
    using that
  proof (induction ws arbitrary: m)
    case Nil
    then show ?case by simp
  next
    case (Cons w ws)
    have ok: "js_map_ok (put w m)" using Cons.prems by (simp add: put_def js_map_ok_def js_keys_def distinct_update)
    let ?a = "aw_address w" and ?old = "case js_get m (aw_address w) of None \<Rightarrow> [] | Some l \<Rightarrow> l"
    have get: "js_get (put w m) k = (if k = ?a then Some (?old @ [w]) else js_get m k)" for k
      by (simp add: put_def js_get_set)
    have "(\<exists>k l. js_get (put w m) k = Some l \<and> x \<in> set l) \<longleftrightarrow> (\<exists>k l. js_get m k = Some l \<and> x \<in> set l) \<or> x = w" for x
    proof -
      have "(\<exists>k l. js_get (put w m) k = Some l \<and> x \<in> set l)
          \<longleftrightarrow> x \<in> set ?old \<or> x = w \<or> (\<exists>k l. k \<noteq> ?a \<and> js_get m k = Some l \<and> x \<in> set l)"
        unfolding get by (auto split: if_splits)
      moreover have "(\<exists>k l. js_get m k = Some l \<and> x \<in> set l)
          \<longleftrightarrow> x \<in> set ?old \<or> (\<exists>k l. k \<noteq> ?a \<and> js_get m k = Some l \<and> x \<in> set l)"
      proof (cases "js_get m ?a")
        case None
        then have "k \<noteq> ?a" if "js_get m k = Some l" for k l using that by auto
        with None show ?thesis by auto
      next
        case (Some l)
        then show ?thesis by (simp, cases "x \<in> set l") (blast, metis option.inject)
      qed
      ultimately show ?thesis by blast
    qed
    then have "x \<in> set (concat (js_values (put w m))) \<longleftrightarrow> x \<in> set (concat (js_values m)) \<union> {w}" for x
      unfolding values_set [OF ok] Un_iff values_set [OF Cons.prems] by simp
    then have "set (concat (js_values (put w m))) = set (concat (js_values m)) \<union> {w}" by (rule set_eqI)
    then show ?case using Cons.IH [OF ok] by auto
  qed
  from this [of "[]"] have "set (concat (js_values (fold put ws []))) = set ws"
    by (simp add: js_map_ok_def js_keys_def js_values_def)
  then show ?thesis by (simp only: watches_by_address_def put_def)
qed

text \<open>An appearance is explained by a watch of \<open>L\<close> and a transaction of \<open>S\<close> that it matches.\<close>

definition explained :: "json set \<Rightarrow> active_mempool_watch set \<Rightarrow> appear_event \<Rightarrow> bool" where
  "explained S L e \<longleftrightarrow> (\<exists>w \<in> L. \<exists>tx \<in> S.
     ae_watch_id e = aw_id w \<and> ae_api_key_id e = aw_api_key_id w \<and> ap_address e = aw_address w
     \<and> trimmed_txid tx = Inr (ap_txid e)
     \<and> matching_outputs_for_address tx (aw_address w) (aw_min_value_base w) = Inr (Some (ap_outputs e)))"

definition source_of :: "json set \<Rightarrow> json \<Rightarrow> bool" where
  "source_of S c \<longleftrightarrow> c \<in> S \<or> (\<exists>tx \<in> S. compact_transaction tx = Inr c)"

definition truthful :: "json set \<Rightarrow> active_mempool_watch set \<Rightarrow> nat \<Rightarrow> detector \<Rightarrow> bool" where
  "truthful S L size_limit s \<longleftrightarrow> (\<forall>e \<in> set (dd_events s). explained S L e)
     \<and> (\<forall>c \<in> set (js_values (dd_cache s)). source_of S c) \<and> set (all_watches s) \<subseteq> L
     \<and> js_map_ok (dd_cache s) \<and> length (dd_cache s) \<le> size_limit"

lemma publish_appear_cases:
  assumes "publish_appear ev s = (r, s')"
  shows "\<exists>es ps. (es = [] \<or> (\<exists>t. es = [ev t])) \<and> s' = s\<lparr>dd_events := dd_events s @ es, dd_publications := ps\<rparr>"
proof (cases "dd_publications s")
  case Nil
  with assms show ?thesis
    by (intro exI [of _ "[ev []]"] exI [of _ "[]"]) (auto simp: publish_appear_def Let_def)
next
  case (Cons p ps)
  obtain t f where p: "p = (t, f)" by (cases p)
  show ?thesis
  proof (cases "f = None \<or> (\<exists>e. f = Some (True, e))")
    case True
    with assms Cons p show ?thesis
      by (intro exI [of _ "[ev t]"] exI [of _ ps]) (auto simp: publish_appear_def Let_def)
  next
    case False
    with assms Cons p show ?thesis
      by (intro exI [of _ "[]"] exI [of _ ps]) (auto simp: publish_appear_def Let_def)
  qed
qed

lemma triple_publish:
  assumes "\<And>t. explained S L (ev t)"
  shows "triple (truthful S L n) (publish_appear ev) (\<lambda>_. truthful S L n) (truthful S L n)"
proof -
  have "truthful S L n s'" if "truthful S L n s" and "publish_appear ev s = (r, s')" for r s s'
    using publish_appear_cases [OF that(2)] that(1) assms
    by (elim exE conjE disjE) (simp_all add: truthful_def all_watches_def)
  then show ?thesis by (intro tripleI)
qed

lemma triple_match_watch:
  assumes c: "source_of S c" and w: "w \<in> L" and t: "trimmed_txid c = Inr t"
  shows "triple (truthful S L n) (match_watch c t source w) (\<lambda>_. truthful S L n) (truthful S L n)"
  unfolding match_watch_def
proof (rule triple_then_do [where R = "\<lambda>r s. truthful S L n s
      \<and> matching_outputs_for_address c (aw_address w) (aw_min_value_base w) = Inr r"])
  show "triple (truthful S L n) (lift_res (matching_outputs_for_address c (aw_address w) (aw_min_value_base w)))
     (\<lambda>r s. truthful S L n s \<and> matching_outputs_for_address c (aw_address w) (aw_min_value_base w) = Inr r)
     (truthful S L n)" by (rule triple_lift) simp_all
next
  fix r
  have "triple (truthful S L n) (case r of None \<Rightarrow> ret () | Some outs \<Rightarrow> publish_appear (appearance w outs source t))
     (\<lambda>_. truthful S L n) (truthful S L n)"
    if r: "matching_outputs_for_address c (aw_address w) (aw_min_value_base w) = Inr r"
  proof (cases r)
    case None
    then show ?thesis by (simp add: triple_ret)
  next
    case (Some outs)
    from c have "\<exists>tx \<in> S. trimmed_txid tx = Inr t
        \<and> matching_outputs_for_address tx (aw_address w) (aw_min_value_base w) = Inr (Some outs)"
      unfolding source_of_def using t r Some compact_facts by metis
    with w have "explained S L (appearance w outs source t at_text)" for at_text
      by (auto simp: explained_def appearance_def)
    then show ?thesis by (simp add: Some triple_publish)
  qed
  then show "triple (\<lambda>s. truthful S L n s \<and> matching_outputs_for_address c (aw_address w) (aw_min_value_base w) = Inr r)
     (case r of None \<Rightarrow> ret () | Some outs \<Rightarrow> publish_appear (appearance w outs source t))
     (\<lambda>_. truthful S L n) (truthful S L n)"
    by (subst conj_commute) (rule triple_assume)
qed

lemma triple_match_transaction:
  assumes "source_of S c" and "set ws \<subseteq> L"
  shows "triple (truthful S L n) (match_transaction c ws source) (\<lambda>_. truthful S L n) (truthful S L n)"
  unfolding match_transaction_def
proof (rule triple_then_do [where R = "\<lambda>t s. trimmed_txid c = Inr t \<and> truthful S L n s"])
  show "triple (truthful S L n) (lift_res (trimmed_txid c))
     (\<lambda>t s. trimmed_txid c = Inr t \<and> truthful S L n s) (truthful S L n)" by (rule triple_lift) simp_all
qed (use assms in \<open>auto intro!: triple_assume triple_if triple_ret triple_for_each triple_match_watch\<close>)

lemma triple_match_cached:
  assumes "\<forall>c \<in> set txs. source_of S c" and "set ws \<subseteq> L"
  shows "triple (truthful S L n) (match_cached_transactions ws source txs) (\<lambda>_. truthful S L n) (truthful S L n)"
  unfolding match_cached_transactions_def using assms by (intro triple_for_each triple_match_transaction) auto

text \<open>Storing the status touches only the configuration.\<close>

lemma triple_call_fault: "triple P m Q E \<Longrightarrow> (\<And>s. P s \<Longrightarrow> E s) \<Longrightarrow> triple P (with_call_fault f m) Q E"
  by (auto simp: with_call_fault_def split: option.splits intro: triple_throw)

lemma triple_persist:
  assumes store: "\<And>s c. P s \<Longrightarrow> P (s\<lparr>dd_config := c\<rparr>)"
  shows "triple P (persist_detector_status dt opts degraded observed turns) (\<lambda>_. P) P"
proof -
  have others: "triple P (others_store v) (\<lambda>_. P) P" for v
    unfolding others_store_def by (rule triple_change) (auto simp: store split: option.splits)
  have swap: "triple P (swap_status f current v) (\<lambda>_. P) P" for f current v
    by (rule tripleI) (auto simp: swap_status_def store split: prod.splits option.splits if_splits)
  have "triple P (persist_attempts dt opts degraded observed ts) (\<lambda>_. P) P" for ts
  proof (induction ts)
    case Nil
    then show ?case by (simp add: triple_throw)
  next
    case (Cons t ts)
    have read: "triple P (with_call_fault (st_read_fault t)
        (get_field (\<lambda>s. get_json_value detector_status_key (dd_config s)))) (\<lambda>_. P) P"
      by (intro triple_call_fault triple_get) simp_all
    show ?case
      unfolding persist_attempts.simps Let_def
      by (intro triple_and_do [OF others] triple_then_do [OF read] triple_if triple_ret
          triple_then_do [OF swap] Cons.IH)
  qed
  then show ?thesis unfolding persist_detector_status_def .
qed

lemma keep_cached_get:
  "js_get (keep_cached cache txids) k = (if k \<in> set txids then js_get cache k else None)"
proof -
  have "js_get (fold (\<lambda>t m. case js_get cache t of Some c \<Rightarrow> js_set t c m | None \<Rightarrow> m) txids m) k
      = (if k \<in> set txids \<and> js_get cache k \<noteq> None then js_get cache k else js_get m k)" for m
    by (induction txids arbitrary: m) (auto simp: js_get_set split: option.splits)
  then show ?thesis by (auto simp: keep_cached_def)
qed

lemma keep_cached_ok: "js_map_ok (keep_cached cache txids)"
proof -
  have "js_map_ok (fold (\<lambda>t m. case js_get cache t of Some c \<Rightarrow> js_set t c m | None \<Rightarrow> m) txids m)" if "js_map_ok m" for m
    using that
    by (induction txids arbitrary: m) (auto simp: js_map_ok_def js_keys_def distinct_update split: option.splits)
  then show ?thesis by (simp add: keep_cached_def js_map_ok_def js_keys_def)
qed

lemma js_values_get: "js_map_ok m \<Longrightarrow> set (js_values m) = {v. \<exists>k. js_get m k = Some v}"
  by (force simp: js_values_def js_map_ok_def js_keys_def map_of_eq_Some_iff)

lemma js_map_length:
  assumes "js_map_ok m" and "\<And>k v. js_get m k = Some v \<Longrightarrow> k \<in> set ks"
  shows "length m \<le> length ks"
proof -
  have "set (js_keys m) \<subseteq> set ks"
    using assms by (force simp: js_keys_def js_map_ok_def map_of_eq_Some_iff)
  then have "card (set (js_keys m)) \<le> length ks" by (meson card_length card_mono dual_order.trans finite_set)
  moreover have "card (set (js_keys m)) = length (js_keys m)"
    using assms(1) by (simp add: js_map_ok_def distinct_card)
  ultimately show ?thesis by (simp add: js_keys_def)
qed

text \<open>
  The cache after a synchronisation and the transactions that are new: entries of the node's answer,
  kept from the old cache or compacted from an answer.
\<close>

definition hydrated_ok ::
  "(string \<times> json) list \<Rightarrow> json list \<Rightarrow> (string, json) js_map \<Rightarrow> (string, json) js_map \<times> json list \<Rightarrow> bool" where
  "hydrated_ok entries records old = (\<lambda>(cache, new).
     js_map_ok cache
     \<and> (\<forall>c \<in> set new. \<exists>r \<in> set records. compact_transaction r = Inr c
           \<and> (\<exists>t. trimmed_txid c = Inr t \<and> t \<noteq> [] \<and> js_get entries t \<noteq> None \<and> js_get cache t \<noteq> None))
     \<and> (\<forall>t c. js_get cache t = Some c \<longrightarrow> t \<in> fst ` set entries \<and> (js_get old t = Some c \<or> c \<in> set new))
     \<and> (\<forall>t. js_get old t \<noteq> None \<longrightarrow> t \<in> fst ` set entries \<longrightarrow> js_get cache t \<noteq> None))"

lemma add_hydrated_ok:
  assumes "fold_res (add_hydrated entries) records (keep_cached old (map fst entries), []) = Inr p"
  shows "hydrated_ok entries records old p"
  using assms
proof (rule fold_res_invariant)
  show "hydrated_ok entries records old (keep_cached old (map fst entries), [])"
    by (auto simp: hydrated_ok_def keep_cached_ok keep_cached_get split: if_splits)
next
  fix r q q'
  assume r: "r \<in> set records" and q: "hydrated_ok entries records old q" and step: "add_hydrated entries r q = Inr q'"
  obtain cache new where q_def: "q = (cache, new)" by (cases q)
  show "hydrated_ok entries records old q'"
  proof (cases "q' = q")
    case False
    then obtain c t where c: "compact_transaction r = Inr c" "trimmed_txid c = Inr t" "t \<noteq> []" "js_get entries t \<noteq> None"
      and q': "q' = (js_set t c cache, new @ [c])"
      using step by (auto simp: q_def add_hydrated_def and_then_Inr_iff split: if_splits)
    have get: "js_get (js_set t c cache) k = (if k = t then Some c else js_get cache k)" for k by (simp add: js_get_set)
    have "js_map_ok (js_set t c cache)"
      using q by (simp add: q_def hydrated_ok_def js_map_ok_def js_keys_def distinct_update)
    moreover have "t \<in> fst ` set entries" using c(4) by (metis map_of_eq_None_iff)
    moreover have "\<exists>r \<in> set records. compact_transaction r = Inr c'
        \<and> (\<exists>t'. trimmed_txid c' = Inr t' \<and> t' \<noteq> [] \<and> js_get entries t' \<noteq> None \<and> js_get (js_set t c cache) t' \<noteq> None)"
      if "c' \<in> set (new @ [c])" for c'
    proof (cases "c' = c")
      case True
      then show ?thesis using r c by (auto simp: get)
    next
      case False
      with that have "c' \<in> set new" by simp
      then obtain r' t' where "r' \<in> set records" "compact_transaction r' = Inr c'" "trimmed_txid c' = Inr t'"
          "t' \<noteq> []" "js_get entries t' \<noteq> None" "js_get cache t' \<noteq> None"
        using q unfolding q_def hydrated_ok_def prod.case by blast
      then show ?thesis unfolding get by (intro bexI [of _ r'] conjI exI [of _ t']) auto
    qed
    moreover have "k \<in> fst ` set entries \<and> (js_get old k = Some c' \<or> c' \<in> set (new @ [c]))"
      if "js_get (js_set t c cache) k = Some c'" for k c'
    proof (cases "k = t")
      case True
      then show ?thesis using that \<open>t \<in> fst ` set entries\<close> by (simp add: get)
    next
      case False
      with that have "js_get cache k = Some c'" by (simp add: get)
      then have "k \<in> fst ` set entries \<and> (js_get old k = Some c' \<or> c' \<in> set new)"
        using q unfolding q_def hydrated_ok_def prod.case by blast
      then show ?thesis by auto
    qed
    moreover have "js_get (js_set t c cache) k \<noteq> None" if "js_get old k \<noteq> None" "k \<in> fst ` set entries" for k
      using that q unfolding q_def hydrated_ok_def prod.case get by auto
    ultimately show ?thesis unfolding q' hydrated_ok_def prod.case by blast
  qed (use q in simp)
qed

definition answered :: "node_answers \<Rightarrow> json set" where
  "answered a = {r. \<exists>txids rs. na_transactions a txids = Inr rs \<and> r \<in> set rs}"

lemma map_res_image: "map_res f xs = Inr ys \<Longrightarrow> y \<in> set ys \<Longrightarrow> \<exists>x \<in> set xs. f x = Inr y"
  by (induction xs arbitrary: ys) (auto simp: and_then_Inr_iff)

lemma hydrate_answered:
  assumes "hydrate n (na_transactions a) txids = Inr rs" shows "set rs \<subseteq> answered a"
proof
  fix r assume "r \<in> set rs"
  with assms obtain rss part where "map_res (na_transactions a) (chunk_array n txids) = Inr rss"
      "part \<in> set rss" "r \<in> set part"
    by (auto simp: hydrate_def and_then_Inr_iff)
  moreover from this map_res_image [of "na_transactions a" _ rss part] obtain ids where "na_transactions a ids = Inr part"
    by blast
  ultimately show "r \<in> answered a" by (auto simp: answered_def)
qed

lemma truthful_config: "truthful S L n s \<Longrightarrow> truthful S L n (s\<lparr>dd_config := c\<rparr>)"
  by (simp add: truthful_def all_watches_def)

lemma triple_persist_truthful:
  "triple (truthful S L n) (persist_detector_status dt opts degraded observed turns) (\<lambda>_. truthful S L n) (truthful S L n)"
  by (rule triple_persist) (rule truthful_config)

lemma truthful_cache:
  assumes "truthful S L n s" and "js_map_ok c" "length c \<le> n" "\<forall>v \<in> set (js_values c). source_of S v"
  shows "truthful S L n (s\<lparr>dd_cache := c\<rparr>)"
  using assms by (simp add: truthful_def all_watches_def)

lemma truthful_hydrated:
  assumes s: "truthful S L n s" and p: "hydrated_ok entries records (dd_cache s) (cache, new)"
    and records: "set records \<subseteq> S" and small: "length entries \<le> n"
  shows "truthful S L n (s\<lparr>dd_cache := cache\<rparr>)" and "\<forall>c \<in> set new. source_of S c"
proof -
  from p records show new: "\<forall>c \<in> set new. source_of S c"
    unfolding hydrated_ok_def source_of_def prod.case by blast
  have ok: "js_map_ok cache" and old: "\<And>t c. js_get cache t = Some c \<Longrightarrow> t \<in> fst ` set entries
      \<and> (js_get (dd_cache s) t = Some c \<or> c \<in> set new)"
    using p unfolding hydrated_ok_def prod.case by blast+
  have "length cache \<le> length (map fst entries)" using js_map_length [OF ok, of "map fst entries"] old by simp
  moreover have "source_of S v" if v: "v \<in> set (js_values cache)" for v
  proof -
    from v obtain t where "js_get cache t = Some v" unfolding js_values_get [OF ok] by blast
    from old [OF this] consider "js_get (dd_cache s) t = Some v" | "v \<in> set new" by blast
    then show ?thesis
    proof cases
      case 1
      from s have "js_map_ok (dd_cache s)" by (simp add: truthful_def)
      with 1 have "v \<in> set (js_values (dd_cache s))" by (auto simp: js_values_get)
      with s show ?thesis by (simp add: truthful_def)
    qed (use new in blast)
  qed
  ultimately show "truthful S L n (s\<lparr>dd_cache := cache\<rparr>)" using truthful_cache [OF s ok] small by simp
qed

text \<open>An invariant of the synchronisation, from its parts; \<open>good\<close> is what the invariant says of the new transactions.\<close>

lemma triple_synchronize_rule:
  assumes config: "\<And>s c. I s \<Longrightarrow> I (s\<lparr>dd_config := c\<rparr>)"
    and large: "\<And>entries s. na_entries a = Inr entries \<Longrightarrow> do_cache_max_txids opts < length entries \<Longrightarrow> I s
      \<Longrightarrow> I (s\<lparr>dd_cache := []\<rparr>)"
    and adopt: "\<And>entries records p s. na_entries a = Inr entries \<Longrightarrow> length entries \<le> do_cache_max_txids opts \<Longrightarrow> I s
      \<Longrightarrow> hydrate (do_rpc_batch_size opts) (na_transactions a) (missing_txids (dd_cache s) (map fst entries)) = Inr records
      \<Longrightarrow> hydrated_ok entries records (dd_cache s) p
      \<Longrightarrow> I (s\<lparr>dd_cache := fst p\<rparr>) \<and> (\<forall>c \<in> set (snd p). good c)"
    and match: "\<And>new ws. source = Live \<Longrightarrow> \<forall>c \<in> set new. good c
      \<Longrightarrow> triple (\<lambda>s. ws = all_watches s \<and> I s) (match_cached_transactions (if new = [] then [] else ws) source new) (\<lambda>_. I) I"
  shows "triple I (synchronize_mempool dt opts source a) (\<lambda>_. I) I"
proof -
  have lift: "triple P (lift_res r) (\<lambda>x s. r = Inr x \<and> P s) I" if "\<And>s. P s \<Longrightarrow> I s" for P and r :: "'x res"
    using that by (intro triple_lift) auto
  have persist: "triple I (persist_detector_status dt opts d observed turns) (\<lambda>_. I) I" for d observed turns
    by (rule triple_persist) (rule config)
  have go: "triple (\<lambda>s. I (s\<lparr>dd_cache := fst p\<rparr>) \<and> (\<forall>c \<in> set (snd p). good c) \<and> I s)
      (adopt_mempool dt opts source a observed p) (\<lambda>_. I) I" for p observed
    unfolding adopt_mempool_def
  proof (rule triple_and_do [where R = "\<lambda>s. (\<forall>c \<in> set (snd p). good c) \<and> I s"])
    show "triple (\<lambda>s. I (s\<lparr>dd_cache := fst p\<rparr>) \<and> (\<forall>c \<in> set (snd p). good c) \<and> I s)
        (change (\<lambda>s. s\<lparr>dd_cache := fst p\<rparr>)) (\<lambda>_ s. (\<forall>c \<in> set (snd p). good c) \<and> I s) I"
      by (rule triple_change) simp
    show "triple (\<lambda>s. (\<forall>c \<in> set (snd p). good c) \<and> I s)
        (and_do (persist_detector_status dt opts False observed (na_status a))
          (if source = Live then then_do (get_field all_watches)
             (\<lambda>ws. match_cached_transactions (if snd p = [] then [] else ws) source (snd p)) else ret ())) (\<lambda>_. I) I"
      by (rule triple_assume, rule triple_and_do, rule persist, rule triple_if, rule triple_then_do, rule triple_get,
          erule conjI [OF refl], erule match, assumption, rule triple_ret)
  qed
  have small: "triple (\<lambda>s. (cache = dd_cache s \<and> I s))
      (then_do (lift_res (hydrate (do_rpc_batch_size opts) (na_transactions a) (missing_txids cache (map fst entries)))) (\<lambda>records.
       then_do (lift_res (fold_res (add_hydrated entries) records (keep_cached cache (map fst entries), [])))
         (adopt_mempool dt opts source a (length (map fst entries))))) (\<lambda>_. I) I"
    if e: "na_entries a = Inr entries" "length entries \<le> do_cache_max_txids opts" for cache entries
    by (rule triple_then_do, rule lift, simp, rule triple_assume, rule triple_then_do, rule lift, simp, rule triple_assume,
        rule triple_pre [OF go]) (use adopt [OF e] add_hydrated_ok in blast)
  have body: "triple I (if do_cache_max_txids opts < length (map fst entries)
      then and_do (change (\<lambda>s. s\<lparr>dd_cache := []\<rparr>)) (persist_detector_status dt opts True (length (map fst entries)) (na_status a))
      else then_do (get_field dd_cache) (\<lambda>cache.
       then_do (lift_res (hydrate (do_rpc_batch_size opts) (na_transactions a) (missing_txids cache (map fst entries)))) (\<lambda>records.
       then_do (lift_res (fold_res (add_hydrated entries) records (keep_cached cache (map fst entries), [])))
         (adopt_mempool dt opts source a (length (map fst entries)))))) (\<lambda>_. I) I" if e: "na_entries a = Inr entries" for entries
  proof (rule triple_if)
    assume "do_cache_max_txids opts < length (map fst entries)"
    with large [OF e] show "triple I (and_do (change (\<lambda>s. s\<lparr>dd_cache := []\<rparr>))
        (persist_detector_status dt opts True (length (map fst entries)) (na_status a))) (\<lambda>_. I) I"
      by (intro triple_and_do [OF triple_change persist]) simp
  next
    assume "\<not> do_cache_max_txids opts < length (map fst entries)"
    then have le: "length entries \<le> do_cache_max_txids opts" by simp
    show "triple I (then_do (get_field dd_cache) (\<lambda>cache.
       then_do (lift_res (hydrate (do_rpc_batch_size opts) (na_transactions a) (missing_txids cache (map fst entries)))) (\<lambda>records.
       then_do (lift_res (fold_res (add_hydrated entries) records (keep_cached cache (map fst entries), [])))
         (adopt_mempool dt opts source a (length (map fst entries)))))) (\<lambda>_. I) I"
      by (rule triple_then_do [OF _ small [OF e le]], rule triple_get) simp
  qed
  show ?thesis
    unfolding synchronize_mempool_def Let_def
    by (rule triple_then_do [where R = "\<lambda>_. I"], rule triple_lift, assumption, assumption, rule triple_then_do,
        rule lift, assumption, rule triple_assume, erule body)
qed

lemma triple_synchronize:
  assumes a: "answered a \<subseteq> S"
  shows "triple (truthful S L (do_cache_max_txids opts)) (synchronize_mempool dt opts source a)
    (\<lambda>_. truthful S L (do_cache_max_txids opts)) (truthful S L (do_cache_max_txids opts))"
    (is "triple ?T _ _ _")
proof (rule triple_synchronize_rule [where good = "source_of S"])
  fix s c assume "?T s"
  then show "?T (s\<lparr>dd_config := c\<rparr>)" by (rule truthful_config)
next
  fix s assume "?T s"
  then show "?T (s\<lparr>dd_cache := []\<rparr>)" by (rule truthful_cache) (simp_all add: js_map_ok_def js_keys_def js_values_def)
next
  fix entries records p s
  assume "length entries \<le> do_cache_max_txids opts" "?T s" "hydrated_ok entries records (dd_cache s) p"
    "hydrate (do_rpc_batch_size opts) (na_transactions a) (missing_txids (dd_cache s) (map fst entries)) = Inr records"
  then show "?T (s\<lparr>dd_cache := fst p\<rparr>) \<and> (\<forall>c \<in> set (snd p). source_of S c)"
    using truthful_hydrated [of S L _ s entries records "fst p" "snd p"] hydrate_answered a by (metis order_trans prod.collapse)
next
  fix new ws assume new: "\<forall>c \<in> set new. source_of S c"
  have "triple (\<lambda>s. set ws \<subseteq> L \<and> ?T s) (match_cached_transactions (if new = [] then [] else ws) source new) (\<lambda>_. ?T) ?T"
    by (rule triple_assume, rule triple_match_cached [OF new]) simp
  then show "triple (\<lambda>s. ws = all_watches s \<and> ?T s)
      (match_cached_transactions (if new = [] then [] else ws) source new) (\<lambda>_. ?T) ?T"
    by (rule triple_pre) (auto simp: truthful_def)
qed

lemma triple_refresh:
  assumes a: "answered a \<subseteq> S" and listing: "\<And>ws. listing = Inr ws \<Longrightarrow> set ws \<subseteq> L"
  shows "triple (truthful S L (do_cache_max_txids opts)) (refresh_watches dt opts listing a)
    (\<lambda>_. truthful S L (do_cache_max_txids opts)) (truthful S L (do_cache_max_txids opts))"
    (is "triple ?T _ _ _")
proof -
  have match: "triple ?T (then_do (get_field (\<lambda>s. js_values (dd_cache s))) (\<lambda>txs.
      match_cached_transactions (filter p ws) Catchup txs)) (\<lambda>_. ?T) ?T" if ws: "set ws \<subseteq> L" for p ws
  proof (rule triple_then_do [where R = "\<lambda>txs s. (\<forall>c \<in> set txs. source_of S c) \<and> ?T s"])
    show "triple ?T (get_field (\<lambda>s. js_values (dd_cache s))) (\<lambda>txs s. (\<forall>c \<in> set txs. source_of S c) \<and> ?T s) ?T"
      by (rule triple_get) (simp add: truthful_def)
    show "triple (\<lambda>s. (\<forall>c \<in> set txs. source_of S c) \<and> ?T s)
        (match_cached_transactions (filter p ws) Catchup txs) (\<lambda>_. ?T) ?T" for txs
      by (rule triple_assume, rule triple_match_cached) (use ws in auto)
  qed
  have known: "triple ?T (change (\<lambda>s. s\<lparr>dd_watches := watches_by_address ws\<rparr>)) (\<lambda>_. ?T) ?T"
    if "set ws \<subseteq> L" for ws
    using that watches_by_address_set [of ws] by (intro triple_change) (simp add: truthful_def all_watches_def)
  have rest: "triple ?T (if ws = [] then ret () else and_do (synchronize_mempool dt opts Catchup a)
      (then_do (get_field (\<lambda>s. js_values (dd_cache s))) (\<lambda>txs.
       match_cached_transactions (filter p ws) Catchup txs))) (\<lambda>_. ?T) ?T" if "set ws \<subseteq> L" for p ws
    by (rule triple_if, rule triple_ret, assumption, rule triple_and_do, rule triple_synchronize [OF a], rule match [OF that])
  have get: "triple ?T (get_field f) (\<lambda>_. ?T) ?T" for f :: "detector \<Rightarrow> 'x" by (rule triple_get)
  have lift: "triple ?T (lift_res listing) (\<lambda>ws s. set ws \<subseteq> L \<and> ?T s) ?T" using listing by (intro triple_lift) auto
  show ?thesis
    unfolding refresh_watches_def
    by (rule triple_then_do, rule get, rule triple_then_do, rule lift, rule triple_assume, rule triple_and_do,
        erule known, erule rest)
qed

lemma triple_decoded:
  assumes tx: "tx \<in> S"
  shows "triple (truthful S L (do_cache_max_txids opts)) (handle_decoded_transaction opts tx source)
    (\<lambda>_. truthful S L (do_cache_max_txids opts)) (truthful S L (do_cache_max_txids opts))"
    (is "triple ?T _ _ _")
proof -
  have lift: "triple ?T (lift_res r) (\<lambda>x s. r = Inr x \<and> ?T s) ?T" for r :: "'x res" by (rule triple_lift) auto
  have get: "triple ?T (get_field f) (\<lambda>_. ?T) ?T" for f :: "detector \<Rightarrow> 'x" by (rule triple_get)
  have store: "triple ?T (change (\<lambda>s. if js_get (dd_cache s) txid = None \<and> length (dd_cache s) < do_cache_max_txids opts
        then s\<lparr>dd_cache := js_set txid compact (dd_cache s)\<rparr> else s)) (\<lambda>_. ?T) ?T"
    if c: "compact_transaction tx = Inr compact" for txid compact
  proof (rule triple_change)
    fix s assume s: "?T s"
    have add: "?T (s\<lparr>dd_cache := js_set txid compact (dd_cache s)\<rparr>)"
      if new: "js_get (dd_cache s) txid = None" and room: "length (dd_cache s) < do_cache_max_txids opts"
    proof (rule truthful_cache [OF s])
      have ok: "js_map_ok (dd_cache s)" using s by (simp add: truthful_def)
      then show ok': "js_map_ok (js_set txid compact (dd_cache s))" by (simp add: js_map_ok_def js_keys_def distinct_update)
      have "length (js_set txid compact m) \<le> Suc (length m)" for m :: "(string, json) js_map"
        by (induction m) auto
      then show "length (js_set txid compact (dd_cache s)) \<le> do_cache_max_txids opts"
        using room by (meson Suc_leI le_trans)
      have "source_of S compact" using tx c by (auto simp: source_of_def)
      then show "\<forall>v \<in> set (js_values (js_set txid compact (dd_cache s))). source_of S v"
        using s by (auto simp: truthful_def js_values_get [OF ok] js_values_get [OF ok'] js_get_set split: if_splits)
    qed
    show "?T (if js_get (dd_cache s) txid = None \<and> length (dd_cache s) < do_cache_max_txids opts
        then s\<lparr>dd_cache := js_set txid compact (dd_cache s)\<rparr> else s)" using s add by simp
  qed
  have match: "triple ?T (then_do (get_field all_watches) (\<lambda>ws. match_transaction tx ws source)) (\<lambda>_. ?T) ?T"
  proof (rule triple_then_do [where R = "\<lambda>ws s. set ws \<subseteq> L \<and> ?T s"])
    show "triple ?T (get_field all_watches) (\<lambda>ws s. set ws \<subseteq> L \<and> ?T s) ?T" by (rule triple_get) (simp add: truthful_def)
    show "triple (\<lambda>s. set ws \<subseteq> L \<and> ?T s) (match_transaction tx ws source) (\<lambda>_. ?T) ?T" for ws
      by (rule triple_assume, rule triple_match_transaction) (use tx in \<open>auto simp: source_of_def\<close>)
  qed
  show ?thesis
    unfolding handle_decoded_transaction_def
    by (rule triple_then_do, rule lift, rule triple_assume, rule triple_if, rule triple_ret, assumption,
        rule triple_then_do, rule lift, rule triple_assume, rule triple_and_do, erule store,
        rule triple_then_do, rule get, rule triple_if, rule triple_ret, assumption, rule match)
qed

text \<open>What a piece of work may learn: the transactions of its answers and the watches of its listing.\<close>

fun work_transactions :: "detector_work \<Rightarrow> json set" where
  "work_transactions (Refresh _ a) = answered a"
| "work_transactions (Poll a) = answered a"
| "work_transactions (Raw_Transaction _ tx) = {t. tx = Inr t}"

fun work_watches :: "detector_work \<Rightarrow> active_mempool_watch set" where
  "work_watches (Refresh listing _) = {w. \<exists>ws. listing = Inr ws \<and> w \<in> set ws}"
| "work_watches _ = {}"

lemma detector_step_truthful:
  assumes S: "work_transactions x \<subseteq> S" and L: "work_watches x \<subseteq> L"
    and s: "truthful S L (do_cache_max_txids opts) s"
  shows "truthful S L (do_cache_max_txids opts) (detector_step dt opts x s)"
proof (cases x)
  case (Refresh listing a)
  with S L show ?thesis by (auto intro!: triple_final [OF triple_refresh s])
next
  case (Poll a)
  have "triple (truthful S L (do_cache_max_txids opts)) (poll_turn dt opts a)
      (\<lambda>_. truthful S L (do_cache_max_txids opts)) (truthful S L (do_cache_max_txids opts))"
    unfolding poll_turn_def
    by (rule triple_catch, rule triple_then_do, rule triple_get, assumption, rule triple_if, rule triple_ret, assumption,
        rule triple_synchronize, (use S Poll in simp), rule triple_ret)
  from triple_final [OF this s] show ?thesis by (simp add: Poll)
next
  case (Raw_Transaction watched tx)
  have lift: "triple (truthful S L (do_cache_max_txids opts)) (lift_res tx)
      (\<lambda>t s. tx = Inr t \<and> truthful S L (do_cache_max_txids opts) s) (truthful S L (do_cache_max_txids opts))"
    by (rule triple_lift) auto
  have "triple (truthful S L (do_cache_max_txids opts)) (handle_raw_tx_hex opts watched tx)
      (\<lambda>_. truthful S L (do_cache_max_txids opts)) (truthful S L (do_cache_max_txids opts))"
    unfolding handle_raw_tx_hex_def
    by (rule triple_if, rule triple_ret, assumption, rule triple_catch, rule triple_then_do, rule lift, rule triple_assume,
        rule triple_if, rule triple_ret, assumption, rule triple_decoded, (use S Raw_Transaction in simp), rule triple_ret)
  from triple_final [OF this s] show ?thesis by (simp add: Raw_Transaction)
qed

text \<open>
  C22. Every appearance is true and the cache stays bounded. Whatever the node, the registry, the bus and
  other instances answer, and wherever they fail, after any sequence of refreshes, polls and raw
  transactions every published event names a watch the registry listed, with its key and address, and a
  transaction the node delivered, whose trimmed id it carries and whose outputs it lists exactly as that
  watch matches them; and the detector holds at most the configured number of transactions.
\<close>

theorem detector_events_true:
  "let s = detector_run dt opts works (new_detector c ps) in
     (\<forall>e \<in> set (dd_events s). \<exists>w \<in> \<Union> (work_watches ` set works). \<exists>tx \<in> \<Union> (work_transactions ` set works).
        ae_watch_id e = aw_id w \<and> ae_api_key_id e = aw_api_key_id w \<and> ap_address e = aw_address w
        \<and> trimmed_txid tx = Inr (ap_txid e)
        \<and> matching_outputs_for_address tx (aw_address w) (aw_min_value_base w) = Inr (Some (ap_outputs e)))
     \<and> length (dd_cache s) \<le> do_cache_max_txids opts"
proof -
  let ?S = "\<Union> (work_transactions ` set works)" and ?L = "\<Union> (work_watches ` set works)"
  have "truthful ?S ?L (do_cache_max_txids opts) (fold (detector_step dt opts) xs s)"
    if "truthful ?S ?L (do_cache_max_txids opts) s" and "set xs \<subseteq> set works" for xs s
    using that by (induction xs arbitrary: s) (auto intro!: detector_step_truthful)
  moreover have "truthful ?S ?L (do_cache_max_txids opts) (new_detector c ps)"
    by (simp add: truthful_def new_detector_def all_watches_def js_values_def js_map_ok_def js_keys_def)
  ultimately have "truthful ?S ?L (do_cache_max_txids opts) (detector_run dt opts works (new_detector c ps))"
    by (simp add: detector_run_def)
  then show ?thesis by (simp add: truthful_def explained_def Let_def)
qed

section \<open>What is reported\<close>

definition undated :: "appear_event \<Rightarrow> appear_event" where
  "undated e = e\<lparr>ap_detected_at := []\<rparr>"

definition appearances :: "active_mempool_watch list \<Rightarrow> appear_source \<Rightarrow> json \<Rightarrow> appear_event list" where
  "appearances ws source tx =
     (case trimmed_txid tx of
        Inl _ \<Rightarrow> []
      | Inr t \<Rightarrow> if t = [] then [] else concat (map (\<lambda>w.
          case matching_outputs_for_address tx (aw_address w) (aw_min_value_base w) of
            Inr (Some outs) \<Rightarrow> [appearance w outs source t []] | _ \<Rightarrow> []) ws))"

text \<open>\<open>reports es s s'\<close>: \<open>s'\<close> differs from \<open>s\<close> only by the events \<open>es\<close>, up to their times, and the script.\<close>

definition reports :: "appear_event list \<Rightarrow> detector \<Rightarrow> detector \<Rightarrow> bool" where
  "reports es s s' \<longleftrightarrow> map undated (dd_events s') = map undated (dd_events s) @ es
     \<and> dd_cache s' = dd_cache s \<and> dd_watches s' = dd_watches s \<and> dd_config s' = dd_config s"

lemma reports_refl: "reports [] s s"
  by (simp add: reports_def)

lemma reports_trans: "reports es s s1 \<Longrightarrow> reports fs s1 s2 \<Longrightarrow> reports (es @ fs) s s2"
  by (simp add: reports_def)

lemma publish_reports:
  assumes "publish_appear ev s = (Inr (), s')" and "\<And>t. undated (ev t) = e"
  shows "reports [e] s s'"
proof (cases "dd_publications s")
  case Nil
  with assms show ?thesis by (auto simp: publish_appear_def reports_def)
next
  case (Cons p ps)
  with assms show ?thesis
    by (cases p; cases "snd p") (auto simp: publish_appear_def reports_def Let_def split: prod.splits)
qed

lemma for_each_reports:
  assumes "for_each f xs s = (Inr (), s')"
    and "\<And>x s s'. x \<in> set xs \<Longrightarrow> f x s = (Inr (), s') \<Longrightarrow> reports (g x) s s'"
  shows "reports (concat (map g xs)) s s'"
  using assms
proof (induction xs arbitrary: s)
  case Nil
  then show ?case by (simp add: ret_def reports_refl)
next
  case (Cons x xs)
  from Cons.prems(1) obtain s1 where "f x s = (Inr (), s1)" and rest: "for_each f xs s1 = (Inr (), s')"
    by (auto simp: and_do_def then_do_Inr)
  then have "reports (g x) s s1" using Cons.prems(2) [of x] by simp
  moreover have "reports (concat (map g xs)) s1 s'" using Cons.IH [OF rest] Cons.prems(2) by simp
  ultimately show ?case using reports_trans by fastforce
qed

lemma match_reports:
  assumes "match_transaction tx ws source s = (Inr (), s')"
  shows "reports (appearances ws source tx) s s'"
proof -
  from assms obtain t where t: "trimmed_txid tx = Inr t"
    and run: "(if t = [] then ret () else for_each (match_watch tx t source) ws) s = (Inr (), s')"
    by (auto simp: match_transaction_def then_do_Inr lift_res_def)
  show ?thesis
  proof (cases "t = []")
    case True
    with run show ?thesis by (simp add: appearances_def t ret_def reports_refl)
  next
    case False
    have step: "reports (case matching_outputs_for_address tx (aw_address w) (aw_min_value_base w) of
        Inr (Some outs) \<Rightarrow> [appearance w outs source t []] | _ \<Rightarrow> []) u u'"
      if m: "match_watch tx t source w u = (Inr (), u')" for w u u'
    proof -
      from m obtain r where r: "matching_outputs_for_address tx (aw_address w) (aw_min_value_base w) = Inr r"
        and go: "(case r of None \<Rightarrow> ret () | Some outs \<Rightarrow> publish_appear (appearance w outs source t)) u = (Inr (), u')"
        by (auto simp: match_watch_def then_do_Inr lift_res_def)
      show ?thesis
      proof (cases r)
        case None
        with go show ?thesis by (simp add: r ret_def reports_refl)
      next
        case (Some outs)
        with go have "publish_appear (appearance w outs source t) u = (Inr (), u')" by simp
        from publish_reports [OF this, of "appearance w outs source t []"] show ?thesis
          by (simp add: r Some undated_def appearance_def)
      qed
    qed
    from run False have "for_each (match_watch tx t source) ws s = (Inr (), s')" by simp
    from for_each_reports [OF this step] show ?thesis using False by (simp add: appearances_def t)
  qed
qed

lemma match_cached_reports:
  "match_cached_transactions ws source txs s = (Inr (), s') \<Longrightarrow>
     reports (concat (map (appearances ws source) txs)) s s'"
  unfolding match_cached_transactions_def by (rule for_each_reports) (auto intro: match_reports)

lemma persist_keeps:
  assumes "persist_detector_status dt opts degraded observed turns s = (r, s')"
  shows "dd_events s' = dd_events s" "dd_cache s' = dd_cache s" "dd_watches s' = dd_watches s"
proof -
  let ?P = "\<lambda>u. dd_events u = dd_events s \<and> dd_cache u = dd_cache s \<and> dd_watches u = dd_watches s"
  have "triple ?P (persist_detector_status dt opts degraded observed turns) (\<lambda>_. ?P) ?P"
    by (rule triple_persist) simp
  from triple_final [OF this, of s] assms
  show "dd_events s' = dd_events s" "dd_cache s' = dd_cache s" "dd_watches s' = dd_watches s" by simp_all
qed

lemma synchronize_small:
  assumes "synchronize_mempool dt opts source a s = (Inr (), s')"
    and entries: "na_entries a = Inr entries" and small: "length entries \<le> do_cache_max_txids opts"
  obtains records cache new where
    "hydrate (do_rpc_batch_size opts) (na_transactions a) (missing_txids (dd_cache s) (map fst entries)) = Inr records"
    "fold_res (add_hydrated entries) records (keep_cached (dd_cache s) (map fst entries), []) = Inr (cache, new)"
    "map undated (dd_events s') = map undated (dd_events s)
       @ (if source = Live then concat (map (appearances (all_watches s) Live) new) else [])"
    "dd_cache s' = cache" "dd_watches s' = dd_watches s"
proof -
  from assms obtain records p where
    h: "hydrate (do_rpc_batch_size opts) (na_transactions a) (missing_txids (dd_cache s) (map fst entries)) = Inr records"
    and p: "fold_res (add_hydrated entries) records (keep_cached (dd_cache s) (map fst entries), []) = Inr p"
    and adopt: "adopt_mempool dt opts source a (length entries) p s = (Inr (), s')"
    by (auto simp: synchronize_mempool_def then_do_Inr lift_res_def get_field_def Let_def)
  obtain cache new where pair: "p = (cache, new)" by (cases p)
  from adopt obtain s1 where
    pers: "persist_detector_status dt opts False (length entries) (na_status a) (s\<lparr>dd_cache := cache\<rparr>) = (Inr (), s1)"
    and rest: "(if source = Live then then_do (get_field all_watches)
        (\<lambda>ws. match_cached_transactions (if new = [] then [] else ws) source new) else ret ()) s1 = (Inr (), s')"
    unfolding adopt_mempool_def pair fst_conv snd_conv and_do_def then_do_Inr change_def by auto
  note keep = persist_keeps [OF pers]
  show thesis
  proof (cases "source = Live")
    case False
    with rest keep show thesis by (intro that [OF h p [unfolded pair]]) (auto simp: ret_def)
  next
    case True
    with rest have "match_cached_transactions (if new = [] then [] else all_watches s1) Live new s1 = (Inr (), s')"
      by (simp add: then_do_Inr get_field_def)
    from match_cached_reports [OF this]
    have "reports (concat (map (appearances (all_watches s1) Live) new)) s1 s'" by (cases "new = []") simp_all
    then show thesis
      using keep True by (intro that [OF h p [unfolded pair]]) (simp_all add: reports_def all_watches_def)
  qed
qed

lemma add_hydrated_new:
  assumes "fold_res (add_hydrated entries) records q = Inr (cache, new)"
    and "r \<in> set records" "is_dogecoin_transaction r" "trimmed_txid r = Inr t" "t \<noteq> []" "js_get entries t \<noteq> None"
  shows "\<exists>c. compact_transaction r = Inr c \<and> c \<in> set new"
  using assms(1,2)
proof (induction records arbitrary: q)
  case (Cons x records)
  from Cons.prems(1) obtain q1 where x: "add_hydrated entries x q = Inr q1"
    and rest: "fold_res (add_hydrated entries) records q1 = Inr (cache, new)" by (auto simp: and_then_Inr_iff)
  have grows: "set (snd q1) \<subseteq> set new"
  proof -
    have "set (snd q1) \<subseteq> set (snd (cache, new))"
      using rest by (rule fold_res_invariant) (auto simp: add_hydrated_def and_then_Inr_iff split: if_splits prod.splits)
    then show ?thesis by simp
  qed
  show ?case
  proof (cases "r = x")
    case False
    with Cons.IH [OF rest] Cons.prems(2) show ?thesis by simp
  next
    case True
    obtain c where c: "compact_transaction r = Inr c" using assms(4) by (auto simp: compact_transaction_def)
    with compact_facts(1) [OF c] assms have "trimmed_txid c = Inr t" by simp
    with x c True assms have "c \<in> set (snd q1)" by (cases q) (auto simp: add_hydrated_def)
    with c grows show ?thesis by blast
  qed
qed simp

lemma matching_compact:
  assumes "compact_transaction tx = Inr c" and "matching_outputs_for_address tx a m = Inr (Some outs)"
  shows "matching_outputs_for_address c a m = Inr (Some outs)"
proof -
  have "truthy (own_prop tx ''vout'')"
    using assms(2)
    by (cases "own_prop tx ''vout''") (auto simp: matching_outputs_for_address_def collect_matching_outputs_def
        dogecoin_outputs_def nullish_list_def is_nullish_def some_values_def and_then_Inr_iff split: if_splits)
  then have "own_prop c ''vout'' = own_prop tx ''vout''"
    using assms(1) by (auto simp: compact_transaction_def and_then_Inr_iff)
  then have "dogecoin_outputs c = dogecoin_outputs tx" by (simp add: dogecoin_outputs_def)
  with assms(2) show ?thesis by (simp add: matching_outputs_for_address_def collect_matching_outputs_def)
qed

lemma appearance_listed:
  assumes "trimmed_txid c = Inr t" "t \<noteq> []" "w \<in> set ws"
    and "matching_outputs_for_address c (aw_address w) (aw_min_value_base w) = Inr (Some outs)"
  shows "appearance w outs source t [] \<in> set (appearances ws source c)"
  using assms by (auto simp: appearances_def intro!: bexI [of _ w])

lemma refresh_run:
  assumes "refresh_watches dt opts (Inr ws) a s = (Inr (), s')" and "ws \<noteq> []"
  obtains s1 where "synchronize_mempool dt opts Catchup a (s\<lparr>dd_watches := watches_by_address ws\<rparr>) = (Inr (), s1)"
    and "reports (concat (map (appearances (filter (\<lambda>w. aw_id w \<notin> aw_id ` set (all_watches s)) ws) Catchup)
          (js_values (dd_cache s1)))) s1 s'"
proof -
  from assms obtain s1 where sync: "synchronize_mempool dt opts Catchup a (s\<lparr>dd_watches := watches_by_address ws\<rparr>) = (Inr (), s1)"
    and m: "match_cached_transactions (filter (\<lambda>w. aw_id w \<notin> set (map aw_id (all_watches s))) ws) Catchup
         (js_values (dd_cache s1)) s1 = (Inr (), s')"
    unfolding refresh_watches_def then_do_Inr and_do_def lift_res_def get_field_def change_def
    by (auto simp: then_do_Inr)
  from match_cached_reports [OF m] show thesis by (intro that [OF sync]) simp
qed

text \<open>
  C23. What a run without errors reports. When the mempool fits the cache: a poll that returns has
  published, for every transaction the node answered that is in the mempool and was not cached, an
  appearance for every known watch that matches it; a refresh that returns has published, for every
  transaction that is then cached, an appearance for every watch that it lists for the first time and
  that matches.
\<close>

theorem detector_reports:
  assumes entries: "na_entries a = Inr entries" and small: "length entries \<le> do_cache_max_txids opts"
  shows "(synchronize_mempool dt opts Live a s = (Inr (), s') \<longrightarrow>
      (\<exists>records. hydrate (do_rpc_batch_size opts) (na_transactions a)
            (missing_txids (dd_cache s) (map fst entries)) = Inr records
        \<and> (\<forall>r \<in> set records. \<forall>w \<in> set (all_watches s). \<forall>t outs.
             is_dogecoin_transaction r \<and> trimmed_txid r = Inr t \<and> t \<noteq> [] \<and> js_get entries t \<noteq> None
             \<and> matching_outputs_for_address r (aw_address w) (aw_min_value_base w) = Inr (Some outs)
             \<longrightarrow> appearance w outs Live t [] \<in> undated ` set (dd_events s'))))
    \<and> (refresh_watches dt opts (Inr ws) a s = (Inr (), s') \<longrightarrow>
      (\<forall>c \<in> set (js_values (dd_cache s')). \<forall>w \<in> set ws. \<forall>t outs.
         aw_id w \<notin> aw_id ` set (all_watches s) \<and> trimmed_txid c = Inr t \<and> t \<noteq> []
         \<and> matching_outputs_for_address c (aw_address w) (aw_min_value_base w) = Inr (Some outs)
         \<longrightarrow> appearance w outs Catchup t [] \<in> undated ` set (dd_events s')))"
proof (rule conjI; rule impI)
  assume "synchronize_mempool dt opts Live a s = (Inr (), s')"
  then obtain records cache new where
    h: "hydrate (do_rpc_batch_size opts) (na_transactions a) (missing_txids (dd_cache s) (map fst entries)) = Inr records"
    and f: "fold_res (add_hydrated entries) records (keep_cached (dd_cache s) (map fst entries), []) = Inr (cache, new)"
    and ev: "map undated (dd_events s') = map undated (dd_events s) @ concat (map (appearances (all_watches s) Live) new)"
    by (rule synchronize_small [OF _ entries small]) simp
  have set_ev: "undated ` set (dd_events s')
      = undated ` set (dd_events s) \<union> (\<Union>c \<in> set new. set (appearances (all_watches s) Live c))"
    using arg_cong [OF ev, of set] by simp
  have "appearance w outs Live t [] \<in> undated ` set (dd_events s')"
    if r: "r \<in> set records" "is_dogecoin_transaction r" "trimmed_txid r = Inr t" "t \<noteq> []" "js_get entries t \<noteq> None"
      and w: "w \<in> set (all_watches s)" "matching_outputs_for_address r (aw_address w) (aw_min_value_base w) = Inr (Some outs)"
    for r w t outs
  proof -
    obtain c where c: "compact_transaction r = Inr c" "c \<in> set new" using add_hydrated_new [OF f r] by blast
    have "trimmed_txid c = Inr t" using compact_facts(1) [OF c(1)] r(3) by simp
    from appearance_listed [OF this r(4) w(1) matching_compact [OF c(1) w(2)]] c(2) show ?thesis
      unfolding set_ev by blast
  qed
  with h show "\<exists>records. hydrate (do_rpc_batch_size opts) (na_transactions a)
            (missing_txids (dd_cache s) (map fst entries)) = Inr records
        \<and> (\<forall>r \<in> set records. \<forall>w \<in> set (all_watches s). \<forall>t outs.
             is_dogecoin_transaction r \<and> trimmed_txid r = Inr t \<and> t \<noteq> [] \<and> js_get entries t \<noteq> None
             \<and> matching_outputs_for_address r (aw_address w) (aw_min_value_base w) = Inr (Some outs)
             \<longrightarrow> appearance w outs Live t [] \<in> undated ` set (dd_events s'))"
    by (intro exI [of _ records]) simp
next
  assume run: "refresh_watches dt opts (Inr ws) a s = (Inr (), s')"
  show "\<forall>c \<in> set (js_values (dd_cache s')). \<forall>w \<in> set ws. \<forall>t outs.
         aw_id w \<notin> aw_id ` set (all_watches s) \<and> trimmed_txid c = Inr t \<and> t \<noteq> []
         \<and> matching_outputs_for_address c (aw_address w) (aw_min_value_base w) = Inr (Some outs)
         \<longrightarrow> appearance w outs Catchup t [] \<in> undated ` set (dd_events s')"
  proof (cases "ws = []")
    case False
    from run False obtain s1 where
      "reports (concat (map (appearances (filter (\<lambda>w. aw_id w \<notin> aw_id ` set (all_watches s)) ws) Catchup)
          (js_values (dd_cache s1)))) s1 s'" by (rule refresh_run)
    then have cache: "dd_cache s' = dd_cache s1"
      and ev: "map undated (dd_events s') = map undated (dd_events s1) @ concat (map
        (appearances (filter (\<lambda>w. aw_id w \<notin> aw_id ` set (all_watches s)) ws) Catchup) (js_values (dd_cache s')))"
      by (simp_all add: reports_def)
    have set_ev: "undated ` set (dd_events s') = undated ` set (dd_events s1) \<union> (\<Union>c \<in> set (js_values (dd_cache s')).
        set (appearances (filter (\<lambda>w. aw_id w \<notin> aw_id ` set (all_watches s)) ws) Catchup c))"
      using arg_cong [OF ev, of set] by simp
    show ?thesis unfolding set_ev by (auto intro!: UnI2 appearance_listed)
  qed simp
qed

section \<open>What is never reported\<close>

text \<open>
  A node that answers a batch only with transactions of that batch; an answer with \<open>t\<close> in a mempool that
  fits the cache (or no answer).
\<close>

definition honest :: "node_answers \<Rightarrow> bool" where
  "honest a \<longleftrightarrow> (\<forall>txids rs r x. na_transactions a txids = Inr rs \<and> r \<in> set rs \<and> trimmed_txid r = Inr x
     \<longrightarrow> x \<in> set txids)"

definition still_pending :: "nat \<Rightarrow> string \<Rightarrow> node_answers \<Rightarrow> bool" where
  "still_pending n t a \<longleftrightarrow>
     (\<forall>entries. na_entries a = Inr entries \<longrightarrow> t \<in> fst ` set entries \<and> length entries \<le> n)"

definition quiet_about :: "(appear_event \<Rightarrow> bool) \<Rightarrow> appear_event list \<Rightarrow> string \<Rightarrow> detector \<Rightarrow> bool" where
  "quiet_about p es t s \<longleftrightarrow> filter p (dd_events s) = es \<and> js_get (dd_cache s) t \<noteq> None"

lemma triple_match_other:
  assumes other: "\<And>w outs x at_text. w \<in> set ws \<Longrightarrow> trimmed_txid tx = Inr x \<Longrightarrow> \<not> p (appearance w outs source x at_text)"
    and I: "\<And>s es ps. I s \<Longrightarrow> \<forall>e \<in> set es. \<not> p e
      \<Longrightarrow> I (s\<lparr>dd_events := dd_events s @ es, dd_publications := ps\<rparr>)"
  shows "triple I (match_transaction tx ws source) (\<lambda>_. I) I"
proof -
  have publish: "triple I (publish_appear ev) (\<lambda>_. I) I" if "\<And>t. \<not> p (ev t)" for ev
  proof -
    have "I s'" if "I s" "publish_appear ev s = (r, s')" for r s s'
    proof -
      from publish_appear_cases [OF that(2)] obtain es ps where "es = [] \<or> (\<exists>t. es = [ev t])"
        and s': "s' = s\<lparr>dd_events := dd_events s @ es, dd_publications := ps\<rparr>" by blast
      then have "\<forall>e \<in> set es. \<not> p e" using \<open>\<And>t. \<not> p (ev t)\<close> by auto
      from I [OF that(1) this] show ?thesis by (simp only: s')
    qed
    then show ?thesis by (intro tripleI)
  qed
  have watch: "triple I (match_watch tx x source w) (\<lambda>_. I) I" if "w \<in> set ws" "trimmed_txid tx = Inr x" for w x
    unfolding match_watch_def
    by (rule triple_then_do [where R = "\<lambda>_. I"], rule triple_lift, assumption, assumption,
        rule triple_case_option, rule triple_ret, assumption, rule publish, rule other [OF that])
  show ?thesis
    unfolding match_transaction_def
  proof (rule triple_then_do [where R = "\<lambda>x s. trimmed_txid tx = Inr x \<and> I s"])
    show "triple I (lift_res (trimmed_txid tx)) (\<lambda>x s. trimmed_txid tx = Inr x \<and> I s) I" by (rule triple_lift) auto
    show "triple (\<lambda>s. trimmed_txid tx = Inr x \<and> I s) (if x = [] then ret () else for_each (match_watch tx x source) ws)
        (\<lambda>_. I) I" for x
      by (rule triple_assume, rule triple_if, rule triple_ret, assumption, rule triple_for_each, rule watch)
  qed
qed

lemma quiet_events:
  "quiet_about p es t s \<Longrightarrow> \<forall>e \<in> set fs. \<not> p e
     \<Longrightarrow> quiet_about p es t (s\<lparr>dd_events := dd_events s @ fs, dd_publications := ps\<rparr>)"
  by (simp add: quiet_about_def)

lemma hydrate_requested:
  assumes h: "honest a" and run: "hydrate n (na_transactions a) txids = Inr rs"
    and r: "r \<in> set rs" "trimmed_txid r = Inr x"
  shows "x \<in> set txids"
proof -
  have chunks: "set (concat (chunk_array m xs)) \<subseteq> set xs" for m and xs :: "string list"
    by (induction m xs rule: chunk_array.induct)
      (subst chunk_array.simps, auto dest: in_set_takeD in_set_dropD)
  from run r(1) obtain rss part where rss: "map_res (na_transactions a) (chunk_array n txids) = Inr rss"
      "part \<in> set rss" "r \<in> set part"
    by (auto simp: hydrate_def and_then_Inr_iff)
  from map_res_image [OF rss(1,2)] obtain ids where "ids \<in> set (chunk_array n txids)" "na_transactions a ids = Inr part" ..
  moreover from this h rss(3) r(2) have "x \<in> set ids" unfolding honest_def by blast
  ultimately show ?thesis using chunks [of n txids] by auto
qed

lemma triple_poll_quiet:
  assumes h: "honest a" and pending: "still_pending (do_cache_max_txids opts) t a"
    and p: "\<And>e. p e \<Longrightarrow> ap_txid e = t"
  shows "triple (quiet_about p es t) (poll_turn dt opts a) (\<lambda>_. quiet_about p es t) (quiet_about p es t)"
    (is "triple ?Q _ _ _")
proof -
  have "triple ?Q (synchronize_mempool dt opts Live a) (\<lambda>_. ?Q) ?Q"
  proof (rule triple_synchronize_rule [where good = "\<lambda>c. trimmed_txid c \<noteq> Inr t"])
    fix s c assume "?Q s"
    then show "?Q (s\<lparr>dd_config := c\<rparr>)" by (simp add: quiet_about_def)
  next
    fix entries s assume "na_entries a = Inr entries" "do_cache_max_txids opts < length entries"
    with pending show "?Q (s\<lparr>dd_cache := []\<rparr>)" by (auto simp: still_pending_def)
  next
    fix entries records q s
    assume e: "na_entries a = Inr entries" and Q: "?Q s" and ok: "hydrated_ok entries records (dd_cache s) q"
      and H: "hydrate (do_rpc_batch_size opts) (na_transactions a) (missing_txids (dd_cache s) (map fst entries)) = Inr records"
    from e pending have "t \<in> fst ` set entries" by (auto simp: still_pending_def)
    with ok Q have "?Q (s\<lparr>dd_cache := fst q\<rparr>)" by (auto simp: hydrated_ok_def quiet_about_def split: prod.splits)
    moreover have "trimmed_txid x \<noteq> Inr t" if x: "x \<in> set (snd q)" for x
    proof
      assume t: "trimmed_txid x = Inr t"
      from ok x obtain r where "r \<in> set records" "compact_transaction r = Inr x"
        by (auto simp: hydrated_ok_def split: prod.splits)
      with compact_facts(1) t hydrate_requested [OF h H] have "t \<in> set (missing_txids (dd_cache s) (map fst entries))" by auto
      with Q show False by (auto simp: missing_txids_def quiet_about_def)
    qed
    ultimately show "?Q (s\<lparr>dd_cache := fst q\<rparr>) \<and> (\<forall>c \<in> set (snd q). trimmed_txid c \<noteq> Inr t)" by blast
  next
    fix new ws assume new: "\<forall>c \<in> set new. trimmed_txid c \<noteq> Inr t"
    have "triple ?Q (match_transaction c us Live) (\<lambda>_. ?Q) ?Q" if "c \<in> set new" for c us
      by (rule triple_match_other [where p = p]) (use that new p in \<open>force simp: appearance_def\<close>, rule quiet_events)
    then have "triple ?Q (match_cached_transactions (if new = [] then [] else ws) Live new) (\<lambda>_. ?Q) ?Q"
      unfolding match_cached_transactions_def by (intro triple_for_each) auto
    then show "triple (\<lambda>s. ws = all_watches s \<and> ?Q s)
        (match_cached_transactions (if new = [] then [] else ws) Live new) (\<lambda>_. ?Q) ?Q" by (rule triple_pre) simp
  qed
  then show ?thesis
    unfolding poll_turn_def
    by (intro triple_catch triple_then_do [OF triple_get [where Q = "\<lambda>_. ?Q"]] triple_if triple_ret) auto
qed

lemma triple_refresh_known:
  assumes i: "\<And>e. p e \<Longrightarrow> ae_watch_id e = i"
  shows "triple (\<lambda>s. filter p (dd_events s) = es \<and> i \<in> aw_id ` set (all_watches s)) (refresh_watches dt opts listing a)
    (\<lambda>_ s. filter p (dd_events s) = es) (\<lambda>s. filter p (dd_events s) = es)" (is "triple _ _ (\<lambda>_. ?Q) ?Q")
proof -
  have sync: "triple ?Q (synchronize_mempool dt opts Catchup a) (\<lambda>_. ?Q) ?Q"
    by (rule triple_synchronize_rule [where good = "\<lambda>_. True"]) simp_all
  have match: "triple ?Q (then_do (get_field (\<lambda>s. js_values (dd_cache s))) (\<lambda>txs.
      match_cached_transactions (filter (\<lambda>w. aw_id w \<notin> set previous) ws) Catchup txs)) (\<lambda>_. ?Q) ?Q"
    if "i \<in> set previous" for previous ws
  proof -
    have "triple ?Q (match_transaction c (filter (\<lambda>w. aw_id w \<notin> set previous) ws) Catchup) (\<lambda>_. ?Q) ?Q" for c
      by (rule triple_match_other [where p = p]) (use that i in \<open>force simp: appearance_def\<close>, simp)
    then show ?thesis
      unfolding match_cached_transactions_def
      by (intro triple_then_do [OF triple_get [where Q = "\<lambda>_. ?Q"]] triple_for_each) auto
  qed
  have body: "triple ?Q (if ws = [] then ret () else and_do (synchronize_mempool dt opts Catchup a)
      (then_do (get_field (\<lambda>s. js_values (dd_cache s))) (\<lambda>txs.
       match_cached_transactions (filter (\<lambda>w. aw_id w \<notin> set previous) ws) Catchup txs))) (\<lambda>_. ?Q) ?Q"
    if "i \<in> set previous" for previous ws
    by (rule triple_if, rule triple_ret, assumption, rule triple_and_do, rule sync, rule match [OF that])
  show ?thesis
    unfolding refresh_watches_def
  proof (rule triple_then_do [where R = "\<lambda>previous s. i \<in> set previous \<and> ?Q s"])
    show "triple (\<lambda>s. ?Q s \<and> i \<in> aw_id ` set (all_watches s)) (get_field (\<lambda>s. map aw_id (all_watches s)))
        (\<lambda>previous s. i \<in> set previous \<and> ?Q s) ?Q" by (rule triple_get) simp
    show "triple (\<lambda>s. i \<in> set previous \<and> ?Q s) (then_do (lift_res listing) (\<lambda>ws.
        and_do (change (\<lambda>s. s\<lparr>dd_watches := watches_by_address ws\<rparr>))
       (if ws = [] then ret () else and_do (synchronize_mempool dt opts Catchup a)
          (then_do (get_field (\<lambda>s. js_values (dd_cache s))) (\<lambda>txs.
             match_cached_transactions (filter (\<lambda>w. aw_id w \<notin> set previous) ws) Catchup txs))))) (\<lambda>_. ?Q) ?Q" for previous
      by (rule triple_assume, rule triple_then_do [where R = "\<lambda>_. ?Q"], rule triple_lift, assumption, assumption,
          rule triple_and_do [where R = ?Q], rule triple_change, simp, erule body)
  qed
qed

text \<open>
  C24. A transaction that a refresh caches is hidden from the watches that were known. When a refresh, made
  because some other watch was opened or closed, is the first to see a transaction, it publishes nothing
  of it for a watch known before, and no later poll does as long as the transaction stays in a mempool
  that fits the cache: whether or not it matches, what is published of it for this watch stays what it
  was. Only the raw transaction feed could still report it.
\<close>

theorem catchup_hides_transaction:
  assumes known: "i \<in> aw_id ` set (all_watches s)"
    and cached: "js_get (dd_cache (detector_step dt opts (Refresh listing a) s)) t \<noteq> None"
    and polls: "\<forall>b \<in> set polls. honest b \<and> still_pending (do_cache_max_txids opts) t b"
  shows "filter (\<lambda>e. ap_txid e = t \<and> ae_watch_id e = i)
      (dd_events (detector_run dt opts (Refresh listing a # map Poll polls) s))
    = filter (\<lambda>e. ap_txid e = t \<and> ae_watch_id e = i) (dd_events s)"
proof -
  let ?p = "\<lambda>e. ap_txid e = t \<and> ae_watch_id e = i" and ?s1 = "detector_step dt opts (Refresh listing a) s"
  let ?es = "filter ?p (dd_events s)"
  have "filter ?p (dd_events ?s1) = ?es"
  proof -
    have run: "triple (\<lambda>u. filter ?p (dd_events u) = ?es \<and> i \<in> aw_id ` set (all_watches u)) (refresh_watches dt opts listing a)
        (\<lambda>_ u. filter ?p (dd_events u) = ?es) (\<lambda>u. filter ?p (dd_events u) = ?es)"
      by (rule triple_refresh_known) simp
    have pre: "filter ?p (dd_events s) = ?es \<and> i \<in> aw_id ` set (all_watches s)" using known by (rule conjI [OF refl])
    show ?thesis
    proof (cases rule: eff_cases [of "refresh_watches dt opts listing a" s])
      case (1 e u)
      from tripleD_err [OF run pre 1] show ?thesis unfolding detector_step.simps 1 snd_conv .
    next
      case (2 x u)
      from tripleD_ok [OF run pre 2] show ?thesis unfolding detector_step.simps 2 snd_conv .
    qed
  qed
  with cached have "quiet_about ?p ?es t ?s1" by (simp add: quiet_about_def)
  moreover have "quiet_about ?p ?es t (fold (detector_step dt opts) (map Poll bs) u)"
    if "quiet_about ?p ?es t u" "\<forall>b \<in> set bs. honest b \<and> still_pending (do_cache_max_txids opts) t b" for bs u
    using that
  proof (induction bs arbitrary: u)
    case (Cons b bs)
    have "triple (quiet_about ?p ?es t) (poll_turn dt opts b) (\<lambda>_. quiet_about ?p ?es t) (quiet_about ?p ?es t)"
      by (rule triple_poll_quiet) (use Cons.prems in auto)
    from triple_final [OF this Cons.prems(1)] Cons show ?case by simp
  qed simp
  ultimately have "quiet_about ?p ?es t (detector_run dt opts (Refresh listing a # map Poll polls) s)"
    using polls by (simp add: detector_run_def)
  then show ?thesis by (simp add: quiet_about_def)
qed

section \<open>A degraded detector\<close>

lemma persist_settles:
  assumes "persist_attempts dt opts degraded observed ts s = (Inr (), s')"
  shows "\<exists>t \<in> set ts. let status = get_json_value detector_status_key (dd_config s') in
    status = detector_status dt opts degraded observed (st_now t)
    \<or> own_prop status ''degraded'' = JBool True \<and> \<not> is_expired_status dt (st_now t) status"
  using assms
proof (induction ts arbitrary: s)
  case Nil
  then show ?case by (simp add: throw_def)
next
  case (Cons t ts)
  define s1 where "s1 = snd (others_store (st_before t) s)"
  have s1: "others_store (st_before t) s = (Inr (), s1)" by (simp add: s1_def others_store_def change_def)
  define current where "current = get_json_value detector_status_key (dd_config s1)"
  define held where "held \<longleftrightarrow> own_prop current ''degraded'' = JBool True \<and> \<not> is_expired_status dt (st_now t) current
                   \<and> \<not> is_status_owner opts current"
  have read: "st_read_fault t = None"
    using Cons.prems by (auto simp: and_do_def then_do_Inr s1 with_call_fault_def throw_def split: option.splits)
  with Cons.prems have go: "(if \<not> degraded \<and> held then ret () else if degraded \<and> held then ret ()
      else and_do (others_store (st_between t))
        (then_do (swap_status (st_swap_fault t) current (detector_status dt opts degraded observed (st_now t))) (\<lambda>ok.
          if ok then ret () else persist_attempts dt opts degraded observed ts))) s1 = (Inr (), s')"
    unfolding current_def held_def
    by (simp add: and_do_def then_do_def s1 with_call_fault_def get_field_def Let_def split del: if_split)
  show ?case
  proof (cases held)
    case True
    with go have "s' = s1" by (auto simp: ret_def split: if_splits)
    with True show ?thesis by (auto simp: held_def current_def)
  next
    case False
    define s2 where "s2 = snd (others_store (st_between t) s1)"
    have s2: "others_store (st_between t) s1 = (Inr (), s2)" by (simp add: s2_def others_store_def change_def)
    from go False have "then_do (swap_status (st_swap_fault t) current (detector_status dt opts degraded observed (st_now t))) (\<lambda>ok.
          if ok then ret () else persist_attempts dt opts degraded observed ts) s2 = (Inr (), s')"
      by (simp add: and_do_def then_do_def s2)
    then obtain ok s3 where swap: "swap_status (st_swap_fault t) current
          (detector_status dt opts degraded observed (st_now t)) s2 = (Inr ok, s3)"
      and rest: "(if ok then ret () else persist_attempts dt opts degraded observed ts) s3 = (Inr (), s')"
      by (auto simp: then_do_Inr)
    show ?thesis
    proof (cases ok)
      case True
      with rest have "s' = s3" by (simp add: ret_def)
      with True swap have "get_json_value detector_status_key (dd_config s') = detector_status dt opts degraded observed (st_now t)"
        by (auto simp: swap_status_def compare_and_swap_json_value_def get_json_value_def js_get_set
            split: option.splits prod.splits if_splits)
      then show ?thesis by auto
    next
      case False
      with rest Cons.IH [of s3] show ?thesis by auto
    qed
  qed
qed

text \<open>
  C25. A detector that cannot keep up refuses sessions. When the mempool is larger than the cache, a
  synchronisation that returns has emptied the cache and left a status, its own or the live one of another
  instance, that says degraded and expires after a moment of this synchronisation; until then every
  session that reads it is refused as too early, whatever it asks for that is valid, and writes nothing.
\<close>

theorem degraded_detector_refuses_sessions:
  assumes law: "\<And>t. dt_parse dt (dt_iso dt t) = JInt t" and period: "0 < do_rpc_poll_ms opts"
    and sync: "synchronize_mempool dt opts source a s = (Inr (), s')"
    and entries: "na_entries a = Inr entries" and large: "do_cache_max_txids opts < length entries"
  shows "dd_cache s' = [] \<and> (\<exists>k < 4. \<exists>expiry.
      status_expires_at dt (get_json_value detector_status_key (dd_config s')) = JInt expiry
      \<and> st_now (na_status a k) < expiry
      \<and> (\<forall>i w. ww_config w = dd_config s' \<and> si_status_ms i < expiry \<and> si_status_fault i = None
          \<and> is_ok (normalize_watch_address (si_address i)) \<and> is_ok (normalize_min_value_base (si_min_value_base i))
          \<longrightarrow> begin_session dt i w
              = (Inl (TooEarlyError ''mempool watch detector is temporarily unavailable''), w)))"
proof -
  from sync entries large have "persist_detector_status dt opts True (length entries) (na_status a) (s\<lparr>dd_cache := []\<rparr>) = (Inr (), s')"
    by (auto simp: synchronize_mempool_def then_do_Inr lift_res_def Let_def and_do_def change_def)
  note pers = this
  define status where "status = get_json_value detector_status_key (dd_config s')"
  from pers obtain t where t: "t \<in> set (map (na_status a) [0, 1, 2, 3])"
    and st: "status = detector_status dt opts True (length entries) (st_now t)
      \<or> own_prop status ''degraded'' = JBool True \<and> \<not> is_expired_status dt (st_now t) status"
    using persist_settles unfolding persist_detector_status_def status_def Let_def by blast
  from t have "t \<in> na_status a ` {0, 1, 2, 3}" by simp
  then obtain k where "k \<in> {0, 1, 2, 3}" and k2: "t = na_status a k" by blast
  then have k: "k < 4" by auto
  have "own_prop status ''degraded'' = JBool True \<and> (\<exists>expiry. status_expires_at dt status = JInt expiry \<and> st_now t < expiry)"
    using st
  proof
    assume "status = detector_status dt opts True (length entries) (st_now t)"
    then show ?thesis using law period by (simp add: detector_status_def status_expires_at_def)
  next
    assume "own_prop status ''degraded'' = JBool True \<and> \<not> is_expired_status dt (st_now t) status"
    then show ?thesis by (auto simp: is_expired_status_def split: js_num.splits)
  qed
  then obtain expiry where d: "own_prop status ''degraded'' = JBool True" "status_expires_at dt status = JInt expiry"
      "st_now t < expiry" by blast
  have "begin_session dt i w = (Inl (TooEarlyError ''mempool watch detector is temporarily unavailable''), w)"
    if "ww_config w = dd_config s'" "si_status_ms i < expiry" "si_status_fault i = None"
      "is_ok (normalize_watch_address (si_address i))" "is_ok (normalize_min_value_base (si_min_value_base i))" for i w
    using that d by (auto simp: begin_session_def then_do_def and_do_def lift_res_def get_field_def with_call_fault_def
        is_ok_iff assert_detector_available_def is_after_def status_def)
  moreover have "dd_cache s' = []" using persist_keeps(2) [OF pers] by simp
  ultimately show ?thesis
    using d(3) unfolding k2 by (intro conjI exI [of _ k] exI [of _ expiry]) (simp_all add: k d(2) flip: status_def)
qed

section \<open>Runs on concrete inputs\<close>

definition sample_text :: date_text where
  "sample_text = \<lparr>dt_iso = int_str, dt_parse = (\<lambda>s. case js_bigint s of Inr i \<Rightarrow> JInt i | Inl _ \<Rightarrow> JNaN)\<rparr>"

definition sample_options :: detector_options where
  "sample_options = \<lparr>do_cache_max_txids = 1, do_owner_instance_id = ''me'', do_rpc_batch_size = 2, do_rpc_poll_ms = 1\<rparr>"

definition sample_quiet_turn :: status_turn where
  "sample_quiet_turn = \<lparr>st_before = None, st_read_fault = None, st_now = 0, st_between = None, st_swap_fault = None\<rparr>"

definition sample_node :: "string list \<Rightarrow> node_answers" where
  "sample_node txids = \<lparr>na_dogecoin = Inr (), na_entries = Inr (map (\<lambda>t. (t, JObj [])) txids),
     na_transactions = (\<lambda>ids. Inr (if ''t'' \<in> set ids then [sample_payment] else [])), na_status = (\<lambda>_. sample_quiet_turn)\<rparr>"

definition sample_detector :: detector where
  "sample_detector = (new_detector [] [])\<lparr>dd_watches := [(''D'', [sample_watch ''a''])]\<rparr>"

lemma sample_refreshed:
  "js_get (dd_cache (detector_step sample_text sample_options
     (Refresh (Inr [sample_watch ''a'', sample_watch ''b'']) (sample_node [''t''])) sample_detector)) ''t'' \<noteq> None"
  by code_simp

lemma sample_matched:
  "matching_outputs_for_address sample_payment ''D'' None
     = Inr (Some [\<lparr>ao_vout = JNum (JInt 0), ao_value_base = ''60''\<rparr>, \<lparr>ao_vout = JNum (JInt 2), ao_value_base = ''50''\<rparr>])"
  by code_simp

lemma sample_detector_runs:
  "map ae_watch_id (dd_events (detector_run sample_text sample_options
     [Refresh (Inr [sample_watch ''b'']) (sample_node [''t''])] (new_detector [] []))) = [''b'']"
  "fst (refresh_watches sample_text sample_options (Inr [sample_watch ''b'']) (sample_node [''t'']) (new_detector [] [])) = Inr ()"
  "dd_cache (snd (refresh_watches sample_text sample_options (Inr [sample_watch ''b'']) (sample_node [''t''])
     (new_detector [] []))) = [(''t'', sample_payment)]"
  "fst (synchronize_mempool sample_text sample_options Live (sample_node [''t'', ''u'']) (new_detector [] [])) = Inr ()"
  "trimmed_txid sample_payment = Inr ''t''"
  by code_simp+

theorem detector_events_true_witness:
  "let s = detector_run sample_text sample_options [Refresh (Inr [sample_watch ''b'']) (sample_node [''t''])] (new_detector [] [])
   in dd_events s \<noteq> [] \<and> list_all (\<lambda>e. ap_address e = ''D'' \<and> ae_api_key_id e = ''k'') (dd_events s)"
proof -
  let ?works = "[Refresh (Inr [sample_watch ''b'']) (sample_node [''t''])]"
  let ?s = "detector_run sample_text sample_options ?works (new_detector [] [])"
  have "ap_address e = ''D'' \<and> ae_api_key_id e = ''k''" if "e \<in> set (dd_events ?s)" for e
  proof -
    have "\<exists>w \<in> \<Union> (work_watches ` set ?works). ae_api_key_id e = aw_api_key_id w \<and> ap_address e = aw_address w"
      using detector_events_true [of sample_text sample_options ?works "[]" "[]"] that unfolding Let_def by blast
    then show ?thesis by (simp add: sample_watch_def)
  qed
  moreover have "dd_events ?s \<noteq> []" using sample_detector_runs(1) by auto
  ultimately show ?thesis by (simp add: Let_def list_all_iff)
qed

theorem detector_reports_witness:
  "appearance (sample_watch ''b'')
     [\<lparr>ao_vout = JNum (JInt 0), ao_value_base = ''60''\<rparr>, \<lparr>ao_vout = JNum (JInt 2), ao_value_base = ''50''\<rparr>] Catchup ''t'' []
   \<in> undated ` set (dd_events (snd (refresh_watches sample_text sample_options (Inr [sample_watch ''b''])
        (sample_node [''t'']) (new_detector [] []))))"
proof -
  let ?r = "refresh_watches sample_text sample_options (Inr [sample_watch ''b'']) (sample_node [''t'']) (new_detector [] [])"
  have run: "?r = (Inr (), snd ?r)" using sample_detector_runs(2) by (metis prod.collapse)
  have c: "sample_payment \<in> set (js_values (dd_cache (snd ?r)))" by (simp add: sample_detector_runs(3) js_values_def)
  have new: "aw_id (sample_watch ''b'') \<notin> aw_id ` set (all_watches (new_detector [] []))"
    by (simp add: all_watches_def new_detector_def js_values_def)
  have "na_entries (sample_node [''t'']) = Inr [(''t'', JObj [])]" "length [(''t'', JObj [])] \<le> do_cache_max_txids sample_options"
    by (simp_all add: sample_node_def sample_options_def)
  from conjunct2 [OF detector_reports [OF this], rule_format, OF run c, of "sample_watch ''b''" "''t''"] new
  show ?thesis by (simp add: sample_detector_runs(5) sample_matched sample_watch_def)
qed

theorem catchup_hides_transaction_witness:
  "let s = detector_run sample_text sample_options
       [Refresh (Inr [sample_watch ''a'', sample_watch ''b'']) (sample_node [''t'']), Poll (sample_node [''t'']),
        Poll (sample_node [''t''])] sample_detector
   in filter (\<lambda>e. ap_txid e = ''t'' \<and> ae_watch_id e = ''a'') (dd_events s) = []
      \<and> matching_outputs_for_address sample_payment ''D'' None \<noteq> Inr None"
proof -
  have known: "''a'' \<in> aw_id ` set (all_watches sample_detector)"
    by (simp add: sample_detector_def new_detector_def all_watches_def js_values_def sample_watch_def)
  have polls: "\<forall>b \<in> set [sample_node [''t''], sample_node [''t'']]. honest b \<and> still_pending (do_cache_max_txids sample_options) ''t'' b"
    by (auto simp: honest_def still_pending_def sample_node_def sample_options_def sample_detector_runs(5))
  show ?thesis
    using catchup_hides_transaction [OF known sample_refreshed polls]
    by (simp add: sample_matched sample_detector_def new_detector_def)
qed

theorem degraded_detector_refuses_sessions_witness:
  "let s = snd (synchronize_mempool sample_text sample_options Live (sample_node [''t'', ''u'']) (new_detector [] []))
   in dd_cache s = []
      \<and> fst (begin_session sample_text sample_session \<lparr>ww_watches = [], ww_config = dd_config s, ww_changes = 0\<rparr>)
          = Inl (TooEarlyError ''mempool watch detector is temporarily unavailable'')"
proof -
  let ?r = "synchronize_mempool sample_text sample_options Live (sample_node [''t'', ''u'']) (new_detector [] [])"
  have law: "dt_parse sample_text (dt_iso sample_text t) = JInt t" for t by (simp add: sample_text_def)
  have run: "?r = (Inr (), snd ?r)" using sample_detector_runs(4) by (metis prod.collapse)
  have e: "na_entries (sample_node [''t'', ''u'']) = Inr [(''t'', JObj []), (''u'', JObj [])]"
    "0 < do_rpc_poll_ms sample_options"
    "do_cache_max_txids sample_options < length [(''t'', JObj []), (''u'', JObj [])]"
    by (simp_all add: sample_node_def sample_options_def)
  have ok: "is_ok (normalize_watch_address (si_address sample_session))"
    "is_ok (normalize_min_value_base (si_min_value_base sample_session))" "si_status_fault sample_session = None"
    "si_status_ms sample_session = 0"
    by code_simp+
  from degraded_detector_refuses_sessions [OF law e(2) run e(1,3)] obtain k expiry where
    "dd_cache (snd ?r) = []" "st_now (na_status (sample_node [''t'', ''u'']) k) < expiry"
    and refused: "\<forall>i w. ww_config w = dd_config (snd ?r) \<and> si_status_ms i < expiry \<and> si_status_fault i = None
          \<and> is_ok (normalize_watch_address (si_address i)) \<and> is_ok (normalize_min_value_base (si_min_value_base i))
          \<longrightarrow> begin_session sample_text i w
              = (Inl (TooEarlyError ''mempool watch detector is temporarily unavailable''), w)" by blast
  moreover from this(2) have "0 < expiry" by (simp add: sample_node_def sample_quiet_turn_def)
  ultimately show ?thesis using ok by (simp add: Let_def)
qed

end
