(* ===== verification/Sql_Guard.thy ===== *)
theory Sql_Guard
  imports Js_Text Block_Applications
begin

text \<open>
  The guard in front of the analytics database
  (\<^verbatim>\<open>modules/analytics-query/src/application/analytics-query-service.ts\<close>, with the constants of
  \<^verbatim>\<open>domain/query-models.ts\<close>): which SQL texts of a client are passed on. The regular expressions the
  code tests with are values of \<open>rx\<close>; \<open>rx_ends\<close> matches them from one place of the text, and
  \<open>rx_test_iff\<close> says what \<^verbatim>\<open>pattern.test\<close> finds in terms of parts of the text. All patterns ignore
  case; on the characters of the model that is lower-casing ASCII letters. The SQL parser is the
  third-party package \<^verbatim>\<open>node-sql-parser\<close>: the tree and the table list it returns for a text are
  arguments.
\<close>

section \<open>Regular expressions\<close>

datatype rx =
    Rx_Empty
  | Rx_Text string
  | Rx_Class "char \<Rightarrow> bool"
  | Rx_Many "char \<Rightarrow> bool"
  | Rx_Boundary
  | Rx_Seq rx rx
  | Rx_Or rx rx

text \<open>\<^verbatim>\<open>\w\<close> and \<^verbatim>\<open>[a-zA-Z_]\<close>.\<close>

definition is_word_char :: "char \<Rightarrow> bool" where
  "is_word_char c \<longleftrightarrow> is_alnum c \<or> c = CHR ''_''"

definition is_name_start :: "char \<Rightarrow> bool" where
  "is_name_start c \<longleftrightarrow> is_word_char c \<and> \<not> is_digit c"

text \<open>The two functions on the bits of a character, for evaluation.\<close>

lemma lower_char_bits [code]:
  "lower_char (Char b0 b1 b2 b3 b4 b5 b6 b7) =
     (if b6 \<and> \<not> b5 \<and> (if b7 then \<not> (b0 \<and> b1 \<and> b2 \<and> b3 \<and> b4) \<and> \<not> (b0 \<and> b1 \<and> b2 \<and> \<not> b3 \<and> b4)
        else (b0 \<or> b1 \<or> b2 \<or> b3 \<or> b4) \<and> \<not> (b4 \<and> b3 \<and> (b2 \<or> b1 \<and> b0)))
      then Char b0 b1 b2 b3 b4 True b6 b7 else Char b0 b1 b2 b3 b4 b5 b6 b7)"
  unfolding lower_char_def char_code_def of_char_def char.sel
  by (cases b0; cases b1; cases b2; cases b3; cases b4; cases b5; cases b6; cases b7) (simp_all add: char_of_def bit_0)

lemma is_word_char_bits [code]:
  "is_word_char (Char b0 b1 b2 b3 b4 b5 b6 b7) =
     (\<not> b7 \<and> (if b6 then (b0 \<or> b1 \<or> b2 \<or> b3 \<or> b4) \<and> \<not> (b4 \<and> b3 \<and> (b2 \<or> b1 \<and> b0)) \<or> (\<not> b5 \<and> b0 \<and> b1 \<and> b2 \<and> b3 \<and> b4)
       else b5 \<and> b4 \<and> \<not> (b3 \<and> (b2 \<or> b1))))"
  unfolding is_word_char_def is_alnum_def Let_def char_code_def of_char_def char.sel
  by (cases b0; cases b1; cases b2; cases b3; cases b4; cases b5; cases b6; cases b7) (simp_all add: char_of_def bit_0)
lemma starts_with_code [code]:
  "starts_with [] s = True"
  "starts_with (x # xs) [] = False"
  "starts_with (x # xs) (y # ys) = (if x = y then starts_with xs ys else False)"
  by (simp_all add: starts_with_def)

text \<open>A place in a text: the character before it and the text from there on.\<close>

type_synonym rx_place = "char option \<times> string"

definition at_boundary :: "char option \<Rightarrow> string \<Rightarrow> bool" where
  "at_boundary q s \<longleftrightarrow>
     (case q of None \<Rightarrow> False | Some c \<Rightarrow> is_word_char c) \<noteq> (case s of [] \<Rightarrow> False | c # _ \<Rightarrow> is_word_char c)"

definition char_before :: "char option \<Rightarrow> string \<Rightarrow> char option" where
  "char_before q a = (if a = [] then q else Some (last a))"

fun rx_many :: "(char \<Rightarrow> bool) \<Rightarrow> char option \<Rightarrow> string \<Rightarrow> rx_place list" where
  "rx_many P q [] = [(q, [])]"
| "rx_many P q (c # cs) = (q, c # cs) # (if P c then rx_many P (Some c) cs else [])"

fun rx_text :: "string \<Rightarrow> char option \<Rightarrow> string \<Rightarrow> rx_place list" where
  "rx_text [] q s = [(q, s)]"
| "rx_text (t # ts) q [] = []"
| "rx_text (t # ts) q (c # cs) = (if lower_char c = lower_char t then rx_text ts (Some c) cs else [])"

primrec rx_ends :: "rx \<Rightarrow> rx_place \<Rightarrow> rx_place list" where
  "rx_ends Rx_Empty p = [p]"
| "rx_ends (Rx_Text t) p = rx_text t (fst p) (snd p)"
| "rx_ends (Rx_Class P) p = (case snd p of [] \<Rightarrow> [] | c # cs \<Rightarrow> if P c then [(Some c, cs)] else [])"
| "rx_ends (Rx_Many P) p = rx_many P (fst p) (snd p)"
| "rx_ends Rx_Boundary p = (if at_boundary (fst p) (snd p) then [p] else [])"
| "rx_ends (Rx_Seq a b) p = concat (map (rx_ends b) (rx_ends a p))"
| "rx_ends (Rx_Or a b) p = rx_ends a p @ rx_ends b p"

definition rx_all :: "rx list \<Rightarrow> rx" where
  "rx_all rs = foldr Rx_Seq rs Rx_Empty"

definition rx_maybe :: "rx \<Rightarrow> rx" where
  "rx_maybe r = Rx_Or r Rx_Empty"

text \<open>\<^verbatim>\<open>pattern.test(text)\<close>: a match from some place.\<close>

fun places :: "char option \<Rightarrow> string \<Rightarrow> rx_place list" where
  "places q [] = [(q, [])]"
| "places q (c # cs) = (q, c # cs) # places (Some c) cs"

definition rx_test :: "rx \<Rightarrow> string \<Rightarrow> bool" where
  "rx_test r s \<longleftrightarrow> list_ex (\<lambda>p. rx_ends r p \<noteq> []) (places None s)"

text \<open>The same without the list of places, for evaluation.\<close>

fun rx_find :: "rx \<Rightarrow> char option \<Rightarrow> string \<Rightarrow> bool" where
  "rx_find r q [] = (rx_ends r (q, []) \<noteq> [])"
| "rx_find r q (c # cs) = (if rx_ends r (q, c # cs) \<noteq> [] then True else rx_find r (Some c) cs)"

lemma rx_test_find [code]: "rx_test r s = rx_find r None s"
proof -
  have "rx_find r q s \<longleftrightarrow> list_ex (\<lambda>p. rx_ends r p \<noteq> []) (places q s)" for q
    by (induction s arbitrary: q) simp_all
  then show ?thesis by (simp add: rx_test_def)
qed

subsection \<open>What a match is\<close>

text \<open>\<open>rx_holds r q a s\<close>: the text \<open>a\<close>, with \<open>q\<close> before and \<open>s\<close> behind it, is matched by \<open>r\<close>.\<close>

primrec rx_holds :: "rx \<Rightarrow> char option \<Rightarrow> string \<Rightarrow> string \<Rightarrow> bool" where
  "rx_holds Rx_Empty q a s \<longleftrightarrow> a = []"
| "rx_holds (Rx_Text t) q a s \<longleftrightarrow> map lower_char a = map lower_char t"
| "rx_holds (Rx_Class P) q a s \<longleftrightarrow> (\<exists>c. a = [c] \<and> P c)"
| "rx_holds (Rx_Many P) q a s \<longleftrightarrow> list_all P a"
| "rx_holds Rx_Boundary q a s \<longleftrightarrow> a = [] \<and> at_boundary q s"
| "rx_holds (Rx_Seq r1 r2) q a s \<longleftrightarrow>
     (\<exists>b c. a = b @ c \<and> rx_holds r1 q b (c @ s) \<and> rx_holds r2 (char_before q b) c s)"
| "rx_holds (Rx_Or r1 r2) q a s \<longleftrightarrow> rx_holds r1 q a s \<or> rx_holds r2 q a s"

lemma char_before_Nil [simp]: "char_before q [] = q"
  by (simp add: char_before_def)

lemma char_before_append: "char_before q (a @ b) = char_before (char_before q a) b"
  by (simp add: char_before_def)

lemma char_before_Cons: "char_before q (c # a) = char_before (Some c) a"
  by (simp add: char_before_def)

lemma rx_many_iff:
  "(q', s) \<in> set (rx_many P q t) \<longleftrightarrow> (\<exists>a. t = a @ s \<and> list_all P a \<and> q' = char_before q a)"
proof (induction t arbitrary: q)
  case (Cons c t)
  have "(\<exists>a. c # t = a @ s \<and> list_all P a \<and> q' = char_before q a) \<longleftrightarrow>
      s = c # t \<and> q' = q \<or> P c \<and> (\<exists>a. t = a @ s \<and> list_all P a \<and> q' = char_before (Some c) a)"
    by (auto simp: Cons_eq_append_conv char_before_Cons)
  then show ?case by (auto simp: Cons.IH)
qed auto

lemma rx_text_iff:
  "(q', s) \<in> set (rx_text w q t) \<longleftrightarrow> (\<exists>a. t = a @ s \<and> map lower_char a = map lower_char w \<and> q' = char_before q a)"
proof (induction w q t rule: rx_text.induct)
  case (3 w ws q c t)
  have "(\<exists>a. c # t = a @ s \<and> map lower_char a = map lower_char (w # ws) \<and> q' = char_before q a) \<longleftrightarrow>
      lower_char c = lower_char w \<and> (\<exists>a. t = a @ s \<and> map lower_char a = map lower_char ws \<and> q' = char_before (Some c) a)"
    by (auto simp: Cons_eq_append_conv char_before_Cons)
  then show ?case using 3 by (cases "lower_char c = lower_char w") simp_all
qed auto

lemma rx_ends_iff:
  "(q', s) \<in> set (rx_ends r (q, t)) \<longleftrightarrow> (\<exists>a. t = a @ s \<and> rx_holds r q a s \<and> q' = char_before q a)"
proof (induction r arbitrary: q q' s t)
  case (Rx_Text w)
  show ?case by (simp add: rx_text_iff)
next
  case (Rx_Class P)
  show ?case by (cases t) (fastforce simp: char_before_def)+
next
  case (Rx_Seq r1 r2)
  have "(q', s) \<in> set (rx_ends (Rx_Seq r1 r2) (q, t)) \<longleftrightarrow>
      (\<exists>m u. (m, u) \<in> set (rx_ends r1 (q, t)) \<and> (q', s) \<in> set (rx_ends r2 (m, u)))"
    by auto
  also have "\<dots> \<longleftrightarrow> (\<exists>m u b c. t = b @ u \<and> rx_holds r1 q b u \<and> m = char_before q b
      \<and> u = c @ s \<and> rx_holds r2 m c s \<and> q' = char_before m c)"
    unfolding Rx_Seq.IH by blast
  also have "\<dots> \<longleftrightarrow> (\<exists>b c. t = (b @ c) @ s \<and> rx_holds r1 q b (c @ s) \<and> rx_holds r2 (char_before q b) c s
      \<and> q' = char_before q (b @ c))"
    unfolding char_before_append append_assoc by blast
  also have "\<dots> \<longleftrightarrow> (\<exists>a. t = a @ s \<and> rx_holds (Rx_Seq r1 r2) q a s \<and> q' = char_before q a)"
    unfolding rx_holds.simps by blast
  finally show ?case .
qed (auto simp: rx_many_iff)

lemma places_iff: "(q', s) \<in> set (places q t) \<longleftrightarrow> (\<exists>a. t = a @ s \<and> q' = char_before q a)"
proof (induction t arbitrary: q)
  case (Cons c t)
  have "(\<exists>a. c # t = a @ s \<and> q' = char_before q a) \<longleftrightarrow>
      s = c # t \<and> q' = q \<or> (\<exists>a. t = a @ s \<and> q' = char_before (Some c) a)"
    by (auto simp: Cons_eq_append_conv char_before_Cons)
  then show ?case by (auto simp: Cons.IH)
qed auto

lemma rx_test_iff:
  "rx_test r t \<longleftrightarrow> (\<exists>u a s. t = u @ a @ s \<and> rx_holds r (char_before None u) a s)"
proof -
  have at: "rx_ends r (q, x) \<noteq> [] \<longleftrightarrow> (\<exists>a s. x = a @ s \<and> rx_holds r q a s)" for q x
  proof -
    have "rx_ends r (q, x) \<noteq> [] \<longleftrightarrow> (\<exists>q' s. (q', s) \<in> set (rx_ends r (q, x)))"
      by (cases "rx_ends r (q, x)") auto
    then show ?thesis by (auto simp: rx_ends_iff)
  qed
  have "rx_test r t \<longleftrightarrow> (\<exists>q x. (q, x) \<in> set (places None t) \<and> rx_ends r (q, x) \<noteq> [])"
    unfolding rx_test_def list_ex_iff Bex_def split_paired_Ex ..
  then show ?thesis unfolding at places_iff by blast
qed

lemma rx_all_simps [simp]:
  "rx_all [] = Rx_Empty" "rx_all (r # rs) = Rx_Seq r (rx_all rs)"
  by (simp_all add: rx_all_def)

text \<open>An optional part in front does not matter to a test.\<close>

lemma rx_test_maybe: "rx_test (Rx_Seq (rx_maybe r) r') t \<longleftrightarrow> rx_test r' t"
proof
  assume "rx_test (Rx_Seq (rx_maybe r) r') t"
  then obtain u b c s where "t = u @ (b @ c) @ s" "rx_holds r' (char_before (char_before None u) b) c s"
    by (auto simp: rx_test_iff rx_maybe_def) (metis append.left_neutral char_before_Nil)
  then have "t = (u @ b) @ c @ s \<and> rx_holds r' (char_before None (u @ b)) c s" by (simp add: char_before_append)
  then show "rx_test r' t" unfolding rx_test_iff by blast
next
  assume "rx_test r' t"
  then obtain u a s where "t = u @ a @ s" "rx_holds r' (char_before None u) a s" by (auto simp: rx_test_iff)
  then have "t = u @ a @ s \<and> rx_holds (Rx_Seq (rx_maybe r) r') (char_before None u) a s"
    by (simp add: rx_maybe_def) (metis append.left_neutral char_before_Nil)
  then show "rx_test (Rx_Seq (rx_maybe r) r') t" unfolding rx_test_iff by blast
qed

section \<open>The guard\<close>

definition analytics_transactions_table :: string where
  "analytics_transactions_table = ''analytics_transactions_v1''"

definition analytics_balances_current_table :: string where
  "analytics_balances_current_table = ''analytics_balances_current_v1''"

definition mempool_samples_table :: string where
  "mempool_samples_table = ''mempool_samples_v1''"

definition analytics_query_max_sql_characters :: nat where
  "analytics_query_max_sql_characters = 16384"

definition analytics_allowed_tables :: "string list" where
  "analytics_allowed_tables = [analytics_transactions_table, analytics_balances_current_table, mempool_samples_table]"

definition from_time_placeholder :: string where
  "from_time_placeholder = ''{fromTime:UInt64}''"

definition to_time_placeholder :: string where
  "to_time_placeholder = ''{toTime:UInt64}''"

definition max_height_placeholder :: string where
  "max_height_placeholder = ''{maxFinalizedHeight:UInt64}''"

definition placeholder_patterns :: "(string \<times> string) list" where
  "placeholder_patterns =
     [(from_time_placeholder, ''1''), (to_time_placeholder, ''2''), (max_height_placeholder, ''100''),
      (''{limit:UInt64}'', ''100'')]"

text \<open>\<^verbatim>\<open>(?:\b[a-zA-Z_][\w]*\.)?\bcolumn\b\s*op\s*\<close> followed by the bound.\<close>

definition predicate_rx :: "string \<Rightarrow> string \<Rightarrow> rx \<Rightarrow> rx" where
  "predicate_rx column op bound =
     rx_all [rx_maybe (rx_all [Rx_Boundary, Rx_Class is_name_start, Rx_Many is_word_char, Rx_Text ''.'']),
             Rx_Boundary, Rx_Text column, Rx_Boundary, Rx_Many is_js_space, Rx_Text op, Rx_Many is_js_space, bound]"

text \<open>\<^verbatim>\<open>(?:fromUnixTimestamp|toDateTime)\s*\(\s*placeholder\s*\)\<close>.\<close>

definition date_bound_rx :: "string \<Rightarrow> rx" where
  "date_bound_rx placeholder =
     rx_all [Rx_Or (Rx_Text ''fromUnixTimestamp'') (Rx_Text ''toDateTime''), Rx_Many is_js_space, Rx_Text ''('',
             Rx_Many is_js_space, Rx_Text placeholder, Rx_Many is_js_space, Rx_Text '')'']"

record table_policy =
  tp_required_placeholders :: "string list"
  tp_predicates :: "(string \<times> rx) list"

definition table_predicate_policies :: "(string \<times> table_policy) list" where
  "table_predicate_policies =
     [(analytics_transactions_table,
       \<lparr>tp_required_placeholders = [from_time_placeholder, to_time_placeholder, max_height_placeholder],
        tp_predicates =
          [(''block_time'', predicate_rx ''block_time'' ''>='' (Rx_Text from_time_placeholder)),
           (''block_time'', predicate_rx ''block_time'' ''<'' (Rx_Text to_time_placeholder)),
           (''block_height'', predicate_rx ''block_height'' ''<='' (Rx_Text max_height_placeholder))]\<rparr>),
      (analytics_balances_current_table,
       \<lparr>tp_required_placeholders = [max_height_placeholder],
        tp_predicates =
          [(''as_of_block_height'', predicate_rx ''as_of_block_height'' ''<='' (Rx_Text max_height_placeholder))]\<rparr>),
      (mempool_samples_table,
       \<lparr>tp_required_placeholders = [from_time_placeholder, to_time_placeholder],
        tp_predicates =
          [(''sampled_at'', predicate_rx ''sampled_at'' ''>='' (date_bound_rx from_time_placeholder)),
           (''sampled_at'', predicate_rx ''sampled_at'' ''<'' (date_bound_rx to_time_placeholder))]\<rparr>)]"

definition disallowed_sql_patterns :: "(string \<times> rx) list" where
  "disallowed_sql_patterns =
     [(''FINAL'', rx_all [Rx_Boundary, Rx_Text ''FINAL'', Rx_Boundary]),
      (''FORMAT'', rx_all [Rx_Boundary, Rx_Text ''FORMAT'', Rx_Boundary]),
      (''INTO OUTFILE'', rx_all [Rx_Boundary, Rx_Text ''INTO'', Rx_Class is_js_space, Rx_Many is_js_space,
         Rx_Text ''OUTFILE'', Rx_Boundary]),
      (''SETTINGS'', rx_all [Rx_Boundary, Rx_Text ''SETTINGS'', Rx_Boundary])]"

subsection \<open>Comments and strings\<close>

text \<open>The text behind the first \<^verbatim>\<open>*/\<close>.\<close>

fun after_comment_end :: "string \<Rightarrow> string option" where
  "after_comment_end [] = None"
| "after_comment_end (c # cs) = (if starts_with ''*/'' (c # cs) then Some (tl cs) else after_comment_end cs)"

lemma length_after_comment_end: "after_comment_end s = Some r \<Longrightarrow> length r < length s"
  by (induction s rule: after_comment_end.induct) (auto split: if_splits)

text \<open>\<^verbatim>\<open>.replace(/\/\*[\s\S]*?\*\//gu, ' ')\<close>.\<close>

function strip_block_comments :: "string \<Rightarrow> string" where
  "strip_block_comments [] = []"
| "strip_block_comments (c # cs) =
     (if starts_with ''/*'' (c # cs) then
        (case after_comment_end (tl cs) of
           None \<Rightarrow> c # strip_block_comments cs
         | Some r \<Rightarrow> CHR '' '' # strip_block_comments r)
      else c # strip_block_comments cs)"
  by pat_completeness auto

termination
proof (relation "measure length", goal_cases)
  case (3 c cs r)
  show ?case using length_after_comment_end [OF 3(2)] by simp
qed simp_all

definition is_line_end :: "char \<Rightarrow> bool" where
  "is_line_end c \<longleftrightarrow> char_code c = 10 \<or> char_code c = 13"

text \<open>\<^verbatim>\<open>.replace(/--[^\n\r]*/gu, ' ')\<close>.\<close>

function strip_line_comments :: "string \<Rightarrow> string" where
  "strip_line_comments [] = []"
| "strip_line_comments (c # cs) =
     (if starts_with ''--'' (c # cs)
      then CHR '' '' # strip_line_comments (dropWhile (\<lambda>x. \<not> is_line_end x) (tl cs))
      else c # strip_line_comments cs)"
  by pat_completeness auto

termination
  by (relation "measure length") (auto intro!: le_less_trans [OF length_dropWhile_le])

definition quote :: char where
  "quote = CHR 0x27"

text \<open>
  \<^verbatim>\<open>/'(?:''|[^'])*'/\<close> behind its opening quote: the rest of the text behind the match. A doubled
  quote stays inside the string, unless the text then ends without a closing quote: the match is
  shortened to end with the first of the two.
\<close>

fun after_string_end :: "string \<Rightarrow> string option" where
  "after_string_end [] = None"
| "after_string_end [c] = (if c = quote then Some [] else None)"
| "after_string_end (c # d # ds) =
     (if c \<noteq> quote then after_string_end (d # ds)
      else if d = quote then (case after_string_end ds of None \<Rightarrow> Some (d # ds) | Some r \<Rightarrow> Some r)
      else Some (d # ds))"

lemma length_after_string_end: "after_string_end s = Some r \<Longrightarrow> length r < length s"
  by (induction s rule: after_string_end.induct) (auto split: if_splits option.splits)

text \<open>\<^verbatim>\<open>.replace(/'(?:''|[^'])*'/gu, "''")\<close>.\<close>

function strip_strings :: "string \<Rightarrow> string" where
  "strip_strings [] = []"
| "strip_strings (c # cs) =
     (if c = quote then
        (case after_string_end cs of None \<Rightarrow> c # strip_strings cs | Some r \<Rightarrow> quote # quote # strip_strings r)
      else c # strip_strings cs)"
  by pat_completeness auto

termination
proof (relation "measure length", goal_cases)
  case (3 c cs r)
  show ?case using length_after_string_end [OF 3(2)] by simp
qed simp_all

definition strip_sql_comments_and_strings :: "string \<Rightarrow> string" where
  "strip_sql_comments_and_strings sql = strip_strings (strip_line_comments (strip_block_comments sql))"

definition assert_no_disallowed_sql_clauses :: "string \<Rightarrow> unit res" where
  "assert_no_disallowed_sql_clauses sql =
     (case find (\<lambda>(label, pattern). rx_test pattern (strip_sql_comments_and_strings sql)) disallowed_sql_patterns of
        Some (label, _) \<Rightarrow> Inl (ValidationError (''analytics SQL cannot use '' @ label))
      | None \<Rightarrow> Inr ())"

text \<open>\<^verbatim>\<open>.replace(/;+\s*$/u, '')\<close>.\<close>

fun drop_final_semicolons :: "string \<Rightarrow> string" where
  "drop_final_semicolons [] = []"
| "drop_final_semicolons (c # cs) =
     (if c = CHR '';'' \<and> list_all is_js_space (dropWhile (\<lambda>x. x = CHR '';'') cs) then []
      else c # drop_final_semicolons cs)"

definition normalize_sql :: "string \<Rightarrow> string res" where
  "normalize_sql input =
     (let trimmed = drop_final_semicolons (js_trim input) in
      if trimmed = [] then Inl (ValidationError ''analytics SQL is required'')
      else if analytics_query_max_sql_characters < length trimmed
      then Inl (ValidationError ''analytics SQL exceeds maximum length'')
      else if CHR '';'' \<in> set trimmed then Inl (ValidationError ''analytics SQL must contain one statement'')
      else and_then (assert_no_disallowed_sql_clauses trimmed) (\<lambda>_. Inr trimmed))"

fun assert_required_placeholders :: "string \<Rightarrow> string list \<Rightarrow> unit res" where
  "assert_required_placeholders sql [] = Inr ()"
| "assert_required_placeholders sql (p # ps) =
     (if js_includes p sql then assert_required_placeholders sql ps
      else Inl (ValidationError (''analytics SQL must include '' @ p)))"

text \<open>\<^verbatim>\<open>text.replace\<close> of every occurrence of a text.\<close>

function replace_every :: "string \<Rightarrow> string \<Rightarrow> string \<Rightarrow> string" where
  "replace_every p r [] = []"
| "replace_every p r (c # cs) =
     (if p \<noteq> [] \<and> starts_with p (c # cs) then r @ replace_every p r (drop (length p) (c # cs))
      else c # replace_every p r cs)"
  by pat_completeness auto

termination
  by (relation "measure (\<lambda>(p, r, s). length s)") auto

definition sql_with_parser_placeholders :: "string \<Rightarrow> string" where
  "sql_with_parser_placeholders sql = fold (\<lambda>(pattern, replacement). replace_every pattern replacement) placeholder_patterns sql"

subsection \<open>The parsed statement\<close>

fun is_record :: "json \<Rightarrow> bool" where
  "is_record (JObj _) = True"
| "is_record _ = False"

fun json_string_value :: "json \<Rightarrow> string option" where
  "json_string_value (JStr s) = Some s"
| "json_string_value _ = None"

definition has_own_prop :: "json \<Rightarrow> string \<Rightarrow> bool" where
  "has_own_prop v k = (case v of JObj fs \<Rightarrow> map_of fs k \<noteq> None | _ \<Rightarrow> False)"

text \<open>The entries of the statement's \<^verbatim>\<open>with\<close> clause, if it is an array.\<close>

definition with_items :: "json \<Rightarrow> json list" where
  "with_items ast = (case own_prop ast ''with'' of JArr items \<Rightarrow> items | _ \<Rightarrow> [])"

definition collect_select_statements :: "json \<Rightarrow> json list" where
  "collect_select_statements ast =
     ast # map (\<lambda>item. own_prop item ''stmt'')
       (filter (\<lambda>item. is_record item \<and> has_own_prop item ''stmt'') (with_items ast))"

definition is_select :: "json \<Rightarrow> bool" where
  "is_select v \<longleftrightarrow> is_record v \<and> own_prop v ''type'' = JStr ''select''"

definition assert_select_ast :: "json \<Rightarrow> unit res" where
  "assert_select_ast ast =
     (if \<not> is_select ast then Inl (ValidationError ''analytics SQL must be a SELECT'')
      else if \<not> list_all is_select (collect_select_statements ast)
      then Inl (ValidationError ''analytics SQL must only use SELECT statements'')
      else Inr ())"

fun contains_select_star :: "json \<Rightarrow> bool" where
  "contains_select_star (JArr xs) = list_ex contains_select_star xs"
| "contains_select_star (JObj fs) =
     (map_of fs ''type'' = Some (JStr ''column_ref'') \<and> map_of fs ''column'' = Some (JStr ''*'')
      \<or> list_ex (\<lambda>f. contains_select_star (snd f)) fs)"
| "contains_select_star _ = False"

definition assert_no_select_star :: "json \<Rightarrow> unit res" where
  "assert_no_select_star ast =
     (if contains_select_star ast then Inl (ValidationError ''analytics SQL cannot use SELECT *'') else Inr ())"

definition collect_cte_names :: "json \<Rightarrow> string list" where
  "collect_cte_names ast =
     filter (\<lambda>n. n \<noteq> [])
       (List.map_filter (\<lambda>item. json_string_value (own_prop (own_prop item ''name'') ''value'')) (with_items ast))"

text \<open>\<^verbatim>\<open>text.split('::')\<close>.\<close>

fun split_colons :: "string \<Rightarrow> string list" where
  "split_colons [] = [[]]"
| "split_colons [c] = [[c]]"
| "split_colons (c # d # s) =
     (if c = CHR '':'' \<and> d = CHR '':'' then [] # split_colons s
      else (case split_colons (d # s) of [] \<Rightarrow> [[c]] | p # ps \<Rightarrow> (c # p) # ps))"

lemma split_colons_not_Nil [simp]: "split_colons s \<noteq> []"
  by (induction s rule: split_colons.induct) (auto split: list.splits)

definition table_list_name :: "string \<Rightarrow> string" where
  "table_list_name v = last (split_colons v)"

text \<open>What \<^verbatim>\<open>node-sql-parser\<close> answers for a text: its syntax tree and its list of tables.\<close>

record sql_parser =
  sp_astify :: "string \<Rightarrow> json res"
  sp_table_list :: "string \<Rightarrow> string list res"

text \<open>An empty name is found as invalid, but is not truthy, so it is not refused.\<close>

definition assert_allowed_tables :: "sql_parser \<Rightarrow> string \<Rightarrow> json \<Rightarrow> string list res" where
  "assert_allowed_tables ps sql ast =
     and_then (sp_table_list ps sql) (\<lambda>listed.
       let tables = map table_list_name listed;
           invalid = find (\<lambda>t. t \<notin> set analytics_allowed_tables \<and> t \<notin> set (collect_cte_names ast)) tables;
           referenced = filter (\<lambda>t. t \<in> set analytics_allowed_tables) tables in
       case invalid of
         Some (c # cs) \<Rightarrow> Inl (ValidationError (''analytics SQL cannot query table: '' @ c # cs))
       | _ \<Rightarrow>
           if referenced = [] then Inl (ValidationError ''analytics SQL must query a curated analytics table'')
           else Inr (unique referenced))"

fun assert_table_predicates :: "string \<Rightarrow> (string \<times> rx) list \<Rightarrow> unit res" where
  "assert_table_predicates sql [] = Inr ()"
| "assert_table_predicates sql ((column, pattern) # ps) =
     (if rx_test pattern sql then assert_table_predicates sql ps
      else Inl (ValidationError (''analytics SQL must constrain '' @ column)))"

definition policy_of :: "string \<Rightarrow> table_policy" where
  "policy_of table =
     (case map_of table_predicate_policies table of
        Some p \<Rightarrow> p | None \<Rightarrow> \<lparr>tp_required_placeholders = [], tp_predicates = []\<rparr>)"

definition assert_table_predicate_policies :: "string \<Rightarrow> string list \<Rightarrow> unit res" where
  "assert_table_predicate_policies sql tables =
     (let searchable = strip_sql_comments_and_strings sql in
      and_then (fold_res (\<lambda>table _. assert_table_predicates searchable (tp_predicates (policy_of table))) tables ()) (\<lambda>_.
      assert_required_placeholders sql (unique (concat (map (\<lambda>t. tp_required_placeholders (policy_of t)) tables)))))"

definition validate_analytics_sql :: "sql_parser \<Rightarrow> string \<Rightarrow> string res" where
  "validate_analytics_sql ps input =
     and_then (normalize_sql input) (\<lambda>sql.
       let parsed_sql = sql_with_parser_placeholders sql in
       and_then (sp_astify ps parsed_sql) (\<lambda>ast.
         case ast of
           JArr _ \<Rightarrow> Inl (ValidationError ''analytics SQL must contain one SELECT statement'')
         | _ \<Rightarrow>
             and_then (assert_select_ast ast) (\<lambda>_.
             and_then (assert_no_select_star ast) (\<lambda>_.
             and_then (assert_allowed_tables ps parsed_sql ast) (\<lambda>tables.
             and_then (assert_table_predicate_policies sql tables) (\<lambda>_. Inr sql))))))"

section \<open>What is let through\<close>

text \<open>Texts that differ in the case of letters only, and words of a text.\<close>

definition same_text :: "string \<Rightarrow> string \<Rightarrow> bool" where
  "same_text a b \<longleftrightarrow> map lower_char a = map lower_char b"

definition ends_in_word :: "string \<Rightarrow> bool" where
  "ends_in_word u \<longleftrightarrow> u \<noteq> [] \<and> is_word_char (last u)"

definition starts_in_word :: "string \<Rightarrow> bool" where
  "starts_in_word s \<longleftrightarrow> s \<noteq> [] \<and> is_word_char (hd s)"

definition has_word :: "string \<Rightarrow> string \<Rightarrow> bool" where
  "has_word w t \<longleftrightarrow> (\<exists>u a s. t = u @ a @ s \<and> same_text a w \<and> \<not> ends_in_word u \<and> \<not> starts_in_word s)"

definition has_two_words :: "string \<Rightarrow> string \<Rightarrow> string \<Rightarrow> bool" where
  "has_two_words v w t \<longleftrightarrow>
     (\<exists>u a x b s. t = u @ a @ x @ b @ s \<and> same_text a v \<and> x \<noteq> [] \<and> list_all is_js_space x \<and> same_text b w
       \<and> \<not> ends_in_word u \<and> \<not> starts_in_word s)"

text \<open>The column is compared with a bound somewhere in the text; white space may surround the operator.\<close>

definition compares :: "string \<Rightarrow> string \<Rightarrow> (string \<Rightarrow> bool) \<Rightarrow> string \<Rightarrow> bool" where
  "compares column op bound t \<longleftrightarrow>
     (\<exists>u a x p y b s. t = u @ a @ x @ p @ y @ b @ s \<and> same_text a column \<and> list_all is_js_space x
       \<and> same_text p op \<and> list_all is_js_space y \<and> bound b \<and> \<not> ends_in_word u)"

definition date_of :: "string \<Rightarrow> string \<Rightarrow> bool" where
  "date_of placeholder b \<longleftrightarrow>
     (\<exists>f x l y p z r. b = f @ x @ l @ y @ p @ z @ r \<and> (same_text f ''fromUnixTimestamp'' \<or> same_text f ''toDateTime'')
       \<and> list_all is_js_space x \<and> same_text l ''('' \<and> list_all is_js_space y \<and> same_text p placeholder
       \<and> list_all is_js_space z \<and> same_text r '')'')"

lemma char_code_char_of: "n < 256 \<Longrightarrow> char_code (char_of n) = n"
  by (simp add: char_code_def of_char_of)

lemma is_word_char_lower [simp]: "is_word_char (lower_char c) = is_word_char c"
proof -
  have us: "c = CHR ''_'' \<longleftrightarrow> char_code c = 95" for c :: char
  proof -
    have "(of_char c :: nat) = of_char CHR ''_'' \<longleftrightarrow> c = CHR ''_''" by (rule of_char_eq_iff)
    then show ?thesis by (simp add: char_code_def)
  qed
  have code: "char_code (lower_char c) =
      (let n = char_code c in if 65 \<le> n \<and> n \<le> 90 \<or> 192 \<le> n \<and> n \<le> 222 \<and> n \<noteq> 215 then n + 32 else n)"
    unfolding lower_char_def Let_def by (simp add: char_code_char_of)
  show ?thesis
    unfolding is_word_char_def us is_alnum_def Let_def code by (simp split: if_splits)
qed

lemma at_boundary_iff: "at_boundary (char_before None u) s \<longleftrightarrow> ends_in_word u \<noteq> starts_in_word s"
  by (auto simp: at_boundary_def char_before_def ends_in_word_def starts_in_word_def split: list.splits)

lemma at_boundary_behind:
  "a \<noteq> [] \<Longrightarrow> at_boundary (char_before q a) s \<longleftrightarrow> ends_in_word a \<noteq> starts_in_word s"
  by (auto simp: at_boundary_def char_before_def ends_in_word_def starts_in_word_def split: list.splits)

lemma starts_in_word_append: "a \<noteq> [] \<Longrightarrow> starts_in_word (a @ s) = starts_in_word a"
  by (simp add: starts_in_word_def)

lemma same_text_facts:
  assumes "same_text a w"
  shows "a = [] \<longleftrightarrow> w = []" and "starts_in_word a = starts_in_word w" and "ends_in_word a = ends_in_word w"
proof -
  have m: "map lower_char a = map lower_char w" using assms by (simp only: same_text_def)
  show e: "a = [] \<longleftrightarrow> w = []" using m by (metis map_is_Nil_conv)
  have hd: "is_word_char (hd x) = is_word_char (hd (map lower_char x))" if "x \<noteq> []" for x
    using that by (simp add: hd_map)
  have last: "is_word_char (last x) = is_word_char (last (map lower_char x))" if "x \<noteq> []" for x
    using that by (simp add: last_map)
  show "starts_in_word a = starts_in_word w" unfolding starts_in_word_def using e hd m by metis
  show "ends_in_word a = ends_in_word w" unfolding ends_in_word_def using e last m by metis
qed

lemma rx_test_word:
  assumes "starts_in_word w" and "ends_in_word w"
  shows "rx_test (rx_all [Rx_Boundary, Rx_Text w, Rx_Boundary]) t \<longleftrightarrow> has_word w t"
proof -
  have ne: "w \<noteq> []" using assms(1) by (simp add: starts_in_word_def)
  have "rx_holds (rx_all [Rx_Boundary, Rx_Text w, Rx_Boundary]) (char_before None u) a s
      \<longleftrightarrow> same_text a w \<and> \<not> ends_in_word u \<and> \<not> starts_in_word s" for u a s
  proof -
    have "rx_holds (rx_all [Rx_Boundary, Rx_Text w, Rx_Boundary]) (char_before None u) a s
      \<longleftrightarrow> at_boundary (char_before None u) (a @ s) \<and> same_text a w \<and> at_boundary (char_before (char_before None u) a) s"
      by (auto simp: same_text_def)
    also have "\<dots> \<longleftrightarrow> same_text a w \<and> \<not> ends_in_word u \<and> \<not> starts_in_word s"
      using same_text_facts [of a w] assms ne at_boundary_behind [of a "char_before None u" s]
      by (auto simp: at_boundary_iff starts_in_word_append)
    finally show ?thesis .
  qed
  then show ?thesis by (simp only: rx_test_iff has_word_def)
qed

lemma not_space_word: "is_js_space c \<Longrightarrow> \<not> is_word_char c"
  unfolding is_js_space_def is_word_char_def is_alnum_def by (auto simp: char_code_def)

lemma spaces_not_words: "list_all is_js_space x \<Longrightarrow> x \<noteq> [] \<Longrightarrow> \<not> starts_in_word (x @ s)"
  by (cases x) (auto simp: starts_in_word_def not_space_word)

lemma rx_seq_simps:
  "rx_holds (Rx_Seq Rx_Boundary r) q m s \<longleftrightarrow> at_boundary q (m @ s) \<and> rx_holds r q m s"
  "rx_holds (Rx_Seq (Rx_Text w) r) q m s \<longleftrightarrow>
     (\<exists>a b. m = a @ b \<and> same_text a w \<and> rx_holds r (char_before q a) b s)"
  "rx_holds (Rx_Seq (Rx_Many P) r) q m s \<longleftrightarrow>
     (\<exists>a b. m = a @ b \<and> list_all P a \<and> rx_holds r (char_before q a) b s)"
  "rx_holds (Rx_Seq (Rx_Class P) r) q m s \<longleftrightarrow> (\<exists>c b. m = c # b \<and> P c \<and> rx_holds r (Some c) b s)"
  "rx_holds (Rx_Seq r Rx_Empty) q m s \<longleftrightarrow> rx_holds r q m s"
  "rx_holds (Rx_Text w) q m s \<longleftrightarrow> same_text m w"
proof -
  show "rx_holds (Rx_Seq (Rx_Class P) r) q m s \<longleftrightarrow> (\<exists>c b. m = c # b \<and> P c \<and> rx_holds r (Some c) b s)"
  proof
    assume "rx_holds (Rx_Seq (Rx_Class P) r) q m s"
    then show "\<exists>c b. m = c # b \<and> P c \<and> rx_holds r (Some c) b s" by (auto simp: char_before_def)
  next
    assume "\<exists>c b. m = c # b \<and> P c \<and> rx_holds r (Some c) b s"
    then obtain c b where "m = [c] @ b" "P c" "rx_holds r (char_before q [c]) b s" by (auto simp: char_before_def)
    then show "rx_holds (Rx_Seq (Rx_Class P) r) q m s" unfolding rx_holds.simps by blast
  qed
qed (simp_all add: same_text_def)

lemma rx_test_two_words:
  assumes "starts_in_word v" and "starts_in_word w" and "ends_in_word w"
  shows "rx_test (rx_all [Rx_Boundary, Rx_Text v, Rx_Class is_js_space, Rx_Many is_js_space, Rx_Text w, Rx_Boundary]) t
     \<longleftrightarrow> has_two_words v w t"
proof -
  let ?r = "rx_all [Rx_Boundary, Rx_Text v, Rx_Class is_js_space, Rx_Many is_js_space, Rx_Text w, Rx_Boundary]"
  have ne: "v \<noteq> []" "w \<noteq> []" using assms by (auto simp: starts_in_word_def)
  have "rx_holds ?r (char_before None u) m s \<longleftrightarrow>
      (\<exists>a x b. m = a @ x @ b \<and> same_text a v \<and> x \<noteq> [] \<and> list_all is_js_space x \<and> same_text b w
        \<and> \<not> ends_in_word u \<and> \<not> starts_in_word s)" for u m s
  proof -
    have "rx_holds ?r (char_before None u) m s \<longleftrightarrow>
      (\<exists>a c x b. m = a @ (c # x) @ b \<and> at_boundary (char_before None u) (m @ s) \<and> same_text a v \<and> is_js_space c
        \<and> list_all is_js_space x \<and> same_text b w
        \<and> at_boundary (char_before (char_before None u) (a @ c # x @ b)) s)"
      unfolding rx_all_simps rx_seq_simps
      by (intro iffI; elim exE conjE; hypsubst; intro exI conjI;
          (rule refl | assumption | simp add: char_before_append char_before_Cons))
    also have "\<dots> \<longleftrightarrow> (\<exists>a c x b. m = a @ (c # x) @ b \<and> same_text a v \<and> is_js_space c \<and> list_all is_js_space x
        \<and> same_text b w \<and> \<not> ends_in_word u \<and> \<not> starts_in_word s)"
    proof -
      have "at_boundary (char_before None u) ((a @ (c # x) @ b) @ s) \<longleftrightarrow> \<not> ends_in_word u" if "same_text a v" for a c x b
        using same_text_facts [OF that] assms ne by (simp add: at_boundary_iff starts_in_word_append)
      moreover have "at_boundary (char_before (char_before None u) (a @ c # x @ b)) s \<longleftrightarrow> \<not> starts_in_word s"
        if "same_text b w" for a c x b
        using same_text_facts [OF that] assms ne
          at_boundary_behind [of b "char_before (char_before None u) (a @ c # x)" s]
        by (simp add: char_before_append [symmetric])
      ultimately show ?thesis by blast
    qed
    also have "\<dots> \<longleftrightarrow> (\<exists>a x b. m = a @ x @ b \<and> same_text a v \<and> x \<noteq> [] \<and> list_all is_js_space x \<and> same_text b w
        \<and> \<not> ends_in_word u \<and> \<not> starts_in_word s)"
      by (metis list.exhaust list.pred_inject(2) list.distinct(1))
    finally show ?thesis .
  qed
  then have "rx_test ?r t \<longleftrightarrow> (\<exists>u a x b s. t = u @ (a @ x @ b) @ s \<and> same_text a v \<and> x \<noteq> []
      \<and> list_all is_js_space x \<and> same_text b w \<and> \<not> ends_in_word u \<and> \<not> starts_in_word s)"
    unfolding rx_test_iff
    by (simp only:) (intro iffI; elim exE conjE; hypsubst; intro exI conjI; (rule refl | assumption))
  also have "\<dots> \<longleftrightarrow> has_two_words v w t" unfolding has_two_words_def append_assoc ..
  finally show ?thesis .
qed

lemma rx_test_predicate:
  assumes "starts_in_word column" and "ends_in_word column" and "op \<noteq> []" and "\<not> starts_in_word op"
    and bound: "\<And>q b s. rx_holds r q b s \<longleftrightarrow> B b"
  shows "rx_test (predicate_rx column op r) t \<longleftrightarrow> compares column op B t"
proof -
  let ?r = "rx_all [Rx_Boundary, Rx_Text column, Rx_Boundary, Rx_Many is_js_space, Rx_Text op, Rx_Many is_js_space, r]"
  have ne: "column \<noteq> []" using assms by (auto simp: starts_in_word_def)
  have "rx_holds ?r (char_before None u) m s \<longleftrightarrow>
      (\<exists>a x p y b. m = a @ x @ p @ y @ b \<and> same_text a column \<and> list_all is_js_space x
        \<and> same_text p op \<and> list_all is_js_space y \<and> B b \<and> \<not> ends_in_word u)" for u m s
  proof -
    have "rx_holds ?r (char_before None u) m s \<longleftrightarrow>
      (\<exists>a x p y b. m = a @ x @ p @ y @ b \<and> at_boundary (char_before None u) (m @ s) \<and> same_text a column
        \<and> at_boundary (char_before (char_before None u) a) (x @ p @ y @ b @ s)
        \<and> list_all is_js_space x \<and> same_text p op \<and> list_all is_js_space y \<and> B b)"
      unfolding rx_all_simps rx_seq_simps bound append_assoc
      by (intro iffI; elim exE conjE; hypsubst; intro exI conjI; (rule refl | assumption | simp))
    also have "\<dots> \<longleftrightarrow> (\<exists>a x p y b. m = a @ x @ p @ y @ b \<and> same_text a column \<and> list_all is_js_space x
        \<and> same_text p op \<and> list_all is_js_space y \<and> B b \<and> \<not> ends_in_word u)"
    proof -
      have before: "at_boundary (char_before None u) (a @ x @ p @ y @ b @ s) \<longleftrightarrow> \<not> ends_in_word u"
        if "same_text a column" for a x p y b
        using same_text_facts [OF that] assms ne by (simp add: at_boundary_iff starts_in_word_append)
      have behind: "at_boundary (char_before (char_before None u) a) (x @ p @ y @ b @ s)"
        if "same_text a column" "list_all is_js_space x" "same_text p op" for a x p y b
      proof -
        have "\<not> starts_in_word (x @ p @ y @ b @ s)"
          using spaces_not_words [OF that(2)] same_text_facts [OF that(3)] assms(3,4)
          by (cases "x = []") (simp_all add: starts_in_word_append)
        moreover have "a \<noteq> []" "ends_in_word a" using same_text_facts [OF that(1)] assms(2) ne by blast+
        ultimately show ?thesis by (simp only: at_boundary_behind simp_thms)
      qed
      show ?thesis
        by (intro ex_cong1) (auto simp only: before behind append_assoc)
    qed
    finally show ?thesis .
  qed
  then have "rx_test ?r t \<longleftrightarrow> (\<exists>u a x p y b s. t = u @ (a @ x @ p @ y @ b) @ s \<and> same_text a column
      \<and> list_all is_js_space x \<and> same_text p op \<and> list_all is_js_space y \<and> B b \<and> \<not> ends_in_word u)"
    unfolding rx_test_iff
    by (simp only:) (intro iffI; elim exE conjE; hypsubst; intro exI conjI; (rule refl | assumption))
  also have "\<dots> \<longleftrightarrow> compares column op B t" unfolding compares_def append_assoc ..
  finally show ?thesis unfolding predicate_rx_def rx_all_simps(2) [of "rx_maybe _"] rx_test_maybe .
qed

lemma date_bound_holds: "rx_holds (date_bound_rx p) q b s \<longleftrightarrow> date_of p b"
proof -
  have either: "rx_holds (Rx_Seq (Rx_Or (Rx_Text v) (Rx_Text w)) r) q b s \<longleftrightarrow>
      (\<exists>f c. b = f @ c \<and> (same_text f v \<or> same_text f w) \<and> rx_holds r (char_before q f) c s)" for v w r q b s
    by (simp add: same_text_def)
  show ?thesis
    unfolding date_bound_rx_def date_of_def rx_all_simps either rx_seq_simps
    by (intro iffI; elim exE conjE; hypsubst; intro exI conjI; (rule refl | assumption))
qed

text \<open>
  \<open>guarded_sql\<close>: what a client's text must be to reach the database. The clauses and comparisons
  are looked for in the text without comments and strings.
\<close>

definition bounded_tables :: "string \<Rightarrow> string set \<Rightarrow> bool" where
  "bounded_tables sql tables \<longleftrightarrow>
     (let t = strip_sql_comments_and_strings sql in
      (analytics_transactions_table \<in> tables \<longrightarrow>
         compares ''block_time'' ''>='' (\<lambda>b. same_text b from_time_placeholder) t
         \<and> compares ''block_time'' ''<'' (\<lambda>b. same_text b to_time_placeholder) t
         \<and> compares ''block_height'' ''<='' (\<lambda>b. same_text b max_height_placeholder) t
         \<and> js_includes from_time_placeholder sql \<and> js_includes to_time_placeholder sql
         \<and> js_includes max_height_placeholder sql)
      \<and> (analytics_balances_current_table \<in> tables \<longrightarrow>
         compares ''as_of_block_height'' ''<='' (\<lambda>b. same_text b max_height_placeholder) t
         \<and> js_includes max_height_placeholder sql)
      \<and> (mempool_samples_table \<in> tables \<longrightarrow>
         compares ''sampled_at'' ''>='' (date_of from_time_placeholder) t
         \<and> compares ''sampled_at'' ''<'' (date_of to_time_placeholder) t
         \<and> js_includes from_time_placeholder sql \<and> js_includes to_time_placeholder sql))"

definition guarded_statement :: "json \<Rightarrow> string list \<Rightarrow> bool" where
  "guarded_statement ast listed \<longleftrightarrow>
     is_select ast
     \<and> (\<forall>item \<in> set (with_items ast). is_record item \<and> has_own_prop item ''stmt'' \<longrightarrow> is_select (own_prop item ''stmt''))
     \<and> \<not> contains_select_star ast
     \<and> (\<exists>x \<in> set listed. table_list_name x \<in> set analytics_allowed_tables)
     \<and> (\<forall>before x after. listed = before @ x # after \<longrightarrow> [] \<notin> table_list_name ` set (before @ [x])
          \<longrightarrow> table_list_name x \<in> set analytics_allowed_tables \<union> set (collect_cte_names ast))"

definition guarded_sql :: "sql_parser \<Rightarrow> string \<Rightarrow> bool" where
  "guarded_sql ps sql \<longleftrightarrow>
     sql \<noteq> [] \<and> length sql \<le> analytics_query_max_sql_characters \<and> CHR '';'' \<notin> set sql
     \<and> (let t = strip_sql_comments_and_strings sql in
         \<not> has_word ''FINAL'' t \<and> \<not> has_word ''FORMAT'' t \<and> \<not> has_word ''SETTINGS'' t
         \<and> \<not> has_two_words ''INTO'' ''OUTFILE'' t)
     \<and> (\<exists>ast listed. sp_astify ps (sql_with_parser_placeholders sql) = Inr ast
          \<and> sp_table_list ps (sql_with_parser_placeholders sql) = Inr listed
          \<and> guarded_statement ast listed \<and> bounded_tables sql (table_list_name ` set listed))"

lemma words_not_empty [simp]:
  "starts_in_word ''FINAL''" "ends_in_word ''FINAL''" "starts_in_word ''FORMAT''" "ends_in_word ''FORMAT''"
  "starts_in_word ''SETTINGS''" "ends_in_word ''SETTINGS''" "starts_in_word ''INTO''"
  "starts_in_word ''OUTFILE''" "ends_in_word ''OUTFILE''"
  "starts_in_word ''block_time''" "ends_in_word ''block_time''" "starts_in_word ''block_height''"
  "ends_in_word ''block_height''" "starts_in_word ''as_of_block_height''" "ends_in_word ''as_of_block_height''"
  "starts_in_word ''sampled_at''" "ends_in_word ''sampled_at''"
  "\<not> starts_in_word ''>=''" "\<not> starts_in_word ''<''" "\<not> starts_in_word ''<=''"
  by code_simp+

lemma no_disallowed_clause_iff:
  "assert_no_disallowed_sql_clauses sql = Inr () \<longleftrightarrow>
     (let t = strip_sql_comments_and_strings sql in
      \<not> has_word ''FINAL'' t \<and> \<not> has_word ''FORMAT'' t \<and> \<not> has_word ''SETTINGS'' t
      \<and> \<not> has_two_words ''INTO'' ''OUTFILE'' t)"
proof -
  have none: "assert_no_disallowed_sql_clauses sql = Inr () \<longleftrightarrow>
      (\<forall>p \<in> set disallowed_sql_patterns. \<not> rx_test (snd p) (strip_sql_comments_and_strings sql))"
  proof -
    have "assert_no_disallowed_sql_clauses sql = Inr () \<longleftrightarrow>
        find (\<lambda>(l, p). rx_test p (strip_sql_comments_and_strings sql)) disallowed_sql_patterns = None"
      by (simp add: assert_no_disallowed_sql_clauses_def split: option.split prod.split)
    also have "\<dots> \<longleftrightarrow> (\<forall>p \<in> set disallowed_sql_patterns. \<not> rx_test (snd p) (strip_sql_comments_and_strings sql))"
      unfolding find_None_iff case_prod_beta by blast
    finally show ?thesis .
  qed
  show ?thesis
    unfolding none disallowed_sql_patterns_def Let_def by (simp add: rx_test_word rx_test_two_words del: rx_all_simps) blast?
qed

lemma normalize_sql_iff:
  "normalize_sql input = Inr sql \<longleftrightarrow>
     sql = drop_final_semicolons (js_trim input) \<and> sql \<noteq> [] \<and> length sql \<le> analytics_query_max_sql_characters
     \<and> CHR '';'' \<notin> set sql \<and> assert_no_disallowed_sql_clauses sql = Inr ()"
  by (auto simp: normalize_sql_def Let_def res_simps split: if_splits)

lemma assert_table_predicates_iff:
  "assert_table_predicates sql ps = Inr () \<longleftrightarrow> (\<forall>p \<in> set ps. rx_test (snd p) sql)"
  by (induction sql ps rule: assert_table_predicates.induct) auto

lemma assert_required_placeholders_iff:
  "assert_required_placeholders sql ps = Inr () \<longleftrightarrow> (\<forall>p \<in> set ps. js_includes p sql)"
  by (induction sql ps rule: assert_required_placeholders.induct) auto

lemma fold_res_unit:
  "fold_res (\<lambda>x _. f x) xs () = Inr () \<longleftrightarrow> (\<forall>x \<in> set xs. f x = Inr ())"
proof (induction xs)
  case (Cons x xs)
  then show ?case by (cases "f x") auto
qed simp

lemma policy_of_simps [simp]:
  "tp_required_placeholders (policy_of analytics_transactions_table) =
     [from_time_placeholder, to_time_placeholder, max_height_placeholder]"
  "tp_predicates (policy_of analytics_transactions_table) =
     [(''block_time'', predicate_rx ''block_time'' ''>='' (Rx_Text from_time_placeholder)),
      (''block_time'', predicate_rx ''block_time'' ''<'' (Rx_Text to_time_placeholder)),
      (''block_height'', predicate_rx ''block_height'' ''<='' (Rx_Text max_height_placeholder))]"
  "tp_required_placeholders (policy_of analytics_balances_current_table) = [max_height_placeholder]"
  "tp_predicates (policy_of analytics_balances_current_table) =
     [(''as_of_block_height'', predicate_rx ''as_of_block_height'' ''<='' (Rx_Text max_height_placeholder))]"
  "tp_required_placeholders (policy_of mempool_samples_table) = [from_time_placeholder, to_time_placeholder]"
  "tp_predicates (policy_of mempool_samples_table) =
     [(''sampled_at'', predicate_rx ''sampled_at'' ''>='' (date_bound_rx from_time_placeholder)),
      (''sampled_at'', predicate_rx ''sampled_at'' ''<'' (date_bound_rx to_time_placeholder))]"
  by (simp_all add: policy_of_def table_predicate_policies_def analytics_transactions_table_def
      analytics_balances_current_table_def mempool_samples_table_def)

lemma policies_iff:
  assumes "set tables = S \<inter> set analytics_allowed_tables"
  shows "assert_table_predicate_policies sql tables = Inr () \<longleftrightarrow> bounded_tables sql S"
proof -
  have mem: "t \<in> set tables \<longleftrightarrow> t \<in> S \<and> (t = analytics_transactions_table
      \<or> t = analytics_balances_current_table \<or> t = mempool_samples_table)" for t
    using assms by (auto simp: analytics_allowed_tables_def)
  have "assert_table_predicate_policies sql tables = Inr () \<longleftrightarrow>
      (\<forall>t \<in> set tables. (\<forall>p \<in> set (tp_predicates (policy_of t)). rx_test (snd p) (strip_sql_comments_and_strings sql))
         \<and> (\<forall>p \<in> set (tp_required_placeholders (policy_of t)). js_includes p sql))"
    unfolding assert_table_predicate_policies_def Let_def and_then_Inr_iff
    by (auto simp: fold_res_unit assert_table_predicates_iff assert_required_placeholders_iff)
  also have "\<dots> \<longleftrightarrow> bounded_tables sql S"
    unfolding bounded_tables_def Let_def Ball_def mem
    by (auto simp: rx_test_predicate date_bound_holds same_text_def)
  finally show ?thesis .
qed

lemma assert_select_ast_iff:
  "assert_select_ast ast = Inr () \<longleftrightarrow> is_select ast
     \<and> (\<forall>item \<in> set (with_items ast). is_record item \<and> has_own_prop item ''stmt'' \<longrightarrow> is_select (own_prop item ''stmt''))"
  unfolding assert_select_ast_def collect_select_statements_def by (auto simp: list_all_iff)

text \<open>The first name that is neither curated nor defined by the statement.\<close>

lemma find_first:
  assumes "\<not> P d"
  shows "(case find (\<lambda>x. \<not> P x) xs of Some x \<Rightarrow> x = d | None \<Rightarrow> True)
     \<longleftrightarrow> (\<forall>before x after. xs = before @ x # after \<longrightarrow> d \<notin> set (before @ [x]) \<longrightarrow> P x)"
proof (cases "find (\<lambda>x. \<not> P x) xs")
  case None
  then have "\<forall>x \<in> set xs. P x" by (simp add: find_None_iff)
  then show ?thesis unfolding None by simp
next
  case (Some y)
  then obtain i where i: "i < length xs" "\<not> P (xs ! i)" "y = xs ! i" "\<forall>j < i. P (xs ! j)"
    by (auto simp: find_Some_iff)
  have take: "x \<in> set (take i xs) \<Longrightarrow> P x" for x using i(1,4) by (auto simp: in_set_conv_nth)
  have split: "xs = take i xs @ y # drop (Suc i) xs" using i(1,3) by (simp add: id_take_nth_drop)
  show ?thesis
  proof
    assume "case find (\<lambda>x. \<not> P x) xs of Some x \<Rightarrow> x = d | None \<Rightarrow> True"
    then have y: "y = d" using Some by simp
    show "\<forall>before x after. xs = before @ x # after \<longrightarrow> d \<notin> set (before @ [x]) \<longrightarrow> P x"
    proof (intro allI impI)
      fix before x after assume xs: "xs = before @ x # after" and d: "d \<notin> set (before @ [x])"
      have "\<not> i < length (before @ [x])"
      proof
        assume "i < length (before @ [x])"
        then have "xs ! i \<in> set (before @ [x])" using xs by (auto simp: nth_append)
        then show False using d y i(3) by simp
      qed
      then have "P (xs ! length before)" using i(4) by simp
      then show "P x" using xs by simp
    qed
  next
    assume all: "\<forall>before x after. xs = before @ x # after \<longrightarrow> d \<notin> set (before @ [x]) \<longrightarrow> P x"
    have "d \<in> set (take i xs @ [y])" using all split i(2,3) by blast
    then have "y = d" using take assms by auto
    then show "case find (\<lambda>x. \<not> P x) xs of Some x \<Rightarrow> x = d | None \<Rightarrow> True" using Some by simp
  qed
qed

lemma all_map_splits:
  "(\<forall>b x a. map f xs = b @ x # a \<longrightarrow> Q b x) \<longleftrightarrow> (\<forall>b x a. xs = b @ x # a \<longrightarrow> Q (map f b) (f x))"
proof
  assume all: "\<forall>b x a. xs = b @ x # a \<longrightarrow> Q (map f b) (f x)"
  show "\<forall>b x a. map f xs = b @ x # a \<longrightarrow> Q b x"
  proof (intro allI impI)
    fix b x a assume "map f xs = b @ x # a"
    then obtain b' x' a' where "xs = b' @ x' # a'" "b = map f b'" "x = f x'"
      by (auto simp: map_eq_append_conv map_eq_Cons_conv)
    then show "Q b x" using all by blast
  qed
qed auto

lemma allowed_tables_iff:
  "assert_allowed_tables ps sql ast = Inr tables \<longleftrightarrow>
     (\<exists>listed. sp_table_list ps sql = Inr listed
       \<and> (\<exists>x \<in> set listed. table_list_name x \<in> set analytics_allowed_tables)
       \<and> (\<forall>before x after. listed = before @ x # after \<longrightarrow> [] \<notin> table_list_name ` set (before @ [x])
          \<longrightarrow> table_list_name x \<in> set analytics_allowed_tables \<union> set (collect_cte_names ast))
       \<and> tables = unique (filter (\<lambda>t. t \<in> set analytics_allowed_tables) (map table_list_name listed)))"
proof -
  let ?ok = "\<lambda>t. t \<in> set analytics_allowed_tables \<union> set (collect_cte_names ast)"
  have empty: "\<not> ?ok []"
    by (simp add: analytics_allowed_tables_def analytics_transactions_table_def
        analytics_balances_current_table_def mempool_samples_table_def collect_cte_names_def)
  have names: "(case find (\<lambda>t. \<not> ?ok t) (map table_list_name listed) of Some (c # cs) \<Rightarrow> False | _ \<Rightarrow> True) \<longleftrightarrow>
     (\<forall>before x after. listed = before @ x # after \<longrightarrow> [] \<notin> table_list_name ` set (before @ [x]) \<longrightarrow> ?ok (table_list_name x))"
    for listed
  proof -
    have "(case find (\<lambda>t. \<not> ?ok t) (map table_list_name listed) of Some (c # cs) \<Rightarrow> False | _ \<Rightarrow> True) \<longleftrightarrow>
       (case find (\<lambda>t. \<not> ?ok t) (map table_list_name listed) of Some x \<Rightarrow> x = [] | None \<Rightarrow> True)"
      by (auto split: option.splits list.splits)
    also have "\<dots> \<longleftrightarrow> (\<forall>before x after. map table_list_name listed = before @ x # after
        \<longrightarrow> [] \<notin> set (before @ [x]) \<longrightarrow> ?ok x)"
      by (rule find_first [of ?ok, OF empty])
    also have "\<dots> \<longleftrightarrow> (\<forall>before x after. listed = before @ x # after
        \<longrightarrow> [] \<notin> table_list_name ` set (before @ [x]) \<longrightarrow> ?ok (table_list_name x))"
      unfolding all_map_splits by simp
    finally show ?thesis .
  qed
  have branch: "(case z of None \<Rightarrow> if b then Inl e else Inr u | Some [] \<Rightarrow> if b then Inl e else Inr u
        | Some (c # cs) \<Rightarrow> Inl (err c cs)) = Inr tables \<longleftrightarrow>
      (case z of Some (c # cs) \<Rightarrow> False | _ \<Rightarrow> True) \<and> \<not> b \<and> tables = u"
    for z :: "string option" and b e err and u :: "string list"
    by (auto split: option.splits list.splits)
  have some: "filter (\<lambda>t. t \<in> A) (map f xs) = [] \<longleftrightarrow> \<not> (\<exists>x \<in> set xs. f x \<in> A)" for f xs and A :: "string set"
    by (auto simp: filter_empty_conv)
  have neither: "t \<notin> set analytics_allowed_tables \<and> t \<notin> set (collect_cte_names ast) \<longleftrightarrow> \<not> ?ok t" for t
    by simp
  show ?thesis
    unfolding assert_allowed_tables_def and_then_Inr_iff Let_def branch some neither names by blast
qed

lemma validate_analytics_sql_iff:
  "validate_analytics_sql ps input = Inr sql \<longleftrightarrow> sql = drop_final_semicolons (js_trim input) \<and> guarded_sql ps sql"
proof -
  have tables: "assert_table_predicate_policies sql
      (unique (filter (\<lambda>t. t \<in> set analytics_allowed_tables) (map table_list_name listed))) = Inr ()
      \<longleftrightarrow> bounded_tables sql (table_list_name ` set listed)" for sql listed
    by (rule policies_iff) auto
  have star: "assert_no_select_star ast = Inr () \<longleftrightarrow> \<not> contains_select_star ast" for ast
    by (simp add: assert_no_select_star_def)
  have statement: "(case ast of JArr xs \<Rightarrow> Inl e | _ \<Rightarrow> and_then (assert_select_ast ast) f) = Inr y
      \<longleftrightarrow> and_then (assert_select_ast ast) f = Inr y" for ast e f and y :: string
    by (cases ast) (simp_all add: assert_select_ast_def is_select_def)
  have "validate_analytics_sql ps input = Inr sql \<longleftrightarrow>
      normalize_sql input = Inr sql \<and> (\<exists>ast listed. sp_astify ps (sql_with_parser_placeholders sql) = Inr ast
          \<and> sp_table_list ps (sql_with_parser_placeholders sql) = Inr listed
          \<and> guarded_statement ast listed \<and> bounded_tables sql (table_list_name ` set listed))"
    unfolding validate_analytics_sql_def Let_def and_then_Inr_iff [of "normalize_sql input"]
      and_then_Inr_iff [of "sp_astify ps _"] statement
    by (auto simp: res_simps star assert_select_ast_iff allowed_tables_iff guarded_statement_def tables)
  then show ?thesis
    unfolding normalize_sql_iff no_disallowed_clause_iff guarded_sql_def Let_def by blast
qed

text \<open>
  C30. Exactly the guarded texts reach the database: a client's SQL is accepted when, without its
  final semicolons, it is at most 16384 characters of one statement, its text without comments and
  strings has none of the words FINAL, FORMAT, SETTINGS or INTO OUTFILE, the parser reads one
  SELECT over SELECTs with no star column, every table name (whatever its database, and up to the
  first empty one) is curated or defined by the statement, at least one curated table is read, and
  each curated table's time and height columns are compared with the server's placeholders.
\<close>

theorem sql_guard_exact:
  "validate_analytics_sql ps input = Inr sql \<longleftrightarrow> sql = drop_final_semicolons (js_trim input) \<and> guarded_sql ps sql"
  by (rule validate_analytics_sql_iff)

section \<open>What the guard does not see\<close>

text \<open>
  Comments are cut out before strings: two dashes inside a string count as a comment, and the rest
  of the line, which the database does read, is not looked at.
\<close>

definition plain_sql :: "string \<Rightarrow> bool" where
  "plain_sql s \<longleftrightarrow> list_all (\<lambda>c. c \<noteq> CHR ''/'' \<and> c \<noteq> CHR ''-'' \<and> c \<noteq> quote) s"

lemma strip_block_plain: "plain_sql a \<Longrightarrow> strip_block_comments (a @ s) = a @ strip_block_comments s"
  by (induction a) (auto simp: plain_sql_def starts_with_def)

lemma strip_line_plain: "plain_sql a \<Longrightarrow> strip_line_comments (a @ s) = a @ strip_line_comments s"
  by (induction a) (auto simp: plain_sql_def starts_with_def)

lemma strip_strings_plain: "plain_sql a \<Longrightarrow> strip_strings (a @ s) = a @ strip_strings s"
  by (induction a) (auto simp: plain_sql_def)

lemma strip_plain: "plain_sql a \<Longrightarrow> strip_sql_comments_and_strings a = a"
  using strip_block_plain [of a "[]"] strip_line_plain [of a "[]"] strip_strings_plain [of a "[]"]
  by (simp add: strip_sql_comments_and_strings_def)

lemma split_behind_word:
  assumes "a @ [c, d] = p @ s" and "ends_in_word p" and "\<not> is_word_char c" and "\<not> is_word_char d"
  obtains s' where "s = s' @ [c, d]" and "a = p @ s'"
proof (cases s rule: rev_cases)
  case Nil
  then have "last p = d" using assms(1) by (metis append_Nil2 last_snoc append_Cons append_Nil append_assoc)
  then show ?thesis using assms(2,4) by (simp add: ends_in_word_def)
next
  case (snoc s1 x)
  then have s1: "a @ [c] = p @ s1" "x = d"
    using assms(1) by (metis append_assoc append_Cons append_Nil butlast_snoc last_snoc)+
  show ?thesis
  proof (cases s1 rule: rev_cases)
    case Nil
    then have "last p = c" using s1(1) by (metis append_Nil2 last_snoc)
    then show ?thesis using assms(2,3) by (simp add: ends_in_word_def)
  next
    case (snoc s2 y)
    then have "y = c" "a = p @ s2" using s1(1) by (metis append_assoc last_snoc butlast_snoc)+
    then show ?thesis using snoc \<open>s = s1 @ [x]\<close> s1(2) that by simp
  qed
qed

lemma ends_in_word_append: "v \<noteq> [] \<Longrightarrow> ends_in_word (u @ v) = ends_in_word v"
  by (simp add: ends_in_word_def)

lemma not_starts_in_word_append: "\<not> starts_in_word (s @ t) \<Longrightarrow> \<not> starts_in_word s"
  by (cases s) (auto simp: starts_in_word_def)

lemma has_word_behind:
  assumes "has_word w (a @ [c, d])" and "\<not> is_word_char c" and "\<not> is_word_char d" and "ends_in_word w"
  shows "has_word w a"
proof -
  obtain u v s where t: "a @ [c, d] = (u @ v) @ s" "same_text v w" "\<not> ends_in_word u" "\<not> starts_in_word s"
    using assms(1) by (auto simp: has_word_def)
  have "ends_in_word (u @ v)"
    using same_text_facts [OF t(2)] assms(4) by (cases "v = []") (auto simp: ends_in_word_append ends_in_word_def)
  then obtain s' where "s = s' @ [c, d]" "a = (u @ v) @ s'" using split_behind_word [OF t(1) _ assms(2,3)] by blast
  then show ?thesis using t(2,3,4) not_starts_in_word_append unfolding has_word_def append_assoc by blast
qed

lemma has_two_words_behind:
  assumes "has_two_words v w (a @ [c, d])" and "\<not> is_word_char c" and "\<not> is_word_char d" and "ends_in_word w"
  shows "has_two_words v w a"
proof -
  obtain u x y z s where t: "a @ [c, d] = (u @ x @ y @ z) @ s" "same_text x v" "y \<noteq> []" "list_all is_js_space y"
      "same_text z w" "\<not> ends_in_word u" "\<not> starts_in_word s"
    using assms(1) by (auto simp: has_two_words_def)
  have "z \<noteq> []" "ends_in_word z" using same_text_facts [OF t(5)] assms(4) by (auto simp: ends_in_word_def)
  then have "ends_in_word (u @ x @ y @ z)" by (simp add: ends_in_word_def)
  then obtain s' where "s = s' @ [c, d]" "a = (u @ x @ y @ z) @ s'" using split_behind_word [OF t(1) _ assms(2,3)] by blast
  then show ?thesis using t(2-7) not_starts_in_word_append unfolding has_two_words_def append_assoc by blast
qed

text \<open>
  C31. A string of two dashes hides the rest of its line from the guard: whatever follows it, a
  FINAL, FORMAT or SETTINGS clause included, the guard searches only what stands before, so the
  clause is not refused although it stands outside every string and comment.
\<close>

theorem dashes_hide_clauses:
  assumes "plain_sql before" and "plain_sql behind" and "\<forall>c \<in> set behind. \<not> is_line_end c"
    and "assert_no_disallowed_sql_clauses before = Inr ()"
  shows "assert_no_disallowed_sql_clauses (before @ [quote, CHR ''-'', CHR ''-'', quote] @ behind) = Inr ()"
proof -
  have q: "plain_sql [CHR '' '']" "quote \<noteq> CHR ''/''" "quote \<noteq> CHR ''-''" "\<not> is_line_end quote"
    by (simp_all add: plain_sql_def quote_def is_line_end_def char_code_def)
  have "strip_block_comments ([quote, CHR ''-'', CHR ''-'', quote] @ behind) = [quote, CHR ''-'', CHR ''-'', quote] @ behind"
    using strip_block_plain [OF assms(2), of "[]"] q(2) by (simp add: starts_with_def)
  moreover have "strip_line_comments ([quote, CHR ''-'', CHR ''-'', quote] @ behind) = [quote, CHR '' '']"
  proof -
    have "dropWhile (\<lambda>x. \<not> is_line_end x) behind = []" using assms(3) by (simp add: dropWhile_eq_Nil_conv)
    then have "strip_line_comments (dropWhile (\<lambda>x. \<not> is_line_end x) behind) = []" by (simp only: strip_line_comments.simps)
    then show ?thesis using q(3,4) by (simp add: starts_with_def)
  qed
  moreover have "strip_strings [quote, CHR '' ''] = [quote, CHR '' '']" by (simp add: quote_def)
  ultimately have strip: "strip_sql_comments_and_strings (before @ [quote, CHR ''-'', CHR ''-'', quote] @ behind)
      = before @ [quote, CHR '' '']"
    using strip_block_plain [OF assms(1)] strip_line_plain [OF assms(1)] strip_strings_plain [OF assms(1)]
    by (simp add: strip_sql_comments_and_strings_def)
  have nonword: "\<not> is_word_char quote" "\<not> is_word_char (CHR '' '')" by code_simp+
  have "has_word w before" if "has_word w (before @ [quote, CHR '' ''])" "ends_in_word w" for w
    using has_word_behind [OF that(1) nonword that(2)] .
  moreover have "has_two_words ''INTO'' ''OUTFILE'' before"
    if "has_two_words ''INTO'' ''OUTFILE'' (before @ [quote, CHR '' ''])"
    using has_two_words_behind [OF that nonword] by simp
  ultimately show ?thesis
    using assms(4) unfolding no_disallowed_clause_iff strip strip_plain [OF assms(1)] Let_def by (meson words_not_empty)
qed

theorem dashes_hide_clauses_witness:
  "assert_no_disallowed_sql_clauses (''SELECT txid, '' @ [quote, CHR ''-'', CHR ''-'', quote] @ '' AS d FROM t FINAL'') = Inr ()
   \<and> assert_no_disallowed_sql_clauses (''SELECT txid FROM t FINAL'') \<noteq> Inr ()"
proof
  have "plain_sql ''SELECT txid, ''" "plain_sql '' AS d FROM t FINAL''"
    "list_all (\<lambda>c. \<not> is_line_end c) '' AS d FROM t FINAL''"
    "assert_no_disallowed_sql_clauses ''SELECT txid, '' = Inr ()"
    by code_simp+
  then show "assert_no_disallowed_sql_clauses (''SELECT txid, '' @ [quote, CHR ''-'', CHR ''-'', quote] @ '' AS d FROM t FINAL'') = Inr ()"
    by (intro dashes_hide_clauses) (simp_all add: list_all_iff)
qed code_simp

text \<open>
  A table is judged by its name alone: whatever database it is in, the guard decides the same, so a
  table of another database passes when it shares its name with a curated one or with a part of the
  statement's \<^verbatim>\<open>with\<close> clause.
\<close>

lemma split_colons_plain: "CHR '':'' \<notin> set s \<Longrightarrow> split_colons s = [s]"
  by (induction s rule: split_colons.induct) auto

lemma split_colons_append:
  "CHR '':'' \<notin> set s \<Longrightarrow> split_colons (s @ CHR '':'' # CHR '':'' # t) = s # split_colons t"
proof (induction s)
  case (Cons c s)
  then show ?case by (cases s) auto
qed simp

lemma table_list_name_qualified:
  assumes "CHR '':'' \<notin> set db" and "CHR '':'' \<notin> set name"
  shows "table_list_name (''select::'' @ db @ ''::'' @ name) = name"
proof -
  have "split_colons (''select'' @ CHR '':'' # CHR '':'' # db @ CHR '':'' # CHR '':'' # name) = [''select'', db, name]"
    using split_colons_append [of "''select''"] split_colons_append [OF assms(1)] split_colons_plain [OF assms(2)] by simp
  then show ?thesis by (simp add: table_list_name_def)
qed

lemma guard_ignores_database:
  assumes "CHR '':'' \<notin> set db" and "CHR '':'' \<notin> set db'" and "CHR '':'' \<notin> set name"
    and "p = sql_with_parser_placeholders (drop_final_semicolons (js_trim input))"
    and "sp_astify ps p = sp_astify ps' p"
    and "sp_table_list ps p = Inr (xs @ (''select::'' @ db @ ''::'' @ name) # ys)"
    and "sp_table_list ps' p = Inr (xs @ (''select::'' @ db' @ ''::'' @ name) # ys)"
  shows "validate_analytics_sql ps input = validate_analytics_sql ps' input"
proof (cases "normalize_sql input")
  case (Inr sql)
  then have p: "p = sql_with_parser_placeholders sql" using assms(4) by (simp add: normalize_sql_iff)
  have "assert_allowed_tables ps p ast = assert_allowed_tables ps' p ast" for ast
    unfolding assert_allowed_tables_def assms(6,7)
    by (simp add: table_list_name_qualified [OF assms(1,3), simplified] table_list_name_qualified [OF assms(2,3), simplified])
  then show ?thesis
    using Inr assms(5) unfolding validate_analytics_sql_def Let_def by (simp cong: json.case_cong add: p)
qed (simp add: validate_analytics_sql_def)

section \<open>An accepted text\<close>

definition sample_sql :: string where
  "sample_sql = ''SELECT address FROM analytics_balances_current_v1 WHERE as_of_block_height <= {maxFinalizedHeight:UInt64}''"

definition sample_parser :: sql_parser where
  "sample_parser =
     \<lparr>sp_astify = (\<lambda>_. Inr (JObj [(''with'', JNull), (''type'', JStr ''select''),
        (''columns'', JArr [JObj [(''expr'', JObj [(''type'', JStr ''function'')])]])])),
      sp_table_list = (\<lambda>_. Inr [''select::null::analytics_balances_current_v1''])\<rparr>"

lemma sample_sql_accepted: "validate_analytics_sql sample_parser ('' '' @ sample_sql @ '';'') = Inr sample_sql"
  by code_simp

end
