(* ===== verification/Analytics.thy ===== *)
theory Analytics
  imports Sql_Guard Access_Service Rate_Limiter Config_Keys Leader_Lease
begin

text \<open>
  The analytics service
  (\<^verbatim>\<open>modules/analytics-query/src/application/analytics-query-service.ts\<close>): the request and
  concurrency budgets of an API key, the time window, the readiness of the facts, and the way of a
  query through guard, estimate and execution. The answers of the configuration table and of the
  warehouse during one query are the fields of \<open>analytics_answers\<close>; the calls to the warehouse are
  recorded in order. Queries of any keys overlap: \<open>budget_step\<close> starts or settles one.
\<close>

section \<open>Limits, parameters and answers\<close>

definition analytics_query_max_window_seconds :: int where
  "analytics_query_max_window_seconds = 7 * 24 * 60 * 60"

definition analytics_query_default_limit :: int where
  "analytics_query_default_limit = 100"

definition analytics_query_max_result_rows :: int where
  "analytics_query_max_result_rows = 1000"

definition analytics_query_max_rows_to_read :: int where
  "analytics_query_max_rows_to_read = 50000000"

definition analytics_query_max_bytes_to_read :: int where
  "analytics_query_max_bytes_to_read = 5000000000"

definition analytics_query_max_execution_seconds :: int where
  "analytics_query_max_execution_seconds = 5"

definition analytics_query_max_concurrent_requests :: int where
  "analytics_query_max_concurrent_requests = 2"

definition analytics_rate_limit_policy :: rate_limit_policy where
  "analytics_rate_limit_policy = \<lparr>rp_max_requests = 30, rp_window_ms = 60000\<rparr>"

record analytics_query_input =
  qi_from :: string
  qi_limit :: "js_num option"
  qi_sql :: string
  qi_to :: string

record analytics_query_params =
  qp_from_time :: int
  qp_limit :: int
  qp_max_finalized_height :: js_num
  qp_to_time :: int

record analytics_query_limits =
  ql_max_bytes_to_read :: int
  ql_max_execution_seconds :: int
  ql_max_result_rows :: int
  ql_max_rows_to_read :: int

record analytics_query_estimate =
  qe_estimated_bytes :: "js_num option"
  qe_estimated_rows :: "js_num option"

record analytics_query_execution_result =
  qx_columns :: "(string \<times> string) list"
  qx_rows :: "json list"
  qx_statistics :: "js_num option \<times> js_num option \<times> js_num option"
  qx_warnings :: "string list"

record analytics_query_response =
  qr_hash :: string
  qr_from :: string
  qr_to :: string
  qr_finalized_block_height :: js_num
  qr_estimate :: analytics_query_estimate
  qr_result :: analytics_query_execution_result
  qr_limits :: analytics_query_limits
  qr_max_sql_characters :: nat
  qr_max_window_seconds :: int

record analytics_request =
  rq_sql :: string
  rq_params :: analytics_query_params
  rq_limits :: analytics_query_limits

record analytics_answers =
  aa_finalized_tail :: "json option res"
  aa_facts_ready :: "json option res"
  aa_facts_tail :: "json option res"
  aa_preflight :: "analytics_request \<Rightarrow> analytics_query_estimate res"
  aa_execute :: "analytics_request \<Rightarrow> analytics_query_execution_result res"

datatype analytics_call = Preflight_Call analytics_request | Execute_Call analytics_request

text \<open>\<^verbatim>\<open>a < b\<close> on numbers.\<close>

fun num_rat :: "js_num \<Rightarrow> rat" where
  "num_rat (JInt i) = of_int i"
| "num_rat (JDec q) = q"
| "num_rat _ = 0"

fun num_less :: "js_num \<Rightarrow> js_num \<Rightarrow> bool" where
  "num_less JNaN b = False"
| "num_less a JNaN = False"
| "num_less JPosInf b = False"
| "num_less a JNegInf = False"
| "num_less JNegInf b = True"
| "num_less a JPosInf = True"
| "num_less a b = (num_rat a < num_rat b)"

section \<open>The time window\<close>

record analytics_time_window =
  tw_from_iso :: string
  tw_from_time :: int
  tw_to_iso :: string
  tw_to_time :: int

definition parse_timestamp_seconds :: "date_text \<Rightarrow> string \<Rightarrow> string \<Rightarrow> int res" where
  "parse_timestamp_seconds dt v field =
     (let by_date = (case dt_parse dt v of
          JInt ms \<Rightarrow> Inr (ms div 1000)
        | JDec ms \<Rightarrow> Inr \<lfloor>ms / 1000\<rfloor>
        | _ \<Rightarrow> Inl (ValidationError (''invalid parameter for `'' @ field @ ''`: '' @ v))) in
      case js_number v of
        JInt i \<Rightarrow> if 0 \<le> i then Inr i else by_date
      | _ \<Rightarrow> by_date)"

text \<open>\<^verbatim>\<open>new Date(ms).toISOString()\<close>: times beyond 8.64e15 ms are invalid.\<close>

definition to_iso_string :: "date_text \<Rightarrow> int \<Rightarrow> string res" where
  "to_iso_string dt ms =
     (if \<bar>ms\<bar> \<le> 8640000000000000 then Inr (dt_iso dt ms) else Inl (RangeError ''Invalid time value''))"

definition parse_time_window :: "date_text \<Rightarrow> analytics_query_input \<Rightarrow> analytics_time_window res" where
  "parse_time_window dt inp =
     and_then (parse_timestamp_seconds dt (qi_from inp) ''from'') (\<lambda>from_time.
     and_then (parse_timestamp_seconds dt (qi_to inp) ''to'') (\<lambda>to_time.
     if to_time \<le> from_time then Inl (ValidationError ''invalid analytics time window'')
     else if analytics_query_max_window_seconds < to_time - from_time
     then Inl (ValidationError ''analytics time window cannot exceed 7 days'')
     else
       and_then (to_iso_string dt (from_time * 1000)) (\<lambda>from_iso.
       and_then (to_iso_string dt (to_time * 1000)) (\<lambda>to_iso.
       Inr \<lparr>tw_from_iso = from_iso, tw_from_time = from_time, tw_to_iso = to_iso, tw_to_time = to_time\<rparr>))))"

definition bounded_limit :: "js_num option \<Rightarrow> int res" where
  "bounded_limit limit =
     (case limit of
        None \<Rightarrow> Inr analytics_query_default_limit
      | Some (JInt i) \<Rightarrow>
          if i < 1 \<or> analytics_query_max_result_rows < i
          then Inl (ValidationError (''invalid parameter for `limit`: '' @ js_num_str (JInt i))) else Inr i
      | Some v \<Rightarrow> Inl (ValidationError (''invalid parameter for `limit`: '' @ js_num_str v)))"

definition analytics_query_params_of ::
  "analytics_time_window \<Rightarrow> js_num \<Rightarrow> js_num option \<Rightarrow> analytics_query_params res" where
  "analytics_query_params_of window finalized_tail limit =
     and_then (bounded_limit limit) (\<lambda>l.
     Inr \<lparr>qp_from_time = tw_from_time window, qp_limit = l, qp_max_finalized_height = finalized_tail,
          qp_to_time = tw_to_time window\<rparr>)"

definition analytics_query_limits_of :: analytics_query_limits where
  "analytics_query_limits_of =
     \<lparr>ql_max_bytes_to_read = analytics_query_max_bytes_to_read,
      ql_max_execution_seconds = analytics_query_max_execution_seconds,
      ql_max_result_rows = analytics_query_max_result_rows, ql_max_rows_to_read = analytics_query_max_rows_to_read\<rparr>"

definition assert_estimate_within_limits :: "js_num option \<Rightarrow> int \<Rightarrow> string \<Rightarrow> unit res" where
  "assert_estimate_within_limits estimated limit label =
     (case estimated of
        Some n \<Rightarrow>
          if num_less (JInt limit) n
          then Inl (ValidationError (''analytics query estimated '' @ label @ '' exceed limit'')) else Inr ()
      | None \<Rightarrow> Inr ())"

section \<open>One query\<close>

definition require_finalized_tail :: "json option \<Rightarrow> js_num res" where
  "require_finalized_tail v =
     (case v of Some (JNum n) \<Rightarrow> Inr n | _ \<Rightarrow> Inl (TooEarlyError ''dogecoin finalized chain is not ready''))"

text \<open>Both values are read before either is looked at.\<close>

definition assert_analytics_ready :: "json option \<Rightarrow> json option \<Rightarrow> js_num \<Rightarrow> unit res" where
  "assert_analytics_ready ready facts_tail finalized_tail =
     (case facts_tail of
        Some (JNum f) \<Rightarrow>
          if ready \<noteq> Some (JBool True) \<or> num_less f finalized_tail
          then Inl (TooEarlyError ''dogecoin analytics facts are not ready'') else Inr ()
      | _ \<Rightarrow> Inl (TooEarlyError ''dogecoin analytics facts are not ready''))"

definition call_warehouse :: "analytics_call \<Rightarrow> 'a res \<Rightarrow> (analytics_call list, 'a) eff" where
  "call_warehouse c answer = and_do (change (\<lambda>cs. cs @ [c])) (lift_res answer)"

definition execute_query ::
  "sql_parser \<Rightarrow> date_text \<Rightarrow> (string \<Rightarrow> string) \<Rightarrow> analytics_answers \<Rightarrow> analytics_query_input
     \<Rightarrow> (analytics_call list, analytics_query_response) eff" where
  "execute_query ps dt sha ans inp =
     then_do (lift_res (parse_time_window dt inp)) (\<lambda>window.
     then_do (lift_res (and_then (aa_finalized_tail ans) require_finalized_tail)) (\<lambda>finalized_tail.
     and_do (lift_res (and_then (aa_facts_ready ans) (\<lambda>ready. and_then (aa_facts_tail ans) (\<lambda>facts_tail.
       assert_analytics_ready ready facts_tail finalized_tail))))
     (then_do (lift_res (validate_analytics_sql ps (qi_sql inp))) (\<lambda>sql.
     then_do (lift_res (analytics_query_params_of window finalized_tail (qi_limit inp))) (\<lambda>params.
     let limits = analytics_query_limits_of; req = \<lparr>rq_sql = sql, rq_params = params, rq_limits = limits\<rparr> in
     then_do (call_warehouse (Preflight_Call req) (aa_preflight ans req)) (\<lambda>estimate.
     and_do (lift_res (assert_estimate_within_limits (qe_estimated_rows estimate) (ql_max_rows_to_read limits) ''rows''))
     (and_do (lift_res (assert_estimate_within_limits (qe_estimated_bytes estimate) (ql_max_bytes_to_read limits) ''bytes''))
     (then_do (call_warehouse (Execute_Call req) (aa_execute ans req)) (\<lambda>result.
     ret \<lparr>qr_hash = sha sql, qr_from = tw_from_iso window, qr_to = tw_to_iso window,
          qr_finalized_block_height = finalized_tail, qr_estimate = estimate, qr_result = result,
          qr_limits = limits, qr_max_sql_characters = analytics_query_max_sql_characters,
          qr_max_window_seconds = analytics_query_max_window_seconds\<rparr>)))))))))"

section \<open>Budgets\<close>

record analytics_service =
  as_active :: "(string, int) js_map"
  as_windows :: rate_limit_windows

definition analytics_budget_subject :: "int \<Rightarrow> string" where
  "analytics_budget_subject api_key_id = ''analytics:'' @ int_str api_key_id"

definition consume_analytics_rate_limit :: "int \<Rightarrow> string \<Rightarrow> (analytics_service, unit) eff" where
  "consume_analytics_rate_limit now subject s =
     (let (r, ws) = rate_limit_consume analytics_rate_limit_policy subject now (as_windows s) in
      (if rr_allowed r then Inr () else Inl (OnlyDogeError ''analytics rate limit exceeded'' 429),
       s\<lparr>as_windows := ws\<rparr>))"

definition active_queries :: "analytics_service \<Rightarrow> string \<Rightarrow> int" where
  "active_queries s subject = (case js_get (as_active s) subject of None \<Rightarrow> 0 | Some n \<Rightarrow> n)"

definition acquire_concurrency :: "string \<Rightarrow> (analytics_service, unit) eff" where
  "acquire_concurrency subject s =
     (let active = active_queries s subject in
      if analytics_query_max_concurrent_requests \<le> active
      then (Inl (OnlyDogeError ''analytics concurrency limit exceeded'' 429), s)
      else (Inr (), s\<lparr>as_active := js_set subject (active + 1) (as_active s)\<rparr>))"

definition release_concurrency :: "string \<Rightarrow> analytics_service \<Rightarrow> analytics_service" where
  "release_concurrency subject s =
     (let active = active_queries s subject in
      if active \<le> 1 then s\<lparr>as_active := AList.delete subject (as_active s)\<rparr>
      else s\<lparr>as_active := js_set subject (active - 1) (as_active s)\<rparr>)"

text \<open>A query up to its first asynchronous step.\<close>

definition begin_query :: "int \<Rightarrow> string \<Rightarrow> (analytics_service, unit) eff" where
  "begin_query now subject = and_do (consume_analytics_rate_limit now subject) (acquire_concurrency subject)"

record analytics_world =
  aw_service :: analytics_service
  aw_calls :: "analytics_call list"

text \<open>One whole query, its slot given back whether the query returns or throws.\<close>

definition analytics_query ::
  "sql_parser \<Rightarrow> date_text \<Rightarrow> (string \<Rightarrow> string) \<Rightarrow> analytics_answers \<Rightarrow> int \<Rightarrow> authenticated_api_key
     \<Rightarrow> analytics_query_input \<Rightarrow> (analytics_world, analytics_query_response) eff" where
  "analytics_query ps dt sha ans now actor inp w =
     (let subject = analytics_budget_subject (aa_api_key_id actor) in
      case begin_query now subject (aw_service w) of
        (Inl e, s) \<Rightarrow> (Inl e, w\<lparr>aw_service := s\<rparr>)
      | (Inr _, s) \<Rightarrow>
          (case execute_query ps dt sha ans inp (aw_calls w) of
             (r, calls) \<Rightarrow> (r, w\<lparr>aw_service := release_concurrency subject s, aw_calls := calls\<rparr>)))"

section \<open>Filling the facts\<close>

definition set_config_value :: "(string \<Rightarrow> js_error option) \<Rightarrow> string \<Rightarrow> json \<Rightarrow> ((string, json) js_map, unit) eff" where
  "set_config_value failure key v =
     (case failure key of Some e \<Rightarrow> throw e | None \<Rightarrow> change (js_set key v))"

definition analytics_backfill ::
  "(string \<Rightarrow> js_error option) \<Rightarrow> (js_num \<Rightarrow> (js_num option \<times> js_num) res) \<Rightarrow> js_num option
     \<Rightarrow> ((string, json) js_map, js_num option \<times> js_num) eff" where
  "analytics_backfill failure fill requested =
     then_do (case requested of
        Some h \<Rightarrow> ret h
      | None \<Rightarrow> then_do (get_field (\<lambda>c. js_get c config_key_indexer_finalized_tail))
                 (\<lambda>v. lift_res (require_finalized_tail v))) (\<lambda>through.
     if num_less through (JInt 0) then throw (TooEarlyError ''dogecoin analytics facts are not ready'')
     else
       then_do (lift_res (fill through)) (\<lambda>(rows, filled).
       and_do (set_config_value failure config_key_dogecoin_analytics_facts_tail (JNum filled))
       (and_do (set_config_value failure config_key_dogecoin_analytics_facts_ready (JBool True))
       (ret (rows, filled)))))"

section \<open>No unguarded query reaches the warehouse\<close>

text \<open>What holds of every request to the warehouse, and of an estimate that lets it run.\<close>

definition guarded_request ::
  "sql_parser \<Rightarrow> date_text \<Rightarrow> analytics_answers \<Rightarrow> analytics_query_input \<Rightarrow> analytics_request \<Rightarrow> bool" where
  "guarded_request ps dt ans inp req \<longleftrightarrow>
     rq_sql req = drop_final_semicolons (js_trim (qi_sql inp)) \<and> guarded_sql ps (rq_sql req)
     \<and> parse_timestamp_seconds dt (qi_from inp) ''from'' = Inr (qp_from_time (rq_params req))
     \<and> parse_timestamp_seconds dt (qi_to inp) ''to'' = Inr (qp_to_time (rq_params req))
     \<and> qp_from_time (rq_params req) < qp_to_time (rq_params req)
     \<and> qp_to_time (rq_params req) - qp_from_time (rq_params req) \<le> 604800
     \<and> 1 \<le> qp_limit (rq_params req) \<and> qp_limit (rq_params req) \<le> 1000
     \<and> aa_finalized_tail ans = Inr (Some (JNum (qp_max_finalized_height (rq_params req))))
     \<and> aa_facts_ready ans = Inr (Some (JBool True))
     \<and> (\<exists>f. aa_facts_tail ans = Inr (Some (JNum f)) \<and> \<not> num_less f (qp_max_finalized_height (rq_params req)))
     \<and> rq_limits req = analytics_query_limits_of"

definition within_limits :: "analytics_query_estimate \<Rightarrow> bool" where
  "within_limits est \<longleftrightarrow>
     (\<forall>n. qe_estimated_rows est = Some n \<longrightarrow> \<not> num_less (JInt 50000000) n)
     \<and> (\<forall>n. qe_estimated_bytes est = Some n \<longrightarrow> \<not> num_less (JInt 5000000000) n)"

lemma then_do_call:
  "then_do (call_warehouse c answer) f cs =
     (case answer of Inl e \<Rightarrow> (Inl e, cs @ [c]) | Inr x \<Rightarrow> f x (cs @ [c]))"
  by (cases answer) (simp_all add: call_warehouse_def and_do_def then_do_def change_def lift_res_def)

lemma then_do_lift: "then_do (lift_res r) f s = (case r of Inl e \<Rightarrow> (Inl e, s) | Inr x \<Rightarrow> f x s)"
  by (simp add: then_do_def lift_res_def split: sum.split)

lemma parse_time_window_Inr:
  assumes "parse_time_window dt inp = Inr w"
  shows "parse_timestamp_seconds dt (qi_from inp) ''from'' = Inr (tw_from_time w)"
    and "parse_timestamp_seconds dt (qi_to inp) ''to'' = Inr (tw_to_time w)"
    and "tw_from_time w < tw_to_time w" and "tw_to_time w - tw_from_time w \<le> 604800"
  using assms by (auto simp: parse_time_window_def res_simps analytics_query_max_window_seconds_def split: if_splits)

lemma bounded_limit_Inr: "bounded_limit l = Inr i \<Longrightarrow> 1 \<le> i \<and> i \<le> 1000"
  by (auto simp: bounded_limit_def analytics_query_default_limit_def analytics_query_max_result_rows_def
      split: option.splits js_num.splits if_splits)

lemma require_finalized_tail_Inr: "require_finalized_tail v = Inr n \<longleftrightarrow> v = Some (JNum n)"
  by (auto simp: require_finalized_tail_def split: option.splits json.splits)

lemma assert_analytics_ready_Inr:
  "assert_analytics_ready r f t = Inr () \<longleftrightarrow> r = Some (JBool True) \<and> (\<exists>n. f = Some (JNum n) \<and> \<not> num_less n t)"
  by (auto simp: assert_analytics_ready_def split: option.splits json.splits)

lemma within_limits_iff:
  "within_limits est \<longleftrightarrow>
     assert_estimate_within_limits (qe_estimated_rows est) (ql_max_rows_to_read analytics_query_limits_of) ''rows'' = Inr ()
     \<and> assert_estimate_within_limits (qe_estimated_bytes est) (ql_max_bytes_to_read analytics_query_limits_of) ''bytes'' = Inr ()"
  by (auto simp: within_limits_def assert_estimate_within_limits_def analytics_query_limits_of_def
      analytics_query_max_rows_to_read_def analytics_query_max_bytes_to_read_def split: option.splits)

text \<open>The request a query makes, once everything before the first call has been checked.\<close>

definition prepared_request ::
  "sql_parser \<Rightarrow> date_text \<Rightarrow> analytics_answers \<Rightarrow> analytics_query_input \<Rightarrow> (analytics_time_window \<times> analytics_request) res" where
  "prepared_request ps dt ans inp =
     and_then (parse_time_window dt inp) (\<lambda>window.
     and_then (and_then (aa_finalized_tail ans) require_finalized_tail) (\<lambda>tail.
     and_then (and_then (aa_facts_ready ans) (\<lambda>ready. and_then (aa_facts_tail ans) (\<lambda>facts_tail.
       assert_analytics_ready ready facts_tail tail))) (\<lambda>_.
     and_then (validate_analytics_sql ps (qi_sql inp)) (\<lambda>sql.
     and_then (analytics_query_params_of window tail (qi_limit inp)) (\<lambda>params.
     Inr (window, \<lparr>rq_sql = sql, rq_params = params, rq_limits = analytics_query_limits_of\<rparr>))))))"

lemma prepared_request_guarded:
  assumes "prepared_request ps dt ans inp = Inr (w, req)" shows "guarded_request ps dt ans inp req"
proof -
  obtain tail ready facts_tail sql l where
    w: "parse_time_window dt inp = Inr w" and
    tail: "aa_finalized_tail ans = Inr (Some (JNum tail))" and
    ready: "aa_facts_ready ans = Inr ready" "aa_facts_tail ans = Inr facts_tail"
      "assert_analytics_ready ready facts_tail tail = Inr ()" and
    sql: "validate_analytics_sql ps (qi_sql inp) = Inr sql" and l: "bounded_limit (qi_limit inp) = Inr l" and
    req: "req = \<lparr>rq_sql = sql, rq_params = \<lparr>qp_from_time = tw_from_time w, qp_limit = l,
      qp_max_finalized_height = tail, qp_to_time = tw_to_time w\<rparr>, rq_limits = analytics_query_limits_of\<rparr>"
    using assms
    by (auto simp: prepared_request_def and_then_Inr_iff require_finalized_tail_Inr analytics_query_params_of_def)
  show ?thesis
    using parse_time_window_Inr [OF w] tail ready bounded_limit_Inr [OF l] sql
    by (auto simp: guarded_request_def req assert_analytics_ready_Inr validate_analytics_sql_iff)
qed

definition run_request ::
  "(string \<Rightarrow> string) \<Rightarrow> analytics_answers \<Rightarrow> analytics_time_window \<Rightarrow> analytics_request
     \<Rightarrow> (analytics_call list, analytics_query_response) eff" where
  "run_request sha ans w req =
     then_do (call_warehouse (Preflight_Call req) (aa_preflight ans req)) (\<lambda>est.
     and_do (lift_res (assert_estimate_within_limits (qe_estimated_rows est) (ql_max_rows_to_read analytics_query_limits_of) ''rows''))
     (and_do (lift_res (assert_estimate_within_limits (qe_estimated_bytes est) (ql_max_bytes_to_read analytics_query_limits_of) ''bytes''))
     (then_do (call_warehouse (Execute_Call req) (aa_execute ans req)) (\<lambda>result.
     ret \<lparr>qr_hash = sha (rq_sql req), qr_from = tw_from_iso w, qr_to = tw_to_iso w,
          qr_finalized_block_height = qp_max_finalized_height (rq_params req), qr_estimate = est, qr_result = result,
          qr_limits = analytics_query_limits_of, qr_max_sql_characters = analytics_query_max_sql_characters,
          qr_max_window_seconds = analytics_query_max_window_seconds\<rparr>))))"

lemma execute_query_split:
  "execute_query ps dt sha ans inp =
     then_do (lift_res (prepared_request ps dt ans inp)) (\<lambda>(w, req). run_request sha ans w req)"
proof -
  have split_lift: "then_do (lift_res (and_then r g)) f = then_do (lift_res r) (\<lambda>x. then_do (lift_res (g x)) f)"
    for r :: "'x res" and g :: "'x \<Rightarrow> 'y res" and f :: "'y \<Rightarrow> (analytics_call list, analytics_query_response) eff"
    by (rule ext, cases r) (simp_all add: then_do_lift)
  have ok: "then_do (lift_res (Inr x)) f = f x"
    for x :: 'x and f :: "'x \<Rightarrow> (analytics_call list, analytics_query_response) eff"
    by (rule ext) (simp add: then_do_lift)
  show ?thesis
    unfolding execute_query_def prepared_request_def run_request_def and_do_def Let_def
      analytics_query_params_of_def split_lift ok prod.case
      analytics_request.simps analytics_query_params.simps by (rule refl)
qed

lemma run_request_calls:
  assumes "run_request sha ans w req calls = (r, calls')"
  shows "calls' = calls @ [Preflight_Call req] \<and> (\<exists>e. r = Inl e)
    \<or> calls' = calls @ [Preflight_Call req, Execute_Call req]
      \<and> (\<exists>est. aa_preflight ans req = Inr est \<and> within_limits est)
      \<and> (\<forall>resp. r = Inr resp \<longrightarrow> aa_execute ans req = Inr (qr_result resp) \<and> qr_hash resp = sha (rq_sql req)
           \<and> qr_finalized_block_height resp = qp_max_finalized_height (rq_params req))"
proof (cases "aa_preflight ans req")
  case (Inl e)
  then show ?thesis using assms by (auto simp: run_request_def then_do_call)
next
  case (Inr est)
  let ?rows = "assert_estimate_within_limits (qe_estimated_rows est) (ql_max_rows_to_read analytics_query_limits_of) ''rows''"
  let ?bytes = "assert_estimate_within_limits (qe_estimated_bytes est) (ql_max_bytes_to_read analytics_query_limits_of) ''bytes''"
  note run = assms [unfolded run_request_def and_do_def then_do_call Inr, simplified]
  show ?thesis
  proof (cases "within_limits est")
    case False
    then show ?thesis using run by (cases ?rows; cases ?bytes) (auto simp: within_limits_iff then_do_lift)
  next
    case True
    then show ?thesis
      using run Inr
      by (cases "aa_execute ans req") (auto simp: within_limits_iff then_do_lift then_do_call ret_def)
  qed
qed

text \<open>
  C29. Only guarded queries reach the analytics database. A query makes no call, or one estimate, or
  one estimate and one execution of the same request. That request has an accepted SQL text, a
  window of at least a second and at most seven days, a row limit between 1 and 1000, the finalized
  tail as its height bound, and is made only when the facts are ready up to that tail. It is executed only
  after an estimate that does not give more than 50 million rows or more than 5 GB, and what is
  returned is the execution's result. An estimate that gives no rows or no bytes is not held against the
  query: the in-memory store gives no bytes, and neither does the estimate statement of ClickHouse.
\<close>

theorem analytics_query_guarded:
  assumes "execute_query ps dt sha ans inp calls = (r, calls')"
  shows "calls' = calls \<and> (\<exists>e. r = Inl e)
    \<or> (\<exists>req. guarded_request ps dt ans inp req
        \<and> (calls' = calls @ [Preflight_Call req] \<and> (\<exists>e. r = Inl e)
           \<or> calls' = calls @ [Preflight_Call req, Execute_Call req]
             \<and> (\<exists>est. aa_preflight ans req = Inr est
                  \<and> (\<forall>rows. qe_estimated_rows est = Some rows \<longrightarrow> \<not> num_less (JInt 50000000) rows)
                  \<and> (\<forall>bytes. qe_estimated_bytes est = Some bytes \<longrightarrow> \<not> num_less (JInt 5000000000) bytes))
             \<and> (\<forall>resp. r = Inr resp \<longrightarrow> aa_execute ans req = Inr (qr_result resp) \<and> qr_hash resp = sha (rq_sql req)
                  \<and> qr_finalized_block_height resp = qp_max_finalized_height (rq_params req))))"
proof (cases "prepared_request ps dt ans inp")
  case (Inl e)
  then show ?thesis using assms by (auto simp: execute_query_split then_do_lift)
next
  case (Inr p)
  obtain w req where p: "p = (w, req)" by (cases p)
  then have "run_request sha ans w req calls = (r, calls')"
    using assms Inr by (simp add: execute_query_split then_do_lift)
  from run_request_calls [OF this, unfolded within_limits_def] prepared_request_guarded [OF Inr [unfolded p]] show ?thesis by blast
qed

section \<open>Overlapping queries\<close>

text \<open>
  Queries arrive (with the key's subject and the time) and settle in any order; \<open>bm_running\<close> holds the
  subjects of the queries under way, \<open>bm_passed\<close> the queries that the rate limit let through (also when
  the limit of overlapping queries refuses them then) and \<open>bm_admitted\<close> those that passed both budgets.
\<close>

datatype budget_event = Arrive string int | Settle string

record budget_machine =
  bm_service :: analytics_service
  bm_running :: "string list"
  bm_passed :: rate_log
  bm_admitted :: rate_log

fun budget_step :: "budget_event \<Rightarrow> budget_machine \<Rightarrow> budget_machine" where
  "budget_step (Arrive subject now) m =
     (let passed = (if is_ok (fst (consume_analytics_rate_limit now subject (bm_service m)))
                    then bm_passed m @ [(subject, now)] else bm_passed m) in
      case begin_query now subject (bm_service m) of
        (Inl e, s) \<Rightarrow> m\<lparr>bm_service := s, bm_passed := passed\<rparr>
      | (Inr _, s) \<Rightarrow> \<lparr>bm_service = s, bm_running = subject # bm_running m, bm_passed = passed,
                      bm_admitted = bm_admitted m @ [(subject, now)]\<rparr>)"
| "budget_step (Settle subject) m =
     (if subject \<in> set (bm_running m)
      then m\<lparr>bm_service := release_concurrency subject (bm_service m), bm_running := remove1 subject (bm_running m)\<rparr>
      else m)"

definition idle_budget :: budget_machine where
  "idle_budget = \<lparr>bm_service = \<lparr>as_active = [], as_windows = []\<rparr>, bm_running = [], bm_passed = [], bm_admitted = []\<rparr>"

definition budget_run :: "budget_event list \<Rightarrow> budget_machine" where
  "budget_run events = fold budget_step events idle_budget"

fun arrivals :: "budget_event list \<Rightarrow> (string \<times> int) list" where
  "arrivals [] = []"
| "arrivals (Arrive subject now # es) = (subject, now) # arrivals es"
| "arrivals (Settle subject # es) = arrivals es"

text \<open>How many queries of a subject are under way.\<close>

abbreviation running_of :: "budget_machine \<Rightarrow> string \<Rightarrow> nat" where
  "running_of m subject \<equiv> count (mset (bm_running m)) subject"

definition slots_ok :: "budget_machine \<Rightarrow> bool" where
  "slots_ok m \<longleftrightarrow> distinct (map fst (as_active (bm_service m)))
     \<and> (\<forall>s. js_get (as_active (bm_service m)) s =
           (if running_of m s = 0 then None else Some (int (running_of m s))) \<and> running_of m s \<le> 2)"

lemma begin_query_cases:
  "begin_query now subject s =
     (let (r, ws) = rate_limit_consume analytics_rate_limit_policy subject now (as_windows s) in
      if \<not> rr_allowed r then (Inl (OnlyDogeError ''analytics rate limit exceeded'' 429), s\<lparr>as_windows := ws\<rparr>)
      else if 2 \<le> active_queries s subject
      then (Inl (OnlyDogeError ''analytics concurrency limit exceeded'' 429), s\<lparr>as_windows := ws\<rparr>)
      else (Inr (), \<lparr>as_active = js_set subject (active_queries s subject + 1) (as_active s), as_windows = ws\<rparr>))"
  by (simp add: begin_query_def and_do_def then_do_def consume_analytics_rate_limit_def acquire_concurrency_def
      active_queries_def analytics_query_max_concurrent_requests_def Let_def split: prod.split)

lemma active_queries_running: "slots_ok m \<Longrightarrow> active_queries (bm_service m) s = int (running_of m s)"
  by (simp add: slots_ok_def active_queries_def)

lemma slots_ok_step:
  assumes "slots_ok m" shows "slots_ok (budget_step e m)"
proof (cases e)
  case (Arrive subject now)
  obtain r ws where c: "rate_limit_consume analytics_rate_limit_policy subject now (as_windows (bm_service m)) = (r, ws)"
    by (cases "rate_limit_consume analytics_rate_limit_policy subject now (as_windows (bm_service m))")
  show ?thesis
    using assms active_queries_running [OF assms, of subject]
    by (auto simp: Arrive begin_query_cases c slots_ok_def distinct_update update_conv')
next
  case (Settle subject)
  have "running_of m subject \<le> 2" using assms by (simp add: slots_ok_def)
  then have "running_of m subject - Suc 0 \<le> 2" by simp
  then show ?thesis
    using assms active_queries_running [OF assms, of subject]
    by (auto simp: Settle release_concurrency_def slots_ok_def Let_def distinct_update distinct_delete update_conv'
        delete_conv' count_greater_zero_iff simp flip: count_mset_0_iff)
qed

lemma budget_run_snoc: "budget_run (es @ [e]) = budget_step e (budget_run es)"
  by (simp add: budget_run_def)

lemma slots_ok_run: "slots_ok (budget_run es)"
  by (induction es rule: rev_induct) (simp_all add: budget_run_snoc slots_ok_step, simp add: budget_run_def idle_budget_def slots_ok_def)

lemma arrivals_append [simp]: "arrivals (es @ fs) = arrivals es @ arrivals fs"
  by (induction es rule: arrivals.induct) simp_all

text \<open>The windows are those of the limiter alone, and what is admitted was let through by it.\<close>

lemma budget_run_rate:
  "as_windows (bm_service (budget_run es)) = fst (rate_run analytics_rate_limit_policy (arrivals es))
     \<and> bm_passed (budget_run es) = snd (rate_run analytics_rate_limit_policy (arrivals es))
     \<and> (\<forall>subject a b. allowed_between subject a b (bm_admitted (budget_run es))
          \<le> allowed_between subject a b (snd (rate_run analytics_rate_limit_policy (arrivals es))))"
proof (induction es rule: rev_induct)
  case Nil
  show ?case by (simp add: budget_run_def idle_budget_def rate_run_def)
next
  case (snoc e es)
  show ?case
  proof (cases e)
    case (Arrive subject now)
    obtain r ws where c: "rate_limit_consume analytics_rate_limit_policy subject now
        (as_windows (bm_service (budget_run es))) = (r, ws)"
      by (cases "rate_limit_consume analytics_rate_limit_policy subject now (as_windows (bm_service (budget_run es)))")
    obtain ws0 passed where run: "rate_run analytics_rate_limit_policy (arrivals es) = (ws0, passed)"
      by (cases "rate_run analytics_rate_limit_policy (arrivals es)")
    have step: "rate_run analytics_rate_limit_policy (arrivals (es @ [e]))
        = rate_step analytics_rate_limit_policy (subject, now) (ws0, passed)"
      using run by (simp add: rate_run_def Arrive)
    show ?thesis
      using snoc run c unfolding step
      by (auto simp: Arrive budget_run_snoc begin_query_cases rate_step_def consume_analytics_rate_limit_def le_SucI)
  next
    case (Settle subject)
    then show ?thesis using snoc by (simp add: budget_run_snoc release_concurrency_def Let_def)
  qed
qed

text \<open>
  C32. The analytics budgets under overlap. However queries of any keys arrive and settle, at most
  two of a key are under way, at most 60 are admitted in any minute, and when none is under way no
  slot is held. With two of its key under way a query is refused; with fewer it is admitted whenever
  the rate limit let fewer than 30 queries of the key through in the last minute. The queries the rate
  limit refused do not count towards the 30, those it let through and the limit of overlapping queries
  refused do.
\<close>

theorem analytics_budget_holds:
  assumes "sorted (map snd (arrivals es))" and "\<forall>r \<in> set (arrivals es). snd r \<le> now"
  shows "running_of (budget_run es) subject \<le> 2
    \<and> allowed_between subject t (t + 60000) (bm_admitted (budget_run es)) \<le> 60
    \<and> (bm_running (budget_run es) = [] \<longrightarrow> as_active (bm_service (budget_run es)) = [])
    \<and> (running_of (budget_run es) subject < 2
        \<and> allowed_between subject (now + 1 - 60000) (now + 1) (bm_passed (budget_run es)) < 30
        \<longrightarrow> fst (begin_query now subject (bm_service (budget_run es))) = Inr ())
    \<and> (running_of (budget_run es) subject = 2
        \<longrightarrow> \<not> is_ok (fst (begin_query now subject (bm_service (budget_run es)))))"
proof -
  let ?m = "budget_run es"
  obtain ws passed where run: "rate_run analytics_rate_limit_policy (arrivals es) = (ws, passed)"
    by (cases "rate_run analytics_rate_limit_policy (arrivals es)")
  have pos: "0 < rp_max_requests analytics_rate_limit_policy" "0 < rp_window_ms analytics_rate_limit_policy"
    by (simp_all add: analytics_rate_limit_policy_def)
  have slots: "slots_ok ?m" by (rule slots_ok_run)
  have empty: "as_active (bm_service ?m) = []" if "bm_running ?m = []"
  proof -
    have "js_get (as_active (bm_service ?m)) = Map.empty" using slots that by (intro ext) (simp add: slots_ok_def)
    then show ?thesis unfolding map_of_eq_empty_iff .
  qed
  have "int (allowed_between subject t (t + 60000) passed) \<le> 60"
    using rate_run_double_budget [OF pos assms(1) run, of subject t] by (simp add: analytics_rate_limit_policy_def)
  then have minute: "allowed_between subject t (t + 60000) (bm_admitted ?m) \<le> 60"
    using budget_run_rate [of es] run by (auto intro: order.trans)
  have "fst (begin_query now subject (bm_service ?m)) = Inr ()"
    if "running_of ?m subject < 2" "allowed_between subject (now + 1 - 60000) (now + 1) (bm_passed ?m) < 30"
  proof -
    have "rr_allowed (fst (rate_limit_consume analytics_rate_limit_policy subject now ws))"
      using rate_refusal_spent [OF pos assms run, of subject] that(2) budget_run_rate [of es] run
      by (simp add: analytics_rate_limit_policy_def)
    then show ?thesis
      using that(1) active_queries_running [OF slots, of subject] budget_run_rate [of es] run
      by (cases "rate_limit_consume analytics_rate_limit_policy subject now ws") (simp add: begin_query_cases)
  qed
  moreover have "\<not> is_ok (fst (begin_query now subject (bm_service ?m)))" if "running_of ?m subject = 2"
    using that active_queries_running [OF slots, of subject]
    by (cases "rate_limit_consume analytics_rate_limit_policy subject now (as_windows (bm_service ?m))")
      (simp add: begin_query_cases)
  moreover have "running_of ?m subject \<le> 2" using slots by (simp add: slots_ok_def)
  ultimately show ?thesis using minute empty by blast
qed

section \<open>An example\<close>

definition sample_analytics_answers :: analytics_answers where
  "sample_analytics_answers =
     \<lparr>aa_finalized_tail = Inr (Some (JNum (JInt 10))), aa_facts_ready = Inr (Some (JBool True)),
      aa_facts_tail = Inr (Some (JNum (JInt 10))),
      aa_preflight = (\<lambda>_. Inr \<lparr>qe_estimated_bytes = Some (JInt 200), qe_estimated_rows = Some (JInt 2)\<rparr>),
      aa_execute = (\<lambda>_. Inr \<lparr>qx_columns = [(''average'', ''Int256'')], qx_rows = [JObj [(''average'', JStr ''100'')]],
        qx_statistics = (None, None, None), qx_warnings = []\<rparr>)\<rparr>"

definition sample_analytics_query :: analytics_query_input where
  "sample_analytics_query = \<lparr>qi_from = ''1000'', qi_limit = Some (JInt 1), qi_sql = '' '' @ sample_sql @ '';'', qi_to = ''2000''\<rparr>"

lemma sample_query_runs:
  "\<exists>resp req. execute_query sample_parser sample_dates (\<lambda>s. ''hash'') sample_analytics_answers sample_analytics_query []
     = (Inr resp, [Preflight_Call req, Execute_Call req])"
proof -
  have num: "js_number ''1000'' = JInt 1000" "js_number ''2000'' = JInt 2000"
  proof -
    have "all_digits ''1000''" "digits_value ''1000'' = 1000" "all_digits ''2000''" "digits_value ''2000'' = 2000"
      by code_simp+
    then show "js_number ''1000'' = JInt 1000" "js_number ''2000'' = JInt 2000" by (simp_all add: js_number_digits)
  qed
  have w: "parse_time_window sample_dates sample_analytics_query =
      Inr \<lparr>tw_from_iso = int_str 1000000, tw_from_time = 1000, tw_to_iso = int_str 2000000, tw_to_time = 2000\<rparr>"
    by (simp add: parse_time_window_def parse_timestamp_seconds_def sample_analytics_query_def num to_iso_string_def
        analytics_query_max_window_seconds_def sample_dates_def)
  have sql: "validate_analytics_sql sample_parser (qi_sql sample_analytics_query) = Inr sample_sql"
    by (simp add: sample_analytics_query_def sample_sql_accepted [simplified])
  have l: "bounded_limit (qi_limit sample_analytics_query) = Inr 1" by code_simp
  show ?thesis
    unfolding execute_query_split prepared_request_def w sql analytics_query_params_of_def l
    by (simp add: then_do_lift sample_analytics_answers_def require_finalized_tail_def assert_analytics_ready_def
        run_request_def then_do_call and_do_def assert_estimate_within_limits_def analytics_query_limits_of_def
        analytics_query_max_rows_to_read_def analytics_query_max_bytes_to_read_def ret_def)
qed

theorem analytics_query_guarded_witness:
  "case execute_query sample_parser sample_dates (\<lambda>s. ''hash'') sample_analytics_answers sample_analytics_query [] of
     (Inr resp, [Preflight_Call req, Execute_Call _]) \<Rightarrow>
       guarded_request sample_parser sample_dates sample_analytics_answers sample_analytics_query req
       \<and> aa_execute sample_analytics_answers req = Inr (qr_result resp)
   | _ \<Rightarrow> False"
proof -
  obtain resp req where run: "execute_query sample_parser sample_dates (\<lambda>s. ''hash'') sample_analytics_answers
      sample_analytics_query [] = (Inr resp, [Preflight_Call req, Execute_Call req])" using sample_query_runs by blast
  from analytics_query_guarded [OF run] show ?thesis unfolding run by auto
qed

theorem analytics_budget_holds_witness:
  "let es = [Arrive ''k'' 0, Arrive ''k'' 1, Arrive ''k'' 2, Settle ''k''] in
     running_of (budget_run es) ''k'' = 1 \<and> allowed_between ''k'' 0 60000 (bm_admitted (budget_run es)) \<le> 60
     \<and> fst (begin_query 3 ''k'' (bm_service (budget_run es))) = Inr ()"
proof -
  let ?es = "[Arrive ''k'' 0, Arrive ''k'' 1, Arrive ''k'' 2, Settle ''k'']"
  have run: "running_of (budget_run ?es) ''k'' = 1" "allowed_between ''k'' (3 + 1 - 60000) (3 + 1) (bm_passed (budget_run ?es)) < 30"
    by code_simp+
  have "sorted (map snd (arrivals ?es))" "\<forall>r \<in> set (arrivals ?es). snd r \<le> 3" by simp_all
  from analytics_budget_holds [OF this, of "''k''" 0] run show ?thesis by (simp add: Let_def)
qed

section \<open>Facts once filled\<close>

text \<open>
  After a successful fill through a height the facts count as ready up to it; a fill that fails
  leaves the mark of readiness as it was.
\<close>

lemma backfill_makes_ready:
  assumes "analytics_backfill failure fill requested c = (r, c')"
  shows "(case r of
     Inr (rows, filled) \<Rightarrow>
       \<not> num_less filled tail \<longrightarrow>
       assert_analytics_ready (js_get c' config_key_dogecoin_analytics_facts_ready)
         (js_get c' config_key_dogecoin_analytics_facts_tail) tail = Inr ()
   | Inl _ \<Rightarrow> js_get c' config_key_dogecoin_analytics_facts_ready = js_get c config_key_dogecoin_analytics_facts_ready)"
proof -
  have keys: "config_key_dogecoin_analytics_facts_ready \<noteq> config_key_dogecoin_analytics_facts_tail"
    by (simp add: config_key_dogecoin_analytics_facts_ready_def config_key_dogecoin_analytics_facts_tail_def)
  show ?thesis
    using assms keys
    unfolding analytics_backfill_def set_config_value_def and_do_def
    by (auto simp: then_do_def lift_res_def get_field_def ret_def throw_def change_def assert_analytics_ready_Inr
        update_conv' split: option.splits sum.splits prod.splits if_splits)
qed

end
