(* ===== verification/Analytics_Schema.thy ===== *)
theory Analytics_Schema
  imports Analytics
begin

text \<open>
  What the analytics API tells its clients (\<^verbatim>\<open>analyticsSchemaResponse\<close>): the curated tables with their
  columns, the constraints, and example queries. The description is checked against the guard: the
  columns a query must constrain are columns of the tables, and the guard accepts the examples.
\<close>

section \<open>The description\<close>

record schema_table =
  sb_name :: string
  sb_description :: string
  sb_columns :: "(string \<times> string \<times> string) list"

record schema_constraints =
  sc_max_window_seconds :: int
  sc_max_sql_characters :: nat
  sc_requires_finalized_blocks :: bool
  sc_placeholders :: "(string \<times> string \<times> string) list"
  sc_unsupported_questions :: "string list"

record analytics_schema =
  sr_tables :: "schema_table list"
  sr_constraints :: schema_constraints
  sr_examples :: "(string \<times> string) list"

text \<open>The lines of a template literal.\<close>

fun sql_lines :: "string list \<Rightarrow> string" where
  "sql_lines [] = []"
| "sql_lines [l] = l"
| "sql_lines (l # ls) = l @ CHR 0x0A # sql_lines ls"

definition schema_tables :: "schema_table list" where
  "schema_tables =
     [\<lparr>sb_name = analytics_transactions_table,
        sb_description = ''Finalized Dogecoin transaction facts for AI analytics. Values ending in `_base_i256` are integer base units, where 100000000 base units equals 1 DOGE.'',
        sb_columns =
          [(''block_height'', ''UInt64'', ''Confirmed block height.''),
           (''block_hash'', ''String'', ''Confirmed block hash.''),
           (''block_time'', ''UInt64'', ''Block timestamp in Unix seconds.''),
           (''txid'', ''String'', ''Dogecoin transaction id.''),
           (''tx_index'', ''UInt64'', ''Transaction index within the block.''),
           (''is_coinbase'', ''UInt8'', ''1 for coinbase transactions.''),
           (''input_count'', ''UInt64'', ''Transaction input count.''),
           (''output_count'', ''UInt64'', ''Transaction output count.''),
           (''total_input_base_i256'', ''Int256'', ''Resolved total input value in base units. Coinbase rows are 0.''),
           (''gross_output_base_i256'', ''Int256'', ''Gross output value in base units. This includes change outputs.''),
           (''fee_base_i256'', ''Nullable(Int256)'', ''Resolved fee in base units. Coinbase or unresolved-fee rows are NULL.'')]\<rparr>,
      \<lparr>sb_name = analytics_balances_current_table,
        sb_description = ''Current finalized Dogecoin address balances for richest-address and balance-distribution analytics.'',
        sb_columns =
          [(''address'', ''String'', ''Dogecoin address.''),
           (''asset_address'', ''String'', ''Native DOGE asset marker.''),
           (''balance'', ''String'', ''Current balance in base units as a decimal string.''),
           (''balance_i256'', ''Int256'', ''Current balance in base units for numeric sorting and aggregation.''),
           (''as_of_block_height'', ''UInt64'', ''Finalized block height used for this current balance snapshot.'')]\<rparr>,
      \<lparr>sb_name = mempool_samples_table,
        sb_description = ''Persisted verbose mempool transaction samples. Rows are retained for one hour.'',
        sb_columns =
          [(''sampled_at'', ''DateTime'', ''Sample timestamp.''),
           (''txid'', ''String'', ''Mempool transaction id.''),
           (''entry_time'', ''Nullable(UInt64)'', ''Transaction entry time from Dogecoin Core when available.''),
           (''height'', ''Nullable(UInt64)'', ''Node mempool height metadata when available.''),
           (''size_bytes'', ''Nullable(UInt64)'', ''Transaction virtual or serialized size in bytes when available.''),
           (''fee_base'', ''Nullable(String)'', ''Fee in base units when available.''),
           (''fee_rate_base_per_kilobyte'', ''Nullable(String)'', ''Fee rate in base units per kilobyte when available.'')]\<rparr>]"

definition schema_constraints :: schema_constraints where
  "schema_constraints =
     \<lparr>sc_max_window_seconds = analytics_query_max_window_seconds,
      sc_max_sql_characters = analytics_query_max_sql_characters,
      sc_requires_finalized_blocks = True,
      sc_placeholders =
        [(''fromTime'', ''{fromTime:UInt64}'',
          ''Inclusive Unix-second lower bound from the request `from` parameter.''),
         (''toTime'', ''{toTime:UInt64}'',
          ''Exclusive Unix-second upper bound from the request `to` parameter.''),
         (''maxFinalizedHeight'', ''{maxFinalizedHeight:UInt64}'',
          ''Finalized chain tail; include `block_height <= {maxFinalizedHeight:UInt64}`.'')],
      sc_unsupported_questions = [''change-adjusted economic transfer value'']\<rparr>"

definition schema_examples :: "(string \<times> string) list" where
  "schema_examples =
     [(''Average confirmed transaction fee in the requested window.'',
       sql_lines
         [''SELECT avgOrNull(fee_base_i256) AS average_fee_base'',
          ''FROM '' @ analytics_transactions_table,
          ''WHERE block_time >= {fromTime:UInt64}'',
          ''  AND block_time < {toTime:UInt64}'',
          ''  AND block_height <= {maxFinalizedHeight:UInt64}'',
          ''  AND is_coinbase = 0'']),
      (''Highest confirmed transaction fee in the requested window.'',
       sql_lines
         [''SELECT txid, block_height, block_time, fee_base_i256 AS fee_base'',
          ''FROM '' @ analytics_transactions_table,
          ''WHERE block_time >= {fromTime:UInt64}'',
          ''  AND block_time < {toTime:UInt64}'',
          ''  AND block_height <= {maxFinalizedHeight:UInt64}'',
          ''  AND is_coinbase = 0'',
          ''  AND fee_base_i256 IS NOT NULL'',
          ''ORDER BY fee_base_i256 DESC, block_height DESC, tx_index DESC'',
          ''LIMIT {limit:UInt64}'']),
      (''Biggest confirmed transactions by gross output value. Gross output includes change.'',
       sql_lines
         [''SELECT txid, block_height, block_time, gross_output_base_i256 AS gross_output_base'',
          ''FROM '' @ analytics_transactions_table,
          ''WHERE block_time >= {fromTime:UInt64}'',
          ''  AND block_time < {toTime:UInt64}'',
          ''  AND block_height <= {maxFinalizedHeight:UInt64}'',
          ''  AND is_coinbase = 0'',
          ''ORDER BY gross_output_base_i256 DESC, block_height DESC, tx_index DESC'',
          ''LIMIT {limit:UInt64}'']),
      (''Richest current Dogecoin addresses.'',
       sql_lines
         [''SELECT address, balance_i256 AS balance_base, as_of_block_height'',
          ''FROM '' @ analytics_balances_current_table,
          ''WHERE as_of_block_height <= {maxFinalizedHeight:UInt64}'',
          ''ORDER BY balance_i256 DESC, address ASC'',
          ''LIMIT {limit:UInt64}'']),
      (''Current mempool fee-rate distribution for the requested sample window.'',
       sql_lines
         [''SELECT count() AS sampled_transactions,'',
          ''       avgOrNull(toInt256OrNull(fee_rate_base_per_kilobyte)) AS average_fee_rate_base_per_kb,'',
          ''       quantileOrNull(0.5)(toInt256OrNull(fee_rate_base_per_kilobyte)) AS median_fee_rate_base_per_kb'',
          ''FROM '' @ mempool_samples_table,
          ''WHERE sampled_at >= toDateTime({fromTime:UInt64})'',
          ''  AND sampled_at < toDateTime({toTime:UInt64})''])]"

definition analytics_schema_response :: analytics_schema where
  "analytics_schema_response =
     \<lparr>sr_tables = schema_tables, sr_constraints = schema_constraints, sr_examples = schema_examples\<rparr>"

section \<open>The guard agrees with it\<close>

lemma accepted_by_parts:
  assumes "normalize_sql sql = Inr sql" and "assert_table_predicate_policies sql [table] = Inr ()"
    and "table \<in> set analytics_allowed_tables" and "table_list_name x = table"
    and "sp_astify ps (sql_with_parser_placeholders sql) = Inr ast"
    and "sp_table_list ps (sql_with_parser_placeholders sql) = Inr [x]"
    and "is_select ast" and "with_items ast = []" and "\<not> contains_select_star ast"
  shows "validate_analytics_sql ps sql = Inr sql"
proof -
  have "bounded_tables sql {table}" using policies_iff [of "[table]" "{table}" sql] assms(2,3) by simp
  moreover have "guarded_statement ast [x]"
    using assms(3,4,7,8,9) by (auto simp: guarded_statement_def Cons_eq_append_conv)
  ultimately have "guarded_sql ps sql"
    using assms(1,4,5,6) by (auto simp: guarded_sql_def normalize_sql_iff no_disallowed_clause_iff Let_def)
  moreover have "sql = drop_final_semicolons (js_trim sql)" using assms(1) by (simp add: normalize_sql_iff)
  ultimately show ?thesis unfolding validate_analytics_sql_iff by simp
qed

text \<open>The table each example reads.\<close>

definition example_tables :: "string list" where
  "example_tables = [analytics_transactions_table, analytics_transactions_table, analytics_transactions_table,
     analytics_balances_current_table, mempool_samples_table]"

lemma examples_short: "list_all (\<lambda>(d, sql). length sql \<le> analytics_query_max_sql_characters) schema_examples"
  by (simp add: schema_examples_def analytics_query_max_sql_characters_def analytics_transactions_table_def
      analytics_balances_current_table_def mempool_samples_table_def)

lemma examples_one_statement:
  "list_all (\<lambda>(d, sql). drop_final_semicolons (js_trim sql) = sql \<and> sql \<noteq> [] \<and> CHR '';'' \<notin> set sql) schema_examples"
  by code_simp

lemma examples_plain: "list_all (\<lambda>(d, sql). plain_sql sql) schema_examples"
  by code_simp

lemma examples_without_clauses:
  "list_all (\<lambda>(d, sql). list_all (\<lambda>p. \<not> rx_test (snd p) sql) disallowed_sql_patterns) schema_examples"
  by code_simp

lemma examples_constrained:
  "list_all2 (\<lambda>(d, sql) t. t \<in> set analytics_allowed_tables \<and> js_includes (''FROM '' @ t) sql
     \<and> list_all (\<lambda>p. rx_test (snd p) sql) (tp_predicates (policy_of t))
     \<and> list_all (\<lambda>p. js_includes p sql) (tp_required_placeholders (policy_of t))) schema_examples example_tables"
  by code_simp

lemma plain_without_clauses:
  assumes "plain_sql sql" and "list_all (\<lambda>p. \<not> rx_test (snd p) sql) disallowed_sql_patterns"
  shows "assert_no_disallowed_sql_clauses sql = Inr ()"
proof -
  have "find (\<lambda>(label, pattern). rx_test pattern sql) disallowed_sql_patterns = None"
    using assms(2) by (auto simp: find_None_iff list_all_iff)
  then show ?thesis by (simp add: assert_no_disallowed_sql_clauses_def strip_plain [OF assms(1)])
qed

lemma plain_constrained:
  assumes "plain_sql sql" and "list_all (\<lambda>p. rx_test (snd p) sql) (tp_predicates (policy_of t))"
    and "list_all (\<lambda>p. js_includes p sql) (tp_required_placeholders (policy_of t))"
  shows "assert_table_predicate_policies sql [t] = Inr ()"
  using assms(2,3)
  by (auto simp: assert_table_predicate_policies_def strip_plain [OF assms(1)] Let_def res_simps list_all_iff
      assert_table_predicates_iff assert_required_placeholders_iff)

text \<open>Whatever parser reads the text as one SELECT of the table without a star, the text is accepted.\<close>

definition accepts_example :: "string \<Rightarrow> string \<Rightarrow> bool" where
  "accepts_example table sql \<longleftrightarrow>
     (\<forall>ps fs db. sp_astify ps (sql_with_parser_placeholders sql) = Inr (JObj ((''type'', JStr ''select'') # fs))
        \<and> sp_table_list ps (sql_with_parser_placeholders sql) = Inr [''select::'' @ db @ ''::'' @ table]
        \<and> CHR '':'' \<notin> set db \<and> map_of fs ''with'' \<in> {None, Some JNull}
        \<and> \<not> contains_select_star (JObj ((''type'', JStr ''select'') # fs))
        \<longrightarrow> validate_analytics_sql ps sql = Inr sql)"

text \<open>
  The published description agrees with the guard. Every column that a query on a curated table must
  constrain is a published column of that table; and each of the five example queries, read by the
  parser as one SELECT of its table without a star, is accepted as it is printed.
\<close>

lemma schema_agrees_with_guard:
  "(\<forall>t \<in> set (sr_tables analytics_schema_response). sb_name t \<in> set analytics_allowed_tables
      \<and> fst ` set (tp_predicates (policy_of (sb_name t))) \<subseteq> fst ` set (sb_columns t))
   \<and> (\<forall>(description, sql) \<in> set (sr_examples analytics_schema_response).
      \<exists>table \<in> set analytics_allowed_tables. js_includes (''FROM '' @ table) sql \<and> accepts_example table sql)"
proof (intro conjI)
  have "list_all (\<lambda>t. sb_name t \<in> set analytics_allowed_tables
      \<and> list_all (\<lambda>p. fst p \<in> set (map fst (sb_columns t))) (tp_predicates (policy_of (sb_name t))))
      (sr_tables analytics_schema_response)"
    by (simp add: analytics_schema_response_def schema_tables_def analytics_allowed_tables_def)
  then show "\<forall>t \<in> set (sr_tables analytics_schema_response). sb_name t \<in> set analytics_allowed_tables
      \<and> fst ` set (tp_predicates (policy_of (sb_name t))) \<subseteq> fst ` set (sb_columns t)"
    by (auto simp: list_all_iff)
next
  show "\<forall>(description, sql) \<in> set (sr_examples analytics_schema_response).
      \<exists>table \<in> set analytics_allowed_tables. js_includes (''FROM '' @ table) sql \<and> accepts_example table sql"
  proof (rule ballI, clarify)
    fix description sql assume ex: "(description, sql) \<in> set (sr_examples analytics_schema_response)"
    then have mem: "(description, sql) \<in> set schema_examples" by (simp add: analytics_schema_response_def)
    obtain i where i: "i < length schema_examples" "schema_examples ! i = (description, sql)"
      using mem by (auto simp: in_set_conv_nth)
    have plain: "plain_sql sql" using examples_plain mem by (auto simp: list_all_iff)
    obtain table where t: "table \<in> set analytics_allowed_tables" "js_includes (''FROM '' @ table) sql"
        "assert_table_predicate_policies sql [table] = Inr ()"
      using list_all2_nthD [OF examples_constrained i(1)] i(2) plain_constrained [OF plain] by auto
    have clauses: "assert_no_disallowed_sql_clauses sql = Inr ()"
      using examples_without_clauses mem by (intro plain_without_clauses [OF plain]) (auto simp: list_all_iff)
    have norm: "normalize_sql sql = Inr sql"
      using examples_short examples_one_statement clauses mem
      by (auto simp: list_all_iff normalize_sql_iff)
    have colon: "CHR '':'' \<notin> set table"
      using t(1) by (auto simp: analytics_allowed_tables_def analytics_transactions_table_def
          analytics_balances_current_table_def mempool_samples_table_def)
    have "validate_analytics_sql ps sql = Inr sql"
      if "sp_astify ps (sql_with_parser_placeholders sql) = Inr (JObj ((''type'', JStr ''select'') # fs))"
        "sp_table_list ps (sql_with_parser_placeholders sql) = Inr [''select::'' @ db @ ''::'' @ table]"
        "CHR '':'' \<notin> set db" "map_of fs ''with'' \<in> {None, Some JNull}"
        "\<not> contains_select_star (JObj ((''type'', JStr ''select'') # fs))" for ps fs db
      by (rule accepted_by_parts [OF norm t(3,1) table_list_name_qualified [OF that(3) colon] that(1,2) _ _ that(5)])
        (use that(4) in \<open>auto simp: is_select_def with_items_def\<close>)
    then show "\<exists>table \<in> set analytics_allowed_tables. js_includes (''FROM '' @ table) sql \<and> accepts_example table sql"
      using t(1,2) unfolding accepts_example_def by blast
  qed
qed

end
