(* ===== verification/Spec2Isabelle.thy ===== *)
theory Spec2Isabelle
  imports Memory_Warehouse Key_Ranges Block_Ingest Indexer_Runs Access_Safety Http_Api Leader_Lease Prefetcher Explorer_Mempool Mempool_Detector Analytics_Schema
begin

text \<open>
  A verification library for \<^verbatim>\<open>platform.onlydoge.io\<close>, a Dogecoin explorer and analytics platform in
  TypeScript. An indexer follows a Dogecoin node, stores raw blocks and projects them into a ledger
  of outputs, movements and balances in a warehouse (ClickHouse); a metadata database (SQLite,
  Postgres or MySQL) holds the indexer's state, the leader lease, API keys and audit events; an
  HTTP server answers queries over both. Paths below are under \<^verbatim>\<open>src/packages\<close>; \<^verbatim>\<open>indexing\<close>,
  \<^verbatim>\<open>access-control\<close> stand for the modules \<^verbatim>\<open>modules/indexing-pipeline/src\<close>,
  \<^verbatim>\<open>modules/access-control/src\<close>.

  Parts of the program, in the order data passes them, with the theories that model them:

  \<^item> \<^bold>\<open>Prelude.\<close> \<open>Js_Base\<close> (errors of \<^verbatim>\<open>shared-kernel/src/domain/errors.ts\<close> as values, loops that may
    throw, number texts), \<open>Js_Map\<close> (\<^verbatim>\<open>Map\<close> and \<^verbatim>\<open>Set\<close>, with the store interface \<open>keyed_store\<close> as a
    locale), \<open>Js_Text\<close> (string library, \<^verbatim>\<open>Number(text)\<close>), \<open>Effects\<close> (asynchronous methods as state
    passing with errors, Hoare triples with an error postcondition).
  \<^item> \<^bold>\<open>Raw blocks.\<close> \<open>Byte_Reader\<close>, \<open>Dogecoin_Script\<close>, \<open>Raw_Block\<close> are
    \<^verbatim>\<open>platform/src/dogecoin-raw-block.ts\<close>: from the bytes of a block to its JSON snapshot, including
    AuxPoW headers, witness data of the parent coinbase, output scripts and addresses. The format is
    stated as an encoder, against which the decoder is proved.
  \<^item> \<^bold>\<open>Block parser.\<close> \<open>Block_Applications\<close> is \<^verbatim>\<open>indexing/domain/dogecoin-block.ts\<close>,
    \<^verbatim>\<open>transaction-ref.ts\<close> and the parsing half of \<^verbatim>\<open>indexing/application/core-dogecoin-indexer-service.ts\<close>:
    snapshots into outputs created and spent. \<open>Block_Ingest\<close> composes it with the decoder
    (\<^verbatim>\<open>decodeRawBlockSnapshot\<close> of \<^verbatim>\<open>platform/src/rpc.ts\<close>): bytes to ledger rows.
  \<^item> \<^bold>\<open>Amounts and projections.\<close> \<open>Amounts\<close> is \<^verbatim>\<open>indexing/domain/amounts.ts\<close>; \<open>Projection\<close> is
    \<^verbatim>\<open>indexing/domain/projection-models.ts\<close>, whose windows refine a replay of the batch, event by event.
  \<^item> \<^bold>\<open>Warehouse.\<close> \<open>Core_State\<close> is the core window logic of \<^verbatim>\<open>platform/src/warehouse.ts\<close> (which
    blocks are pending, shape checks, rows written, incremental balances); \<open>Key_Ranges\<close> is
    \<^verbatim>\<open>platform/src/clickhouse-core-dogecoin.ts\<close>; \<open>Memory_Warehouse\<close> and \<open>Memory_Port\<close> are the
    in-memory adapter of the same interface, first as functions, then statement by statement so that
    the state after a failure in the middle is visible.
  \<^item> \<^bold>\<open>Indexer.\<close> \<open>Raw_Sync\<close> (\<^verbatim>\<open>indexing/application/raw-block-sync.ts\<close>, \<^verbatim>\<open>concurrency.ts\<close>), \<open>Prefetcher\<close>
    (\<^verbatim>\<open>core-block-prefetcher.ts\<close>), \<open>Metadata\<close> (state row and configuration values of
    \<^verbatim>\<open>platform/src/metadata-store.ts\<close>), \<open>Config_Keys\<close>, \<open>Apply_Marker\<close> (\<^verbatim>\<open>core-apply-recovery.ts\<close>),
    \<open>Indexer_Plan\<close> (the pure decisions), \<open>Indexer\<close> (the service: iterations, stages, recovery),
    \<open>Indexer_Frame\<close>, \<open>Indexer_Safety\<close>, \<open>Indexer_Invariant\<close>, \<open>Indexer_Stages\<close>, \<open>Indexer_Runs\<close> (its
    invariant over all runs and failures), \<open>Leader_Lease\<close> (which process may index).
  \<^item> \<^bold>\<open>API.\<close> \<open>Value_Objects\<close> (\<^verbatim>\<open>shared-kernel/src/domain/value-objects.ts\<close>), \<open>Rate_Limiter\<close>,
    \<open>Access_Control\<close>, \<open>Access_Service\<close> (\<^verbatim>\<open>access-control\<close>: domain, application, and the key and audit
    tables of the metadata store), \<open>Access_Requests\<close> (token check, query filters and dispatch of
    \<^verbatim>\<open>infrastructure/http.ts\<close> and \<^verbatim>\<open>src/apps/api/src/index.ts\<close>), \<open>Access_Safety\<close> (its guarantees over
    sequences and interleavings of requests), \<open>Http_Api\<close> (errors, audit descriptors, cache policy).
  \<^item> \<^bold>\<open>Explorer.\<close> \<open>Explorer_Block\<close> (amounts, inputs and outputs of a block snapshot), \<open>Explorer_Query\<close>
    (search, blocks, transactions, addresses) and \<open>Explorer_Mempool\<close> (the node's mempool behind a
    shared cache) are \<^verbatim>\<open>modules/explorer-query/src\<close>; the stores it reads are a record of answers.
  \<^item> \<^bold>\<open>Mempool watches.\<close> \<open>Mempool_Watch\<close> (matching, the table of active watches, watch sessions, sampler
    rows) and \<open>Mempool_Detector\<close> (the detector: refresh, poll, raw transactions,
    status with compare-and-swap) are the \<^verbatim>\<open>mempool-*.ts\<close> files of \<^verbatim>\<open>platform/src\<close>.
  \<^item> \<^bold>\<open>Analytics.\<close> \<open>Sql_Guard\<close> (which SQL texts of a client reach the database, with the regular
    expressions of the code and their matcher), \<open>Analytics\<close> (budgets, time window, readiness, estimate
    and execution) and \<open>Analytics_Schema\<close> (the published description) are \<^verbatim>\<open>modules/analytics-query/src\<close>.

  What the groups of lemmas show. \<^emph>\<open>Decoding:\<close> every block the format can encode is read back, and
  bytes, snapshots, applications and rows agree along the way. \<^emph>\<open>Balances:\<close> what is kept
  incrementally is what a recomputation from the unspent outputs gives, never negative, and equal to
  the sum of the movements. \<^emph>\<open>Crash safety:\<close> after any failure of any statement the recovery of a
  window restores the state before it, and the tails an indexer stores never run ahead of the
  warehouse, over all runs and restarts. \<^emph>\<open>Concurrency:\<close> one fresh lease, in-order prefetching,
  checkpoints of interleaved sync attempts, budgets under overlapping requests. \<^emph>\<open>Access:\<close> an
  administrator always remains, only administrators change keys, protected answers are not cached.
  \<^emph>\<open>Reports:\<close> what the explorer, the watches and the detector report is on the chain or in the
  mempool, and what they miss is stated. Theorems of kind error state where the code falls short.

  Conventions. Heights, times, indexes and amounts are \<open>int\<close>: the code keeps them in the safe range
  of a double or in a BigInt, and the places where a number is rounded (\<^verbatim>\<open>Number(text)\<close>, \<open>to_fixed\<close>)
  write the rounding out. Strings are lists of code units below 256. A thrown error is a value
  \<open>Inl e\<close>; an asynchronous method is a function from the state to a result and the state it leaves
  (\<open>Effects\<close>). Stores that may fail take their failures from a script in the state, so a theorem over all
  scripts is a theorem over all failures and crashes. Events of processes that run side by side are
  lists of steps, so a theorem over all lists covers every interleaving at the granularity of one
  statement. Loops over bytes and block windows recurse on a measure proved to decrease; the retry
  loops (compare-and-swap, sync rounds, polling) run over a given list of answers or attempts, with
  theorems that say when a list is long enough.

  Arguments of the model. Digests, random values and UUIDs (\<^verbatim>\<open>node:crypto\<close>), the clock, the text of
  dates (with the law that parsing inverts printing where one is needed), \<^verbatim>\<open>localeCompare\<close>, the SQL
  \<^verbatim>\<open>LIKE\<close>, the answers of the Dogecoin node and the tree and table list of \<^verbatim>\<open>node-sql-parser\<close> are
  parameters; the hypotheses about them are named in the theorems that use them.

  Not modelled. The transport to the databases and the node (HTTP clients, sockets, request
  deadlines, chunking of large queries), migrations and table settings, the dialects of SQL, timers,
  the Postgres notifications of the mempool bus, throughput and ETA figures, log lines, texts of
  \<^verbatim>\<open>TypeError\<close>s, settings read from the environment, the files or buckets of raw blocks, Elysia's route
  registration, schemas and OpenAPI texts, and the start-up of the processes: they are glue or I/O
  without decisions of their own, or code outside the repository.
\<close>

end
